(* ===== verification/DBOS_Prelude.thy ===== *)
theory DBOS_Prelude
  imports Complex_Main "HOL-Library.Char_ord" "HOL-Library.List_Lexorder"
begin

text \<open>
  Prelude of the development: the values and errors of the program, the SQL statements the
  operations issue (SELECT, UPDATE, DELETE over a table that is a list of rows), and the generic
  lemmas on lists and keys that the components share.

  A table is the list of its rows in some physical order. Where the code orders a query, the
  model uses the stable \<open>sort_key\<close>, so ties come in table order; every theorem quantifies over the
  table, hence over every way the database may break ties.
\<close>

named_theorems sql_simps \<open>rewriting of SQL statements over tables\<close>
named_theorems inv_intros \<open>preservation of the schema constraints by single statements\<close>

section \<open>Values and errors\<close>

text \<open>
  The Python values that the code distinguishes, and the exceptions of \<^verbatim>\<open>_error.py\<close> that the
  modelled code raises, with their arguments, and the Python and database exceptions that reach its
  callers. A value may be an exception object, and a \<open>PortableWorkflowError\<close> (message, name, code,
  data) carries values.

  \<open>PDatetime t tz\<close> is a datetime with the time zone \<open>tz\<close> at the instant \<open>t\<close>, in microseconds since
  1970-01-01T00:00Z; a naive datetime (\<open>tz = None\<close>) has the instant its own reading names in UTC.
  \<open>PDate d\<close> is the date \<open>d\<close> days after 1970-01-01, and \<open>PDecimal\<close> holds the text that
  \<^verbatim>\<open>format(value, "f")\<close> gives.
\<close>

datatype dbos_error =
    DBOSException string
  | DBOSConflictingWorkflowError string string
  | DBOSNonExistentWorkflowError string string
  | MaxRecoveryAttemptsExceededError string int
  | DBOSUnexpectedStepError string int string string
  | DBOSPatchNondeterminismError string string
  | DBOSQueueDeduplicatedError string string string
  | DBOSAwaitedWorkflowCancelledError string
  | DBOSAwaitedWorkflowMaxRecoveryAttemptsExceeded string
  | DBOSWorkflowCancelledError string
  | DBOSWorkflowConflictIDError string
  | DBOSMaxStepRetriesExceeded string int "dbos_error list"
  | DBOSWorkflowFunctionNotFoundError string string
  | DBOSNotAuthorizedError string
  | DBOSRecoveryError string string
  | AppError string
  | PortableWorkflowError string string pyval pyval
  | AssertionError
  | ValueError
  | TypeError
  | PyException string
  | UniqueViolation
  | ForeignKeyViolation
and pyval =
    PNone | PBool bool | PInt int | PFloat rat | PStr string
  | PDatetime int "string option" | PDate int | PDecimal string
  | PList "pyval list" | PTuple "pyval list" | PSet "pyval list"
  | PDict "(pyval \<times> pyval) list"
  | PExn dbos_error | PObject string

type_synonym 'a res = "dbos_error + 'a"

text \<open>Sequencing of code that may raise: the first error is the result.\<close>

definition res_bind :: "'a res \<Rightarrow> ('a \<Rightarrow> 'b res) \<Rightarrow> 'b res" where
  "res_bind r f = (case r of Inl e \<Rightarrow> Inl e | Inr a \<Rightarrow> f a)"

fun res_map :: "('a \<Rightarrow> 'b res) \<Rightarrow> 'a list \<Rightarrow> 'b list res" where
  "res_map f [] = Inr []"
| "res_map f (x # xs) = res_bind (f x) (\<lambda>y. res_bind (res_map f xs) (\<lambda>ys. Inr (y # ys)))"

section \<open>SQL statements over a table\<close>

definition sql_update :: "('r \<Rightarrow> bool) \<Rightarrow> ('r \<Rightarrow> 'r) \<Rightarrow> 'r list \<Rightarrow> 'r list" where
  "sql_update P f t = map (\<lambda>r. if P r then f r else r) t"

definition sql_delete :: "('r \<Rightarrow> bool) \<Rightarrow> 'r list \<Rightarrow> 'r list" where
  "sql_delete P t = filter (\<lambda>r. \<not> P r) t"

text \<open>\<^verbatim>\<open>column IN (values)\<close>: NULL is in no list.\<close>

definition sql_in :: "'a option \<Rightarrow> 'a list \<Rightarrow> bool" where
  "sql_in c vs = (case c of None \<Rightarrow> False | Some x \<Rightarrow> x \<in> set vs)"

text \<open>\<^verbatim>\<open>LIMIT 1 OFFSET k\<close> and \<^verbatim>\<open>fetchone()\<close>: the row at a position, if there is one.\<close>

definition nth_row :: "nat \<Rightarrow> 'r list \<Rightarrow> 'r option" where
  "nth_row k rs = (case drop k rs of [] \<Rightarrow> None | r # _ \<Rightarrow> Some r)"

abbreviation fetchone :: "'r list \<Rightarrow> 'r option" where
  "fetchone rs \<equiv> nth_row 0 rs"

text \<open>\<^verbatim>\<open>ORDER BY a, b\<close> on integer columns: a stable sort by the last key, then by the first.\<close>

definition order_by2 :: "('r \<Rightarrow> int) \<Rightarrow> ('r \<Rightarrow> int) \<Rightarrow> 'r list \<Rightarrow> 'r list" where
  "order_by2 a b t = sort_key a (sort_key b t)"

definition max_opt :: "int list \<Rightarrow> int option" where
  "max_opt xs = (case xs of [] \<Rightarrow> None | y # ys \<Rightarrow> Some (foldl max y ys))"

section \<open>Generic lemmas\<close>

lemma res_bind_simps [simp]: "res_bind (Inl e) f = Inl e" "res_bind (Inr a) f = f a"
  by (simp_all add: res_bind_def)

lemma res_bind_Inr_iff: "res_bind r f = Inr b \<longleftrightarrow> (\<exists>a. r = Inr a \<and> f a = Inr b)"
  by (cases r) auto

lemma res_map_cong [fundef_cong]:
  "xs = ys \<Longrightarrow> (\<And>x. x \<in> set ys \<Longrightarrow> f x = g x) \<Longrightarrow> res_map f xs = res_map g ys"
  by (induction ys arbitrary: xs) auto

lemma res_map_Inr_iff:
  "res_map f xs = Inr ys \<longleftrightarrow> length ys = length xs \<and> (\<forall>i < length xs. f (xs ! i) = Inr (ys ! i))"
proof (induction xs arbitrary: ys)
  case (Cons x xs)
  show ?case
    by (cases ys) (auto simp: res_bind_Inr_iff Cons.IH All_less_Suc2)
qed auto

lemma set_sql_update [sql_simps]:
  "set (sql_update P f t) = f ` {r \<in> set t. P r} \<union> {r \<in> set t. \<not> P r}"
  by (auto simp: sql_update_def)

lemma set_sql_delete [sql_simps]: "set (sql_delete P t) = {r \<in> set t. \<not> P r}"
  by (auto simp: sql_delete_def)

lemma length_sql_update [simp]: "length (sql_update P f t) = length t"
  by (simp add: sql_update_def)

lemma map_key_sql_update [sql_simps]:
  assumes "\<And>r. P r \<Longrightarrow> key (f r) = key r"
  shows "map key (sql_update P f t) = map key t"
  using assms by (auto simp: sql_update_def)

lemma map_key_sql_delete_distinct [inv_intros]:
  "distinct (map key t) \<Longrightarrow> distinct (map key (sql_delete P t))"
  by (auto simp: sql_delete_def distinct_map intro: inj_on_subset)

lemma nth_row_SomeD: "nth_row k rs = Some r \<Longrightarrow> r \<in> set rs"
  by (metis in_set_dropD list.set_intros(1) list.simps(4) list.simps(5) neq_Nil_conv nth_row_def
      option.distinct(1) option.inject)

lemma nth_row_eq: "nth_row k rs = (if k < length rs then Some (rs ! k) else None)"
proof (cases "k < length rs")
  case True
  then have "drop k rs = rs ! k # drop (Suc k) rs" by (simp add: Cons_nth_drop_Suc)
  with True show ?thesis by (simp add: nth_row_def)
next
  case False
  then show ?thesis by (simp add: nth_row_def)
qed

lemma fetchone_Cons [simp]: "fetchone (r # rs) = Some r"
  by (simp add: nth_row_def)

lemma fetchone_Nil [simp]: "nth_row k [] = None"
  by (simp add: nth_row_def)

lemma fetchone_None_iff [simp]: "fetchone rs = None \<longleftrightarrow> rs = []"
  by (cases rs) auto

lemma set_order_by2 [simp]: "set (order_by2 a b t) = set t"
  by (simp add: order_by2_def)

lemma max_opt_None_iff [simp]: "max_opt xs = None \<longleftrightarrow> xs = []"
  by (cases xs) (auto simp: max_opt_def)

lemma foldl_max_ge: "x \<in> insert a (set xs) \<Longrightarrow> x \<le> foldl max (a::int) xs"
proof (induction xs arbitrary: a x)
  case (Cons y ys)
  have "max a y \<le> foldl max (max a y) ys" using Cons.IH [of "max a y"] by simp
  then show ?case using Cons.prems Cons.IH [of x "max a y"] by auto
qed simp

lemma foldl_max_in: "foldl max (a::int) xs \<in> insert a (set xs)"
proof (induction xs arbitrary: a)
  case (Cons y ys)
  then show ?case using Cons.IH [of "max a y"] by (auto simp: max_def split: if_splits)
qed simp

lemma max_opt_SomeD:
  assumes "max_opt xs = Some m"
  shows "m \<in> set xs" and "x \<in> set xs \<Longrightarrow> x \<le> m"
  using assms foldl_max_in foldl_max_ge
  by (cases xs; fastforce simp: max_opt_def)+

text \<open>A table with a primary key is a partial function of the key.\<close>

lemma distinct_key_eq:
  "distinct (map key t) \<Longrightarrow> r \<in> set t \<Longrightarrow> s \<in> set t \<Longrightarrow> key r = key s \<Longrightarrow> r = s"
  by (auto simp: distinct_map dest: inj_onD)

lemma filter_key_unique:
  assumes "distinct (map key t)" "r \<in> set t"
  shows "filter (\<lambda>x. key x = key r) t = [r]"
proof -
  have eq: "filter (\<lambda>x. key x = key r) t = filter (\<lambda>x. x = r) t"
    using assms by (intro filter_cong) (auto dest: distinct_key_eq)
  have "distinct t" using assms(1) by (simp add: distinct_map)
  then show ?thesis unfolding eq using assms(2)
    by (induction t) (auto simp: filter_empty_conv)
qed

end
