(* ===== verification/DBOS_Calendar.thy ===== *)
theory DBOS_Calendar
  imports DBOS_Prelude
begin

text \<open>
  The calendar that the cron iterator (\<^verbatim>\<open>dbos/_croniter.py\<close>) computes with: civil dates and times of day, the
  number of days since 1970-01-01, the day of the week and the addition of days and seconds, as Python's
  \<^verbatim>\<open>datetime\<close> has them. Months are numbered through: month \<open>M\<close> is month \<open>M mod 12 + 1\<close> of year \<open>M div 12\<close>.
\<close>

section \<open>Months\<close>

definition is_leap :: "int \<Rightarrow> bool" where
  "is_leap y \<longleftrightarrow> y mod 400 = 0 \<or> (y mod 4 = 0 \<and> y mod 100 \<noteq> 0)"

definition DAYS :: "int list" where
  "DAYS = [31, 28, 31, 30, 31, 30, 31, 31, 30, 31, 30, 31]"

definition month_days :: "int \<Rightarrow> int \<Rightarrow> int" where
  "month_days y m = DAYS ! nat (m - 1) + (if m = 2 \<and> is_leap y then 1 else 0)"

definition mdays :: "int \<Rightarrow> int" where
  "mdays M = month_days (M div 12) (M mod 12 + 1)"

text \<open>The days before a year and before a month of the year, as in \<^verbatim>\<open>date.toordinal\<close>; 1970-01-01 has the ordinal 719163.\<close>

definition days_before_year :: "int \<Rightarrow> int" where
  "days_before_year y = (let x = y - 1 in x * 365 + x div 4 - x div 100 + x div 400)"

definition DAYS_BEFORE_MONTH :: "int list" where
  "DAYS_BEFORE_MONTH = [0, 31, 59, 90, 120, 151, 181, 212, 243, 273, 304, 334]"

definition days_before_month :: "int \<Rightarrow> int \<Rightarrow> int" where
  "days_before_month y m = DAYS_BEFORE_MONTH ! nat (m - 1) + (if m > 2 \<and> is_leap y then 1 else 0)"

definition month_start :: "int \<Rightarrow> int" where
  "month_start M = days_before_year (M div 12) + days_before_month (M div 12) (M mod 12 + 1) + 1 - 719163"

lemma month_cases:
  fixes m :: int
  assumes "1 \<le> m" "m \<le> 12"
  obtains "m = 1" | "m = 2" | "m = 3" | "m = 4" | "m = 5" | "m = 6" | "m = 7" | "m = 8" | "m = 9" | "m = 10" | "m = 11" | "m = 12"
proof -
  have "m = 1 \<or> m = 2 \<or> m = 3 \<or> m = 4 \<or> m = 5 \<or> m = 6 \<or> m = 7 \<or> m = 8 \<or> m = 9 \<or> m = 10 \<or> m = 11 \<or> m = 12"
    using assms by arith
  with that show ?thesis by blast
qed

lemma month_days_bounds: "1 \<le> m \<Longrightarrow> m \<le> 12 \<Longrightarrow> 28 \<le> month_days y m \<and> month_days y m \<le> 31"
  by (elim month_cases) (simp_all add: month_days_def DAYS_def)

lemma mdays_bounds: "28 \<le> mdays M" "mdays M \<le> 31"
  using month_days_bounds [of "M mod 12 + 1" "M div 12"] by (simp_all add: mdays_def)

lemma div_pred: "(k::int) > 0 \<Longrightarrow> y div k = (y - 1) div k + (if y mod k = 0 then 1 else 0)"
proof -
  assume k: "k > 0"
  let ?q = "y div k" and ?r = "y mod k"
  have y: "y = k * ?q + ?r" "0 \<le> ?r" "?r < k" using k by simp_all
  show ?thesis
  proof (cases "?r = 0")
    case True
    with y have "y - 1 = k * (?q - 1) + (k - 1)" by (simp add: algebra_simps)
    then have "(y - 1) div k = ?q - 1" using k by (intro int_div_pos_eq [where r = "k - 1"]) simp_all
    with True show ?thesis by simp
  next
    case False
    with y have "y - 1 = k * ?q + (?r - 1)" "0 \<le> ?r - 1" "?r - 1 < k" by simp_all
    then have "(y - 1) div k = ?q" by (rule int_div_pos_eq)
    with False show ?thesis by simp
  qed
qed

lemma mod_zero_dvd: "(k::int) dvd n \<Longrightarrow> y mod n = 0 \<Longrightarrow> y mod k = 0"
  unfolding mod_eq_0_iff_dvd by (rule dvd_trans)

lemma year_step: "days_before_year (y + 1) = days_before_year y + (if is_leap y then 366 else 365)"
proof -
  have sub: "y mod 400 = 0 \<longrightarrow> y mod 100 = 0" "y mod 100 = 0 \<longrightarrow> y mod 4 = 0"
    using mod_zero_dvd [of 100 400 y] mod_zero_dvd [of 4 100 y] by simp_all
  define a b c where "a = (y mod 4 = 0)" and "b = (y mod 100 = 0)" and "c = (y mod 400 = 0)"
  have d: "y div 4 = (y - 1) div 4 + of_bool a" "y div 100 = (y - 1) div 100 + of_bool b" "y div 400 = (y - 1) div 400 + of_bool c"
    using div_pred [of 4 y] div_pred [of 100 y] div_pred [of 400 y] by (simp_all only: a_def b_def c_def of_bool_def zero_less_numeral)
  have "days_before_year (y + 1) - days_before_year y = 365 + of_bool a - of_bool b + of_bool c"
    unfolding days_before_year_def Let_def add_diff_cancel_right' d by (simp add: left_diff_distrib)
  moreover have "is_leap y = (c \<or> (a \<and> \<not> b))" by (simp only: is_leap_def a_def b_def c_def)
  moreover have "c \<longrightarrow> b" "b \<longrightarrow> a" using sub by (simp_all only: a_def b_def c_def)
  ultimately show ?thesis by (cases a; cases b; cases c) simp_all
qed

text \<open>The months follow each other without gaps.\<close>

lemma month_start_Suc: "month_start (M + 1) = month_start M + mdays M"
proof -
  define y m where "y = M div 12" and "m = M mod 12 + 1"
  have m: "1 \<le> m" "m \<le> 12" by (simp_all add: m_def)
  have M: "M + 1 = 12 * y + m" by (simp add: y_def m_def)
  show ?thesis
  proof (cases "m = 12")
    case True
    then have "(M + 1) div 12 = y + 1" "(M + 1) mod 12 = 0"
      using int_div_pos_eq [of "M + 1" 12 "y + 1" 0] int_mod_pos_eq [of "M + 1" 12 "y + 1" 0] M by simp_all
    then show ?thesis using True year_step [of y]
      by (simp add: month_start_def mdays_def month_days_def days_before_month_def y_def [symmetric] m_def [symmetric] DAYS_def DAYS_BEFORE_MONTH_def)
  next
    case False
    then have "(M + 1) div 12 = y" "(M + 1) mod 12 + 1 = m + 1"
      using int_div_pos_eq [of "M + 1" 12 y m] int_mod_pos_eq [of "M + 1" 12 y m] M m by simp_all
    then have "month_start (M + 1) = days_before_year y + days_before_month y (m + 1) + 1 - 719163" by (simp add: month_start_def)
    moreover have "days_before_month y (m + 1) = days_before_month y m + month_days y m"
      using m False by (elim month_cases) (simp_all add: days_before_month_def month_days_def DAYS_def DAYS_BEFORE_MONTH_def)
    ultimately show ?thesis by (simp add: month_start_def mdays_def y_def m_def)
  qed
qed

lemma month_start_add: "month_start M \<le> month_start (M + int k)"
proof (induction k)
  case (Suc k)
  have "month_start (M + int (Suc k)) = month_start (M + int k) + mdays (M + int k)"
    using month_start_Suc [of "M + int k"] by (simp add: ac_simps)
  with Suc mdays_bounds(1) [of "M + int k"] show ?case by simp
qed simp

lemma month_start_mono: "M \<le> N \<Longrightarrow> month_start M \<le> month_start N"
  using month_start_add [of M "nat (N - M)"] by simp

section \<open>Dates and times\<close>

record datetime =
  dt_year :: int
  dt_month :: int
  dt_day :: int
  dt_hour :: int
  dt_minute :: int
  dt_second :: int

definition valid_dt :: "datetime \<Rightarrow> bool" where
  "valid_dt d \<longleftrightarrow> 1 \<le> dt_month d \<and> dt_month d \<le> 12 \<and> 1 \<le> dt_day d \<and> dt_day d \<le> month_days (dt_year d) (dt_month d)
     \<and> 0 \<le> dt_hour d \<and> dt_hour d < 24 \<and> 0 \<le> dt_minute d \<and> dt_minute d < 60 \<and> 0 \<le> dt_second d \<and> dt_second d < 60"

definition mon :: "datetime \<Rightarrow> int" where
  "mon d = 12 * dt_year d + dt_month d - 1"

definition tod :: "datetime \<Rightarrow> int" where
  "tod d = dt_hour d * 3600 + dt_minute d * 60 + dt_second d"

definition epoch_day :: "datetime \<Rightarrow> int" where
  "epoch_day d = month_start (mon d) + dt_day d - 1"

text \<open>The seconds since 1970-01-01, and the day of the week with Sunday as 0 (\<^verbatim>\<open>isoweekday() % 7\<close>).\<close>

definition dt_secs :: "datetime \<Rightarrow> int" where
  "dt_secs d = epoch_day d * 86400 + tod d"

definition dow :: "datetime \<Rightarrow> int" where
  "dow d = (epoch_day d + 4) mod 7"

definition make_dt :: "int \<Rightarrow> int \<Rightarrow> int \<Rightarrow> datetime" where
  "make_dt M day t = \<lparr>dt_year = M div 12, dt_month = M mod 12 + 1, dt_day = day, dt_hour = t div 3600,
     dt_minute = t div 60 mod 60, dt_second = t mod 60\<rparr>"

text \<open>The date \<open>k\<close> days after the first of month \<open>M\<close>.\<close>

function walk :: "int \<Rightarrow> int \<Rightarrow> int \<times> int" where
  "walk M k = (if k < mdays M then (M, k + 1) else walk (M + 1) (k - mdays M))"
  by pat_completeness auto

termination
proof (relation "measure (\<lambda>(M, k). nat k)", goal_cases)
  case (2 M k)
  then show ?case using mdays_bounds(1) [of M] by simp
qed simp

declare walk.simps [simp del]

text \<open>\<^verbatim>\<open>d + timedelta(seconds=n)\<close>, and the time of a timestamp, both forward.\<close>

definition shift :: "datetime \<Rightarrow> int \<Rightarrow> datetime" where
  "shift d n = (let t = tod d + n; (M, day) = walk (mon d) (dt_day d - 1 + t div 86400) in make_dt M day (t mod 86400))"

definition of_secs :: "int \<Rightarrow> datetime" where
  "of_secs n = (let (M, day) = walk (12 * 1970) (n div 86400) in make_dt M day (n mod 86400))"

lemma mon_parts: "valid_dt d \<Longrightarrow> mon d div 12 = dt_year d \<and> mon d mod 12 + 1 = dt_month d"
  using int_div_pos_eq [of "mon d" 12 "dt_year d" "dt_month d - 1"] int_mod_pos_eq [of "mon d" 12 "dt_year d" "dt_month d - 1"]
  by (simp add: mon_def valid_dt_def)

lemma valid_day: "valid_dt d \<Longrightarrow> 1 \<le> dt_day d \<and> dt_day d \<le> mdays (mon d)"
  using mon_parts [of d] by (simp add: mdays_def valid_dt_def)

lemma valid_tod: "valid_dt d \<Longrightarrow> 0 \<le> tod d \<and> tod d < 86400"
  by (simp add: valid_dt_def tod_def)

lemma walk_correct:
  assumes "0 \<le> k" "walk M k = (N, day)"
  shows "M \<le> N \<and> 1 \<le> day \<and> day \<le> mdays N \<and> month_start N + day - 1 = month_start M + k"
  using assms
proof (induction M k arbitrary: N day rule: walk.induct)
  case (1 M k)
  show ?case
  proof (cases "k < mdays M")
    case True
    with 1 show ?thesis by (simp add: walk.simps [of M k])
  next
    case False
    with 1 have "walk (M + 1) (k - mdays M) = (N, day)" by (simp add: walk.simps [of M k])
    from 1(1) [OF False _ this] False show ?thesis using month_start_Suc [of M] by simp
  qed
qed

lemma make_dt_correct:
  assumes "1 \<le> day" "day \<le> mdays M" "0 \<le> t" "t < 86400"
  shows "valid_dt (make_dt M day t)" "mon (make_dt M day t) = M" "tod (make_dt M day t) = t" "dt_day (make_dt M day t) = day"
proof -
  have "t div 3600 < 24" "0 \<le> t div 3600" using zdiv_mono1 [of t 86399 3600] assms(3,4) by (simp_all add: pos_imp_zdiv_nonneg_iff)
  then show "valid_dt (make_dt M day t)" using assms by (simp add: valid_dt_def make_dt_def mdays_def)
  show "mon (make_dt M day t) = M" by (simp add: mon_def make_dt_def)
  show "tod (make_dt M day t) = t"
  proof -
    have "t div 3600 = t div 60 div 60" by (simp add: zdiv_zmult2_eq [symmetric])
    moreover have "t div 60 div 60 * 60 + t div 60 mod 60 = t div 60" "t div 60 * 60 + t mod 60 = t" by (rule div_mult_mod_eq)+
    ultimately show ?thesis unfolding tod_def make_dt_def datetime.simps by linarith
  qed
  show "dt_day (make_dt M day t) = day" by (simp add: make_dt_def)
qed

lemma shift_correct:
  assumes d: "valid_dt d" and n: "0 \<le> n"
  shows "valid_dt (shift d n)" "dt_secs (shift d n) = dt_secs d + n"
    "epoch_day (shift d n) = epoch_day d + (tod d + n) div 86400" "tod (shift d n) = (tod d + n) mod 86400"
proof -
  let ?t = "tod d + n"
  obtain M day where w: "walk (mon d) (dt_day d - 1 + ?t div 86400) = (M, day)" by (rule prod.exhaust)
  have t: "0 \<le> ?t div 86400" using valid_tod [OF d] n by (simp add: pos_imp_zdiv_nonneg_iff)
  then have k: "0 \<le> dt_day d - 1 + ?t div 86400" using valid_day [OF d] by simp
  note wc = walk_correct [OF k w]
  have m: "0 \<le> ?t mod 86400" "?t mod 86400 < 86400" by simp_all
  have s: "shift d n = make_dt M day (?t mod 86400)" by (simp add: shift_def Let_def w)
  note mk = make_dt_correct [of day M "?t mod 86400"]
  show v: "valid_dt (shift d n)" unfolding s using wc m mk(1) by blast
  show e: "epoch_day (shift d n) = epoch_day d + ?t div 86400" "tod (shift d n) = ?t mod 86400"
    using wc m mk(2,3,4) by (simp_all add: s epoch_day_def)
  show "dt_secs (shift d n) = dt_secs d + n" unfolding dt_secs_def e
    using div_mult_mod_eq [of ?t 86400] by (simp add: algebra_simps)
qed

lemma of_secs_correct:
  assumes "0 \<le> n"
  shows "valid_dt (of_secs n)" "dt_secs (of_secs n) = n"
proof -
  obtain M day where w: "walk (12 * 1970) (n div 86400) = (M, day)" by (rule prod.exhaust)
  have "0 \<le> n div 86400" using assms by (simp add: pos_imp_zdiv_nonneg_iff)
  note wc = walk_correct [OF this w]
  have s: "of_secs n = make_dt M day (n mod 86400)" unfolding of_secs_def w by simp
  note mk = make_dt_correct [of day M "n mod 86400"]
  show "valid_dt (of_secs n)" unfolding s using wc mk(1) by simp
  have "month_start (12 * 1970) = 0"
    by (simp add: month_start_def days_before_year_def days_before_month_def DAYS_BEFORE_MONTH_def Let_def)
  then show "dt_secs (of_secs n) = n" using wc mk(2,3,4) div_mult_mod_eq [of n 86400] by (simp add: s dt_secs_def epoch_day_def)
qed

text \<open>Times are ordered by month, then by day, then by time of day.\<close>

lemma epoch_day_month: "valid_dt d \<Longrightarrow> epoch_day d < month_start N \<longleftrightarrow> mon d < N"
  using valid_day [of d] month_start_Suc [of "mon d"] month_start_mono [of N "mon d"] month_start_mono [of "mon d + 1" N]
  by (cases "mon d < N") (auto simp: epoch_day_def)

lemma secs_day: "valid_dt d \<Longrightarrow> dt_secs d < n * 86400 \<longleftrightarrow> epoch_day d < n"
  using valid_tod [of d] by (auto simp: dt_secs_def)

lemma mon_eq: "epoch_day d = epoch_day e \<Longrightarrow> valid_dt d \<Longrightarrow> valid_dt e \<Longrightarrow> mon d = mon e \<and> dt_day d = dt_day e"
  using epoch_day_month [of d "mon e"] epoch_day_month [of e "mon d"] epoch_day_month [of d "mon e + 1"] epoch_day_month [of e "mon d + 1"]
    epoch_day_month [of e "mon e + 1"] epoch_day_month [of d "mon d + 1"] by (auto simp: epoch_day_def)

lemma tod_fields: "valid_dt d \<Longrightarrow> dt_hour d = tod d div 3600 \<and> dt_minute d = tod d div 60 mod 60 \<and> dt_second d = tod d mod 60"
proof -
  assume d: "valid_dt d"
  have a: "tod d = 60 * (dt_hour d * 60 + dt_minute d) + dt_second d" by (simp add: tod_def)
  have m: "tod d div 60 = dt_hour d * 60 + dt_minute d" by (rule int_div_pos_eq [OF a]) (use d in \<open>simp_all add: valid_dt_def\<close>)
  have h: "tod d div 3600 = dt_hour d" by (rule int_div_pos_eq [of _ _ _ "dt_minute d * 60 + dt_second d"]) (use d in \<open>simp_all add: valid_dt_def tod_def\<close>)
  have "tod d mod 60 = dt_second d" by (rule int_mod_pos_eq [OF a]) (use d in \<open>simp_all add: valid_dt_def\<close>)
  moreover have "tod d div 60 mod 60 = dt_minute d" unfolding m by (rule int_mod_pos_eq [of _ _ "dt_hour d"]) (use d in \<open>simp_all add: valid_dt_def\<close>)
  ultimately show ?thesis using h by simp
qed

lemma secs_parts: "valid_dt d \<Longrightarrow> epoch_day d = dt_secs d div 86400 \<and> tod d = dt_secs d mod 86400"
  using valid_tod [of d] by (auto simp: dt_secs_def)

lemma secs_inj: "valid_dt d \<Longrightarrow> valid_dt e \<Longrightarrow> dt_secs d = dt_secs e \<Longrightarrow> d = e"
  using secs_parts [of d] secs_parts [of e] mon_eq [of d e] tod_fields [of d] tod_fields [of e] mon_parts [of d] mon_parts [of e]
  by (intro datetime.equality) simp_all

lemma of_secs_secs: "valid_dt d \<Longrightarrow> 0 \<le> dt_secs d \<Longrightarrow> of_secs (dt_secs d) = d"
  using of_secs_correct [of "dt_secs d"] by (intro secs_inj) simp_all

end
