(* ===== verification/DBOS_Serialization.thy ===== *)
theory DBOS_Serialization
  imports DBOS_Calendar
begin

text \<open>
  Serialization of workflow values (\<^verbatim>\<open>dbos/_serialization.py\<close>): the conversion to portable JSON values, and the dispatch on the recorded
  serialization name. The text encoders themselves (\<^verbatim>\<open>json\<close>, \<^verbatim>\<open>pickle\<close>, a user's own
  serializer) are parameters: the record \<open>codecs\<close> and the configured \<open>Serializer\<close>.
\<close>

section \<open>Dates and times as text\<close>

text \<open>A number in decimal with leading zeros, and the date a number of days after 1970-01-01.\<close>

fun zero_pad :: "nat \<Rightarrow> int \<Rightarrow> string" where
  "zero_pad 0 n = []"
| "zero_pad (Suc k) n = zero_pad k (n div 10) @ [char_of (48 + nat (n mod 10))]"

definition civil_of_days :: "int \<Rightarrow> int \<times> int \<times> int" where
  "civil_of_days d = (let k = d + 719162; y = 1 + k div 366; (M, day) = walk (12 * y) (k - days_before_year y)
     in (M div 12, M mod 12 + 1, day))"

definition date_isoformat :: "int \<Rightarrow> string" where
  "date_isoformat d = (case civil_of_days d of (y, m, day) \<Rightarrow>
     zero_pad 4 y @ ''-'' @ zero_pad 2 m @ ''-'' @ zero_pad 2 day)"

text \<open>
  \<^verbatim>\<open>isoformat(timespec="milliseconds")\<close> of a datetime in UTC, with its offset written \<open>Z\<close>: the microseconds
  below the millisecond are dropped.
\<close>

definition rfc3339_text :: "int \<Rightarrow> string" where
  "rfc3339_text us = (let s = us div 1000000; t = s mod 86400 in
     date_isoformat (s div 86400) @ ''T'' @ zero_pad 2 (t div 3600) @ '':'' @ zero_pad 2 (t div 60 mod 60) @ '':''
       @ zero_pad 2 (t mod 60) @ ''.'' @ zero_pad 3 (us div 1000 mod 1000) @ ''Z'')"

text \<open>
  \<^verbatim>\<open>_to_rfc3339_utc\<close>: a naive datetime is taken to be in UTC, any other is converted to UTC, which raises when the
  instant is outside the years 1 to 9999.
\<close>

definition to_rfc3339_utc :: "int \<Rightarrow> string option \<Rightarrow> string res" where
  "to_rfc3339_utc us tz = (case tz of
     None \<Rightarrow> Inr (rfc3339_text us)
   | Some z \<Rightarrow> if -719162 * 86400000000 \<le> us \<and> us < 2932897 * 86400000000 then Inr (rfc3339_text us)
       else Inl (PyException ''OverflowError''))"

lemma year_days_upper: "0 \<le> k \<Longrightarrow> days_before_year (1 + k) \<le> 366 * k"
  by (simp add: days_before_year_def Let_def)

lemma civil_of_days_correct:
  assumes d: "0 \<le> d + 719162" and c: "civil_of_days d = (y, m, day)"
  shows "1 \<le> y" "1 \<le> m" "m \<le> 12" "1 \<le> day" "day \<le> month_days y m" "month_start (12 * y + m - 1) + day - 1 = d"
proof -
  define k y0 where "k = d + 719162" and "y0 = 1 + k div 366"
  obtain M e where w: "walk (12 * y0) (k - days_before_year y0) = (M, e)" by (rule prod.exhaust)
  have ym: "y = M div 12" "m = M mod 12 + 1" "day = e"
    using c [unfolded civil_of_days_def Let_def k_def [symmetric] y0_def [symmetric] w prod.case] by simp_all
  have k: "0 \<le> k div 366" "366 * (k div 366) \<le> k" using d by (simp_all add: k_def pos_imp_zdiv_nonneg_iff)
  then have "0 \<le> k - days_before_year y0" using year_days_upper [of "k div 366"] by (simp add: y0_def)
  note wc = walk_correct [OF this w]
  have "month_start (12 * y0) = days_before_year y0 - 719162"
    by (simp add: month_start_def days_before_month_def DAYS_BEFORE_MONTH_def)
  with wc show "month_start (12 * y + m - 1) + day - 1 = d" by (simp add: ym k_def)
  have "1 \<le> y0" using k by (simp add: y0_def)
  then show "1 \<le> y" using zdiv_mono1 [of "12 * y0" M 12] wc by (simp add: ym)
  show "1 \<le> m" "m \<le> 12" "1 \<le> day" "day \<le> month_days y m" using wc by (simp_all add: ym mdays_def)
qed

lemma zero_pad_length [simp]: "length (zero_pad k n) = k"
  by (induction k arbitrary: n) auto

lemma digit_char_inj: "char_of (48 + nat (m mod 10)) = (char_of (48 + nat (n mod 10)) :: char) \<Longrightarrow> m mod 10 = n mod (10::int)"
proof -
  assume e: "char_of (48 + nat (m mod 10)) = (char_of (48 + nat (n mod 10)) :: char)"
  have "m mod 10 < 10" "n mod 10 < 10" "0 \<le> m mod 10" "0 \<le> n mod 10" by simp_all
  moreover from e have "(48 + nat (m mod 10)) mod 256 = (48 + nat (n mod 10)) mod 256" by (simp add: char_of_eq_iff take_bit_eq_mod)
  ultimately show ?thesis by (simp add: nat_eq_iff2)
qed

lemma int_div_less: "m < 10 * (b::int) \<Longrightarrow> m div 10 < b"
  by presburger

lemma zero_pad_inj: "0 \<le> m \<Longrightarrow> m < 10 ^ k \<Longrightarrow> 0 \<le> n \<Longrightarrow> n < 10 ^ k \<Longrightarrow> zero_pad k m = zero_pad k n \<Longrightarrow> m = n"
proof (induction k arbitrary: m n)
  case (Suc k)
  then have "m mod 10 = n mod 10" by (auto dest: digit_char_inj)
  moreover have z: "zero_pad k (m div 10) = zero_pad k (n div 10)" using Suc.prems(5) by simp
  have b: "i div 10 < 10 ^ k" if "i < 10 ^ Suc k" for i :: int
    by (rule int_div_less [OF that [unfolded power_Suc]])
  have "m div 10 = n div 10"
    by (rule Suc.IH [OF _ b [OF Suc.prems(2)] _ b [OF Suc.prems(4)] z])
      (simp_all only: pos_imp_zdiv_nonneg_iff zero_less_numeral Suc.prems)
  ultimately show ?case by (metis div_mult_mod_eq)
qed simp

lemma civil_of_days_year:
  assumes d: "0 \<le> d + 719162" "d < 2932897" and c: "civil_of_days d = (y, m, day)"
  shows "y < 10000"
proof (rule ccontr)
  assume "\<not> y < 10000"
  then have "month_start (12 * 10000) \<le> month_start (12 * y + m - 1)"
    using civil_of_days_correct(2) [OF d(1) c] by (intro month_start_mono) simp
  moreover have "month_start (12 * 10000) = 2932897"
    by (simp add: month_start_def days_before_year_def days_before_month_def DAYS_BEFORE_MONTH_def Let_def)
  ultimately show False using civil_of_days_correct(4,6) [OF d(1) c] d(2) by simp
qed

text \<open>Within the years 1 to 9999 the text of a date determines the date.\<close>

lemma date_isoformat_inj:
  assumes d: "0 \<le> d + 719162" "d < 2932897" and e: "0 \<le> e + 719162" "e < 2932897"
    and eq: "date_isoformat d = date_isoformat e"
  shows "d = e"
proof -
  obtain y m k where c: "civil_of_days d = (y, m, k)" by (rule prod_cases3)
  obtain y' m' k' where c': "civil_of_days e = (y', m', k')" by (rule prod_cases3)
  note cc = civil_of_days_correct [OF d(1) c] civil_of_days_correct [OF e(1) c']
    civil_of_days_year [OF d c] civil_of_days_year [OF e c']
  have k: "k \<le> 31" "k' \<le> 31" using cc month_days_bounds [of m y] month_days_bounds [of m' y'] by simp_all
  have "zero_pad 4 y = zero_pad 4 y'" "zero_pad 2 m = zero_pad 2 m'" "zero_pad 2 k = zero_pad 2 k'"
    using eq by (simp_all add: date_isoformat_def c c')
  then have "y = y'" "m = m'" "k = k'"
    using cc k zero_pad_inj [of y 4 y'] zero_pad_inj [of m 2 m'] zero_pad_inj [of k 2 k'] by simp_all
  then show ?thesis using cc by simp
qed

lemma date_isoformat_length [simp]: "length (date_isoformat d) = 10"
  by (simp add: date_isoformat_def split: prod.splits)

lemma two_digits_inj: "0 \<le> m \<Longrightarrow> m < 100 \<Longrightarrow> 0 \<le> n \<Longrightarrow> n < 100 \<Longrightarrow> zero_pad 2 m = zero_pad 2 n \<Longrightarrow> m = n"
  using zero_pad_inj [of m 2 n] by simp

lemma clock_inj:
  fixes t u :: int
  assumes "t div 3600 = u div 3600" "t div 60 mod 60 = u div 60 mod 60" "t mod 60 = u mod 60"
  shows "t = u"
proof -
  have "x div 3600 = x div 60 div 60" for x :: int by (simp add: zdiv_zmult2_eq [symmetric])
  with assms(1,2) have "t div 60 = u div 60" by (metis div_mult_mod_eq)
  with assms(3) show ?thesis by (metis div_mult_mod_eq)
qed

text \<open>The text of an instant determines it to the millisecond, and nothing below.\<close>

lemma rfc3339_text_inj:
  assumes u: "-719162 * 86400000000 \<le> us" "us < 2932897 * 86400000000"
    and v: "-719162 * 86400000000 \<le> vs" "vs < 2932897 * 86400000000"
  shows "rfc3339_text us = rfc3339_text vs \<longleftrightarrow> us div 1000 = vs div 1000"
proof
  define s r where "s = us div 1000000" and "r = vs div 1000000"
  have secs: "x div 1000 div 1000 = x div 1000000" for x :: int by (simp add: zdiv_zmult2_eq [symmetric])
  have days: "0 \<le> s div 86400 + 719162" "s div 86400 < 2932897" "0 \<le> r div 86400 + 719162" "r div 86400 < 2932897"
    using u v by (simp_all add: s_def r_def zdiv_zmult2_eq [symmetric])
  assume eq: "rfc3339_text us = rfc3339_text vs"
  have d: "s div 86400 = r div 86400"
    by (rule date_isoformat_inj [OF days]) (use eq in \<open>simp add: rfc3339_text_def Let_def s_def r_def\<close>)
  have h: "0 \<le> x mod 86400 div 3600" "x mod 86400 div 3600 < 100" for x :: int
    using zdiv_mono1 [of "x mod 86400" 86399 3600] by (simp_all add: pos_imp_zdiv_nonneg_iff)
  have x: "0 \<le> x mod 60" "x mod 60 < 100" for x :: int using pos_mod_bound [of 60 x] by simp_all
  have parts: "zero_pad 2 (s mod 86400 div 3600) = zero_pad 2 (r mod 86400 div 3600)"
    "zero_pad 2 (s mod 86400 div 60 mod 60) = zero_pad 2 (r mod 86400 div 60 mod 60)"
    "zero_pad 2 (s mod 86400 mod 60) = zero_pad 2 (r mod 86400 mod 60)"
    "zero_pad 3 (us div 1000 mod 1000) = zero_pad 3 (vs div 1000 mod 1000)"
    using eq [unfolded rfc3339_text_def Let_def s_def [symmetric] r_def [symmetric]]
    by (simp_all only: append_eq_append_conv zero_pad_length date_isoformat_length append_Cons list.inject append_Nil simp_thms)
  have t: "s mod 86400 = r mod 86400"
    by (rule clock_inj) (rule two_digits_inj [OF h h parts(1)] two_digits_inj [OF x x parts(2)] two_digits_inj [OF x x parts(3)])+
  have m: "us div 1000 mod 1000 = vs div 1000 mod 1000"
    by (rule zero_pad_inj [OF _ _ _ _ parts(4)]) simp_all
  from d t have "s = r" by (metis div_mult_mod_eq)
  then have "us div 1000 div 1000 = vs div 1000 div 1000" by (simp only: secs s_def r_def)
  with m show "us div 1000 = vs div 1000" by (metis div_mult_mod_eq)
next
  have "x div 1000000 = x div 1000 div 1000" for x :: int by (simp add: zdiv_zmult2_eq [symmetric])
  then show "us div 1000 = vs div 1000 \<Longrightarrow> rfc3339_text us = rfc3339_text vs" by (simp only: rfc3339_text_def)
qed

section \<open>Portable values\<close>

function portableify :: "pyval \<Rightarrow> pyval res" where
  "portableify PNone = Inr PNone"
| "portableify (PBool b) = Inr (PBool b)"
| "portableify (PInt i) = Inr (PInt i)"
| "portableify (PFloat x) = Inr (PFloat x)"
| "portableify (PStr s) = Inr (PStr s)"
| "portableify (PDatetime us tz) = res_bind (to_rfc3339_utc us tz) (\<lambda>s. Inr (PStr s))"
| "portableify (PDate d) = Inr (PStr (date_isoformat d))"
| "portableify (PDecimal s) = Inr (PStr s)"
| "portableify (PList vs) = res_bind (res_map portableify vs) (\<lambda>ws. Inr (PList ws))"
| "portableify (PTuple vs) = res_bind (res_map portableify vs) (\<lambda>ws. Inr (PList ws))"
| "portableify (PSet vs) = res_bind (res_map portableify vs) (\<lambda>ws. Inr (PList ws))"
| "portableify (PDict kvs) =
     res_bind (res_map (\<lambda>kv. case kv of (k, v) \<Rightarrow>
         (case k of PStr s \<Rightarrow> res_bind (portableify v) (\<lambda>w. Inr (PStr s, w)) | _ \<Rightarrow> Inl TypeError)) kvs)
       (\<lambda>kws. Inr (PDict kws))"
| "portableify (PExn e) = Inl TypeError"
| "portableify (PObject s) = Inl TypeError"
  by pat_completeness auto
termination
proof (relation "measure size")
  fix kvs :: "(pyval \<times> pyval) list" and kv k v s
  assume "kv \<in> set kvs" "(k, v) = kv" "k = PStr s"
  then have "size v < size_list (size_prod size size) kvs"
    by (intro size_list_estimation [of kv]) auto
  then show "(v, PDict kvs) \<in> measure size" by simp
qed (auto simp: less_Suc_eq_le size_list_estimation')


text \<open>The JSON values: what \<^verbatim>\<open>json.dumps\<close> prints and \<^verbatim>\<open>json.loads\<close> returns.\<close>

fun is_json :: "pyval \<Rightarrow> bool" where
  "is_json (PList vs) = list_all is_json vs"
| "is_json (PDict kvs) = list_all (\<lambda>kv. (case fst kv of PStr _ \<Rightarrow> True | _ \<Rightarrow> False) \<and> is_json (snd kv)) kvs"
| "is_json v = (case v of PNone \<Rightarrow> True | PBool _ \<Rightarrow> True | PInt _ \<Rightarrow> True | PFloat _ \<Rightarrow> True
     | PStr _ \<Rightarrow> True | _ \<Rightarrow> False)"

text \<open>
  What \<^verbatim>\<open>json.dumps\<close> accepts without conversion: lists, tuples and dicts of accepted
  values, with keys that are strings, numbers, booleans or None.
\<close>

fun json_key :: "pyval \<Rightarrow> bool" where
  "json_key k = (case k of PStr _ \<Rightarrow> True | PInt _ \<Rightarrow> True | PFloat _ \<Rightarrow> True | PBool _ \<Rightarrow> True
     | PNone \<Rightarrow> True | _ \<Rightarrow> False)"

fun json_serializable :: "pyval \<Rightarrow> bool" where
  "json_serializable (PList vs) = list_all json_serializable vs"
| "json_serializable (PTuple vs) = list_all json_serializable vs"
| "json_serializable (PDict kvs) = list_all (\<lambda>kv. json_key (fst kv) \<and> json_serializable (snd kv)) kvs"
| "json_serializable v = json_key v"

section \<open>Serializers\<close>

record Serializer =
  ser_name :: string
  ser_serialize :: "pyval \<Rightarrow> string res"
  ser_deserialize :: "string \<Rightarrow> pyval res"

record codecs =
  json_dumps :: "pyval \<Rightarrow> string res"
  json_loads :: "string \<Rightarrow> pyval res"
  pickle_dumps :: "pyval \<Rightarrow> string res"
  pickle_loads :: "string \<Rightarrow> pyval res"

definition DBOSPortableJSON :: "codecs \<Rightarrow> Serializer" where
  "DBOSPortableJSON cs = \<lparr>ser_name = ''portable_json'',
     ser_serialize = (\<lambda>v. res_bind (portableify v) (json_dumps cs)),
     ser_deserialize = json_loads cs\<rparr>"

definition DBOSDefaultSerializer :: "codecs \<Rightarrow> Serializer" where
  "DBOSDefaultSerializer cs = \<lparr>ser_name = ''py_pickle'',
     ser_serialize = pickle_dumps cs, ser_deserialize = pickle_loads cs\<rparr>"

datatype WorkflowSerializationFormat = PORTABLE | NATIVE | DEFAULT

definition serialization_for_type ::
  "codecs \<Rightarrow> WorkflowSerializationFormat option \<Rightarrow> Serializer \<Rightarrow> string" where
  "serialization_for_type cs t sz =
     (if t = Some PORTABLE then ser_name (DBOSPortableJSON cs)
      else if t = Some NATIVE then ser_name (DBOSDefaultSerializer cs)
      else ser_name sz)"

definition serialize_value_as ::
  "codecs \<Rightarrow> pyval \<Rightarrow> string option \<Rightarrow> Serializer \<Rightarrow> (string \<times> string) res" where
  "serialize_value_as cs v ser sz =
     (if ser = Some (ser_name (DBOSPortableJSON cs))
      then res_bind (ser_serialize (DBOSPortableJSON cs) v) (\<lambda>s. Inr (s, ser_name (DBOSPortableJSON cs)))
      else if ser = Some (ser_name (DBOSDefaultSerializer cs))
      then res_bind (ser_serialize (DBOSDefaultSerializer cs) v)
             (\<lambda>s. Inr (s, ser_name (DBOSDefaultSerializer cs)))
      else if ser \<noteq> None \<and> ser \<noteq> Some (ser_name sz) then Inl TypeError
      else res_bind (ser_serialize sz v) (\<lambda>s. Inr (s, ser_name sz)))"

definition serialize_value ::
  "codecs \<Rightarrow> pyval \<Rightarrow> WorkflowSerializationFormat option \<Rightarrow> Serializer \<Rightarrow> (string \<times> string) res" where
  "serialize_value cs v t sz = serialize_value_as cs v (Some (serialization_for_type cs t sz)) sz"

definition deserialize_value ::
  "codecs \<Rightarrow> string option \<Rightarrow> string option \<Rightarrow> Serializer \<Rightarrow> pyval res" where
  "deserialize_value cs v ser sz =
     (case v of None \<Rightarrow> Inr PNone
      | Some s \<Rightarrow>
          if ser = Some (ser_name (DBOSPortableJSON cs)) then ser_deserialize (DBOSPortableJSON cs) s
          else if ser = Some (ser_name (DBOSDefaultSerializer cs))
          then ser_deserialize (DBOSDefaultSerializer cs) s
          else if ser \<noteq> None \<and> ser \<noteq> Some (ser_name sz) then Inl TypeError
          else ser_deserialize sz s)"

text \<open>
  Recorded exceptions: native formats hold the exception object, the portable format a dictionary
  that comes back as a \<open>PortableWorkflowError\<close>.
\<close>

definition exception_of :: "pyval \<Rightarrow> dbos_error res" where
  "exception_of v = (case v of PExn e \<Rightarrow> Inr e | _ \<Rightarrow> Inl TypeError)"

definition dict_get :: "string \<Rightarrow> (pyval \<times> pyval) list \<Rightarrow> pyval" where
  "dict_get k kvs = (case map_of kvs (PStr k) of None \<Rightarrow> PNone | Some v \<Rightarrow> v)"

definition portable_exception_of :: "pyval \<Rightarrow> dbos_error res" where
  "portable_exception_of v = (case v of
     PDict kvs \<Rightarrow> (case (map_of kvs (PStr ''message''), map_of kvs (PStr ''name'')) of
         (Some (PStr m), Some (PStr n)) \<Rightarrow>
           Inr (PortableWorkflowError m n (dict_get ''code'' kvs) (dict_get ''data'' kvs))
       | _ \<Rightarrow> Inl (PyException ''KeyError''))
   | _ \<Rightarrow> Inl TypeError)"

definition deserialize_exception ::
  "codecs \<Rightarrow> string \<Rightarrow> string option \<Rightarrow> Serializer \<Rightarrow> dbos_error res" where
  "deserialize_exception cs s ser0 sz =
     (let ser = (case ser0 of None \<Rightarrow> ser_name sz | Some n \<Rightarrow> n) in
      if ser = ser_name (DBOSPortableJSON cs)
      then res_bind (ser_deserialize (DBOSPortableJSON cs) s) portable_exception_of
      else if ser = ser_name (DBOSDefaultSerializer cs)
      then res_bind (ser_deserialize (DBOSDefaultSerializer cs) s) exception_of
      else if ser \<noteq> ser_name sz then Inl TypeError
      else res_bind (ser_deserialize sz s) exception_of)"

section \<open>Properties\<close>

text \<open>
  The documented law of an encoder: it decodes what it encoded. The configured serializer is one
  of the two built-in ones, or a serializer with a name of its own that obeys the law.
\<close>

definition codec_law :: "(pyval \<Rightarrow> bool) \<Rightarrow> (pyval \<Rightarrow> string res) \<Rightarrow> (string \<Rightarrow> pyval res) \<Rightarrow> bool" where
  "codec_law ok dumps loads \<longleftrightarrow> (\<forall>v s. ok v \<longrightarrow> dumps v = Inr s \<longrightarrow> loads s = Inr v)"

definition codecs_law :: "codecs \<Rightarrow> Serializer \<Rightarrow> bool" where
  "codecs_law cs sz \<longleftrightarrow> codec_law is_json (json_dumps cs) (json_loads cs)
     \<and> codec_law (\<lambda>_. True) (pickle_dumps cs) (pickle_loads cs)
     \<and> (if ser_name sz = ''portable_json'' then sz = DBOSPortableJSON cs
        else if ser_name sz = ''py_pickle'' then sz = DBOSDefaultSerializer cs
        else codec_law (\<lambda>_. True) (ser_serialize sz) (ser_deserialize sz))"

lemma res_map_set:
  assumes "res_map f xs = Inr ys" and "\<And>x y. x \<in> set xs \<Longrightarrow> f x = Inr y \<Longrightarrow> P y"
  shows "list_all P ys"
  using assms by (auto simp: res_map_Inr_iff list_all_length) (metis nth_mem)

lemma portable_list_json:
  assumes "res_bind (res_map portableify vs) (\<lambda>ws. Inr (PList ws)) = Inr w"
    and "\<And>x w. x \<in> set vs \<Longrightarrow> portableify x = Inr w \<Longrightarrow> is_json w"
  shows "is_json w"
proof -
  from assms(1) obtain ws where ws: "res_map portableify vs = Inr ws" "w = PList ws"
    by (auto simp: res_bind_Inr_iff)
  from ws(1) assms(2) have "list_all is_json ws" by (rule res_map_set)
  with ws(2) show ?thesis by simp
qed

lemma portableify_is_json: "portableify v = Inr w \<Longrightarrow> is_json w"
proof (induction v arbitrary: w rule: portableify.induct)
  case (9 vs)
  then show ?case using portable_list_json [of vs w] by (simp only: portableify.simps)
next
  case (10 vs)
  then show ?case using portable_list_json [of vs w] by (simp only: portableify.simps)
next
  case (11 vs)
  then show ?case using portable_list_json [of vs w] by (simp only: portableify.simps)
next
  case (12 kvs)
  from "12.prems" obtain kws where kws: "res_map (\<lambda>kv. case kv of (k, v) \<Rightarrow>
      (case k of PStr s \<Rightarrow> res_bind (portableify v) (\<lambda>w. Inr (PStr s, w)) | _ \<Rightarrow> Inl TypeError)) kvs
      = Inr kws" and w: "w = PDict kws"
    by (auto simp: res_bind_Inr_iff)
  have "list_all (\<lambda>kv. (case fst kv of PStr _ \<Rightarrow> True | _ \<Rightarrow> False) \<and> is_json (snd kv)) kws"
  proof (rule res_map_set [OF kws])
    fix x y
    assume x: "x \<in> set kvs" and y: "(case x of (k, v) \<Rightarrow> (case k of
      PStr s \<Rightarrow> res_bind (portableify v) (\<lambda>w. Inr (PStr s, w)) | _ \<Rightarrow> Inl TypeError)) = Inr y"
    obtain k v where kv: "x = (k, v)" by (cases x)
    from y kv obtain s w where ks: "k = PStr s" "portableify v = Inr w" "y = (PStr s, w)"
      by (cases k) (auto simp: res_bind_Inr_iff)
    with "12.IH" x kv have "is_json w" by blast
    with ks show "(case fst y of PStr _ \<Rightarrow> True | _ \<Rightarrow> False) \<and> is_json (snd y)" by simp
  qed
  then show ?case by (simp add: w)
qed (auto simp: res_bind_Inr_iff)

lemma res_map_id:
  assumes "\<And>x. x \<in> set xs \<Longrightarrow> f x = Inr x"
  shows "res_map f xs = Inr xs"
  using assms by (simp add: res_map_Inr_iff)

lemma portableify_json_id: "is_json v \<Longrightarrow> portableify v = Inr v"
proof (induction v rule: is_json.induct)
  case (1 vs) then show ?case by (simp add: res_map_id list_all_iff)
next
  case (2 kvs)
  have "res_map (\<lambda>kv. case kv of (k, v) \<Rightarrow>
      (case k of PStr s \<Rightarrow> res_bind (portableify v) (\<lambda>w. Inr (PStr s, w)) | _ \<Rightarrow> Inl TypeError)) kvs
      = Inr kvs"
    by (rule res_map_id) (use 2 in \<open>fastforce simp: list_all_iff split: pyval.splits\<close>)
  then show ?case by simp
qed auto

lemma portableify_idem: "portableify v = Inr w \<Longrightarrow> portableify w = Inr w"
  by (simp add: portableify_is_json portableify_json_id)

lemma ser_names [simp]:
  "ser_name (DBOSPortableJSON cs) = ''portable_json''"
  "ser_name (DBOSDefaultSerializer cs) = ''py_pickle''"
  by (simp_all add: DBOSPortableJSON_def DBOSDefaultSerializer_def)

lemma serialize_value_as_cases:
  assumes law: "codecs_law cs sz" and ser: "serialize_value_as cs v ser sz = Inr (s, n)"
  shows "(n = ''portable_json'' \<and> ser_serialize (DBOSPortableJSON cs) v = Inr s)
    \<or> (n = ''py_pickle'' \<and> pickle_dumps cs v = Inr s)
    \<or> (n = ser_name sz \<and> n \<noteq> ''portable_json'' \<and> n \<noteq> ''py_pickle'' \<and> ser_serialize sz v = Inr s)"
proof (cases "n = ''portable_json'' \<or> n = ''py_pickle''")
  case True
  then show ?thesis using law ser
    by (auto simp: serialize_value_as_def codecs_law_def DBOSDefaultSerializer_def res_bind_Inr_iff
        split: if_splits)
next
  case False
  then show ?thesis using ser
    by (auto simp: serialize_value_as_def res_bind_Inr_iff split: if_splits)
qed

lemma deserialize_serialize:
  assumes law: "codecs_law cs sz" and ser: "serialize_value_as cs v ser sz = Inr (s, n)"
  shows "\<exists>w. deserialize_value cs (Some s) (Some n) sz = Inr w
    \<and> (if n = ''portable_json'' then portableify v = Inr w else w = v)"
  using serialize_value_as_cases [OF law ser]
proof (elim disjE conjE)
  assume n: "n = ''portable_json''" and "ser_serialize (DBOSPortableJSON cs) v = Inr s"
  then obtain w where w: "portableify v = Inr w" "json_dumps cs w = Inr s"
    by (auto simp: DBOSPortableJSON_def res_bind_Inr_iff)
  with law portableify_is_json [of v w] have "json_loads cs s = Inr w"
    by (auto simp: codecs_law_def codec_law_def)
  then show ?thesis using n w by (simp add: deserialize_value_def DBOSPortableJSON_def)
next
  assume "n = ''py_pickle''" "pickle_dumps cs v = Inr s"
  then show ?thesis using law
    by (simp add: codecs_law_def codec_law_def deserialize_value_def DBOSDefaultSerializer_def)
next
  assume "n = ser_name sz" "n \<noteq> ''portable_json''" "n \<noteq> ''py_pickle''" "ser_serialize sz v = Inr s"
  then show ?thesis using law
    by (simp add: codecs_law_def codec_law_def deserialize_value_def)
qed

end
