(* ===== verification/DBOS_Schema.thy ===== *)
theory DBOS_Schema
  imports DBOS_Serialization
begin

text \<open>
  The system database (\<^verbatim>\<open>dbos/_schemas/system_database.py\<close>): one record per
  table row, the database as the record of its tables, the statements on it (inserts that check
  the primary keys and the foreign keys, the cascading delete) and the constraints the schema
  declares, \<open>sysdb_inv\<close>. Transactions (\<^verbatim>\<open>with self.engine.begin() as c\<close>) commit when
  their body returns and roll back when it raises; \<open>engine_begin\<close> models both, and the one place
  where the code commits before it raises.
\<close>

section \<open>Workflow status\<close>

datatype WorkflowStatusString =
    PENDING | SUCCESS | ERROR | MAX_RECOVERY_ATTEMPTS_EXCEEDED | CANCELLED | ENQUEUED | DELAYED

definition workflow_is_active :: "WorkflowStatusString \<Rightarrow> bool" where
  "workflow_is_active s = (s = ENQUEUED \<or> s = PENDING \<or> s = DELAYED)"

section \<open>Rows\<close>

text \<open>Attributes are a JSON object, kept as the Python dict it is.\<close>

type_synonym attributes = pyval

record workflow_status_row =
  ws_workflow_uuid :: string
  ws_status :: WorkflowStatusString
  ws_name :: string
  ws_authenticated_user :: "string option"
  ws_assumed_role :: "string option"
  ws_authenticated_roles :: "string option"
  ws_output :: "string option"
  ws_error :: "string option"
  ws_executor_id :: "string option"
  ws_created_at :: int
  ws_updated_at :: int
  ws_application_version :: "string option"
  ws_application_id :: "string option"
  ws_class_name :: "string option"
  ws_config_name :: "string option"
  ws_recovery_attempts :: int
  ws_queue_name :: "string option"
  ws_workflow_timeout_ms :: "int option"
  ws_workflow_deadline_epoch_ms :: "int option"
  ws_started_at_epoch_ms :: "int option"
  ws_deduplication_id :: "string option"
  ws_inputs :: "string option"
  ws_priority :: int
  ws_queue_partition_key :: "string option"
  ws_forked_from :: "string option"
  ws_was_forked_from :: bool
  ws_owner_xid :: "string option"
  ws_parent_workflow_id :: "string option"
  ws_serialization :: "string option"
  ws_delay_until_epoch_ms :: "int option"
  ws_rate_limited :: bool
  ws_completed_at :: "int option"
  ws_attributes :: "attributes option"
  ws_schedule_name :: "string option"
  ws_debounce_deadline_epoch_ms :: "int option"
  ws_is_debounced :: bool

record operation_output_row =
  oo_workflow_uuid :: string
  oo_function_id :: int
  oo_function_name :: string
  oo_output :: "string option"
  oo_error :: "string option"
  oo_child_workflow_id :: "string option"
  oo_started_at_epoch_ms :: "int option"
  oo_completed_at_epoch_ms :: "int option"
  oo_serialization :: "string option"

record notification_row =
  nt_destination_uuid :: string
  nt_topic :: "string option"
  nt_message :: string
  nt_created_at_epoch_ms :: int
  nt_message_uuid :: string
  nt_serialization :: "string option"
  nt_consumed :: bool

record workflow_event_row =
  we_workflow_uuid :: string
  we_key :: string
  we_value :: string
  we_serialization :: "string option"

record workflow_event_history_row =
  weh_workflow_uuid :: string
  weh_key :: string
  weh_value :: string
  weh_function_id :: int
  weh_serialization :: "string option"

record stream_row =
  st_workflow_uuid :: string
  st_key :: string
  st_value :: string
  st_offset :: int
  st_function_id :: int
  st_serialization :: "string option"

record workflow_schedule_row =
  sc_schedule_id :: string
  sc_schedule_name :: string
  sc_workflow_name :: string
  sc_workflow_class_name :: "string option"
  sc_schedule :: string
  sc_status :: string
  sc_context :: string
  sc_last_fired_at :: "string option"
  sc_automatic_backfill :: bool
  sc_cron_timezone :: "string option"
  sc_queue_name :: "string option"

record application_version_row =
  av_version_id :: string
  av_version_name :: string
  av_version_timestamp :: int
  av_created_at :: int

text \<open>Periods and polling intervals are seconds as floats; the model keeps exact rationals.\<close>

record queue_row =
  qr_queue_id :: string
  qr_name :: string
  qr_concurrency :: "int option"
  qr_worker_concurrency :: "int option"
  qr_rate_limit_max :: "int option"
  qr_rate_limit_period_sec :: "rat option"
  qr_priority_enabled :: bool
  qr_partition_queue :: bool
  qr_polling_interval_sec :: rat
  qr_created_at :: int
  qr_updated_at :: int

record sysdb =
  workflow_status :: "workflow_status_row list"
  operation_outputs :: "operation_output_row list"
  notifications :: "notification_row list"
  workflow_events :: "workflow_event_row list"
  workflow_events_history :: "workflow_event_history_row list"
  streams :: "stream_row list"
  workflow_schedules :: "workflow_schedule_row list"
  application_versions :: "application_version_row list"
  queues :: "queue_row list"


definition empty_sysdb :: sysdb where
  "empty_sysdb = \<lparr>workflow_status = [], operation_outputs = [], notifications = [],
     workflow_events = [], workflow_events_history = [], streams = [], workflow_schedules = [],
     application_versions = [], queues = []\<rparr>"

section \<open>Constraints of the schema\<close>

abbreviation oo_pk :: "operation_output_row \<Rightarrow> string \<times> int" where
  "oo_pk r \<equiv> (oo_workflow_uuid r, oo_function_id r)"

abbreviation we_pk :: "workflow_event_row \<Rightarrow> string \<times> string" where
  "we_pk r \<equiv> (we_workflow_uuid r, we_key r)"

abbreviation weh_pk :: "workflow_event_history_row \<Rightarrow> string \<times> string \<times> int" where
  "weh_pk r \<equiv> (weh_workflow_uuid r, weh_key r, weh_function_id r)"

abbreviation st_pk :: "stream_row \<Rightarrow> string \<times> string \<times> int" where
  "st_pk r \<equiv> (st_workflow_uuid r, st_key r, st_offset r)"

definition workflow_ids :: "sysdb \<Rightarrow> string list" where
  "workflow_ids db = map ws_workflow_uuid (workflow_status db)"

text \<open>
  The partial unique index \<^verbatim>\<open>uq_workflow_status_dedup_id\<close> on (queue_name, deduplication_id):
  rows with a NULL in either column are not compared.
\<close>

definition dedup_key :: "workflow_status_row \<Rightarrow> (string \<times> string) option" where
  "dedup_key r = (case (ws_queue_name r, ws_deduplication_id r) of
     (Some q, Some d) \<Rightarrow> Some (q, d) | _ \<Rightarrow> None)"

definition dedup_unique :: "workflow_status_row list \<Rightarrow> bool" where
  "dedup_unique t \<longleftrightarrow> (\<forall>r \<in> set t. \<forall>s \<in> set t.
     dedup_key r \<noteq> None \<and> dedup_key r = dedup_key s \<longrightarrow> ws_workflow_uuid r = ws_workflow_uuid s)"

text \<open>A child table: a primary key, and a foreign key to \<^verbatim>\<open>workflow_status\<close>.\<close>

definition child_ok :: "string set \<Rightarrow> ('r \<Rightarrow> 'k) \<Rightarrow> ('r \<Rightarrow> string) \<Rightarrow> 'r list \<Rightarrow> bool" where
  "child_ok ids key owner t \<longleftrightarrow> distinct (map key t) \<and> owner ` set t \<subseteq> ids"

definition status_table_ok :: "workflow_status_row list \<Rightarrow> bool" where
  "status_table_ok t \<longleftrightarrow> distinct (map ws_workflow_uuid t) \<and> dedup_unique t"

definition children_ok :: "string set \<Rightarrow> sysdb \<Rightarrow> bool" where
  "children_ok ids db \<longleftrightarrow>
     child_ok ids oo_pk oo_workflow_uuid (operation_outputs db)
   \<and> child_ok ids nt_message_uuid nt_destination_uuid (notifications db)
   \<and> child_ok ids we_pk we_workflow_uuid (workflow_events db)
   \<and> child_ok ids weh_pk weh_workflow_uuid (workflow_events_history db)
   \<and> child_ok ids st_pk st_workflow_uuid (streams db)"

definition catalog_ok :: "sysdb \<Rightarrow> bool" where
  "catalog_ok db \<longleftrightarrow>
     distinct (map sc_schedule_id (workflow_schedules db))
   \<and> distinct (map sc_schedule_name (workflow_schedules db))
   \<and> distinct (map av_version_name (application_versions db))
   \<and> distinct (map qr_name (queues db))"

definition sysdb_inv :: "sysdb \<Rightarrow> bool" where
  "sysdb_inv db \<longleftrightarrow> status_table_ok (workflow_status db)
     \<and> children_ok (set (workflow_ids db)) db \<and> catalog_ok db"

section \<open>Transactions\<close>

text \<open>
  What the body of a transaction does to the database it works on: it returns (and its work is
  committed), it raises (and its work is rolled back), or it commits explicitly and then raises.
\<close>

datatype 'a txn_result = Done 'a sysdb | Raise dbos_error | CommitRaise dbos_error sysdb

definition engine_begin :: "(sysdb \<Rightarrow> 'a txn_result) \<Rightarrow> sysdb \<Rightarrow> 'a res \<times> sysdb" where
  "engine_begin body db = (case body db of
     Done a db' \<Rightarrow> (Inr a, db')
   | Raise e \<Rightarrow> (Inl e, db)
   | CommitRaise e db' \<Rightarrow> (Inl e, db'))"

fun txn_bind :: "'a txn_result \<Rightarrow> ('a \<Rightarrow> sysdb \<Rightarrow> 'b txn_result) \<Rightarrow> 'b txn_result" where
  "txn_bind (Done a db) f = f a db"
| "txn_bind (Raise e) f = Raise e"
| "txn_bind (CommitRaise e db) f = CommitRaise e db"

definition lift_res :: "'a res \<Rightarrow> sysdb \<Rightarrow> 'a txn_result" where
  "lift_res r db = (case r of Inl e \<Rightarrow> Raise e | Inr a \<Rightarrow> Done a db)"

definition lift_db :: "sysdb res \<Rightarrow> unit txn_result" where
  "lift_db r = (case r of Inl e \<Rightarrow> Raise e | Inr db \<Rightarrow> Done () db)"

definition txn_inv :: "'a txn_result \<Rightarrow> bool" where
  "txn_inv r = (case r of Done a db \<Rightarrow> sysdb_inv db | Raise e \<Rightarrow> True | CommitRaise e db \<Rightarrow> sysdb_inv db)"

section \<open>Statements on the database\<close>

definition update_workflow_status ::
  "(workflow_status_row \<Rightarrow> bool) \<Rightarrow> (workflow_status_row \<Rightarrow> workflow_status_row) \<Rightarrow> sysdb \<Rightarrow> sysdb" where
  "update_workflow_status P f db = db\<lparr>workflow_status := sql_update P f (workflow_status db)\<rparr>"

text \<open>A plain \<^verbatim>\<open>INSERT INTO workflow_status\<close>: both unique indexes are checked.\<close>

definition insert_status_row :: "workflow_status_row \<Rightarrow> sysdb \<Rightarrow> sysdb res" where
  "insert_status_row r db =
     (if ws_workflow_uuid r \<in> set (workflow_ids db) then Inl UniqueViolation
      else if dedup_key r \<noteq> None \<and> dedup_key r \<in> dedup_key ` set (workflow_status db)
      then Inl UniqueViolation
      else Inr (db\<lparr>workflow_status := workflow_status db @ [r]\<rparr>))"

text \<open>A plain insert into a child table with the given primary key and owner.\<close>

definition insert_child ::
  "('r \<Rightarrow> 'k) \<Rightarrow> ('r \<Rightarrow> string) \<Rightarrow> string list \<Rightarrow> 'r \<Rightarrow> 'r list \<Rightarrow> 'r list res" where
  "insert_child key owner ids r t =
     (if key r \<in> key ` set t then Inl UniqueViolation
      else if owner r \<notin> set ids then Inl ForeignKeyViolation
      else Inr (t @ [r]))"

definition insert_operation_output :: "operation_output_row \<Rightarrow> sysdb \<Rightarrow> sysdb res" where
  "insert_operation_output r db = map_sum id (\<lambda>t. db\<lparr>operation_outputs := t\<rparr>)
     (insert_child oo_pk oo_workflow_uuid (workflow_ids db) r (operation_outputs db))"

definition insert_event :: "workflow_event_row \<Rightarrow> sysdb \<Rightarrow> sysdb res" where
  "insert_event r db = map_sum id (\<lambda>t. db\<lparr>workflow_events := t\<rparr>)
     (insert_child we_pk we_workflow_uuid (workflow_ids db) r (workflow_events db))"

definition insert_event_history :: "workflow_event_history_row \<Rightarrow> sysdb \<Rightarrow> sysdb res" where
  "insert_event_history r db = map_sum id (\<lambda>t. db\<lparr>workflow_events_history := t\<rparr>)
     (insert_child weh_pk weh_workflow_uuid (workflow_ids db) r (workflow_events_history db))"

definition insert_stream :: "stream_row \<Rightarrow> sysdb \<Rightarrow> sysdb res" where
  "insert_stream r db = map_sum id (\<lambda>t. db\<lparr>streams := t\<rparr>)
     (insert_child st_pk st_workflow_uuid (workflow_ids db) r (streams db))"

definition insert_notification :: "notification_row \<Rightarrow> sysdb \<Rightarrow> sysdb res" where
  "insert_notification r db = map_sum id (\<lambda>t. db\<lparr>notifications := t\<rparr>)
     (insert_child nt_message_uuid nt_destination_uuid (workflow_ids db) r (notifications db))"

text \<open>
  \<^verbatim>\<open>DELETE FROM workflow_status WHERE P\<close>: every foreign key of the schema is declared
  \<^verbatim>\<open>ON DELETE CASCADE\<close>.
\<close>

definition delete_workflow_status :: "(workflow_status_row \<Rightarrow> bool) \<Rightarrow> sysdb \<Rightarrow> sysdb" where
  "delete_workflow_status P db =
     (let gone = set (map ws_workflow_uuid (filter P (workflow_status db))) in
      db\<lparr>workflow_status := sql_delete P (workflow_status db),
         operation_outputs := sql_delete (\<lambda>r. oo_workflow_uuid r \<in> gone) (operation_outputs db),
         notifications := sql_delete (\<lambda>r. nt_destination_uuid r \<in> gone) (notifications db),
         workflow_events := sql_delete (\<lambda>r. we_workflow_uuid r \<in> gone) (workflow_events db),
         workflow_events_history :=
           sql_delete (\<lambda>r. weh_workflow_uuid r \<in> gone) (workflow_events_history db),
         streams := sql_delete (\<lambda>r. st_workflow_uuid r \<in> gone) (streams db)\<rparr>)"

text \<open>The row of a workflow (the primary key makes it the only one).\<close>

definition status_row :: "sysdb \<Rightarrow> string \<Rightarrow> workflow_status_row option" where
  "status_row db wid = fetchone (filter (\<lambda>r. ws_workflow_uuid r = wid) (workflow_status db))"

definition operation_row :: "sysdb \<Rightarrow> string \<Rightarrow> int \<Rightarrow> operation_output_row option" where
  "operation_row db wid fid = fetchone (filter (\<lambda>r. oo_pk r = (wid, fid)) (operation_outputs db))"

end
