(* ===== verification/DBOS_Constraints.thy ===== *)
theory DBOS_Constraints
  imports DBOS_Schema
begin

text \<open>
  Lemmas on the system database shared by every component: looking a row up by its primary key,
  how the statements change what a lookup finds, and that they keep the constraints of the schema
  (\<open>sysdb_inv\<close>). The locale \<open>guarded_update\<close> is the contract of the
  \<^verbatim>\<open>UPDATE workflow_status\<close> statements that the status transitions are made of.
\<close>

section \<open>Lookup lemmas\<close>

lemma status_row_SomeD:
  "status_row db wid = Some r \<Longrightarrow> r \<in> set (workflow_status db) \<and> ws_workflow_uuid r = wid"
  by (auto simp: status_row_def dest!: nth_row_SomeD)

lemma status_row_None_iff: "status_row db wid = None \<longleftrightarrow> wid \<notin> set (workflow_ids db)"
  by (auto simp: status_row_def workflow_ids_def filter_empty_conv)

lemma status_row_Some_iff:
  assumes "status_table_ok (workflow_status db)"
  shows "status_row db wid = Some r \<longleftrightarrow> r \<in> set (workflow_status db) \<and> ws_workflow_uuid r = wid"
proof
  assume r: "r \<in> set (workflow_status db) \<and> ws_workflow_uuid r = wid"
  with assms have "filter (\<lambda>x. ws_workflow_uuid x = wid) (workflow_status db) = [r]"
    using filter_key_unique [of ws_workflow_uuid "workflow_status db" r]
    by (auto simp: status_table_ok_def)
  then show "status_row db wid = Some r" by (simp add: status_row_def)
qed (rule status_row_SomeD)

lemma operation_row_SomeD:
  "operation_row db wid fid = Some r \<Longrightarrow> r \<in> set (operation_outputs db) \<and> oo_pk r = (wid, fid)"
  by (auto simp: operation_row_def dest!: nth_row_SomeD)

lemma operation_row_None_iff:
  "operation_row db wid fid = None \<longleftrightarrow> (wid, fid) \<notin> oo_pk ` set (operation_outputs db)"
  by (auto simp: operation_row_def filter_empty_conv)

lemma operation_row_Some_iff:
  assumes "distinct (map oo_pk (operation_outputs db))"
  shows "operation_row db wid fid = Some r \<longleftrightarrow>
    r \<in> set (operation_outputs db) \<and> oo_pk r = (wid, fid)"
proof
  assume r: "r \<in> set (operation_outputs db) \<and> oo_pk r = (wid, fid)"
  then have "filter (\<lambda>x. oo_pk x = (wid, fid)) (operation_outputs db) = [r]"
    using filter_key_unique [OF assms, of r] by auto
  then show "operation_row db wid fid = Some r" by (simp add: operation_row_def)
qed (rule operation_row_SomeD)

lemma filter_map_key:
  assumes "\<And>r. key (g r) = key r"
  shows "filter (\<lambda>r. key r = k) (map g t) = map g (filter (\<lambda>r. key r = k) t)"
  using assms by (induction t) auto

lemma fetchone_map: "fetchone (map g t) = map_option g (fetchone t)"
  by (cases t) auto

lemma status_row_update:
  assumes "\<And>r. P r \<Longrightarrow> ws_workflow_uuid (f r) = ws_workflow_uuid r"
  shows "status_row (update_workflow_status P f db) wid
    = map_option (\<lambda>r. if P r then f r else r) (status_row db wid)"
proof -
  have "ws_workflow_uuid (if P r then f r else r) = ws_workflow_uuid r" for r
    using assms by simp
  from filter_map_key [of ws_workflow_uuid "\<lambda>r. if P r then f r else r", OF this]
  show ?thesis
    by (simp add: status_row_def update_workflow_status_def sql_update_def fetchone_map)
qed

lemma operation_row_append:
  "operation_row (db\<lparr>operation_outputs := operation_outputs db @ [r]\<rparr>) wid fid
   = (case operation_row db wid fid of
        Some r' \<Rightarrow> Some r'
      | None \<Rightarrow> if oo_pk r = (wid, fid) then Some r else None)"
  by (auto simp: operation_row_def nth_row_def split: list.splits)

lemma status_row_append:
  "status_row (db\<lparr>workflow_status := workflow_status db @ [r]\<rparr>) wid
   = (case status_row db wid of
        Some r' \<Rightarrow> Some r'
      | None \<Rightarrow> if ws_workflow_uuid r = wid then Some r else None)"
  by (auto simp: status_row_def nth_row_def split: list.splits)

lemma status_row_cong:
  "workflow_status db = workflow_status db' \<Longrightarrow> status_row db = status_row db'"
  by (auto simp: status_row_def fun_eq_iff)

lemma operation_row_cong:
  "operation_outputs db = operation_outputs db' \<Longrightarrow> operation_row db = operation_row db'"
  by (auto simp: operation_row_def fun_eq_iff)

lemma workflow_ids_update [simp]:
  assumes "\<And>r. P r \<Longrightarrow> ws_workflow_uuid (f r) = ws_workflow_uuid r"
  shows "workflow_ids (update_workflow_status P f db) = workflow_ids db"
  using assms by (simp add: workflow_ids_def update_workflow_status_def map_key_sql_update)

section \<open>Preservation of the constraints\<close>

lemma child_ok_delete [inv_intros]:
  "child_ok ids key owner t \<Longrightarrow> (\<And>r. \<not> P r \<Longrightarrow> owner r \<in> ids \<Longrightarrow> owner r \<in> ids') \<Longrightarrow>
   child_ok ids' key owner (sql_delete P t)"
  by (auto simp: child_ok_def sql_simps intro: inv_intros)

lemma child_ok_update [inv_intros]:
  assumes "child_ok ids key owner t"
    and "\<And>r. P r \<Longrightarrow> key (f r) = key r" and "\<And>r. P r \<Longrightarrow> owner (f r) = owner r"
  shows "child_ok ids key owner (sql_update P f t)"
  using assms by (auto simp: child_ok_def map_key_sql_update set_sql_update)

lemma child_ok_mono [inv_intros]:
  "child_ok ids key owner t \<Longrightarrow> ids \<subseteq> ids' \<Longrightarrow> child_ok ids' key owner t"
  by (auto simp: child_ok_def)

lemma child_ok_append [inv_intros]:
  assumes "child_ok ids key owner t" and "key r \<notin> key ` set t" and "owner r \<in> ids"
  shows "child_ok ids key owner (t @ [r])"
proof -
  have "distinct (map key (t @ [r]))" using assms by (simp add: child_ok_def)
  moreover have "owner ` set (t @ [r]) \<subseteq> ids" using assms by (simp add: child_ok_def)
  ultimately show ?thesis by (simp add: child_ok_def)
qed

lemma insert_child_ok:
  assumes "insert_child key owner ids r t = Inr t'" and "child_ok (set ids) key owner t"
  shows "child_ok (set ids) key owner t'"
proof -
  from assms(1) have "t' = t @ [r]" "key r \<notin> key ` set t" "owner r \<in> set ids"
    by (simp_all add: insert_child_def split: if_splits)
  with assms(2) show ?thesis by (simp add: child_ok_append)
qed

lemma children_ok_mono: "children_ok ids db \<Longrightarrow> ids \<subseteq> ids' \<Longrightarrow> children_ok ids' db"
  unfolding children_ok_def by (blast intro: child_ok_mono)

lemma map_sum_Inr_iff: "map_sum id g x = Inr y \<longleftrightarrow> (\<exists>z. x = Inr z \<and> y = g z)"
  by (cases x) auto

lemma insert_operation_output_inv [inv_intros]:
  "insert_operation_output r db = Inr db' \<Longrightarrow> sysdb_inv db \<Longrightarrow> sysdb_inv db'"
  by (auto simp: insert_operation_output_def map_sum_Inr_iff sysdb_inv_def children_ok_def
      catalog_ok_def workflow_ids_def dest: insert_child_ok)

lemma insert_event_inv [inv_intros]:
  "insert_event r db = Inr db' \<Longrightarrow> sysdb_inv db \<Longrightarrow> sysdb_inv db'"
  by (auto simp: insert_event_def map_sum_Inr_iff sysdb_inv_def children_ok_def
      catalog_ok_def workflow_ids_def dest: insert_child_ok)

lemma insert_event_history_inv [inv_intros]:
  "insert_event_history r db = Inr db' \<Longrightarrow> sysdb_inv db \<Longrightarrow> sysdb_inv db'"
  by (auto simp: insert_event_history_def map_sum_Inr_iff sysdb_inv_def children_ok_def
      catalog_ok_def workflow_ids_def dest: insert_child_ok)

lemma insert_stream_inv [inv_intros]:
  "insert_stream r db = Inr db' \<Longrightarrow> sysdb_inv db \<Longrightarrow> sysdb_inv db'"
  by (auto simp: insert_stream_def map_sum_Inr_iff sysdb_inv_def children_ok_def
      catalog_ok_def workflow_ids_def dest: insert_child_ok)

lemma insert_notification_inv [inv_intros]:
  "insert_notification r db = Inr db' \<Longrightarrow> sysdb_inv db \<Longrightarrow> sysdb_inv db'"
  by (auto simp: insert_notification_def map_sum_Inr_iff sysdb_inv_def children_ok_def
      catalog_ok_def workflow_ids_def dest: insert_child_ok)

lemma dedup_unique_append:
  assumes "dedup_unique t" and "dedup_key r \<noteq> None \<Longrightarrow> dedup_key r \<notin> dedup_key ` set t"
  shows "dedup_unique (t @ [r])"
  unfolding dedup_unique_def
proof (intro ballI impI, elim conjE)
  fix a b
  assume ab: "a \<in> set (t @ [r])" "b \<in> set (t @ [r])" "dedup_key a \<noteq> None" "dedup_key a = dedup_key b"
  show "ws_workflow_uuid a = ws_workflow_uuid b"
  proof (cases "a = b")
    case False
    with ab assms(2) have "a \<in> set t \<and> b \<in> set t" by (metis image_eqI rotate1.simps(2) set_ConsD set_rotate1)
    with ab assms(1) show ?thesis unfolding dedup_unique_def by blast
  qed simp
qed

lemma insert_status_row_inv [inv_intros]:
  assumes "insert_status_row r db = Inr db'" and "sysdb_inv db"
  shows "sysdb_inv db'"
proof -
  from assms(1) have db': "db' = db\<lparr>workflow_status := workflow_status db @ [r]\<rparr>"
    and new: "ws_workflow_uuid r \<notin> ws_workflow_uuid ` set (workflow_status db)"
    and dk: "dedup_key r \<noteq> None \<Longrightarrow> dedup_key r \<notin> dedup_key ` set (workflow_status db)"
    by (auto simp: insert_status_row_def workflow_ids_def split: if_splits)
  from assms(2) have "status_table_ok (workflow_status db)" by (simp add: sysdb_inv_def)
  then have st: "status_table_ok (workflow_status db')"
    using new dk dedup_unique_append [of "workflow_status db" r]
    unfolding status_table_ok_def db' by auto
  have "set (workflow_ids db) \<subseteq> set (workflow_ids db')" by (auto simp: db' workflow_ids_def)
  then have "children_ok (set (workflow_ids db')) db"
    using assms(2) children_ok_mono unfolding sysdb_inv_def by blast
  then show ?thesis using assms(2) st
    by (simp add: sysdb_inv_def children_ok_def catalog_ok_def db')
qed

lemma delete_children_tables:
  defines "gone P db \<equiv> set (map ws_workflow_uuid (filter P (workflow_status db)))"
  shows "operation_outputs (delete_workflow_status P db)
      = sql_delete (\<lambda>r. oo_workflow_uuid r \<in> gone P db) (operation_outputs db)"
    "notifications (delete_workflow_status P db)
      = sql_delete (\<lambda>r. nt_destination_uuid r \<in> gone P db) (notifications db)"
    "workflow_events (delete_workflow_status P db)
      = sql_delete (\<lambda>r. we_workflow_uuid r \<in> gone P db) (workflow_events db)"
    "workflow_events_history (delete_workflow_status P db)
      = sql_delete (\<lambda>r. weh_workflow_uuid r \<in> gone P db) (workflow_events_history db)"
    "streams (delete_workflow_status P db)
      = sql_delete (\<lambda>r. st_workflow_uuid r \<in> gone P db) (streams db)"
  by (simp_all add: delete_workflow_status_def Let_def gone_def)

lemma delete_workflow_status_inv [inv_intros]:
  assumes "sysdb_inv db"
  shows "sysdb_inv (delete_workflow_status P db)"
proof -
  let ?gone = "set (map ws_workflow_uuid (filter P (workflow_status db)))"
  let ?db = "delete_workflow_status P db"
  have ids: "w \<in> set (workflow_ids ?db)" if "w \<notin> ?gone" "w \<in> set (workflow_ids db)" for w
    using that by (auto simp: workflow_ids_def delete_workflow_status_def Let_def set_sql_delete)
  from assms have "status_table_ok (sql_delete P (workflow_status db))"
    unfolding sysdb_inv_def status_table_ok_def dedup_unique_def set_sql_delete
    by (blast intro: map_key_sql_delete_distinct)
  then have "status_table_ok (workflow_status ?db)"
    by (simp add: delete_workflow_status_def Let_def)
  moreover have "children_ok (set (workflow_ids ?db)) ?db"
    using assms ids delete_children_tables [of P db]
    unfolding sysdb_inv_def children_ok_def
    by (auto simp del: set_map intro!: child_ok_delete)
  moreover have "catalog_ok ?db"
    using assms by (simp add: sysdb_inv_def catalog_ok_def delete_workflow_status_def Let_def)
  ultimately show ?thesis by (simp add: sysdb_inv_def)
qed

lemma engine_begin_inv:
  "txn_inv (body db) \<Longrightarrow> sysdb_inv db \<Longrightarrow> sysdb_inv (snd (engine_begin body db))"
  by (auto simp: engine_begin_def txn_inv_def split: txn_result.splits)

lemma txn_inv_simps [simp]:
  "txn_inv (Done a db) = sysdb_inv db"
  "txn_inv (Raise e) = True"
  "txn_inv (CommitRaise e db) = sysdb_inv db"
  by (simp_all add: txn_inv_def)

lemma txn_inv_bind:
  assumes "txn_inv r" and "\<And>a db. sysdb_inv db \<Longrightarrow> txn_inv (f a db)"
  shows "txn_inv (txn_bind r f)"
  using assms by (cases r) auto

lemma engine_begin_simps [simp]:
  "body db = Done a db' \<Longrightarrow> engine_begin body db = (Inr a, db')"
  "body db = Raise e \<Longrightarrow> engine_begin body db = (Inl e, db)"
  "body db = CommitRaise e db' \<Longrightarrow> engine_begin body db = (Inl e, db')"
  by (simp_all add: engine_begin_def)

lemma update_workflow_status_frame [simp]:
  "operation_outputs (update_workflow_status P f db) = operation_outputs db"
  "notifications (update_workflow_status P f db) = notifications db"
  "workflow_events (update_workflow_status P f db) = workflow_events db"
  "workflow_events_history (update_workflow_status P f db) = workflow_events_history db"
  "streams (update_workflow_status P f db) = streams db"
  "workflow_schedules (update_workflow_status P f db) = workflow_schedules db"
  "application_versions (update_workflow_status P f db) = application_versions db"
  "queues (update_workflow_status P f db) = queues db"
  by (simp_all add: update_workflow_status_def)

section \<open>Guarded updates of the status table\<close>

text \<open>
  Every status transition of the code is one \<^verbatim>\<open>UPDATE workflow_status ... WHERE ...\<close>. Its
  contract: it does not touch the primary key, and it either clears the deduplication key of a
  row or leaves it as it is, so the partial unique index cannot be violated. A transition that
  obeys it keeps the constraints of the whole schema.
\<close>

locale guarded_update =
  fixes guard :: "workflow_status_row \<Rightarrow> bool"
    and eff :: "workflow_status_row \<Rightarrow> workflow_status_row"
  assumes keeps_uuid: "guard r \<Longrightarrow> ws_workflow_uuid (eff r) = ws_workflow_uuid r"
    and keeps_dedup: "guard r \<Longrightarrow> dedup_key (eff r) = None \<or> dedup_key (eff r) = dedup_key r"
begin

lemma update_row:
  "status_row (update_workflow_status guard eff db) wid
   = map_option (\<lambda>r. if guard r then eff r else r) (status_row db wid)"
  by (rule status_row_update) (rule keeps_uuid)

lemma update_ids: "workflow_ids (update_workflow_status guard eff db) = workflow_ids db"
  by (rule workflow_ids_update) (rule keeps_uuid)

lemma update_table_ok:
  assumes "status_table_ok t"
  shows "status_table_ok (sql_update guard eff t)"
proof -
  have uuid: "map ws_workflow_uuid (sql_update guard eff t) = map ws_workflow_uuid t"
    by (rule map_key_sql_update) (rule keeps_uuid)
  have row: "\<exists>r0 \<in> set t. ws_workflow_uuid r0 = ws_workflow_uuid r
      \<and> (dedup_key r = None \<or> dedup_key r = dedup_key r0)"
    if "r \<in> set (sql_update guard eff t)" for r
  proof -
    from that consider x where "x \<in> set t" "guard x" "r = eff x" | "r \<in> set t"
      by (auto simp: set_sql_update)
    then show ?thesis
    proof cases
      case 1
      then show ?thesis using keeps_uuid keeps_dedup by (intro bexI [of _ x]) simp_all
    qed blast
  qed
  have "dedup_unique (sql_update guard eff t)"
    unfolding dedup_unique_def
  proof (intro ballI impI, elim conjE)
    fix r s
    assume r: "r \<in> set (sql_update guard eff t)" and s: "s \<in> set (sql_update guard eff t)"
      and k: "dedup_key r \<noteq> None" "dedup_key r = dedup_key s"
    from row [OF r] k obtain r0 where r0: "r0 \<in> set t" "ws_workflow_uuid r0 = ws_workflow_uuid r"
      "dedup_key r = dedup_key r0" by auto
    from row [OF s] k obtain s0 where s0: "s0 \<in> set t" "ws_workflow_uuid s0 = ws_workflow_uuid s"
      "dedup_key s = dedup_key s0" by auto
    from assms have u: "dedup_unique t" by (simp add: status_table_ok_def)
    from k r0(3) s0(3) have "dedup_key r0 \<noteq> None \<and> dedup_key r0 = dedup_key s0" by auto
    with u r0(1) s0(1) have "ws_workflow_uuid r0 = ws_workflow_uuid s0"
      unfolding dedup_unique_def by blast
    with r0 s0 show "ws_workflow_uuid r = ws_workflow_uuid s" by simp
  qed
  with assms uuid show ?thesis by (simp add: status_table_ok_def)
qed

lemma update_inv:
  assumes "sysdb_inv db"
  shows "sysdb_inv (update_workflow_status guard eff db)"
proof -
  from assms have "status_table_ok (workflow_status (update_workflow_status guard eff db))"
    by (simp add: sysdb_inv_def update_workflow_status_def update_table_ok)
  with assms show ?thesis unfolding sysdb_inv_def update_ids
    by (simp add: children_ok_def catalog_ok_def)
qed

lemma update_untouched:
  "status_row db wid = Some r \<Longrightarrow> \<not> guard r \<Longrightarrow>
   status_row (update_workflow_status guard eff db) wid = Some r"
  by (simp add: update_row)

end

end
