(* ===== verification/DBOS_Workflow_Status.thy ===== *)
theory DBOS_Workflow_Status
  imports DBOS_Constraints
begin

text \<open>
  The workflow status table (\<^verbatim>\<open>dbos/_sys_db.py\<close>): starting a workflow
  (\<open>insert_workflow_status\<close>), finishing it, cancelling, resuming, delaying, debouncing, deleting
  it, and the reads of its status and result. Clocks are arguments: \<open>now\<close> is what the
  statement's \<^verbatim>\<open>now()\<close> or the process's \<^verbatim>\<open>time.time()\<close> returns, in milliseconds.
\<close>

section \<open>Starting a workflow\<close>

record WorkflowStatusInternal =
  wi_workflow_uuid :: string
  wi_status :: WorkflowStatusString
  wi_name :: string
  wi_class_name :: "string option"
  wi_config_name :: "string option"
  wi_authenticated_user :: "string option"
  wi_assumed_role :: "string option"
  wi_authenticated_roles :: "string option"
  wi_output :: "string option"
  wi_error :: "string option"
  wi_created_at :: "int option"
  wi_updated_at :: "int option"
  wi_queue_name :: "string option"
  wi_executor_id :: "string option"
  wi_app_version :: "string option"
  wi_app_id :: "string option"
  wi_recovery_attempts :: "int option"
  wi_workflow_timeout_ms :: "int option"
  wi_workflow_deadline_epoch_ms :: "int option"
  wi_deduplication_id :: "string option"
  wi_priority :: int
  wi_inputs :: "string option"
  wi_queue_partition_key :: "string option"
  wi_forked_from :: "string option"
  wi_parent_workflow_id :: "string option"
  wi_started_at_epoch_ms :: "int option"
  wi_serialization :: "string option"
  wi_owner_xid :: "string option"
  wi_delay_until_epoch_ms :: "int option"
  wi_attributes :: "attributes option"
  wi_schedule_name :: "string option"
  wi_debounce_deadline_epoch_ms :: "int option"
  wi_is_debounced :: bool

definition is_enqueued_status :: "WorkflowStatusString \<Rightarrow> bool" where
  "is_enqueued_status s = (s = ENQUEUED \<or> s = DELAYED)"

definition new_status_row :: "WorkflowStatusInternal \<Rightarrow> string option \<Rightarrow> int \<Rightarrow> workflow_status_row" where
  "new_status_row w owner_xid now = \<lparr>
     ws_workflow_uuid = wi_workflow_uuid w, ws_status = wi_status w, ws_name = wi_name w,
     ws_authenticated_user = wi_authenticated_user w, ws_assumed_role = wi_assumed_role w,
     ws_authenticated_roles = wi_authenticated_roles w,
     ws_output = wi_output w, ws_error = wi_error w, ws_executor_id = wi_executor_id w,
     ws_created_at = now, ws_updated_at = now,
     ws_application_version = wi_app_version w, ws_application_id = wi_app_id w,
     ws_class_name = wi_class_name w, ws_config_name = wi_config_name w,
     ws_recovery_attempts = (if \<not> is_enqueued_status (wi_status w) then 1 else 0),
     ws_queue_name = wi_queue_name w, ws_workflow_timeout_ms = wi_workflow_timeout_ms w,
     ws_workflow_deadline_epoch_ms = wi_workflow_deadline_epoch_ms w,
     ws_started_at_epoch_ms = None, ws_deduplication_id = wi_deduplication_id w,
     ws_inputs = wi_inputs w, ws_priority = wi_priority w,
     ws_queue_partition_key = wi_queue_partition_key w, ws_forked_from = None,
     ws_was_forked_from = False, ws_owner_xid = owner_xid,
     ws_parent_workflow_id = wi_parent_workflow_id w, ws_serialization = wi_serialization w,
     ws_delay_until_epoch_ms = wi_delay_until_epoch_ms w, ws_rate_limited = False,
     ws_completed_at = None, ws_attributes = wi_attributes w,
     ws_schedule_name = wi_schedule_name w,
     ws_debounce_deadline_epoch_ms = wi_debounce_deadline_epoch_ms w,
     ws_is_debounced = wi_is_debounced w\<rparr>"

text \<open>The \<^verbatim>\<open>ON CONFLICT (workflow_uuid) DO UPDATE SET\<close> of an existing row.\<close>

definition conflict_update ::
  "WorkflowStatusInternal \<Rightarrow> bool \<Rightarrow> int \<Rightarrow> workflow_status_row \<Rightarrow> workflow_status_row" where
  "conflict_update w force_execute now r = r\<lparr>
     ws_recovery_attempts := (if \<not> is_enqueued_status (ws_status r)
        then ws_recovery_attempts r + (if force_execute then 1 else 0) else ws_recovery_attempts r),
     ws_updated_at := now,
     ws_executor_id := (if \<not> is_enqueued_status (wi_status w) then wi_executor_id w
        else ws_executor_id r)\<rparr>"

text \<open>
  The upsert: PostgreSQL tests the arbiter index (the primary key) first, so an existing workflow
  takes the update path whatever its deduplication key.
\<close>

definition upsert_status_row ::
  "WorkflowStatusInternal \<Rightarrow> string option \<Rightarrow> bool \<Rightarrow> int \<Rightarrow> sysdb \<Rightarrow> sysdb res" where
  "upsert_status_row w owner_xid force_execute now db =
     (if wi_workflow_uuid w \<in> set (workflow_ids db)
      then Inr (update_workflow_status (\<lambda>r. ws_workflow_uuid r = wi_workflow_uuid w)
                  (conflict_update w force_execute now) db)
      else insert_status_row (new_status_row w owner_xid now) db)"

definition dlq_guard :: "string \<Rightarrow> workflow_status_row \<Rightarrow> bool" where
  "dlq_guard wid r \<longleftrightarrow> ws_workflow_uuid r = wid \<and> ws_status r = PENDING"

definition dlq_effect :: "workflow_status_row \<Rightarrow> workflow_status_row" where
  "dlq_effect r = r\<lparr>ws_status := MAX_RECOVERY_ATTEMPTS_EXCEEDED, ws_deduplication_id := None,
     ws_started_at_epoch_ms := None, ws_queue_name := None\<rparr>"

text \<open>
  The names of the recorded workflow must be the ones it is started with; a different queue name
  is only logged.
\<close>

definition name_conflict :: "WorkflowStatusInternal \<Rightarrow> workflow_status_row \<Rightarrow> string option" where
  "name_conflict w row =
     (if ws_name row \<noteq> wi_name w then Some ''function name''
      else if ws_class_name row \<noteq> wi_class_name w then Some ''class name''
      else if ws_config_name row \<noteq> wi_config_name w then Some ''config name''
      else None)"

text \<open>
  The result: the recorded status, deadline, whether this caller should execute the workflow, and
  the recorded serialization (which the code stores back into the caller's status).
\<close>

type_synonym init_result = "WorkflowStatusString \<times> int option \<times> bool \<times> string option"

definition insert_workflow_status ::
  "WorkflowStatusInternal \<Rightarrow> int option \<Rightarrow> string option \<Rightarrow> bool \<Rightarrow> bool \<Rightarrow> int \<Rightarrow> sysdb
   \<Rightarrow> init_result txn_result" where
  "insert_workflow_status w max_recovery_attempts owner_xid is_recovery is_dequeued now db =
     (case upsert_status_row w owner_xid (is_recovery \<or> is_dequeued) now db of
        Inl e \<Rightarrow>
          (if e = UniqueViolation then
             (case (wi_deduplication_id w, wi_queue_name w) of
                (Some d, Some q) \<Rightarrow> Raise (DBOSQueueDeduplicatedError (wi_workflow_uuid w) q d)
              | _ \<Rightarrow> Raise AssertionError)
           else Raise e)
      | Inr db1 \<Rightarrow>
          (case status_row db1 (wi_workflow_uuid w) of
             None \<Rightarrow> Done (wi_status w, wi_workflow_deadline_epoch_ms w, True, wi_serialization w) db1
           | Some row \<Rightarrow>
               (case name_conflict w row of
                  Some msg \<Rightarrow> Raise (DBOSConflictingWorkflowError (wi_workflow_uuid w) msg)
                | None \<Rightarrow>
                    (case max_recovery_attempts of
                       Some m \<Rightarrow>
                         if ws_status row \<noteq> SUCCESS \<and> ws_status row \<noteq> ERROR
                            \<and> ws_recovery_attempts row > m + 1 \<and> owner_xid \<noteq> ws_owner_xid row
                         then CommitRaise (MaxRecoveryAttemptsExceededError (wi_workflow_uuid w) m)
                                (update_workflow_status (dlq_guard (wi_workflow_uuid w)) dlq_effect db1)
                         else Done (ws_status row, ws_workflow_deadline_epoch_ms row,
                                \<not> (owner_xid \<noteq> ws_owner_xid row \<and> \<not> is_dequeued \<and> \<not> is_recovery),
                                ws_serialization row) db1
                     | None \<Rightarrow>
                         Done (ws_status row, ws_workflow_deadline_epoch_ms row,
                           \<not> (owner_xid \<noteq> ws_owner_xid row \<and> \<not> is_dequeued \<and> \<not> is_recovery),
                           ws_serialization row) db1))))"

definition init_workflow ::
  "WorkflowStatusInternal \<Rightarrow> int option \<Rightarrow> string option \<Rightarrow> bool \<Rightarrow> bool \<Rightarrow> int \<Rightarrow> sysdb
   \<Rightarrow> init_result res \<times> sysdb" where
  "init_workflow w max_recovery_attempts owner_xid is_recovery is_dequeued now db =
     engine_begin (insert_workflow_status w max_recovery_attempts owner_xid is_recovery is_dequeued now) db"

definition init_workflow_with_connection ::
  "WorkflowStatusInternal \<Rightarrow> int option \<Rightarrow> string option \<Rightarrow> int \<Rightarrow> sysdb \<Rightarrow> init_result txn_result" where
  "init_workflow_with_connection w max_recovery_attempts owner_xid now db =
     insert_workflow_status w max_recovery_attempts owner_xid False False now db"

section \<open>Finishing, cancelling, resuming\<close>

definition outcome_guard :: "string \<Rightarrow> workflow_status_row \<Rightarrow> bool" where
  "outcome_guard wid r \<longleftrightarrow> ws_workflow_uuid r = wid \<and> ws_status r \<noteq> CANCELLED"

definition outcome_effect ::
  "WorkflowStatusString \<Rightarrow> string option \<Rightarrow> string option \<Rightarrow> int \<Rightarrow> workflow_status_row \<Rightarrow> workflow_status_row" where
  "outcome_effect status outp err now r = r\<lparr>ws_status := status, ws_output := outp, ws_error := err,
     ws_deduplication_id := None, ws_updated_at := now, ws_completed_at := Some now\<rparr>"

definition update_workflow_outcome ::
  "string \<Rightarrow> WorkflowStatusString \<Rightarrow> string option \<Rightarrow> string option \<Rightarrow> int \<Rightarrow> sysdb \<Rightarrow> unit res \<times> sysdb" where
  "update_workflow_outcome wid status outp err now = engine_begin (\<lambda>db.
     if filter (outcome_guard wid) (workflow_status db) = [] then
       (case status_row db wid of
          Some r \<Rightarrow> if ws_status r = CANCELLED then Raise (DBOSAwaitedWorkflowCancelledError wid)
                    else Done () db
        | None \<Rightarrow> Done () db)
     else Done () (update_workflow_status (outcome_guard wid) (outcome_effect status outp err now) db))"

definition not_complete :: "string list \<Rightarrow> workflow_status_row \<Rightarrow> bool" where
  "not_complete ids r \<longleftrightarrow> ws_workflow_uuid r \<in> set ids \<and> ws_status r \<noteq> SUCCESS \<and> ws_status r \<noteq> ERROR"

definition cancel_effect :: "int \<Rightarrow> workflow_status_row \<Rightarrow> workflow_status_row" where
  "cancel_effect now r = r\<lparr>ws_status := CANCELLED, ws_queue_name := None, ws_deduplication_id := None,
     ws_started_at_epoch_ms := None, ws_updated_at := now, ws_completed_at := Some now\<rparr>"

definition cancel_batch :: "int \<Rightarrow> string list \<Rightarrow> sysdb \<Rightarrow> sysdb" where
  "cancel_batch now ids db = update_workflow_status (not_complete ids) (cancel_effect now) db"

definition INTERNAL_QUEUE_NAME :: string where
  "INTERNAL_QUEUE_NAME = ''_dbos_internal_queue''"

definition resume_effect :: "string option \<Rightarrow> int \<Rightarrow> workflow_status_row \<Rightarrow> workflow_status_row" where
  "resume_effect queue_name now r = r\<lparr>ws_status := ENQUEUED,
     ws_queue_name := Some (case queue_name of Some q \<Rightarrow> q | None \<Rightarrow> INTERNAL_QUEUE_NAME),
     ws_recovery_attempts := 0, ws_workflow_deadline_epoch_ms := None, ws_deduplication_id := None,
     ws_started_at_epoch_ms := None, ws_updated_at := now, ws_completed_at := None\<rparr>"

definition resume_workflows :: "string list \<Rightarrow> string option \<Rightarrow> int \<Rightarrow> sysdb \<Rightarrow> sysdb" where
  "resume_workflows ids queue_name now db =
     update_workflow_status (not_complete ids) (resume_effect queue_name now) db"

section \<open>Delays and debouncing\<close>

text \<open>Python's \<^verbatim>\<open>int\<close> of a float truncates towards zero.\<close>

definition py_int :: "rat \<Rightarrow> int" where
  "py_int x = (if 0 \<le> x then \<lfloor>x\<rfloor> else \<lceil>x\<rceil>)"

definition delay_guard :: "string \<Rightarrow> workflow_status_row \<Rightarrow> bool" where
  "delay_guard wid r \<longleftrightarrow> ws_workflow_uuid r = wid \<and> ws_status r = DELAYED"

definition delay_effect :: "int \<Rightarrow> int \<Rightarrow> workflow_status_row \<Rightarrow> workflow_status_row" where
  "delay_effect resolved now r = r\<lparr>ws_delay_until_epoch_ms := Some resolved, ws_updated_at := now\<rparr>"

text \<open>\<open>time_sec\<close> is what \<^verbatim>\<open>time.time()\<close> returns, in seconds; \<open>now\<close> the database's clock.\<close>

definition set_workflow_delay ::
  "string \<Rightarrow> rat option \<Rightarrow> int option \<Rightarrow> rat \<Rightarrow> int \<Rightarrow> sysdb \<Rightarrow> unit res \<times> sysdb" where
  "set_workflow_delay wid delay_seconds delay_until time_sec now db =
     (case (delay_until, delay_seconds) of
        (Some _, Some _) \<Rightarrow> (Inl (DBOSException ''Specify either delay_seconds or delay_until_epoch_ms, not both''), db)
      | (Some u, None) \<Rightarrow>
          if u < 0 then (Inl (DBOSException ''delay_until_epoch_ms must be >= 0''), db)
          else (Inr (), update_workflow_status (delay_guard wid) (delay_effect u now) db)
      | (None, Some d) \<Rightarrow>
          if d < 0 then (Inl (DBOSException ''delay_seconds must be >= 0''), db)
          else (Inr (), update_workflow_status (delay_guard wid)
                 (delay_effect (py_int ((time_sec + d) * 1000)) now) db)
      | (None, None) \<Rightarrow> (Inl (DBOSException ''Must specify either delay_seconds or delay_until_epoch_ms''), db))"

record DebounceResult =
  dr_bounced_workflow_id :: "string option"
  dr_holder_workflow_id :: "string option"
  dr_holder_is_debounced :: bool
  dr_holder_workflow_name :: "string option"

definition debounce_guard :: "string \<Rightarrow> string \<Rightarrow> string \<Rightarrow> workflow_status_row \<Rightarrow> bool" where
  "debounce_guard wname qname dedup r \<longleftrightarrow> ws_name r = wname \<and> ws_queue_name r = Some qname
     \<and> ws_deduplication_id r = Some dedup \<and> ws_status r = DELAYED \<and> ws_is_debounced r"

text \<open>The new delay, capped at the debounce deadline of the row, if it has one.\<close>

definition capped_delay :: "int \<Rightarrow> workflow_status_row \<Rightarrow> int" where
  "capped_delay delay_until r = (case ws_debounce_deadline_epoch_ms r of
     Some d \<Rightarrow> if d < delay_until then d else delay_until | None \<Rightarrow> delay_until)"

definition debounce_effect ::
  "int \<Rightarrow> string \<Rightarrow> string option \<Rightarrow> int \<Rightarrow> workflow_status_row \<Rightarrow> workflow_status_row" where
  "debounce_effect delay_until inputs ser now r = r\<lparr>
     ws_delay_until_epoch_ms := Some (capped_delay delay_until r),
     ws_inputs := Some inputs, ws_serialization := ser, ws_updated_at := now\<rparr>"

definition debounce_delayed_workflow ::
  "string \<Rightarrow> string \<Rightarrow> string \<Rightarrow> int \<Rightarrow> string \<Rightarrow> string option \<Rightarrow> int \<Rightarrow> sysdb
   \<Rightarrow> DebounceResult \<times> sysdb" where
  "debounce_delayed_workflow wname qname dedup delay_until inputs ser now db =
     (case fetchone (filter (debounce_guard wname qname dedup) (workflow_status db)) of
        Some r \<Rightarrow>
          (\<lparr>dr_bounced_workflow_id = Some (ws_workflow_uuid r), dr_holder_workflow_id = None,
            dr_holder_is_debounced = False, dr_holder_workflow_name = None\<rparr>,
           update_workflow_status (debounce_guard wname qname dedup)
             (debounce_effect delay_until inputs ser now) db)
      | None \<Rightarrow>
          (case fetchone (filter (\<lambda>r. ws_queue_name r = Some qname \<and> ws_deduplication_id r = Some dedup)
                   (workflow_status db)) of
             None \<Rightarrow> (\<lparr>dr_bounced_workflow_id = None, dr_holder_workflow_id = None,
               dr_holder_is_debounced = False, dr_holder_workflow_name = None\<rparr>, db)
           | Some h \<Rightarrow> (\<lparr>dr_bounced_workflow_id = None, dr_holder_workflow_id = Some (ws_workflow_uuid h),
               dr_holder_is_debounced = ws_is_debounced h,
               dr_holder_workflow_name = Some (ws_name h)\<rparr>, db)))"

section \<open>Attributes, deletion\<close>

definition validate_workflow_attributes :: "attributes option \<Rightarrow> unit res" where
  "validate_workflow_attributes attrs = (case attrs of
     None \<Rightarrow> Inr ()
   | Some v \<Rightarrow> (case v of
       PDict _ \<Rightarrow> if json_serializable v then Inr ()
                  else Inl (DBOSException ''Attributes must be JSON-serializable.'')
     | _ \<Rightarrow> Inl (DBOSException ''Attributes must be a dict.'')))"

definition update_workflow_attributes ::
  "string \<Rightarrow> attributes option \<Rightarrow> int \<Rightarrow> sysdb \<Rightarrow> unit res \<times> sysdb" where
  "update_workflow_attributes wid attrs now db =
     (case validate_workflow_attributes attrs of
        Inl e \<Rightarrow> (Inl e, db)
      | Inr _ \<Rightarrow> (Inr (), update_workflow_status (\<lambda>r. ws_workflow_uuid r = wid)
                   (\<lambda>r. r\<lparr>ws_attributes := attrs, ws_updated_at := now\<rparr>) db))"

definition delete_workflows :: "string list \<Rightarrow> sysdb \<Rightarrow> sysdb" where
  "delete_workflows ids db = delete_workflow_status (\<lambda>r. ws_workflow_uuid r \<in> set ids) db"


section \<open>Reading status and result\<close>

definition get_workflow_status :: "string \<Rightarrow> sysdb \<Rightarrow> WorkflowStatusInternal option" where
  "get_workflow_status wid db = (case status_row db wid of
     None \<Rightarrow> None
   | Some r \<Rightarrow> Some \<lparr>
       wi_workflow_uuid = wid, wi_status = ws_status r, wi_name = ws_name r,
       wi_class_name = ws_class_name r, wi_config_name = ws_config_name r,
       wi_authenticated_user = ws_authenticated_user r, wi_assumed_role = ws_assumed_role r,
       wi_authenticated_roles = ws_authenticated_roles r, wi_output = None, wi_error = None,
       wi_created_at = Some (ws_created_at r), wi_updated_at = Some (ws_updated_at r),
       wi_queue_name = ws_queue_name r, wi_executor_id = ws_executor_id r,
       wi_app_version = ws_application_version r, wi_app_id = ws_application_id r,
       wi_recovery_attempts = Some (ws_recovery_attempts r),
       wi_workflow_timeout_ms = ws_workflow_timeout_ms r,
       wi_workflow_deadline_epoch_ms = ws_workflow_deadline_epoch_ms r,
       wi_deduplication_id = ws_deduplication_id r, wi_priority = ws_priority r,
       wi_inputs = ws_inputs r, wi_queue_partition_key = ws_queue_partition_key r,
       wi_forked_from = ws_forked_from r, wi_parent_workflow_id = ws_parent_workflow_id r,
       wi_started_at_epoch_ms = ws_started_at_epoch_ms r, wi_serialization = ws_serialization r,
       wi_owner_xid = None, wi_delay_until_epoch_ms = ws_delay_until_epoch_ms r,
       wi_attributes = ws_attributes r, wi_schedule_name = ws_schedule_name r,
       wi_debounce_deadline_epoch_ms = ws_debounce_deadline_epoch_ms r,
       wi_is_debounced = ws_is_debounced r\<rparr>)"

text \<open>\<open>Inr None\<close> is \<^verbatim>\<open>NoResult()\<close>.\<close>

definition check_workflow_result ::
  "codecs \<Rightarrow> Serializer \<Rightarrow> string \<Rightarrow> sysdb \<Rightarrow> pyval option res" where
  "check_workflow_result cs sz wid db = (case status_row db wid of
     None \<Rightarrow> Inr None
   | Some r \<Rightarrow> (case ws_status r of
       SUCCESS \<Rightarrow> res_bind (deserialize_value cs (ws_output r) (ws_serialization r) sz) (\<lambda>v. Inr (Some v))
     | ERROR \<Rightarrow> (case ws_error r of
           Some e \<Rightarrow> res_bind (deserialize_exception cs e (ws_serialization r) sz) Inl
         | None \<Rightarrow> Inl TypeError)
     | CANCELLED \<Rightarrow> Inl (DBOSAwaitedWorkflowCancelledError wid)
     | MAX_RECOVERY_ATTEMPTS_EXCEEDED \<Rightarrow> Inl (DBOSAwaitedWorkflowMaxRecoveryAttemptsExceeded wid)
     | _ \<Rightarrow> Inr None))"

definition check_first_workflow_id :: "string list \<Rightarrow> sysdb \<Rightarrow> string option res" where
  "check_first_workflow_id ids db =
     (if ids = [] then Inl ValueError
      else Inr (map_option ws_workflow_uuid (fetchone (filter
        (\<lambda>r. ws_workflow_uuid r \<in> set ids \<and> ws_status r \<noteq> PENDING \<and> ws_status r \<noteq> ENQUEUED
             \<and> ws_status r \<noteq> DELAYED) (workflow_status db)))))"

definition get_pending_workflows :: "string \<Rightarrow> string \<Rightarrow> sysdb \<Rightarrow> (string \<times> string option) list" where
  "get_pending_workflows executor_id app_version db =
     map (\<lambda>r. (ws_workflow_uuid r, ws_queue_name r))
       (filter (\<lambda>r. ws_status r = PENDING \<and> ws_executor_id r = Some executor_id
                    \<and> ws_application_version r = Some app_version) (workflow_status db))"

text \<open>
  \<^verbatim>\<open>await_workflow_result\<close> polls until there is a result; the databases it sees at its
  successive polls are the argument. \<open>None\<close>: it is still polling.
\<close>

fun await_workflow_result ::
  "codecs \<Rightarrow> Serializer \<Rightarrow> string \<Rightarrow> sysdb list \<Rightarrow> pyval res option" where
  "await_workflow_result cs sz wid [] = None"
| "await_workflow_result cs sz wid (db # dbs) =
     (case check_workflow_result cs sz wid db of
        Inl e \<Rightarrow> Some (Inl e)
      | Inr (Some v) \<Rightarrow> Some (Inr v)
      | Inr None \<Rightarrow> await_workflow_result cs sz wid dbs)"

section \<open>Searching workflows\<close>

text \<open>
  The search criteria of \<^verbatim>\<open>list_workflows\<close> after \<^verbatim>\<open>_to_list\<close>: an absent or empty list does
  not filter. Times are epoch milliseconds; \<open>wq_attributes\<close> is the database's own containment test
  (\<^verbatim>\<open>_attributes_contains_clause\<close>) for the attributes searched.
\<close>

record workflow_search =
  wq_workflow_ids :: "string list"
  wq_status :: "WorkflowStatusString list"
  wq_start_time :: "int option"
  wq_end_time :: "int option"
  wq_completed_after :: "int option"
  wq_completed_before :: "int option"
  wq_dequeued_after :: "int option"
  wq_dequeued_before :: "int option"
  wq_name :: "string list"
  wq_app_version :: "string list"
  wq_forked_from :: "string list"
  wq_parent_workflow_id :: "string list"
  wq_user :: "string list"
  wq_queue_name :: "string list"
  wq_workflow_id_prefix :: "string list"
  wq_executor_id :: "string list"
  wq_schedule_name :: "string list"
  wq_attributes :: "(attributes option \<Rightarrow> bool) option"
  wq_queues_only :: bool
  wq_was_forked_from :: "bool option"
  wq_has_parent :: "bool option"
  wq_limit :: nat
  wq_offset :: nat
  wq_sort_desc :: bool

definition in_filter :: "'a list \<Rightarrow> 'a option \<Rightarrow> bool" where
  "in_filter vs c \<longleftrightarrow> vs = [] \<or> sql_in c vs"

definition from_filter :: "int option \<Rightarrow> int option \<Rightarrow> bool" where
  "from_filter t c \<longleftrightarrow> (case t of None \<Rightarrow> True | Some x \<Rightarrow> (case c of Some y \<Rightarrow> y \<ge> x | None \<Rightarrow> False))"

definition upto_filter :: "int option \<Rightarrow> int option \<Rightarrow> bool" where
  "upto_filter t c \<longleftrightarrow> (case t of None \<Rightarrow> True | Some x \<Rightarrow> (case c of Some y \<Rightarrow> y \<le> x | None \<Rightarrow> False))"

definition starts_with :: "string \<Rightarrow> string \<Rightarrow> bool" where
  "starts_with p s \<longleftrightarrow> take (length p) s = p"

definition search_matches :: "workflow_search \<Rightarrow> workflow_status_row \<Rightarrow> bool" where
  "search_matches q r \<longleftrightarrow>
     (wq_queues_only q \<longrightarrow> ws_queue_name r \<noteq> None
        \<and> (wq_status q = [] \<longrightarrow> ws_status r \<in> {DELAYED, ENQUEUED, PENDING}))
   \<and> in_filter (wq_name q) (Some (ws_name r))
   \<and> in_filter (wq_schedule_name q) (ws_schedule_name r)
   \<and> in_filter (wq_user q) (ws_authenticated_user r)
   \<and> (case wq_attributes q of None \<Rightarrow> True | Some contains \<Rightarrow> contains (ws_attributes r))
   \<and> from_filter (wq_start_time q) (Some (ws_created_at r))
   \<and> upto_filter (wq_end_time q) (Some (ws_created_at r))
   \<and> from_filter (wq_completed_after q) (ws_completed_at r)
   \<and> upto_filter (wq_completed_before q) (ws_completed_at r)
   \<and> from_filter (wq_dequeued_after q) (ws_started_at_epoch_ms r)
   \<and> upto_filter (wq_dequeued_before q) (ws_started_at_epoch_ms r)
   \<and> in_filter (wq_status q) (Some (ws_status r))
   \<and> in_filter (wq_app_version q) (ws_application_version r)
   \<and> in_filter (wq_forked_from q) (ws_forked_from r)
   \<and> in_filter (wq_parent_workflow_id q) (ws_parent_workflow_id r)
   \<and> in_filter (wq_workflow_ids q) (Some (ws_workflow_uuid r))
   \<and> (wq_workflow_id_prefix q = [] \<or> (\<exists>p \<in> set (wq_workflow_id_prefix q). starts_with p (ws_workflow_uuid r)))
   \<and> in_filter (wq_queue_name q) (ws_queue_name r)
   \<and> in_filter (wq_executor_id q) (ws_executor_id r)
   \<and> (case wq_was_forked_from q of None \<Rightarrow> True | Some b \<Rightarrow> ws_was_forked_from r = b)
   \<and> (case wq_has_parent q of None \<Rightarrow> True | Some b \<Rightarrow> (ws_parent_workflow_id r \<noteq> None) = b)"

text \<open>\<^verbatim>\<open>if limit:\<close> and \<^verbatim>\<open>if offset:\<close>: zero is no limit and no offset.\<close>

definition list_workflows :: "workflow_search \<Rightarrow> sysdb \<Rightarrow> workflow_status_row list" where
  "list_workflows q db =
     (let rows = filter (search_matches q) (workflow_status db);
          sorted_rows = (if wq_sort_desc q then sort_key (\<lambda>r. - ws_created_at r) rows
                         else sort_key ws_created_at rows);
          skipped = drop (wq_offset q) sorted_rows
      in if wq_limit q = 0 then skipped else take (wq_limit q) skipped)"


section \<open>The transitions obey the contract of guarded updates\<close>

lemmas transition_defs =
  not_complete_def cancel_effect_def resume_effect_def outcome_guard_def outcome_effect_def
  dlq_guard_def dlq_effect_def delay_guard_def delay_effect_def debounce_guard_def
  debounce_effect_def conflict_update_def

lemma dedup_key_cong:
  "ws_queue_name r = ws_queue_name s \<Longrightarrow> ws_deduplication_id r = ws_deduplication_id s \<Longrightarrow>
   dedup_key r = dedup_key s"
  by (simp add: dedup_key_def)

lemma dedup_key_None: "ws_deduplication_id r = None \<Longrightarrow> dedup_key r = None"
  by (simp add: dedup_key_def split: option.splits)

interpretation cancel_upd: guarded_update "not_complete ids" "cancel_effect now" for ids now
  by unfold_locales (simp_all add: cancel_effect_def dedup_key_None)

interpretation resume_upd: guarded_update "not_complete ids" "resume_effect q now" for ids q now
  by unfold_locales (simp_all add: resume_effect_def dedup_key_None)

interpretation outcome_upd: guarded_update "outcome_guard wid" "outcome_effect st outp err now"
  for wid st outp err now
  by unfold_locales (simp_all add: outcome_effect_def dedup_key_None)

interpretation dlq_upd: guarded_update "dlq_guard wid" dlq_effect for wid
  by unfold_locales (simp_all add: dlq_effect_def dedup_key_None)

interpretation delay_upd: guarded_update "delay_guard wid" "delay_effect u now" for wid u now
  by unfold_locales (auto simp: delay_effect_def intro: dedup_key_cong)

interpretation debounce_upd: guarded_update "debounce_guard wn qn d" "debounce_effect u i ser now"
  for wn qn d u i ser now
  by unfold_locales (auto simp: debounce_effect_def intro: dedup_key_cong)

interpretation conflict_upd: guarded_update "\<lambda>r. ws_workflow_uuid r = wid" "conflict_update w force now"
  for wid w force now
  by unfold_locales (auto simp: conflict_update_def intro: dedup_key_cong)

interpretation attributes_upd: guarded_update "\<lambda>r. ws_workflow_uuid r = wid"
  "\<lambda>r. r\<lparr>ws_attributes := attrs, ws_updated_at := now\<rparr>" for wid attrs now
  by unfold_locales (auto intro: dedup_key_cong)

section \<open>Every operation keeps the constraints\<close>

lemma upsert_status_row_inv:
  "upsert_status_row w xid force now db = Inr db' \<Longrightarrow> sysdb_inv db \<Longrightarrow> sysdb_inv db'"
  by (auto simp: upsert_status_row_def conflict_upd.update_inv insert_status_row_inv split: if_splits)

lemma insert_workflow_status_inv:
  assumes "sysdb_inv db"
  shows "txn_inv (insert_workflow_status w m xid rec deq now db)"
  using assms upsert_status_row_inv [of w xid "rec \<or> deq" now db]
  by (auto simp: insert_workflow_status_def dlq_upd.update_inv split: sum.splits option.splits)

lemma init_workflow_inv: "sysdb_inv db \<Longrightarrow> sysdb_inv (snd (init_workflow w m xid rec deq now db))"
  unfolding init_workflow_def by (intro engine_begin_inv insert_workflow_status_inv)

lemma update_workflow_outcome_inv:
  "sysdb_inv db \<Longrightarrow> sysdb_inv (snd (update_workflow_outcome wid st outp err now db))"
  unfolding update_workflow_outcome_def
  by (rule engine_begin_inv) (auto simp: outcome_upd.update_inv split: option.splits)

lemma cancel_batch_inv: "sysdb_inv db \<Longrightarrow> sysdb_inv (cancel_batch now ids db)"
  by (simp add: cancel_batch_def cancel_upd.update_inv)

lemma resume_workflows_inv: "sysdb_inv db \<Longrightarrow> sysdb_inv (resume_workflows ids q now db)"
  by (simp add: resume_workflows_def resume_upd.update_inv)

lemma set_workflow_delay_inv:
  "sysdb_inv db \<Longrightarrow> sysdb_inv (snd (set_workflow_delay wid ds du t now db))"
  by (auto simp: set_workflow_delay_def delay_upd.update_inv split: option.splits)

lemma debounce_delayed_workflow_inv:
  "sysdb_inv db \<Longrightarrow> sysdb_inv (snd (debounce_delayed_workflow wn qn d u i ser now db))"
  by (auto simp: debounce_delayed_workflow_def debounce_upd.update_inv split: option.splits)

lemma update_workflow_attributes_inv:
  "sysdb_inv db \<Longrightarrow> sysdb_inv (snd (update_workflow_attributes wid attrs now db))"
  by (auto simp: update_workflow_attributes_def attributes_upd.update_inv split: sum.splits)

lemma delete_workflows_inv: "sysdb_inv db \<Longrightarrow> sysdb_inv (delete_workflows ids db)"
  by (simp add: delete_workflows_def delete_workflow_status_inv)


section \<open>Starting a workflow exactly once\<close>

lemma status_row_insert_fresh:
  assumes "wi_workflow_uuid w \<notin> set (workflow_ids db)"
    and "dedup_key (new_status_row w xid now) \<notin> dedup_key ` set (workflow_status db)
       \<or> dedup_key (new_status_row w xid now) = None"
  shows "upsert_status_row w xid force now db
    = Inr (db\<lparr>workflow_status := workflow_status db @ [new_status_row w xid now]\<rparr>)"
  using assms by (auto simp: upsert_status_row_def insert_status_row_def new_status_row_def)

lemma dedup_key_new_status_row:
  "dedup_key (new_status_row w xid now) = (case (wi_queue_name w, wi_deduplication_id w) of
     (Some q, Some d) \<Rightarrow> Some (q, d) | _ \<Rightarrow> None)"
  by (simp add: dedup_key_def new_status_row_def)

lemma init_workflow_insert:
  assumes new: "wi_workflow_uuid w \<notin> set (workflow_ids db)"
    and free: "\<forall>r \<in> set (workflow_status db). dedup_key r = None
       \<or> dedup_key r \<noteq> dedup_key (new_status_row w xid now)"
  shows "init_workflow w m xid rec deq now db =
    (Inr (wi_status w, wi_workflow_deadline_epoch_ms w, True, wi_serialization w),
     db\<lparr>workflow_status := workflow_status db @ [new_status_row w xid now]\<rparr>)"
proof -
  let ?row = "new_status_row w xid now"
  let ?db = "db\<lparr>workflow_status := workflow_status db @ [?row]\<rparr>"
  have up: "upsert_status_row w xid (rec \<or> deq) now db = Inr ?db"
    using free by (intro status_row_insert_fresh [OF new]) force
  have "status_row db (wi_workflow_uuid w) = None" using new by (simp add: status_row_None_iff)
  then have row: "status_row ?db (wi_workflow_uuid w) = Some ?row"
    by (simp add: status_row_append) (simp add: new_status_row_def)
  have "insert_workflow_status w m xid rec deq now db =
    Done (wi_status w, wi_workflow_deadline_epoch_ms w, True, wi_serialization w) ?db"
    by (simp add: insert_workflow_status_def up row name_conflict_def)
       (simp add: new_status_row_def split: option.splits)
  then show ?thesis by (simp add: init_workflow_def)
qed

text \<open>
  Starting a workflow whose ID is not recorded, on a queue where its deduplication ID (if it
  has one) is not held, records exactly one new row with the given inputs and tells the caller to
  execute it; every other row and table is left as it was.
\<close>

theorem init_workflow_fresh:
  assumes new: "wi_workflow_uuid w \<notin> set (workflow_ids db)"
    and free: "\<forall>r \<in> set (workflow_status db). dedup_key r = None
       \<or> dedup_key r \<noteq> dedup_key (new_status_row w xid now)"
  shows "init_workflow w m xid rec deq now db =
    (Inr (wi_status w, wi_workflow_deadline_epoch_ms w, True, wi_serialization w),
     db\<lparr>workflow_status := workflow_status db @ [new_status_row w xid now]\<rparr>)"
  using new free by (rule init_workflow_insert)

definition example_status :: "string \<Rightarrow> WorkflowStatusInternal" where
  "example_status wid = \<lparr>
     wi_workflow_uuid = wid, wi_status = PENDING, wi_name = ''wf'', wi_class_name = None,
     wi_config_name = None, wi_authenticated_user = None, wi_assumed_role = None,
     wi_authenticated_roles = None, wi_output = None, wi_error = None, wi_created_at = None,
     wi_updated_at = None, wi_queue_name = None, wi_executor_id = Some ''local'',
     wi_app_version = Some ''v1'', wi_app_id = None, wi_recovery_attempts = None,
     wi_workflow_timeout_ms = None, wi_workflow_deadline_epoch_ms = None,
     wi_deduplication_id = None, wi_priority = 0, wi_inputs = Some ''in'',
     wi_queue_partition_key = None, wi_forked_from = None, wi_parent_workflow_id = None,
     wi_started_at_epoch_ms = None, wi_serialization = Some ''py_pickle'', wi_owner_xid = None,
     wi_delay_until_epoch_ms = None, wi_attributes = None, wi_schedule_name = None,
     wi_debounce_deadline_epoch_ms = None, wi_is_debounced = False\<rparr>"

definition example_db :: "string list \<Rightarrow> sysdb" where
  "example_db wids = empty_sysdb\<lparr>workflow_status :=
     map (\<lambda>wid. new_status_row (example_status wid) (Some ''x0'') 10) wids\<rparr>"

theorem init_workflow_fresh_witness:
  "init_workflow (example_status ''b'') (Some 3) (Some ''x1'') False False 20 (example_db [''a''])
   = (Inr (PENDING, None, True, Some ''py_pickle''),
      (example_db [''a''])\<lparr>workflow_status :=
         workflow_status (example_db [''a'']) @ [new_status_row (example_status ''b'') (Some ''x1'') 20]\<rparr>)"
proof -
  have "wi_workflow_uuid (example_status ''b'') \<notin> set (workflow_ids (example_db [''a'']))"
    by (simp add: example_status_def example_db_def workflow_ids_def new_status_row_def)
  moreover have "\<forall>r \<in> set (workflow_status (example_db [''a''])). dedup_key r = None
      \<or> dedup_key r \<noteq> dedup_key (new_status_row (example_status ''b'') (Some ''x1'') 20)"
    by (simp add: example_db_def dedup_key_new_status_row example_status_def)
  ultimately show ?thesis
    using init_workflow_fresh [of "example_status ''b''" "example_db [''a'']" "Some ''x1''" 20 "Some 3" False False]
    by (simp add: example_status_def)
qed

text \<open>What a start finds when the workflow is already recorded.\<close>

lemma upsert_existing_row:
  assumes "status_row db (wi_workflow_uuid w) = Some r"
  shows "upsert_status_row w xid force now db = Inr (update_workflow_status
      (\<lambda>r. ws_workflow_uuid r = wi_workflow_uuid w) (conflict_update w force now) db)"
    and "status_row (update_workflow_status (\<lambda>r. ws_workflow_uuid r = wi_workflow_uuid w)
      (conflict_update w force now) db) (wi_workflow_uuid w) = Some (conflict_update w force now r)"
proof -
  from assms have "wi_workflow_uuid w \<in> set (workflow_ids db)"
    by (metis option.distinct(1) status_row_None_iff)
  then show "upsert_status_row w xid force now db = Inr (update_workflow_status
      (\<lambda>r. ws_workflow_uuid r = wi_workflow_uuid w) (conflict_update w force now) db)"
    by (simp add: upsert_status_row_def)
  show "status_row (update_workflow_status (\<lambda>r. ws_workflow_uuid r = wi_workflow_uuid w)
      (conflict_update w force now) db) (wi_workflow_uuid w) = Some (conflict_update w force now r)"
    using assms status_row_SomeD [OF assms] by (simp add: conflict_upd.update_row)
qed

text \<open>
  The budget of a recorded workflow: a start by anyone but the owner of the first start gives the
  workflow up when it has not returned and its attempts are more than \<open>max_recovery_attempts + 1\<close>.
\<close>

definition over_budget :: "int option \<Rightarrow> workflow_status_row \<Rightarrow> bool" where
  "over_budget m r \<longleftrightarrow> (case m of None \<Rightarrow> False
     | Some k \<Rightarrow> ws_status r \<noteq> SUCCESS \<and> ws_status r \<noteq> ERROR \<and> ws_recovery_attempts r > k + 1)"

lemma name_conflict_update: "name_conflict w (conflict_update v force now r) = name_conflict w r"
  by (simp add: name_conflict_def conflict_update_def)

lemma conflict_update_row:
  "status_row (update_workflow_status (\<lambda>r. ws_workflow_uuid r = wid) (conflict_update w force now) db) wid'
    = (if wid' = wid then map_option (conflict_update w force now) (status_row db wid') else status_row db wid')"
  using status_row_SomeD [of db wid'] by (cases "status_row db wid'") (auto simp: conflict_upd.update_row)

lemma dlq_row:
  "status_row (update_workflow_status (dlq_guard wid) dlq_effect db) wid'
    = (if wid' = wid then map_option (\<lambda>r. if ws_status r = PENDING then dlq_effect r else r) (status_row db wid')
       else status_row db wid')"
  using status_row_SomeD [of db wid'] by (cases "status_row db wid'") (auto simp: dlq_upd.update_row dlq_guard_def)

text \<open>
  C12: A second start of a recorded workflow, by a caller that is neither the owner of the first
  start nor recovering nor dequeuing it, never executes it. If it names another function, class or
  instance than the recorded one it raises a conflict and changes nothing. Otherwise, if the workflow has used
  up its attempts without returning, it raises \<open>MaxRecoveryAttemptsExceededError\<close> and a PENDING workflow
  becomes MAX_RECOVERY_ATTEMPTS_EXCEEDED; else it gets the recorded status, deadline and serialization with
  \<open>should_execute = False\<close> and the row keeps everything but \<open>updated_at\<close> and \<open>executor_id\<close>. The row of
  every other workflow is unchanged in each case.
\<close>

theorem init_workflow_exactly_once:
  assumes row: "status_row db (wi_workflow_uuid w) = Some r"
    and other: "xid \<noteq> ws_owner_xid r"
    and init: "init_workflow w m xid False False now db = (res, db')"
  shows "(case name_conflict w r of
        Some msg \<Rightarrow> res = Inl (DBOSConflictingWorkflowError (wi_workflow_uuid w) msg) \<and> db' = db
      | None \<Rightarrow> \<exists>r'. r' = r\<lparr>ws_updated_at := now, ws_executor_id := ws_executor_id r'\<rparr> \<and>
          (if over_budget m r
           then res = Inl (MaxRecoveryAttemptsExceededError (wi_workflow_uuid w) (the m))
             \<and> status_row db' (wi_workflow_uuid w) = Some (if ws_status r = PENDING then dlq_effect r' else r')
           else res = Inr (ws_status r, ws_workflow_deadline_epoch_ms r, False, ws_serialization r)
             \<and> status_row db' (wi_workflow_uuid w) = Some r'))
    \<and> (\<forall>wid. wid \<noteq> wi_workflow_uuid w \<longrightarrow> status_row db' wid = status_row db wid)"
proof -
  let ?w = "wi_workflow_uuid w" and ?r = "conflict_update w False now r"
  let ?db = "update_workflow_status (\<lambda>r. ws_workflow_uuid r = ?w) (conflict_update w False now) db"
  note up = upsert_existing_row [OF row, where force = False and now = now]
  have r': "?r = r\<lparr>ws_updated_at := now, ws_executor_id := ws_executor_id ?r\<rparr>" by (simp add: conflict_update_def)
  have same: "ws_status ?r = ws_status r" "ws_recovery_attempts ?r = ws_recovery_attempts r" "ws_owner_xid ?r = ws_owner_xid r"
    "ws_workflow_deadline_epoch_ms ?r = ws_workflow_deadline_epoch_ms r" "ws_serialization ?r = ws_serialization r"
    by (simp_all add: conflict_update_def)
  have ins: "insert_workflow_status w m xid False False now db = (case name_conflict w r of
      Some msg \<Rightarrow> Raise (DBOSConflictingWorkflowError ?w msg)
    | None \<Rightarrow> if over_budget m r
        then CommitRaise (MaxRecoveryAttemptsExceededError ?w (the m)) (update_workflow_status (dlq_guard ?w) dlq_effect ?db)
        else Done (ws_status r, ws_workflow_deadline_epoch_ms r, False, ws_serialization r) ?db)"
    using other by (simp add: insert_workflow_status_def up same name_conflict_update over_budget_def split: option.split)
  show ?thesis
  proof (cases "name_conflict w r")
    case None
    note out = init [unfolded init_workflow_def engine_begin_def ins None option.case]
    show ?thesis
    proof (cases "over_budget m r")
      case True
      with out have "res = Inl (MaxRecoveryAttemptsExceededError ?w (the m))"
        "db' = update_workflow_status (dlq_guard ?w) dlq_effect ?db" by auto
      then show ?thesis using None True row r' by (auto simp: dlq_row conflict_update_row same intro!: exI [of _ ?r])
    next
      case False
      with out have "res = Inr (ws_status r, ws_workflow_deadline_epoch_ms r, False, ws_serialization r)" "db' = ?db" by auto
      then show ?thesis using None False row r' by (auto simp: conflict_update_row intro!: exI [of _ ?r])
    qed
  qed (use init ins in \<open>simp add: init_workflow_def\<close>)
qed

text \<open>A start from elsewhere of a recorded workflow that is still in its budget, and of one that is not.\<close>

theorem init_workflow_exactly_once_witness:
  "fst (init_workflow (example_status ''a'') (Some 3) (Some ''x1'') False False 20 (example_db [''a'', ''b'']))
     = Inr (PENDING, None, False, Some ''py_pickle'')
   \<and> fst (init_workflow (example_status ''a'') (Some 3) (Some ''x1'') False False 20
       (update_workflow_status (\<lambda>_. True) (\<lambda>r. r\<lparr>ws_recovery_attempts := 5\<rparr>) (example_db [''a''])))
     = Inl (MaxRecoveryAttemptsExceededError ''a'' 3)"
proof -
  let ?r = "new_status_row (example_status ''a'') (Some ''x0'') 10"
  let ?db = "update_workflow_status (\<lambda>_. True) (\<lambda>r. r\<lparr>ws_recovery_attempts := 5\<rparr>) (example_db [''a''])"
  have row: "status_row (example_db [''a'', ''b'']) (wi_workflow_uuid (example_status ''a'')) = Some ?r"
    by (simp add: status_row_def example_db_def new_status_row_def example_status_def)
  have row2: "status_row ?db (wi_workflow_uuid (example_status ''a'')) = Some (?r\<lparr>ws_recovery_attempts := 5\<rparr>)"
    by (simp add: status_row_def update_workflow_status_def sql_update_def example_db_def new_status_row_def example_status_def)
  have names: "name_conflict (example_status ''a'') ?r = None"
    "name_conflict (example_status ''a'') (?r\<lparr>ws_recovery_attempts := 5\<rparr>) = None"
    by (simp_all add: name_conflict_def new_status_row_def)
  have other: "Some ''x1'' \<noteq> ws_owner_xid ?r" "Some ''x1'' \<noteq> ws_owner_xid (?r\<lparr>ws_recovery_attempts := 5\<rparr>)"
    by (simp_all add: new_status_row_def)
  have budget: "\<not> over_budget (Some 3) ?r" "over_budget (Some 3) (?r\<lparr>ws_recovery_attempts := 5\<rparr>)"
    by (simp_all add: over_budget_def new_status_row_def example_status_def)
  have "fst (init_workflow (example_status ''a'') (Some 3) (Some ''x1'') False False 20 (example_db [''a'', ''b'']))
     = Inr (ws_status ?r, ws_workflow_deadline_epoch_ms ?r, False, ws_serialization ?r)"
    using init_workflow_exactly_once [OF row other(1) surjective_pairing, where m = "Some 3" and now = 20] names budget by auto
  moreover have "fst (init_workflow (example_status ''a'') (Some 3) (Some ''x1'') False False 20 ?db)
     = Inl (MaxRecoveryAttemptsExceededError (wi_workflow_uuid (example_status ''a'')) 3)"
    using init_workflow_exactly_once [OF row2 other(2) surjective_pairing, where m = "Some 3" and now = 20] names budget by auto
  ultimately show ?thesis by (simp add: new_status_row_def) (simp add: example_status_def)
qed

section \<open>The recovery budget\<close>







end
