(* ===== verification/DBOS_Status_Lifecycle.thy ===== *)
theory DBOS_Status_Lifecycle
  imports DBOS_Workflow_Status "HOL-Library.Multiset"
begin

text \<open>
  The life of a workflow row after it was started: it completes at most once, a cancelled workflow
  never completes, the recorded outcome is what a caller awaiting the result gets, a debounce
  extends the one workflow that holds the key and never beyond its deadline, and a search returns
  exactly the matching workflows in creation order.
\<close>

section \<open>Outcomes\<close>

lemma outcome_guard_filter:
  assumes inv: "status_table_ok (workflow_status db)" and row: "status_row db wid = Some r"
  shows "filter (outcome_guard wid) (workflow_status db) = [] \<longleftrightarrow> ws_status r = CANCELLED"
proof -
  have r: "s = r" if "s \<in> set (workflow_status db)" "ws_workflow_uuid s = wid" for s
    using status_row_Some_iff [OF inv, of wid s] that row by simp
  show ?thesis using status_row_SomeD [OF row] r
    by (auto simp: filter_empty_conv outcome_guard_def)
qed

lemma update_workflow_outcome_eq:
  assumes inv: "status_table_ok (workflow_status db)" and row: "status_row db wid = Some r"
  shows "update_workflow_outcome wid st outp err now db =
    (if ws_status r = CANCELLED then (Inl (DBOSAwaitedWorkflowCancelledError wid), db)
     else (Inr (), update_workflow_status (outcome_guard wid) (outcome_effect st outp err now) db))"
  by (simp add: update_workflow_outcome_def engine_begin_def outcome_guard_filter [OF inv row] row)

lemma outcome_recorded:
  assumes row: "status_row db wid = Some r" and live: "ws_status r \<noteq> CANCELLED"
  shows "status_row (update_workflow_status (outcome_guard wid) (outcome_effect st outp err now) db) wid
    = Some (outcome_effect st outp err now r)"
  using live status_row_SomeD [OF row] by (simp add: outcome_upd.update_row row outcome_guard_def)

text \<open>
  C16: A cancelled workflow cannot complete: recording an outcome for it raises
  \<open>DBOSAwaitedWorkflowCancelledError\<close> and changes nothing. For a workflow that is not cancelled the
  outcome, the completion time and the release of the deduplication ID are recorded together in its
  row, and no other row changes.
\<close>

theorem update_workflow_outcome_correct:
  assumes inv: "sysdb_inv db" and row: "status_row db wid = Some r"
  shows "if ws_status r = CANCELLED
    then update_workflow_outcome wid st outp err now db = (Inl (DBOSAwaitedWorkflowCancelledError wid), db)
    else \<exists>db'. update_workflow_outcome wid st outp err now db = (Inr (), db')
      \<and> status_row db' wid = Some (r\<lparr>ws_status := st, ws_output := outp, ws_error := err,
           ws_deduplication_id := None, ws_updated_at := now, ws_completed_at := Some now\<rparr>)
      \<and> (\<forall>wid'. wid' \<noteq> wid \<longrightarrow> status_row db' wid' = status_row db wid')"
proof -
  have ok: "status_table_ok (workflow_status db)" using inv by (simp add: sysdb_inv_def)
  let ?db = "update_workflow_status (outcome_guard wid) (outcome_effect st outp err now) db"
  have same: "status_row ?db wid' = status_row db wid'" if "wid' \<noteq> wid" for wid'
    using that status_row_SomeD [of db wid']
    by (cases "status_row db wid'") (auto simp: outcome_upd.update_row outcome_guard_def)
  note upd = outcome_recorded [OF row, of st outp err now]
  show ?thesis
    using same upd by (simp add: update_workflow_outcome_eq [OF ok row]) (simp add: outcome_effect_def)
qed

lemma example_row:
  "status_row (example_db [''a'']) ''a'' = Some (new_status_row (example_status ''a'') (Some ''x0'') 10)"
  by (simp add: status_row_def example_db_def new_status_row_def example_status_def)

lemma example_inv: "distinct wids \<Longrightarrow> sysdb_inv (example_db wids)"
  by (simp add: sysdb_inv_def status_table_ok_def example_db_def empty_sysdb_def children_ok_def
      catalog_ok_def child_ok_def dedup_unique_def dedup_key_new_status_row)
     (simp add: example_status_def new_status_row_def comp_def)

theorem update_workflow_outcome_correct_witness:
  "\<exists>db'. update_workflow_outcome ''a'' SUCCESS (Some ''42'') None 50 (example_db [''a'']) = (Inr (), db')
    \<and> (\<exists>r'. status_row db' ''a'' = Some r' \<and> ws_status r' = SUCCESS \<and> ws_output r' = Some ''42'')"
proof -
  have "sysdb_inv (example_db [''a''])" by (simp add: example_inv)
  from update_workflow_outcome_correct [OF this example_row, of SUCCESS "Some ''42''" None 50]
  show ?thesis by (auto simp: new_status_row_def example_status_def)
qed

section \<open>A recorded result is the result a caller gets\<close>

lemma deserialize_with_recorded_format:
  assumes law: "codecs_law cs sz" and ser: "serialize_value_as cs v ser sz = Inr (s, n)"
  shows "deserialize_value cs (Some s) ser sz = deserialize_value cs (Some s) (Some n) sz"
proof (cases ser)
  case None
  then show ?thesis using law ser
    by (auto simp: serialize_value_as_def deserialize_value_def codecs_law_def res_bind_Inr_iff
        split: if_splits)
next
  case (Some m)
  then have "n = m" using ser by (auto simp: serialize_value_as_def res_bind_Inr_iff split: if_splits)
  with Some show ?thesis by simp
qed

text \<open>
  The output that a workflow's completion serializes in the workflow's format and records
  (\<^verbatim>\<open>_get_wf_invoke_func\<close>) is what every caller awaiting the workflow reads back: the same
  value, or its portable JSON form when the workflow uses the portable format.
\<close>

theorem recorded_result_roundtrip:
  assumes inv: "sysdb_inv db" and row: "status_row db wid = Some r"
    and live: "ws_status r \<noteq> CANCELLED"
    and law: "codecs_law cs sz"
    and ser: "serialize_value_as cs v (ws_serialization r) sz = Inr (s, n)"
  shows "\<exists>db' v'. update_workflow_outcome wid SUCCESS (Some s) None now db = (Inr (), db')
    \<and> check_workflow_result cs sz wid db' = Inr (Some v')
    \<and> await_workflow_result cs sz wid (db' # dbs) = Some (Inr v')
    \<and> (if n = ''portable_json'' then portableify v = Inr v' else v' = v)"
proof -
  let ?db = "update_workflow_status (outcome_guard wid) (outcome_effect SUCCESS (Some s) None now) db"
  have db': "update_workflow_outcome wid SUCCESS (Some s) None now db = (Inr (), ?db)"
    using inv live by (simp add: update_workflow_outcome_eq [OF _ row] sysdb_inv_def)
  note r' = outcome_recorded [OF row live, of SUCCESS "Some s" None now]
  from deserialize_serialize [OF law ser] obtain v' where
    v': "deserialize_value cs (Some s) (Some n) sz = Inr v'"
      "if n = ''portable_json'' then portableify v = Inr v' else v' = v" by auto
  have "check_workflow_result cs sz wid ?db = Inr (Some v')"
    using v'(1) by (simp add: check_workflow_result_def r')
      (simp add: outcome_effect_def deserialize_with_recorded_format [OF law ser])
  with db' v'(2) show ?thesis by auto
qed


definition example_codecs :: codecs where
  "example_codecs = \<lparr>
     json_dumps = (\<lambda>v. if v = PStr ''s'' then Inr ''json-s'' else Inl TypeError),
     json_loads = (\<lambda>t. if t = ''json-s'' then Inr (PStr ''s'') else Inl TypeError),
     pickle_dumps = (\<lambda>v. if v = PInt 42 then Inr ''pickle-42'' else Inl TypeError),
     pickle_loads = (\<lambda>t. if t = ''pickle-42'' then Inr (PInt 42) else Inl TypeError)\<rparr>"

lemma example_codecs_law: "codecs_law example_codecs (DBOSDefaultSerializer example_codecs)"
  by (auto simp: codecs_law_def codec_law_def example_codecs_def DBOSDefaultSerializer_def
      split: if_splits)

theorem recorded_result_roundtrip_witness:
  "\<exists>db'. update_workflow_outcome ''a'' SUCCESS (Some ''pickle-42'') None 50 (example_db [''a'']) = (Inr (), db')
    \<and> check_workflow_result example_codecs (DBOSDefaultSerializer example_codecs) ''a'' db'
       = Inr (Some (PInt 42))"
proof -
  let ?sz = "DBOSDefaultSerializer example_codecs"
  let ?r = "new_status_row (example_status ''a'') (Some ''x0'') 10"
  have inv: "sysdb_inv (example_db [''a''])" by (simp add: example_inv)
  have live: "ws_status ?r \<noteq> CANCELLED" by (simp add: new_status_row_def example_status_def)
  have ser: "serialize_value_as example_codecs (PInt 42) (ws_serialization ?r) ?sz
      = Inr (''pickle-42'', ''py_pickle'')"
    by (simp add: serialize_value_as_def new_status_row_def example_status_def
        DBOSDefaultSerializer_def example_codecs_def)
  from recorded_result_roundtrip [OF inv example_row live example_codecs_law ser, of 50 "[]"]
  show ?thesis by auto
qed

section \<open>Debouncing\<close>

lemma debounce_unique:
  assumes inv: "sysdb_inv db"
    and r: "r \<in> set (workflow_status db)" "debounce_guard wn qn d r"
    and s: "s \<in> set (workflow_status db)" "debounce_guard wn qn d s"
  shows "s = r"
proof -
  from r(2) s(2) have "dedup_key r = Some (qn, d)" "dedup_key s = Some (qn, d)"
    by (auto simp: debounce_guard_def dedup_key_def)
  with inv r(1) s(1) have "ws_workflow_uuid s = ws_workflow_uuid r"
    unfolding sysdb_inv_def status_table_ok_def dedup_unique_def by (metis option.distinct(1))
  with inv r(1) s(1) show ?thesis
    unfolding sysdb_inv_def status_table_ok_def by (metis distinct_key_eq)
qed

text \<open>
  A bounce that extends a workflow extends exactly the one debounced, still DELAYED workflow of
  the same name that holds the debounce key: its inputs become the new ones and its delay the new
  delay capped at its debounce deadline, so the delay never passes the deadline; every other row
  is unchanged. A bounce that extends none changes nothing, and then reports the workflow that
  holds the key, if one does.
\<close>

lemma debounce_delayed_workflow_cases:
  assumes inv: "sysdb_inv db"
    and step: "debounce_delayed_workflow wn qn d u i ser now db = (res, db')"
  shows "case dr_bounced_workflow_id res of
      Some wid \<Rightarrow> \<exists>r. status_row db wid = Some r \<and> debounce_guard wn qn d r
        \<and> status_row db' wid = Some (debounce_effect u i ser now r)
        \<and> (\<forall>wid'. wid' \<noteq> wid \<longrightarrow> status_row db' wid' = status_row db wid')
    | None \<Rightarrow> db' = db \<and> (\<forall>r \<in> set (workflow_status db). \<not> debounce_guard wn qn d r)
        \<and> (case dr_holder_workflow_id res of
             None \<Rightarrow> \<forall>r \<in> set (workflow_status db). dedup_key r \<noteq> Some (qn, d)
           | Some h \<Rightarrow> \<exists>r. status_row db h = Some r \<and> dedup_key r = Some (qn, d)
                \<and> dr_holder_is_debounced res = ws_is_debounced r
                \<and> dr_holder_workflow_name res = Some (ws_name r))"
proof (cases "fetchone (filter (debounce_guard wn qn d) (workflow_status db))")
  case (Some r)
  let ?db = "update_workflow_status (debounce_guard wn qn d) (debounce_effect u i ser now) db"
  from Some have r: "r \<in> set (workflow_status db)" "debounce_guard wn qn d r"
    by (auto dest: nth_row_SomeD)
  have row: "status_row db (ws_workflow_uuid r) = Some r"
    using r inv by (simp add: status_row_Some_iff sysdb_inv_def)
  from step Some have res: "dr_bounced_workflow_id res = Some (ws_workflow_uuid r)" and db': "db' = ?db"
    by (auto simp: debounce_delayed_workflow_def)
  have same: "status_row ?db wid' = status_row db wid'" if "wid' \<noteq> ws_workflow_uuid r" for wid'
  proof (cases "status_row db wid'")
    case (Some s)
    with that have "s \<in> set (workflow_status db)" "s \<noteq> r" by (auto dest: status_row_SomeD)
    with debounce_unique [OF inv r] have "\<not> debounce_guard wn qn d s" by blast
    with Some show ?thesis by (simp add: debounce_upd.update_row)
  qed (simp add: debounce_upd.update_row)
  have new: "status_row ?db (ws_workflow_uuid r) = Some (debounce_effect u i ser now r)"
    by (simp add: debounce_upd.update_row row r)
  show ?thesis
    using row r same new
    by (auto simp: res db')
next
  case None
  then have none: "\<forall>r \<in> set (workflow_status db). \<not> debounce_guard wn qn d r"
    by (auto simp: filter_empty_conv)
  let ?hs = "filter (\<lambda>r. ws_queue_name r = Some qn \<and> ws_deduplication_id r = Some d) (workflow_status db)"
  show ?thesis
  proof (cases "fetchone ?hs")
    case None
    then have "\<forall>r \<in> set (workflow_status db). dedup_key r \<noteq> Some (qn, d)"
      by (auto simp: filter_empty_conv dedup_key_def split: option.splits)
    with step none None \<open>fetchone (filter (debounce_guard wn qn d) _) = None\<close> show ?thesis
      by (auto simp: debounce_delayed_workflow_def)
  next
    case (Some h)
    then have h: "h \<in> set (workflow_status db)" "dedup_key h = Some (qn, d)"
      by (auto dest!: nth_row_SomeD simp: dedup_key_def)
    then have "status_row db (ws_workflow_uuid h) = Some h"
      using inv by (simp add: status_row_Some_iff sysdb_inv_def)
    with step none Some h \<open>fetchone (filter (debounce_guard wn qn d) _) = None\<close> show ?thesis
      by (auto simp: debounce_delayed_workflow_def)
  qed
qed

definition example_delayed :: workflow_status_row where
  "example_delayed = (new_status_row (example_status ''d'') (Some ''x0'') 10)\<lparr>ws_status := DELAYED,
     ws_queue_name := Some ''q'', ws_deduplication_id := Some ''wf-k'', ws_is_debounced := True,
     ws_delay_until_epoch_ms := Some 100, ws_debounce_deadline_epoch_ms := Some 150\<rparr>"

definition example_delayed_db :: sysdb where
  "example_delayed_db = empty_sysdb\<lparr>workflow_status := [example_delayed]\<rparr>"

lemma example_delayed_inv: "sysdb_inv example_delayed_db"
  by (simp add: sysdb_inv_def example_delayed_db_def empty_sysdb_def status_table_ok_def
      children_ok_def catalog_ok_def child_ok_def dedup_unique_def)

section \<open>Searching\<close>

lemma take_take_drop: "take n xs @ take (Suc k) (drop n xs) = take (Suc (n + k)) xs"
  using take_add [of n "Suc k" xs] by simp

text \<open>
  \<open>list_workflows\<close> without a limit and offset returns exactly the matching rows, each as often
  as the table holds it, in ascending (or descending) creation order; a page (limit \<open>k\<close> at offset
  \<open>o\<close>) is the corresponding slice of that list, so consecutive pages tile it.
\<close>

theorem list_workflows_correct:
  "let whole = list_workflows (q\<lparr>wq_limit := 0, wq_offset := 0\<rparr>) db in
     mset whole = mset (filter (search_matches q) (workflow_status db))
   \<and> sorted (map (\<lambda>r. if wq_sort_desc q then - ws_created_at r else ws_created_at r) whole)
   \<and> list_workflows (q\<lparr>wq_limit := Suc k, wq_offset := n\<rparr>) db = take (Suc k) (drop n whole)
   \<and> take n whole @ list_workflows (q\<lparr>wq_limit := Suc k, wq_offset := n\<rparr>) db = take (n + Suc k) whole"
proof -
  have m: "search_matches (q\<lparr>wq_limit := l, wq_offset := n\<rparr>) = search_matches q" for l n
    by (simp add: search_matches_def fun_eq_iff)
  show ?thesis
    by (simp add: list_workflows_def m Let_def take_take_drop sorted_sort_key)
qed

end
