(* ===== verification/DBOS_Queues.thy ===== *)
theory DBOS_Queues
  imports DBOS_Status_Lifecycle
begin

text \<open>
  Queues (\<^verbatim>\<open>dbos/_queue.py\<close> and the queue operations of \<^verbatim>\<open>dbos/_sys_db.py\<close>): their configuration and
  its storage, the dequeue \<open>start_queued_workflows\<close> with its concurrency limits, rate limit, priority
  and version rules, delayed workflows, and the polling of a queue worker. Each transaction is one
  step; the isolation levels and row locks that make concurrent dequeues behave so are the
  database's part.
\<close>

section \<open>Configuration\<close>

record QueueRateLimit =
  rl_limit :: int
  rl_period :: rat

record Queue =
  q_name :: string
  q_concurrency :: "int option"
  q_worker_concurrency :: "int option"
  q_limiter :: "QueueRateLimit option"
  q_priority_enabled :: bool
  q_partition_queue :: bool
  q_polling_interval_sec :: rat
  q_database_backed_queue :: bool

text \<open>A limiter as the constructor gets it: a dict whose entries may be missing.\<close>

type_synonym limiter_arg = "(int option \<times> rat option) option"

definition validate_queue :: "int option \<Rightarrow> int option \<Rightarrow> rat \<Rightarrow> limiter_arg \<Rightarrow> unit res" where
  "validate_queue concurrency worker_concurrency polling limiter =
     (if (case (worker_concurrency, concurrency) of (Some w, Some c) \<Rightarrow> w > c | _ \<Rightarrow> False)
      then Inl ValueError
      else if polling \<le> 0 then Inl ValueError
      else (case limiter of
              Some (l, p) \<Rightarrow> if l = None \<or> p = None then Inl ValueError else Inr ()
            | None \<Rightarrow> Inr ()))"

definition limiter_of :: "limiter_arg \<Rightarrow> QueueRateLimit option" where
  "limiter_of l = (case l of Some (Some m, Some p) \<Rightarrow> Some \<lparr>rl_limit = m, rl_period = p\<rparr> | _ \<Rightarrow> None)"

text \<open>The constructor, with the registry of in-memory queues it adds to.\<close>

definition new_queue ::
  "string \<Rightarrow> int option \<Rightarrow> limiter_arg \<Rightarrow> int option \<Rightarrow> bool \<Rightarrow> bool \<Rightarrow> rat \<Rightarrow> bool \<Rightarrow> (string \<times> Queue) list
   \<Rightarrow> (Queue \<times> (string \<times> Queue) list) res" where
  "new_queue name concurrency limiter worker_concurrency priority_enabled partition_queue polling
     database_backed registry =
     res_bind (validate_queue concurrency worker_concurrency polling limiter) (\<lambda>_.
       let q = \<lparr>q_name = name, q_concurrency = concurrency, q_worker_concurrency = worker_concurrency,
                q_limiter = limiter_of limiter, q_priority_enabled = priority_enabled,
                q_partition_queue = partition_queue, q_polling_interval_sec = polling,
                q_database_backed_queue = database_backed\<rparr>
       in if database_backed then Inr (q, registry)
          else if name \<in> fst ` set registry \<and> name \<noteq> INTERNAL_QUEUE_NAME
          then Inl (PyException ''Queue has already been declared'')
          else Inr (q, filter (\<lambda>e. fst e \<noteq> name) registry @ [(name, q)]))"

definition queue_from_db_row :: "queue_row \<Rightarrow> Queue res" where
  "queue_from_db_row r =
     res_bind (new_queue (qr_name r) (qr_concurrency r)
       (case qr_rate_limit_max r of None \<Rightarrow> None
        | Some m \<Rightarrow> Some (Some m, qr_rate_limit_period_sec r))
       (qr_worker_concurrency r) (qr_priority_enabled r) (qr_partition_queue r)
       (qr_polling_interval_sec r) True []) (\<lambda>(q, _). Inr q)"

section \<open>The queues table\<close>

definition get_queue :: "string \<Rightarrow> sysdb \<Rightarrow> Queue option res" where
  "get_queue name db = (case fetchone (filter (\<lambda>r. qr_name r = name) (queues db)) of
     None \<Rightarrow> Inr None | Some r \<Rightarrow> res_bind (queue_from_db_row r) (\<lambda>q. Inr (Some q)))"

definition list_queues :: "sysdb \<Rightarrow> Queue list res" where
  "list_queues db = res_map queue_from_db_row (queues db)"

definition delete_queue :: "string \<Rightarrow> sysdb \<Rightarrow> sysdb" where
  "delete_queue name db = db\<lparr>queues := sql_delete (\<lambda>r. qr_name r = name) (queues db)\<rparr>"

datatype queue_field =
    F_concurrency "int option" | F_worker_concurrency "int option"
  | F_rate_limit_max "int option" | F_rate_limit_period_sec "rat option"
  | F_priority_enabled bool | F_partition_queue bool | F_polling_interval_sec rat

fun set_field :: "queue_field \<Rightarrow> queue_row \<Rightarrow> queue_row" where
  "set_field (F_concurrency v) r = r\<lparr>qr_concurrency := v\<rparr>"
| "set_field (F_worker_concurrency v) r = r\<lparr>qr_worker_concurrency := v\<rparr>"
| "set_field (F_rate_limit_max v) r = r\<lparr>qr_rate_limit_max := v\<rparr>"
| "set_field (F_rate_limit_period_sec v) r = r\<lparr>qr_rate_limit_period_sec := v\<rparr>"
| "set_field (F_priority_enabled v) r = r\<lparr>qr_priority_enabled := v\<rparr>"
| "set_field (F_partition_queue v) r = r\<lparr>qr_partition_queue := v\<rparr>"
| "set_field (F_polling_interval_sec v) r = r\<lparr>qr_polling_interval_sec := v\<rparr>"

definition update_queue :: "string \<Rightarrow> queue_field list \<Rightarrow> int \<Rightarrow> sysdb \<Rightarrow> sysdb" where
  "update_queue name changes now db =
     (if changes = [] then db
      else db\<lparr>queues := sql_update (\<lambda>r. qr_name r = name)
             (\<lambda>r. (fold set_field changes r)\<lparr>qr_updated_at := now\<rparr>) (queues db)\<rparr>)"

text \<open>\<open>new_id\<close> is the generated queue ID; the row is a new queue's row, whose columns the update takes.\<close>

definition upsert_queue ::
  "string \<Rightarrow> int option \<Rightarrow> int option \<Rightarrow> int option \<Rightarrow> rat option \<Rightarrow> bool \<Rightarrow> bool \<Rightarrow> rat \<Rightarrow> bool
   \<Rightarrow> string \<Rightarrow> int \<Rightarrow> sysdb \<Rightarrow> bool \<times> sysdb" where
  "upsert_queue name concurrency worker_concurrency rate_max rate_period priority_enabled partition_queue
     polling update_existing new_id now db =
     (if name \<in> qr_name ` set (queues db)
      then (False, if update_existing
        then db\<lparr>queues := sql_update (\<lambda>r. qr_name r = name) (\<lambda>r. r\<lparr>qr_concurrency := concurrency,
               qr_worker_concurrency := worker_concurrency, qr_rate_limit_max := rate_max,
               qr_rate_limit_period_sec := rate_period, qr_priority_enabled := priority_enabled,
               qr_partition_queue := partition_queue, qr_polling_interval_sec := polling,
               qr_updated_at := now\<rparr>) (queues db)\<rparr>
        else db)
      else (True, db\<lparr>queues := queues db @ [\<lparr>qr_queue_id = new_id, qr_name = name,
               qr_concurrency = concurrency, qr_worker_concurrency = worker_concurrency,
               qr_rate_limit_max = rate_max, qr_rate_limit_period_sec = rate_period,
               qr_priority_enabled = priority_enabled, qr_partition_queue = partition_queue,
               qr_polling_interval_sec = polling, qr_created_at = now, qr_updated_at = now\<rparr>]\<rparr>))"

section \<open>Changing the configuration\<close>

text \<open>
  A setter checks against the stored configuration and then writes, in two transactions:
  \<open>refresh\<close> is the first, \<open>update_queue\<close> the second.
\<close>

definition refresh :: "Queue \<Rightarrow> sysdb \<Rightarrow> Queue res" where
  "refresh q db = (case get_queue (q_name q) db of
     Inl e \<Rightarrow> Inl e
   | Inr None \<Rightarrow> Inl (DBOSException ''Queue not found in the database'')
   | Inr (Some latest) \<Rightarrow> Inr (latest\<lparr>q_name := q_name q,
       q_database_backed_queue := q_database_backed_queue q\<rparr>))"

definition require_database_backed :: "Queue \<Rightarrow> unit res" where
  "require_database_backed q = (if \<not> q_database_backed_queue q
     then Inl (DBOSException ''Cannot configure queue'') else Inr ())"

definition set_concurrency :: "int option \<Rightarrow> int \<Rightarrow> Queue \<Rightarrow> sysdb \<Rightarrow> Queue res \<times> sysdb" where
  "set_concurrency val now q db =
     (case res_bind (require_database_backed q) (\<lambda>_. refresh q db) of
        Inl e \<Rightarrow> (Inl e, db)
      | Inr q1 \<Rightarrow>
          if (case (val, q_worker_concurrency q1) of (Some v, Some w) \<Rightarrow> w > v | _ \<Rightarrow> False)
          then (Inl ValueError, db)
          else (Inr (q1\<lparr>q_concurrency := val\<rparr>), update_queue (q_name q) [F_concurrency val] now db))"

definition set_worker_concurrency :: "int option \<Rightarrow> int \<Rightarrow> Queue \<Rightarrow> sysdb \<Rightarrow> Queue res \<times> sysdb" where
  "set_worker_concurrency val now q db =
     (case res_bind (require_database_backed q) (\<lambda>_. refresh q db) of
        Inl e \<Rightarrow> (Inl e, db)
      | Inr q1 \<Rightarrow>
          if (case (val, q_concurrency q1) of (Some v, Some c) \<Rightarrow> v > c | _ \<Rightarrow> False)
          then (Inl ValueError, db)
          else (Inr (q1\<lparr>q_worker_concurrency := val\<rparr>), update_queue (q_name q) [F_worker_concurrency val] now db))"

definition set_limiter :: "limiter_arg \<Rightarrow> int \<Rightarrow> Queue \<Rightarrow> sysdb \<Rightarrow> Queue res \<times> sysdb" where
  "set_limiter val now q db =
     (case require_database_backed q of
        Inl e \<Rightarrow> (Inl e, db)
      | Inr _ \<Rightarrow> (case val of
          None \<Rightarrow> (Inr (q\<lparr>q_limiter := None\<rparr>),
                   update_queue (q_name q) [F_rate_limit_max None, F_rate_limit_period_sec None] now db)
        | Some (l, p) \<Rightarrow> if l = None \<or> p = None then (Inl ValueError, db)
            else (Inr (q\<lparr>q_limiter := limiter_of val\<rparr>),
                  update_queue (q_name q) [F_rate_limit_max l, F_rate_limit_period_sec p] now db)))"

definition set_priority_enabled :: "bool \<Rightarrow> int \<Rightarrow> Queue \<Rightarrow> sysdb \<Rightarrow> Queue res \<times> sysdb" where
  "set_priority_enabled val now q db = (case require_database_backed q of
     Inl e \<Rightarrow> (Inl e, db)
   | Inr _ \<Rightarrow> (Inr (q\<lparr>q_priority_enabled := val\<rparr>), update_queue (q_name q) [F_priority_enabled val] now db))"

definition set_partition_queue :: "bool \<Rightarrow> int \<Rightarrow> Queue \<Rightarrow> sysdb \<Rightarrow> Queue res \<times> sysdb" where
  "set_partition_queue val now q db = (case require_database_backed q of
     Inl e \<Rightarrow> (Inl e, db)
   | Inr _ \<Rightarrow> (Inr (q\<lparr>q_partition_queue := val\<rparr>), update_queue (q_name q) [F_partition_queue val] now db))"

definition set_polling_interval_sec :: "rat \<Rightarrow> int \<Rightarrow> Queue \<Rightarrow> sysdb \<Rightarrow> Queue res \<times> sysdb" where
  "set_polling_interval_sec val now q db = (case require_database_backed q of
     Inl e \<Rightarrow> (Inl e, db)
   | Inr _ \<Rightarrow> if val \<le> 0 then (Inl ValueError, db)
       else (Inr (q\<lparr>q_polling_interval_sec := val\<rparr>), update_queue (q_name q) [F_polling_interval_sec val] now db))"

section \<open>Dequeuing\<close>

definition get_queue_partitions :: "string \<Rightarrow> sysdb \<Rightarrow> string list" where
  "get_queue_partitions name db = remdups (concat (map (\<lambda>r. case ws_queue_partition_key r of
     None \<Rightarrow> [] | Some k \<Rightarrow> [k])
     (filter (\<lambda>r. ws_queue_name r = Some name \<and> ws_status r = ENQUEUED) (workflow_status db))))"

definition delayed_guard :: "int \<Rightarrow> workflow_status_row \<Rightarrow> bool" where
  "delayed_guard now r \<longleftrightarrow> ws_status r = DELAYED
     \<and> (case ws_delay_until_epoch_ms r of Some d \<Rightarrow> d \<le> now | None \<Rightarrow> False)"

definition delayed_effect :: "workflow_status_row \<Rightarrow> workflow_status_row" where
  "delayed_effect r = r\<lparr>ws_status := ENQUEUED,
     ws_deduplication_id := (if ws_is_debounced r then None else ws_deduplication_id r)\<rparr>"

definition transition_delayed_workflows :: "int \<Rightarrow> sysdb \<Rightarrow> sysdb" where
  "transition_delayed_workflows now db = update_workflow_status (delayed_guard now) delayed_effect db"

definition in_partition :: "string option \<Rightarrow> workflow_status_row \<Rightarrow> bool" where
  "in_partition key r \<longleftrightarrow> (case key of None \<Rightarrow> True | Some k \<Rightarrow> ws_queue_partition_key r = Some k)"

definition count_rows :: "(workflow_status_row \<Rightarrow> bool) \<Rightarrow> sysdb \<Rightarrow> int" where
  "count_rows P db = int (length (filter P (workflow_status db)))"

definition recently_started :: "string \<Rightarrow> string option \<Rightarrow> int \<Rightarrow> workflow_status_row \<Rightarrow> bool" where
  "recently_started name key since r \<longleftrightarrow> ws_queue_name r = Some name \<and> ws_rate_limited r
     \<and> ws_status r \<noteq> ENQUEUED \<and> ws_status r \<noteq> DELAYED
     \<and> (case ws_started_at_epoch_ms r of Some s \<Rightarrow> s > since | None \<Rightarrow> False) \<and> in_partition key r"

definition queue_pending :: "string \<Rightarrow> string option \<Rightarrow> workflow_status_row \<Rightarrow> bool" where
  "queue_pending name key r \<longleftrightarrow> ws_queue_name r = Some name \<and> ws_status r = PENDING \<and> in_partition key r"

text \<open>\<open>None\<close> is \<^verbatim>\<open>sys.maxsize\<close>: no limit.\<close>

definition max_tasks :: "Queue \<Rightarrow> string option \<Rightarrow> int \<Rightarrow> sysdb \<Rightarrow> int option" where
  "max_tasks q key local_running_count db =
     (let local = (case q_worker_concurrency q of None \<Rightarrow> None | Some w \<Rightarrow> Some (max 0 (w - local_running_count)))
      in case q_concurrency q of
           None \<Rightarrow> local
         | Some c \<Rightarrow>
             (let available = max 0 (c - count_rows (queue_pending (q_name q) key) db)
              in Some (case local of None \<Rightarrow> available | Some m \<Rightarrow> min m available)))"

definition latest_version_name :: "sysdb \<Rightarrow> string option" where
  "latest_version_name db =
     map_option av_version_name (fetchone (sort_key (\<lambda>r. - av_version_timestamp r) (application_versions db)))"

definition eligible :: "Queue \<Rightarrow> string \<Rightarrow> string option \<Rightarrow> sysdb \<Rightarrow> workflow_status_row \<Rightarrow> bool" where
  "eligible q app_version key db r \<longleftrightarrow> ws_queue_name r = Some (q_name q) \<and> ws_status r = ENQUEUED
     \<and> (ws_application_version r = Some app_version
        \<or> (latest_version_name db = None \<or> latest_version_name db = Some app_version)
           \<and> ws_application_version r = None)
     \<and> in_partition key r"

definition dequeue_order :: "Queue \<Rightarrow> string \<Rightarrow> string option \<Rightarrow> sysdb \<Rightarrow> workflow_status_row list" where
  "dequeue_order q app_version key db =
     order_by2 ws_priority ws_created_at (filter (eligible q app_version key db) (workflow_status db))"

definition start_guard :: "string \<Rightarrow> workflow_status_row \<Rightarrow> bool" where
  "start_guard wid r \<longleftrightarrow> ws_workflow_uuid r = wid \<and> ws_status r = ENQUEUED"

text \<open>\<open>start_ms\<close> is the process's clock, \<open>now\<close> the database's.\<close>

definition start_effect ::
  "string \<Rightarrow> string \<Rightarrow> int \<Rightarrow> int \<Rightarrow> bool \<Rightarrow> workflow_status_row \<Rightarrow> workflow_status_row" where
  "start_effect executor_id app_version start_ms now limited r = r\<lparr>ws_status := PENDING,
     ws_application_version := Some app_version, ws_executor_id := Some executor_id,
     ws_started_at_epoch_ms := Some start_ms, ws_rate_limited := limited,
     ws_workflow_deadline_epoch_ms := (case (ws_workflow_timeout_ms r, ws_workflow_deadline_epoch_ms r) of
        (Some t, None) \<Rightarrow> Some (now + t) | _ \<Rightarrow> ws_workflow_deadline_epoch_ms r)\<rparr>"

fun start_loop ::
  "int option \<Rightarrow> int \<Rightarrow> (workflow_status_row \<Rightarrow> workflow_status_row) \<Rightarrow> string list \<Rightarrow> string list \<Rightarrow> sysdb
   \<Rightarrow> string list \<times> sysdb" where
  "start_loop limit recent eff [] ret_ids db = (ret_ids, db)"
| "start_loop limit recent eff (wid # ids) ret_ids db =
     (if (case limit of Some l \<Rightarrow> int (length ret_ids) + recent \<ge> l | None \<Rightarrow> False) then (ret_ids, db)
      else if filter (start_guard wid) (workflow_status db) \<noteq> []
      then start_loop limit recent eff ids (ret_ids @ [wid]) (update_workflow_status (start_guard wid) eff db)
      else start_loop limit recent eff ids ret_ids db)"

definition start_queued_workflows ::
  "Queue \<Rightarrow> string \<Rightarrow> string \<Rightarrow> string option \<Rightarrow> int \<Rightarrow> int \<Rightarrow> int \<Rightarrow> sysdb \<Rightarrow> string list \<times> sysdb" where
  "start_queued_workflows q executor_id app_version key local_running_count start_ms now db =
     (let recent = (case q_limiter q of None \<Rightarrow> 0
            | Some l \<Rightarrow> count_rows (recently_started (q_name q) key (start_ms - py_int (rl_period l * 1000))) db);
          limit = map_option rl_limit (q_limiter q)
      in if (case limit of Some l \<Rightarrow> recent \<ge> l | None \<Rightarrow> False) then ([], db)
         else
           let ordered = dequeue_order q app_version key db;
               rows = (case max_tasks q key local_running_count db of
                         None \<Rightarrow> ordered | Some m \<Rightarrow> take (nat m) ordered)
           in start_loop limit recent
                (start_effect executor_id app_version start_ms now (q_limiter q \<noteq> None))
                (map ws_workflow_uuid rows) [] db)"

definition clear_guard :: "string \<Rightarrow> workflow_status_row \<Rightarrow> bool" where
  "clear_guard wid r \<longleftrightarrow> ws_workflow_uuid r = wid \<and> ws_queue_name r \<noteq> None \<and> ws_status r = PENDING"

definition clear_effect :: "workflow_status_row \<Rightarrow> workflow_status_row" where
  "clear_effect r = r\<lparr>ws_status := ENQUEUED, ws_started_at_epoch_ms := None\<rparr>"

definition clear_queue_assignment :: "string \<Rightarrow> sysdb \<Rightarrow> sysdb" where
  "clear_queue_assignment wid db = update_workflow_status (clear_guard wid) clear_effect db"

section \<open>The worker's polling interval\<close>

text \<open>
  One iteration of \<^verbatim>\<open>queue_worker_thread\<close> as far as its polling interval goes: the configured interval
  of this iteration, and whether the dequeue met a serialization failure or a lock.
\<close>

definition clamp_interval :: "rat \<Rightarrow> rat \<Rightarrow> rat" where
  "clamp_interval configured interval = max configured (min interval (max configured 120))"

definition next_interval :: "rat \<Rightarrow> bool \<Rightarrow> rat \<Rightarrow> rat" where
  "next_interval configured contention interval =
     (let i = clamp_interval configured interval;
          i' = (if contention then min (max configured 120) (i * 2) else i)
      in max configured (i' * (9 / 10)))"

section \<open>Transitions obey the contract of guarded updates\<close>

interpretation delayed_upd: guarded_update "delayed_guard now" delayed_effect for now
  by unfold_locales (auto simp: delayed_effect_def dedup_key_None intro: dedup_key_cong)

interpretation start_upd: guarded_update "\<lambda>r. ws_workflow_uuid r \<in> ids \<and> ws_status r = ENQUEUED"
  "start_effect ex av s now l" for ids ex av s now l
  by unfold_locales (auto simp: start_effect_def intro: dedup_key_cong)

interpretation clear_upd: guarded_update "clear_guard wid" clear_effect for wid
  by unfold_locales (auto simp: clear_effect_def intro: dedup_key_cong)

lemma transition_delayed_inv: "sysdb_inv db \<Longrightarrow> sysdb_inv (transition_delayed_workflows now db)"
  by (simp add: transition_delayed_workflows_def delayed_upd.update_inv)

lemma clear_queue_assignment_inv: "sysdb_inv db \<Longrightarrow> sysdb_inv (clear_queue_assignment wid db)"
  by (simp add: clear_queue_assignment_def clear_upd.update_inv)

end
