(* ===== verification/DBOS_Dequeue.thy ===== *)
theory DBOS_Dequeue
  imports DBOS_Queues
begin

text \<open>
  What a dequeue guarantees: it starts a prefix of the eligible workflows in priority and age order,
  it starts all of them when the queue has no limits, it never takes the queue over its concurrency
  or rate limit, and nothing but the started workflows changes.
\<close>

section \<open>The loop that starts workflows\<close>

lemma sql_update_compose:
  assumes "\<And>r. Q r \<Longrightarrow> \<not> P (f r)"
  shows "sql_update P f (sql_update Q f t) = sql_update (\<lambda>r. Q r \<or> P r) f t"
  using assms by (auto simp: sql_update_def)

lemma start_loop_result:
  fixes limit recent
  defines "k ret ids \<equiv> (case limit of None \<Rightarrow> length ids | Some l \<Rightarrow> nat (l - recent - int (length ret)))"
  assumes "distinct ids" "\<forall>wid \<in> set ids. \<exists>r \<in> set (workflow_status db). start_guard wid r"
  shows "start_loop limit recent (start_effect ex av s now rl) ids ret db =
    (ret @ take (k ret ids) ids, update_workflow_status
       (\<lambda>r. ws_workflow_uuid r \<in> set (take (k ret ids) ids) \<and> ws_status r = ENQUEUED)
       (start_effect ex av s now rl) db)"
  using assms(2,3)
proof (induction ids arbitrary: ret db)
  case Nil
  show ?case by (simp add: update_workflow_status_def sql_update_def)
next
  case (Cons wid ids)
  let ?eff = "start_effect ex av s now rl"
  show ?case
  proof (cases "case limit of Some l \<Rightarrow> int (length ret) + recent \<ge> l | None \<Rightarrow> False")
    case True
    then have "k ret (wid # ids) = 0" by (auto simp: k_def split: option.splits)
    with True show ?thesis by (simp add: update_workflow_status_def sql_update_def)
  next
    case False
    let ?db = "update_workflow_status (start_guard wid) ?eff db"
    have k: "k ret (wid # ids) = Suc (k (ret @ [wid]) ids)"
      using False by (auto simp: k_def split: option.splits)
    have "\<exists>r \<in> set (workflow_status ?db). start_guard w r" if w: "w \<in> set ids" for w
    proof -
      from Cons.prems(2) w obtain r where r: "r \<in> set (workflow_status db)" "start_guard w r" by auto
      have "w \<noteq> wid" using Cons.prems(1) w by auto
      then have "\<not> start_guard wid r" using r(2) by (auto simp: start_guard_def)
      with r show ?thesis by (auto simp: update_workflow_status_def set_sql_update)
    qed
    with Cons.IH [of ?db "ret @ [wid]"] Cons.prems(1)
    have IH: "start_loop limit recent ?eff ids (ret @ [wid]) ?db = (ret @ wid # take (k (ret @ [wid]) ids) ids,
        update_workflow_status (\<lambda>r. ws_workflow_uuid r \<in> set (take (k (ret @ [wid]) ids) ids) \<and> ws_status r = ENQUEUED)
          ?eff ?db)" by simp
    have "(\<lambda>r. start_guard wid r \<or> (ws_workflow_uuid r \<in> set (take (k (ret @ [wid]) ids) ids) \<and> ws_status r = ENQUEUED))
      = (\<lambda>r. ws_workflow_uuid r \<in> set (take (k ret (wid # ids)) (wid # ids)) \<and> ws_status r = ENQUEUED)"
      by (auto simp: start_guard_def k)
    then have "update_workflow_status (\<lambda>r. ws_workflow_uuid r \<in> set (take (k (ret @ [wid]) ids) ids) \<and> ws_status r = ENQUEUED)
          ?eff ?db
      = update_workflow_status (\<lambda>r. ws_workflow_uuid r \<in> set (take (k ret (wid # ids)) (wid # ids)) \<and> ws_status r = ENQUEUED)
          ?eff db"
      using sql_update_compose [of "start_guard wid"
          "\<lambda>r. ws_workflow_uuid r \<in> set (take (k (ret @ [wid]) ids) ids) \<and> ws_status r = ENQUEUED" ?eff "workflow_status db"]
      by (simp add: update_workflow_status_def start_effect_def)
    moreover have "filter (start_guard wid) (workflow_status db) \<noteq> []"
      using Cons.prems(2) by (auto simp: filter_empty_conv)
    ultimately show ?thesis using False IH k by simp
  qed
qed

text \<open>How many of the ordered workflows a dequeue starts.\<close>

definition allowance :: "Queue \<Rightarrow> string option \<Rightarrow> int \<Rightarrow> int \<Rightarrow> sysdb \<Rightarrow> nat option" where
  "allowance q key local start_ms db =
     (let tasks = map_option nat (max_tasks q key local db);
          rate = map_option (\<lambda>l. nat (rl_limit l
            - count_rows (recently_started (q_name q) key (start_ms - py_int (rl_period l * 1000))) db)) (q_limiter q)
      in case (tasks, rate) of
           (None, None) \<Rightarrow> None | (Some m, None) \<Rightarrow> Some m | (None, Some n) \<Rightarrow> Some n
         | (Some m, Some n) \<Rightarrow> Some (min m n))"

definition started_rows :: "Queue \<Rightarrow> string \<Rightarrow> string option \<Rightarrow> int \<Rightarrow> int \<Rightarrow> sysdb \<Rightarrow> workflow_status_row list" where
  "started_rows q app_version key local start_ms db = (case allowance q key local start_ms db of
     None \<Rightarrow> dequeue_order q app_version key db | Some n \<Rightarrow> take n (dequeue_order q app_version key db))"

lemma set_dequeue_order: "set (dequeue_order q av key db) = {r \<in> set (workflow_status db). eligible q av key db r}"
  by (simp add: dequeue_order_def)

lemma distinct_order:
  assumes "sysdb_inv db"
  shows "distinct (map ws_workflow_uuid (dequeue_order q av key db))"
proof -
  have d: "distinct (map ws_workflow_uuid (workflow_status db))"
    using assms by (simp add: sysdb_inv_def status_table_ok_def)
  then have "distinct (dequeue_order q av key db)" by (simp add: dequeue_order_def order_by2_def distinct_map)
  moreover have "inj_on ws_workflow_uuid (set (dequeue_order q av key db))"
    using d by (auto simp: distinct_map set_dequeue_order intro: inj_on_subset)
  ultimately show ?thesis by (simp add: distinct_map)
qed

lemma set_started: "set (started_rows q av key lc s db) \<subseteq> set (dequeue_order q av key db)"
  by (auto simp: started_rows_def split: option.splits dest: in_set_takeD)

lemma start_queued_workflows_eq:
  assumes inv: "sysdb_inv db"
  shows "start_queued_workflows q ex av key lc s now db =
    (map ws_workflow_uuid (started_rows q av key lc s db),
     update_workflow_status (\<lambda>r. ws_workflow_uuid r \<in> ws_workflow_uuid ` set (started_rows q av key lc s db)
         \<and> ws_status r = ENQUEUED)
       (start_effect ex av s now (q_limiter q \<noteq> None)) db)"
proof -
  let ?ord = "dequeue_order q av key db"
  let ?rows = "case max_tasks q key lc db of None \<Rightarrow> ?ord | Some m \<Rightarrow> take (nat m) ?ord"
  let ?limit = "map_option rl_limit (q_limiter q)"
  let ?recent = "case q_limiter q of None \<Rightarrow> 0
     | Some l \<Rightarrow> count_rows (recently_started (q_name q) key (s - py_int (rl_period l * 1000))) db"
  have sub: "set ?rows \<subseteq> set ?ord" by (auto split: option.splits dest: in_set_takeD)
  have d: "distinct (map ws_workflow_uuid ?rows)"
    using distinct_order [OF inv, of q av key] by (auto simp: take_map [symmetric] split: option.splits)
  have g: "\<forall>wid \<in> set (map ws_workflow_uuid ?rows). \<exists>r \<in> set (workflow_status db). start_guard wid r"
    using sub by (force simp: set_dequeue_order eligible_def start_guard_def)
  note loop = start_loop_result [OF d g, of ?limit ?recent ex av s now "q_limiter q \<noteq> None" "[]"]
  show ?thesis
  proof (cases "case ?limit of Some l \<Rightarrow> ?recent \<ge> l | None \<Rightarrow> False")
    case True
    then have "started_rows q av key lc s db = []"
      by (cases "max_tasks q key lc db") (auto simp: started_rows_def allowance_def Let_def split: option.splits)
    with True show ?thesis
      by (auto simp: start_queued_workflows_def Let_def update_workflow_status_def sql_update_def split: option.splits)
  next
    case False
    have "(case ?limit of None \<Rightarrow> ?rows | Some l \<Rightarrow> take (nat (l - ?recent)) ?rows) = started_rows q av key lc s db"
      by (cases "max_tasks q key lc db"; cases "q_limiter q")
         (simp_all add: started_rows_def allowance_def Let_def min.commute)
    moreover have "take (case ?limit of None \<Rightarrow> length (map ws_workflow_uuid ?rows) | Some l \<Rightarrow> nat (l - ?recent - int (length [])))
        (map ws_workflow_uuid ?rows)
      = map ws_workflow_uuid (case ?limit of None \<Rightarrow> ?rows | Some l \<Rightarrow> take (nat (l - ?recent)) ?rows)"
      by (auto simp: take_map split: option.splits)
    ultimately have "take (case ?limit of None \<Rightarrow> length (map ws_workflow_uuid ?rows) | Some l \<Rightarrow> nat (l - ?recent - int (length [])))
        (map ws_workflow_uuid ?rows) = map ws_workflow_uuid (started_rows q av key lc s db)" by simp
    note run = loop [unfolded this, unfolded append_Nil set_map]
    show ?thesis unfolding start_queued_workflows_def Let_def by (simp only: False if_False run)
  qed
qed

lemma start_queued_workflows_inv:
  "sysdb_inv db \<Longrightarrow> sysdb_inv (snd (start_queued_workflows q ex av key lc s now db))"
  by (simp add: start_queued_workflows_eq start_upd.update_inv)

section \<open>Order\<close>

lemma sorted_filter_nth:
  assumes "sorted (map b (filter P zs))" "i < j" "j < length zs" "P (zs ! i)" "P (zs ! j)"
  shows "b (zs ! i) \<le> b (zs ! j)"
proof -
  have zs: "zs = take (Suc i) zs @ drop (Suc i) zs" by simp
  have "zs ! i \<in> set (filter P (take (Suc i) zs))"
    using assms by (auto simp: in_set_conv_nth intro!: exI [of _ i])
  moreover have "zs ! j \<in> set (filter P (drop (Suc i) zs))"
    using assms by (auto simp: in_set_conv_nth intro!: exI [of _ "j - Suc i"])
  moreover have "sorted (map b (filter P (take (Suc i) zs)) @ map b (filter P (drop (Suc i) zs)))"
    using assms(1) by (subst (asm) zs) (simp only: filter_append map_append)
  ultimately show ?thesis unfolding sorted_append by auto
qed

lemma order_by2_sorted:
  "sorted_wrt (\<lambda>x y. a x < a y \<or> a x = a y \<and> b x \<le> b y) (order_by2 a b t)"
proof -
  let ?zs = "order_by2 a b t"
  have sa: "sorted (map a ?zs)" by (simp add: order_by2_def sorted_sort_key)
  have sb: "sorted (map b (filter (\<lambda>y. a y = k) ?zs))" for k
    unfolding order_by2_def sort_key_stable by (simp add: sorted_filter sorted_sort_key)
  show ?thesis unfolding sorted_wrt_iff_nth_less
  proof (intro allI impI)
    fix i j assume ij: "i < j" "j < length ?zs"
    have "a (?zs ! i) \<le> a (?zs ! j)" using sorted_nth_mono [OF sa, of i j] ij by simp
    moreover have "b (?zs ! i) \<le> b (?zs ! j)" if "a (?zs ! i) = a (?zs ! j)"
      using sorted_filter_nth [OF sb [of "a (?zs ! j)"] ij] that by simp
    ultimately show "a (?zs ! i) < a (?zs ! j) \<or> a (?zs ! i) = a (?zs ! j) \<and> b (?zs ! i) \<le> b (?zs ! j)"
      by auto
  qed
qed

lemma started_prefix: "\<exists>n. started_rows q av key lc s db = take n (dequeue_order q av key db)"
  by (cases "allowance q key lc s db") (auto simp: started_rows_def intro: exI [of _ "length (dequeue_order q av key db)"])

lemma started_first:
  assumes "r \<in> set (started_rows q av key lc s db)"
    and "r' \<in> set (dequeue_order q av key db)" "r' \<notin> set (started_rows q av key lc s db)"
  shows "ws_priority r < ws_priority r' \<or> ws_priority r = ws_priority r' \<and> ws_created_at r \<le> ws_created_at r'"
proof -
  obtain n where n: "started_rows q av key lc s db = take n (dequeue_order q av key db)"
    using started_prefix by blast
  let ?ord = "dequeue_order q av key db"
  let ?R = "\<lambda>x y. ws_priority x < ws_priority y \<or> ws_priority x = ws_priority y \<and> ws_created_at x \<le> ws_created_at y"
  have "sorted_wrt ?R ?ord" unfolding dequeue_order_def by (rule order_by2_sorted)
  then have "sorted_wrt ?R (take n ?ord @ drop n ?ord)" by (simp only: append_take_drop_id)
  moreover have "r' \<in> set (drop n ?ord)"
    using assms(2,3) n by (metis Un_iff append_take_drop_id set_append)
  moreover have "r \<in> set (take n ?ord)" using assms(1) n by simp
  ultimately show ?thesis unfolding sorted_wrt_append by blast
qed

text \<open>
  C30: A dequeue starts workflows in order: it returns distinct workflows that were ENQUEUED on the
  queue (and partition) and eligible for this application version, none of which comes after an
  eligible one it left behind, by priority and then age; without concurrency and rate limits it
  starts all eligible ones. Exactly the returned workflows become PENDING, assigned to this executor
  and version, with a deadline if they have a timeout; every other row is unchanged.
\<close>

theorem start_queued_workflows_order:
  assumes inv: "sysdb_inv db"
    and run: "start_queued_workflows q ex av key lc s now db = (ids, db')"
  shows "distinct ids
    \<and> (\<forall>wid \<in> set ids. \<exists>r. status_row db wid = Some r \<and> eligible q av key db r
         \<and> status_row db' wid = Some (start_effect ex av s now (q_limiter q \<noteq> None) r)
         \<and> (\<forall>r'. r' \<in> set (workflow_status db) \<and> eligible q av key db r' \<and> ws_workflow_uuid r' \<notin> set ids \<longrightarrow>
              ws_priority r < ws_priority r' \<or> ws_priority r = ws_priority r' \<and> ws_created_at r \<le> ws_created_at r'))
    \<and> (\<forall>wid. wid \<notin> set ids \<longrightarrow> status_row db' wid = status_row db wid)
    \<and> (q_concurrency q = None \<and> q_worker_concurrency q = None \<and> q_limiter q = None \<longrightarrow>
         (\<forall>r \<in> set (workflow_status db). eligible q av key db r \<longrightarrow> ws_workflow_uuid r \<in> set ids))"
proof -
  let ?st = "started_rows q av key lc s db"
  from run start_queued_workflows_eq [OF inv] have ids: "ids = map ws_workflow_uuid ?st"
    and db': "db' = update_workflow_status (\<lambda>r. ws_workflow_uuid r \<in> set ids \<and> ws_status r = ENQUEUED)
       (start_effect ex av s now (q_limiter q \<noteq> None)) db" by auto
  have dist: "distinct ids"
    using distinct_order [OF inv, of q av key] started_prefix [of q av key lc s db]
    by (auto simp: ids take_map [symmetric])
  have ok: "status_table_ok (workflow_status db)" using inv by (simp add: sysdb_inv_def)
  have started: "\<exists>r. status_row db wid = Some r \<and> eligible q av key db r
         \<and> status_row db' wid = Some (start_effect ex av s now (q_limiter q \<noteq> None) r)
         \<and> (\<forall>r'. r' \<in> set (workflow_status db) \<and> eligible q av key db r' \<and> ws_workflow_uuid r' \<notin> set ids \<longrightarrow>
              ws_priority r < ws_priority r' \<or> ws_priority r = ws_priority r' \<and> ws_created_at r \<le> ws_created_at r')"
    if "wid \<in> set ids" for wid
  proof -
    from that ids obtain r where r: "r \<in> set ?st" "wid = ws_workflow_uuid r" by auto
    have e: "r \<in> set (workflow_status db)" "eligible q av key db r"
      using subsetD [OF set_started r(1)] by (auto simp: set_dequeue_order)
    have row: "status_row db wid = Some r" using e(1) r(2) status_row_Some_iff [OF ok] by simp
    have "status_row db' wid = Some (start_effect ex av s now (q_limiter q \<noteq> None) r)"
      using that e(2) r(2) row unfolding db' start_upd.update_row by (simp add: eligible_def)
    moreover have "ws_priority r < ws_priority r' \<or> ws_priority r = ws_priority r' \<and> ws_created_at r \<le> ws_created_at r'"
      if "r' \<in> set (workflow_status db)" "eligible q av key db r'" "ws_workflow_uuid r' \<notin> set ids" for r'
      by (rule started_first [OF r(1)]) (use that ids in \<open>auto simp: set_dequeue_order\<close>)
    ultimately show ?thesis using row e by blast
  qed
  have other: "status_row db' wid = status_row db wid" if "wid \<notin> set ids" for wid
    using that status_row_SomeD [of db wid]
    by (cases "status_row db wid") (auto simp: db' start_upd.update_row)
  have "?st = dequeue_order q av key db"
    if "q_concurrency q = None" "q_worker_concurrency q = None" "q_limiter q = None"
    using that by (simp add: started_rows_def allowance_def max_tasks_def)
  then have all: "\<forall>r \<in> set (workflow_status db). eligible q av key db r \<longrightarrow> ws_workflow_uuid r \<in> set ids"
    if "q_concurrency q = None \<and> q_worker_concurrency q = None \<and> q_limiter q = None"
    using that by (auto simp: ids set_dequeue_order)
  show ?thesis using dist started other all by blast
qed

definition example_enqueued :: "string \<Rightarrow> int \<Rightarrow> workflow_status_row" where
  "example_enqueued wid priority = (new_status_row (example_status wid) None 10)\<lparr>ws_status := ENQUEUED,
     ws_queue_name := Some ''q'', ws_priority := priority, ws_application_version := None\<rparr>"

definition example_queue_db :: sysdb where
  "example_queue_db = empty_sysdb\<lparr>workflow_status := [example_enqueued ''low'' 5, example_enqueued ''high'' 1]\<rparr>"

definition example_queue :: Queue where
  "example_queue = \<lparr>q_name = ''q'', q_concurrency = Some 1, q_worker_concurrency = None,
     q_limiter = Some \<lparr>rl_limit = 1, rl_period = 10\<rparr>, q_priority_enabled = True, q_partition_queue = False,
     q_polling_interval_sec = 1, q_database_backed_queue = False\<rparr>"

lemma example_enqueued_simps [simp]:
  "ws_workflow_uuid (example_enqueued w p) = w" "ws_status (example_enqueued w p) = ENQUEUED"
  "ws_queue_name (example_enqueued w p) = Some ''q''" "ws_priority (example_enqueued w p) = p"
  "ws_application_version (example_enqueued w p) = None" "ws_created_at (example_enqueued w p) = 10"
  "ws_rate_limited (example_enqueued w p) = False" "dedup_key (example_enqueued w p) = None"
  by (simp_all add: example_enqueued_def new_status_row_def dedup_key_def example_status_def)

lemma example_queue_inv: "sysdb_inv example_queue_db"
  by (simp add: sysdb_inv_def example_queue_db_def empty_sysdb_def status_table_ok_def dedup_unique_def
      children_ok_def catalog_ok_def child_ok_def)

lemma example_dequeue:
  "\<exists>db'. start_queued_workflows example_queue ''e1'' ''v1'' None 0 1000 1000 example_queue_db = ([''high''], db')"
  by (simp add: start_queued_workflows_def example_queue_def example_queue_db_def empty_sysdb_def count_rows_def
      recently_started_def max_tasks_def queue_pending_def dequeue_order_def order_by2_def eligible_def
      latest_version_name_def in_partition_def start_guard_def py_int_def Let_def)

theorem start_queued_workflows_order_witness:
  "\<exists>db' r'. start_queued_workflows example_queue ''e1'' ''v1'' None 0 1000 1000 example_queue_db = ([''high''], db')
     \<and> status_row db' ''high'' = Some r' \<and> ws_status r' = PENDING
     \<and> status_row db' ''low'' = status_row example_queue_db ''low''"
proof -
  obtain db' where run: "start_queued_workflows example_queue ''e1'' ''v1'' None 0 1000 1000 example_queue_db = ([''high''], db')"
    using example_dequeue by blast
  from start_queued_workflows_order [OF example_queue_inv run] run show ?thesis
    by (auto simp: start_effect_def)
qed

section \<open>Limits\<close>

lemma length_filter_update:
  "length (filter P (sql_update G f t)) \<le> length (filter P t) + length (filter G t)"
proof (induction t)
  case (Cons r t)
  then show ?case by (cases "G r"; cases "P r") (simp_all add: sql_update_def)
qed (simp add: sql_update_def)

lemma length_filter_keys:
  assumes "distinct (map key t)" "distinct ks"
  shows "length (filter (\<lambda>r. key r \<in> set ks \<and> Q r) t) \<le> length ks"
proof -
  have "distinct (map key (filter (\<lambda>r. key r \<in> set ks \<and> Q r) t))"
    using assms(1) by (simp add: distinct_map inj_on_def)
  then have "length (filter (\<lambda>r. key r \<in> set ks \<and> Q r) t)
      = card (set (map key (filter (\<lambda>r. key r \<in> set ks \<and> Q r) t)))"
    using distinct_card [of "map key (filter (\<lambda>r. key r \<in> set ks \<and> Q r) t)"] by simp
  also have "\<dots> \<le> card (set ks)" by (intro card_mono) auto
  also have "\<dots> = length ks" using assms(2) by (simp add: distinct_card)
  finally show ?thesis .
qed

lemma count_rows_dequeue:
  assumes inv: "sysdb_inv db" and run: "start_queued_workflows q ex av key lc s now db = (ids, db')"
  shows "count_rows P db' \<le> count_rows P db + int (length ids)"
proof -
  let ?G = "\<lambda>r. ws_workflow_uuid r \<in> set ids \<and> ws_status r = ENQUEUED"
  from run start_queued_workflows_eq [OF inv] have ids: "ids = map ws_workflow_uuid (started_rows q av key lc s db)"
    and db': "db' = update_workflow_status ?G (start_effect ex av s now (q_limiter q \<noteq> None)) db" by auto
  have dist: "distinct ids"
    using distinct_order [OF inv, of q av key] started_prefix [of q av key lc s db]
    by (auto simp: ids take_map [symmetric])
  have "length (filter P (workflow_status db'))
      \<le> length (filter P (workflow_status db)) + length (filter ?G (workflow_status db))"
    by (simp add: db' update_workflow_status_def length_filter_update)
  also have "length (filter ?G (workflow_status db)) \<le> length ids"
    using inv dist by (intro length_filter_keys) (simp_all add: sysdb_inv_def status_table_ok_def)
  finally show ?thesis by (simp add: count_rows_def)
qed

lemma dequeue_length:
  assumes inv: "sysdb_inv db" and run: "start_queued_workflows q ex av key lc s now db = (ids, db')"
    and "allowance q key lc s db = Some n"
  shows "length ids \<le> n"
proof -
  from run start_queued_workflows_eq [OF inv, of q ex av key lc s now]
  have "ids = map ws_workflow_uuid (started_rows q av key lc s db)" by simp
  with assms(3) show ?thesis by (simp add: started_rows_def)
qed

lemma allowance_tasks:
  "max_tasks q key lc db = Some m \<Longrightarrow> \<exists>n. allowance q key lc s db = Some n \<and> n \<le> nat m"
  by (cases "q_limiter q") (simp_all add: allowance_def Let_def)

lemma allowance_rate:
  "q_limiter q = Some l \<Longrightarrow> \<exists>n. allowance q key lc s db = Some n
   \<and> n \<le> nat (rl_limit l - count_rows (recently_started (q_name q) key (s - py_int (rl_period l * 1000))) db)"
  by (cases "max_tasks q key lc db") (simp_all add: allowance_def Let_def)

lemma max_tasks_concurrency:
  "q_concurrency q = Some c \<Longrightarrow> \<exists>m. max_tasks q key lc db = Some m \<and> 0 \<le> m
   \<and> m \<le> max 0 (c - count_rows (queue_pending (q_name q) key) db)"
  by (cases "q_worker_concurrency q") (simp_all add: max_tasks_def Let_def)

lemma max_tasks_worker:
  "q_worker_concurrency q = Some w \<Longrightarrow> \<exists>m. max_tasks q key lc db = Some m \<and> 0 \<le> m \<and> m \<le> max 0 (w - lc)"
  by (cases "q_concurrency q") (simp_all add: max_tasks_def Let_def)

text \<open>
  C31: Concurrency limits hold: a dequeue never takes the number of PENDING workflows of the queue (of
  the partition, on a partitioned queue) above its global concurrency limit, unless it already was,
  in which case it starts none; and it starts no more than the worker's free slots.
\<close>

theorem dequeue_respects_concurrency:
  assumes inv: "sysdb_inv db" and run: "start_queued_workflows q ex av key lc s now db = (ids, db')"
  shows "(case q_concurrency q of None \<Rightarrow> True
      | Some c \<Rightarrow> count_rows (queue_pending (q_name q) key) db'
          \<le> max c (count_rows (queue_pending (q_name q) key) db)
          \<and> int (length ids) \<le> max 0 (c - count_rows (queue_pending (q_name q) key) db))
    \<and> (case q_worker_concurrency q of None \<Rightarrow> True | Some w \<Rightarrow> int (length ids) \<le> max 0 (w - lc))"
proof -
  note cnt = count_rows_dequeue [OF inv run, of "queue_pending (q_name q) key"]
  have tasks: "int (length ids) \<le> m" if "max_tasks q key lc db = Some m" "0 \<le> m" for m
  proof -
    from allowance_tasks [OF that(1)] obtain n where "allowance q key lc s db = Some n" "n \<le> nat m" by blast
    with dequeue_length [OF inv run] that(2) show ?thesis by fastforce
  qed
  have "int (length ids) \<le> max 0 (c - count_rows (queue_pending (q_name q) key) db)"
    if c: "q_concurrency q = Some c" for c
  proof -
    obtain m where m: "max_tasks q key lc db = Some m" "0 \<le> m"
      "m \<le> max 0 (c - count_rows (queue_pending (q_name q) key) db)"
      using max_tasks_concurrency [OF c] by blast
    with tasks [OF m(1,2)] show ?thesis by simp
  qed
  moreover have "int (length ids) \<le> max 0 (w - lc)" if w: "q_worker_concurrency q = Some w" for w
  proof -
    obtain m where m: "max_tasks q key lc db = Some m" "0 \<le> m" "m \<le> max 0 (w - lc)"
      using max_tasks_worker [OF w] by blast
    with tasks [OF m(1,2)] show ?thesis by simp
  qed
  ultimately show ?thesis using cnt by (fastforce split: option.splits)
qed

theorem dequeue_respects_concurrency_witness:
  "\<exists>db'. start_queued_workflows example_queue ''e1'' ''v1'' None 0 1000 1000 example_queue_db = ([''high''], db')
     \<and> count_rows (queue_pending ''q'' None) db' \<le> 1"
proof -
  obtain db' where run: "start_queued_workflows example_queue ''e1'' ''v1'' None 0 1000 1000 example_queue_db = ([''high''], db')"
    using example_dequeue by blast
  have "count_rows (queue_pending ''q'' None) example_queue_db = 0"
    by (simp add: count_rows_def example_queue_db_def queue_pending_def empty_sysdb_def)
  with dequeue_respects_concurrency [OF example_queue_inv run] run show ?thesis
    by (simp add: example_queue_def)
qed

text \<open>
  C32: The rate limit holds at every dequeue: the number of rate-limited workflows of the queue that
  the table shows as started within the period (counting those this dequeue starts) does not exceed
  the limit, unless it already did, in which case the dequeue starts none.
\<close>

theorem dequeue_respects_rate_limit:
  assumes inv: "sysdb_inv db" and run: "start_queued_workflows q ex av key lc s now db = (ids, db')"
    and l: "q_limiter q = Some l" and since: "since = s - py_int (rl_period l * 1000)"
  shows "count_rows (recently_started (q_name q) key since) db'
      \<le> max (rl_limit l) (count_rows (recently_started (q_name q) key since) db)
    \<and> int (length ids) \<le> max 0 (rl_limit l - count_rows (recently_started (q_name q) key since) db)"
proof -
  let ?c = "count_rows (recently_started (q_name q) key since)"
  obtain n where n: "allowance q key lc s db = Some n" "n \<le> nat (rl_limit l - ?c db)"
    using allowance_rate [OF l] unfolding since by blast
  with dequeue_length [OF inv run n(1)] have len: "int (length ids) \<le> max 0 (rl_limit l - ?c db)" by simp
  with count_rows_dequeue [OF inv run, of "recently_started (q_name q) key since"] show ?thesis by simp
qed

theorem dequeue_respects_rate_limit_witness:
  "\<exists>db'. start_queued_workflows example_queue ''e1'' ''v1'' None 0 1000 1000 example_queue_db = ([''high''], db')
     \<and> count_rows (recently_started ''q'' None (1000 - 10000)) db' \<le> 1"
proof -
  obtain db' where run: "start_queued_workflows example_queue ''e1'' ''v1'' None 0 1000 1000 example_queue_db = ([''high''], db')"
    using example_dequeue by blast
  have l: "q_limiter example_queue = Some \<lparr>rl_limit = 1, rl_period = 10\<rparr>" "q_name example_queue = ''q''"
    by (simp_all add: example_queue_def)
  have "count_rows (recently_started ''q'' None (1000 - 10000)) example_queue_db = 0"
    by (simp add: count_rows_def example_queue_db_def recently_started_def empty_sysdb_def)
  with dequeue_respects_rate_limit [OF example_queue_inv run l(1) refl] run show ?thesis
    by (simp add: l(2) py_int_def)
qed

end
