(* ===== verification/DBOS_Queue_Config.thy ===== *)
theory DBOS_Queue_Config
  imports DBOS_Dequeue
begin

text \<open>
  Delayed workflows, the stored queue configurations and the polling interval: a delay ends on time
  and frees its debounce key; configuration changes made one after the other keep the queues table
  readable, while two interleaved ones may not; a cancelled workflow is forgotten by the rate limiter.
\<close>

section \<open>Delayed workflows\<close>

text \<open>
  A delayed workflow becomes ENQUEUED exactly when its delay has passed, and then a debounced
  one gives up its debounce key: no row of the queue holds the key afterwards, so the next debounce
  starts a fresh workflow. Rows that are not delayed, or not yet due, are unchanged.
\<close>

theorem transition_delayed_correct:
  assumes inv: "sysdb_inv db"
  shows "(\<forall>wid. status_row (transition_delayed_workflows now db) wid = (case status_row db wid of
        None \<Rightarrow> None
      | Some r \<Rightarrow> Some (if ws_status r = DELAYED \<and> (case ws_delay_until_epoch_ms r of None \<Rightarrow> False | Some d \<Rightarrow> d \<le> now)
          then r\<lparr>ws_status := ENQUEUED,
                 ws_deduplication_id := (if ws_is_debounced r then None else ws_deduplication_id r)\<rparr>
          else r)))
    \<and> (\<forall>r \<in> set (workflow_status db). \<forall>k. delayed_guard now r \<and> ws_is_debounced r \<and> dedup_key r = Some k \<longrightarrow>
         (\<forall>r' \<in> set (workflow_status (transition_delayed_workflows now db)). dedup_key r' \<noteq> Some k))"
proof (intro conjI allI ballI impI)
  fix wid
  show "status_row (transition_delayed_workflows now db) wid = (case status_row db wid of
        None \<Rightarrow> None
      | Some r \<Rightarrow> Some (if ws_status r = DELAYED \<and> (case ws_delay_until_epoch_ms r of None \<Rightarrow> False | Some d \<Rightarrow> d \<le> now)
          then r\<lparr>ws_status := ENQUEUED,
                 ws_deduplication_id := (if ws_is_debounced r then None else ws_deduplication_id r)\<rparr>
          else r))"
    unfolding transition_delayed_workflows_def delayed_upd.update_row
    by (cases "status_row db wid") (simp_all add: delayed_guard_def delayed_effect_def split: option.splits)
next
  fix r k r'
  assume r: "r \<in> set (workflow_status db)" and d: "delayed_guard now r \<and> ws_is_debounced r \<and> dedup_key r = Some k"
    and r': "r' \<in> set (workflow_status (transition_delayed_workflows now db))"
  have unique: "x = r" if "x \<in> set (workflow_status db)" "dedup_key x = Some k" for x
  proof -
    from inv have u: "dedup_unique (workflow_status db)" "distinct (map ws_workflow_uuid (workflow_status db))"
      by (simp_all add: sysdb_inv_def status_table_ok_def)
    from u(1) r that d have "ws_workflow_uuid x = ws_workflow_uuid r"
      unfolding dedup_unique_def by (metis option.distinct(1))
    with u(2) r that(1) show ?thesis by (metis distinct_key_eq)
  qed
  from r' consider x where "x \<in> set (workflow_status db)" "delayed_guard now x" "r' = delayed_effect x"
    | "r' \<in> set (workflow_status db)" "\<not> delayed_guard now r'"
    by (auto simp: transition_delayed_workflows_def update_workflow_status_def set_sql_update)
  then show "dedup_key r' \<noteq> Some k"
  proof cases
    case 1
    show ?thesis
    proof
      assume k: "dedup_key r' = Some k"
      with 1(3) have "\<not> ws_is_debounced x" by (auto simp: delayed_effect_def dedup_key_None)
      moreover from this 1(3) have "dedup_key x = dedup_key r'"
        by (intro dedup_key_cong) (simp_all add: delayed_effect_def)
      ultimately show False using unique [OF 1(1)] k d by auto
    qed
  next
    case 2
    then show ?thesis using unique d by blast
  qed
qed

theorem transition_delayed_correct_witness:
  "\<exists>r'. status_row (transition_delayed_workflows 120 example_delayed_db) ''d'' = Some r'
     \<and> ws_status r' = ENQUEUED \<and> ws_deduplication_id r' = None"
proof -
  have row: "status_row example_delayed_db ''d'' = Some example_delayed"
    by (simp add: status_row_def example_delayed_db_def example_delayed_def new_status_row_def example_status_def)
  have r: "ws_status example_delayed = DELAYED" "ws_delay_until_epoch_ms example_delayed = Some 100"
    "ws_is_debounced example_delayed"
    by (simp_all add: example_delayed_def)
  from transition_delayed_correct [OF example_delayed_inv, of 120] row r show ?thesis by auto
qed

section \<open>The stored configurations\<close>

definition queues_valid :: "sysdb \<Rightarrow> bool" where
  "queues_valid db \<longleftrightarrow> list_all (\<lambda>r. \<exists>q. queue_from_db_row r = Inr q) (queues db)"

definition row_valid :: "queue_row \<Rightarrow> bool" where
  "row_valid r \<longleftrightarrow>
     (case (qr_worker_concurrency r, qr_concurrency r) of (Some w, Some c) \<Rightarrow> w \<le> c | _ \<Rightarrow> True)
     \<and> 0 < qr_polling_interval_sec r
     \<and> (qr_rate_limit_max r \<noteq> None \<longrightarrow> qr_rate_limit_period_sec r \<noteq> None)"

lemma queue_from_db_row_iff: "(\<exists>q. queue_from_db_row r = Inr q) \<longleftrightarrow> row_valid r"
  by (auto simp: queue_from_db_row_def new_queue_def validate_queue_def row_valid_def Let_def not_less
      split: option.splits)

lemma queue_from_db_row_error: "\<not> row_valid r \<Longrightarrow> queue_from_db_row r = Inl ValueError"
  by (auto simp: queue_from_db_row_def new_queue_def validate_queue_def row_valid_def Let_def not_less
      split: option.splits)

lemma queues_valid_iff: "queues_valid db \<longleftrightarrow> list_all row_valid (queues db)"
  by (simp add: queues_valid_def queue_from_db_row_iff)

lemma list_queues_iff: "(\<exists>qs. list_queues db = Inr qs) \<longleftrightarrow> queues_valid db"
proof
  assume "\<exists>qs. list_queues db = Inr qs"
  then show "queues_valid db"
    by (auto simp: list_queues_def queues_valid_def res_map_Inr_iff list_all_length)
next
  assume v: "queues_valid db"
  have "\<exists>qs. res_map queue_from_db_row rs = Inr qs" if "list_all (\<lambda>r. \<exists>q. queue_from_db_row r = Inr q) rs" for rs
    using that by (induction rs) auto
  with v show "\<exists>qs. list_queues db = Inr qs" by (simp add: list_queues_def queues_valid_def)
qed

lemma queue_from_db_row_fields:
  assumes "queue_from_db_row r = Inr q"
  shows "q_concurrency q = qr_concurrency r" "q_worker_concurrency q = qr_worker_concurrency r"
  using assms by (auto simp: queue_from_db_row_def new_queue_def Let_def res_bind_Inr_iff split: option.splits)

lemma update_queue_valid:
  assumes "queues_valid db"
    and "\<And>r. r \<in> set (queues db) \<Longrightarrow> qr_name r = name \<Longrightarrow> row_valid r \<Longrightarrow> row_valid (fold set_field fs r)"
  shows "queues_valid (update_queue name fs now db)"
proof -
  have "row_valid (r\<lparr>qr_updated_at := now\<rparr>) = row_valid r" for r by (simp add: row_valid_def)
  with assms show ?thesis
    by (auto simp: queues_valid_iff list_all_iff update_queue_def set_sql_update)
qed

lemma refresh_row:
  assumes inv: "sysdb_inv db" and q: "refresh q db = Inr q1"
    and r: "r \<in> set (queues db)" "qr_name r = q_name q"
  shows "q_concurrency q1 = qr_concurrency r" "q_worker_concurrency q1 = qr_worker_concurrency r"
proof -
  have "distinct (map qr_name (queues db))" using inv by (simp add: sysdb_inv_def catalog_ok_def)
  from filter_key_unique [OF this r(1)] r(2) have "filter (\<lambda>x. qr_name x = q_name q) (queues db) = [r]" by simp
  with q obtain q2 where "queue_from_db_row r = Inr q2" "q_concurrency q1 = q_concurrency q2"
    "q_worker_concurrency q1 = q_worker_concurrency q2"
    by (auto simp: refresh_def get_queue_def split: sum.splits option.splits simp: res_bind_Inr_iff)
  with queue_from_db_row_fields show "q_concurrency q1 = qr_concurrency r"
    "q_worker_concurrency q1 = qr_worker_concurrency r" by auto
qed

text \<open>
  The configuration setters keep the queues table readable: if every stored queue can be loaded
  (\<open>list_queues\<close> returns), it can be after any setter, which either refuses the value and changes
  nothing or stores it. In particular worker concurrency never exceeds concurrency and polling
  intervals stay positive.
\<close>

theorem queue_setters_keep_valid:
  assumes inv: "sysdb_inv db" and valid: "\<exists>qs. list_queues db = Inr qs"
  shows "\<forall>db' \<in> {snd (set_concurrency c now q db), snd (set_worker_concurrency w now q db),
      snd (set_limiter l now q db), snd (set_priority_enabled b now q db),
      snd (set_partition_queue b now q db), snd (set_polling_interval_sec p now q db)}.
      \<exists>qs. list_queues db' = Inr qs"
proof -
  have v: "queues_valid db" using valid by (simp add: list_queues_iff)
  have "queues_valid (snd (set_concurrency c now q db))"
  proof (cases "res_bind (require_database_backed q) (\<lambda>_. refresh q db)")
    case (Inl e)
    then show ?thesis using v by (simp add: set_concurrency_def)
  next
    case (Inr q1)
    then have ref: "refresh q db = Inr q1" by (auto simp: res_bind_Inr_iff)
    note row = refresh_row [OF inv ref]
    show ?thesis
    proof (cases "case (c, q_worker_concurrency q1) of (Some x, Some y) \<Rightarrow> y > x | _ \<Rightarrow> False")
      case True
      then show ?thesis using v Inr by (simp add: set_concurrency_def)
    next
      case False
      have "queues_valid (update_queue (q_name q) [F_concurrency c] now db)"
        using v False row(2)
        by (intro update_queue_valid) (auto simp: row_valid_def not_less split: option.splits)
      with False Inr show ?thesis by (simp add: set_concurrency_def)
    qed
  qed
  moreover have "queues_valid (snd (set_worker_concurrency w now q db))"
  proof (cases "res_bind (require_database_backed q) (\<lambda>_. refresh q db)")
    case (Inl e)
    then show ?thesis using v by (simp add: set_worker_concurrency_def)
  next
    case (Inr q1)
    then have ref: "refresh q db = Inr q1" by (auto simp: res_bind_Inr_iff)
    note row = refresh_row [OF inv ref]
    show ?thesis
    proof (cases "case (w, q_concurrency q1) of (Some x, Some y) \<Rightarrow> x > y | _ \<Rightarrow> False")
      case True
      then show ?thesis using v Inr by (simp add: set_worker_concurrency_def)
    next
      case False
      have "queues_valid (update_queue (q_name q) [F_worker_concurrency w] now db)"
        using v False row(1)
        by (intro update_queue_valid) (auto simp: row_valid_def not_less split: option.splits)
      with False Inr show ?thesis by (simp add: set_worker_concurrency_def)
    qed
  qed
  moreover have "queues_valid (update_queue (q_name q) [F_rate_limit_max m, F_rate_limit_period_sec per] now db)"
    if "m \<noteq> None \<longrightarrow> per \<noteq> None" for m per
    using v that by (intro update_queue_valid) (auto simp: row_valid_def)
  then have "queues_valid (snd (set_limiter l now q db))"
    using v by (auto simp: set_limiter_def split: sum.splits option.splits prod.splits)
  moreover have "queues_valid (snd (set_priority_enabled b now q db))"
    "queues_valid (snd (set_partition_queue b now q db))"
    "queues_valid (snd (set_polling_interval_sec p now q db))"
    using v by (auto simp: set_priority_enabled_def set_partition_queue_def set_polling_interval_sec_def
        not_le row_valid_def split: sum.splits intro!: update_queue_valid)
  ultimately show ?thesis by (simp add: list_queues_iff)
qed

definition example_queue_row :: queue_row where
  "example_queue_row = \<lparr>qr_queue_id = ''1'', qr_name = ''q'', qr_concurrency = Some 10,
     qr_worker_concurrency = Some 1, qr_rate_limit_max = None, qr_rate_limit_period_sec = None,
     qr_priority_enabled = False, qr_partition_queue = False, qr_polling_interval_sec = 1,
     qr_created_at = 0, qr_updated_at = 0\<rparr>"

definition example_config_db :: sysdb where
  "example_config_db = empty_sysdb\<lparr>queues := [example_queue_row]\<rparr>"

lemma example_config_inv: "sysdb_inv example_config_db"
  by (simp add: sysdb_inv_def example_config_db_def empty_sysdb_def status_table_ok_def dedup_unique_def
      children_ok_def catalog_ok_def child_ok_def)

lemma example_config_valid: "\<exists>qs. list_queues example_config_db = Inr qs"
  unfolding list_queues_iff queues_valid_iff
  by (simp add: example_config_db_def row_valid_def example_queue_row_def)

theorem queue_setters_keep_valid_witness:
  "\<exists>qs. list_queues (snd (set_concurrency (Some 5) 1 (example_queue\<lparr>q_database_backed_queue := True\<rparr>)
     example_config_db)) = Inr qs"
  using queue_setters_keep_valid [OF example_config_inv example_config_valid,
      of "Some 5" 1 "example_queue\<lparr>q_database_backed_queue := True\<rparr>" None None True 1]
  by simp

lemma update_queue_member:
  "r \<in> set (queues db) \<Longrightarrow> qr_name r = name \<Longrightarrow> fs \<noteq> [] \<Longrightarrow>
   (fold set_field fs r)\<lparr>qr_updated_at := now\<rparr> \<in> set (queues (update_queue name fs now db))"
  by (auto simp: update_queue_def set_sql_update)

text \<open>
  The check and the write of a setter are separate transactions, and two setters that interleave
  can store what each of them alone would refuse: if the new concurrency \<open>c\<close> and the new worker
  concurrency \<open>w\<close> each pass the check against the stored configuration but \<open>w > c\<close>, then after
  both writes the row can no longer be loaded, and neither can the list of all queues.
\<close>

theorem queue_setters_race:
  assumes row: "r \<in> set (queues db)" "qr_name r = q_name q"
    and checked: "refresh q db = Inr q1"
      "\<not> (case q_worker_concurrency q1 of None \<Rightarrow> False | Some w' \<Rightarrow> w' > c)"
      "\<not> (case q_concurrency q1 of None \<Rightarrow> False | Some c' \<Rightarrow> w > c')"
    and bad: "w > c"
  shows "\<exists>e. list_queues (update_queue (q_name q) [F_worker_concurrency (Some w)] t2
      (update_queue (q_name q) [F_concurrency (Some c)] t1 db)) = Inl e"
proof -
  let ?db = "update_queue (q_name q) [F_worker_concurrency (Some w)] t2
      (update_queue (q_name q) [F_concurrency (Some c)] t1 db)"
  let ?r = "r\<lparr>qr_concurrency := Some c, qr_worker_concurrency := Some w, qr_updated_at := t2\<rparr>"
  have "?r \<in> set (queues ?db)"
    using update_queue_member [OF row, of "[F_concurrency (Some c)]" t1, THEN update_queue_member,
        of "q_name q" "[F_worker_concurrency (Some w)]" t2] row(2) by simp
  moreover have "\<not> row_valid ?r" using bad by (simp add: row_valid_def)
  ultimately have "\<not> queues_valid ?db" by (auto simp: queues_valid_iff list_all_iff)
  then show ?thesis using list_queues_iff [of ?db] by (cases "list_queues ?db") auto
qed

theorem queue_setters_race_witness:
  "\<exists>e. list_queues (update_queue ''q'' [F_worker_concurrency (Some 5)] 2
      (update_queue ''q'' [F_concurrency (Some 2)] 1 example_config_db)) = Inl e"
proof -
  let ?q = "example_queue"
  have n: "q_name ?q = ''q''" by (simp add: example_queue_def)
  have row: "example_queue_row \<in> set (queues example_config_db)" "qr_name example_queue_row = q_name ?q"
    by (simp_all add: example_config_db_def example_queue_row_def n)
  obtain q1 where q1: "refresh ?q example_config_db = Inr q1" "q_worker_concurrency q1 = Some 1" "q_concurrency q1 = Some 10"
    by (simp add: refresh_def get_queue_def example_config_db_def n example_queue_row_def queue_from_db_row_def
        new_queue_def validate_queue_def Let_def)
  from queue_setters_race [OF row q1(1), of 2 5 2 1] q1(2,3) show ?thesis by (simp add: n)
qed

section \<open>The rate limiter forgets cancelled workflows\<close>

text \<open>
  The rate limiter counts the rows that still show a start time on the queue, and cancelling a
  workflow erases both, so a workflow that was started and then cancelled no longer counts: with a
  limit of one start per ten seconds, two workflows are started at the same instant.
\<close>

theorem rate_limit_forgets_cancelled:
  "let (ids1, db1) = start_queued_workflows (example_queue\<lparr>q_concurrency := None\<rparr>) ''e1'' ''v1'' None 0 1000 1000
         example_queue_db;
       (ids2, db2) = start_queued_workflows (example_queue\<lparr>q_concurrency := None\<rparr>) ''e1'' ''v1'' None 0 1000 1000
         (cancel_batch 1000 ids1 db1)
   in q_limiter example_queue = Some \<lparr>rl_limit = 1, rl_period = 10\<rparr> \<and> ids1 = [''high''] \<and> ids2 = [''low'']"
  by (simp add: start_queued_workflows_def example_queue_def example_queue_db_def empty_sysdb_def count_rows_def
      recently_started_def max_tasks_def dequeue_order_def order_by2_def eligible_def latest_version_name_def
      in_partition_def start_guard_def start_effect_def py_int_def Let_def update_workflow_status_def sql_update_def
      cancel_batch_def cancel_effect_def not_complete_def)

section \<open>The polling interval\<close>

lemma clamp_interval_bounds: "configured \<le> clamp_interval configured i \<and> clamp_interval configured i \<le> max configured 120"
  by (simp add: clamp_interval_def)

lemma next_interval_bounds:
  assumes "0 < configured"
  shows "configured \<le> next_interval configured contention i \<and> next_interval configured contention i \<le> max configured 120"
proof -
  define j where "j = (if contention then min (max configured 120) (clamp_interval configured i * 2) else clamp_interval configured i)"
  have "j \<le> max configured 120" using clamp_interval_bounds [of configured i] by (simp add: j_def)
  moreover have "0 \<le> j" using clamp_interval_bounds [of configured i] assms by (auto simp: j_def)
  ultimately have "j * (9 / 10) \<le> max configured 120" by linarith
  then show ?thesis by (simp add: next_interval_def Let_def flip: j_def)
qed

end
