(* ===== verification/DBOS_Context.thy ===== *)
theory DBOS_Context
  imports DBOS_Constraints
begin

text \<open>
  The execution context of a workflow (\<^verbatim>\<open>dbos/_context.py\<close>): which workflow, step or transaction
  is running, the counter that numbers its steps, and the options handed to the next workflow it
  starts. A method that changes the context returns the changed one; the tracing spans are left
  out, and a database session is present or absent. The theorems show that the counter gives every
  step and every child workflow of a run its own ID, and the same ones whenever the run is repeated.
\<close>

record StepStatus =
  ss_step_id :: int
  ss_current_attempt :: "int option"
  ss_max_attempts :: "int option"

record DBOSContext =
  cx_executor_id :: string
  cx_app_id :: string
  cx_id_assigned_for_next_workflow :: string
  cx_is_within_set_workflow_id_block :: bool
  cx_parent_workflow_id :: string
  cx_parent_workflow_fid :: int
  cx_workflow_id :: string
  cx_function_id :: int
  cx_curr_step_function_id :: int
  cx_curr_tx_function_id :: int
  cx_sql_session :: bool
  cx_sync_ds_session :: bool
  cx_async_ds_session :: bool
  cx_authenticated_user :: "string option"
  cx_authenticated_roles :: "string list option"
  cx_assumed_role :: "string option"
  cx_step_status :: "StepStatus option"
  cx_app_version :: "string option"
  cx_serialization_type :: WorkflowSerializationFormat
  cx_workflow_timeout_ms :: "int option"
  cx_workflow_deadline_epoch_ms :: "int option"
  cx_deduplication_id :: "string option"
  cx_priority :: "int option"
  cx_workflow_attributes :: "attributes option"
  cx_queue_partition_key :: "string option"
  cx_delay_until_epoch_ms :: "int option"
  cx_debounce_deadline_epoch_ms :: "int option"
  cx_is_debounced :: bool

text \<open>\<^verbatim>\<open>DBOSContext()\<close>, in a process with the given executor and application IDs.\<close>

definition new_context :: "string \<Rightarrow> string \<Rightarrow> DBOSContext" where
  "new_context executor_id app_id = \<lparr>
     cx_executor_id = executor_id, cx_app_id = app_id, cx_id_assigned_for_next_workflow = [],
     cx_is_within_set_workflow_id_block = False, cx_parent_workflow_id = [],
     cx_parent_workflow_fid = -1, cx_workflow_id = [], cx_function_id = -1,
     cx_curr_step_function_id = -1, cx_curr_tx_function_id = -1, cx_sql_session = False,
     cx_sync_ds_session = False, cx_async_ds_session = False, cx_authenticated_user = None,
     cx_authenticated_roles = None, cx_assumed_role = None, cx_step_status = None,
     cx_app_version = None, cx_serialization_type = DEFAULT, cx_workflow_timeout_ms = None,
     cx_workflow_deadline_epoch_ms = None, cx_deduplication_id = None, cx_priority = None,
     cx_workflow_attributes = None, cx_queue_partition_key = None,
     cx_delay_until_epoch_ms = None, cx_debounce_deadline_epoch_ms = None,
     cx_is_debounced = False\<rparr>"

section \<open>Where the context is\<close>

definition is_within_workflow :: "DBOSContext \<Rightarrow> bool" where
  "is_within_workflow c \<longleftrightarrow> length (cx_workflow_id c) > 0"

definition is_transaction :: "DBOSContext \<Rightarrow> bool" where
  "is_transaction c \<longleftrightarrow> cx_sql_session c"

definition is_step :: "DBOSContext \<Rightarrow> bool" where
  "is_step c \<longleftrightarrow> cx_curr_step_function_id c \<ge> 0"

definition is_workflow :: "DBOSContext \<Rightarrow> bool" where
  "is_workflow c \<longleftrightarrow> length (cx_workflow_id c) > 0 \<and> \<not> is_step c \<and> \<not> is_transaction c"

definition has_parent :: "DBOSContext \<Rightarrow> bool" where
  "has_parent c \<longleftrightarrow> length (cx_parent_workflow_id c) > 0"

section \<open>Child contexts\<close>

text \<open>The child and the changed parent: the ID assigned to the next workflow is handed on.\<close>

definition create_child :: "bool \<Rightarrow> DBOSContext \<Rightarrow> DBOSContext \<Rightarrow> DBOSContext \<times> DBOSContext" where
  "create_child is_for_workflow blank c =
     ((let rv = (if is_for_workflow
          then blank\<lparr>cx_id_assigned_for_next_workflow := cx_id_assigned_for_next_workflow c,
                     cx_workflow_attributes := cx_workflow_attributes c\<rparr>
          else blank\<lparr>cx_serialization_type := cx_serialization_type c\<rparr>)
       in rv\<lparr>cx_is_within_set_workflow_id_block := cx_is_within_set_workflow_id_block c,
            cx_parent_workflow_id := cx_workflow_id c,
            cx_parent_workflow_fid := cx_function_id c,
            cx_authenticated_user := cx_authenticated_user c,
            cx_authenticated_roles := cx_authenticated_roles c,
            cx_assumed_role := cx_assumed_role c\<rparr>),
      (if is_for_workflow then c\<lparr>cx_id_assigned_for_next_workflow := []\<rparr> else c))"

definition snapshot_step_ctx :: "bool \<Rightarrow> DBOSContext \<Rightarrow> DBOSContext \<Rightarrow> DBOSContext \<times> DBOSContext" where
  "snapshot_step_ctx reserve_sleep_id blank c =
     (let rv = fst (create_child False blank c); fid = cx_function_id c + 1 in
      (rv\<lparr>cx_executor_id := cx_executor_id c, cx_app_id := cx_app_id c,
         cx_app_version := cx_app_version c, cx_workflow_id := cx_workflow_id c,
         cx_workflow_deadline_epoch_ms := cx_workflow_deadline_epoch_ms c,
         cx_workflow_timeout_ms := cx_workflow_timeout_ms c,
         cx_deduplication_id := cx_deduplication_id c, cx_priority := cx_priority c,
         cx_queue_partition_key := cx_queue_partition_key c,
         cx_delay_until_epoch_ms := cx_delay_until_epoch_ms c,
         cx_debounce_deadline_epoch_ms := cx_debounce_deadline_epoch_ms c,
         cx_is_debounced := cx_is_debounced c,
         cx_workflow_attributes := cx_workflow_attributes c,
         cx_function_id := fid\<rparr>,
       c\<lparr>cx_function_id := (if reserve_sleep_id then fid + 1 else fid)\<rparr>))"

text \<open>\<^verbatim>\<open>not workflow_id.strip()\<close>: the ID is empty or consists of white space.\<close>

definition py_isspace :: "char \<Rightarrow> bool" where
  "py_isspace ch = (let n = (of_char ch :: nat) in
     (9 \<le> n \<and> n \<le> 13) \<or> (28 \<le> n \<and> n \<le> 32) \<or> n = 133 \<or> n = 160)"

definition is_blank :: "string \<Rightarrow> bool" where
  "is_blank s = list_all py_isspace s"

text \<open>The message quotes the ID.\<close>

definition validate_workflow_id :: "string option \<Rightarrow> unit res" where
  "validate_workflow_id wid = (case wid of
     None \<Rightarrow> Inl (DBOSException ''Invalid workflow ID'')
   | Some w \<Rightarrow> if is_blank w then Inl (DBOSException ''Invalid workflow ID'') else Inr ())"

definition MaxPriority :: int where
  "MaxPriority = 2 ^ 31 - 1"

definition MinPriority :: int where
  "MinPriority = 1"

text \<open>Decimal rendering of a number, Python's \<^verbatim>\<open>str\<close>.\<close>

fun nat_digits :: "nat \<Rightarrow> string" where
  "nat_digits n = (if n < 10 then [char_of (48 + n)]
     else nat_digits (n div 10) @ [char_of (48 + n mod 10)])"

declare nat_digits.simps [simp del]

definition str_int :: "int \<Rightarrow> string" where
  "str_int i = (if i < 0 then CHR ''-'' # nat_digits (nat (- i)) else nat_digits (nat i))"

text \<open>\<open>uuid\<close> is what \<^verbatim>\<open>generate_uuid()\<close> returns.\<close>

definition assign_workflow_id :: "string \<Rightarrow> DBOSContext \<Rightarrow> string" where
  "assign_workflow_id uuid c =
     (if length (cx_id_assigned_for_next_workflow c) > 0 then cx_id_assigned_for_next_workflow c else uuid)"

text \<open>The context of the workflow to start, and the changed current context, if there is one.\<close>

definition create_start_workflow_child ::
  "string \<Rightarrow> DBOSContext \<Rightarrow> DBOSContext option \<Rightarrow> (DBOSContext \<times> DBOSContext option) res" where
  "create_start_workflow_child uuid blank cur = (case cur of
     None \<Rightarrow> Inr (blank\<lparr>cx_id_assigned_for_next_workflow := assign_workflow_id uuid blank\<rparr>, None)
   | Some c \<Rightarrow>
       (if is_within_workflow c \<and> \<not> is_workflow c then Inl AssertionError
        else
          let c1 = (if is_within_workflow c then
                 (let c' = c\<lparr>cx_function_id := cx_function_id c + 1\<rparr> in
                  if length (cx_id_assigned_for_next_workflow c') = 0
                  then c'\<lparr>cx_id_assigned_for_next_workflow :=
                            cx_workflow_id c' @ ''-'' @ str_int (cx_function_id c')\<rparr>
                  else c')
               else c);
              (child, c2) = create_child True blank c1
          in Inr (child\<lparr>cx_id_assigned_for_next_workflow := assign_workflow_id uuid child\<rparr>, Some c2)))"

section \<open>Entering and leaving\<close>

definition start_workflow :: "string \<Rightarrow> string option \<Rightarrow> DBOSContext \<Rightarrow> DBOSContext" where
  "start_workflow uuid wfid c =
     (case wfid of
        Some w \<Rightarrow> if length w = 0
          then c\<lparr>cx_id_assigned_for_next_workflow := [], cx_workflow_id := assign_workflow_id uuid c,
                 cx_function_id := 0\<rparr>
          else c\<lparr>cx_workflow_id := w, cx_function_id := 0\<rparr>
      | None \<Rightarrow> c\<lparr>cx_id_assigned_for_next_workflow := [], cx_workflow_id := assign_workflow_id uuid c,
                 cx_function_id := 0\<rparr>)"

definition end_workflow :: "DBOSContext \<Rightarrow> DBOSContext" where
  "end_workflow c = c\<lparr>cx_workflow_id := [], cx_function_id := -1\<rparr>"

definition start_step :: "int \<Rightarrow> DBOSContext \<Rightarrow> DBOSContext" where
  "start_step fid c = c\<lparr>cx_curr_step_function_id := fid,
     cx_step_status := Some \<lparr>ss_step_id = fid, ss_current_attempt = None, ss_max_attempts = None\<rparr>\<rparr>"

definition end_step :: "DBOSContext \<Rightarrow> DBOSContext" where
  "end_step c = c\<lparr>cx_curr_step_function_id := -1, cx_step_status := None\<rparr>"

definition start_transaction :: "int \<Rightarrow> DBOSContext \<Rightarrow> DBOSContext" where
  "start_transaction fid c = c\<lparr>cx_sql_session := True, cx_curr_tx_function_id := fid\<rparr>"

definition end_transaction :: "DBOSContext \<Rightarrow> DBOSContext" where
  "end_transaction c = c\<lparr>cx_sql_session := False, cx_curr_tx_function_id := -1\<rparr>"

definition start_sync_ds_transaction :: "DBOSContext \<Rightarrow> DBOSContext" where
  "start_sync_ds_transaction c = c\<lparr>cx_sync_ds_session := True\<rparr>"

definition end_sync_ds_transaction :: "DBOSContext \<Rightarrow> DBOSContext" where
  "end_sync_ds_transaction c = c\<lparr>cx_sync_ds_session := False\<rparr>"

definition start_async_ds_transaction :: "DBOSContext \<Rightarrow> DBOSContext" where
  "start_async_ds_transaction c = c\<lparr>cx_async_ds_session := True\<rparr>"

definition end_async_ds_transaction :: "DBOSContext \<Rightarrow> DBOSContext" where
  "end_async_ds_transaction c = c\<lparr>cx_async_ds_session := False\<rparr>"

section \<open>Decimal numerals\<close>

lemma nat_digits_small: "n < 10 \<Longrightarrow> nat_digits n = [char_of (48 + n)]"
  by (simp add: nat_digits.simps)

lemma nat_digits_big: "\<not> n < 10 \<Longrightarrow> nat_digits n = nat_digits (n div 10) @ [char_of (48 + n mod 10)]"
  by (simp add: nat_digits.simps [of n])

lemma nat_digits_not_Nil [simp]: "nat_digits n \<noteq> []" "[] \<noteq> nat_digits n"
  by (subst nat_digits.simps, simp)+

lemma char_of_digit_eq:
  assumes "a < 10" "b < (10::nat)"
  shows "char_of (48 + a) = (char_of (48 + b) :: char) \<longleftrightarrow> a = b"
proof
  assume "char_of (48 + a) = (char_of (48 + b) :: char)"
  then have "of_char (char_of (48 + a) :: char) = (of_char (char_of (48 + b) :: char) :: nat)" by simp
  with assms show "a = b" by (simp add: of_char_of)
qed simp

lemma nat_digits_inj: "nat_digits m = nat_digits n \<Longrightarrow> m = n"
proof (induction m arbitrary: n rule: less_induct)
  case (less m)
  show ?case
  proof (cases "m < 10")
    case True
    show ?thesis
    proof (cases "n < 10")
      case True
      with \<open>m < 10\<close> less.prems show ?thesis by (simp add: nat_digits_small char_of_digit_eq)
    next
      case False
      with \<open>m < 10\<close> less.prems show ?thesis by (simp add: nat_digits_small nat_digits_big)
    qed
  next
    case m: False
    show ?thesis
    proof (cases "n < 10")
      case True
      with m less.prems show ?thesis by (simp add: nat_digits_small nat_digits_big)
    next
      case False
      with m less.prems have "nat_digits (m div 10) = nat_digits (n div 10)" "m mod 10 = n mod 10"
        by (simp_all add: nat_digits_big char_of_digit_eq)
      with less.IH [of "m div 10" "n div 10"] m have "m div 10 = n div 10" by simp
      with \<open>m mod 10 = n mod 10\<close> show ?thesis by (metis div_mult_mod_eq)
    qed
  qed
qed

section \<open>Step and workflow IDs\<close>

text \<open>The child contexts that a workflow's code draws, in order: steps and child workflows.\<close>

datatype ctx_request = StepRequest bool | ChildRequest

text \<open>The IDs that a run draws: the number of a step, or the ID of a child workflow.\<close>

datatype ctx_id = StepId int | ChildId string

fun draw_ids :: "string \<Rightarrow> DBOSContext \<Rightarrow> ctx_request list \<Rightarrow> DBOSContext \<Rightarrow> ctx_id list res" where
  "draw_ids uuid blank [] c = Inr []"
| "draw_ids uuid blank (StepRequest sleep # rs) c =
     (let (child, c') = snapshot_step_ctx sleep blank c
      in res_bind (draw_ids uuid blank rs c') (\<lambda>ids. Inr (StepId (cx_function_id child) # ids)))"
| "draw_ids uuid blank (ChildRequest # rs) c =
     res_bind (create_start_workflow_child uuid blank (Some c)) (\<lambda>(child, c').
       (case c' of None \<Rightarrow> Inl AssertionError
        | Some c'' \<Rightarrow> res_bind (draw_ids uuid blank rs c'')
            (\<lambda>ids. Inr (ChildId (cx_id_assigned_for_next_workflow child) # ids))))"

lemma create_start_child_in_workflow:
  assumes "is_workflow c" "cx_id_assigned_for_next_workflow c = []"
  shows "\<exists>child c'. create_start_workflow_child uuid blank (Some c) = Inr (child, Some c')
    \<and> cx_id_assigned_for_next_workflow child = cx_workflow_id c @ ''-'' @ str_int (cx_function_id c + 1)
    \<and> cx_parent_workflow_id child = cx_workflow_id c
    \<and> c' = c\<lparr>cx_function_id := cx_function_id c + 1\<rparr>"
  using assms
  by (auto simp: create_start_workflow_child_def create_child_def is_workflow_def
      is_within_workflow_def assign_workflow_id_def)

lemma is_workflow_function_id [simp]: "is_workflow (c\<lparr>cx_function_id := i\<rparr>) = is_workflow c"
  by (simp add: is_workflow_def is_step_def is_transaction_def)

text \<open>Which IDs can still be drawn from a context.\<close>

definition id_above :: "string \<Rightarrow> int \<Rightarrow> ctx_id \<Rightarrow> bool" where
  "id_above wid i x = (case x of StepId n \<Rightarrow> n > i
     | ChildId s \<Rightarrow> \<exists>n. n > i \<and> s = wid @ ''-'' @ str_int n)"

lemma id_above_mono: "id_above wid j x \<Longrightarrow> i \<le> j \<Longrightarrow> id_above wid i x"
  by (auto simp: id_above_def split: ctx_id.splits intro: less_le_trans le_less_trans)

lemma str_int_inj: "0 \<le> i \<Longrightarrow> 0 \<le> j \<Longrightarrow> str_int i = str_int j \<Longrightarrow> i = j"
  by (auto simp: str_int_def dest: nat_digits_inj)

lemma draw_ids_distinct:
  assumes "is_workflow c" "cx_id_assigned_for_next_workflow c = []" "0 \<le> cx_function_id c"
  shows "\<exists>ids. draw_ids uuid blank rs c = Inr ids \<and> distinct ids \<and> length ids = length rs
    \<and> list_all (id_above (cx_workflow_id c) (cx_function_id c)) ids"
  using assms
proof (induction rs arbitrary: c)
  case (Cons r rs)
  let ?i = "cx_function_id c"
  show ?case
  proof (cases r)
    case (StepRequest sleep)
    define j where "j = (if sleep then ?i + 1 + 1 else ?i + 1)"
    have j: "?i + 1 \<le> j" by (simp add: j_def)
    let ?c = "c\<lparr>cx_function_id := j\<rparr>"
    have "is_workflow ?c" "cx_id_assigned_for_next_workflow ?c = []" "0 \<le> cx_function_id ?c"
      using Cons.prems j by simp_all
    from Cons.IH [OF this] obtain ids where ids: "draw_ids uuid blank rs ?c = Inr ids"
      "distinct ids" "length ids = length rs" "list_all (id_above (cx_workflow_id c) j) ids" by auto
    have "list_all (id_above (cx_workflow_id c) (?i + 1)) ids"
      using ids(4) j by (auto simp: list_all_iff intro: id_above_mono)
    then have "StepId (?i + 1) \<notin> set ids"
      and "list_all (id_above (cx_workflow_id c) ?i) (StepId (?i + 1) # ids)"
      by (auto simp: list_all_iff id_above_def split: ctx_id.splits; force)+
    with ids StepRequest show ?thesis by (simp add: snapshot_step_ctx_def Let_def flip: j_def)
  next
    case ChildRequest
    let ?c = "c\<lparr>cx_function_id := ?i + 1\<rparr>"
    let ?id = "cx_workflow_id c @ ''-'' @ str_int (?i + 1)"
    from create_start_child_in_workflow [OF Cons.prems(1,2)] obtain child where
      child: "create_start_workflow_child uuid blank (Some c) = Inr (child, Some ?c)"
        "cx_id_assigned_for_next_workflow child = ?id" by blast
    from Cons.IH [of ?c] Cons.prems obtain ids where ids: "draw_ids uuid blank rs ?c = Inr ids"
      "distinct ids" "length ids = length rs"
      "list_all (id_above (cx_workflow_id c) (?i + 1)) ids" by auto
    have "ChildId ?id \<notin> set ids"
    proof
      assume "ChildId ?id \<in> set ids"
      with ids(4) have "id_above (cx_workflow_id c) (?i + 1) (ChildId ?id)" by (simp add: list_all_iff)
      then obtain n where "n > ?i + 1" "str_int (?i + 1) = str_int n" by (auto simp: id_above_def)
      with str_int_inj [of "?i + 1" n] Cons.prems(3) show False by simp
    qed
    moreover have "list_all (id_above (cx_workflow_id c) ?i) (ChildId ?id # ids)"
      using ids(4) by (auto simp: list_all_iff id_above_def split: ctx_id.splits; force)
    ultimately show ?thesis using ids child ChildRequest by simp
  qed
qed simp

lemma draw_ids_det:
  assumes "is_workflow c" "cx_id_assigned_for_next_workflow c = []" "0 \<le> cx_function_id c"
  shows "draw_ids uuid blank rs c = draw_ids uuid' blank' rs c"
  using assms
proof (induction rs arbitrary: c)
  case (Cons r rs)
  have rec: "draw_ids uuid blank rs (c\<lparr>cx_function_id := j\<rparr>)
      = draw_ids uuid' blank' rs (c\<lparr>cx_function_id := j\<rparr>)" if "0 \<le> j" for j
    using Cons.IH [of "c\<lparr>cx_function_id := j\<rparr>"] Cons.prems that by simp
  show ?case
  proof (cases r)
    case (StepRequest sleep)
    with rec [of "cx_function_id c + 1"] rec [of "cx_function_id c + 1 + 1"] Cons.prems(3)
    show ?thesis by (simp add: snapshot_step_ctx_def Let_def)
  next
    case ChildRequest
    with rec [of "cx_function_id c + 1"] Cons.prems(3)
      create_start_child_in_workflow [OF Cons.prems(1,2), of uuid blank]
      create_start_child_in_workflow [OF Cons.prems(1,2), of uuid' blank']
    show ?thesis by auto
  qed
qed simp

text \<open>
  C18: A running workflow numbers its operations uniquely: whatever sequence of steps and child
  workflows its code starts, every step gets its own function ID above those already used, every
  child workflow (not given an ID by the application) its own workflow ID derived from the parent's,
  and no generated UUID is involved, so a replay of the same code draws the same IDs.
\<close>

theorem draw_ids_unique:
  assumes "is_workflow c" and "cx_id_assigned_for_next_workflow c = []" and "0 \<le> cx_function_id c"
  shows "\<exists>ids. (\<forall>uuid blank. draw_ids uuid blank rs c = Inr ids) \<and> distinct ids
    \<and> length ids = length rs
    \<and> (\<forall>x \<in> set ids. case x of StepId n \<Rightarrow> n > cx_function_id c
         | ChildId s \<Rightarrow> \<exists>n. n > cx_function_id c \<and> s = cx_workflow_id c @ ''-'' @ str_int n)"
proof -
  from draw_ids_distinct [OF assms, of undefined undefined rs] obtain ids where
    ids: "draw_ids undefined undefined rs c = Inr ids" "distinct ids" "length ids = length rs"
      "list_all (id_above (cx_workflow_id c) (cx_function_id c)) ids" by blast
  have "draw_ids uuid blank rs c = Inr ids" for uuid blank
    using draw_ids_det [OF assms] ids(1) by metis
  with ids(2-4) show ?thesis by (auto simp: list_all_iff id_above_def)
qed

definition example_context :: DBOSContext where
  "example_context = start_workflow ''u'' (Some ''w'') (new_context ''local'' ''app'')"

theorem draw_ids_unique_witness:
  "draw_ids ''u'' (new_context ''local'' ''app'') [StepRequest True, ChildRequest, StepRequest False]
     example_context = Inr [StepId 1, ChildId ''w-3'', StepId 4]
   \<and> distinct [StepId 1, ChildId ''w-3'', StepId 4]"
proof -
  have c: "is_workflow example_context" "cx_id_assigned_for_next_workflow example_context = []"
    "0 \<le> cx_function_id example_context"
    by (simp_all add: example_context_def start_workflow_def new_context_def is_workflow_def is_step_def
        is_transaction_def)
  have three: "char_of (51::nat) = CHR ''3''" by code_simp
  have "draw_ids ''u'' (new_context ''local'' ''app'') [StepRequest True, ChildRequest, StepRequest False]
     example_context = Inr [StepId 1, ChildId ''w-3'', StepId 4]"
    by (simp add: example_context_def start_workflow_def new_context_def snapshot_step_ctx_def
        create_child_def create_start_workflow_child_def is_within_workflow_def is_workflow_def
        is_step_def is_transaction_def assign_workflow_id_def str_int_def nat_digits_small three)
  with draw_ids_unique [OF c, of "[StepRequest True, ChildRequest, StepRequest False]"]
  show ?thesis by auto
qed

end
