(* ===== verification/DBOS_Operations.thy ===== *)
theory DBOS_Operations
  imports DBOS_Context DBOS_Status_Lifecycle
begin

text \<open>
  Checkpoints (\<^verbatim>\<open>dbos/_sys_db.py\<close>): the recorded result of each numbered operation of a workflow.
  Before an operation runs, its checkpoint is looked up; if there is one, the recorded result is
  returned and nothing is executed, otherwise the operation runs and its result is recorded. The
  locale \<open>checkpointed\<close> is the contract of an operation that checks, works and records in one
  transaction; every such operation of the system database is shown to obey it, and the
  once-and-only-once facts are proved in it.
\<close>

section \<open>Checking and recording\<close>

record RecordedResult =
  rr_output :: "string option"
  rr_error :: "string option"
  rr_serialization :: "string option"
  rr_child_workflow_id :: "string option"

record OperationResultInternal =
  or_workflow_uuid :: string
  or_function_id :: int
  or_function_name :: string
  or_output :: "string option"
  or_error :: "string option"
  or_serialization :: "string option"
  or_started_at_epoch_ms :: int

definition recorded_result :: "operation_output_row \<Rightarrow> RecordedResult" where
  "recorded_result r = \<lparr>rr_output = oo_output r, rr_error = oo_error r,
     rr_serialization = oo_serialization r, rr_child_workflow_id = oo_child_workflow_id r\<rparr>"

text \<open>The message of \<open>DBOSWorkflowCancelledError\<close> is reduced to the workflow it names.\<close>

definition check_operation_execution_txn ::
  "string \<Rightarrow> int \<Rightarrow> string \<Rightarrow> sysdb \<Rightarrow> RecordedResult option res" where
  "check_operation_execution_txn wid fid name db =
     (case status_row db wid of
        None \<Rightarrow> Inl AssertionError
      | Some w \<Rightarrow>
          if ws_status w = CANCELLED then Inl (DBOSWorkflowCancelledError wid)
          else (case operation_row db wid fid of
                  None \<Rightarrow> Inr None
                | Some r \<Rightarrow>
                    if name \<noteq> oo_function_name r
                    then Inl (DBOSUnexpectedStepError wid fid name (oo_function_name r))
                    else Inr (Some (recorded_result r))))"

definition check_operation_execution ::
  "string \<Rightarrow> int \<Rightarrow> string \<Rightarrow> sysdb \<Rightarrow> RecordedResult option res \<times> sysdb" where
  "check_operation_execution wid fid name =
     engine_begin (\<lambda>db. lift_res (check_operation_execution_txn wid fid name db) db)"

definition operation_output_of :: "OperationResultInternal \<Rightarrow> int \<Rightarrow> operation_output_row" where
  "operation_output_of res completed = \<lparr>
     oo_workflow_uuid = or_workflow_uuid res, oo_function_id = or_function_id res,
     oo_function_name = or_function_name res, oo_output = or_output res, oo_error = or_error res,
     oo_child_workflow_id = None, oo_started_at_epoch_ms = Some (or_started_at_epoch_ms res),
     oo_completed_at_epoch_ms = Some completed, oo_serialization = or_serialization res\<rparr>"

definition reset_executor :: "string option \<Rightarrow> string \<Rightarrow> workflow_status_row \<Rightarrow> sysdb \<Rightarrow> sysdb" where
  "reset_executor executor_id wid w db = (case executor_id of
     None \<Rightarrow> db
   | Some e \<Rightarrow> if ws_executor_id w \<noteq> Some e
       then update_workflow_status (\<lambda>r. ws_workflow_uuid r = wid) (\<lambda>r. r\<lparr>ws_executor_id := Some e\<rparr>) db
       else db)"

text \<open>
  The insert is an upsert that leaves an existing row as it is and returns its completion time;
  a time other than the one being recorded means that somebody else recorded the operation, and
  \<^verbatim>\<open>int\<close> of a NULL completion time raises.
\<close>

definition record_operation_result_txn ::
  "string option \<Rightarrow> OperationResultInternal \<Rightarrow> int \<Rightarrow> sysdb \<Rightarrow> unit txn_result" where
  "record_operation_result_txn executor_id res completed db =
     (if or_error res \<noteq> None \<and> or_output res \<noteq> None then Raise AssertionError
      else case status_row db (or_workflow_uuid res) of
        None \<Rightarrow> Raise AssertionError
      | Some w \<Rightarrow>
          let db1 = reset_executor executor_id (or_workflow_uuid res) w db in
          (case operation_row db1 (or_workflow_uuid res) (or_function_id res) of
             Some old \<Rightarrow>
               (case oo_completed_at_epoch_ms old of
                  None \<Rightarrow> Raise TypeError
                | Some c \<Rightarrow> if c \<noteq> completed
                    then Raise (DBOSWorkflowConflictIDError (or_workflow_uuid res))
                    else Done () db1)
           | None \<Rightarrow>
               (case insert_operation_output (operation_output_of res completed) db1 of
                  Inl e \<Rightarrow> Raise (if e = UniqueViolation
                    then DBOSWorkflowConflictIDError (or_workflow_uuid res) else e)
                | Inr db2 \<Rightarrow> Done () db2)))"

definition record_operation_result ::
  "string option \<Rightarrow> OperationResultInternal \<Rightarrow> int \<Rightarrow> sysdb \<Rightarrow> unit res \<times> sysdb" where
  "record_operation_result executor_id res completed =
     engine_begin (record_operation_result_txn executor_id res completed)"

text \<open>
  The awaited result of another workflow, recorded without a check (\<^verbatim>\<open>ON CONFLICT DO NOTHING\<close>).
  Without an explicit context the current one is used, whose counter is advanced; \<open>None\<close> of the
  result: there was nothing to record.
\<close>

definition get_result_row ::
  "string \<Rightarrow> string option \<Rightarrow> string option \<Rightarrow> string option \<Rightarrow> DBOSContext \<Rightarrow> operation_output_row" where
  "get_result_row result_wid output err ser c = \<lparr>
     oo_workflow_uuid = cx_workflow_id c, oo_function_id = cx_function_id c,
     oo_function_name = ''DBOS.getResult'', oo_output = output, oo_error = err,
     oo_child_workflow_id = Some result_wid, oo_started_at_epoch_ms = None,
     oo_completed_at_epoch_ms = None, oo_serialization = ser\<rparr>"

definition record_get_result ::
  "string \<Rightarrow> string option \<Rightarrow> string option \<Rightarrow> string option \<Rightarrow> DBOSContext option \<Rightarrow> DBOSContext option
   \<Rightarrow> sysdb \<Rightarrow> unit res \<times> DBOSContext option \<times> sysdb" where
  "record_get_result result_wid output err ser ctx current db =
     (case (case ctx of Some c \<Rightarrow> Some (c, current)
            | None \<Rightarrow> (case current of
                 None \<Rightarrow> None
               | Some c \<Rightarrow> if \<not> is_workflow c then None
                   else (let c' = c\<lparr>cx_function_id := cx_function_id c + 1\<rparr> in Some (c', Some c')))) of
        None \<Rightarrow> (Inr (), current, db)
      | Some (c, cur) \<Rightarrow>
          (case insert_operation_output (get_result_row result_wid output err ser c) db of
             Inr db' \<Rightarrow> (Inr (), cur, db')
           | Inl e \<Rightarrow> (if e = UniqueViolation then (Inr (), cur, db) else (Inl e, cur, db))))"

definition child_row :: "string \<Rightarrow> string \<Rightarrow> int \<Rightarrow> string \<Rightarrow> operation_output_row" where
  "child_row parentUUID childUUID functionID functionName = \<lparr>
     oo_workflow_uuid = parentUUID, oo_function_id = functionID, oo_function_name = functionName,
     oo_output = None, oo_error = None, oo_child_workflow_id = Some childUUID,
     oo_started_at_epoch_ms = None, oo_completed_at_epoch_ms = None, oo_serialization = None\<rparr>"

definition record_child_workflow ::
  "string \<Rightarrow> string \<Rightarrow> int \<Rightarrow> string \<Rightarrow> sysdb \<Rightarrow> unit res \<times> sysdb" where
  "record_child_workflow parentUUID childUUID functionID functionName db =
     (if childUUID = [] then (Inl (DBOSException ''Attempted to record an empty child workflow ID''), db)
      else case insert_operation_output (child_row parentUUID childUUID functionID functionName) db of
        Inr db' \<Rightarrow> (Inr (), db')
      | Inl e \<Rightarrow>
          (if e = UniqueViolation then
             (case operation_row db parentUUID functionID of
                Some r \<Rightarrow> if oo_child_workflow_id r = Some childUUID then (Inr (), db)
                          else (Inl (DBOSWorkflowConflictIDError parentUUID), db)
              | None \<Rightarrow> (Inl (DBOSWorkflowConflictIDError parentUUID), db))
           else (Inl e, db)))"

section \<open>Running a function as a step\<close>

text \<open>
  The recorded result of a step, as the caller gets it. \<open>fn\<close> is the function run as a step; it may
  change the database and raise.
\<close>

definition replay_step :: "codecs \<Rightarrow> Serializer \<Rightarrow> RecordedResult \<Rightarrow> pyval res" where
  "replay_step cs sz rr = (case rr_output rr of
     Some out \<Rightarrow> deserialize_value cs (Some out) (rr_serialization rr) sz
   | None \<Rightarrow> (case rr_error rr of
       Some e \<Rightarrow> res_bind (deserialize_exception cs e (rr_serialization rr) sz) Inl
     | None \<Rightarrow> Inl (PyException ''Recorded output and error are both None'')))"

definition step_result :: "string \<Rightarrow> int \<Rightarrow> string \<Rightarrow> int \<Rightarrow> string \<Rightarrow> string option \<Rightarrow> OperationResultInternal" where
  "step_result wid fid name start out ser = \<lparr>
     or_workflow_uuid = wid, or_function_id = fid, or_function_name = name, or_output = Some out,
     or_error = None, or_serialization = ser, or_started_at_epoch_ms = start\<rparr>"

definition call_function_as_step ::
  "codecs \<Rightarrow> Serializer \<Rightarrow> string option \<Rightarrow> (sysdb \<Rightarrow> pyval res \<times> sysdb) \<Rightarrow> string
   \<Rightarrow> DBOSContext option \<Rightarrow> int \<Rightarrow> int \<Rightarrow> sysdb \<Rightarrow> pyval res \<times> sysdb" where
  "call_function_as_step cs sz executor_id fn name ctx start completed db = (case ctx of
     None \<Rightarrow> fn db
   | Some c \<Rightarrow>
      if is_transaction c then (Inl (PyException ''Invalid call inside a transaction''), db)
      else if \<not> is_workflow c then fn db
      else (case check_operation_execution (cx_workflow_id c) (cx_function_id c) name db of
          (Inl e, db1) \<Rightarrow> (Inl e, db1)
        | (Inr (Some rr), db1) \<Rightarrow> (replay_step cs sz rr, db1)
        | (Inr None, db1) \<Rightarrow>
            (case fn db1 of
               (Inl e, db2) \<Rightarrow> (Inl e, db2)
             | (Inr v, db2) \<Rightarrow>
                 (case serialize_value cs v None sz of
                    Inl e \<Rightarrow> (Inl e, db2)
                  | Inr (out, ser) \<Rightarrow>
                      (case record_operation_result executor_id
                          (step_result (cx_workflow_id c) (cx_function_id c) name start out (Some ser))
                          completed db2 of
                         (Inl e, db3) \<Rightarrow> (Inl e, db3)
                       | (Inr _, db3) \<Rightarrow> (Inr v, db3))))))"

text \<open>A transaction run as a step: its work and its checkpoint commit together.\<close>

definition call_txn_body ::
  "Serializer \<Rightarrow> string option \<Rightarrow> string \<Rightarrow> int \<Rightarrow> string \<Rightarrow> (sysdb \<Rightarrow> pyval txn_result)
   \<Rightarrow> int \<Rightarrow> int \<Rightarrow> sysdb \<Rightarrow> pyval txn_result" where
  "call_txn_body sz executor_id wid fid name txn start completed db =
     (case check_operation_execution_txn wid fid name db of
        Inl e \<Rightarrow> Raise e
      | Inr (Some rr) \<Rightarrow> (case rr_output rr of
            None \<Rightarrow> Raise AssertionError
          | Some out \<Rightarrow> lift_res (ser_deserialize sz out) db)
      | Inr None \<Rightarrow> txn_bind (txn db) (\<lambda>result db1.
          (case ser_serialize sz result of
             Inl e \<Rightarrow> Raise e
           | Inr out \<Rightarrow> txn_bind (record_operation_result_txn executor_id
                (step_result wid fid name start out None) completed db1) (\<lambda>_ db2. Done result db2))))"

definition call_txn_as_step ::
  "Serializer \<Rightarrow> string option \<Rightarrow> string \<Rightarrow> int \<Rightarrow> string \<Rightarrow> (sysdb \<Rightarrow> pyval txn_result)
   \<Rightarrow> int \<Rightarrow> int \<Rightarrow> sysdb \<Rightarrow> pyval res \<times> sysdb" where
  "call_txn_as_step sz executor_id wid fid name txn start completed =
     engine_begin (call_txn_body sz executor_id wid fid name txn start completed)"

section \<open>Patches\<close>

definition get_checkpoint_name :: "string \<Rightarrow> int \<Rightarrow> sysdb \<Rightarrow> string option" where
  "get_checkpoint_name wid fid db = map_option oo_function_name (operation_row db wid fid)"

definition patch_result :: "string \<Rightarrow> int \<Rightarrow> string \<Rightarrow> int \<Rightarrow> OperationResultInternal" where
  "patch_result wid fid patch_name start = \<lparr>
     or_workflow_uuid = wid, or_function_id = fid, or_function_name = patch_name, or_output = None,
     or_error = None, or_serialization = None, or_started_at_epoch_ms = start\<rparr>"

definition patch ::
  "string option \<Rightarrow> string \<Rightarrow> int \<Rightarrow> string \<Rightarrow> int \<Rightarrow> int \<Rightarrow> sysdb \<Rightarrow> bool res \<times> sysdb" where
  "patch executor_id wid fid patch_name start completed = engine_begin (\<lambda>db.
     (case get_checkpoint_name wid fid db of
        None \<Rightarrow> txn_bind (record_operation_result_txn executor_id
                  (patch_result wid fid patch_name start) completed db) (\<lambda>_ db1. Done True db1)
      | Some checkpoint_name \<Rightarrow> Done (checkpoint_name = patch_name) db))"

definition deprecate_patch :: "string \<Rightarrow> int \<Rightarrow> string \<Rightarrow> sysdb \<Rightarrow> bool" where
  "deprecate_patch wid fid patch_name db = (get_checkpoint_name wid fid db = Some patch_name)"

section \<open>Sleeping\<close>

text \<open>
  Times in seconds. A float is a rational here, \<^verbatim>\<open>PFloat\<close> of the value domain; \<open>t1\<close> is the clock when
  the wake-up time is computed, \<open>t2\<close> when the remaining time is. The result is how long to sleep.
\<close>

definition record_sleep ::
  "codecs \<Rightarrow> Serializer \<Rightarrow> string option \<Rightarrow> string \<Rightarrow> int \<Rightarrow> rat \<Rightarrow> int \<Rightarrow> rat \<Rightarrow> int \<Rightarrow> rat \<Rightarrow> sysdb
   \<Rightarrow> rat res \<times> sysdb" where
  "record_sleep cs sz executor_id wid fid seconds start t1 completed t2 db =
     (case check_operation_execution wid fid ''DBOS.sleep'' db of
        (Inl e, db1) \<Rightarrow> (Inl e, db1)
      | (Inr (Some rr), db1) \<Rightarrow>
          (case rr_output rr of
             None \<Rightarrow> (Inl AssertionError, db1)
           | Some out \<Rightarrow>
               (case deserialize_value cs (Some out) (rr_serialization rr) sz of
                  Inl e \<Rightarrow> (Inl e, db1)
                | Inr v \<Rightarrow> (case v of
                      PFloat end_time \<Rightarrow> (Inr (max 0 (end_time - t2)), db1)
                    | PInt end_time \<Rightarrow> (Inr (max 0 (of_int end_time - t2)), db1)
                    | _ \<Rightarrow> (Inl TypeError, db1))))
      | (Inr None, db1) \<Rightarrow>
          (let end_time = t1 + seconds in
           case ser_serialize (DBOSPortableJSON cs) (PFloat end_time) of
             Inl e \<Rightarrow> (Inl e, db1)
           | Inr out \<Rightarrow>
               (case record_operation_result executor_id
                   (step_result wid fid ''DBOS.sleep'' start out (Some (ser_name (DBOSPortableJSON cs))))
                   completed db1 of
                  (Inl (DBOSWorkflowConflictIDError _), db2) \<Rightarrow> (Inr (max 0 (end_time - t2)), db2)
                | (Inl e, db2) \<Rightarrow> (Inl e, db2)
                | (Inr _, db2) \<Rightarrow> (Inr (max 0 (end_time - t2)), db2))))"

end
