(* ===== verification/DBOS_Checkpoints.thy ===== *)
theory DBOS_Checkpoints
  imports DBOS_Operations
begin

text \<open>
  What the checkpoints of \<open>DBOS_Operations\<close> give: recording is atomic, idempotent under the retries
  of \<^verbatim>\<open>db_retry\<close> and refuses a second, different recording; a recorded step, sleep or patch decision is
  replayed and never executed again. The locale \<open>checkpointed\<close> collects the once-and-only-once
  facts for operations that check, work and record in one transaction.
\<close>

section \<open>Recording\<close>

interpretation executor_upd: guarded_update "\<lambda>r. ws_workflow_uuid r = wid"
  "\<lambda>r. r\<lparr>ws_executor_id := Some e\<rparr>" for wid e
  by unfold_locales (auto intro: dedup_key_cong)

lemma reset_executor_frame [simp]:
  "operation_outputs (reset_executor ex wid w db) = operation_outputs db"
  "notifications (reset_executor ex wid w db) = notifications db"
  "workflow_events (reset_executor ex wid w db) = workflow_events db"
  "workflow_events_history (reset_executor ex wid w db) = workflow_events_history db"
  "streams (reset_executor ex wid w db) = streams db"
  "workflow_schedules (reset_executor ex wid w db) = workflow_schedules db"
  "application_versions (reset_executor ex wid w db) = application_versions db"
  "queues (reset_executor ex wid w db) = queues db"
  "workflow_ids (reset_executor ex wid w db) = workflow_ids db"
  by (simp_all add: reset_executor_def executor_upd.update_ids split: option.splits)

lemma reset_executor_inv [inv_intros]: "sysdb_inv db \<Longrightarrow> sysdb_inv (reset_executor ex wid w db)"
  by (simp add: reset_executor_def executor_upd.update_inv split: option.splits)

lemma reset_executor_other:
  "wid' \<noteq> wid \<Longrightarrow> status_row (reset_executor ex wid w db) wid' = status_row db wid'"
  using status_row_SomeD [of db wid']
  by (cases "status_row db wid'") (auto simp: reset_executor_def executor_upd.update_row split: option.splits)

lemma reset_executor_row:
  assumes "status_row db wid = Some w"
  shows "status_row (reset_executor ex wid w db) wid
    = Some (case ex of None \<Rightarrow> w | Some e \<Rightarrow> w\<lparr>ws_executor_id := Some e\<rparr>)"
  using assms status_row_SomeD [OF assms]
  by (auto simp: reset_executor_def executor_upd.update_row split: option.splits)

lemma reset_executor_idem:
  assumes "status_row db wid = Some w" "status_row (reset_executor ex wid w db) wid = Some w'"
  shows "reset_executor ex wid w' db' = db'"
proof -
  from assms have "w' = (case ex of None \<Rightarrow> w | Some e \<Rightarrow> w\<lparr>ws_executor_id := Some e\<rparr>)"
    by (simp add: reset_executor_row)
  then show ?thesis by (simp add: reset_executor_def split: option.splits)
qed

lemma operation_row_frame [simp]:
  "operation_row (db\<lparr>workflow_status := t\<rparr>) wid fid = operation_row db wid fid"
  "operation_row (reset_executor ex wid' w db) wid fid = operation_row db wid fid"
  by (simp_all add: operation_row_def)

lemma status_row_frame [simp]:
  "status_row (db\<lparr>operation_outputs := t\<rparr>) = status_row db"
  "status_row (db\<lparr>notifications := t2\<rparr>) = status_row db"
  "status_row (db\<lparr>workflow_events := t3\<rparr>) = status_row db"
  "status_row (db\<lparr>workflow_events_history := t4\<rparr>) = status_row db"
  "status_row (db\<lparr>streams := t5\<rparr>) = status_row db"
  by (auto intro: status_row_cong)

lemma operation_row_other_tables [simp]:
  "operation_row (db\<lparr>notifications := t2\<rparr>) = operation_row db"
  "operation_row (db\<lparr>workflow_events := t3\<rparr>) = operation_row db"
  "operation_row (db\<lparr>workflow_events_history := t4\<rparr>) = operation_row db"
  "operation_row (db\<lparr>streams := t5\<rparr>) = operation_row db"
  by (auto intro: operation_row_cong)

text \<open>Recording an operation that has no checkpoint appends exactly its row.\<close>

lemma record_operation_fresh:
  assumes "status_row db (or_workflow_uuid res) = Some w"
    and none: "operation_row db (or_workflow_uuid res) (or_function_id res) = None"
    and "or_error res = None \<or> or_output res = None"
  shows "record_operation_result_txn ex res t db = Done ()
    ((reset_executor ex (or_workflow_uuid res) w db)\<lparr>operation_outputs :=
       operation_outputs db @ [operation_output_of res t]\<rparr>)"
proof -
  let ?r = "operation_output_of res t"
  have new: "oo_pk ?r \<notin> oo_pk ` set (operation_outputs db)"
    using none by (simp add: operation_row_None_iff operation_output_of_def)
  have "or_workflow_uuid res \<in> set (workflow_ids db)"
    using assms(1) by (metis option.distinct(1) status_row_None_iff)
  then have ins: "insert_operation_output ?r (reset_executor ex (or_workflow_uuid res) w db)
    = Inr ((reset_executor ex (or_workflow_uuid res) w db)\<lparr>operation_outputs := operation_outputs db @ [?r]\<rparr>)"
    using new by (simp add: insert_operation_output_def insert_child_def operation_output_of_def)
  show ?thesis using assms by (auto simp: record_operation_result_txn_def Let_def ins)
qed

lemma record_operation_exists:
  assumes "status_row db (or_workflow_uuid res) = Some w"
    and "operation_row db (or_workflow_uuid res) (or_function_id res) = Some old"
    and "or_error res = None \<or> or_output res = None"
  shows "record_operation_result_txn ex res t db = (case oo_completed_at_epoch_ms old of
      None \<Rightarrow> Raise TypeError
    | Some c \<Rightarrow> if c \<noteq> t then Raise (DBOSWorkflowConflictIDError (or_workflow_uuid res))
               else Done () (reset_executor ex (or_workflow_uuid res) w db))"
  using assms by (auto simp: record_operation_result_txn_def Let_def)

lemma record_operation_result_txn_inv [inv_intros]:
  assumes "sysdb_inv db"
  shows "txn_inv (record_operation_result_txn ex res t db)"
proof -
  have "sysdb_inv db2" if "insert_operation_output r (reset_executor ex wid w db) = Inr db2" for r wid w db2
    using that assms by (blast intro: insert_operation_output_inv reset_executor_inv)
  then show ?thesis using assms
    by (auto simp: record_operation_result_txn_def Let_def reset_executor_inv
        split: option.splits sum.splits)
qed

lemma record_not_commit_raise [simp]: "record_operation_result_txn ex res t db \<noteq> CommitRaise e db'"
  by (auto simp: record_operation_result_txn_def Let_def split: option.splits sum.splits)

lemma record_operation_result_inv:
  "sysdb_inv db \<Longrightarrow> sysdb_inv (snd (record_operation_result ex res t db))"
  unfolding record_operation_result_def by (intro engine_begin_inv record_operation_result_txn_inv)

lemma record_get_result_inv:
  "sysdb_inv db \<Longrightarrow> sysdb_inv (snd (snd (record_get_result rw out err ser ctx cur db)))"
  by (auto simp: record_get_result_def Let_def split: option.splits sum.splits prod.splits if_splits
      intro: insert_operation_output_inv)

lemma record_child_workflow_inv:
  "sysdb_inv db \<Longrightarrow> sysdb_inv (snd (record_child_workflow p c f n db))"
  by (auto simp: record_child_workflow_def split: option.splits sum.splits
      intro: insert_operation_output_inv)

lemma operation_row_appended:
  "operation_row db wid fid = None \<Longrightarrow> oo_pk r = (wid, fid) \<Longrightarrow>
   operation_row (db'\<lparr>operation_outputs := operation_outputs db @ [r]\<rparr>) wid fid = Some r"
  using operation_row_append [of db r wid fid]
  by (simp add: operation_row_def)

lemma operation_row_appended_other:
  "oo_pk r \<noteq> (wid, fid) \<Longrightarrow>
   operation_row (db'\<lparr>operation_outputs := operation_outputs db @ [r]\<rparr>) wid fid = operation_row db wid fid"
  by (auto simp: operation_row_def)

text \<open>
  C20: Recording a step result is safe under retries and detects conflicts: once it was recorded,
  the same recording again (a retried transaction carries the same completion time) succeeds and
  changes nothing, while recording any result for that operation with another completion time
  raises \<open>DBOSWorkflowConflictIDError\<close> and changes nothing; the recorded row is never overwritten.
\<close>

theorem record_operation_result_idempotent:
  assumes first: "operation_row db (or_workflow_uuid res) (or_function_id res) = None"
    and ok: "record_operation_result ex res t db = (Inr (), db')"
    and other: "or_workflow_uuid res' = or_workflow_uuid res" "or_function_id res' = or_function_id res"
      "or_error res' = None \<or> or_output res' = None"
  shows "operation_row db' (or_workflow_uuid res) (or_function_id res) = Some (operation_output_of res t)
    \<and> record_operation_result ex res t db' = (Inr (), db')
    \<and> (t' \<noteq> t \<longrightarrow> record_operation_result ex res' t' db'
         = (Inl (DBOSWorkflowConflictIDError (or_workflow_uuid res)), db'))"
proof -
  let ?wid = "or_workflow_uuid res" and ?fid = "or_function_id res"
  from ok obtain w where w: "status_row db ?wid = Some w"
    and err: "or_error res = None \<or> or_output res = None"
    by (auto simp: record_operation_result_def record_operation_result_txn_def engine_begin_def
        split: option.splits if_splits)
  let ?db = "(reset_executor ex ?wid w db)\<lparr>operation_outputs := operation_outputs db @ [operation_output_of res t]\<rparr>"
  from ok have db': "db' = ?db"
    by (simp add: record_operation_result_def record_operation_fresh [OF w first err])
  have row: "operation_row db' ?wid ?fid = Some (operation_output_of res t)"
    unfolding db' using first
    by (intro operation_row_appended) (simp_all add: operation_output_of_def)
  obtain w' where w': "status_row (reset_executor ex ?wid w db) ?wid = Some w'"
    using reset_executor_row [OF w] by blast
  then have st: "status_row db' ?wid = Some w'" by (simp add: db')
  have idem: "reset_executor ex ?wid w' db' = db'" using reset_executor_idem [OF w w'] .
  have "record_operation_result ex res t db' = (Inr (), db')"
    using record_operation_exists [OF st row err, of ex t] idem
    by (simp add: record_operation_result_def operation_output_of_def)
  moreover have "record_operation_result ex res' t' db' = (Inl (DBOSWorkflowConflictIDError ?wid), db')"
    if "t' \<noteq> t"
    using record_operation_exists [of db' res' w' _ ex t'] st row other that
    by (simp add: record_operation_result_def operation_output_of_def)
  ultimately show ?thesis using row by blast
qed

theorem record_operation_result_idempotent_witness:
  "\<exists>db'. record_operation_result (Some ''local'') (step_result ''a'' 1 ''s'' 5 ''out'' None) 7
        (example_db [''a'']) = (Inr (), db')
     \<and> record_operation_result (Some ''local'') (step_result ''a'' 1 ''other'' 8 ''out2'' None) 9 db'
        = (Inl (DBOSWorkflowConflictIDError ''a''), db')"
proof -
  let ?res = "step_result ''a'' 1 ''s'' 5 ''out'' None"
  have none: "operation_row (example_db [''a'']) (or_workflow_uuid ?res) (or_function_id ?res) = None"
    by (simp add: operation_row_def example_db_def empty_sysdb_def)
  obtain db' where ok: "record_operation_result (Some ''local'') ?res 7 (example_db [''a'']) = (Inr (), db')"
    using record_operation_fresh [of "example_db [''a'']" ?res, OF _ none] example_row
    by (simp add: record_operation_result_def step_result_def)
  from record_operation_result_idempotent [OF none ok, of "step_result ''a'' 1 ''other'' 8 ''out2'' None" 9]
  show ?thesis using ok by (auto simp: step_result_def)
qed

section \<open>Operations that check, work and record in one transaction\<close>

text \<open>
  The contract: an error of the check is the operation's error; a checkpoint is replayed without
  any effect; a successful run without a checkpoint leaves one, from which the same result can be
  replayed (\<open>faithful\<close>); nothing is committed by a run that raises; the schema's constraints are kept.
\<close>

locale checkpointed =
  fixes wid :: string and fid :: int and name :: string
    and body :: "sysdb \<Rightarrow> 'a txn_result"
    and replay :: "RecordedResult \<Rightarrow> 'a res"
    and faithful :: "'a \<Rightarrow> RecordedResult \<Rightarrow> bool"
  assumes blocks: "check_operation_execution_txn wid fid name db = Inl e \<Longrightarrow> body db = Raise e"
    and replays: "check_operation_execution_txn wid fid name db = Inr (Some rr) \<Longrightarrow>
      body db = lift_res (replay rr) db"
    and records: "check_operation_execution_txn wid fid name db = Inr None \<Longrightarrow> body db = Done a db' \<Longrightarrow>
      \<exists>rr. check_operation_execution_txn wid fid name db' = Inr (Some rr) \<and> faithful a rr"
    and atomic: "check_operation_execution_txn wid fid name db = Inr None \<Longrightarrow> body db \<noteq> CommitRaise e db'"
    and keeps: "sysdb_inv db \<Longrightarrow> txn_inv (body db)"
begin

lemma replay_unchanged:
  assumes "check_operation_execution_txn wid fid name db = Inr (Some rr)"
  shows "engine_begin body db = (replay rr, db)"
  using replays [OF assms] by (cases "replay rr") (simp_all add: engine_begin_def lift_res_def)

lemma failed_unchanged:
  assumes "engine_begin body db = (Inl e, db')"
  shows "db' = db"
proof (cases "check_operation_execution_txn wid fid name db")
  case (Inl x)
  with assms blocks show ?thesis by (simp add: engine_begin_def)
next
  case (Inr c)
  show ?thesis
  proof (cases c)
    case None
    with Inr assms atomic show ?thesis by (auto simp: engine_begin_def split: txn_result.splits)
  next
    case (Some rr)
    with Inr replay_unchanged assms show ?thesis by simp
  qed
qed

lemma succeeded_recorded:
  assumes "engine_begin body db = (Inr a, db')"
  shows "\<exists>rr. check_operation_execution_txn wid fid name db' = Inr (Some rr)
    \<and> (if check_operation_execution_txn wid fid name db = Inr None then faithful a rr
       else db' = db \<and> replay rr = Inr a)"
proof (cases "check_operation_execution_txn wid fid name db")
  case (Inl x)
  with assms blocks show ?thesis by (simp add: engine_begin_def)
next
  case (Inr c)
  show ?thesis
  proof (cases c)
    case None
    with Inr assms have "body db = Done a db'" by (auto simp: engine_begin_def split: txn_result.splits)
    with None Inr records show ?thesis by simp
  next
    case (Some rr)
    with Inr replay_unchanged assms show ?thesis by auto
  qed
qed

lemma rerun:
  assumes "engine_begin body db = (Inr a, db')"
  shows "\<exists>rr. engine_begin body db' = (replay rr, db')
    \<and> (check_operation_execution_txn wid fid name db = Inr None \<longrightarrow> faithful a rr)"
  using succeeded_recorded [OF assms] replay_unchanged by (metis (full_types))

lemma rerun_many:
  assumes "engine_begin body db = (Inr a, db')"
  shows "((\<lambda>d. snd (engine_begin body d)) ^^ n) db' = db'"
proof (induction n)
  case (Suc n)
  from rerun [OF assms] have "snd (engine_begin body db') = db'" by auto
  with Suc show ?case by (simp add: funpow_swap1)
qed simp

lemma cancelled_refused:
  assumes "status_row db wid = Some w" "ws_status w = CANCELLED"
  shows "engine_begin body db = (Inl (DBOSWorkflowCancelledError wid), db)"
  using blocks [of db "DBOSWorkflowCancelledError wid"] assms
  by (simp add: check_operation_execution_txn_def engine_begin_def)

lemma run_inv: "sysdb_inv db \<Longrightarrow> sysdb_inv (snd (engine_begin body db))"
  by (intro engine_begin_inv keeps)

end

text \<open>How a check sees a database after the operation was recorded.\<close>

lemma check_None_iff:
  "check_operation_execution_txn wid fid name db = Inr None \<longleftrightarrow>
   (\<exists>w. status_row db wid = Some w \<and> ws_status w \<noteq> CANCELLED) \<and> operation_row db wid fid = None"
  by (auto simp: check_operation_execution_txn_def split: option.splits if_splits)

lemma check_Some_iff:
  "check_operation_execution_txn wid fid name db = Inr (Some rr) \<longleftrightarrow>
   (\<exists>w. status_row db wid = Some w \<and> ws_status w \<noteq> CANCELLED)
   \<and> (\<exists>r. operation_row db wid fid = Some r \<and> oo_function_name r = name \<and> rr = recorded_result r)"
  by (auto simp: check_operation_execution_txn_def split: option.splits if_splits)

text \<open>Recording as the last statement of a transaction whose check found no checkpoint.\<close>

lemma record_last:
  assumes check: "check_operation_execution_txn (or_workflow_uuid res) (or_function_id res) name db0 = Inr None"
    and live: "status_row db (or_workflow_uuid res) = status_row db0 (or_workflow_uuid res)"
    and outs: "operation_outputs db = operation_outputs db0"
    and name: "or_function_name res = name" and err: "or_error res = None \<or> or_output res = None"
  shows "\<exists>db'. record_operation_result_txn ex res t db = Done () db'
    \<and> check_operation_execution_txn (or_workflow_uuid res) (or_function_id res) name db'
      = Inr (Some (recorded_result (operation_output_of res t)))
    \<and> (\<exists>w. db' = (reset_executor ex (or_workflow_uuid res) w db)\<lparr>operation_outputs :=
         operation_outputs db0 @ [operation_output_of res t]\<rparr>)"
proof -
  let ?wid = "or_workflow_uuid res"
  from check live obtain w where w: "status_row db ?wid = Some w" "ws_status w \<noteq> CANCELLED"
    by (auto simp: check_None_iff)
  have none: "operation_row db ?wid (or_function_id res) = None"
    using check outs operation_row_cong by (metis check_None_iff)
  let ?db = "(reset_executor ex ?wid w db)\<lparr>operation_outputs :=
         operation_outputs db0 @ [operation_output_of res t]\<rparr>"
  have "operation_row ?db ?wid (or_function_id res) = Some (operation_output_of res t)"
    unfolding outs [symmetric] by (rule operation_row_appended [OF none]) (simp add: operation_output_of_def)
  moreover have "\<exists>w'. status_row ?db ?wid = Some w' \<and> ws_status w' \<noteq> CANCELLED"
    using w by (simp add: reset_executor_row split: option.splits)
  ultimately have "check_operation_execution_txn ?wid (or_function_id res) name ?db
      = Inr (Some (recorded_result (operation_output_of res t)))"
    unfolding check_Some_iff using name by (auto simp: operation_output_of_def)
  then show ?thesis using record_operation_fresh [OF w(1) none err] outs by auto
qed

section \<open>Replay of steps, sleeps and patches\<close>

text \<open>A later database in which a checkpoint still stands and the workflow is not cancelled.\<close>

definition checkpoint_stands :: "string \<Rightarrow> int \<Rightarrow> sysdb \<Rightarrow> sysdb \<Rightarrow> bool" where
  "checkpoint_stands wid fid db db' \<longleftrightarrow> operation_row db' wid fid = operation_row db wid fid
     \<and> (case status_row db' wid of None \<Rightarrow> False | Some w \<Rightarrow> ws_status w \<noteq> CANCELLED)"

lemma checkpoint_stands_check:
  assumes "checkpoint_stands wid fid db db'" "operation_row db wid fid = Some r" "oo_function_name r = name"
  shows "check_operation_execution wid fid name db' = (Inr (Some (recorded_result r)), db')"
proof -
  from assms have "check_operation_execution_txn wid fid name db' = Inr (Some (recorded_result r))"
    unfolding check_Some_iff by (auto simp: checkpoint_stands_def split: option.splits)
  then show ?thesis by (simp add: check_operation_execution_def engine_begin_def lift_res_def)
qed

lemma check_operation_execution_None:
  "check_operation_execution_txn wid fid name db = Inr None \<Longrightarrow>
   check_operation_execution wid fid name db = (Inr None, db)"
  by (simp add: check_operation_execution_def engine_begin_def lift_res_def)

lemma record_operation_result_row:
  assumes "record_operation_result ex res t db = (Inr (), db')"
    and "operation_row db (or_workflow_uuid res) (or_function_id res) = None"
  shows "operation_row db' (or_workflow_uuid res) (or_function_id res) = Some (operation_output_of res t)"
proof -
  from assms(1) obtain w where w: "status_row db (or_workflow_uuid res) = Some w"
    and err: "or_error res = None \<or> or_output res = None"
    by (auto simp: record_operation_result_def record_operation_result_txn_def engine_begin_def
        split: option.splits if_splits)
  from assms record_operation_fresh [OF w assms(2) err, of ex t] show ?thesis
    by (auto simp: record_operation_result_def operation_output_of_def intro!: operation_row_appended)
qed

text \<open>
  A function run as a step of a workflow runs once: if it ran and returned \<open>v\<close>, then on any
  later replay (in a database where the checkpoint still stands and the workflow is not cancelled)
  the step does not run the function again, changes nothing, and returns the recorded value: \<open>v\<close>
  itself, or its portable form if the configured serializer is the portable one.
\<close>

theorem call_function_as_step_once:
  assumes c: "is_workflow c" and law: "codecs_law cs sz"
    and fresh: "check_operation_execution_txn (cx_workflow_id c) (cx_function_id c) name db = Inr None"
    and fn: "fn db = (Inr v, db1)" "operation_row db1 (cx_workflow_id c) (cx_function_id c) = None"
    and run: "call_function_as_step cs sz ex fn name (Some c) s t db = (Inr v, db')"
    and later: "checkpoint_stands (cx_workflow_id c) (cx_function_id c) db' db''"
  shows "\<exists>v'. (\<forall>ex' fn' s' t'. call_function_as_step cs sz ex' fn' name (Some c) s' t' db'' = (Inr v', db''))
    \<and> (if ser_name sz = ''portable_json'' then portableify v = Inr v' else v' = v)"
proof -
  let ?wid = "cx_workflow_id c" and ?fid = "cx_function_id c"
  have nt: "\<not> is_transaction c" using c by (simp add: is_workflow_def)
  from run c nt fn obtain out ser where ser: "serialize_value cs v None sz = Inr (out, ser)"
    and rec: "record_operation_result ex (step_result ?wid ?fid name s out (Some ser)) t db1 = (Inr (), db')"
    by (auto simp: call_function_as_step_def check_operation_execution_None [OF fresh]
        split: sum.splits prod.splits)
  let ?row = "operation_output_of (step_result ?wid ?fid name s out (Some ser)) t"
  have row: "operation_row db' ?wid ?fid = Some ?row"
    using record_operation_result_row [OF rec] fn(2) by (simp add: step_result_def)
  have rr: "rr_output (recorded_result ?row) = Some out" "rr_serialization (recorded_result ?row) = Some ser"
    by (simp_all add: recorded_result_def operation_output_of_def step_result_def)
  have n: "ser = ser_name sz" using ser
    by (auto simp: serialize_value_def serialize_value_as_def serialization_for_type_def res_bind_Inr_iff
        split: if_splits)
  from deserialize_serialize [OF law ser [unfolded serialize_value_def]] obtain v' where
    v': "deserialize_value cs (Some out) (Some ser) sz = Inr v'"
      "if ser = ''portable_json'' then portableify v = Inr v' else v' = v" by auto
  have "check_operation_execution ?wid ?fid name db'' = (Inr (Some (recorded_result ?row)), db'')"
    by (rule checkpoint_stands_check [OF later row]) (simp add: operation_output_of_def step_result_def)
  then have "call_function_as_step cs sz ex' fn' name (Some c) s' t' db'' = (Inr v', db'')" for ex' fn' s' t'
    using c nt v'(1) by (simp add: call_function_as_step_def replay_step_def rr)
  with v'(2) n show ?thesis by auto
qed

definition example_ctx :: "string \<Rightarrow> DBOSContext" where
  "example_ctx wid = (start_workflow ''u'' (Some wid) (new_context ''local'' ''app''))\<lparr>cx_function_id := 1\<rparr>"

lemma example_check:
  "check_operation_execution_txn ''a'' fid name (example_db [''a'']) = Inr None"
  by (simp add: check_None_iff example_row)
     (simp add: example_db_def empty_sysdb_def operation_row_def new_status_row_def example_status_def)

theorem call_function_as_step_once_witness:
  "\<exists>db'. call_function_as_step example_codecs (DBOSDefaultSerializer example_codecs) None
        (\<lambda>d. (Inr (PInt 42), d)) ''step'' (Some (example_ctx ''a'')) 20 21 (example_db [''a'']) = (Inr (PInt 42), db')
     \<and> (\<forall>fn'. call_function_as_step example_codecs (DBOSDefaultSerializer example_codecs) None
        fn' ''step'' (Some (example_ctx ''a'')) 30 31 db' = (Inr (PInt 42), db'))"
proof -
  let ?sz = "DBOSDefaultSerializer example_codecs"
  let ?c = "example_ctx ''a''" and ?fn = "\<lambda>d::sysdb. (Inr (PInt 42) :: pyval res, d)"
  let ?res = "step_result ''a'' 1 ''step'' 20 ''pickle-42'' (Some ''py_pickle'')"
  have c: "is_workflow ?c" "cx_workflow_id ?c = ''a''" "cx_function_id ?c = 1" "\<not> is_transaction ?c"
    by (simp_all add: example_ctx_def start_workflow_def new_context_def is_workflow_def is_step_def
        is_transaction_def)
  have fresh: "check_operation_execution_txn (cx_workflow_id ?c) (cx_function_id ?c) ''step'' (example_db [''a'']) = Inr None"
    by (simp add: c example_check)
  have none: "operation_row (example_db [''a'']) (cx_workflow_id ?c) (cx_function_id ?c) = None"
    using fresh by (simp add: check_None_iff)
  have ser: "serialize_value example_codecs (PInt 42) None ?sz = Inr (''pickle-42'', ''py_pickle'')"
    by (simp add: serialize_value_def serialize_value_as_def serialization_for_type_def
        DBOSDefaultSerializer_def DBOSPortableJSON_def example_codecs_def)
  obtain db' where rec: "record_operation_result None ?res 21 (example_db [''a'']) = (Inr (), db')"
    using record_operation_fresh [of "example_db [''a'']" ?res] none c example_row
    by (simp add: record_operation_result_def step_result_def)
  have run: "call_function_as_step example_codecs ?sz None ?fn ''step'' (Some ?c) 20 21 (example_db [''a''])
      = (Inr (PInt 42), db')"
    using c rec check_operation_execution_None [OF fresh] by (simp add: call_function_as_step_def ser)
  have "status_row db' ''a'' = status_row (example_db [''a'']) ''a''"
    using record_operation_fresh [of "example_db [''a'']" ?res] none c example_row rec
    by (auto simp: record_operation_result_def step_result_def reset_executor_def)
  then have "checkpoint_stands (cx_workflow_id ?c) (cx_function_id ?c) db' db'"
    using example_row by (simp add: checkpoint_stands_def c) (simp add: new_status_row_def example_status_def)
  from call_function_as_step_once [OF c(1) example_codecs_law fresh refl none run this] run
  show ?thesis by auto
qed

text \<open>
  C21: A durable sleep wakes at one fixed time: the first execution records the wake-up time
  \<open>t1 + seconds\<close>; a replay at any clock \<open>t2'\<close>, in a database where the checkpoint still stands, sleeps
  only what is left of it (nothing once it has passed), whatever duration the replay asks for, and
  records nothing new.
\<close>

theorem record_sleep_durable:
  assumes law: "codecs_law cs sz"
    and fresh: "check_operation_execution_txn wid fid ''DBOS.sleep'' db = Inr None"
    and run: "record_sleep cs sz ex wid fid secs s t1 t t2 db = (Inr d, db')"
    and later: "checkpoint_stands wid fid db' db''"
  shows "d = max 0 (t1 + secs - t2)
    \<and> record_sleep cs sz ex' wid fid secs' s' t1' t' t2' db'' = (Inr (max 0 (t1 + secs - t2')), db'')"
proof -
  let ?P = "DBOSPortableJSON cs"
  have none: "operation_row db wid fid = None" using fresh by (simp add: check_None_iff)
  from fresh obtain w where w: "status_row db wid = Some w" by (auto simp: check_None_iff)
  from run obtain out where out: "ser_serialize ?P (PFloat (t1 + secs)) = Inr out"
    by (auto simp: record_sleep_def check_operation_execution_None [OF fresh] Let_def split: sum.splits)
  let ?res = "step_result wid fid ''DBOS.sleep'' s out (Some ''portable_json'')"
  obtain db1 where rec: "record_operation_result ex ?res t db = (Inr (), db1)"
    using record_operation_fresh [of db ?res] none w
    by (simp add: record_operation_result_def step_result_def)
  with run out have d: "d = max 0 (t1 + secs - t2)" and db1: "db1 = db'"
    by (auto simp: record_sleep_def check_operation_execution_None [OF fresh] Let_def)
  let ?row = "operation_output_of ?res t"
  have row: "operation_row db' wid fid = Some ?row"
    using record_operation_result_row [OF rec] none db1 by (simp add: step_result_def)
  have check: "check_operation_execution wid fid ''DBOS.sleep'' db'' = (Inr (Some (recorded_result ?row)), db'')"
    by (rule checkpoint_stands_check [OF later row]) (simp add: operation_output_of_def step_result_def)
  have rr: "rr_output (recorded_result ?row) = Some out"
    "rr_serialization (recorded_result ?row) = Some ''portable_json''"
    by (simp_all add: recorded_result_def operation_output_of_def step_result_def)
  have "json_loads cs out = Inr (PFloat (t1 + secs))"
    using out law by (auto simp: DBOSPortableJSON_def codecs_law_def codec_law_def)
  then have "deserialize_value cs (Some out) (Some ''portable_json'') sz = Inr (PFloat (t1 + secs))"
    by (simp add: deserialize_value_def) (simp add: DBOSPortableJSON_def)
  then show ?thesis using d by (simp add: record_sleep_def check rr)
qed

definition sleep_codecs :: codecs where
  "sleep_codecs = example_codecs\<lparr>
     json_dumps := (\<lambda>v. if v = PFloat 15 then Inr ''15.0'' else Inl TypeError),
     json_loads := (\<lambda>s. if s = ''15.0'' then Inr (PFloat 15) else Inl TypeError)\<rparr>"

lemma sleep_codecs_law: "codecs_law sleep_codecs (DBOSDefaultSerializer sleep_codecs)"
  by (auto simp: codecs_law_def codec_law_def sleep_codecs_def example_codecs_def
      DBOSDefaultSerializer_def split: if_splits)

theorem record_sleep_durable_witness:
  "\<exists>db'. record_sleep sleep_codecs (DBOSDefaultSerializer sleep_codecs) None ''a'' 1 5 10000 10 10000 10
        (example_db [''a'']) = (Inr 5, db')
     \<and> record_sleep sleep_codecs (DBOSDefaultSerializer sleep_codecs) None ''a'' 1 5 12000 12 12000 12 db'
        = (Inr 3, db')"
proof -
  let ?sz = "DBOSDefaultSerializer sleep_codecs"
  let ?res = "step_result ''a'' 1 ''DBOS.sleep'' 10000 ''15.0'' (Some ''portable_json'')"
  note fresh = example_check [of 1 "''DBOS.sleep''"]
  obtain db' where rec: "record_operation_result None ?res 10000 (example_db [''a'']) = (Inr (), db')"
    and st: "status_row db' ''a'' = status_row (example_db [''a'']) ''a''"
    using record_operation_fresh [of "example_db [''a'']" ?res, where ex = None and t = 10000] fresh example_row
    by (auto simp: record_operation_result_def step_result_def check_None_iff reset_executor_def)
  have out: "ser_serialize (DBOSPortableJSON sleep_codecs) (PFloat 15) = Inr ''15.0''"
    by (simp add: DBOSPortableJSON_def sleep_codecs_def)
  have run: "record_sleep sleep_codecs ?sz None ''a'' 1 5 10000 10 10000 10 (example_db [''a'']) = (Inr 5, db')"
    using rec by (simp add: record_sleep_def check_operation_execution_None [OF fresh] Let_def out)
  have "checkpoint_stands ''a'' 1 db' db'"
    using st example_row by (simp add: checkpoint_stands_def) (simp add: new_status_row_def example_status_def)
  from record_sleep_durable [OF sleep_codecs_law fresh run this, of None 5 12000 12 12000 12] run
  show ?thesis by auto
qed

text \<open>
  A patch decision is stable: \<open>patch\<close> says True exactly when the workflow had no checkpoint at
  this point of its history (then the marker is recorded) or the checkpoint is this patch's marker,
  and in every later database where that checkpoint stands, \<open>patch\<close> and \<open>deprecate_patch\<close> repeat the
  answer and record nothing.
\<close>

theorem patch_stable:
  assumes run: "patch ex wid fid pname s t db = (Inr b, db')"
    and later: "operation_row db'' wid fid = operation_row db' wid fid"
  shows "(b \<longleftrightarrow> get_checkpoint_name wid fid db = None \<or> get_checkpoint_name wid fid db = Some pname)
    \<and> patch ex' wid fid pname s' t' db'' = (Inr b, db'')
    \<and> deprecate_patch wid fid pname db'' = b"
proof (cases "operation_row db wid fid")
  case None
  let ?res = "patch_result wid fid pname s"
  from run None have rec: "record_operation_result ex ?res t db = (Inr (), db')" and b: "b"
    by (auto simp: patch_def get_checkpoint_name_def record_operation_result_def engine_begin_def
        split: txn_result.splits elim!: txn_bind.elims)
  have "operation_row db' wid fid = Some (operation_output_of ?res t)"
    using record_operation_result_row [OF rec] None by (simp add: patch_result_def)
  then have "get_checkpoint_name wid fid db'' = Some pname"
    using later by (simp add: get_checkpoint_name_def operation_output_of_def patch_result_def)
  moreover from this have "patch ex' wid fid pname s' t' db'' = (Inr True, db'')"
    by (simp add: patch_def engine_begin_def)
  ultimately show ?thesis using None b by (simp add: deprecate_patch_def) (simp add: get_checkpoint_name_def)
next
  case (Some r)
  with run have "db' = db" "b = (oo_function_name r = pname)"
    by (auto simp: patch_def get_checkpoint_name_def engine_begin_def)
  with Some later show ?thesis
    by (auto simp: patch_def get_checkpoint_name_def deprecate_patch_def engine_begin_def)
qed

theorem patch_stable_witness:
  "\<exists>db'. patch None ''a'' 1 ''DBOS.patch-p'' 20 21 (example_db [''a'']) = (Inr True, db')
    \<and> deprecate_patch ''a'' 1 ''DBOS.patch-p'' db'"
proof -
  let ?res = "patch_result ''a'' 1 ''DBOS.patch-p'' 20"
  have none: "operation_row (example_db [''a'']) ''a'' 1 = None"
    using example_check [of 1] by (simp add: check_None_iff)
  obtain db' where "record_operation_result_txn None ?res 21 (example_db [''a'']) = Done () db'"
    using record_operation_fresh [of "example_db [''a'']" ?res, where ex = None and t = 21] none example_row
    by (auto simp: patch_result_def)
  then have run: "patch None ''a'' 1 ''DBOS.patch-p'' 20 21 (example_db [''a'']) = (Inr True, db')"
    using none by (simp add: patch_def get_checkpoint_name_def engine_begin_def)
  from patch_stable [OF run refl] run show ?thesis by auto
qed

text \<open>
  A child workflow is recorded once: after \<open>record_child_workflow\<close> succeeded, the parent's
  checkpoint names that child, recording the same child again is a no-op, and recording another
  child at the same point raises \<open>DBOSWorkflowConflictIDError\<close> and changes nothing.
\<close>

theorem record_child_workflow_once:
  assumes run: "record_child_workflow parent child fid name db = (Inr (), db')"
    and other: "child' \<noteq> child" "child' \<noteq> []"
  shows "(\<exists>r. operation_row db' parent fid = Some r \<and> oo_child_workflow_id r = Some child)
    \<and> record_child_workflow parent child fid name db' = (Inr (), db')
    \<and> record_child_workflow parent child' fid name' db' = (Inl (DBOSWorkflowConflictIDError parent), db')"
proof -
  have "child \<noteq> []" using run by (auto simp: record_child_workflow_def)
  have "\<exists>r. operation_row db' parent fid = Some r \<and> oo_child_workflow_id r = Some child"
  proof (cases "operation_row db parent fid")
    case None
    then have db': "db' = db\<lparr>operation_outputs := operation_outputs db @ [child_row parent child fid name]\<rparr>"
      using run
      by (auto simp: record_child_workflow_def insert_operation_output_def insert_child_def
          split: if_splits)
    have "operation_row db' parent fid = Some (child_row parent child fid name)"
      unfolding db' using None by (rule operation_row_appended) (simp add: child_row_def)
    then show ?thesis by (simp add: child_row_def)
  next
    case (Some r)
    then have "oo_pk (child_row parent child fid name) \<in> oo_pk ` set (operation_outputs db)"
      by (force dest: operation_row_SomeD simp: child_row_def)
    with Some run show ?thesis
      by (auto simp: record_child_workflow_def insert_operation_output_def insert_child_def
          split: if_splits)
  qed
  then obtain r where r: "operation_row db' parent fid = Some r" "oo_child_workflow_id r = Some child" by blast
  have ins: "insert_operation_output (child_row parent x fid n) db' = Inl UniqueViolation" for x n
  proof -
    have "oo_pk (child_row parent x fid n) \<in> oo_pk ` set (operation_outputs db')"
      using operation_row_SomeD [OF r(1)] by (force simp: child_row_def)
    then show ?thesis by (simp add: insert_operation_output_def insert_child_def)
  qed
  show ?thesis using r \<open>child \<noteq> []\<close> other by (simp add: record_child_workflow_def ins)
qed

theorem record_child_workflow_once_witness:
  "\<exists>db'. record_child_workflow ''a'' ''a-1'' 1 ''child'' (example_db [''a'']) = (Inr (), db')
    \<and> record_child_workflow ''a'' ''other'' 1 ''child'' db' = (Inl (DBOSWorkflowConflictIDError ''a''), db')"
proof -
  obtain db' where run: "record_child_workflow ''a'' ''a-1'' 1 ''child'' (example_db [''a'']) = (Inr (), db')"
    by (simp add: record_child_workflow_def insert_operation_output_def insert_child_def child_row_def
        example_db_def empty_sysdb_def workflow_ids_def new_status_row_def example_status_def)
  from record_child_workflow_once [OF run, of "''other''" "''child''"] run show ?thesis by simp
qed

end
