(* ===== verification/DBOS_Children.thy ===== *)
theory DBOS_Children
  imports DBOS_Status_Lifecycle
begin

text \<open>
  Walks over the workflow forests (\<^verbatim>\<open>dbos/_sys_db.py\<close>): the parent-child forest
  (\<open>get_workflow_children\<close>, and \<open>cancel_workflows\<close> with its cascade) and the fork forest
  (\<open>find_fork_descendants_txn\<close>). The code walks both level by level with one query per level. The
  locale \<open>level_search\<close> states what such a query promises and proves once that the walk terminates
  and visits exactly what is reachable; it is interpreted on both queries.
\<close>

section \<open>Level-by-level search\<close>

locale level_search =
  fixes succ :: "'a list \<Rightarrow> 'a list" and universe :: "'a set"
  assumes finite_universe: "finite universe"
    and succ_universe: "set (succ xs) \<subseteq> universe"
    and succ_pointwise: "set (succ xs) = (\<Union>x \<in> set xs. set (succ [x]))"
begin

definition edge :: "('a \<times> 'a) set" where
  "edge = {(x, y). y \<in> set (succ [x])}"

lemma succ_edge: "y \<in> set (succ xs) \<longleftrightarrow> (\<exists>x \<in> set xs. (x, y) \<in> edge)"
  using succ_pointwise [of xs] by (auto simp: edge_def)

lemma level_measure:
  assumes "set new = set (succ F) - V" "F \<noteq> []"
  shows "card (universe - (V \<union> set new)) + (if new = [] then 0 else 1)
    < card (universe - V) + (if F = [] then 0 else (1::nat))"
proof (cases "new = []")
  case False
  then obtain c where c: "c \<in> set new" by (cases new) auto
  with assms succ_universe have "c \<in> universe - V" by auto
  then have "universe - (V \<union> set new) \<subset> universe - V" using c by blast
  with finite_universe have "card (universe - (V \<union> set new)) < card (universe - V)"
    by (simp add: psubset_card_mono)
  with False assms(2) show ?thesis by simp
qed (use assms in simp)

text \<open>What has been visited (\<open>V\<close>) and what is still to be expanded (\<open>F\<close>), from the roots \<open>S\<close>.\<close>

definition visiting :: "'a set \<Rightarrow> 'a list \<Rightarrow> 'a set \<Rightarrow> bool" where
  "visiting S F V \<longleftrightarrow> set F \<subseteq> S \<union> V \<and> V \<subseteq> edge\<^sup>+ `` S
     \<and> (\<forall>x \<in> S \<union> V. x \<notin> set F \<longrightarrow> (\<forall>y. (x, y) \<in> edge \<longrightarrow> y \<in> S \<union> V))"

lemma visiting_start: "set F = S \<Longrightarrow> visiting S F {}"
  by (auto simp: visiting_def)

lemma visiting_step:
  assumes vis: "visiting S F V" and V': "set F' \<subseteq> set (succ F)"
    and new: "set (succ F) \<subseteq> S \<union> V \<union> set F'"
  shows "visiting S F' (V \<union> set F')"
proof -
  have reach: "y \<in> edge\<^sup>+ `` S" if y: "y \<in> set (succ F)" for y
  proof -
    from y obtain x where x: "x \<in> set F" "(x, y) \<in> edge" by (auto simp: succ_edge)
    from vis x(1) have "x \<in> S \<or> x \<in> edge\<^sup>+ `` S" unfolding visiting_def by blast
    with x(2) show ?thesis by (auto intro: trancl.trancl_into_trancl)
  qed
  have "(x, y) \<in> edge \<Longrightarrow> y \<in> S \<union> (V \<union> set F')"
    if "x \<in> S \<union> (V \<union> set F')" "x \<notin> set F'" for x y
  proof (cases "x \<in> set F")
    case True
    assume "(x, y) \<in> edge"
    with True have "y \<in> set (succ F)" by (auto simp: succ_edge)
    with new show ?thesis by blast
  next
    case False
    assume "(x, y) \<in> edge"
    with False that vis show ?thesis unfolding visiting_def by blast
  qed
  moreover have "V \<subseteq> edge\<^sup>+ `` S" "set F' \<subseteq> edge\<^sup>+ `` S"
    using vis V' reach unfolding visiting_def by blast+
  ultimately show ?thesis unfolding visiting_def by auto
qed

lemma visiting_done:
  assumes "visiting S [] V"
  shows "S \<union> V = edge\<^sup>* `` S"
proof
  have "edge\<^sup>+ `` S \<subseteq> edge\<^sup>* `` S" by (auto intro: trancl_into_rtrancl)
  then show "S \<union> V \<subseteq> edge\<^sup>* `` S" using assms unfolding visiting_def by blast
  have "y \<in> S \<union> V" if "(x, y) \<in> edge\<^sup>*" "x \<in> S" for x y
    using that
  proof (induction rule: rtrancl_induct)
    case (step y z)
    with assms show ?case unfolding visiting_def by auto
  qed simp
  then show "edge\<^sup>* `` S \<subseteq> S \<union> V" by blast
qed

end

section \<open>The parent-child forest\<close>

definition get_direct_children :: "string list \<Rightarrow> sysdb \<Rightarrow> string list" where
  "get_direct_children ids db = (if ids = [] then []
     else map ws_workflow_uuid (filter (\<lambda>r. sql_in (ws_parent_workflow_id r) ids) (workflow_status db)))"

text \<open>A workflow's parent, as the status table records it.\<close>

definition child_edge :: "sysdb \<Rightarrow> (string \<times> string) set" where
  "child_edge db = {(p, c). \<exists>r \<in> set (workflow_status db).
     ws_workflow_uuid r = c \<and> ws_parent_workflow_id r = Some p}"

lemma set_get_direct_children:
  "set (get_direct_children ids db) = {c. \<exists>p \<in> set ids. (p, c) \<in> child_edge db}"
proof (cases "ids = []")
  case False
  have "sql_in p ids \<longleftrightarrow> (\<exists>x \<in> set ids. p = Some x)" for p
    by (cases p) (auto simp: sql_in_def)
  with False show ?thesis by (auto simp: get_direct_children_def child_edge_def)
qed (simp add: get_direct_children_def)

lemma direct_children_ids: "set (get_direct_children ids db) \<subseteq> set (workflow_ids db)"
  by (auto simp: set_get_direct_children child_edge_def workflow_ids_def)

interpretation kids: level_search "\<lambda>ids. get_direct_children ids db" "set (workflow_ids db)" for db
  by unfold_locales (use direct_children_ids in \<open>auto simp: set_get_direct_children\<close>)

lemma kids_edge [simp]: "kids.edge db = child_edge db"
  unfolding kids.edge_def by (auto simp: set_get_direct_children)

function children_loop :: "sysdb \<Rightarrow> string list \<Rightarrow> string set \<Rightarrow> string set" where
  "children_loop db frontier descendants =
     (if frontier = [] then descendants
      else let frontier' = filter (\<lambda>c. c \<notin> descendants) (get_direct_children frontier db)
           in children_loop db frontier' (descendants \<union> set frontier'))"
  by pat_completeness auto
termination
  by (relation "measure (\<lambda>(db, f, d). card (set (workflow_ids db) - d) + (if f = [] then 0 else 1))")
     (use kids.level_measure in \<open>auto simp: set_diff_eq\<close>)

declare children_loop.simps [simp del]

text \<open>The result is a Python set turned into a list, in no particular order: the set here.\<close>

definition get_workflow_children :: "string \<Rightarrow> sysdb \<Rightarrow> string set" where
  "get_workflow_children wid db = children_loop db [wid] {}"

lemma children_loop_reaches:
  assumes "set F \<subseteq> S \<union> D" "D \<subseteq> (child_edge db)\<^sup>+ `` S"
    and "\<forall>x \<in> S \<union> D. x \<notin> set F \<longrightarrow> (\<forall>y. (x, y) \<in> child_edge db \<longrightarrow> y \<in> D)"
  shows "children_loop db F D = (child_edge db)\<^sup>+ `` S"
  using assms
proof (induction db F D rule: children_loop.induct)
  case (1 db F D)
  show ?case
  proof (cases "F = []")
    case True
    have "y \<in> D" if "(x, y) \<in> (child_edge db)\<^sup>+" "x \<in> S" for x y
      using that by (induction rule: trancl_induct) (use "1.prems"(3) True in auto)
    with "1.prems"(2) True show ?thesis by (auto simp: children_loop.simps)
  next
    case False
    define F' where "F' = filter (\<lambda>c. c \<notin> D) (get_direct_children F db)"
    have F': "y \<in> D \<union> set F' \<longleftrightarrow> y \<in> D \<or> (\<exists>x \<in> set F. (x, y) \<in> child_edge db)" for y
      by (auto simp: F'_def set_get_direct_children)
    have in_reach: "y \<in> (child_edge db)\<^sup>+ `` S" if "x \<in> set F" "(x, y) \<in> child_edge db" for x y
      using that "1.prems"(1,2) by (blast intro: trancl.intros)
    have "set F' \<subseteq> S \<union> (D \<union> set F')" by blast
    moreover have "D \<union> set F' \<subseteq> (child_edge db)\<^sup>+ `` S"
      using F' in_reach "1.prems"(2) by blast
    moreover have "\<forall>x \<in> S \<union> (D \<union> set F'). x \<notin> set F' \<longrightarrow> (\<forall>y. (x, y) \<in> child_edge db \<longrightarrow> y \<in> D \<union> set F')"
      using "1.prems"(3) F' by blast
    ultimately have "children_loop db F' (D \<union> set F') = (child_edge db)\<^sup>+ `` S"
      using "1.IH" [OF False F'_def] by blast
    then show ?thesis using False by (subst children_loop.simps) (simp add: Let_def F'_def)
  qed
qed

text \<open>
  \<open>get_workflow_children\<close> always returns, and it returns exactly the workflows reachable from
  the given one over one or more recorded parent links, whatever the shape of the recorded links
  (also if they are cyclic).
\<close>

theorem get_workflow_children_correct:
  "get_workflow_children wid db = {c. (wid, c) \<in> (child_edge db)\<^sup>+}"
  unfolding get_workflow_children_def
  by (subst children_loop_reaches [where S = "{wid}"]) auto

section \<open>Cancellation\<close>

lemma cancel_batch_ids [simp]: "workflow_ids (cancel_batch now ids db) = workflow_ids db"
  by (simp add: cancel_batch_def cancel_upd.update_ids)

text \<open>\<open>clock k\<close> is the database's time when level \<open>k\<close> is cancelled.\<close>

function cancel_loop ::
  "(nat \<Rightarrow> int) \<Rightarrow> nat \<Rightarrow> string list \<Rightarrow> string set \<Rightarrow> sysdb \<Rightarrow> sysdb" where
  "cancel_loop clock k frontier visited db =
     (if frontier = [] then db
      else let db1 = cancel_batch (clock k) frontier db;
               children = get_direct_children frontier db1;
               frontier' = filter (\<lambda>c. c \<notin> visited) children
           in cancel_loop clock (Suc k) frontier' (visited \<union> set frontier') db1)"
  by pat_completeness auto
termination
proof (relation "measure (\<lambda>(c, k, f, v, db). card (set (workflow_ids db) - v) + (if f = [] then 0 else 1))")
  fix clock :: "nat \<Rightarrow> int" and k frontier visited db db1 children frontier'
  assume "frontier \<noteq> []" "db1 = cancel_batch (clock k) frontier db"
    "children = get_direct_children frontier db1" "frontier' = filter (\<lambda>c. c \<notin> visited) children"
  then show "((clock, Suc k, frontier', visited \<union> set frontier', db1), clock, k, frontier, visited, db)
    \<in> measure (\<lambda>(c, k, f, v, db). card (set (workflow_ids db) - v) + (if f = [] then 0 else 1))"
    using kids.level_measure [of frontier' frontier db1 visited] by (auto simp: set_diff_eq)
qed simp

declare cancel_loop.simps [simp del]

definition cancel_workflows :: "(nat \<Rightarrow> int) \<Rightarrow> string list \<Rightarrow> bool \<Rightarrow> sysdb \<Rightarrow> sysdb" where
  "cancel_workflows clock ids cancel_children db =
     (if \<not> cancel_children then cancel_batch (clock 0) ids db
      else cancel_loop clock 0 ids (set ids) db)"

lemma cancel_batch_row:
  "status_row (cancel_batch now ids db) wid =
     map_option (\<lambda>r. if not_complete ids r then cancel_effect now r else r) (status_row db wid)"
  by (simp add: cancel_batch_def cancel_upd.update_row)

lemma child_edge_map:
  "child_edge db = {(p, c). (c, Some p) \<in> set (map (\<lambda>r. (ws_workflow_uuid r, ws_parent_workflow_id r)) (workflow_status db))}"
  by (auto simp: child_edge_def)

lemma cancel_batch_edges [simp]: "child_edge (cancel_batch now ids db) = child_edge db"
proof -
  have "map (\<lambda>r. (ws_workflow_uuid r, ws_parent_workflow_id r)) (workflow_status (cancel_batch now ids db))
      = map (\<lambda>r. (ws_workflow_uuid r, ws_parent_workflow_id r)) (workflow_status db)"
    by (simp add: cancel_batch_def update_workflow_status_def map_key_sql_update cancel_effect_def)
  then show ?thesis unfolding child_edge_map by (rule arg_cong)
qed

lemma cancel_loop_inv: "sysdb_inv db \<Longrightarrow> sysdb_inv (cancel_loop clock k F V db)"
proof (induction clock k F V db rule: cancel_loop.induct)
  case (1 clock k F V db)
  then show ?case
    by (subst cancel_loop.simps) (auto simp: Let_def cancel_batch_inv)
qed

lemma cancel_workflows_inv: "sysdb_inv db \<Longrightarrow> sysdb_inv (cancel_workflows clock ids b db)"
  by (simp add: cancel_workflows_def cancel_batch_inv cancel_loop_inv)

text \<open>
  The state of the cascade: what was visited before the current level has been cancelled at its
  time, the rest of the table is as it was at the start.
\<close>

definition cancelled_row :: "(nat \<Rightarrow> int) \<Rightarrow> workflow_status_row \<Rightarrow> workflow_status_row \<Rightarrow> bool" where
  "cancelled_row clock r r' \<longleftrightarrow>
     (if ws_status r = SUCCESS \<or> ws_status r = ERROR then r' = r
      else \<exists>k. r' = cancel_effect (clock k) r)"

definition cascade_state ::
  "(nat \<Rightarrow> int) \<Rightarrow> string set \<Rightarrow> sysdb \<Rightarrow> sysdb \<Rightarrow> bool" where
  "cascade_state clock done0 db0 db \<longleftrightarrow> (\<forall>wid.
     if wid \<in> done0 then (case status_row db0 wid of
         None \<Rightarrow> status_row db wid = None
       | Some r \<Rightarrow> \<exists>r'. status_row db wid = Some r' \<and> cancelled_row clock r r')
     else status_row db wid = status_row db0 wid)"

lemma cascade_state_batch:
  assumes "cascade_state clock D db0 db" "set F \<inter> D = {}"
  shows "cascade_state clock (D \<union> set F) db0 (cancel_batch (clock k) F db)"
  unfolding cascade_state_def
proof (intro allI)
  fix wid
  note here = assms(1) [unfolded cascade_state_def, rule_format, of wid]
  have uuid: "ws_workflow_uuid r = wid" if "status_row db wid = Some r" for r
    using that by (auto dest: status_row_SomeD)
  show "if wid \<in> D \<union> set F then (case status_row db0 wid of
         None \<Rightarrow> status_row (cancel_batch (clock k) F db) wid = None
       | Some r \<Rightarrow> \<exists>r'. status_row (cancel_batch (clock k) F db) wid = Some r' \<and> cancelled_row clock r r')
     else status_row (cancel_batch (clock k) F db) wid = status_row db0 wid"
  proof (cases "wid \<in> set F")
    case True
    then have "wid \<notin> D" using assms(2) by blast
    with here have "status_row db wid = status_row db0 wid" by simp
    with True uuid show ?thesis
      by (cases "status_row db0 wid") (auto simp: cancel_batch_row cancelled_row_def not_complete_def)
  next
    case False
    with uuid have "status_row (cancel_batch (clock k) F db) wid = status_row db wid"
      by (cases "status_row db wid") (auto simp: cancel_batch_row not_complete_def)
    then show ?thesis using False here by (cases "status_row db0 wid") (auto split: if_splits)
  qed
qed

lemma cancel_loop_correct:
  assumes "cascade_state clock (V - set F) db0 db" "child_edge db = child_edge db0"
    and "set F \<subseteq> V" "S \<subseteq> V" "kids.visiting db0 S F (V - S)"
  shows "cascade_state clock ((child_edge db0)\<^sup>* `` S) db0 (cancel_loop clock k F V db)"
  using assms
proof (induction clock k F V db rule: cancel_loop.induct)
  case (1 clock k F V db)
  show ?case
  proof (cases "F = []")
    case True
    with kids.visiting_done [of db0 S "V - S"] "1.prems" have "V = (child_edge db0)\<^sup>* `` S"
      by (simp add: Un_absorb1)
    with "1.prems"(1) True show ?thesis by (simp add: cancel_loop.simps)
  next
    case False
    define db1 where "db1 = cancel_batch (clock k) F db"
    define F' where "F' = filter (\<lambda>c. c \<notin> V) (get_direct_children F db1)"
    have edges: "child_edge db1 = child_edge db0" by (simp add: db1_def "1.prems"(2))
    have "(V - set F) \<union> set F = V" using "1.prems"(3) by blast
    moreover have "V \<union> set F' - set F' = V" by (auto simp: F'_def)
    ultimately have cs: "cascade_state clock (V \<union> set F' - set F') db0 db1"
      using cascade_state_batch [OF "1.prems"(1), of F k] by (simp add: db1_def Int_Diff)
    have kids: "set (get_direct_children F db1) = set (get_direct_children F db0)"
      by (simp add: set_get_direct_children edges)
    have "kids.visiting db0 S F' ((V - S) \<union> set F')"
      by (rule kids.visiting_step [OF "1.prems"(5)]) (use kids "1.prems"(4) in \<open>auto simp: F'_def\<close>)
    moreover have "V - S \<union> set F' = V \<union> set F' - S" using "1.prems"(4) by (auto simp: F'_def)
    ultimately have vis: "kids.visiting db0 S F' (V \<union> set F' - S)" by simp
    have "cascade_state clock ((child_edge db0)\<^sup>* `` S) db0 (cancel_loop clock (Suc k) F' (V \<union> set F') db1)"
      by (rule "1.IH" [OF False db1_def refl F'_def cs edges])
         (use vis "1.prems"(4) in \<open>auto\<close>)
    then show ?thesis using False by (subst cancel_loop.simps) (simp add: Let_def db1_def F'_def)
  qed
qed

text \<open>
  C22: Cancelling workflows with their children always returns, and afterwards every workflow
  reachable from the given ones over parent links is CANCELLED, off its queue and without its
  deduplication ID, unless it had completed (SUCCESS or ERROR, then its row is as it was); all
  other workflows are untouched.
\<close>

theorem cancel_workflows_cascade:
  "let db' = cancel_workflows clock ids True db in
   \<forall>wid. if (\<exists>root \<in> set ids. (root, wid) \<in> (child_edge db)\<^sup>*)
     then (case status_row db wid of
         None \<Rightarrow> status_row db' wid = None
       | Some r \<Rightarrow> (if ws_status r = SUCCESS \<or> ws_status r = ERROR then status_row db' wid = Some r
           else \<exists>k. status_row db' wid = Some (r\<lparr>ws_status := CANCELLED, ws_queue_name := None,
               ws_deduplication_id := None, ws_started_at_epoch_ms := None, ws_updated_at := clock k,
               ws_completed_at := Some (clock k)\<rparr>)))
     else status_row db' wid = status_row db wid"
proof -
  have "cascade_state clock (set ids - set ids) db db" by (simp add: cascade_state_def)
  moreover have "kids.visiting db (set ids) ids (set ids - set ids)" by (simp add: kids.visiting_start)
  ultimately have cs: "cascade_state clock ((child_edge db)\<^sup>* `` set ids) db (cancel_loop clock 0 ids (set ids) db)"
    by (intro cancel_loop_correct) simp_all
  have mem: "(\<exists>root \<in> set ids. (root, wid) \<in> (child_edge db)\<^sup>*) \<longleftrightarrow> wid \<in> (child_edge db)\<^sup>* `` set ids" for wid
    by blast
  show ?thesis unfolding Let_def mem
  proof (intro allI)
    fix wid
    let ?db = "cancel_workflows clock ids True db"
    show "if wid \<in> (child_edge db)\<^sup>* `` set ids
     then (case status_row db wid of
         None \<Rightarrow> status_row ?db wid = None
       | Some r \<Rightarrow> (if ws_status r = SUCCESS \<or> ws_status r = ERROR then status_row ?db wid = Some r
           else \<exists>k. status_row ?db wid = Some (r\<lparr>ws_status := CANCELLED, ws_queue_name := None,
               ws_deduplication_id := None, ws_started_at_epoch_ms := None, ws_updated_at := clock k,
               ws_completed_at := Some (clock k)\<rparr>)))
     else status_row ?db wid = status_row db wid"
      using cs [unfolded cascade_state_def, rule_format, of wid]
      by (cases "status_row db wid") (auto simp: cancel_workflows_def cancelled_row_def cancel_effect_def
          split: if_splits)
  qed
qed

section \<open>The fork forest\<close>

definition fork_rows :: "string list \<Rightarrow> sysdb \<Rightarrow> (string \<times> string) list" where
  "fork_rows frontier db = concat (map (\<lambda>r. case ws_forked_from r of
     None \<Rightarrow> []
   | Some p \<Rightarrow> if p \<in> set frontier then [(ws_workflow_uuid r, p)] else []) (workflow_status db))"

text \<open>
  One level: every row adds a (parent, fork) pair to the adjacency map, which is kept as the list of
  its pairs in insertion order; a fork not seen before joins the next level.
\<close>

fun fork_level ::
  "(string \<times> string) list \<Rightarrow> (string \<times> string) list \<Rightarrow> string set \<Rightarrow> string list
   \<Rightarrow> (string \<times> string) list \<times> string set \<times> string list" where
  "fork_level [] children seen next_frontier = (children, seen, next_frontier)"
| "fork_level ((forked_id, forked_from) # rows) children seen next_frontier =
     (if forked_id \<notin> seen
      then fork_level rows (children @ [(forked_from, forked_id)]) (insert forked_id seen)
             (next_frontier @ [forked_id])
      else fork_level rows (children @ [(forked_from, forked_id)]) seen next_frontier)"

lemma fork_level_result:
  assumes "fork_level rows ch seen nf = (ch', seen', nf')"
  shows "set ch' = set ch \<union> {(p, c). (c, p) \<in> set rows} \<and> seen' = seen \<union> fst ` set rows
    \<and> set nf' = set nf \<union> (fst ` set rows - seen)"
  using assms by (induction rows ch seen nf rule: fork_level.induct) (auto split: if_splits)

definition fork_edge :: "sysdb \<Rightarrow> (string \<times> string) set" where
  "fork_edge db = {(p, c). \<exists>r \<in> set (workflow_status db).
     ws_workflow_uuid r = c \<and> ws_forked_from r = Some p}"

lemma set_fork_rows: "set (fork_rows frontier db) = {(c, p). (p, c) \<in> fork_edge db \<and> p \<in> set frontier}"
  by (force simp: fork_rows_def fork_edge_def split: option.splits if_splits)

lemma fst_fork_rows: "fst ` set (fork_rows frontier db) = {c. \<exists>p \<in> set frontier. (p, c) \<in> fork_edge db}"
  by (force simp: set_fork_rows)

interpretation forks: level_search "\<lambda>ids. map fst (fork_rows ids db)" "set (workflow_ids db)" for db
  by unfold_locales (auto simp: fst_fork_rows fork_edge_def workflow_ids_def)

lemma forks_edge [simp]: "forks.edge db = fork_edge db"
  unfolding forks.edge_def by (auto simp: fst_fork_rows)

function fork_loop ::
  "sysdb \<Rightarrow> (string \<times> string) list \<Rightarrow> string set \<Rightarrow> string list \<Rightarrow> (string \<times> string) list" where
  "fork_loop db children seen frontier =
     (if frontier = [] then children
      else let (children', seen', frontier') = fork_level (fork_rows frontier db) children seen []
           in fork_loop db children' seen' frontier')"
  by pat_completeness auto
termination
proof (relation "measure (\<lambda>(db, ch, seen, f). card (set (workflow_ids db) - seen) + (if f = [] then 0 else 1))")
  fix db ch seen frontier x ch' y seen' frontier'
  assume f: "frontier \<noteq> []" and x: "x = fork_level (fork_rows frontier db) ch seen []" "(ch', y) = x"
    "(seen', frontier') = y"
  then have "fork_level (fork_rows frontier db) ch seen [] = (ch', seen', frontier')" by simp
  from fork_level_result [OF this]
  have "seen' = seen \<union> set frontier'" "set frontier' = set (map fst (fork_rows frontier db)) - seen" by auto
  with f forks.level_measure [of frontier' frontier db seen]
  show "((db, ch', seen', frontier'), db, ch, seen, frontier)
    \<in> measure (\<lambda>(db, ch, seen, f). card (set (workflow_ids db) - seen) + (if f = [] then 0 else 1))"
    by simp
qed simp

declare fork_loop.simps [simp del]

text \<open>\<^verbatim>\<open>children.get(node, [])\<close>, and the depth-first walk with an explicit stack.\<close>

definition adj :: "(string \<times> string) list \<Rightarrow> string \<Rightarrow> string list" where
  "adj children node = map snd (filter (\<lambda>e. fst e = node) children)"

function dfs_loop :: "(string \<times> string) list \<Rightarrow> string \<Rightarrow> string list \<Rightarrow> string set \<Rightarrow> string set" where
  "dfs_loop children origin stack descendants =
     (if stack = [] then descendants
      else let node = last stack; rest = butlast stack in
        if node \<noteq> origin \<and> node \<notin> descendants
        then dfs_loop children origin (rest @ adj children node) (insert node descendants)
        else dfs_loop children origin rest descendants)"
  by pat_completeness auto
termination
proof (relation "measures [\<lambda>(ch, origin, stack, d). card (fst ` set ch - d), \<lambda>(ch, origin, stack, d). length stack]")
  fix ch :: "(string \<times> string) list" and origin node :: string and stack rest :: "string list" and d
  assume "stack \<noteq> []" "node = last stack" "rest = butlast stack" "node \<noteq> origin \<and> node \<notin> d"
  then show "((ch, origin, rest @ adj ch node, insert node d), ch, origin, stack, d)
    \<in> measures [\<lambda>(ch, origin, stack, d). card (fst ` set ch - d), \<lambda>(ch, origin, stack, d). length stack]"
  proof (cases "node \<in> fst ` set ch")
    case True
    then have "fst ` set ch - insert node d \<subset> fst ` set ch - d"
      using \<open>node \<noteq> origin \<and> node \<notin> d\<close> by blast
    then have "card (fst ` set ch - insert node d) < card (fst ` set ch - d)"
      by (simp add: psubset_card_mono)
    then show ?thesis by simp
  next
    case False
    then have "adj ch node = []" by (auto simp: adj_def filter_empty_conv)
    moreover have "fst ` set ch - insert node d = fst ` set ch - d" using False by blast
    ultimately show ?thesis using \<open>stack \<noteq> []\<close> \<open>rest = butlast stack\<close> by simp
  qed
qed auto

declare dfs_loop.simps [simp del]

definition find_fork_descendants_txn :: "string list \<Rightarrow> sysdb \<Rightarrow> string \<rightharpoonup> string set" where
  "find_fork_descendants_txn ids db =
     (let children = fork_loop db [] (set ids) (remdups ids)
      in map_of (map (\<lambda>origin. (origin, dfs_loop children origin (adj children origin) {})) ids))"

lemma fork_loop_edges:
  assumes "set ch = {(p, c) \<in> fork_edge db. p \<in> seen - set F}"
    and "set F \<subseteq> seen" "S \<subseteq> seen" "forks.visiting db S F (seen - S)"
  shows "set (fork_loop db ch seen F) = {(p, c) \<in> fork_edge db. p \<in> (fork_edge db)\<^sup>* `` S}"
  using assms
proof (induction db ch seen F rule: fork_loop.induct)
  case (1 db ch seen F)
  show ?case
  proof (cases "F = []")
    case True
    with forks.visiting_done [of db S "seen - S"] "1.prems" have "seen = (fork_edge db)\<^sup>* `` S"
      by (simp add: Un_absorb1)
    with "1.prems"(1) True show ?thesis by (simp add: fork_loop.simps)
  next
    case False
    obtain ch' seen' F' where lv: "fork_level (fork_rows F db) ch seen [] = (ch', seen', F')"
      by (metis prod_cases3)
    from fork_level_result [OF lv] have r: "set ch' = set ch \<union> {(p, c) \<in> fork_edge db. p \<in> set F}"
      "seen' = seen \<union> set F'" "set F' = fst ` set (fork_rows F db) - seen"
      by (auto simp: set_fork_rows)
    have ch: "set ch' = {(p, c) \<in> fork_edge db. p \<in> seen' - set F'}"
      using r "1.prems"(1,2) by auto
    have "forks.visiting db S F' ((seen - S) \<union> set F')"
      by (rule forks.visiting_step [OF "1.prems"(4)]) (use r "1.prems"(3) in auto)
    moreover have "seen - S \<union> set F' = seen' - S" using r "1.prems"(3) by auto
    ultimately have vis: "forks.visiting db S F' (seen' - S)" by simp
    have "set (fork_loop db ch' seen' F') = {(p, c) \<in> fork_edge db. p \<in> (fork_edge db)\<^sup>* `` S}"
      by (rule "1.IH" [OF False lv [symmetric] refl refl ch _ _ vis]) (use r "1.prems"(3) in auto)
    then show ?thesis using False by (subst fork_loop.simps) (simp add: lv)
  qed
qed

lemma set_adj: "set (adj ch x) = {y. (x, y) \<in> set ch}"
  by (force simp: adj_def)

lemma dfs_loop_reaches:
  assumes "origin \<notin> D" "D \<subseteq> (set ch)\<^sup>* `` {origin}" "set stack \<subseteq> (set ch)\<^sup>* `` {origin}"
    and "\<forall>x \<in> insert origin D. \<forall>y. (x, y) \<in> set ch \<longrightarrow> y \<in> insert origin D \<union> set stack"
  shows "dfs_loop ch origin stack D = (set ch)\<^sup>* `` {origin} - {origin}"
  using assms
proof (induction ch origin stack D rule: dfs_loop.induct)
  case (1 ch origin stack D)
  show ?case
  proof (cases "stack = []")
    case True
    have "y \<in> insert origin D" if "(origin, y) \<in> (set ch)\<^sup>*" for y
      using that by (induction rule: rtrancl_induct) (use "1.prems"(4) True in auto)
    with "1.prems"(1,2) True show ?thesis by (auto simp: dfs_loop.simps)
  next
    case False
    define node rest where "node = last stack" and "rest = butlast stack"
    have st: "set stack = insert node (set rest)"
      using False append_butlast_last_id [of stack] unfolding node_def rest_def
      by (metis list.simps(15) rotate1.simps(2) set_rotate1)
    show ?thesis
    proof (cases "node \<noteq> origin \<and> node \<notin> D")
      case True
      have "set (adj ch node) \<subseteq> (set ch)\<^sup>* `` {origin}"
        using "1.prems"(3) st by (auto simp: set_adj intro: rtrancl.rtrancl_into_rtrancl)
      then have "dfs_loop ch origin (rest @ adj ch node) (insert node D) = (set ch)\<^sup>* `` {origin} - {origin}"
        using "1.prems" st True
        by (intro "1.IH"(1) [OF False node_def rest_def True]) (auto simp: set_adj)
      then show ?thesis using False True
        by (subst dfs_loop.simps) (simp add: Let_def flip: node_def rest_def)
    next
      case f: False
      have "dfs_loop ch origin rest D = (set ch)\<^sup>* `` {origin} - {origin}"
        using "1.prems" st f by (intro "1.IH"(2) [OF False node_def rest_def f]) auto
      then show ?thesis using False f
        by (subst dfs_loop.simps) (auto simp: Let_def simp flip: node_def rest_def)
    qed
  qed
qed

text \<open>
  \<open>find_fork_descendants_txn\<close> always returns, and gives for each requested workflow exactly the
  workflows recursively forked from it, without the workflow itself, also when several roots share
  descendants or the recorded fork links are cyclic.
\<close>

theorem find_fork_descendants_correct:
  "find_fork_descendants_txn ids db origin =
    (if origin \<in> set ids then Some {d. (origin, d) \<in> (fork_edge db)\<^sup>* \<and> d \<noteq> origin} else None)"
proof (cases "origin \<in> set ids")
  case True
  define ch where "ch = fork_loop db [] (set ids) (remdups ids)"
  have "forks.visiting db (set ids) (remdups ids) (set ids - set ids)" by (simp add: forks.visiting_start)
  then have ch: "set ch = {(p, c) \<in> fork_edge db. p \<in> (fork_edge db)\<^sup>* `` set ids}"
    unfolding ch_def by (intro fork_loop_edges) auto
  have "(set ch)\<^sup>* `` {origin} = (fork_edge db)\<^sup>* `` {origin}"
  proof
    have "set ch \<subseteq> fork_edge db" by (auto simp: ch)
    then show "(set ch)\<^sup>* `` {origin} \<subseteq> (fork_edge db)\<^sup>* `` {origin}" using rtrancl_mono by blast
    have "(origin, y) \<in> (set ch)\<^sup>*" if "(origin, y) \<in> (fork_edge db)\<^sup>*" for y
      using that
    proof (induction rule: rtrancl_induct)
      case (step y z)
      then have "(y, z) \<in> set ch" using True by (auto simp: ch)
      with step.IH show ?case by (rule rtrancl.rtrancl_into_rtrancl)
    qed simp
    then show "(fork_edge db)\<^sup>* `` {origin} \<subseteq> (set ch)\<^sup>* `` {origin}" by blast
  qed
  moreover have "dfs_loop ch origin (adj ch origin) {} = (set ch)\<^sup>* `` {origin} - {origin}"
    by (rule dfs_loop_reaches) (auto simp: set_adj)
  moreover have "map_of (map (\<lambda>r. (r, dfs_loop ch r (adj ch r) {})) ids) origin
      = Some (dfs_loop ch origin (adj ch origin) {})"
    using True by (induction ids) auto
  ultimately show ?thesis using True
    by (auto simp: find_fork_descendants_txn_def Let_def ch_def [symmetric])
next
  case False
  then show ?thesis
    by (auto simp: find_fork_descendants_txn_def Let_def map_of_eq_None_iff)
qed

end
