(* ===== verification/DBOS_Messages.thy ===== *)
theory DBOS_Messages
  imports DBOS_Checkpoints DBOS_Children
begin

text \<open>
  Messages between workflows (\<^verbatim>\<open>dbos/_sys_db.py\<close>): \<open>send_bulk\<close> inserts one notification per message and
  destination, \<open>recv_consume\<close> takes the oldest unconsumed one. Clocks and generated UUIDs are
  arguments: \<open>fresh i\<close> is the UUID generated for the row \<open>i\<close> of a send.
\<close>

section \<open>Sending\<close>

record SendMessage =
  sm_destination_id :: string
  sm_message :: pyval
  sm_topic :: "string option"
  sm_idempotency_key :: "string option"

definition dbos_null_topic :: string where
  "dbos_null_topic = ''__null__topic__''"

definition join_comma :: "string list \<Rightarrow> string" where
  "join_comma xs = (case xs of [] \<Rightarrow> [] | y # ys \<Rightarrow> y @ concat (map (\<lambda>z. '', '' @ z) ys))"

text \<open>\<^verbatim>\<open>if m.idempotency_key\<close>: absent and empty keys are left out.\<close>

definition provided_keys :: "SendMessage list \<Rightarrow> string list" where
  "provided_keys ms = concat (map (\<lambda>m. case sm_idempotency_key m of
     None \<Rightarrow> [] | Some k \<Rightarrow> if k = [] then [] else [k]) ms)"

definition duplicate_keys :: "string list \<Rightarrow> string list" where
  "duplicate_keys ks = sort (remdups (filter (\<lambda>k. count_list ks k > 1) ks))"

type_synonym prepared = "SendMessage \<times> string \<times> string"

definition prepare ::
  "codecs \<Rightarrow> Serializer \<Rightarrow> WorkflowSerializationFormat option \<Rightarrow> SendMessage list \<Rightarrow> prepared list res" where
  "prepare cs sz ser_type ms = res_map (\<lambda>m.
     res_bind (serialize_value cs (sm_message m) ser_type sz) (\<lambda>(s, n). Inr (m, s, n))) ms"

definition destinations :: "bool \<Rightarrow> (string \<rightharpoonup> string set) \<Rightarrow> SendMessage \<Rightarrow> string list" where
  "destinations send_to_forks fork_descendants m = sm_destination_id m #
     (if send_to_forks then sorted_list_of_set (case fork_descendants (sm_destination_id m) of
        None \<Rightarrow> {} | Some d \<Rightarrow> d) else [])"

definition message_uuid_of :: "string \<Rightarrow> SendMessage \<Rightarrow> string \<Rightarrow> string" where
  "message_uuid_of generated m dest = (case sm_idempotency_key m of
     None \<Rightarrow> generated | Some k \<Rightarrow> k @ ''::'' @ dest)"

definition message_row :: "(nat \<Rightarrow> string) \<Rightarrow> int \<Rightarrow> nat \<times> prepared \<times> string \<Rightarrow> notification_row" where
  "message_row fresh now x = (case x of (i, (m, serval, serialization), dest) \<Rightarrow> \<lparr>
     nt_destination_uuid = dest,
     nt_topic = Some (case sm_topic m of Some t \<Rightarrow> t | None \<Rightarrow> dbos_null_topic),
     nt_message = serval, nt_created_at_epoch_ms = now,
     nt_message_uuid = message_uuid_of (fresh i) m dest,
     nt_serialization = Some serialization, nt_consumed = False\<rparr>)"

definition message_rows ::
  "(nat \<Rightarrow> string) \<Rightarrow> int \<Rightarrow> bool \<Rightarrow> (string \<rightharpoonup> string set) \<Rightarrow> prepared list \<Rightarrow> notification_row list" where
  "message_rows fresh now send_to_forks fork_descendants ps = map (message_row fresh now)
     (enumerate 0 (concat (map (\<lambda>p. map (Pair p) (destinations send_to_forks fork_descendants (fst p))) ps)))"

text \<open>
  \<^verbatim>\<open>INSERT ... VALUES (rows) ON CONFLICT (message_uuid) DO NOTHING\<close>: a row whose UUID is taken, by the
  table or by an earlier row of the statement, is skipped; the foreign key is checked for the rows
  that were inserted.
\<close>

definition insert_skipping :: "notification_row list \<Rightarrow> notification_row list \<Rightarrow> notification_row list" where
  "insert_skipping rows t = fold (\<lambda>r t. if nt_message_uuid r \<in> nt_message_uuid ` set t then t else t @ [r]) rows t"

definition insert_notifications :: "notification_row list \<Rightarrow> sysdb \<Rightarrow> sysdb res" where
  "insert_notifications rows db =
     (let t = insert_skipping rows (notifications db) in
      if \<forall>r \<in> set (drop (length (notifications db)) t). nt_destination_uuid r \<in> set (workflow_ids db)
      then Inr (db\<lparr>notifications := t\<rparr>) else Inl ForeignKeyViolation)"

definition send_result :: "string \<Rightarrow> int \<Rightarrow> string \<Rightarrow> int \<Rightarrow> OperationResultInternal" where
  "send_result wid fid name start = \<lparr>
     or_workflow_uuid = wid, or_function_id = fid, or_function_name = name, or_output = None,
     or_error = None, or_serialization = None, or_started_at_epoch_ms = start\<rparr>"

text \<open>The inserts, without the checkpoint.\<close>

definition deliver ::
  "(nat \<Rightarrow> string) \<Rightarrow> int \<Rightarrow> bool \<Rightarrow> prepared list \<Rightarrow> sysdb \<Rightarrow> unit txn_result" where
  "deliver fresh now send_to_forks ps db =
     (let fork_descendants = (if send_to_forks
            then find_fork_descendants_txn (map (\<lambda>p. sm_destination_id (fst p)) ps) db else Map.empty);
          rows = message_rows fresh now send_to_forks fork_descendants ps
      in case insert_notifications rows db of
           Inl e \<Rightarrow> Raise (if e = ForeignKeyViolation
             then DBOSNonExistentWorkflowError ''`send` destination''
               (join_comma (sort (remdups (map (\<lambda>p. sm_destination_id (fst p)) ps))))
             else e)
         | Inr db1 \<Rightarrow> Done () db1)"

text \<open>The transaction after the messages were serialized.\<close>

definition send_prepared_txn ::
  "string option \<Rightarrow> (nat \<Rightarrow> string) \<Rightarrow> int \<Rightarrow> string option \<Rightarrow> int option \<Rightarrow> string \<Rightarrow> bool \<Rightarrow> int \<Rightarrow> int
   \<Rightarrow> prepared list \<Rightarrow> sysdb \<Rightarrow> unit txn_result" where
  "send_prepared_txn executor_id fresh now wid fid name send_to_forks start completed ps db =
     (case wid of
        None \<Rightarrow> deliver fresh now send_to_forks ps db
      | Some w \<Rightarrow> (case fid of
          None \<Rightarrow> Raise AssertionError
        | Some f \<Rightarrow> (case check_operation_execution_txn w f name db of
              Inl e \<Rightarrow> Raise e
            | Inr (Some _) \<Rightarrow> Done () db
            | Inr None \<Rightarrow> txn_bind (deliver fresh now send_to_forks ps db) (\<lambda>_ db1.
                record_operation_result_txn executor_id (send_result w f name start) completed db1))))"

definition send_bulk_txn ::
  "codecs \<Rightarrow> Serializer \<Rightarrow> string option \<Rightarrow> (nat \<Rightarrow> string) \<Rightarrow> int \<Rightarrow> WorkflowSerializationFormat option
   \<Rightarrow> string option \<Rightarrow> int option \<Rightarrow> string \<Rightarrow> bool \<Rightarrow> int \<Rightarrow> int \<Rightarrow> SendMessage list \<Rightarrow> sysdb
   \<Rightarrow> unit txn_result" where
  "send_bulk_txn cs sz executor_id fresh now ser_type wid fid name send_to_forks start completed ms db =
     (if length (provided_keys ms) \<noteq> length (remdups (provided_keys ms))
      then Raise (DBOSException (''send_bulk received duplicate idempotency keys: ''
             @ join_comma (duplicate_keys (provided_keys ms))))
      else case prepare cs sz ser_type ms of
             Inl e \<Rightarrow> Raise e
           | Inr ps \<Rightarrow> send_prepared_txn executor_id fresh now wid fid name send_to_forks start completed ps db)"

definition send_bulk ::
  "codecs \<Rightarrow> Serializer \<Rightarrow> string option \<Rightarrow> (nat \<Rightarrow> string) \<Rightarrow> int \<Rightarrow> WorkflowSerializationFormat option
   \<Rightarrow> string option \<Rightarrow> int option \<Rightarrow> string \<Rightarrow> bool \<Rightarrow> int \<Rightarrow> int \<Rightarrow> SendMessage list \<Rightarrow> sysdb
   \<Rightarrow> unit res \<times> sysdb" where
  "send_bulk cs sz executor_id fresh now ser_type wid fid name send_to_forks start completed ms =
     engine_begin (send_bulk_txn cs sz executor_id fresh now ser_type wid fid name send_to_forks start completed ms)"

definition send_bulk_with_connection ::
  "codecs \<Rightarrow> Serializer \<Rightarrow> string option \<Rightarrow> (nat \<Rightarrow> string) \<Rightarrow> int \<Rightarrow> WorkflowSerializationFormat option
   \<Rightarrow> string \<Rightarrow> bool \<Rightarrow> int \<Rightarrow> int \<Rightarrow> SendMessage list \<Rightarrow> sysdb \<Rightarrow> unit txn_result" where
  "send_bulk_with_connection cs sz executor_id fresh now ser_type name send_to_forks start completed ms db =
     send_bulk_txn cs sz executor_id fresh now ser_type None None name send_to_forks start completed ms db"

section \<open>Receiving\<close>

definition recv_match :: "string \<Rightarrow> string \<Rightarrow> notification_row \<Rightarrow> bool" where
  "recv_match wid topic r \<longleftrightarrow> nt_destination_uuid r = wid \<and> nt_topic r = Some topic \<and> \<not> nt_consumed r"

definition oldest_message :: "string \<Rightarrow> string \<Rightarrow> sysdb \<Rightarrow> notification_row option" where
  "oldest_message wid topic db =
     fetchone (sort_key nt_created_at_epoch_ms (filter (recv_match wid topic) (notifications db)))"

definition consume :: "string \<Rightarrow> string \<Rightarrow> notification_row \<Rightarrow> sysdb \<Rightarrow> sysdb" where
  "consume wid topic m db = db\<lparr>notifications :=
     sql_update (\<lambda>r. recv_match wid topic r \<and> nt_message_uuid r = nt_message_uuid m)
       (\<lambda>r. r\<lparr>nt_consumed := True\<rparr>) (notifications db)\<rparr>"

definition recv_consume_txn ::
  "codecs \<Rightarrow> Serializer \<Rightarrow> string option \<Rightarrow> string \<Rightarrow> int \<Rightarrow> string option \<Rightarrow> int \<Rightarrow> int \<Rightarrow> sysdb
   \<Rightarrow> pyval txn_result" where
  "recv_consume_txn cs sz executor_id wid fid topic0 start completed db =
     (let topic = (case topic0 of Some t \<Rightarrow> t | None \<Rightarrow> dbos_null_topic) in
      case operation_row db wid fid of
        Some r \<Rightarrow> lift_res (deserialize_value cs (oo_output r) (oo_serialization r) sz) db
      | None \<Rightarrow>
          (let (message, serialization, db1) = (case oldest_message wid topic db of
                 None \<Rightarrow> (Inr PNone, None, db)
               | Some m \<Rightarrow> (deserialize_value cs (Some (nt_message m)) (nt_serialization m) sz,
                            nt_serialization m, consume wid topic m db))
           in case message of
                Inl e \<Rightarrow> Raise e
              | Inr v \<Rightarrow> (case serialize_value_as cs v serialization sz of
                    Inl e \<Rightarrow> Raise e
                  | Inr (sermsg, ser) \<Rightarrow>
                      txn_bind (record_operation_result_txn executor_id
                          (step_result wid fid ''DBOS.recv'' start sermsg (Some ser)) completed db1)
                        (\<lambda>_ db2. Done v db2))))"

definition recv_consume ::
  "codecs \<Rightarrow> Serializer \<Rightarrow> string option \<Rightarrow> string \<Rightarrow> int \<Rightarrow> string option \<Rightarrow> int \<Rightarrow> int \<Rightarrow> sysdb
   \<Rightarrow> pyval res \<times> sysdb" where
  "recv_consume cs sz executor_id wid fid topic start completed =
     engine_begin (recv_consume_txn cs sz executor_id wid fid topic start completed)"

text \<open>Whether a poll finds an unconsumed message (and then signals the waiting event).\<close>

definition recv_check :: "string \<Rightarrow> string option \<Rightarrow> sysdb \<Rightarrow> bool" where
  "recv_check wid topic db \<longleftrightarrow> filter (recv_match wid (case topic of Some t \<Rightarrow> t | None \<Rightarrow> dbos_null_topic))
     (notifications db) \<noteq> []"

record NotificationInfo =
  ni_topic :: "string option"
  ni_message :: pyval
  ni_created_at_epoch_ms :: int
  ni_consumed :: bool

definition get_all_notifications :: "codecs \<Rightarrow> Serializer \<Rightarrow> string \<Rightarrow> sysdb \<Rightarrow> NotificationInfo list res" where
  "get_all_notifications cs sz wid db = res_map (\<lambda>r.
     res_bind (deserialize_value cs (Some (nt_message r)) (nt_serialization r) sz) (\<lambda>v. Inr \<lparr>
       ni_topic = (if nt_topic r = Some dbos_null_topic then None else nt_topic r),
       ni_message = v, ni_created_at_epoch_ms = nt_created_at_epoch_ms r, ni_consumed = nt_consumed r\<rparr>))
     (sort_key nt_created_at_epoch_ms (filter (\<lambda>r. nt_destination_uuid r = wid) (notifications db)))"

section \<open>Sending delivers once\<close>

lemma insert_skipping_extends: "\<exists>new. insert_skipping rows t = t @ new \<and> set new \<subseteq> set rows"
proof (induction rows arbitrary: t)
  case (Cons r rows)
  show ?case
  proof (cases "nt_message_uuid r \<in> nt_message_uuid ` set t")
    case True
    with Cons.IH [of t] show ?thesis by (auto simp: insert_skipping_def)
  next
    case False
    with Cons.IH [of "t @ [r]"] show ?thesis by (auto simp: insert_skipping_def)
  qed
qed (simp add: insert_skipping_def)

lemma insert_skipping_uuids:
  "nt_message_uuid ` set (insert_skipping rows t) = nt_message_uuid ` set t \<union> nt_message_uuid ` set rows"
  by (induction rows arbitrary: t) (auto simp: insert_skipping_def)

lemma insert_skipping_distinct:
  "distinct (map nt_message_uuid t) \<Longrightarrow> distinct (map nt_message_uuid (insert_skipping rows t))"
  by (induction rows arbitrary: t) (auto simp: insert_skipping_def)

lemma insert_skipping_known:
  "nt_message_uuid ` set rows \<subseteq> nt_message_uuid ` set t \<Longrightarrow> insert_skipping rows t = t"
  by (induction rows) (auto simp: insert_skipping_def)

lemma insert_skipping_fresh:
  assumes "distinct (map nt_message_uuid rows)" "nt_message_uuid ` set rows \<inter> nt_message_uuid ` set t = {}"
  shows "insert_skipping rows t = t @ rows"
  using assms by (induction rows arbitrary: t) (auto simp: insert_skipping_def)

lemma insert_notifications_Inr:
  assumes "insert_notifications rows db = Inr db'"
  shows "\<exists>new. db' = db\<lparr>notifications := notifications db @ new\<rparr> \<and> set new \<subseteq> set rows
    \<and> nt_destination_uuid ` set new \<subseteq> set (workflow_ids db)
    \<and> insert_skipping rows (notifications db) = notifications db @ new"
  using assms insert_skipping_extends [of rows "notifications db"]
  by (auto simp: insert_notifications_def Let_def split: if_splits)

lemma insert_notifications_inv [inv_intros]:
  assumes "insert_notifications rows db = Inr db'" "sysdb_inv db"
  shows "sysdb_inv db'"
proof -
  from insert_notifications_Inr [OF assms(1)] obtain new where
    db': "db' = db\<lparr>notifications := notifications db @ new\<rparr>"
    and ids: "nt_destination_uuid ` set new \<subseteq> set (workflow_ids db)"
    and t: "insert_skipping rows (notifications db) = notifications db @ new" by blast
  have "child_ok (set (workflow_ids db)) nt_message_uuid nt_destination_uuid (notifications db @ new)"
    using assms(2) ids insert_skipping_distinct [of "notifications db" rows]
    by (auto simp: sysdb_inv_def children_ok_def child_ok_def t)
  with assms(2) show ?thesis by (simp add: sysdb_inv_def children_ok_def catalog_ok_def workflow_ids_def db')
qed

lemma deliver_Done:
  assumes "deliver fresh now b ps db = Done u db'"
  shows "\<exists>rows. insert_notifications rows db = Inr db'"
  using assms by (auto simp: deliver_def Let_def split: sum.splits)

lemma deliver_Done_frame:
  assumes "deliver fresh now b ps db = Done u db'"
  shows "\<exists>new. db' = db\<lparr>notifications := notifications db @ new\<rparr>"
  using deliver_Done [OF assms] insert_notifications_Inr by blast

lemma deliver_not_commit_raise [simp]: "deliver fresh now b ps db \<noteq> CommitRaise e db'"
  by (simp add: deliver_def Let_def split: sum.splits)

lemma deliver_inv [inv_intros]: "sysdb_inv db \<Longrightarrow> txn_inv (deliver fresh now b ps db)"
  using deliver_Done [of fresh now b ps db] insert_notifications_inv
  by (cases "deliver fresh now b ps db") auto

interpretation sending: checkpointed wid fid name
  "send_prepared_txn ex fresh now (Some wid) (Some fid) name forks start t ps" "\<lambda>_. Inr ()" "\<lambda>_ _. True"
  for wid fid name ex fresh now forks start t ps
proof
  let ?body = "send_prepared_txn ex fresh now (Some wid) (Some fid) name forks start t ps"
  fix db a db'
  assume check: "check_operation_execution_txn wid fid name db = Inr None" and body: "?body db = Done a db'"
  from check body obtain db1 where db1: "deliver fresh now forks ps db = Done () db1"
    "record_operation_result_txn ex (send_result wid fid name start) t db1 = Done () db'"
    by (auto simp: send_prepared_txn_def elim!: txn_bind.elims)
  from deliver_Done_frame [OF db1(1)] obtain new where new: "db1 = db\<lparr>notifications := notifications db @ new\<rparr>"
    by blast
  from record_last [of "send_result wid fid name start" name db db1 ex t] check db1(2) new
  show "\<exists>rr. check_operation_execution_txn wid fid name db' = Inr (Some rr) \<and> True"
    by (auto simp: send_result_def)
next
  fix db e db'
  assume "check_operation_execution_txn wid fid name db = Inr None"
  then show "send_prepared_txn ex fresh now (Some wid) (Some fid) name forks start t ps db \<noteq> CommitRaise e db'"
    by (cases "deliver fresh now forks ps db") (auto simp: send_prepared_txn_def)
next
  fix db
  assume "sysdb_inv db"
  then show "txn_inv (send_prepared_txn ex fresh now (Some wid) (Some fid) name forks start t ps db)"
    by (auto simp: send_prepared_txn_def split: sum.splits option.splits
        intro!: txn_inv_bind deliver_inv record_operation_result_txn_inv)
qed (auto simp: send_prepared_txn_def lift_res_def)

lemma send_bulk_inv:
  assumes "sysdb_inv db"
  shows "sysdb_inv (snd (send_bulk cs sz ex fresh now ty wid fid name forks start t ms db))"
proof -
  have "txn_inv (send_prepared_txn ex fresh now wid fid name forks start t ps db)" for ps
  proof (cases "wid = None \<or> fid = None")
    case True
    then show ?thesis using assms deliver_inv
      by (auto simp: send_prepared_txn_def split: option.splits)
  next
    case False
    then obtain w f where "wid = Some w" "fid = Some f" by auto
    then show ?thesis using sending.keeps [OF assms] by simp
  qed
  then show ?thesis unfolding send_bulk_def
    by (intro engine_begin_inv) (auto simp: send_bulk_txn_def assms split: sum.splits)
qed

text \<open>
  C23: A send made by a workflow step takes effect exactly once. If it fails, nothing was sent or
  recorded. If it succeeds, repeating it with any clock, executor and generated UUIDs sends nothing more
  and succeeds; and when it actually ran, all its messages were inserted together, skipping only
  those whose message UUID was already there.
\<close>

theorem send_bulk_exactly_once:
  assumes run: "send_bulk cs sz ex fresh now ty (Some wid) (Some fid) name forks s t ms db = (r, db')"
  shows "case r of
      Inl e \<Rightarrow> db' = db
    | Inr u \<Rightarrow> (\<forall>ex' fresh' now' s' t'.
          send_bulk cs sz ex' fresh' now' ty (Some wid) (Some fid) name forks s' t' ms db' = (Inr (), db'))
        \<and> (if operation_row db wid fid = None
           then \<exists>ps. prepare cs sz ty ms = Inr ps \<and> notifications db' = insert_skipping
             (message_rows fresh now forks (if forks
                then find_fork_descendants_txn (map (\<lambda>p. sm_destination_id (fst p)) ps) db else Map.empty) ps)
             (notifications db)
           else db' = db)"
proof (cases "length (provided_keys ms) \<noteq> length (remdups (provided_keys ms)) \<or> (\<exists>e. prepare cs sz ty ms = Inl e)")
  case True
  with run have "\<exists>e. r = Inl e" "db' = db"
    by (auto simp: send_bulk_def send_bulk_txn_def engine_begin_def split: sum.splits if_splits)
  then show ?thesis by auto
next
  case False
  then obtain ps where ps: "prepare cs sz ty ms = Inr ps"
    and keys: "length (provided_keys ms) = length (remdups (provided_keys ms))"
    by (cases "prepare cs sz ty ms") auto
  have eq: "send_bulk cs sz ex fresh now ty (Some wid) (Some fid) name forks s t ms d
      = engine_begin (send_prepared_txn ex fresh now (Some wid) (Some fid) name forks s t ps) d"
    for ex fresh now s t d
    by (simp add: send_bulk_def send_bulk_txn_def ps keys engine_begin_def)
  show ?thesis
  proof (cases r)
    case (Inl e)
    with run have "engine_begin (send_prepared_txn ex fresh now (Some wid) (Some fid) name forks s t ps) db
        = (Inl e, db')" unfolding eq by simp
    from sending.failed_unchanged [OF this] Inl show ?thesis by simp
  next
    case (Inr u)
    with run eq have run': "engine_begin (send_prepared_txn ex fresh now (Some wid) (Some fid) name forks s t ps) db
        = (Inr u, db')" by simp
    from sending.succeeded_recorded [OF run'] obtain rr where
      rr: "check_operation_execution_txn wid fid name db' = Inr (Some rr)"
        "check_operation_execution_txn wid fid name db = Inr None \<or> db' = db" by (auto split: if_splits)
    have again: "send_bulk cs sz ex' fresh' now' ty (Some wid) (Some fid) name forks s' t' ms db' = (Inr (), db')"
      for ex' fresh' now' s' t' unfolding eq using sending.replay_unchanged [OF rr(1)] by simp
    show ?thesis
    proof (cases "operation_row db wid fid = None")
      case True
      then have "check_operation_execution_txn wid fid name db = Inr None"
        using rr by (auto simp: check_Some_iff check_None_iff)
      with run' obtain db1 where db1: "deliver fresh now forks ps db = Done () db1"
        "record_operation_result_txn ex (send_result wid fid name s) t db1 = Done () db'"
        by (auto simp: send_prepared_txn_def engine_begin_def split: txn_result.splits elim!: txn_bind.elims)
      from db1(2) have "notifications db' = notifications db1"
        by (auto simp: record_operation_result_txn_def insert_operation_output_def map_sum_Inr_iff Let_def
            split: if_splits option.splits sum.splits)
      with db1(1) have "notifications db' = insert_skipping
             (message_rows fresh now forks (if forks
                then find_fork_descendants_txn (map (\<lambda>p. sm_destination_id (fst p)) ps) db else Map.empty) ps)
             (notifications db)"
        by (auto simp: deliver_def insert_notifications_def Let_def split: sum.splits if_splits)
      with True again ps Inr show ?thesis by simp
    next
      case False
      then have "db' = db" using rr(2) by (auto simp: check_None_iff)
      with False again Inr show ?thesis by auto
    qed
  qed
qed

lemma example_db_tables [simp]:
  "workflow_ids (example_db wids) = wids" "notifications (example_db wids) = []"
  "operation_outputs (example_db wids) = []" "streams (example_db wids) = []"
  "workflow_events (example_db wids) = []" "workflow_events_history (example_db wids) = []"
  by (simp_all add: example_db_def workflow_ids_def empty_sysdb_def)
     (simp add: new_status_row_def example_status_def comp_def)

theorem send_bulk_exactly_once_witness:
  "\<exists>db'. send_bulk example_codecs (DBOSDefaultSerializer example_codecs) None (\<lambda>i. ''u'') 30 None
        (Some ''a'') (Some 1) ''DBOS.send'' False 30 31
        [\<lparr>sm_destination_id = ''a'', sm_message = PInt 42, sm_topic = None, sm_idempotency_key = None\<rparr>]
        (example_db [''a'']) = (Inr (), db')
     \<and> length (notifications db') = 1
     \<and> send_bulk example_codecs (DBOSDefaultSerializer example_codecs) None (\<lambda>i. ''v'') 40 None
        (Some ''a'') (Some 1) ''DBOS.send'' False 40 41
        [\<lparr>sm_destination_id = ''a'', sm_message = PInt 42, sm_topic = None, sm_idempotency_key = None\<rparr>]
        db' = (Inr (), db')"
proof -
  let ?sz = "DBOSDefaultSerializer example_codecs"
  let ?m = "\<lparr>sm_destination_id = ''a'', sm_message = PInt 42, sm_topic = None, sm_idempotency_key = None\<rparr>"
  have none: "operation_row (example_db [''a'']) ''a'' 1 = None"
    using example_check [of 1] by (simp add: check_None_iff)
  have prep: "prepare example_codecs ?sz None [?m] = Inr [(?m, ''pickle-42'', ''py_pickle'')]"
    by (simp add: prepare_def serialize_value_def serialize_value_as_def serialization_for_type_def
        DBOSDefaultSerializer_def DBOSPortableJSON_def example_codecs_def)
  obtain db1 where del: "deliver (\<lambda>i. ''u'') 30 False [(?m, ''pickle-42'', ''py_pickle'')] (example_db [''a'']) = Done () db1"
    by (simp add: deliver_def insert_notifications_def insert_skipping_def message_rows_def destinations_def
        message_row_def Let_def)
  from deliver_Done_frame [OF del] have st: "status_row db1 ''a'' = status_row (example_db [''a'']) ''a''"
    and outs: "operation_outputs db1 = operation_outputs (example_db [''a''])" by auto
  from record_last [of "send_result ''a'' 1 ''DBOS.send'' 30" "''DBOS.send''" "example_db [''a'']" db1 None 31]
    example_check [of 1 "''DBOS.send''"] st outs
  obtain db' where "record_operation_result_txn None (send_result ''a'' 1 ''DBOS.send'' 30) 31 db1 = Done () db'"
    by (auto simp: send_result_def)
  with del have run: "send_bulk example_codecs ?sz None (\<lambda>i. ''u'') 30 None (Some ''a'') (Some 1) ''DBOS.send''
      False 30 31 [?m] (example_db [''a'']) = (Inr (), db')"
    by (simp add: send_bulk_def send_bulk_txn_def send_prepared_txn_def provided_keys_def prep engine_begin_def
        example_check)
  from send_bulk_exactly_once [OF run] none prep
  have "length (notifications db') = 1"
    by (simp add: insert_skipping_def message_rows_def destinations_def message_row_def)
  with send_bulk_exactly_once [OF run] run show ?thesis by auto
qed

section \<open>Receiving refines a first-in first-out queue\<close>

text \<open>
  The abstract queue of a workflow and topic: its unconsumed messages, oldest first. The statement orders by
  \<^verbatim>\<open>created_at_epoch_ms\<close> alone and leaves the order of messages of the same millisecond open, as all rows of one
  send are; the model takes the row inserted first. \<open>reading_order\<close> below has every order that the statement allows.
\<close>

definition pending :: "string \<Rightarrow> string \<Rightarrow> sysdb \<Rightarrow> notification_row list" where
  "pending wid topic db = sort_key nt_created_at_epoch_ms (filter (recv_match wid topic) (notifications db))"

lemma oldest_message_pending: "oldest_message wid topic db = fetchone (pending wid topic db)"
  by (simp add: oldest_message_def pending_def)

lemma pending_consume_other:
  assumes "wid' \<noteq> wid \<or> topic' \<noteq> topic"
  shows "pending wid' topic' (consume wid topic m db) = pending wid' topic' db"
proof -
  have "filter (recv_match wid' topic') (sql_update (\<lambda>r. recv_match wid topic r \<and> nt_message_uuid r = nt_message_uuid m)
      (\<lambda>r. r\<lparr>nt_consumed := True\<rparr>) t) = filter (recv_match wid' topic') t" for t
    using assms by (induction t) (auto simp: sql_update_def recv_match_def)
  then show ?thesis by (simp add: pending_def consume_def)
qed

lemma pending_consume:
  assumes inv: "sysdb_inv db" and m: "pending wid topic db = m # rest"
  shows "pending wid topic (consume wid topic m db) = rest"
proof -
  let ?match = "recv_match wid topic"
  have dist: "distinct (map nt_message_uuid (notifications db))"
    using inv by (simp add: sysdb_inv_def children_ok_def child_ok_def)
  have "m \<in> set (pending wid topic db)" using m by simp
  then have min: "m \<in> set (notifications db)" by (simp add: pending_def)
  have same: "nt_message_uuid r = nt_message_uuid m \<longleftrightarrow> r = m" if "r \<in> set (notifications db)" for r
    using distinct_key_eq [OF dist that min] by blast
  have "filter ?match (sql_update (\<lambda>r. ?match r \<and> nt_message_uuid r = nt_message_uuid m)
      (\<lambda>r. r\<lparr>nt_consumed := True\<rparr>) t) = filter (\<lambda>r. r \<noteq> m) (filter ?match t)"
    if "set t \<subseteq> set (notifications db)" for t
    using that by (induction t) (auto simp: sql_update_def same recv_match_def)
  then have "pending wid topic (consume wid topic m db) = filter (\<lambda>r. r \<noteq> m) (pending wid topic db)"
    by (simp add: pending_def consume_def filter_sort)
  moreover have "distinct (pending wid topic db)" using dist by (simp add: pending_def distinct_map)
  ultimately show ?thesis using m by (auto simp: filter_id_conv)
qed

lemma record_keeps_notifications:
  "record_operation_result_txn ex res t db = Done u db' \<Longrightarrow> notifications db' = notifications db"
  by (auto simp: record_operation_result_txn_def insert_operation_output_def map_sum_Inr_iff Let_def
      split: if_splits option.splits sum.splits)

lemma pending_cong: "notifications db = notifications db' \<Longrightarrow> pending wid topic db = pending wid topic db'"
  by (simp add: pending_def)

definition topic_of :: "string option \<Rightarrow> string" where
  "topic_of topic = (case topic of Some t \<Rightarrow> t | None \<Rightarrow> dbos_null_topic)"

lemma recv_consume_run:
  assumes none: "operation_row db wid fid = None"
    and run: "recv_consume cs sz ex wid fid topic s t db = (Inr v, db')"
  shows "case pending wid (topic_of topic) db of
      [] \<Rightarrow> v = PNone \<and> notifications db' = notifications db
    | m # _ \<Rightarrow> deserialize_value cs (Some (nt_message m)) (nt_serialization m) sz = Inr v
         \<and> notifications db' = notifications (consume wid (topic_of topic) m db)"
  using run
  by (auto simp: recv_consume_def recv_consume_txn_def none oldest_message_pending Let_def engine_begin_def
      topic_of_def[symmetric]
      dest!: record_keeps_notifications
      split: list.splits sum.splits prod.splits txn_result.splits elim!: txn_bind.elims)

text \<open>
  C24: Receiving is dequeuing: \<open>recv_consume\<close>, when it has not been recorded before, takes the oldest
  unconsumed message of its workflow and topic (the first of the abstract queue), returns its
  value and leaves exactly the rest of the queue; with an empty queue it returns \<open>None\<close>. The queues
  of all other workflows and topics are unchanged.
\<close>

theorem recv_consume_dequeues:
  assumes inv: "sysdb_inv db" and none: "operation_row db wid fid = None"
    and run: "recv_consume cs sz ex wid fid topic s t db = (Inr v, db')"
  shows "(case pending wid (topic_of topic) db of
      [] \<Rightarrow> v = PNone \<and> pending wid (topic_of topic) db' = []
    | m # rest \<Rightarrow> deserialize_value cs (Some (nt_message m)) (nt_serialization m) sz = Inr v
         \<and> (\<forall>m' \<in> set rest. nt_created_at_epoch_ms m \<le> nt_created_at_epoch_ms m')
         \<and> pending wid (topic_of topic) db' = rest)
    \<and> (\<forall>wid' topic'. wid' \<noteq> wid \<or> topic' \<noteq> topic_of topic \<longrightarrow>
         pending wid' topic' db' = pending wid' topic' db)"
proof (cases "pending wid (topic_of topic) db")
  case Nil
  with recv_consume_run [OF none run] have v: "v = PNone" and n: "notifications db' = notifications db" by auto
  with Nil pending_cong [OF n] show ?thesis by simp
next
  case (Cons m rest)
  with recv_consume_run [OF none run]
  have v: "deserialize_value cs (Some (nt_message m)) (nt_serialization m) sz = Inr v"
    and n: "notifications db' = notifications (consume wid (topic_of topic) m db)" by auto
  have "sorted (map nt_created_at_epoch_ms (m # rest))"
    unfolding Cons [symmetric] by (simp add: pending_def sorted_sort_key)
  with Cons v pending_cong [OF n] pending_consume [OF inv Cons] pending_consume_other
  show ?thesis by auto
qed

definition example_note :: notification_row where
  "example_note = \<lparr>nt_destination_uuid = ''a'', nt_topic = Some dbos_null_topic, nt_message = ''pickle-42'',
     nt_created_at_epoch_ms = 20, nt_message_uuid = ''u'', nt_serialization = Some ''py_pickle'',
     nt_consumed = False\<rparr>"

definition example_mail_db :: sysdb where
  "example_mail_db = (example_db [''a''])\<lparr>notifications := [example_note]\<rparr>"

lemma example_mail_inv: "sysdb_inv example_mail_db"
  using example_inv [of "[''a'']"]
  by (simp add: example_mail_db_def sysdb_inv_def children_ok_def catalog_ok_def child_ok_def
      workflow_ids_def example_note_def example_db_def)
     (simp add: new_status_row_def example_status_def)

lemma example_mail_pending: "pending ''a'' dbos_null_topic example_mail_db = [example_note]"
  by (simp add: pending_def example_mail_db_def recv_match_def) (simp add: example_note_def)

theorem recv_consume_dequeues_witness:
  "\<exists>db'. recv_consume example_codecs (DBOSDefaultSerializer example_codecs) None ''a'' 1 None 30 31
        example_mail_db = (Inr (PInt 42), db')
     \<and> pending ''a'' dbos_null_topic db' = []"
proof -
  let ?sz = "DBOSDefaultSerializer example_codecs"
  have none: "operation_row example_mail_db ''a'' 1 = None"
    using example_check [of 1] by (simp add: check_None_iff example_mail_db_def)
  have st: "status_row example_mail_db ''a'' = Some (new_status_row (example_status ''a'') (Some ''x0'') 10)"
    by (simp add: example_mail_db_def example_row)
  have v: "deserialize_value example_codecs (Some (nt_message example_note)) (nt_serialization example_note) ?sz
      = Inr (PInt 42)"
    by (simp add: deserialize_value_def example_note_def) (simp add: DBOSDefaultSerializer_def example_codecs_def)
  have ser: "serialize_value_as example_codecs (PInt 42) (nt_serialization example_note) ?sz
      = Inr (''pickle-42'', ''py_pickle'')"
    by (simp add: serialize_value_as_def example_note_def) (simp add: DBOSDefaultSerializer_def example_codecs_def)
  let ?res = "step_result ''a'' 1 ''DBOS.recv'' 30 ''pickle-42'' (Some ''py_pickle'')"
  obtain db' where rec: "record_operation_result_txn None ?res 31
      (consume ''a'' dbos_null_topic example_note example_mail_db) = Done () db'"
    using record_operation_fresh [of "consume ''a'' dbos_null_topic example_note example_mail_db" ?res] st none
    by (auto simp: step_result_def consume_def)
  have run: "recv_consume example_codecs ?sz None ''a'' 1 None 30 31 example_mail_db = (Inr (PInt 42), db')"
    using rec v ser
    by (simp add: recv_consume_def recv_consume_txn_def none oldest_message_pending example_mail_pending
        Let_def engine_begin_def)
  from recv_consume_dequeues [OF example_mail_inv none run] run show ?thesis
    by (simp add: topic_of_def example_mail_pending)
qed

text \<open>Replaying a receive.\<close>

lemma txn_bind_Done_iff:
  "txn_bind r f = Done b db' \<longleftrightarrow> (\<exists>a db. r = Done a db \<and> f a db = Done b db')"
  by (cases r) auto

text \<open>
  A received message is received once and for all: when \<open>recv_consume\<close> returned \<open>v\<close>, then in every
  later database that still holds its checkpoint the same receive consumes nothing and returns the
  recorded value (\<open>v\<close>, or its portable form when the message came in the portable format).
\<close>

theorem recv_consume_replay:
  assumes law: "codecs_law cs sz" and none: "operation_row db wid fid = None"
    and run: "recv_consume cs sz ex wid fid topic s t db = (Inr v, db')"
    and later: "operation_row db'' wid fid = operation_row db' wid fid"
  shows "\<exists>v'. (\<forall>ex' topic' s' t'. recv_consume cs sz ex' wid fid topic' s' t' db'' = (Inr v', db''))
    \<and> (v' = v \<or> portableify v = Inr v')"
proof -
  from run none obtain ser0 db1 sermsg ser where
    ser: "serialize_value_as cs v ser0 sz = Inr (sermsg, ser)"
    and rec: "record_operation_result_txn ex (step_result wid fid ''DBOS.recv'' s sermsg (Some ser)) t db1 = Done () db'"
    and outs: "operation_outputs db1 = operation_outputs db"
    by (auto simp: recv_consume_def recv_consume_txn_def Let_def engine_begin_def consume_def txn_bind_Done_iff
        split: option.splits sum.splits prod.splits txn_result.splits)
  let ?res = "step_result wid fid ''DBOS.recv'' s sermsg (Some ser)"
  have "record_operation_result ex ?res t db1 = (Inr (), db')"
    using rec by (simp add: record_operation_result_def)
  moreover have "operation_row db1 wid fid = None" using none operation_row_cong [OF outs] by simp
  ultimately have row: "operation_row db'' wid fid = Some (operation_output_of ?res t)"
    using record_operation_result_row [of ex ?res t db1 db'] later by (simp add: step_result_def)
  from deserialize_serialize [OF law ser] obtain v' where
    v': "deserialize_value cs (Some sermsg) (Some ser) sz = Inr v'" "v' = v \<or> portableify v = Inr v'"
    by (auto split: if_splits)
  have "recv_consume cs sz ex' wid fid topic' s' t' db'' = (Inr v', db'')" for ex' topic' s' t'
    using v'(1) by (simp add: recv_consume_def recv_consume_txn_def row engine_begin_def lift_res_def Let_def)
      (simp add: operation_output_of_def step_result_def)
  with v'(2) show ?thesis by blast
qed

theorem recv_consume_replay_witness:
  "\<exists>db'. recv_consume example_codecs (DBOSDefaultSerializer example_codecs) None ''a'' 1 None 30 31
        example_mail_db = (Inr (PInt 42), db')
     \<and> recv_consume example_codecs (DBOSDefaultSerializer example_codecs) None ''a'' 1 None 50 51 db'
        = (Inr (PInt 42), db')"
proof -
  let ?sz = "DBOSDefaultSerializer example_codecs"
  have none: "operation_row example_mail_db ''a'' 1 = None"
    using example_check [of 1] by (simp add: check_None_iff example_mail_db_def)
  have st: "status_row example_mail_db ''a'' = Some (new_status_row (example_status ''a'') (Some ''x0'') 10)"
    by (simp add: example_mail_db_def example_row)
  have ser: "deserialize_value example_codecs (Some (nt_message example_note)) (nt_serialization example_note) ?sz
      = Inr (PInt 42)"
    "serialize_value_as example_codecs (PInt 42) (nt_serialization example_note) ?sz
      = Inr (''pickle-42'', ''py_pickle'')"
    by (simp_all add: deserialize_value_def serialize_value_as_def example_note_def)
       (simp_all add: DBOSDefaultSerializer_def example_codecs_def)
  let ?res = "step_result ''a'' 1 ''DBOS.recv'' 30 ''pickle-42'' (Some ''py_pickle'')"
  obtain db' where rec: "record_operation_result_txn None ?res 31
      (consume ''a'' dbos_null_topic example_note example_mail_db) = Done () db'"
    using record_operation_fresh [of "consume ''a'' dbos_null_topic example_note example_mail_db" ?res] st none
    by (auto simp: step_result_def consume_def)
  have run: "recv_consume example_codecs ?sz None ''a'' 1 None 30 31 example_mail_db = (Inr (PInt 42), db')"
    using rec ser
    by (simp add: recv_consume_def recv_consume_txn_def none oldest_message_pending example_mail_pending
        Let_def engine_begin_def)
  from recv_consume_replay [OF example_codecs_law none run refl] run show ?thesis by auto
qed

lemma sort_key_append_later:
  assumes "\<forall>x \<in> set xs. f x \<le> k" "\<forall>y \<in> set ys. f y = (k :: int)"
  shows "sort_key f (xs @ ys) = sort_key f xs @ ys"
proof (rule properties_for_sort_key)
  have "map f ys = replicate (length ys) k" using assms(2) by (induction ys) auto
  then show "sorted (map f (sort_key f xs @ ys))" using assms
    by (auto simp: sorted_append sorted_sort_key)
  show "\<And>x. x \<in> set (sort_key f xs @ ys) \<Longrightarrow>
      filter (\<lambda>y. f x = f y) (sort_key f xs @ ys) = filter (\<lambda>y. f x = f y) (xs @ ys)"
    using sort_key_stable [of f _ xs] by (simp add: eq_commute)
qed simp

text \<open>
  An order in which the messages of a workflow and topic may be received: all the unconsumed ones, by
  \<open>created_at_epoch_ms\<close>, messages of the same millisecond in any order. The queue above is one.
\<close>

definition reading_order :: "string \<Rightarrow> string \<Rightarrow> sysdb \<Rightarrow> notification_row list \<Rightarrow> bool" where
  "reading_order wid topic db q \<longleftrightarrow> mset q = mset (filter (recv_match wid topic) (notifications db))
     \<and> sorted (map nt_created_at_epoch_ms q)"

lemma pending_reading_order: "reading_order wid topic db (pending wid topic db)"
  by (simp add: reading_order_def pending_def)

lemma sorted_partition:
  "sorted (map f q) \<Longrightarrow> filter (\<lambda>x. f x < k) q @ filter (\<lambda>x. \<not> f x < k) q = q"
proof (induction q)
  case (Cons x q)
  have "filter (\<lambda>x. f x < k) q = []" if "\<not> f x < k" using Cons.prems that by (fastforce simp: filter_empty_conv)
  with Cons show ?case by auto
qed simp

lemma sorted_mset_append:
  assumes x: "\<forall>x \<in> set xs. f x < k" and y: "\<forall>y \<in> set ys. f y = (k :: 'b :: linorder)"
  shows "mset q = mset (xs @ ys) \<and> sorted (map f q) \<longleftrightarrow>
    (\<exists>us vs. q = us @ vs \<and> (mset us = mset xs \<and> sorted (map f us)) \<and> mset vs = mset ys)"
proof
  assume q: "mset q = mset (xs @ ys) \<and> sorted (map f q)"
  let ?us = "filter (\<lambda>x. f x < k) q" and ?vs = "filter (\<lambda>x. \<not> f x < k) q"
  have "filter (\<lambda>x. f x < k) (xs @ ys) = xs" "filter (\<lambda>x. \<not> f x < k) (xs @ ys) = ys"
    using x y by (auto simp: filter_id_conv filter_empty_conv)
  moreover from q have "mset ?us = mset (filter (\<lambda>x. f x < k) (xs @ ys))" "mset ?vs = mset (filter (\<lambda>x. \<not> f x < k) (xs @ ys))"
    by (simp_all only: mset_filter)
  ultimately have "mset ?us = mset xs" "mset ?vs = mset ys" by simp_all
  moreover have "sorted (map f ?us)" using q by (simp add: sorted_filter)
  moreover have "q = ?us @ ?vs" using q sorted_partition [of f q k] by simp
  ultimately show "\<exists>us vs. q = us @ vs \<and> (mset us = mset xs \<and> sorted (map f us)) \<and> mset vs = mset ys" by blast
next
  assume "\<exists>us vs. q = us @ vs \<and> (mset us = mset xs \<and> sorted (map f us)) \<and> mset vs = mset ys"
  then obtain us vs where q: "q = us @ vs" "mset us = mset xs" "sorted (map f us)" "mset vs = mset ys" by blast
  have "set us = set xs" "set vs = set ys" using q(2,4) by (metis set_mset_mset)+
  moreover from this y have "map f vs = replicate (length vs) k" by (intro replicate_eqI) auto
  ultimately show "mset q = mset (xs @ ys) \<and> sorted (map f q)" using x y q
    by (auto simp: sorted_append)
qed

text \<open>
  C25: Sending is enqueuing. A send from outside a workflow, not addressed to the forks of its destinations, with
  message UUIDs that are new and a clock later than every message in the database, joins the end of the queues: the
  orders in which the messages of a workflow and topic may be received after the send are those before it followed
  by the new messages of that workflow and topic, which share a millisecond, in any order. A queue that the send
  does not address keeps its orders.
\<close>

theorem send_bulk_enqueues:
  assumes prep: "prepare cs sz ty ms = Inr ps"
    and run: "send_bulk cs sz ex fresh now ty None None name False s t ms db = (Inr (), db')"
    and uuids: "distinct (map nt_message_uuid (message_rows fresh now False Map.empty ps))"
      "nt_message_uuid ` set (message_rows fresh now False Map.empty ps)
         \<inter> nt_message_uuid ` set (notifications db) = {}"
    and clock: "\<forall>r \<in> set (notifications db). nt_created_at_epoch_ms r < now"
  shows "reading_order wid topic db' q \<longleftrightarrow> (\<exists>old new. q = old @ new \<and> reading_order wid topic db old
    \<and> mset new = mset (filter (recv_match wid topic) (message_rows fresh now False Map.empty ps)))"
proof -
  let ?rows = "message_rows fresh now False Map.empty ps"
  from run prep have "deliver fresh now False ps db = Done () db'"
    by (auto simp: send_bulk_def send_bulk_txn_def send_prepared_txn_def engine_begin_def
        split: if_splits txn_result.splits)
  then have "notifications db' = insert_skipping ?rows (notifications db)"
    by (auto simp: deliver_def insert_notifications_def Let_def split: if_splits)
  also have "\<dots> = notifications db @ ?rows" using uuids by (rule insert_skipping_fresh)
  finally have n: "notifications db' = notifications db @ ?rows" .
  have "nt_created_at_epoch_ms r = now" if "r \<in> set ?rows" for r
    using that by (auto simp: message_rows_def message_row_def)
  then show ?thesis unfolding reading_order_def n filter_append
    using clock by (intro sorted_mset_append [where k = now]) auto
qed

theorem send_bulk_enqueues_witness:
  "\<exists>db'. send_bulk example_codecs (DBOSDefaultSerializer example_codecs) None (\<lambda>i. ''v'') 30 None
        None None ''DBOS.send'' False 30 31
        [\<lparr>sm_destination_id = ''a'', sm_message = PInt 42, sm_topic = None, sm_idempotency_key = None\<rparr>]
        example_mail_db = (Inr (), db')
     \<and> map nt_message_uuid ` {q. reading_order ''a'' dbos_null_topic db' q} = {[''u'', ''v'']}"
proof -
  let ?sz = "DBOSDefaultSerializer example_codecs"
  let ?m = "\<lparr>sm_destination_id = ''a'', sm_message = PInt 42, sm_topic = None, sm_idempotency_key = None\<rparr>"
  let ?ps = "[(?m, ''pickle-42'', ''py_pickle'')]"
  let ?row = "\<lparr>nt_destination_uuid = ''a'', nt_topic = Some dbos_null_topic, nt_message = ''pickle-42'',
     nt_created_at_epoch_ms = 30, nt_message_uuid = ''v'', nt_serialization = Some ''py_pickle'',
     nt_consumed = False\<rparr>"
  have prep: "prepare example_codecs ?sz None [?m] = Inr ?ps"
    by (simp add: prepare_def serialize_value_def serialize_value_as_def serialization_for_type_def
        DBOSDefaultSerializer_def DBOSPortableJSON_def example_codecs_def)
  have rows: "message_rows (\<lambda>i. ''v'') 30 False Map.empty ?ps = [?row]"
    by (simp add: message_rows_def message_row_def destinations_def message_uuid_of_def)
  have tables: "notifications example_mail_db = [example_note]" "workflow_ids example_mail_db = [''a'']"
    using example_db_tables(1) [of "[''a'']"] by (simp_all add: example_mail_db_def workflow_ids_def)
  obtain db' where run: "send_bulk example_codecs ?sz None (\<lambda>i. ''v'') 30 None None None ''DBOS.send'' False 30 31
      [?m] example_mail_db = (Inr (), db')"
    using rows tables
    by (simp add: send_bulk_def send_bulk_txn_def send_prepared_txn_def provided_keys_def prep engine_begin_def
        deliver_def insert_notifications_def insert_skipping_def example_note_def)
  have old: "reading_order ''a'' dbos_null_topic example_mail_db q \<longleftrightarrow> q = [example_note]" for q
    by (auto simp: reading_order_def tables recv_match_def) (simp_all add: example_note_def)
  have "reading_order ''a'' dbos_null_topic db' q \<longleftrightarrow> (\<exists>old new. q = old @ new
      \<and> reading_order ''a'' dbos_null_topic example_mail_db old
      \<and> mset new = mset (filter (recv_match ''a'' dbos_null_topic) (message_rows (\<lambda>i. ''v'') 30 False Map.empty ?ps)))" for q
    by (rule send_bulk_enqueues [OF prep run]) (simp_all add: rows tables, simp_all add: example_note_def)
  then have "{q. reading_order ''a'' dbos_null_topic db' q} = {[example_note, ?row]}"
    by (auto simp: old rows recv_match_def)
  with run show ?thesis by (simp add: example_note_def)
qed

end
