(* ===== verification/DBOS_Event_Dict.thy ===== *)
theory DBOS_Event_Dict
  imports DBOS_Prelude
begin

text \<open>
  The in-memory registry of waiters (\<open>ThreadSafeEventDict\<close> of \<^verbatim>\<open>dbos/_sys_db.py\<close>): one event per key with
  the number of callers waiting on it. Every operation runs under the lock, so it is one step. The
  dict keeps its insertion order; events are numbered.
\<close>

record EventCount =
  ec_event :: nat
  ec_count :: int
  ec_components :: "string \<times> string"

type_synonym event_dict = "(string \<times> EventCount) list"

definition event_get :: "string \<Rightarrow> event_dict \<Rightarrow> nat option" where
  "event_get key d = map_option ec_event (map_of d key)"

definition event_set :: "string \<Rightarrow> nat \<Rightarrow> string \<times> string \<Rightarrow> event_dict \<Rightarrow> (bool \<times> nat) \<times> event_dict" where
  "event_set key ev components d = (case map_of d key of
     Some ec \<Rightarrow> ((False, ec_event ec),
        map (\<lambda>(k, e). if k = key then (k, e\<lparr>ec_count := ec_count e + 1\<rparr>) else (k, e)) d)
   | None \<Rightarrow> ((True, ev), d @ [(key, \<lparr>ec_event = ev, ec_count = 1, ec_components = components\<rparr>)]))"

text \<open>A missing key is only logged.\<close>

definition event_pop :: "string \<Rightarrow> event_dict \<Rightarrow> event_dict" where
  "event_pop key d = (case map_of d key of
     None \<Rightarrow> d
   | Some ec \<Rightarrow> if ec_count ec - 1 = 0 then filter (\<lambda>(k, e). k \<noteq> key) d
       else map (\<lambda>(k, e). if k = key then (k, e\<lparr>ec_count := ec_count e - 1\<rparr>) else (k, e)) d)"

definition event_snapshot :: "event_dict \<Rightarrow> (string \<times> (string \<times> string) \<times> nat) list" where
  "event_snapshot d = map (\<lambda>(k, e). (k, ec_components e, ec_event e)) d"

section \<open>The registry counts its waiters\<close>

definition event_dict_ok :: "event_dict \<Rightarrow> bool" where
  "event_dict_ok d \<longleftrightarrow> distinct (map fst d) \<and> (\<forall>(k, e) \<in> set d. 0 < ec_count e)"

text \<open>The number of waiters registered for a key.\<close>

definition waiters :: "event_dict \<Rightarrow> string \<Rightarrow> int" where
  "waiters d key = (case map_of d key of None \<Rightarrow> 0 | Some e \<Rightarrow> ec_count e)"

lemma map_of_map_entry:
  "map_of (map (\<lambda>(k, e). if k = key then (k, f e) else (k, e)) d) k'
   = (if k' = key then map_option f (map_of d key) else map_of d k')"
  by (induction d) auto

lemma map_fst_entry: "map fst (map (\<lambda>(k, e). if k = key then (k, f e) else (k, e)) d) = map fst d"
  by (induction d) auto

lemma map_of_filter_key: "map_of (filter (\<lambda>(k, e). k \<noteq> key) d) k' = (if k' = key then None else map_of d k')"
  by (induction d) auto

lemma event_set_waiters: "waiters (snd (event_set key ev c d)) k = waiters d k + (if k = key then 1 else 0)"
proof (cases "map_of d key")
  case None
  then show ?thesis by (auto simp: event_set_def waiters_def map_add_def split: option.splits)
next
  case (Some e)
  then show ?thesis by (auto simp: event_set_def waiters_def map_of_map_entry)
qed

lemma event_pop_waiters:
  assumes "event_dict_ok d"
  shows "waiters (event_pop key d) k = (if k = key then max 0 (waiters d k - 1) else waiters d k)"
proof (cases "map_of d key")
  case None
  then show ?thesis by (simp add: event_pop_def waiters_def)
next
  case (Some e)
  then have "0 < ec_count e" using assms by (auto simp: event_dict_ok_def dest: map_of_SomeD)
  with Some show ?thesis by (simp add: event_pop_def waiters_def map_of_map_entry map_of_filter_key)
qed

lemma entry_update_ok:
  assumes "event_dict_ok d" "\<And>e. (key, e) \<in> set d \<Longrightarrow> 0 < ec_count (f e)"
  shows "event_dict_ok (map (\<lambda>(k, e). if k = key then (k, f e) else (k, e)) d)"
proof -
  have "distinct (map fst (map (\<lambda>(k, e). if k = key then (k, f e) else (k, e)) d))"
    unfolding map_fst_entry using assms(1) by (simp add: event_dict_ok_def)
  moreover have "0 < ec_count e'"
    if "(k', e') \<in> set (map (\<lambda>(k, e). if k = key then (k, f e) else (k, e)) d)" for k' e'
  proof -
    from that obtain k e where ke: "(k, e) \<in> set d" "(k', e') = (if k = key then (k, f e) else (k, e))"
      by (auto split: prod.splits)
    then show ?thesis using assms by (cases "k = key") (auto simp: event_dict_ok_def)
  qed
  ultimately show ?thesis unfolding event_dict_ok_def by blast
qed

lemma event_set_ok:
  assumes "event_dict_ok d"
  shows "event_dict_ok (snd (event_set key ev c d))"
proof (cases "map_of d key")
  case None
  then have "key \<notin> fst ` set d" by (simp add: map_of_eq_None_iff)
  with None assms show ?thesis by (auto simp: event_set_def event_dict_ok_def)
next
  case (Some e)
  have "event_dict_ok (map (\<lambda>(k, e). if k = key then (k, e\<lparr>ec_count := ec_count e + 1\<rparr>) else (k, e)) d)"
    using assms by (intro entry_update_ok) (auto simp: event_dict_ok_def)
  with Some show ?thesis by (simp add: event_set_def)
qed

lemma event_pop_ok:
  assumes "event_dict_ok d"
  shows "event_dict_ok (event_pop key d)"
proof (cases "map_of d key")
  case None
  then show ?thesis using assms by (simp add: event_pop_def)
next
  case (Some e)
  have dist: "distinct (map fst d)" and pos: "\<And>k e. (k, e) \<in> set d \<Longrightarrow> 0 < ec_count e"
    using assms by (auto simp: event_dict_ok_def)
  have only: "e' = e" if "(key, e') \<in> set d" for e'
    using that Some dist by (metis map_of_eq_Some_iff option.inject)
  show ?thesis
  proof (cases "ec_count e - 1 = 0")
    case True
    have "distinct (map fst (filter (\<lambda>(k, e). k \<noteq> key) d))"
      using dist by (simp add: distinct_map inj_on_def)
    then show ?thesis using Some True pos by (auto simp: event_pop_def event_dict_ok_def)
  next
    case False
    have "0 < ec_count e" using pos map_of_SomeD [OF Some] by blast
    with False have "0 < ec_count e' - 1" if "(key, e') \<in> set d" for e' using only [OF that] by simp
    then have "event_dict_ok (map (\<lambda>(k, e). if k = key then (k, e\<lparr>ec_count := ec_count e - 1\<rparr>) else (k, e)) d)"
      using assms by (intro entry_update_ok) auto
    with Some False show ?thesis by (simp add: event_pop_def)
  qed
qed

lemma event_pop_set_absent:
  assumes "event_dict_ok d" "map_of d key = None"
  shows "event_pop key (snd (event_set key ev c d)) = d"
proof -
  have "(key, e) \<notin> set d" for e using assms(2) by (auto simp: map_of_eq_None_iff image_iff)
  then have "filter (\<lambda>(k, e). k \<noteq> key) d = d" by (auto simp: filter_id_conv)
  moreover have "map_of (d @ [(key, e)]) key = Some e" for e
    using assms(2) by (simp add: map_add_def)
  ultimately show ?thesis using assms(2) by (simp add: event_set_def event_pop_def del: map_of_append)
qed

lemma event_pop_set_present:
  assumes "event_dict_ok d" "map_of d key = Some e"
  shows "event_pop key (snd (event_set key ev c d)) = d"
proof -
  have "0 < ec_count e" using assms by (auto simp: event_dict_ok_def dest: map_of_SomeD)
  then have "ec_count e + 1 - 1 \<noteq> 0" by simp
  then show ?thesis using assms(2)
    by (auto simp: event_set_def event_pop_def map_of_map_entry intro!: map_idI)
qed

lemma event_pop_set: "event_dict_ok d \<Longrightarrow> event_pop key (snd (event_set key ev c d)) = d"
  by (cases "map_of d key") (simp_all add: event_pop_set_absent event_pop_set_present)

section \<open>Any interleaving of waiters\<close>

datatype event_op = SetOp string nat "string \<times> string" | PopOp string

fun event_step :: "event_op \<Rightarrow> event_dict \<Rightarrow> event_dict" where
  "event_step (SetOp k ev c) d = snd (event_set k ev c d)"
| "event_step (PopOp k) d = event_pop k d"

text \<open>Waiters pop only what they set: at no point are there more pops than sets of a key.\<close>

fun set_minus_pop :: "string \<Rightarrow> event_op list \<Rightarrow> int" where
  "set_minus_pop key [] = 0"
| "set_minus_pop key (SetOp k ev c # ops) = (if k = key then 1 else 0) + set_minus_pop key ops"
| "set_minus_pop key (PopOp k # ops) = set_minus_pop key ops - (if k = key then 1 else 0)"

definition balanced :: "string \<Rightarrow> event_op list \<Rightarrow> bool" where
  "balanced key ops \<longleftrightarrow> (\<forall>n \<le> length ops. 0 \<le> set_minus_pop key (take n ops))"

lemma set_minus_pop_snoc: "set_minus_pop key (ops @ [x]) = set_minus_pop key ops + set_minus_pop key [x]"
  by (induction key ops rule: set_minus_pop.induct) auto

lemma balanced_snoc:
  assumes "balanced key (ops @ [x])"
  shows "balanced key ops \<and> 0 \<le> set_minus_pop key (ops @ [x])"
proof
  show "balanced key ops" unfolding balanced_def
  proof (intro allI impI)
    fix n assume "n \<le> length ops"
    then show "0 \<le> set_minus_pop key (take n ops)"
      using assms [unfolded balanced_def, rule_format, of n] by simp
  qed
  show "0 \<le> set_minus_pop key (ops @ [x])"
    using assms [unfolded balanced_def, rule_format, of "length (ops @ [x])"] by simp
qed

lemma event_dict_run_ok: "event_dict_ok (fold event_step ops [])"
proof (induction ops rule: rev_induct)
  case Nil
  then show ?case by (simp add: event_dict_ok_def)
next
  case (snoc x ops)
  then show ?case by (cases x) (simp_all add: event_set_ok event_pop_ok)
qed

text \<open>
  The registry counts its waiters under any interleaving: starting empty, after any sequence of
  \<open>set\<close> and \<open>pop\<close> calls in which callers pop only what they have set, a key is present exactly when
  some waiter of it has not popped yet, with the number of these waiters as its count.
\<close>

theorem event_dict_counts:
  assumes "balanced key ops"
  shows "waiters (fold event_step ops []) key = set_minus_pop key ops
    \<and> (event_get key (fold event_step ops []) = None \<longleftrightarrow> set_minus_pop key ops = 0)"
proof -
  have w: "waiters (fold event_step ops []) key = set_minus_pop key ops"
    using assms
  proof (induction ops rule: rev_induct)
    case (snoc x ops)
    from balanced_snoc [OF snoc.prems]
    have bal: "balanced key ops" "0 \<le> set_minus_pop key (ops @ [x])" by auto
    from snoc.IH [OF bal(1)] bal(2) show ?case
      by (cases x) (auto simp: event_set_waiters event_pop_waiters event_dict_run_ok set_minus_pop_snoc)
  qed (simp add: waiters_def)
  moreover have "event_get key (fold event_step ops []) = None \<longleftrightarrow> waiters (fold event_step ops []) key = 0"
    using event_dict_run_ok [of ops]
    by (auto simp: event_get_def waiters_def event_dict_ok_def dest!: map_of_SomeD split: option.splits)
  ultimately show ?thesis by simp
qed

theorem event_dict_counts_witness:
  "waiters (fold event_step [SetOp ''k'' 1 (''a'', ''b''), SetOp ''k'' 2 (''a'', ''b''), PopOp ''k''] []) ''k'' = 1"
proof -
  have "balanced ''k'' [SetOp ''k'' 1 (''a'', ''b''), SetOp ''k'' 2 (''a'', ''b''), PopOp ''k'']"
    by (auto simp: balanced_def le_Suc_eq)
  from event_dict_counts [OF this] show ?thesis by simp
qed

end
