(* ===== verification/DBOS_Events.thy ===== *)
theory DBOS_Events
  imports DBOS_Messages DBOS_Event_Dict
begin

text \<open>
  Workflow events (\<^verbatim>\<open>dbos/_sys_db.py\<close>): a workflow publishes a value under a key, others read the
  latest value; the history keeps the value each step set. Also the set-up phases of \<open>recv\<close> and
  \<open>get_event\<close>, which look for a recorded result, register a waiter in memory and record the durable
  timeout.
\<close>

section \<open>Setting events\<close>

definition upsert_event :: "string \<Rightarrow> string \<Rightarrow> string \<Rightarrow> string \<Rightarrow> sysdb \<Rightarrow> sysdb res" where
  "upsert_event wid key val ser db =
     (if (wid, key) \<in> we_pk ` set (workflow_events db)
      then Inr (db\<lparr>workflow_events := sql_update (\<lambda>r. we_pk r = (wid, key))
             (\<lambda>r. r\<lparr>we_value := val, we_serialization := Some ser\<rparr>) (workflow_events db)\<rparr>)
      else insert_event \<lparr>we_workflow_uuid = wid, we_key = key, we_value = val,
             we_serialization = Some ser\<rparr> db)"

definition upsert_event_history ::
  "string \<Rightarrow> int \<Rightarrow> string \<Rightarrow> string \<Rightarrow> string \<Rightarrow> sysdb \<Rightarrow> sysdb res" where
  "upsert_event_history wid fid key val ser db =
     (if (wid, key, fid) \<in> weh_pk ` set (workflow_events_history db)
      then Inr (db\<lparr>workflow_events_history := sql_update (\<lambda>r. weh_pk r = (wid, key, fid))
             (\<lambda>r. r\<lparr>weh_value := val, weh_serialization := Some ser\<rparr>) (workflow_events_history db)\<rparr>)
      else insert_event_history \<lparr>weh_workflow_uuid = wid, weh_key = key, weh_value = val,
             weh_function_id = fid, weh_serialization = Some ser\<rparr> db)"

definition store_event :: "string \<Rightarrow> int \<Rightarrow> string \<Rightarrow> string \<Rightarrow> string \<Rightarrow> sysdb \<Rightarrow> unit txn_result" where
  "store_event wid fid key val ser db =
     txn_bind (lift_db (upsert_event wid key val ser db)) (\<lambda>_ db1.
       lift_db (upsert_event_history wid fid key val ser db1))"

definition set_event_txn ::
  "string option \<Rightarrow> string \<Rightarrow> int \<Rightarrow> string \<Rightarrow> string \<Rightarrow> string \<Rightarrow> int \<Rightarrow> int \<Rightarrow> sysdb \<Rightarrow> unit txn_result" where
  "set_event_txn executor_id wid fid key val ser start completed db =
     (case check_operation_execution_txn wid fid ''DBOS.setEvent'' db of
        Inl e \<Rightarrow> Raise e
      | Inr (Some _) \<Rightarrow> Done () db
      | Inr None \<Rightarrow> txn_bind (store_event wid fid key val ser db) (\<lambda>_ db1.
          record_operation_result_txn executor_id (send_result wid fid ''DBOS.setEvent'' start) completed db1))"

definition set_event_from_workflow ::
  "codecs \<Rightarrow> Serializer \<Rightarrow> string option \<Rightarrow> string \<Rightarrow> int \<Rightarrow> string \<Rightarrow> pyval \<Rightarrow> WorkflowSerializationFormat
   \<Rightarrow> int \<Rightarrow> int \<Rightarrow> sysdb \<Rightarrow> unit res \<times> sysdb" where
  "set_event_from_workflow cs sz executor_id wid fid key message ser_type start completed db =
     (case serialize_value cs message (Some ser_type) sz of
        Inl e \<Rightarrow> (Inl e, db)
      | Inr (val, ser) \<Rightarrow> engine_begin (set_event_txn executor_id wid fid key val ser start completed) db)"

definition set_event_from_step ::
  "codecs \<Rightarrow> Serializer \<Rightarrow> string \<Rightarrow> int \<Rightarrow> string \<Rightarrow> pyval \<Rightarrow> WorkflowSerializationFormat
   \<Rightarrow> sysdb \<Rightarrow> unit res \<times> sysdb" where
  "set_event_from_step cs sz wid fid key message ser_type db =
     (case serialize_value cs message (Some ser_type) sz of
        Inl e \<Rightarrow> (Inl e, db)
      | Inr (val, ser) \<Rightarrow> engine_begin (store_event wid fid key val ser) db)"

section \<open>Reading events\<close>

definition event_row :: "sysdb \<Rightarrow> string \<Rightarrow> string \<Rightarrow> workflow_event_row option" where
  "event_row db wid key = fetchone (filter (\<lambda>r. we_pk r = (wid, key)) (workflow_events db))"

definition get_all_events :: "codecs \<Rightarrow> Serializer \<Rightarrow> string \<Rightarrow> sysdb \<Rightarrow> (string \<times> pyval) list res" where
  "get_all_events cs sz wid db = res_map (\<lambda>r.
     res_bind (deserialize_value cs (Some (we_value r)) (we_serialization r) sz) (\<lambda>v. Inr (we_key r, v)))
     (filter (\<lambda>r. we_workflow_uuid r = wid) (workflow_events db))"

record GetEventWorkflowContext =
  gc_workflow_uuid :: string
  gc_function_id :: int
  gc_timeout_function_id :: int

text \<open>The value as it was read, and its serialization.\<close>

definition read_event ::
  "codecs \<Rightarrow> Serializer \<Rightarrow> string \<Rightarrow> string \<Rightarrow> sysdb \<Rightarrow> (pyval \<times> string option) res" where
  "read_event cs sz target key db = (case event_row db target key of
     None \<Rightarrow> Inr (PNone, None)
   | Some r \<Rightarrow> res_bind (deserialize_value cs (Some (we_value r)) (we_serialization r) sz)
       (\<lambda>v. Inr (v, we_serialization r)))"

definition get_event_consume ::
  "codecs \<Rightarrow> Serializer \<Rightarrow> string option \<Rightarrow> string \<Rightarrow> string \<Rightarrow> int \<Rightarrow> GetEventWorkflowContext option \<Rightarrow> int
   \<Rightarrow> sysdb \<Rightarrow> pyval res \<times> sysdb" where
  "get_event_consume cs sz executor_id target key start caller completed db =
     (case read_event cs sz target key db of
        Inl e \<Rightarrow> (Inl e, db)
      | Inr (v, ser0) \<Rightarrow> (case caller of
          None \<Rightarrow> (Inr v, db)
        | Some c \<Rightarrow> (case serialize_value_as cs v ser0 sz of
            Inl e \<Rightarrow> (Inl e, db)
          | Inr (out, ser) \<Rightarrow> (case record_operation_result executor_id
              (step_result (gc_workflow_uuid c) (gc_function_id c) ''DBOS.getEvent'' start out (Some ser))
              completed db of
                (Inl e, db1) \<Rightarrow> (Inl e, db1)
              | (Inr _, db1) \<Rightarrow> (Inr v, db1)))))"

definition get_event_check :: "string \<Rightarrow> string \<Rightarrow> sysdb \<Rightarrow> bool" where
  "get_event_check target key db \<longleftrightarrow> filter (\<lambda>r. we_pk r = (target, key)) (workflow_events db) \<noteq> []"

section \<open>Set-up of waiting operations\<close>

text \<open>
  A recorded result, or a registered waiter: its event, whether a first look at the database has
  signalled it, the timeout and the key to unregister.
\<close>

datatype EventSetupResult = Cached pyval | Waiting nat bool rat string

definition replay_output :: "codecs \<Rightarrow> Serializer \<Rightarrow> RecordedResult \<Rightarrow> pyval res" where
  "replay_output cs sz rr = (case rr_output rr of
     Some out \<Rightarrow> deserialize_value cs (Some out) (rr_serialization rr) sz
   | None \<Rightarrow> Inl (PyException ''No output recorded''))"

definition recv_setup ::
  "codecs \<Rightarrow> Serializer \<Rightarrow> string option \<Rightarrow> string \<Rightarrow> int \<Rightarrow> int \<Rightarrow> string option \<Rightarrow> rat \<Rightarrow> nat
   \<Rightarrow> int \<Rightarrow> rat \<Rightarrow> int \<Rightarrow> rat \<Rightarrow> event_dict \<Rightarrow> sysdb \<Rightarrow> EventSetupResult res \<times> event_dict \<times> sysdb" where
  "recv_setup cs sz executor_id wid fid timeout_fid topic0 timeout_seconds ev start t1 completed t2 waiting db =
     (let topic = topic_of topic0 in
      case check_operation_execution wid fid ''DBOS.recv'' db of
        (Inl e, db1) \<Rightarrow> (Inl e, waiting, db1)
      | (Inr (Some rr), db1) \<Rightarrow>
          (case replay_output cs sz rr of Inl e \<Rightarrow> (Inl e, waiting, db1) | Inr v \<Rightarrow> (Inr (Cached v), waiting, db1))
      | (Inr None, db1) \<Rightarrow>
          (let payload = wid @ ''::'' @ topic;
               ((success, event), waiting1) = event_set payload ev (wid, topic) waiting
           in if \<not> success then (Inl (DBOSWorkflowConflictIDError wid), event_pop payload waiting1, db1)
              else (case record_sleep cs sz executor_id wid timeout_fid timeout_seconds start t1 completed t2 db1 of
                  (Inl e, db2) \<Rightarrow> (Inl e, event_pop payload waiting1, db2)
                | (Inr actual_timeout, db2) \<Rightarrow>
                    (Inr (Waiting event (recv_check wid (Some topic) db1) actual_timeout payload), waiting1, db2))))"

definition get_event_setup ::
  "codecs \<Rightarrow> Serializer \<Rightarrow> string option \<Rightarrow> string \<Rightarrow> string \<Rightarrow> rat \<Rightarrow> GetEventWorkflowContext option \<Rightarrow> nat
   \<Rightarrow> int \<Rightarrow> rat \<Rightarrow> int \<Rightarrow> rat \<Rightarrow> event_dict \<Rightarrow> sysdb \<Rightarrow> EventSetupResult res \<times> event_dict \<times> sysdb" where
  "get_event_setup cs sz executor_id target key timeout_seconds caller ev start t1 completed t2 waiting db =
     (case (case caller of None \<Rightarrow> (Inr None, db)
            | Some c \<Rightarrow> check_operation_execution (gc_workflow_uuid c) (gc_function_id c) ''DBOS.getEvent'' db) of
        (Inl e, db1) \<Rightarrow> (Inl e, waiting, db1)
      | (Inr (Some rr), db1) \<Rightarrow>
          (case replay_output cs sz rr of Inl e \<Rightarrow> (Inl e, waiting, db1) | Inr v \<Rightarrow> (Inr (Cached v), waiting, db1))
      | (Inr None, db1) \<Rightarrow>
          (let payload = target @ ''::'' @ key;
               ((success, event), waiting1) = event_set payload ev (target, key) waiting
           in case (case caller of None \<Rightarrow> (Inr timeout_seconds, db1)
                    | Some c \<Rightarrow> record_sleep cs sz executor_id (gc_workflow_uuid c) (gc_timeout_function_id c)
                        timeout_seconds start t1 completed t2 db1) of
                (Inl e, db2) \<Rightarrow> (Inl e, event_pop payload waiting1, db2)
              | (Inr actual_timeout, db2) \<Rightarrow>
                  (Inr (Waiting event (get_event_check target key db1) actual_timeout payload), waiting1, db2)))"

section \<open>Setting an event keeps the constraints\<close>

lemma sysdb_inv_events:
  assumes "sysdb_inv db" "child_ok (set (workflow_ids db)) we_pk we_workflow_uuid t"
  shows "sysdb_inv (db\<lparr>workflow_events := t\<rparr>)"
  using assms by (simp add: sysdb_inv_def children_ok_def catalog_ok_def workflow_ids_def)

lemma sysdb_inv_events_history:
  assumes "sysdb_inv db" "child_ok (set (workflow_ids db)) weh_pk weh_workflow_uuid t"
  shows "sysdb_inv (db\<lparr>workflow_events_history := t\<rparr>)"
  using assms by (simp add: sysdb_inv_def children_ok_def catalog_ok_def workflow_ids_def)

lemma upsert_event_inv [inv_intros]:
  assumes "upsert_event wid key val ser db = Inr db'" "sysdb_inv db"
  shows "sysdb_inv db'"
proof (cases "(wid, key) \<in> we_pk ` set (workflow_events db)")
  case True
  have "child_ok (set (workflow_ids db)) we_pk we_workflow_uuid
      (sql_update (\<lambda>r. we_pk r = (wid, key)) (\<lambda>r. r\<lparr>we_value := val, we_serialization := Some ser\<rparr>)
        (workflow_events db))"
    using assms(2) by (intro child_ok_update) (auto simp: sysdb_inv_def children_ok_def)
  with True assms show ?thesis by (auto simp: upsert_event_def intro: sysdb_inv_events)
next
  case False
  with assms show ?thesis unfolding upsert_event_def by (simp add: insert_event_inv)
qed

lemma upsert_event_history_inv [inv_intros]:
  assumes "upsert_event_history wid fid key val ser db = Inr db'" "sysdb_inv db"
  shows "sysdb_inv db'"
proof (cases "(wid, key, fid) \<in> weh_pk ` set (workflow_events_history db)")
  case True
  have "child_ok (set (workflow_ids db)) weh_pk weh_workflow_uuid
      (sql_update (\<lambda>r. weh_pk r = (wid, key, fid)) (\<lambda>r. r\<lparr>weh_value := val, weh_serialization := Some ser\<rparr>)
        (workflow_events_history db))"
    using assms(2) by (intro child_ok_update) (auto simp: sysdb_inv_def children_ok_def)
  with True assms show ?thesis by (auto simp: upsert_event_history_def intro: sysdb_inv_events_history)
next
  case False
  with assms show ?thesis unfolding upsert_event_history_def by (simp add: insert_event_history_inv)
qed

lemma upsert_event_frame:
  "upsert_event wid key val ser db = Inr db' \<Longrightarrow> workflow_status db' = workflow_status db
   \<and> operation_outputs db' = operation_outputs db \<and> workflow_events_history db' = workflow_events_history db"
  by (auto simp: upsert_event_def insert_event_def map_sum_Inr_iff split: if_splits)

lemma upsert_event_history_frame:
  "upsert_event_history wid fid key val ser db = Inr db' \<Longrightarrow> workflow_status db' = workflow_status db
   \<and> operation_outputs db' = operation_outputs db \<and> workflow_events db' = workflow_events db"
  by (auto simp: upsert_event_history_def insert_event_history_def map_sum_Inr_iff split: if_splits)

lemma lift_db_simps [simp]:
  "lift_db r = Done u db' \<longleftrightarrow> r = Inr db'" "lift_db r = Raise e \<longleftrightarrow> r = Inl e"
  "lift_db r \<noteq> CommitRaise e db'"
  by (auto simp: lift_db_def split: sum.splits)

lemma store_event_Done:
  "store_event wid fid key val ser db = Done u db' \<longleftrightarrow>
   (\<exists>db1. upsert_event wid key val ser db = Inr db1 \<and> upsert_event_history wid fid key val ser db1 = Inr db')"
  by (simp add: store_event_def txn_bind_Done_iff)

lemma store_event_not_commit [simp]: "store_event wid fid key val ser db \<noteq> CommitRaise e db'"
  by (cases "upsert_event wid key val ser db") (simp_all add: store_event_def lift_db_def split: sum.splits)

lemma store_event_inv [inv_intros]:
  assumes "sysdb_inv db"
  shows "txn_inv (store_event wid fid key val ser db)"
proof (cases "store_event wid fid key val ser db")
  case (Done u db')
  then obtain db1 where "upsert_event wid key val ser db = Inr db1"
    "upsert_event_history wid fid key val ser db1 = Inr db'" by (auto simp: store_event_Done)
  with assms have "sysdb_inv db'" by (blast intro: upsert_event_inv upsert_event_history_inv)
  with Done show ?thesis by simp
qed simp_all

lemma store_event_frame:
  assumes "store_event wid fid key val ser db = Done u db'"
  shows "status_row db' = status_row db" "operation_outputs db' = operation_outputs db"
proof -
  from assms obtain db1 where "upsert_event wid key val ser db = Inr db1"
    "upsert_event_history wid fid key val ser db1 = Inr db'" by (auto simp: store_event_Done)
  from upsert_event_frame [OF this(1)] upsert_event_history_frame [OF this(2)]
  show "status_row db' = status_row db" "operation_outputs db' = operation_outputs db"
    by (auto intro: status_row_cong)
qed

interpretation setting: checkpointed wid fid "''DBOS.setEvent''"
  "set_event_txn ex wid fid key val ser start t" "\<lambda>_. Inr ()" "\<lambda>_ _. True"
  for wid fid ex key val ser start t
proof
  fix db a db'
  assume check: "check_operation_execution_txn wid fid ''DBOS.setEvent'' db = Inr None"
    and body: "set_event_txn ex wid fid key val ser start t db = Done a db'"
  then obtain db1 where db1: "store_event wid fid key val ser db = Done () db1"
    "record_operation_result_txn ex (send_result wid fid ''DBOS.setEvent'' start) t db1 = Done () db'"
    by (auto simp: set_event_txn_def txn_bind_Done_iff)
  from record_last [of "send_result wid fid ''DBOS.setEvent'' start" "''DBOS.setEvent''" db db1 ex t]
    check db1(2) store_event_frame [OF db1(1)]
  show "\<exists>rr. check_operation_execution_txn wid fid ''DBOS.setEvent'' db' = Inr (Some rr) \<and> True"
    by (auto simp: send_result_def)
next
  fix db e db'
  assume "check_operation_execution_txn wid fid ''DBOS.setEvent'' db = Inr None"
  then show "set_event_txn ex wid fid key val ser start t db \<noteq> CommitRaise e db'"
    by (cases "store_event wid fid key val ser db") (auto simp: set_event_txn_def)
next
  fix db
  assume "sysdb_inv db"
  then show "txn_inv (set_event_txn ex wid fid key val ser start t db)"
    by (auto simp: set_event_txn_def split: sum.splits option.splits
        intro!: txn_inv_bind store_event_inv record_operation_result_txn_inv)
qed (auto simp: set_event_txn_def lift_res_def)

lemma set_event_from_workflow_inv:
  "sysdb_inv db \<Longrightarrow> sysdb_inv (snd (set_event_from_workflow cs sz ex wid fid key m ty s t db))"
  by (auto simp: set_event_from_workflow_def setting.run_inv split: sum.splits prod.splits)

lemma set_event_from_step_inv:
  "sysdb_inv db \<Longrightarrow> sysdb_inv (snd (set_event_from_step cs sz wid fid key m ty db))"
  by (auto simp: set_event_from_step_def store_event_inv intro!: engine_begin_inv split: sum.splits prod.splits)

lemma get_event_consume_inv:
  "sysdb_inv db \<Longrightarrow> sysdb_inv (snd (get_event_consume cs sz ex target key s c t db))"
  using record_operation_result_inv [of db ex _ t]
  by (auto simp: get_event_consume_def split: sum.splits prod.splits option.splits) (metis snd_conv)+

section \<open>An event that was set is the event that is read\<close>

lemma event_row_upsert:
  assumes "upsert_event wid key val ser db = Inr db'"
  shows "event_row db' wid' key' = (if (wid', key') = (wid, key)
    then Some \<lparr>we_workflow_uuid = wid, we_key = key, we_value = val, we_serialization = Some ser\<rparr>
    else event_row db wid' key')"
proof (cases "(wid, key) \<in> we_pk ` set (workflow_events db)")
  case True
  let ?g = "\<lambda>r. if we_pk r = (wid, key) then r\<lparr>we_value := val, we_serialization := Some ser\<rparr> else r"
  from True assms have db': "workflow_events db' = map ?g (workflow_events db)"
    by (auto simp: upsert_event_def sql_update_def)
  have "filter (\<lambda>r. we_pk r = k) (map ?g t) = map ?g (filter (\<lambda>r. we_pk r = k) t)" for k t
    by (rule filter_map_key) simp
  then have "event_row db' wid' key' = map_option ?g (event_row db wid' key')"
    unfolding event_row_def db' by (simp only: fetchone_map)
  moreover have "event_row db wid key \<noteq> None" using True by (auto simp: event_row_def filter_empty_conv)
  moreover have "we_pk r = (wid', key')" if "event_row db wid' key' = Some r" for r
    using that by (auto simp: event_row_def dest!: nth_row_SomeD)
  ultimately show ?thesis by (cases "event_row db wid' key'") (auto simp: workflow_event_row.equality)
next
  case False
  then have "event_row db wid key = None" by (force simp: event_row_def filter_empty_conv)
  with False assms show ?thesis
    by (auto simp: upsert_event_def insert_event_def insert_child_def map_sum_Inr_iff event_row_def
        split: if_splits)
qed

lemma record_keeps_events:
  "record_operation_result_txn ex res t db = Done u db' \<Longrightarrow> workflow_events db' = workflow_events db"
  by (auto simp: record_operation_result_txn_def insert_operation_output_def map_sum_Inr_iff Let_def
      split: if_splits option.splits sum.splits)

text \<open>
  C26: An event that a workflow sets is visible at once and set once: after a first successful
  \<open>set_event_from_workflow\<close>, reading the key gives the value (its portable form in the portable
  format), no other event changed, and repeating the operation (with any value) changes nothing.
\<close>

theorem set_event_visible:
  assumes law: "codecs_law cs sz" and none: "operation_row db wid fid = None"
    and run: "set_event_from_workflow cs sz ex wid fid key m ty s t db = (Inr (), db')"
  shows "(\<exists>v. (\<forall>ex' s' t'. get_event_consume cs sz ex' wid key s' None t' db' = (Inr v, db'))
        \<and> (if serialization_for_type cs (Some ty) sz = ''portable_json'' then portableify m = Inr v else v = m))
    \<and> (\<forall>wid' key'. (wid', key') \<noteq> (wid, key) \<longrightarrow> event_row db' wid' key' = event_row db wid' key')
    \<and> (\<forall>ex' s' t'. set_event_from_workflow cs sz ex' wid fid key m ty s' t' db' = (Inr (), db'))"
proof -
  from run obtain val ser where ser: "serialize_value cs m (Some ty) sz = Inr (val, ser)"
    and txn: "engine_begin (set_event_txn ex wid fid key val ser s t) db = (Inr (), db')"
    by (auto simp: set_event_from_workflow_def split: sum.splits prod.splits)
  from setting.succeeded_recorded [OF txn] obtain rr where
    rr: "check_operation_execution_txn wid fid ''DBOS.setEvent'' db' = Inr (Some rr)"
      "check_operation_execution_txn wid fid ''DBOS.setEvent'' db = Inr None \<or> db' = db"
    by (auto split: if_splits)
  then have "check_operation_execution_txn wid fid ''DBOS.setEvent'' db = Inr None"
    using none by (auto simp: check_Some_iff check_None_iff)
  with txn obtain db0 db1 where db1: "upsert_event wid key val ser db = Inr db0"
    "upsert_event_history wid fid key val ser db0 = Inr db1"
    "record_operation_result_txn ex (send_result wid fid ''DBOS.setEvent'' s) t db1 = Done () db'"
    by (auto simp: set_event_txn_def engine_begin_def txn_bind_Done_iff store_event_Done
        split: txn_result.splits)
  have "workflow_events db' = workflow_events db0"
    using record_keeps_events [OF db1(3)] upsert_event_history_frame [OF db1(2)] by simp
  then have row: "event_row db' wid' key' = (if (wid', key') = (wid, key)
      then Some \<lparr>we_workflow_uuid = wid, we_key = key, we_value = val, we_serialization = Some ser\<rparr>
      else event_row db wid' key')" for wid' key'
    using event_row_upsert [OF db1(1), of wid' key'] by (simp add: event_row_def)
  have n: "ser = serialization_for_type cs (Some ty) sz" using ser
    by (auto simp: serialize_value_def serialize_value_as_def res_bind_Inr_iff split: if_splits)
  from deserialize_serialize [OF law ser [unfolded serialize_value_def]] obtain v where
    v: "deserialize_value cs (Some val) (Some ser) sz = Inr v"
      "if ser = ''portable_json'' then portableify m = Inr v else v = m" by auto
  have "get_event_consume cs sz ex' wid key s' None t' db' = (Inr v, db')" for ex' s' t'
    using v(1) by (simp add: get_event_consume_def read_event_def row)
  moreover have "set_event_from_workflow cs sz ex' wid fid key m ty s' t' db' = (Inr (), db')" for ex' s' t'
    using setting.replay_unchanged [OF rr(1)] by (simp add: set_event_from_workflow_def ser)
  ultimately show ?thesis using v(2) n row by auto
qed

theorem set_event_visible_witness:
  "\<exists>db'. set_event_from_workflow example_codecs (DBOSDefaultSerializer example_codecs) None ''a'' 1 ''k''
        (PInt 42) DEFAULT 20 21 (example_db [''a'']) = (Inr (), db')
     \<and> get_event_consume example_codecs (DBOSDefaultSerializer example_codecs) None ''a'' ''k'' 30 None 31 db'
        = (Inr (PInt 42), db')"
proof -
  let ?sz = "DBOSDefaultSerializer example_codecs"
  have none: "operation_row (example_db [''a'']) ''a'' 1 = None"
    using example_check [of 1] by (simp add: check_None_iff)
  have ser: "serialize_value example_codecs (PInt 42) (Some DEFAULT) ?sz = Inr (''pickle-42'', ''py_pickle'')"
    by (simp add: serialize_value_def serialize_value_as_def serialization_for_type_def
        DBOSDefaultSerializer_def DBOSPortableJSON_def example_codecs_def)
  have pn: "serialization_for_type example_codecs (Some DEFAULT) ?sz = ''py_pickle''"
    by (simp add: serialization_for_type_def)
  obtain db1 where st: "store_event ''a'' 1 ''k'' ''pickle-42'' ''py_pickle'' (example_db [''a'']) = Done () db1"
    by (simp add: store_event_Done upsert_event_def upsert_event_history_def insert_event_def insert_event_history_def
        insert_child_def workflow_ids_def [symmetric])
       (simp add: workflow_ids_def example_db_def new_status_row_def example_status_def empty_sysdb_def)
  from record_last [of "send_result ''a'' 1 ''DBOS.setEvent'' 20" "''DBOS.setEvent''" "example_db [''a'']" db1 None 21]
    example_check [of 1 "''DBOS.setEvent''"] store_event_frame [OF st]
  obtain db' where "record_operation_result_txn None (send_result ''a'' 1 ''DBOS.setEvent'' 20) 21 db1 = Done () db'"
    by (auto simp: send_result_def)
  with st have run: "set_event_from_workflow example_codecs ?sz None ''a'' 1 ''k'' (PInt 42) DEFAULT 20 21
      (example_db [''a'']) = (Inr (), db')"
    by (simp add: set_event_from_workflow_def ser set_event_txn_def example_check engine_begin_def)
  from set_event_visible [OF example_codecs_law none run] run pn show ?thesis by auto
qed

text \<open>
  \<open>get_event\<close> of a workflow is repeatable: the value its first execution read is recorded, and
  from then on (as long as the checkpoint stands) the set-up phase returns the recorded value at
  once, whatever has been published under the key since, without registering a waiter or touching
  the database.
\<close>

theorem get_event_replay:
  assumes law: "codecs_law cs sz"
    and none: "operation_row db (gc_workflow_uuid c) (gc_function_id c) = None"
    and run: "get_event_consume cs sz ex target key s (Some c) t db = (Inr v, db')"
    and later: "checkpoint_stands (gc_workflow_uuid c) (gc_function_id c) db' db''"
  shows "\<exists>v'. (\<forall>ex' timeout ev s' t1 t' t2 waiting.
        get_event_setup cs sz ex' target key timeout (Some c) ev s' t1 t' t2 waiting db''
          = (Inr (Cached v'), waiting, db''))
    \<and> (v' = v \<or> portableify v = Inr v')"
proof -
  let ?wid = "gc_workflow_uuid c" and ?fid = "gc_function_id c"
  from run obtain ser0 out ser where ser: "serialize_value_as cs v ser0 sz = Inr (out, ser)"
    and rec: "record_operation_result ex (step_result ?wid ?fid ''DBOS.getEvent'' s out (Some ser)) t db = (Inr (), db')"
    by (auto simp: get_event_consume_def split: sum.splits prod.splits)
  let ?row = "operation_output_of (step_result ?wid ?fid ''DBOS.getEvent'' s out (Some ser)) t"
  have row: "operation_row db' ?wid ?fid = Some ?row"
    using record_operation_result_row [OF rec] none by (simp add: step_result_def)
  have check: "check_operation_execution ?wid ?fid ''DBOS.getEvent'' db'' = (Inr (Some (recorded_result ?row)), db'')"
    by (rule checkpoint_stands_check [OF later row]) (simp add: operation_output_of_def step_result_def)
  from deserialize_serialize [OF law ser] obtain v' where
    v': "deserialize_value cs (Some out) (Some ser) sz = Inr v'" "v' = v \<or> portableify v = Inr v'"
    by (auto split: if_splits)
  have "replay_output cs sz (recorded_result ?row) = Inr v'"
    using v'(1) by (simp add: replay_output_def recorded_result_def operation_output_of_def step_result_def)
  then have "get_event_setup cs sz ex' target key timeout (Some c) ev s' t1 t' t2 waiting db''
      = (Inr (Cached v'), waiting, db'')" for ex' timeout ev s' t1 t' t2 waiting
    by (simp add: get_event_setup_def check)
  with v'(2) show ?thesis by blast
qed

definition example_event_db :: sysdb where
  "example_event_db = (example_db [''a''])\<lparr>workflow_events := [\<lparr>we_workflow_uuid = ''a'', we_key = ''k'',
     we_value = ''pickle-42'', we_serialization = Some ''py_pickle''\<rparr>]\<rparr>"

definition example_caller :: GetEventWorkflowContext where
  "example_caller = \<lparr>gc_workflow_uuid = ''a'', gc_function_id = 1, gc_timeout_function_id = 2\<rparr>"

theorem get_event_replay_witness:
  "\<exists>db'. get_event_consume example_codecs (DBOSDefaultSerializer example_codecs) None ''a'' ''k'' 20
        (Some example_caller) 21 example_event_db = (Inr (PInt 42), db')
     \<and> get_event_setup example_codecs (DBOSDefaultSerializer example_codecs) None ''a'' ''k'' 60
        (Some example_caller) 7 30 30 30 30 [] db' = (Inr (Cached (PInt 42)), [], db')"
proof -
  let ?sz = "DBOSDefaultSerializer example_codecs"
  let ?res = "step_result ''a'' 1 ''DBOS.getEvent'' 20 ''pickle-42'' (Some ''py_pickle'')"
  have c: "gc_workflow_uuid example_caller = ''a''" "gc_function_id example_caller = 1"
    by (simp_all add: example_caller_def)
  have st: "status_row example_event_db ''a'' = Some (new_status_row (example_status ''a'') (Some ''x0'') 10)"
    by (simp add: example_event_db_def example_row)
  have none: "operation_row example_event_db (gc_workflow_uuid example_caller) (gc_function_id example_caller) = None"
    using example_check [of 1] by (simp add: check_None_iff example_event_db_def c)
  have v: "read_event example_codecs ?sz ''a'' ''k'' example_event_db = Inr (PInt 42, Some ''py_pickle'')"
    by (simp add: read_event_def event_row_def example_event_db_def deserialize_value_def)
       (simp add: DBOSDefaultSerializer_def example_codecs_def)
  have ser: "serialize_value_as example_codecs (PInt 42) (Some ''py_pickle'') ?sz = Inr (''pickle-42'', ''py_pickle'')"
    by (simp add: serialize_value_as_def) (simp add: DBOSDefaultSerializer_def example_codecs_def)
  obtain db' where rec: "record_operation_result None ?res 21 example_event_db = (Inr (), db')"
    and st': "status_row db' ''a'' = status_row example_event_db ''a''"
    using record_operation_fresh [of example_event_db ?res, where ex = None and t = 21] none st
    by (auto simp: record_operation_result_def step_result_def reset_executor_def c)
  have run: "get_event_consume example_codecs ?sz None ''a'' ''k'' 20 (Some example_caller) 21 example_event_db
      = (Inr (PInt 42), db')"
    using rec by (simp add: get_event_consume_def v ser c)
  have "checkpoint_stands (gc_workflow_uuid example_caller) (gc_function_id example_caller) db' db'"
    using st' st by (simp add: checkpoint_stands_def c) (simp add: new_status_row_def example_status_def)
  from get_event_replay [OF example_codecs_law none run this] run show ?thesis by auto
qed

text \<open>
  The set-up of a receive leaves no waiter behind: the registry gains one waiter, under the
  workflow's and topic's key, exactly when the set-up tells the caller to wait; when a recorded
  result is returned or an error is raised it is as before.
\<close>

theorem recv_setup_registers:
  assumes ok: "event_dict_ok waiting"
    and run: "recv_setup cs sz ex wid fid tfid topic timeout ev s t1 t t2 waiting db = (r, waiting', db')"
  shows "case r of
      Inr (Waiting e b d payload) \<Rightarrow> payload = wid @ ''::'' @ topic_of topic
        \<and> event_get payload waiting = None \<and> event_get payload waiting' = Some ev
        \<and> (\<forall>k. waiters waiting' k = waiters waiting k + (if k = payload then 1 else 0))
    | _ \<Rightarrow> waiting' = waiting"
proof -
  define p where "p = wid @ ''::'' @ topic_of topic"
  obtain b e w1 where set: "event_set p ev (wid, topic_of topic) waiting = ((b, e), w1)"
    by (metis prod_cases3 prod.collapse)
  have pop: "event_pop p w1 = waiting"
    using event_pop_set [OF ok, of p ev "(wid, topic_of topic)"] set by simp
  have w: "waiters w1 k = waiters waiting k + (if k = p then 1 else 0)" for k
    using event_set_waiters [of p ev "(wid, topic_of topic)" waiting k] set by simp
  have new: "b \<Longrightarrow> event_get p waiting = None \<and> event_get p w1 = Some ev"
    using set by (auto simp: event_set_def event_get_def map_add_def split: option.splits)
  note run' = run [unfolded recv_setup_def Let_def, folded p_def]
  show ?thesis unfolding p_def [symmetric] using run' w new
    by (auto simp: set pop split: sum.splits option.splits prod.splits if_splits)
qed

theorem recv_setup_registers_witness:
  "recv_setup example_codecs (DBOSDefaultSerializer example_codecs) None ''zz'' 1 2 None 60 5 0 0 0 0 [] (example_db [''a''])
     = (Inl AssertionError, [], example_db [''a''])"
proof -
  have ok: "event_dict_ok []" by (simp add: event_dict_ok_def)
  have none: "status_row (example_db [''a'']) ''zz'' = None" by (simp add: status_row_None_iff)
  let ?r = "recv_setup example_codecs (DBOSDefaultSerializer example_codecs) None ''zz'' 1 2 None 60 5 0 0 0 0 [] (example_db [''a''])"
  obtain w db' where r: "?r = (Inl AssertionError, w, db')" and "db' = example_db [''a'']"
    by (simp add: recv_setup_def check_operation_execution_def engine_begin_def lift_res_def
        check_operation_execution_txn_def none)
  with recv_setup_registers [OF ok r] show ?thesis by simp
qed

end
