(* ===== verification/DBOS_Streams.thy ===== *)
theory DBOS_Streams
  imports DBOS_Events
begin

text \<open>
  Streams (\<^verbatim>\<open>dbos/_sys_db.py\<close>): a workflow and its steps append values to a keyed stream, readers
  read by offset. The offset of a new entry is computed by the insert itself. A write that meets an
  integrity error sleeps and tries again; the model takes the databases that its successive
  attempts see and returns \<open>None\<close> while it is still trying. An attempt of a write from a step reads the last
  offset in one database (the snapshot of its statement) and inserts into a later one, to which other writers may
  have added entries; a write from the workflow is one step in the database of each attempt.
\<close>

section \<open>Writing\<close>

definition dbos_stream_closed_sentinel :: string where
  "dbos_stream_closed_sentinel = ''__DBOS_STREAM_CLOSED__''"

definition of_stream :: "string \<Rightarrow> string \<Rightarrow> stream_row \<Rightarrow> bool" where
  "of_stream wid key r \<longleftrightarrow> st_workflow_uuid r = wid \<and> st_key r = key"

text \<open>\<^verbatim>\<open>coalesce(max(offset), -1) + 1\<close>.\<close>

definition next_offset :: "string \<Rightarrow> string \<Rightarrow> sysdb \<Rightarrow> int" where
  "next_offset wid key db =
     (case max_opt (map st_offset (filter (of_stream wid key) (streams db))) of None \<Rightarrow> -1 | Some m \<Rightarrow> m) + 1"

definition stream_insert_from :: "sysdb \<Rightarrow> string \<Rightarrow> int \<Rightarrow> string \<Rightarrow> string \<Rightarrow> string \<Rightarrow> sysdb \<Rightarrow> sysdb res" where
  "stream_insert_from snap wid fid key val ser db = insert_stream
     \<lparr>st_workflow_uuid = wid, st_key = key, st_value = val, st_offset = next_offset wid key snap,
      st_function_id = fid, st_serialization = Some ser\<rparr> db"

definition stream_insert_stmt :: "string \<Rightarrow> int \<Rightarrow> string \<Rightarrow> string \<Rightarrow> string \<Rightarrow> sysdb \<Rightarrow> sysdb res" where
  "stream_insert_stmt wid fid key val ser db = stream_insert_from db wid fid key val ser db"

fun write_stream_attempts ::
  "string \<Rightarrow> int \<Rightarrow> string \<Rightarrow> string \<Rightarrow> string \<Rightarrow> (sysdb \<times> sysdb) list \<Rightarrow> (unit res \<times> sysdb) option" where
  "write_stream_attempts wid fid key val ser [] = None"
| "write_stream_attempts wid fid key val ser ((snap, db) # attempts) =
     (case stream_insert_from snap wid fid key val ser db of
        Inr db' \<Rightarrow> Some (Inr (), db')
      | Inl e \<Rightarrow> write_stream_attempts wid fid key val ser attempts)"

definition write_stream_from_step ::
  "codecs \<Rightarrow> Serializer \<Rightarrow> string \<Rightarrow> int \<Rightarrow> string \<Rightarrow> pyval \<Rightarrow> WorkflowSerializationFormat \<Rightarrow> (sysdb \<times> sysdb) list
   \<Rightarrow> (unit res \<times> sysdb) option" where
  "write_stream_from_step cs sz wid fid key v ser_type attempts = (case attempts of
     [] \<Rightarrow> None
   | (snap, db) # _ \<Rightarrow> (case serialize_value cs v (Some ser_type) sz of
       Inl e \<Rightarrow> Some (Inl e, db)
     | Inr (val, ser) \<Rightarrow> write_stream_attempts wid fid key val ser attempts))"

text \<open>One attempt of a write from the workflow; the integrity error of its insert makes it try again.\<close>

definition write_stream_txn ::
  "string option \<Rightarrow> string \<Rightarrow> int \<Rightarrow> string \<Rightarrow> string \<Rightarrow> string \<Rightarrow> string \<Rightarrow> int \<Rightarrow> int \<Rightarrow> sysdb \<Rightarrow> unit txn_result" where
  "write_stream_txn executor_id wid fid name key val ser start completed db =
     (case check_operation_execution_txn wid fid name db of
        Inl e \<Rightarrow> Raise e
      | Inr (Some _) \<Rightarrow> Done () db
      | Inr None \<Rightarrow> txn_bind (lift_db (stream_insert_stmt wid fid key val ser db)) (\<lambda>_ db1.
          record_operation_result_txn executor_id (send_result wid fid name start) completed db1))"

definition stream_conflict :: "string \<Rightarrow> int \<Rightarrow> string \<Rightarrow> string \<Rightarrow> string \<Rightarrow> string \<Rightarrow> sysdb \<Rightarrow> bool" where
  "stream_conflict wid fid name key val ser db \<longleftrightarrow>
     check_operation_execution_txn wid fid name db = Inr None
     \<and> (case stream_insert_stmt wid fid key val ser db of Inl _ \<Rightarrow> True | Inr _ \<Rightarrow> False)"

fun write_stream_loop ::
  "string option \<Rightarrow> string \<Rightarrow> int \<Rightarrow> string \<Rightarrow> string \<Rightarrow> string \<Rightarrow> string \<Rightarrow> int \<Rightarrow> int \<Rightarrow> sysdb list
   \<Rightarrow> (unit res \<times> sysdb) option" where
  "write_stream_loop executor_id wid fid name key val ser start completed [] = None"
| "write_stream_loop executor_id wid fid name key val ser start completed (db # dbs) =
     (if stream_conflict wid fid name key val ser db
      then write_stream_loop executor_id wid fid name key val ser start completed dbs
      else Some (engine_begin (write_stream_txn executor_id wid fid name key val ser start completed) db))"

definition stream_function_name :: "pyval \<Rightarrow> string" where
  "stream_function_name v =
     (if v = PStr dbos_stream_closed_sentinel then ''DBOS.closeStream'' else ''DBOS.writeStream'')"

definition write_stream_from_workflow ::
  "codecs \<Rightarrow> Serializer \<Rightarrow> string option \<Rightarrow> string \<Rightarrow> int \<Rightarrow> string \<Rightarrow> pyval \<Rightarrow> WorkflowSerializationFormat
   \<Rightarrow> int \<Rightarrow> int \<Rightarrow> sysdb list \<Rightarrow> (unit res \<times> sysdb) option" where
  "write_stream_from_workflow cs sz executor_id wid fid key v ser_type start completed dbs = (case dbs of
     [] \<Rightarrow> None
   | db # _ \<Rightarrow> (case serialize_value cs v (Some ser_type) sz of
       Inl e \<Rightarrow> Some (Inl e, db)
     | Inr (val, ser) \<Rightarrow>
         write_stream_loop executor_id wid fid (stream_function_name v) key val ser start completed dbs))"

definition close_stream ::
  "codecs \<Rightarrow> Serializer \<Rightarrow> string option \<Rightarrow> string \<Rightarrow> int \<Rightarrow> string \<Rightarrow> int \<Rightarrow> int \<Rightarrow> sysdb list
   \<Rightarrow> (unit res \<times> sysdb) option" where
  "close_stream cs sz executor_id wid fid key start completed dbs =
     write_stream_from_workflow cs sz executor_id wid fid key (PStr dbos_stream_closed_sentinel) PORTABLE
       start completed dbs"

section \<open>Reading\<close>

definition read_stream :: "codecs \<Rightarrow> Serializer \<Rightarrow> string \<Rightarrow> string \<Rightarrow> int \<Rightarrow> sysdb \<Rightarrow> pyval res" where
  "read_stream cs sz wid key off db =
     (case fetchone (filter (\<lambda>r. of_stream wid key r \<and> st_offset r = off) (streams db)) of
        None \<Rightarrow> Inl ValueError
      | Some r \<Rightarrow> deserialize_value cs (Some (st_value r)) (st_serialization r) sz)"

definition add_entry :: "string \<Rightarrow> pyval \<Rightarrow> (string \<times> pyval list) list \<Rightarrow> (string \<times> pyval list) list" where
  "add_entry key v d = (if key \<in> fst ` set d
     then map (\<lambda>(k, vs). if k = key then (k, vs @ [v]) else (k, vs)) d else d @ [(key, [v])])"

fun collect_entries ::
  "codecs \<Rightarrow> Serializer \<Rightarrow> stream_row list \<Rightarrow> (string \<times> pyval list) list \<Rightarrow> (string \<times> pyval list) list res" where
  "collect_entries cs sz [] d = Inr d"
| "collect_entries cs sz (r # rs) d =
     res_bind (deserialize_value cs (Some (st_value r)) (st_serialization r) sz) (\<lambda>v.
       if v = PStr dbos_stream_closed_sentinel then collect_entries cs sz rs d
       else collect_entries cs sz rs (add_entry (st_key r) v d))"

definition get_all_stream_entries ::
  "codecs \<Rightarrow> Serializer \<Rightarrow> string \<Rightarrow> sysdb \<Rightarrow> (string \<times> pyval list) list res" where
  "get_all_stream_entries cs sz wid db = collect_entries cs sz
     (sort_key st_key (sort_key st_offset (filter (\<lambda>r. st_workflow_uuid r = wid) (streams db)))) []"

section \<open>A stream is a list that grows at its end\<close>

text \<open>The abstract stream: its entries in offset order. A healthy one has the offsets 0, 1, 2, ...\<close>

definition stream_rows :: "string \<Rightarrow> string \<Rightarrow> sysdb \<Rightarrow> stream_row list" where
  "stream_rows wid key db = sort_key st_offset (filter (of_stream wid key) (streams db))"

definition stream_contiguous :: "string \<Rightarrow> string \<Rightarrow> sysdb \<Rightarrow> bool" where
  "stream_contiguous wid key db \<longleftrightarrow>
     map st_offset (stream_rows wid key db) = map int [0..<length (stream_rows wid key db)]"

lemma next_offset_length:
  assumes "stream_contiguous wid key db"
  shows "next_offset wid key db = int (length (stream_rows wid key db))"
proof -
  let ?rs = "filter (of_stream wid key) (streams db)" and ?n = "length (stream_rows wid key db)"
  have "set (map st_offset ?rs) = set (map st_offset (stream_rows wid key db))"
    by (simp add: stream_rows_def)
  also have "\<dots> = int ` {0..<?n}" using assms by (simp add: stream_contiguous_def)
  finally have offs: "set (map st_offset ?rs) = int ` {0..<?n}" .
  show ?thesis
  proof (cases "max_opt (map st_offset ?rs)")
    case None
    then have "?rs = []" by simp
    then have "stream_rows wid key db = []" by (simp add: stream_rows_def)
    then show ?thesis by (simp add: next_offset_def \<open>?rs = []\<close> max_opt_def)
  next
    case (Some m)
    from max_opt_SomeD(1) [OF Some] offs have "m \<in> int ` {0..<?n}" by simp
    then have n: "0 < ?n" and m: "m < int ?n" by auto
    have "int (?n - 1) \<in> int ` {0..<?n}" using n by simp
    then have "int (?n - 1) \<le> m" using max_opt_SomeD(2) [OF Some] offs by simp
    with m n have "m = int ?n - 1" by simp
    with Some show ?thesis by (simp add: next_offset_def)
  qed
qed

lemma stream_insert_Inr:
  assumes "stream_insert_stmt wid fid key val ser db = Inr db'"
  shows "db' = db\<lparr>streams := streams db @ [\<lparr>st_workflow_uuid = wid, st_key = key, st_value = val,
      st_offset = next_offset wid key db, st_function_id = fid, st_serialization = Some ser\<rparr>]\<rparr>"
  using assms
  by (auto simp: stream_insert_stmt_def stream_insert_from_def insert_stream_def insert_child_def map_sum_Inr_iff split: if_splits)

lemma next_offset_fresh: "(wid, key, next_offset wid key db) \<notin> st_pk ` set (streams db)"
proof
  assume "(wid, key, next_offset wid key db) \<in> st_pk ` set (streams db)"
  then obtain r where r: "r \<in> set (streams db)" "of_stream wid key r" "st_offset r = next_offset wid key db"
    by (auto simp: of_stream_def)
  let ?os = "map st_offset (filter (of_stream wid key) (streams db))"
  from r have "r \<in> set (filter (of_stream wid key) (streams db))" by simp
  then have "st_offset r \<in> set ?os" by (metis image_eqI list.set_map)
  then have "?os \<noteq> []" by (metis list.set(1) empty_iff)
  then obtain m where m: "max_opt ?os = Some m" using max_opt_None_iff by blast
  from max_opt_SomeD(2) [OF m \<open>st_offset r \<in> set ?os\<close>] r(3) m show False by (simp add: next_offset_def)
qed

lemma stream_insert_exists:
  "wid \<in> set (workflow_ids db) \<Longrightarrow> \<exists>db'. stream_insert_stmt wid fid key val ser db = Inr db'"
  using next_offset_fresh [of wid key db]
  by (simp add: stream_insert_stmt_def stream_insert_from_def insert_stream_def insert_child_def)

lemma stream_insert_from_cases:
  "stream_insert_from snap wid fid key val ser db =
    (if (wid, key, next_offset wid key snap) \<in> st_pk ` set (streams db) then Inl UniqueViolation
     else if wid \<notin> set (workflow_ids db) then Inl ForeignKeyViolation
     else Inr (db\<lparr>streams := streams db @ [\<lparr>st_workflow_uuid = wid, st_key = key, st_value = val,
       st_offset = next_offset wid key snap, st_function_id = fid, st_serialization = Some ser\<rparr>]\<rparr>))"
  by (simp add: stream_insert_from_def insert_stream_def insert_child_def)

lemma stream_insert_from_inv [inv_intros]:
  "stream_insert_from snap wid fid key val ser db = Inr db' \<Longrightarrow> sysdb_inv db \<Longrightarrow> sysdb_inv db'"
  by (simp add: stream_insert_from_def insert_stream_inv)

lemma stream_insert_inv [inv_intros]:
  "stream_insert_stmt wid fid key val ser db = Inr db' \<Longrightarrow> sysdb_inv db \<Longrightarrow> sysdb_inv db'"
  by (simp add: stream_insert_stmt_def stream_insert_from_def insert_stream_inv)

lemma stream_rows_insert:
  assumes ins: "stream_insert_stmt wid fid key val ser db = Inr db'" and ok: "stream_contiguous wid key db"
  shows "stream_rows wid key db' = stream_rows wid key db @ [\<lparr>st_workflow_uuid = wid, st_key = key,
      st_value = val, st_offset = int (length (stream_rows wid key db)), st_function_id = fid,
      st_serialization = Some ser\<rparr>]"
proof -
  let ?r = "\<lparr>st_workflow_uuid = wid, st_key = key, st_value = val,
      st_offset = int (length (stream_rows wid key db)), st_function_id = fid, st_serialization = Some ser\<rparr>"
  let ?rs = "filter (of_stream wid key) (streams db)"
  have db': "filter (of_stream wid key) (streams db') = ?rs @ [?r]"
    using stream_insert_Inr [OF ins] next_offset_length [OF ok] by (simp add: of_stream_def)
  have "st_offset x \<le> int (length (stream_rows wid key db))" if "x \<in> set ?rs" for x
  proof -
    from that have "x \<in> set (stream_rows wid key db)" by (simp add: stream_rows_def)
    then have "st_offset x \<in> set (map st_offset (stream_rows wid key db))" by simp
    then have "st_offset x \<in> set (map int [0..<length (stream_rows wid key db)])"
      using ok unfolding stream_contiguous_def by metis
    then show ?thesis by auto
  qed
  then show ?thesis unfolding stream_rows_def [of wid key db'] db'
    by (subst sort_key_append_later [where k = "int (length (stream_rows wid key db))"])
       (auto simp: stream_rows_def)
qed

lemma stream_contiguous_insert:
  assumes "stream_insert_stmt wid fid key val ser db = Inr db'" "stream_contiguous wid key db"
  shows "stream_contiguous wid key db'"
  using assms(2) by (simp add: stream_contiguous_def stream_rows_insert [OF assms])

lemma stream_rows_insert_other:
  assumes "stream_insert_stmt wid fid key val ser db = Inr db'" "(wid', key') \<noteq> (wid, key)"
  shows "stream_rows wid' key' db' = stream_rows wid' key' db"
  using stream_insert_Inr [OF assms(1)] assms(2) by (auto simp: stream_rows_def of_stream_def)

lemma read_stream_nth:
  assumes ok: "stream_contiguous wid key db"
  shows "read_stream cs sz wid key (int i) db =
    (if i < length (stream_rows wid key db)
     then deserialize_value cs (Some (st_value (stream_rows wid key db ! i)))
            (st_serialization (stream_rows wid key db ! i)) sz
     else Inl ValueError)"
proof -
  let ?rs = "stream_rows wid key db" and ?t = "filter (of_stream wid key) (streams db)"
  have split: "filter (\<lambda>r. of_stream wid key r \<and> st_offset r = int i) (streams db)
      = filter (\<lambda>r. st_offset r = int i) ?rs"
    by (simp add: stream_rows_def sort_key_stable conj_commute)
  have off: "st_offset (?rs ! j) = int j" if "j < length ?rs" for j
    using ok that unfolding stream_contiguous_def by (metis add_0 diff_zero length_upt nth_map nth_upt)
  show ?thesis
  proof (cases "i < length ?rs")
    case True
    have dist: "distinct (map st_offset ?rs)" using ok by (simp add: stream_contiguous_def distinct_map)
    have "filter (\<lambda>r. st_offset r = st_offset (?rs ! i)) ?rs = [?rs ! i]"
      by (rule filter_key_unique [OF dist]) (use True in simp)
    then show ?thesis using True off by (simp add: read_stream_def split)
  next
    case False
    have "st_offset r \<noteq> int i" if "r \<in> set ?rs" for r
      using that off False by (metis in_set_conv_nth of_nat_eq_iff)
    then have "filter (\<lambda>r. st_offset r = int i) ?rs = []" by (simp add: filter_empty_conv)
    with False show ?thesis by (simp add: read_stream_def split)
  qed
qed

section \<open>Writes\<close>

lemma insert_frame:
  assumes "stream_insert_stmt wid fid key val ser db = Inr db'"
  shows "status_row db' = status_row db" "operation_outputs db' = operation_outputs db"
    "workflow_ids db' = workflow_ids db"
  using stream_insert_Inr [OF assms] by (auto simp: workflow_ids_def intro: status_row_cong)

interpretation streaming: checkpointed wid fid name
  "write_stream_txn ex wid fid name key val ser start t" "\<lambda>_. Inr ()" "\<lambda>_ _. True"
  for wid fid name ex key val ser start t
proof
  fix db a db'
  assume check: "check_operation_execution_txn wid fid name db = Inr None"
    and body: "write_stream_txn ex wid fid name key val ser start t db = Done a db'"
  then obtain db1 where db1: "stream_insert_stmt wid fid key val ser db = Inr db1"
    "record_operation_result_txn ex (send_result wid fid name start) t db1 = Done () db'"
    by (auto simp: write_stream_txn_def txn_bind_Done_iff)
  from record_last [of "send_result wid fid name start" name db db1 ex t] check db1(2) insert_frame [OF db1(1)]
  show "\<exists>rr. check_operation_execution_txn wid fid name db' = Inr (Some rr) \<and> True"
    by (auto simp: send_result_def)
next
  fix db e db'
  assume "check_operation_execution_txn wid fid name db = Inr None"
  then show "write_stream_txn ex wid fid name key val ser start t db \<noteq> CommitRaise e db'"
    by (cases "stream_insert_stmt wid fid key val ser db") (auto simp: write_stream_txn_def lift_db_def)
next
  fix db
  assume "sysdb_inv db"
  moreover from this have "txn_inv (lift_db (stream_insert_stmt wid fid key val ser db))"
    by (cases "stream_insert_stmt wid fid key val ser db") (auto simp: lift_db_def intro: stream_insert_inv)
  ultimately show "txn_inv (write_stream_txn ex wid fid name key val ser start t db)"
    by (auto simp: write_stream_txn_def split: sum.splits option.splits
        intro!: txn_inv_bind record_operation_result_txn_inv)
qed (auto simp: write_stream_txn_def lift_res_def)

lemma no_stream_conflict: "\<not> stream_conflict wid fid name key val ser db"
proof -
  have "wid \<in> set (workflow_ids db)" if "check_operation_execution_txn wid fid name db = Inr None"
    using that by (auto simp: check_None_iff) (metis option.distinct(1) status_row_None_iff)
  then show ?thesis using stream_insert_exists [of wid db fid key val ser]
    by (auto simp: stream_conflict_def split: sum.splits)
qed

lemma write_stream_loop_eq:
  "write_stream_loop ex wid fid name key val ser s t (db # dbs)
   = Some (engine_begin (write_stream_txn ex wid fid name key val ser s t) db)"
  by (simp add: no_stream_conflict)

lemma record_keeps_streams:
  "record_operation_result_txn ex res t db = Done u db' \<Longrightarrow> streams db' = streams db"
  by (auto simp: record_operation_result_txn_def insert_operation_output_def map_sum_Inr_iff Let_def
      split: if_splits option.splits sum.splits)

lemma stream_rows_cong: "streams db = streams db' \<Longrightarrow> stream_rows wid key db = stream_rows wid key db'"
  by (simp add: stream_rows_def)

text \<open>
  C28: A stream write of a workflow returns at its first attempt and appends exactly once. If it
  ran, the entry is at the end of its stream at the next offset, offsets stay contiguous, and the
  new entry reads back as the value written (its portable form in the portable format); other
  streams are unchanged. A repeated write changes nothing, and a failed one changed nothing.
\<close>

theorem write_stream_appends:
  assumes law: "codecs_law cs sz" and ok: "stream_contiguous wid key db"
    and none: "operation_row db wid fid = None"
    and run: "write_stream_from_workflow cs sz ex wid fid key v ty s t (db # dbs) = Some (r, db')"
  shows "case r of
      Inl e \<Rightarrow> db' = db
    | Inr u \<Rightarrow> stream_contiguous wid key db'
        \<and> (\<exists>row. stream_rows wid key db' = stream_rows wid key db @ [row] \<and> st_function_id row = fid)
        \<and> (\<exists>v'. read_stream cs sz wid key (int (length (stream_rows wid key db))) db' = Inr v'
             \<and> (if serialization_for_type cs (Some ty) sz = ''portable_json''
                then portableify v = Inr v' else v' = v))
        \<and> (\<forall>wid' key'. (wid', key') \<noteq> (wid, key) \<longrightarrow> stream_rows wid' key' db' = stream_rows wid' key' db)
        \<and> (\<forall>ex' s' t' dbs'. write_stream_from_workflow cs sz ex' wid fid key v ty s' t' (db' # dbs')
             = Some (Inr (), db'))"
proof (cases "serialize_value cs v (Some ty) sz")
  case (Inl e)
  with run show ?thesis by (auto simp: write_stream_from_workflow_def)
next
  case (Inr p)
  then obtain val ser where ser: "serialize_value cs v (Some ty) sz = Inr (val, ser)" by (cases p) auto
  let ?name = "stream_function_name v"
  have eq: "write_stream_from_workflow cs sz ex wid fid key v ty s t (d # ds)
      = Some (engine_begin (write_stream_txn ex wid fid ?name key val ser s t) d)" for ex s t d ds
    by (simp add: write_stream_from_workflow_def ser write_stream_loop_eq del: write_stream_loop.simps)
  with run have txn: "engine_begin (write_stream_txn ex wid fid ?name key val ser s t) db = (r, db')" by simp
  show ?thesis
  proof (cases r)
    case (Inl e)
    with txn streaming.failed_unchanged show ?thesis by simp
  next
    case (Inr u)
    with txn have txn': "engine_begin (write_stream_txn ex wid fid ?name key val ser s t) db = (Inr u, db')" by simp
    from streaming.succeeded_recorded [OF txn'] obtain rr where
      rr: "check_operation_execution_txn wid fid ?name db' = Inr (Some rr)"
        "check_operation_execution_txn wid fid ?name db = Inr None \<or> db' = db"
      by (auto split: if_splits)
    then have "check_operation_execution_txn wid fid ?name db = Inr None"
      using none by (auto simp: check_Some_iff check_None_iff)
    with txn' obtain db1 where db1: "stream_insert_stmt wid fid key val ser db = Inr db1"
      "record_operation_result_txn ex (send_result wid fid ?name s) t db1 = Done () db'"
      by (auto simp: write_stream_txn_def engine_begin_def txn_bind_Done_iff split: txn_result.splits)
    have rows: "stream_rows w k db' = stream_rows w k db1" for w k
      using record_keeps_streams [OF db1(2)] by (rule stream_rows_cong)
    note new = stream_rows_insert [OF db1(1) ok]
    have cont: "stream_contiguous wid key db'"
      using stream_contiguous_insert [OF db1(1) ok] by (simp add: stream_contiguous_def rows)
    have n: "ser = serialization_for_type cs (Some ty) sz" using ser
      by (auto simp: serialize_value_def serialize_value_as_def res_bind_Inr_iff split: if_splits)
    from deserialize_serialize [OF law ser [unfolded serialize_value_def]] obtain v' where
      v': "deserialize_value cs (Some val) (Some ser) sz = Inr v'"
        "if ser = ''portable_json'' then portableify v = Inr v' else v' = v" by auto
    have "read_stream cs sz wid key (int (length (stream_rows wid key db))) db' = Inr v'"
      using v'(1) by (simp add: read_stream_nth [OF cont] rows new)
    moreover have "write_stream_from_workflow cs sz ex' wid fid key v ty s' t' (db' # dbs') = Some (Inr (), db')"
      for ex' s' t' dbs' using streaming.replay_unchanged [OF rr(1)] by (simp add: eq)
    ultimately show ?thesis using Inr cont v'(2) n stream_rows_insert_other [OF db1(1)]
      by (auto simp: rows new)
  qed
qed

theorem write_stream_appends_witness:
  "\<exists>db'. write_stream_from_workflow example_codecs (DBOSDefaultSerializer example_codecs) None ''a'' 1 ''k''
        (PInt 42) DEFAULT 20 21 [example_db [''a'']] = Some (Inr (), db')
     \<and> read_stream example_codecs (DBOSDefaultSerializer example_codecs) ''a'' ''k'' 0 db' = Inr (PInt 42)"
proof -
  let ?sz = "DBOSDefaultSerializer example_codecs"
  have ok: "stream_contiguous ''a'' ''k'' (example_db [''a''])"
    and len: "length (stream_rows ''a'' ''k'' (example_db [''a''])) = 0"
    by (simp_all add: stream_contiguous_def stream_rows_def)
  have none: "operation_row (example_db [''a'']) ''a'' 1 = None"
    using example_check [of 1] by (simp add: check_None_iff)
  have ser: "serialize_value example_codecs (PInt 42) (Some DEFAULT) ?sz = Inr (''pickle-42'', ''py_pickle'')"
    by (simp add: serialize_value_def serialize_value_as_def serialization_for_type_def
        DBOSDefaultSerializer_def DBOSPortableJSON_def example_codecs_def)
  have pn: "serialization_for_type example_codecs (Some DEFAULT) ?sz = ''py_pickle''"
    by (simp add: serialization_for_type_def)
  have name: "stream_function_name (PInt 42) = ''DBOS.writeStream''" by (simp add: stream_function_name_def)
  obtain db1 where ins: "stream_insert_stmt ''a'' 1 ''k'' ''pickle-42'' ''py_pickle'' (example_db [''a'']) = Inr db1"
    using stream_insert_exists [of "''a''" "example_db [''a'']" 1 "''k''" "''pickle-42''" "''py_pickle''"] by auto
  from record_last [of "send_result ''a'' 1 ''DBOS.writeStream'' 20" "''DBOS.writeStream''" "example_db [''a'']" db1 None 21]
    example_check [of 1 "''DBOS.writeStream''"] insert_frame [OF ins]
  obtain db' where "record_operation_result_txn None (send_result ''a'' 1 ''DBOS.writeStream'' 20) 21 db1 = Done () db'"
    by (auto simp: send_result_def)
  with ins have run: "write_stream_from_workflow example_codecs ?sz None ''a'' 1 ''k'' (PInt 42) DEFAULT 20 21
      [example_db [''a'']] = Some (Inr (), db')"
    by (simp add: write_stream_from_workflow_def ser name write_stream_loop_eq write_stream_txn_def example_check
        engine_begin_def lift_db_def del: write_stream_loop.simps)
  from write_stream_appends [OF example_codecs_law ok none run] run pn len show ?thesis by auto
qed

text \<open>
  C29: A stream write from a step keeps trying until an attempt finds the workflow recorded and the offset it read
  still free. It returns at the latest at the first attempt that finds the workflow recorded and no entry of the
  stream added between its read and its insert; the entry is then at an offset that no entry had, one after the last
  that the attempt read. But as long as the workflow is not recorded in the database of any attempt (for instance
  deleted while the step runs), the foreign-key violation is taken for an offset conflict and the write has not
  returned, whatever else those databases hold.
\<close>

theorem write_stream_from_step_retries:
  assumes ser: "serialize_value cs v (Some ty) sz = Inr (val, ser)"
  shows "(attempts = pre @ (snap, db) # post \<and> wid \<in> set (workflow_ids db)
        \<and> filter (of_stream wid key) (streams db) = filter (of_stream wid key) (streams snap) \<longrightarrow>
      (\<exists>read d. (read, d) \<in> set (pre @ [(snap, db)])
        \<and> (\<forall>r \<in> set (streams d). of_stream wid key r \<longrightarrow> st_offset r \<noteq> next_offset wid key read)
        \<and> write_stream_from_step cs sz wid fid key v ty attempts = Some (Inr (), d\<lparr>streams := streams d @
            [\<lparr>st_workflow_uuid = wid, st_key = key, st_value = val, st_offset = next_offset wid key read,
              st_function_id = fid, st_serialization = Some ser\<rparr>]\<rparr>)))
    \<and> ((\<forall>(read, d) \<in> set attempts. wid \<notin> set (workflow_ids d)) \<longrightarrow>
        write_stream_from_step cs sz wid fid key v ty attempts = None)"
proof (intro conjI impI)
  have start: "write_stream_from_step cs sz wid fid key v ty as = write_stream_attempts wid fid key val ser as" for as
    by (cases as) (auto simp: write_stream_from_step_def ser)
  {
    assume a: "attempts = pre @ (snap, db) # post \<and> wid \<in> set (workflow_ids db)
      \<and> filter (of_stream wid key) (streams db) = filter (of_stream wid key) (streams snap)"
    then have off: "next_offset wid key snap = next_offset wid key db" by (simp add: next_offset_def)
    have "\<exists>read d. (read, d) \<in> set (pre @ [(snap, db)])
        \<and> (wid, key, next_offset wid key read) \<notin> st_pk ` set (streams d)
        \<and> write_stream_attempts wid fid key val ser (pre @ (snap, db) # post) = Some (Inr (), d\<lparr>streams := streams d @
            [\<lparr>st_workflow_uuid = wid, st_key = key, st_value = val, st_offset = next_offset wid key read,
              st_function_id = fid, st_serialization = Some ser\<rparr>]\<rparr>)"
    proof (induction pre)
      case Nil
      then show ?case using a next_offset_fresh [of wid key db] by (auto simp: stream_insert_from_cases off)
    next
      case (Cons p pre)
      obtain u d where p: "p = (u, d)" by (rule prod.exhaust)
      show ?case
      proof (cases "stream_insert_from u wid fid key val ser d")
        case (Inl e)
        then show ?thesis using Cons by (auto simp: p)
      next
        case (Inr d')
        show ?thesis
          by (rule exI [where x = u], rule exI [where x = d]) (use Inr in \<open>auto simp: p stream_insert_from_cases split: if_splits\<close>)
      qed
    qed
    then show "\<exists>read d. (read, d) \<in> set (pre @ [(snap, db)])
        \<and> (\<forall>r \<in> set (streams d). of_stream wid key r \<longrightarrow> st_offset r \<noteq> next_offset wid key read)
        \<and> write_stream_from_step cs sz wid fid key v ty attempts = Some (Inr (), d\<lparr>streams := streams d @
            [\<lparr>st_workflow_uuid = wid, st_key = key, st_value = val, st_offset = next_offset wid key read,
              st_function_id = fid, st_serialization = Some ser\<rparr>]\<rparr>)"
      using a by (fastforce simp: start of_stream_def image_iff)
  next
    assume "\<forall>(read, d) \<in> set attempts. wid \<notin> set (workflow_ids d)"
    then have "write_stream_attempts wid fid key val ser attempts = None"
      by (induction attempts) (auto simp: stream_insert_from_cases)
    then show "write_stream_from_step cs sz wid fid key v ty attempts = None" by (simp add: start)
  }
qed

text \<open>
  A write that loses its first offset to another writer gets the next one at its second attempt; one whose workflow
  is gone in two different databases is still trying.
\<close>

definition example_stream_row :: stream_row where
  "example_stream_row = \<lparr>st_workflow_uuid = ''a'', st_key = ''k'', st_value = ''pickle-42'', st_offset = 0,
     st_function_id = 1, st_serialization = Some ''py_pickle''\<rparr>"

definition example_stream_db :: sysdb where
  "example_stream_db = (example_db [''a''])\<lparr>streams := [example_stream_row]\<rparr>"

theorem write_stream_from_step_retries_witness:
  "write_stream_from_step example_codecs (DBOSDefaultSerializer example_codecs) ''a'' 2 ''k'' (PInt 42) DEFAULT
     [(example_db [''a''], example_stream_db), (example_stream_db, example_stream_db)]
     = Some (Inr (), example_stream_db\<lparr>streams :=
         [example_stream_row, example_stream_row\<lparr>st_offset := 1, st_function_id := 2\<rparr>]\<rparr>)
   \<and> write_stream_from_step example_codecs (DBOSDefaultSerializer example_codecs) ''gone'' 1 ''k'' (PInt 42) DEFAULT
     [(example_db [''a''], example_db [''a'']), (example_stream_db, example_stream_db)] = None"
proof -
  have ser: "serialize_value example_codecs (PInt 42) (Some DEFAULT) (DBOSDefaultSerializer example_codecs)
      = Inr (''pickle-42'', ''py_pickle'')"
    by (simp add: serialize_value_def serialize_value_as_def serialization_for_type_def
        DBOSDefaultSerializer_def DBOSPortableJSON_def example_codecs_def)
  have ids: "workflow_ids example_stream_db = [''a'']" "workflow_ids (example_db [''a'']) = [''a'']"
    using example_db_tables(1) [of "[''a'']"] by (simp_all add: example_stream_db_def workflow_ids_def)
  have offs: "next_offset ''a'' ''k'' (example_db [''a'']) = 0" "next_offset ''a'' ''k'' example_stream_db = 1"
    by (simp_all add: next_offset_def example_stream_db_def example_stream_row_def example_db_def empty_sysdb_def
        of_stream_def max_opt_def)
  have row: "of_stream ''a'' ''k'' example_stream_row" "st_offset example_stream_row = 0"
    "streams example_stream_db = [example_stream_row]"
    by (simp_all add: example_stream_row_def of_stream_def example_stream_db_def)
  note retries = write_stream_from_step_retries [OF ser]
  let ?as = "[(example_db [''a''], example_stream_db), (example_stream_db, example_stream_db)]"
  have "write_stream_from_step example_codecs (DBOSDefaultSerializer example_codecs) ''a'' 2 ''k'' (PInt 42) DEFAULT ?as
     = Some (Inr (), example_stream_db\<lparr>streams :=
         [example_stream_row, example_stream_row\<lparr>st_offset := 1, st_function_id := 2\<rparr>]\<rparr>)"
    using retries [of ?as "[(example_db [''a''], example_stream_db)]" example_stream_db example_stream_db "[]" "''a''" "''k''" 2]
    by (auto simp: ids offs row) (simp_all add: example_stream_row_def)
  moreover have "write_stream_from_step example_codecs (DBOSDefaultSerializer example_codecs) ''gone'' 1 ''k'' (PInt 42) DEFAULT
     [(example_db [''a''], example_db [''a'']), (example_stream_db, example_stream_db)] = None"
    using retries [of "[(example_db [''a''], example_db [''a'']), (example_stream_db, example_stream_db)]" "[]"] ids by simp
  ultimately show ?thesis ..
qed

end
