(* ===== verification/DBOS_Bulk.thy ===== *)
theory DBOS_Bulk
  imports DBOS_Constraints
begin

text \<open>
  Inserts of many rows in one statement (\<^verbatim>\<open>INSERT ... VALUES (...), (...)\<close> and
  \<^verbatim>\<open>INSERT ... SELECT\<close>). The rows are inserted one after the other; when one violates a constraint the
  statement raises and the transaction that issued it rolls everything back. The locale
  \<open>table_insert\<close> is the contract of the single-row insert of a table; it gives the effect of the bulk
  insert and that it keeps the schema constraints.
\<close>

fun insert_all :: "('r \<Rightarrow> sysdb \<Rightarrow> sysdb res) \<Rightarrow> 'r list \<Rightarrow> sysdb \<Rightarrow> sysdb res" where
  "insert_all ins [] db = Inr db"
| "insert_all ins (r # rs) db = res_bind (ins r db) (insert_all ins rs)"

locale table_insert =
  fixes ins :: "'r \<Rightarrow> sysdb \<Rightarrow> sysdb res" and app :: "'r list \<Rightarrow> sysdb \<Rightarrow> sysdb"
  assumes ins_app: "ins r db = Inr db' \<Longrightarrow> db' = app [r] db"
    and app_Nil: "app [] db = db"
    and app_app: "app ys (app xs db) = app (xs @ ys) db"
    and ins_inv: "ins r db = Inr db' \<Longrightarrow> sysdb_inv db \<Longrightarrow> sysdb_inv db'"
begin

lemma all_app: "insert_all ins rs db = Inr db' \<Longrightarrow> db' = app rs db"
proof (induction rs arbitrary: db)
  case (Cons r rs)
  then obtain db1 where one: "ins r db = Inr db1" and rest: "insert_all ins rs db1 = Inr db'"
    by (auto simp: res_bind_Inr_iff)
  from Cons.IH [OF rest] ins_app [OF one] show ?case by (simp add: app_app)
qed (simp add: app_Nil)

lemma all_inv: "insert_all ins rs db = Inr db' \<Longrightarrow> sysdb_inv db \<Longrightarrow> sysdb_inv db'"
  by (induction rs arbitrary: db) (auto simp: res_bind_Inr_iff intro: ins_inv)

lemma all_txn_inv: "sysdb_inv db \<Longrightarrow> txn_inv (lift_db (insert_all ins rs db))"
  by (auto simp: lift_db_def all_inv split: sum.splits)

lemma all_Done: "lift_db (insert_all ins rs db) = Done u db' \<longleftrightarrow> insert_all ins rs db = Inr db'"
  by (auto simp: lift_db_def split: sum.splits)

end

abbreviation add_status :: "workflow_status_row list \<Rightarrow> sysdb \<Rightarrow> sysdb" where
  "add_status rs db \<equiv> db\<lparr>workflow_status := workflow_status db @ rs\<rparr>"

abbreviation add_outputs :: "operation_output_row list \<Rightarrow> sysdb \<Rightarrow> sysdb" where
  "add_outputs rs db \<equiv> db\<lparr>operation_outputs := operation_outputs db @ rs\<rparr>"

abbreviation add_events :: "workflow_event_row list \<Rightarrow> sysdb \<Rightarrow> sysdb" where
  "add_events rs db \<equiv> db\<lparr>workflow_events := workflow_events db @ rs\<rparr>"

abbreviation add_history :: "workflow_event_history_row list \<Rightarrow> sysdb \<Rightarrow> sysdb" where
  "add_history rs db \<equiv> db\<lparr>workflow_events_history := workflow_events_history db @ rs\<rparr>"

abbreviation add_streams :: "stream_row list \<Rightarrow> sysdb \<Rightarrow> sysdb" where
  "add_streams rs db \<equiv> db\<lparr>streams := streams db @ rs\<rparr>"

lemma insert_child_Inr: "insert_child key owner ids r t = Inr t' \<Longrightarrow> t' = t @ [r]"
  by (simp add: insert_child_def split: if_splits)

lemma insert_rows_app:
  "insert_status_row r1 db = Inr db' \<Longrightarrow> db' = add_status [r1] db"
  "insert_operation_output r2 db = Inr db' \<Longrightarrow> db' = add_outputs [r2] db"
  "insert_event r3 db = Inr db' \<Longrightarrow> db' = add_events [r3] db"
  "insert_event_history r4 db = Inr db' \<Longrightarrow> db' = add_history [r4] db"
  "insert_stream r5 db = Inr db' \<Longrightarrow> db' = add_streams [r5] db"
  by (auto simp: insert_status_row_def insert_operation_output_def insert_event_def insert_event_history_def
      insert_stream_def map_sum_Inr_iff split: if_splits dest: insert_child_Inr)

interpretation status_ins: table_insert insert_status_row add_status
  by unfold_locales (auto dest: insert_rows_app intro: insert_status_row_inv)

interpretation output_ins: table_insert insert_operation_output add_outputs
  by unfold_locales (auto dest: insert_rows_app intro: insert_operation_output_inv)

interpretation event_ins: table_insert insert_event add_events
  by unfold_locales (auto dest: insert_rows_app intro: insert_event_inv)

interpretation history_ins: table_insert insert_event_history add_history
  by unfold_locales (auto dest: insert_rows_app intro: insert_event_history_inv)

interpretation stream_ins: table_insert insert_stream add_streams
  by unfold_locales (auto dest: insert_rows_app intro: insert_stream_inv)

lemma txn_bind_Done:
  "txn_bind r f = Done b db' \<longleftrightarrow> (\<exists>a db1. r = Done a db1 \<and> f a db1 = Done b db')"
  by (cases r) auto

lemma lift_db_Done: "lift_db r = Done u db' \<longleftrightarrow> r = Inr db'"
  by (auto simp: lift_db_def split: sum.splits)

lemma no_child_rows:
  "child_ok ids key owner t \<Longrightarrow> w \<notin> ids \<Longrightarrow> filter (\<lambda>r. owner r = w \<and> Q r) t = []"
  by (auto simp: child_ok_def filter_empty_conv)

end
