(* ===== verification/DBOS_Fork.thy ===== *)
theory DBOS_Fork
  imports DBOS_Streams DBOS_Bulk
begin

text \<open>
  Forking (\<^verbatim>\<open>fork_workflow\<close> and \<^verbatim>\<open>fork_from_failure\<close> of \<^verbatim>\<open>dbos/_sys_db.py\<close>): a new workflow starts with
  the recorded history of an existing one up to a given step. Shown: the fork's checkpoints and
  streams are exactly the original's before the start step, its events are the latest ones set
  before it, and no other workflow changes. The copy of events is partitioned by the original, so
  when one call forks the same workflow twice, at most one of the forks gets an event.
\<close>

section \<open>The forked rows\<close>

definition fork_row ::
  "string option \<Rightarrow> string option \<Rightarrow> string option \<Rightarrow> int \<Rightarrow> string \<Rightarrow> string \<Rightarrow> workflow_status_row
   \<Rightarrow> workflow_status_row" where
  "fork_row app_version queue_name partition_key now orig fork r = \<lparr>
     ws_workflow_uuid = fork, ws_status = ENQUEUED, ws_name = ws_name r,
     ws_authenticated_user = ws_authenticated_user r, ws_assumed_role = ws_assumed_role r,
     ws_authenticated_roles = ws_authenticated_roles r,
     ws_output = None, ws_error = None, ws_executor_id = None, ws_created_at = now, ws_updated_at = now,
     ws_application_version = app_version, ws_application_id = ws_application_id r,
     ws_class_name = ws_class_name r, ws_config_name = ws_config_name r, ws_recovery_attempts = 0,
     ws_queue_name = Some (case queue_name of Some q \<Rightarrow> q | None \<Rightarrow> INTERNAL_QUEUE_NAME),
     ws_workflow_timeout_ms = None, ws_workflow_deadline_epoch_ms = None,
     ws_started_at_epoch_ms = None, ws_deduplication_id = None,
     ws_inputs = ws_inputs r, ws_priority = 0, ws_queue_partition_key = partition_key,
     ws_forked_from = Some orig, ws_was_forked_from = False, ws_owner_xid = None,
     ws_parent_workflow_id = None, ws_serialization = ws_serialization r,
     ws_delay_until_epoch_ms = None, ws_rate_limited = False, ws_completed_at = None,
     ws_attributes = ws_attributes r, ws_schedule_name = None,
     ws_debounce_deadline_epoch_ms = None, ws_is_debounced = False\<rparr>"

text \<open>The mapping subquery (orig_id, fork_id, start_step), and its join with a child table.\<close>

type_synonym fork_mapping = "string \<times> string \<times> int"

definition mapping_join ::
  "('r \<Rightarrow> string) \<Rightarrow> ('r \<Rightarrow> int) \<Rightarrow> fork_mapping list \<Rightarrow> 'r list \<Rightarrow> (fork_mapping \<times> 'r) list" where
  "mapping_join owner fid ms t = concat (map (\<lambda>m. map (Pair m)
     (filter (\<lambda>r. owner r = fst m \<and> fid r < snd (snd m)) t)) ms)"

text \<open>
  \<^verbatim>\<open>CASE WHEN child_workflow_id = old THEN new ... ELSE child_workflow_id END\<close>, when there are
  replacements.
\<close>

definition child_wf_expr :: "(string \<times> string) list \<Rightarrow> string option \<Rightarrow> string option" where
  "child_wf_expr replacement_children c = (case c of
     None \<Rightarrow> None
   | Some child \<Rightarrow> Some (case map_of replacement_children child of Some new \<Rightarrow> new | None \<Rightarrow> child))"

definition copied_output ::
  "(string \<times> string) list \<Rightarrow> string \<Rightarrow> operation_output_row \<Rightarrow> operation_output_row" where
  "copied_output repl fork r = r\<lparr>oo_workflow_uuid := fork,
     oo_child_workflow_id := child_wf_expr repl (oo_child_workflow_id r)\<rparr>"

definition copied_history :: "string \<Rightarrow> workflow_event_history_row \<Rightarrow> workflow_event_history_row" where
  "copied_history fork r = r\<lparr>weh_workflow_uuid := fork\<rparr>"

definition copied_event :: "string \<Rightarrow> workflow_event_history_row \<Rightarrow> workflow_event_row" where
  "copied_event fork r = \<lparr>we_workflow_uuid = fork, we_key = weh_key r, we_value = weh_value r,
     we_serialization = weh_serialization r\<rparr>"

definition copied_stream :: "string \<Rightarrow> stream_row \<Rightarrow> stream_row" where
  "copied_stream fork r = r\<lparr>st_workflow_uuid := fork\<rparr>"

abbreviation fork_of :: "fork_mapping \<Rightarrow> string" where
  "fork_of m \<equiv> fst (snd m)"

text \<open>
  \<^verbatim>\<open>row_number() OVER (PARTITION BY weh.workflow_uuid, weh.key ORDER BY weh.function_id DESC)\<close>, where
  the row number is 1.
\<close>

abbreviation partition_of :: "fork_mapping \<times> workflow_event_history_row \<Rightarrow> string \<times> string" where
  "partition_of x \<equiv> (weh_workflow_uuid (snd x), weh_key (snd x))"

definition ranked_first ::
  "(fork_mapping \<times> workflow_event_history_row) list \<Rightarrow> (fork_mapping \<times> workflow_event_history_row) list" where
  "ranked_first rows = map (\<lambda>p. hd (sort_key (\<lambda>x. - weh_function_id (snd x))
     (filter (\<lambda>x. partition_of x = p) rows))) (remdups (map partition_of rows))"

definition copy_outputs ::
  "(string \<times> string) list \<Rightarrow> fork_mapping list \<Rightarrow> sysdb \<Rightarrow> operation_output_row list" where
  "copy_outputs repl ms db = map (\<lambda>(m, r). copied_output repl (fork_of m) r)
     (mapping_join oo_workflow_uuid oo_function_id ms (operation_outputs db))"

definition copy_history :: "fork_mapping list \<Rightarrow> sysdb \<Rightarrow> workflow_event_history_row list" where
  "copy_history ms db = map (\<lambda>(m, r). copied_history (fork_of m) r)
     (mapping_join weh_workflow_uuid weh_function_id ms (workflow_events_history db))"

definition copy_events :: "fork_mapping list \<Rightarrow> sysdb \<Rightarrow> workflow_event_row list" where
  "copy_events ms db = map (\<lambda>(m, r). copied_event (fork_of m) r)
     (ranked_first (mapping_join weh_workflow_uuid weh_function_id ms (workflow_events_history db)))"

definition copy_streams :: "fork_mapping list \<Rightarrow> sysdb \<Rightarrow> stream_row list" where
  "copy_streams ms db = map (\<lambda>(m, r). copied_stream (fork_of m) r)
     (mapping_join st_workflow_uuid st_function_id ms (streams db))"

section \<open>Forking\<close>

definition find_original :: "sysdb \<Rightarrow> string \<Rightarrow> workflow_status_row res" where
  "find_original db wid = (case status_row db wid of
     None \<Rightarrow> Inl (PyException (''Workflow '' @ wid @ '' not found'')) | Some r \<Rightarrow> Inr r)"

definition mark_forked :: "workflow_status_row \<Rightarrow> workflow_status_row" where
  "mark_forked r = r\<lparr>ws_was_forked_from := True\<rparr>"

definition copy_fork_data :: "(string \<times> string) list \<Rightarrow> fork_mapping list \<Rightarrow> sysdb \<Rightarrow> unit txn_result" where
  "copy_fork_data repl ms db =
     txn_bind (lift_db (insert_all insert_operation_output (copy_outputs repl ms db) db)) (\<lambda>_ db1.
     txn_bind (lift_db (insert_all insert_event_history (copy_history ms db1) db1)) (\<lambda>_ db2.
     txn_bind (lift_db (insert_all insert_event (copy_events ms db2) db2)) (\<lambda>_ db3.
       lift_db (insert_all insert_stream (copy_streams ms db3) db3))))"

definition fork_txn ::
  "string list \<Rightarrow> string list \<Rightarrow> int list \<Rightarrow> string option \<Rightarrow> string option \<Rightarrow> string option
   \<Rightarrow> (string \<times> string) list \<Rightarrow> int \<Rightarrow> sysdb \<Rightarrow> unit txn_result" where
  "fork_txn origs forks steps app_version queue_name partition_key repl now db =
     txn_bind (lift_res (res_map (find_original db) origs) db) (\<lambda>statuses _.
     txn_bind (lift_db (insert_all insert_status_row
         (map (\<lambda>(orig, fork, r). fork_row app_version queue_name partition_key now orig fork r)
            (zip origs (zip forks statuses))) db)) (\<lambda>_ db1.
       let db2 = update_workflow_status (\<lambda>r. ws_workflow_uuid r \<in> set origs) mark_forked db1;
           ms = filter (\<lambda>m. snd (snd m) > 1) (zip origs (zip forks steps))
       in if ms = [] then Done () db2 else copy_fork_data repl ms db2))"

definition fork_workflow ::
  "string list \<Rightarrow> string list \<Rightarrow> int list \<Rightarrow> string option \<Rightarrow> string option \<Rightarrow> string option
   \<Rightarrow> (string \<times> string) list \<Rightarrow> int \<Rightarrow> sysdb \<Rightarrow> string list res \<times> sysdb" where
  "fork_workflow origs forks steps app_version queue_name partition_key repl now db =
     (if origs = [] then (Inr [], db)
      else if length origs \<noteq> length forks \<or> length origs \<noteq> length steps then (Inl ValueError, db)
      else case engine_begin (fork_txn origs forks steps app_version queue_name partition_key repl now) db of
        (Inl e, db') \<Rightarrow> (Inl e, db')
      | (Inr _, db') \<Rightarrow> (Inr forks, db'))"

text \<open>
  The four modes of \<^verbatim>\<open>fork_from_failure\<close>, each a keyword argument that may be given. The start
  steps are read in a transaction of their own, in the database \<open>db0\<close>.
\<close>

record fork_modes =
  fm_from_last_failure :: bool
  fm_from_last_step :: bool
  fm_from_step :: "int option"
  fm_from_step_name :: "string option"

definition fork_mode_count :: "fork_modes \<Rightarrow> nat" where
  "fork_mode_count f = (if fm_from_last_failure f then 1 else 0) + (if fm_from_last_step f then 1 else 0)
     + (if fm_from_step f \<noteq> None then 1 else 0) + (if fm_from_step_name f \<noteq> None then 1 else 0)"

definition steps_of :: "string \<Rightarrow> sysdb \<Rightarrow> operation_output_row list" where
  "steps_of wid db = filter (\<lambda>r. oo_workflow_uuid r = wid) (operation_outputs db)"

definition fork_start_step :: "fork_modes \<Rightarrow> sysdb \<Rightarrow> string \<Rightarrow> int option" where
  "fork_start_step f db wid =
     (if fm_from_last_failure f then
        (case max_opt (map oo_function_id (filter (\<lambda>r. oo_error r \<noteq> None) (steps_of wid db))) of
           Some k \<Rightarrow> Some k | None \<Rightarrow> max_opt (map oo_function_id (steps_of wid db)))
      else if fm_from_last_step f then max_opt (map oo_function_id (steps_of wid db))
      else max_opt (map oo_function_id
        (filter (\<lambda>r. Some (oo_function_name r) = fm_from_step_name f) (steps_of wid db))))"

definition find_start_step :: "fork_modes \<Rightarrow> sysdb \<Rightarrow> string \<Rightarrow> int res" where
  "find_start_step f db wid = (case fork_start_step f db wid of
     Some k \<Rightarrow> Inr k
   | None \<Rightarrow> Inl (PyException (case fm_from_step_name f of
       Some n \<Rightarrow> ''Workflow '' @ wid @ '' has no step named '' @ [CHR 0x27] @ n @ [CHR 0x27]
     | None \<Rightarrow> ''Workflow '' @ wid @ '' has no steps'')))"

definition fork_from_failure ::
  "string list \<Rightarrow> string option \<Rightarrow> string option \<Rightarrow> string option \<Rightarrow> fork_modes \<Rightarrow> (nat \<Rightarrow> string)
   \<Rightarrow> int \<Rightarrow> sysdb \<Rightarrow> sysdb \<Rightarrow> string list res \<times> sysdb" where
  "fork_from_failure ids app_version queue_name partition_key f generate_uuid now db0 db =
     (if fork_mode_count f \<noteq> 1 then (Inl ValueError, db)
      else case (case fm_from_step f of
                   Some k \<Rightarrow> Inr (replicate (length ids) k)
                 | None \<Rightarrow> res_map (find_start_step f db0) ids) of
        Inl e \<Rightarrow> (Inl e, db)
      | Inr steps \<Rightarrow> fork_workflow ids (map generate_uuid [0..<length ids]) steps app_version queue_name
          partition_key [] now db)"

section \<open>The joins\<close>

lemma set_mapping_join:
  "x \<in> set (mapping_join owner fid ms t) \<longleftrightarrow> fst x \<in> set ms \<and> snd x \<in> set t
     \<and> owner (snd x) = fst (fst x) \<and> fid (snd x) < snd (snd (fst x))"
  by (cases x) (auto simp: mapping_join_def)

lemma mapping_join_select:
  assumes "distinct (map sel ms)" and "m \<in> set ms"
  shows "filter (\<lambda>x. sel (fst x) = sel m) (mapping_join owner fid ms t)
    = map (Pair m) (filter (\<lambda>r. owner r = fst m \<and> fid r < snd (snd m)) t)"
  using assms
proof (induction ms)
  case (Cons a ms)
  have rest: "filter (\<lambda>x. sel (fst x) = sel m) (mapping_join owner fid ms t) = []"
    if "sel m \<notin> sel ` set ms"
    using that unfolding filter_empty_conv by (metis image_eqI set_mapping_join)
  show ?case
  proof (cases "a = m")
    case True
    with Cons.prems rest show ?thesis
      by (auto simp: mapping_join_def filter_map comp_def)
  next
    case False
    with Cons.prems have "sel a \<noteq> sel m" by (fastforce simp: image_iff)
    with False Cons show ?thesis
      by (auto simp: mapping_join_def filter_map comp_def)
  qed
qed simp

lemmas mapping_join_of_fork = mapping_join_select [where sel = fork_of and m = "(orig, fork, step)" for orig fork step,
  simplified]

lemma mapping_join_no_fork:
  "fork \<notin> fork_of ` set ms \<Longrightarrow> filter (\<lambda>x. fork_of (fst x) = fork) (mapping_join owner fid ms t) = []"
  by (auto simp: mapping_join_def filter_empty_conv)

lemma mapping_join_cong:
  assumes "\<And>m. m \<in> set ms \<Longrightarrow> filter (\<lambda>r. owner r = fst m) t = filter (\<lambda>r. owner r = fst m) t'"
  shows "mapping_join owner fid ms t = mapping_join owner fid ms t'"
proof -
  have "filter (\<lambda>r. owner r = fst m \<and> fid r < snd (snd m)) u
      = filter (\<lambda>r. fid r < snd (snd m)) (filter (\<lambda>r. owner r = fst m) u)" for m :: fork_mapping and u
    by (simp add: conj_commute)
  with assms show ?thesis unfolding mapping_join_def
    by (intro arg_cong [of _ _ concat] map_cong refl) (metis (no_types, lifting))
qed

text \<open>The rows of one fork among the copies.\<close>

lemma filter_copies:
  assumes "\<And>m r. owner' (g (fork_of m) r) = fork_of m" and "\<And>m r. Q (g (fork_of m) r) \<longleftrightarrow> P r"
  shows "filter (\<lambda>y. owner' y = fork \<and> Q y) (map (\<lambda>(m, r). g (fork_of m) r) J)
    = map (\<lambda>(m, r). g (fork_of m) r) (filter (\<lambda>(m, r). P r) (filter (\<lambda>x. fork_of (fst x) = fork) J))"
  using assms by (induction J) auto

lemma sort_key_map: "sort_key k (map f xs) = map f (sort_key (\<lambda>x. k (f x)) xs)"
proof (induction xs)
  case (Cons x xs)
  have "insort_key k (f x) (map f ys) = map f (insort_key (\<lambda>x. k (f x)) x ys)" for ys
    by (induction ys) auto
  with Cons show ?case by simp
qed simp

lemma sort_key_Nil_iff: "sort_key k xs = [] \<longleftrightarrow> xs = []"
  by (metis length_0_conv length_sort)

section \<open>What a fork changes\<close>

interpretation forked_upd: guarded_update "\<lambda>r. ws_workflow_uuid r \<in> S" mark_forked for S
  by unfold_locales (auto simp: mark_forked_def dedup_key_def)

lemma copy_fork_data_inv: "sysdb_inv db \<Longrightarrow> txn_inv (copy_fork_data repl ms db)"
  unfolding copy_fork_data_def
  by (intro txn_inv_bind output_ins.all_txn_inv history_ins.all_txn_inv event_ins.all_txn_inv
      stream_ins.all_txn_inv)

lemma fork_txn_inv: "sysdb_inv db \<Longrightarrow> txn_inv (fork_txn origs forks steps v q k repl now db)"
  unfolding fork_txn_def
  by (cases "res_map (find_original db) origs")
     (auto simp: lift_res_def Let_def intro!: txn_inv_bind status_ins.all_txn_inv copy_fork_data_inv
       forked_upd.update_inv)

lemma fork_workflow_inv: "sysdb_inv db \<Longrightarrow> sysdb_inv (snd (fork_workflow origs forks steps v q k repl now db))"
  using engine_begin_inv [of "fork_txn origs forks steps v q k repl now" db] fork_txn_inv
  by (auto simp: fork_workflow_def split: prod.splits sum.splits)

lemma fork_from_failure_inv:
  "sysdb_inv db \<Longrightarrow> sysdb_inv (snd (fork_from_failure ids v q k f g now db0 db))"
  by (auto simp: fork_from_failure_def fork_workflow_inv split: sum.splits option.splits)

text \<open>The steps of a fork that is made, over the tables.\<close>

abbreviation fork_mappings :: "string list \<Rightarrow> string list \<Rightarrow> int list \<Rightarrow> fork_mapping list" where
  "fork_mappings origs forks steps \<equiv> filter (\<lambda>m. snd (snd m) > 1) (zip origs (zip forks steps))"

definition fork_rows_of ::
  "string option \<Rightarrow> string option \<Rightarrow> string option \<Rightarrow> int \<Rightarrow> string list \<Rightarrow> string list
   \<Rightarrow> workflow_status_row list \<Rightarrow> workflow_status_row list" where
  "fork_rows_of v q k now origs forks sts = map (\<lambda>(orig, fork, r). fork_row v q k now orig fork r)
     (zip origs (zip forks sts))"

lemma copies_Nil [simp]:
  "copy_outputs repl [] db = []" "copy_history [] db = []" "copy_events [] db = []" "copy_streams [] db = []"
  by (simp_all add: copy_outputs_def copy_history_def copy_events_def copy_streams_def mapping_join_def
      ranked_first_def)

lemma copy_fork_data_Done:
  assumes "copy_fork_data repl ms db = Done u db'"
  shows "db' = db\<lparr>operation_outputs := operation_outputs db @ copy_outputs repl ms db,
    workflow_events_history := workflow_events_history db @ copy_history ms db,
    workflow_events := workflow_events db @ copy_events ms (add_history (copy_history ms db) db),
    streams := streams db @ copy_streams ms db\<rparr>"
proof -
  from assms obtain db1 db2 db3 where
    one: "insert_all insert_operation_output (copy_outputs repl ms db) db = Inr db1" and
    two: "insert_all insert_event_history (copy_history ms db1) db1 = Inr db2" and
    three: "insert_all insert_event (copy_events ms db2) db2 = Inr db3" and
    four: "insert_all insert_stream (copy_streams ms db3) db3 = Inr db'"
    by (auto simp: copy_fork_data_def txn_bind_Done lift_db_Done)
  from output_ins.all_app [OF one] history_ins.all_app [OF two] event_ins.all_app [OF three]
    stream_ins.all_app [OF four]
  show ?thesis by (simp add: copy_history_def copy_events_def copy_streams_def)
qed

lemma fork_workflow_steps:
  assumes run: "fork_workflow origs forks steps v q k repl now db = (Inr ids, db')" and "origs \<noteq> []"
  obtains sts db1 where "res_map (find_original db) origs = Inr sts"
    "insert_all insert_status_row (fork_rows_of v q k now origs forks sts) db = Inr db1"
    "length forks = length origs" "length steps = length origs" "ids = forks"
    "db' = (let db2 = update_workflow_status (\<lambda>r. ws_workflow_uuid r \<in> set origs) mark_forked db1;
       ms = fork_mappings origs forks steps in
       db2\<lparr>operation_outputs := operation_outputs db2 @ copy_outputs repl ms db2,
         workflow_events_history := workflow_events_history db2 @ copy_history ms db2,
         workflow_events := workflow_events db2 @ copy_events ms (add_history (copy_history ms db2) db2),
         streams := streams db2 @ copy_streams ms db2\<rparr>)"
proof -
  from run \<open>origs \<noteq> []\<close> have len: "length forks = length origs" "length steps = length origs" and "ids = forks"
    and txn: "fork_txn origs forks steps v q k repl now db = Done () db'"
    by (auto simp: fork_workflow_def engine_begin_def split: if_splits sum.splits txn_result.splits)
  from txn obtain sts db1 where "res_map (find_original db) origs = Inr sts"
    "insert_all insert_status_row (fork_rows_of v q k now origs forks sts) db = Inr db1"
    and rest: "(let db2 = update_workflow_status (\<lambda>r. ws_workflow_uuid r \<in> set origs) mark_forked db1;
        ms = fork_mappings origs forks steps in
        if ms = [] then Done () db2 else copy_fork_data repl ms db2) = Done () db'"
    by (auto simp: fork_txn_def txn_bind_Done lift_db_Done lift_res_def fork_rows_of_def split: sum.splits)
  moreover from rest have "db' = (let db2 = update_workflow_status (\<lambda>r. ws_workflow_uuid r \<in> set origs) mark_forked db1;
       ms = fork_mappings origs forks steps in
       db2\<lparr>operation_outputs := operation_outputs db2 @ copy_outputs repl ms db2,
         workflow_events_history := workflow_events_history db2 @ copy_history ms db2,
         workflow_events := workflow_events db2 @ copy_events ms (add_history (copy_history ms db2) db2),
         streams := streams db2 @ copy_streams ms db2\<rparr>)"
    by (auto simp: Let_def split: if_splits dest: copy_fork_data_Done)
  ultimately show thesis using len \<open>ids = forks\<close> that by blast
qed

lemma find_original_Inr: "find_original db wid = Inr r \<longleftrightarrow> status_row db wid = Some r"
  by (simp add: find_original_def split: option.splits)

lemma fork_rows_ids:
  "length forks = length origs \<Longrightarrow> length sts = length origs \<Longrightarrow>
   map ws_workflow_uuid (fork_rows_of v q k now origs forks sts) = forks"
  by (rule nth_equalityI) (auto simp: fork_rows_of_def fork_row_def)

text \<open>What the checks of the transaction guarantee when it commits: the forks are new.\<close>

lemma fork_workflow_fresh:
  assumes inv: "sysdb_inv db" and ne: "origs \<noteq> []"
    and run: "fork_workflow origs forks steps v q k repl now db = (Inr ids, db')"
  shows "distinct forks" and "set forks \<inter> set (workflow_ids db) = {}" and "set origs \<subseteq> set (workflow_ids db)"
    and "length forks = length origs" and "length steps = length origs" and "ids = forks"
proof -
  from fork_workflow_steps [OF run ne] obtain sts db1 where
    sts: "res_map (find_original db) origs = Inr sts"
    and ins: "insert_all insert_status_row (fork_rows_of v q k now origs forks sts) db = Inr db1"
    and len: "length forks = length origs" "length steps = length origs" and ids: "ids = forks" by metis
  from len ids show "length forks = length origs" "length steps = length origs" "ids = forks" by auto
  from sts have lsts: "length sts = length origs"
    and row: "\<And>i. i < length origs \<Longrightarrow> status_row db (origs ! i) = Some (sts ! i)"
    by (auto simp: res_map_Inr_iff find_original_Inr)
  have db1: "db1 = add_status (fork_rows_of v q k now origs forks sts) db"
    by (rule status_ins.all_app [OF ins])
  have "distinct (workflow_ids db1)"
    using status_ins.all_inv [OF ins inv] by (simp add: sysdb_inv_def status_table_ok_def workflow_ids_def)
  then have "distinct (workflow_ids db @ forks)"
    using fork_rows_ids [OF len(1) lsts] by (simp add: db1 workflow_ids_def)
  then show "distinct forks" "set forks \<inter> set (workflow_ids db) = {}" by auto
  show "set origs \<subseteq> set (workflow_ids db)"
  proof
    fix w assume "w \<in> set origs"
    then obtain i where "i < length origs" "w = origs ! i" by (auto simp: in_set_conv_nth)
    with row [of i] have "status_row db w \<noteq> None" by simp
    then show "w \<in> set (workflow_ids db)" by (simp add: status_row_None_iff)
  qed
qed

lemma fork_mappings_forks:
  assumes "distinct forks" "length forks = length origs" "length steps = length origs"
  shows "distinct (map fork_of (fork_mappings origs forks steps))"
    and "fork_of ` set (fork_mappings origs forks steps) \<subseteq> set forks"
    and "fst ` set (fork_mappings origs forks steps) \<subseteq> set origs"
    and "i < length origs \<Longrightarrow> steps ! i > 1 \<Longrightarrow> (origs ! i, forks ! i, steps ! i) \<in> set (fork_mappings origs forks steps)"
    and "i < length origs \<Longrightarrow> \<not> steps ! i > 1 \<Longrightarrow> forks ! i \<notin> fork_of ` set (fork_mappings origs forks steps)"
proof -
  have m: "map fork_of (zip origs (zip forks steps)) = forks"
    using assms by (intro nth_equalityI) auto
  then show "distinct (map fork_of (fork_mappings origs forks steps))"
    using assms(1) by (metis distinct_map_filter)
  from m show "fork_of ` set (fork_mappings origs forks steps) \<subseteq> set forks"
    by (metis (no_types, lifting) filter_is_subset image_mono image_set)
  show "fst ` set (fork_mappings origs forks steps) \<subseteq> set origs"
    by (auto dest: set_zip_leftD)
  show "(origs ! i, forks ! i, steps ! i) \<in> set (fork_mappings origs forks steps)"
    if "i < length origs" "steps ! i > 1"
    using that assms by (auto simp: set_zip)
  show "forks ! i \<notin> fork_of ` set (fork_mappings origs forks steps)"
    if "i < length origs" "\<not> steps ! i > 1"
  proof
    assume "forks ! i \<in> fork_of ` set (fork_mappings origs forks steps)"
    then obtain j where "j < length origs" "forks ! j = forks ! i" "steps ! j > 1"
      using assms by (auto simp: set_zip)
    with that assms show False by (metis nth_eq_iff_index_eq)
  qed
qed

text \<open>The tables after a fork.\<close>

lemma fork_workflow_tables:
  assumes inv: "sysdb_inv db" and ne: "origs \<noteq> []"
    and run: "fork_workflow origs forks steps v q k repl now db = (Inr ids, db')"
  defines "ms \<equiv> fork_mappings origs forks steps"
  shows "operation_outputs db' = operation_outputs db @ copy_outputs repl ms db"
    and "workflow_events_history db' = workflow_events_history db @ copy_history ms db"
    and "workflow_events db' = workflow_events db @ copy_events ms db"
    and "streams db' = streams db @ copy_streams ms db"
    and "notifications db' = notifications db"
proof -
  from fork_workflow_steps [OF run ne] obtain sts db1 where
    ins: "insert_all insert_status_row (fork_rows_of v q k now origs forks sts) db = Inr db1"
    and db': "db' = (let db2 = update_workflow_status (\<lambda>r. ws_workflow_uuid r \<in> set origs) mark_forked db1 in
       db2\<lparr>operation_outputs := operation_outputs db2 @ copy_outputs repl ms db2,
         workflow_events_history := workflow_events_history db2 @ copy_history ms db2,
         workflow_events := workflow_events db2 @ copy_events ms (add_history (copy_history ms db2) db2),
         streams := streams db2 @ copy_streams ms db2\<rparr>)" unfolding ms_def by metis
  note db1 = status_ins.all_app [OF ins]
  note fresh = fork_workflow_fresh [OF inv ne run]
  show "operation_outputs db' = operation_outputs db @ copy_outputs repl ms db"
    "workflow_events_history db' = workflow_events_history db @ copy_history ms db"
    "streams db' = streams db @ copy_streams ms db" "notifications db' = notifications db"
    by (simp_all add: db' db1 Let_def copy_outputs_def copy_history_def copy_streams_def)
  have "filter (\<lambda>r. weh_workflow_uuid r = fst m) (copy_history ms db) = []" if "m \<in> set ms" for m
  proof -
    have "weh_workflow_uuid r \<in> set forks" if "r \<in> set (copy_history ms db)" for r
    proof -
      from that obtain m where "m \<in> set ms" "weh_workflow_uuid r = fork_of m"
        by (auto simp: copy_history_def copied_history_def set_mapping_join)
      with fork_mappings_forks(2) [OF fresh(1,4,5)] show ?thesis unfolding ms_def by (metis image_subset_iff)
    qed
    moreover have "fst m \<in> set (workflow_ids db)"
      using that fresh(3) fork_mappings_forks(3) [OF fresh(1,4,5)] unfolding ms_def by blast
    ultimately show ?thesis using fresh(2) unfolding filter_empty_conv by (metis disjoint_iff)
  qed
  then have "mapping_join weh_workflow_uuid weh_function_id ms (workflow_events_history db @ copy_history ms db)
      = mapping_join weh_workflow_uuid weh_function_id ms (workflow_events_history db)"
    by (intro mapping_join_cong) simp
  then show "workflow_events db' = workflow_events db @ copy_events ms db"
    by (simp add: db' db1 Let_def copy_events_def copy_history_def)
qed

section \<open>Copies of a fork\<close>

text \<open>
  The copies of the rows of a child table, seen from one fork: those of the original before the
  start step.
\<close>

lemma copies_of_fork:
  assumes "distinct forks" "length forks = length origs" "length steps = length origs" "i < length origs"
    and "\<And>fork r. owner' (g fork r) = fork" and "\<And>fork r. Q (g fork r) \<longleftrightarrow> P r"
  shows "filter (\<lambda>y. owner' y = forks ! i \<and> Q y) (map (\<lambda>(m, r). g (fork_of m) r)
        (mapping_join owner fid (fork_mappings origs forks steps) t))
    = (if 1 < steps ! i
       then map (g (forks ! i)) (filter (\<lambda>r. owner r = origs ! i \<and> fid r < steps ! i \<and> P r) t) else [])"
proof -
  let ?ms = "fork_mappings origs forks steps"
  have "filter (\<lambda>x. fork_of (fst x) = forks ! i) (mapping_join owner fid ?ms t)
      = (if 1 < steps ! i
         then map (Pair (origs ! i, forks ! i, steps ! i))
           (filter (\<lambda>r. owner r = origs ! i \<and> fid r < steps ! i) t) else [])"
  proof (cases "1 < steps ! i")
    case True
    from mapping_join_of_fork [OF fork_mappings_forks(1,4) [OF assms(1-3)], OF assms(4) True] True
    show ?thesis by simp
  next
    case False
    from mapping_join_no_fork [OF fork_mappings_forks(5) [OF assms(1-4) False]] False show ?thesis by simp
  qed
  then show ?thesis
    by (subst filter_copies [where P = P]) (auto simp: assms(5,6) filter_map comp_def conj_ac)
qed

text \<open>Rows that belong to no fork are not among the copies, and the forks have no rows before.\<close>

lemma no_copies:
  assumes "distinct forks" "length forks = length origs" "length steps = length origs" "w \<notin> set forks"
    and "\<And>fork r. owner' (g fork r) = fork"
  shows "filter (\<lambda>y. owner' y = w \<and> Q y) (map (\<lambda>(m, r). g (fork_of m) r)
        (mapping_join owner fid (fork_mappings origs forks steps) t)) = []"
proof -
  have "fork_of m \<noteq> w" if "m \<in> set (fork_mappings origs forks steps)" for m
    using that assms(4) fork_mappings_forks(2) [OF assms(1-3)] by blast
  then show ?thesis by (fastforce simp: filter_empty_conv set_mapping_join assms(5))
qed

lemma fork_copies_outputs:
  assumes inv: "sysdb_inv db" and run: "fork_workflow origs forks steps v q k repl now db = (Inr ids, db')"
    and i: "i < length origs"
  shows "operation_row db' (forks ! i) fid
    = (if 1 < steps ! i \<and> fid < steps ! i
       then map_option (copied_output repl (forks ! i)) (operation_row db (origs ! i) fid) else None)"
proof -
  from i have ne: "origs \<noteq> []" by auto
  note fresh = fork_workflow_fresh [OF inv ne run]
  have new: "forks ! i \<notin> set (workflow_ids db)" using fresh(2,4) i by (metis disjoint_iff nth_mem)
  have "filter (\<lambda>r. oo_workflow_uuid r = forks ! i \<and> oo_function_id r = fid) (operation_outputs db) = []"
    using inv new by (auto simp: sysdb_inv_def children_ok_def intro: no_child_rows)
  moreover have "filter (\<lambda>y. oo_workflow_uuid y = forks ! i \<and> oo_function_id y = fid)
      (copy_outputs repl (fork_mappings origs forks steps) db)
    = (if 1 < steps ! i then map (copied_output repl (forks ! i)) (filter (\<lambda>r. oo_workflow_uuid r = origs ! i
        \<and> oo_function_id r < steps ! i \<and> oo_function_id r = fid) (operation_outputs db)) else [])"
    unfolding copy_outputs_def by (rule copies_of_fork [OF fresh(1,4,5) i]) (simp_all add: copied_output_def)
  moreover have "filter (\<lambda>r. oo_workflow_uuid r = origs ! i \<and> oo_function_id r < steps ! i \<and> oo_function_id r = fid)
      (operation_outputs db)
    = (if fid < steps ! i then filter (\<lambda>r. oo_workflow_uuid r = origs ! i \<and> oo_function_id r = fid)
         (operation_outputs db) else [])"
    by (auto simp: filter_empty_conv intro: filter_cong)
  ultimately show ?thesis
    by (simp add: operation_row_def fork_workflow_tables(1) [OF inv ne run] fetchone_map)
qed

lemma fork_copies_streams:
  assumes inv: "sysdb_inv db" and run: "fork_workflow origs forks steps v q k repl now db = (Inr ids, db')"
    and i: "i < length origs"
  shows "stream_rows (forks ! i) key db' = (if 1 < steps ! i
    then map (copied_stream (forks ! i)) (filter (\<lambda>r. st_function_id r < steps ! i) (stream_rows (origs ! i) key db))
    else [])"
proof -
  from i have ne: "origs \<noteq> []" by auto
  note fresh = fork_workflow_fresh [OF inv ne run]
  have new: "forks ! i \<notin> set (workflow_ids db)" using fresh(2,4) i by (metis disjoint_iff nth_mem)
  have "filter (of_stream (forks ! i) key) (streams db) = []"
    using inv new unfolding of_stream_def by (auto simp: sysdb_inv_def children_ok_def intro: no_child_rows)
  moreover have "filter (of_stream (forks ! i) key) (copy_streams (fork_mappings origs forks steps) db)
    = (if 1 < steps ! i then map (copied_stream (forks ! i)) (filter (\<lambda>r. st_workflow_uuid r = origs ! i
        \<and> st_function_id r < steps ! i \<and> st_key r = key) (streams db)) else [])"
    unfolding copy_streams_def of_stream_def
    by (rule copies_of_fork [OF fresh(1,4,5) i]) (simp_all add: copied_stream_def)
  moreover have "filter (\<lambda>r. st_workflow_uuid r = origs ! i \<and> st_function_id r < steps ! i \<and> st_key r = key) (streams db)
    = filter (\<lambda>r. st_function_id r < steps ! i) (filter (of_stream (origs ! i) key) (streams db))"
    by (auto simp: of_stream_def intro: filter_cong)
  ultimately show ?thesis
    by (simp add: stream_rows_def fork_workflow_tables(4) [OF inv ne run] sort_key_map filter_sort)
       (simp add: copied_stream_def)
qed

lemma fork_status_rows:
  assumes inv: "sysdb_inv db" and run: "fork_workflow origs forks steps v q k repl now db = (Inr ids, db')"
    and ne: "origs \<noteq> []"
  shows "i < length origs \<Longrightarrow> \<exists>r. status_row db (origs ! i) = Some r
      \<and> status_row db' (forks ! i) = Some (fork_row v q k now (origs ! i) (forks ! i) r)"
    and "w \<notin> set forks \<Longrightarrow> status_row db' w
      = map_option (if w \<in> set origs then mark_forked else id) (status_row db w)"
proof -
  obtain sts db1 where
    sts: "res_map (find_original db) origs = Inr sts"
    and ins: "insert_all insert_status_row (fork_rows_of v q k now origs forks sts) db = Inr db1"
    and db': "workflow_status db' = workflow_status
       (update_workflow_status (\<lambda>r. ws_workflow_uuid r \<in> set origs) mark_forked db1)"
    by (rule fork_workflow_steps [OF run ne]) (simp add: Let_def that)
  let ?rows = "fork_rows_of v q k now origs forks sts"
  note fresh = fork_workflow_fresh [OF inv ne run]
  from sts have lsts: "length sts = length origs"
    and row: "\<And>i. i < length origs \<Longrightarrow> status_row db (origs ! i) = Some (sts ! i)"
    by (auto simp: res_map_Inr_iff find_original_Inr)
  have ids: "map ws_workflow_uuid ?rows = forks" by (rule fork_rows_ids [OF fresh(4) lsts])
  have db1: "status_row db1 w = (case status_row db w of Some r \<Rightarrow> Some r
      | None \<Rightarrow> fetchone (filter (\<lambda>r. ws_workflow_uuid r = w) ?rows))" for w
    by (simp add: status_ins.all_app [OF ins] status_row_def nth_row_def split: list.splits)
  have upd: "status_row db' w = map_option (\<lambda>r. if ws_workflow_uuid r \<in> set origs then mark_forked r else r)
      (status_row db1 w)" for w
    using forked_upd.update_row [of "set origs" db1 w] status_row_cong [OF db'] by simp
  show "\<exists>r. status_row db (origs ! i) = Some r
      \<and> status_row db' (forks ! i) = Some (fork_row v q k now (origs ! i) (forks ! i) r)" if i: "i < length origs"
  proof -
    have len: "length ?rows = length origs" using fresh(4) lsts by (simp add: fork_rows_of_def)
    have ri: "?rows ! i = fork_row v q k now (origs ! i) (forks ! i) (sts ! i)"
      using i fresh(4) lsts by (simp add: fork_rows_of_def)
    have new: "forks ! i \<notin> set (workflow_ids db)" using fresh(2,4) i by (metis disjoint_iff nth_mem)
    have "filter (\<lambda>r. ws_workflow_uuid r = ws_workflow_uuid (?rows ! i)) ?rows = [?rows ! i]"
      using i len ids fresh(1) by (intro filter_key_unique) auto
    then have "status_row db1 (forks ! i) = Some (?rows ! i)"
      using new by (simp add: db1 status_row_None_iff [symmetric] ri) (simp add: fork_row_def)
    moreover have "forks ! i \<notin> set origs" using new fresh(3) by blast
    ultimately have "status_row db' (forks ! i) = Some (?rows ! i)"
      by (simp add: upd ri fork_row_def)
    with row [OF i] show ?thesis by (simp add: ri)
  qed
  show "status_row db' w = map_option (if w \<in> set origs then mark_forked else id) (status_row db w)"
    if "w \<notin> set forks"
  proof -
    have "w \<notin> ws_workflow_uuid ` set ?rows" using that ids by (metis list.set_map)
    then have "filter (\<lambda>r. ws_workflow_uuid r = w) ?rows = []" by (auto simp: filter_empty_conv)
    then have "status_row db1 w = status_row db w" by (simp add: db1 split: option.splits)
    then show ?thesis unfolding upd
      by (cases "status_row db w") (auto dest: status_row_SomeD)
  qed
qed

section \<open>Events of a fork\<close>

lemma ranked_first_partition:
  assumes "x \<in> set (ranked_first rows)"
  shows "x \<in> set rows" and "filter (\<lambda>y. partition_of y = partition_of x) (ranked_first rows) = [x]"
proof -
  define f where "f p = hd (sort_key (\<lambda>x. - weh_function_id (snd x)) (filter (\<lambda>x. partition_of x = p) rows))" for p
  have f: "f p \<in> set rows \<and> partition_of (f p) = p" if "p \<in> partition_of ` set rows" for p
  proof -
    from that have "sort_key (\<lambda>x. - weh_function_id (snd x)) (filter (\<lambda>x. partition_of x = p) rows) \<noteq> []"
      unfolding sort_key_Nil_iff by (auto simp: filter_empty_conv)
    from hd_in_set [OF this] show ?thesis by (simp add: f_def)
  qed
  have ranked: "ranked_first rows = map f (remdups (map partition_of rows))"
    by (simp add: ranked_first_def f_def)
  from assms obtain p where p: "p \<in> partition_of ` set rows" "x = f p"
    unfolding ranked by auto
  with f show "x \<in> set rows" by blast
  have "filter (\<lambda>y. partition_of y = p) (ranked_first rows)
      = map f (filter (\<lambda>p'. p' = p) (remdups (map partition_of rows)))"
    unfolding ranked filter_map comp_def
    by (intro arg_cong [of _ _ "map f"] filter_cong) (use f in auto)
  also have "\<dots> = [f p]"
    using filter_key_unique [of id "remdups (map partition_of rows)" p] p(1) by simp
  finally show "filter (\<lambda>y. partition_of y = partition_of x) (ranked_first rows) = [x]"
    using p f by simp
qed

text \<open>The latest history entry of an event before a step.\<close>

definition latest_event :: "string \<Rightarrow> string \<Rightarrow> int \<Rightarrow> sysdb \<Rightarrow> workflow_event_history_row option" where
  "latest_event wid key step db = fetchone (sort_key (\<lambda>h. - weh_function_id h)
     (filter (\<lambda>h. weh_workflow_uuid h = wid \<and> weh_key h = key \<and> weh_function_id h < step)
        (workflow_events_history db)))"

lemma latest_event_greatest:
  assumes "latest_event wid key step db = Some h"
  shows "h \<in> set (workflow_events_history db)" "weh_workflow_uuid h = wid" "weh_key h = key"
    "weh_function_id h < step"
    "\<forall>h' \<in> set (workflow_events_history db). weh_workflow_uuid h' = wid \<and> weh_key h' = key
       \<and> weh_function_id h' < step \<longrightarrow> weh_function_id h' \<le> weh_function_id h"
proof -
  let ?hs = "filter (\<lambda>h. weh_workflow_uuid h = wid \<and> weh_key h = key \<and> weh_function_id h < step)
        (workflow_events_history db)"
  let ?s = "sort_key (\<lambda>h. - weh_function_id h) ?hs"
  from assms obtain rest where s: "?s = h # rest"
    by (auto simp: latest_event_def nth_row_def split: list.splits)
  then have "h \<in> set ?s" by simp
  then show "h \<in> set (workflow_events_history db)" "weh_workflow_uuid h = wid" "weh_key h = key"
    "weh_function_id h < step" by auto
  have "sorted (map (\<lambda>h. - weh_function_id h) (h # rest))"
    using sorted_sort_key [of "\<lambda>h. - weh_function_id h" ?hs] by (simp only: s)
  then have "\<forall>h' \<in> set (h # rest). weh_function_id h' \<le> weh_function_id h" by auto
  moreover have "set (h # rest) = set ?hs" unfolding s [symmetric] by (rule set_sort)
  ultimately show "\<forall>h' \<in> set (workflow_events_history db). weh_workflow_uuid h' = wid \<and> weh_key h' = key
       \<and> weh_function_id h' < step \<longrightarrow> weh_function_id h' \<le> weh_function_id h" by auto
qed

text \<open>An event of a fork comes from the one ranked row of its original's partition.\<close>

lemma event_row_Some_fork:
  assumes inv: "sysdb_inv db" and run: "fork_workflow origs forks steps v q k repl now db = (Inr ids, db')"
    and i: "i < length origs" and ev: "event_row db' (forks ! i) key = Some e"
  obtains m h where "(m, h) \<in> set (ranked_first (mapping_join weh_workflow_uuid weh_function_id
      (fork_mappings origs forks steps) (workflow_events_history db)))"
    "fork_of m = forks ! i" "weh_workflow_uuid h = origs ! i" "weh_key h = key" "e = copied_event (forks ! i) h"
proof -
  from i have ne: "origs \<noteq> []" by auto
  note fresh = fork_workflow_fresh [OF inv ne run]
  let ?ms = "fork_mappings origs forks steps"
  have new: "forks ! i \<notin> set (workflow_ids db)" using fresh(2,4) i by (metis disjoint_iff nth_mem)
  from ev have "e \<in> set (workflow_events db')" and pk: "we_pk e = (forks ! i, key)"
    by (auto simp: event_row_def dest!: nth_row_SomeD)
  moreover have "e \<notin> set (workflow_events db)"
    using inv new pk by (auto simp: sysdb_inv_def children_ok_def child_ok_def)
  ultimately have "e \<in> set (copy_events ?ms db)" by (simp add: fork_workflow_tables(3) [OF inv ne run])
  then obtain m h where mh: "(m, h) \<in> set (ranked_first (mapping_join weh_workflow_uuid weh_function_id ?ms
      (workflow_events_history db)))" and e: "e = copied_event (fork_of m) h"
    by (auto simp: copy_events_def)
  then have "m \<in> set ?ms" "weh_workflow_uuid h = fst m"
    using ranked_first_partition(1) [OF mh] by (simp_all add: set_mapping_join)
  moreover from e pk have fm: "fork_of m = forks ! i" "weh_key h = key" by (auto simp: copied_event_def)
  ultimately have "fst m = origs ! i"
  proof -
    from \<open>m \<in> set ?ms\<close> obtain j where "j < length origs" "m = (origs ! j, forks ! j, steps ! j)"
      using fresh(4,5) by (auto simp: set_zip)
    with fm fresh(1,4) i show ?thesis by (auto simp: nth_eq_iff_index_eq)
  qed
  with that mh fm e \<open>weh_workflow_uuid h = fst m\<close> show thesis by metis
qed

lemma ranked_first_hd:
  "x \<in> set rows \<Longrightarrow> hd (sort_key (\<lambda>y. - weh_function_id (snd y)) (filter (\<lambda>y. partition_of y = partition_of x) rows))
     \<in> set (ranked_first rows)"
  unfolding ranked_first_def set_map set_remdups by (rule imageI) (rule imageI)

lemma event_row_Some_iff:
  assumes "sysdb_inv db"
  shows "event_row db wid key = Some e \<longleftrightarrow> e \<in> set (workflow_events db) \<and> we_pk e = (wid, key)"
proof
  assume e: "e \<in> set (workflow_events db) \<and> we_pk e = (wid, key)"
  from assms have "distinct (map we_pk (workflow_events db))"
    by (simp add: sysdb_inv_def children_ok_def child_ok_def)
  from filter_key_unique [OF this, of e] e show "event_row db wid key = Some e"
    by (simp add: event_row_def)
qed (auto simp: event_row_def dest!: nth_row_SomeD)

lemma fork_copies_events:
  assumes inv: "sysdb_inv db" and run: "fork_workflow origs forks steps v q k repl now db = (Inr ids, db')"
    and i: "i < length origs" and dist: "distinct origs"
  shows "event_row db' (forks ! i) key = (if 1 < steps ! i
    then map_option (copied_event (forks ! i)) (latest_event (origs ! i) key (steps ! i) db) else None)"
proof -
  from i have ne: "origs \<noteq> []" by auto
  note fresh = fork_workflow_fresh [OF inv ne run]
  let ?ms = "fork_mappings origs forks steps"
  let ?J = "mapping_join weh_workflow_uuid weh_function_id ?ms (workflow_events_history db)"
  let ?hs = "filter (\<lambda>h. weh_workflow_uuid h = origs ! i \<and> weh_key h = key \<and> weh_function_id h < steps ! i)
        (workflow_events_history db)"
  have inv': "sysdb_inv db'" using fork_workflow_inv [OF inv, of origs forks steps v q k repl now] run by simp
  have some: "1 < steps ! i \<and> ?hs \<noteq> []" if "event_row db' (forks ! i) key = Some e" for e
  proof -
    from event_row_Some_fork [OF inv run i that] obtain m h where
      mh: "(m, h) \<in> set (ranked_first ?J)" "fork_of m = forks ! i" "weh_workflow_uuid h = origs ! i" "weh_key h = key" .
    from ranked_first_partition(1) [OF mh(1)] have J: "m \<in> set ?ms" "h \<in> set (workflow_events_history db)"
      "weh_function_id h < snd (snd m)" by (simp_all add: set_mapping_join)
    from J(1) mh(2) have step: "1 < steps ! i"
      using fork_mappings_forks(5) [OF fresh(1,4,5) i] by (metis image_eqI)
    have "m = (origs ! i, forks ! i, steps ! i)"
      using fork_mappings_forks(1,4) [OF fresh(1,4,5)] J(1) mh(2) i step
      by (metis (no_types, lifting) distinct_key_eq fst_conv snd_conv)
    with J mh step show ?thesis by (auto simp: filter_empty_conv)
  qed
  show ?thesis
  proof (cases "1 < steps ! i \<and> ?hs \<noteq> []")
    case False
    with some have "event_row db' (forks ! i) key = None" by (cases "event_row db' (forks ! i) key") auto
    with False show ?thesis by (auto simp: latest_event_def)
  next
    case True
    let ?m = "(origs ! i, forks ! i, steps ! i)"
    have m: "?m \<in> set ?ms" by (rule fork_mappings_forks(4) [OF fresh(1,4,5) i]) (use True in simp)
    have "map fst (zip origs (zip forks steps)) = origs" using fresh(4,5) by simp
    then have "distinct (map fst ?ms)" using dist by (metis distinct_map_filter)
    from mapping_join_select [OF this m, of weh_workflow_uuid weh_function_id "workflow_events_history db"]
    have sel: "filter (\<lambda>x. fst (fst x) = origs ! i) ?J
      = map (Pair ?m) (filter (\<lambda>h. weh_workflow_uuid h = origs ! i \<and> weh_function_id h < steps ! i)
          (workflow_events_history db))" by simp
    have "filter (\<lambda>x. partition_of x = (origs ! i, key)) ?J
        = filter (\<lambda>x. weh_key (snd x) = key) (filter (\<lambda>x. fst (fst x) = origs ! i) ?J)"
      unfolding filter_filter by (intro filter_cong refl) (auto simp: set_mapping_join)
    also have "\<dots> = map (Pair ?m) ?hs"
      unfolding sel filter_map filter_filter comp_def
      by (intro arg_cong [of _ _ "map (Pair ?m)"] filter_cong) auto
    finally have part: "filter (\<lambda>x. partition_of x = (origs ! i, key)) ?J = map (Pair ?m) ?hs" .
    define h0 where "h0 = hd ?hs"
    from True have "h0 \<in> set ?hs" unfolding h0_def by (intro hd_in_set) simp
    then have "(?m, h0) \<in> set (map (Pair ?m) ?hs)" unfolding set_map by (rule imageI)
    then have h0: "(?m, h0) \<in> set ?J" "partition_of (?m, h0) = (origs ! i, key)"
      unfolding part [symmetric] by auto
    let ?s = "sort_key (\<lambda>h. - weh_function_id h) ?hs"
    have ne': "?s \<noteq> []" using True unfolding sort_key_Nil_iff by (rule conjunct2)
    then have lat: "latest_event (origs ! i) key (steps ! i) db = Some (hd ?s)"
      unfolding latest_event_def by (cases ?s) auto
    from ranked_first_hd [OF h0(1)] have "hd (sort_key (\<lambda>y. - weh_function_id (snd y)) (map (Pair ?m) ?hs))
      \<in> set (ranked_first ?J)" unfolding h0(2) part .
    then have "(?m, hd ?s) \<in> set (ranked_first ?J)" using ne' by (simp add: sort_key_map hd_map)
    then have "copied_event (forks ! i) (hd ?s) \<in> set (workflow_events db')"
      by (force simp: fork_workflow_tables(3) [OF inv ne run] copy_events_def)
    moreover have "we_pk (copied_event (forks ! i) (hd ?s)) = (forks ! i, key)"
      using latest_event_greatest(3) [OF lat] by (simp add: copied_event_def)
    ultimately show ?thesis using True lat by (simp add: event_row_Some_iff [OF inv'])
  qed
qed

section \<open>Forking is copying a prefix of the history\<close>

lemma fork_other_outputs:
  assumes inv: "sysdb_inv db" and run: "fork_workflow origs forks steps v q k repl now db = (Inr ids, db')"
    and ne: "origs \<noteq> []" and w: "w \<notin> set forks"
  shows "operation_row db' w fid = operation_row db w fid"
proof -
  note fresh = fork_workflow_fresh [OF inv ne run]
  have "filter (\<lambda>y. oo_workflow_uuid y = w \<and> oo_function_id y = fid)
      (copy_outputs repl (fork_mappings origs forks steps) db) = []"
    unfolding copy_outputs_def by (rule no_copies [OF fresh(1,4,5) w]) (simp add: copied_output_def)
  then show ?thesis by (simp add: operation_row_def fork_workflow_tables(1) [OF inv ne run])
qed

lemma fork_other_rows:
  assumes inv: "sysdb_inv db" and run: "fork_workflow origs forks steps v q k repl now db = (Inr ids, db')"
    and ne: "origs \<noteq> []" and w: "w \<notin> set forks"
  shows "event_row db' w key = event_row db w key" "stream_rows w key db' = stream_rows w key db"
    "filter (\<lambda>r. weh_workflow_uuid r = w) (workflow_events_history db')
       = filter (\<lambda>r. weh_workflow_uuid r = w) (workflow_events_history db)"
proof -
  let ?ms = "fork_mappings origs forks steps"
  note fresh = fork_workflow_fresh [OF inv ne run] and tables = fork_workflow_tables [OF inv ne run]
  have forks: "fork_of m \<noteq> w" if "m \<in> set ?ms" for m
    using that w fork_mappings_forks(2) [OF fresh(1,4,5)] by blast
  have "we_pk r \<noteq> (w, key)" if "r \<in> set (copy_events ?ms db)" for r
    using that forks ranked_first_partition(1)
    by (fastforce simp: copy_events_def set_mapping_join copied_event_def)
  then have "filter (\<lambda>r. we_pk r = (w, key)) (copy_events ?ms db) = []" by (simp add: filter_empty_conv)
  then show "event_row db' w key = event_row db w key" by (simp only: event_row_def tables(3) filter_append append_Nil2)
  have "\<not> of_stream w key r" if "r \<in> set (copy_streams ?ms db)" for r
    using that forks by (fastforce simp: copy_streams_def set_mapping_join copied_stream_def of_stream_def)
  then have "filter (of_stream w key) (copy_streams ?ms db) = []" by (simp add: filter_empty_conv)
  then show "stream_rows w key db' = stream_rows w key db" by (simp only: stream_rows_def tables(4) filter_append append_Nil2)
  have "weh_workflow_uuid r \<noteq> w" if "r \<in> set (copy_history ?ms db)" for r
    using that forks by (fastforce simp: copy_history_def set_mapping_join copied_history_def)
  then have "filter (\<lambda>r. weh_workflow_uuid r = w) (copy_history ?ms db) = []" by (simp add: filter_empty_conv)
  then show "filter (\<lambda>r. weh_workflow_uuid r = w) (workflow_events_history db')
       = filter (\<lambda>r. weh_workflow_uuid r = w) (workflow_events_history db)"
    by (simp only: tables(2) filter_append append_Nil2)
qed

text \<open>
  C34: A fork starts with exactly the recorded history of its original before the start step: it is
  ENQUEUED with the original's name, inputs and attributes, its checkpoints and stream entries are
  those the original recorded before the start step (nothing for start step 1), and, provided that no
  workflow is forked twice in the call, its events are the latest ones set before the start step.
  The rows of the originals are only marked; the status of every other workflow, and the checkpoints, events, event
  history and streams of every workflow that is not a new fork, the originals included, are unchanged, and so is the
  table of messages.
\<close>

theorem fork_workflow_correct:
  assumes inv: "sysdb_inv db" and i: "i < length origs"
    and run: "fork_workflow origs forks steps v q k repl now db = (Inr ids, db')"
  shows "(\<exists>r. status_row db (origs ! i) = Some r
        \<and> status_row db' (forks ! i) = Some (fork_row v q k now (origs ! i) (forks ! i) r))
    \<and> (\<forall>fid. operation_row db' (forks ! i) fid = (if 1 < steps ! i \<and> fid < steps ! i
         then map_option (copied_output repl (forks ! i)) (operation_row db (origs ! i) fid) else None))
    \<and> (\<forall>key. stream_rows (forks ! i) key db' = (if 1 < steps ! i
         then map (copied_stream (forks ! i))
           (filter (\<lambda>r. st_function_id r < steps ! i) (stream_rows (origs ! i) key db)) else []))
    \<and> (distinct origs \<longrightarrow> (\<forall>key. event_row db' (forks ! i) key = (if 1 < steps ! i
         then map_option (copied_event (forks ! i)) (latest_event (origs ! i) key (steps ! i) db) else None)))
    \<and> (\<forall>w. w \<notin> set forks \<longrightarrow>
         status_row db' w = map_option (if w \<in> set origs then mark_forked else id) (status_row db w)
         \<and> (\<forall>fid. operation_row db' w fid = operation_row db w fid)
         \<and> (\<forall>key. event_row db' w key = event_row db w key \<and> stream_rows w key db' = stream_rows w key db)
         \<and> filter (\<lambda>r. weh_workflow_uuid r = w) (workflow_events_history db')
           = filter (\<lambda>r. weh_workflow_uuid r = w) (workflow_events_history db))
    \<and> notifications db' = notifications db"
proof -
  from i have ne: "origs \<noteq> []" by auto
  show ?thesis
    using fork_status_rows [OF inv run ne] fork_copies_outputs [OF inv run i] fork_copies_streams [OF inv run i]
      fork_copies_events [OF inv run i] fork_other_outputs [OF inv run ne] fork_other_rows [OF inv run ne]
      fork_workflow_tables(5) [OF inv ne run] i
    by simp
qed

definition example_fork_db :: sysdb where
  "example_fork_db = (example_db [''w''])\<lparr>
     operation_outputs := [\<lparr>oo_workflow_uuid = ''w'', oo_function_id = 1, oo_function_name = ''s1'', oo_output = Some ''o1'',
       oo_error = None, oo_child_workflow_id = None, oo_started_at_epoch_ms = Some 1,
       oo_completed_at_epoch_ms = Some 2, oo_serialization = None\<rparr>,
      \<lparr>oo_workflow_uuid = ''w'', oo_function_id = 2, oo_function_name = ''s2'', oo_output = None,
       oo_error = Some ''boom'', oo_child_workflow_id = None, oo_started_at_epoch_ms = Some 3,
       oo_completed_at_epoch_ms = Some 4, oo_serialization = None\<rparr>],
     workflow_events_history := [\<lparr>weh_workflow_uuid = ''w'', weh_key = ''k'', weh_value = ''v'', weh_function_id = 1,
       weh_serialization = None\<rparr>]\<rparr>"

lemmas example_fork_simps = example_fork_db_def example_db_def example_status_def new_status_row_def empty_sysdb_def

lemma example_fork_inv: "sysdb_inv example_fork_db"
  by (simp add: example_fork_simps sysdb_inv_def status_table_ok_def dedup_unique_def
      children_ok_def child_ok_def catalog_ok_def workflow_ids_def)

lemmas fork_eval = fork_workflow_def fork_txn_def find_original_def status_row_def lift_res_def
  lift_db_def insert_status_row_def workflow_ids_def fork_row_def dedup_key_def copy_fork_data_def
  insert_operation_output_def insert_event_history_def insert_event_def insert_stream_def insert_child_def
  copy_outputs_def copy_history_def copy_events_def copy_streams_def mapping_join_def ranked_first_def
  copied_output_def copied_history_def copied_event_def copied_stream_def update_workflow_status_def
  sql_update_def mark_forked_def child_wf_expr_def Let_def engine_begin_def

theorem fork_workflow_correct_witness:
  "\<exists>db'. fork_workflow [''w''] [''f''] [2] None None None [] 50 example_fork_db = (Inr [''f''], db')
    \<and> operation_row db' ''f'' 2 = None
    \<and> map_option oo_output (operation_row db' ''f'' 1) = Some (Some ''o1'')
    \<and> map_option we_value (event_row db' ''f'' ''k'') = Some ''v''"
proof -
  obtain db' where run: "fork_workflow [''w''] [''f''] [2] None None None [] 50 example_fork_db = (Inr [''f''], db')"
    by (simp add: example_fork_simps fork_eval)
  have c: "operation_row db' ''f'' fid = (if fid < 2
      then map_option (copied_output [] ''f'') (operation_row example_fork_db ''w'' fid) else None)"
    "event_row db' ''f'' ''k'' = map_option (copied_event ''f'') (latest_event ''w'' ''k'' 2 example_fork_db)" for fid
    using fork_workflow_correct [OF example_fork_inv _ run, of 0] by simp_all
  show ?thesis
    by (intro exI [of _ db'] conjI run; simp add: c)
       (simp_all add: operation_row_def latest_event_def example_fork_simps copied_output_def copied_event_def)
qed

text \<open>
  The events of a workflow that is forked twice in one call are not copied to both forks: the
  copy ranks history entries per original workflow and key, not per fork, so of two forks of the
  same workflow at most one gets a given event.
\<close>

theorem fork_duplicate_loses_events:
  assumes inv: "sysdb_inv db"
    and run: "fork_workflow origs forks steps v q k repl now db = (Inr ids, db')"
    and dup: "i < length origs" "j < length origs" "i \<noteq> j" "origs ! i = origs ! j"
  shows "event_row db' (forks ! i) key = None \<or> event_row db' (forks ! j) key = None"
proof (rule ccontr)
  assume "\<not> ?thesis"
  then obtain e e' where e: "event_row db' (forks ! i) key = Some e" "event_row db' (forks ! j) key = Some e'" by auto
  from dup have ne: "origs \<noteq> []" by auto
  note fresh = fork_workflow_fresh [OF inv ne run]
  let ?R = "ranked_first (mapping_join weh_workflow_uuid weh_function_id (fork_mappings origs forks steps)
      (workflow_events_history db))"
  from event_row_Some_fork [OF inv run dup(1) e(1)] obtain m h where
    mh: "(m, h) \<in> set ?R" "fork_of m = forks ! i" "weh_workflow_uuid h = origs ! i" "weh_key h = key" .
  from event_row_Some_fork [OF inv run dup(2) e(2)] obtain m' h' where
    mh': "(m', h') \<in> set ?R" "fork_of m' = forks ! j" "weh_workflow_uuid h' = origs ! j" "weh_key h' = key" .
  have "(m', h') \<in> set (filter (\<lambda>y. partition_of y = partition_of (m, h)) ?R)"
    using mh mh' dup(4) by simp
  then have "m' = m" unfolding ranked_first_partition(2) [OF mh(1)] by simp
  with mh mh' have "forks ! i = forks ! j" by simp
  with fresh(1,4) dup(1-3) show False by (simp add: nth_eq_iff_index_eq)
qed

theorem fork_duplicate_loses_events_witness:
  "\<exists>db'. fork_workflow [''w'', ''w''] [''f'', ''g''] [2, 2] None None None [] 50 example_fork_db = (Inr [''f'', ''g''], db')
    \<and> map_option we_value (event_row db' ''f'' ''k'') = Some ''v'' \<and> event_row db' ''g'' ''k'' = None"
proof -
  obtain db' where run: "fork_workflow [''w'', ''w''] [''f'', ''g''] [2, 2] None None None [] 50 example_fork_db
      = (Inr [''f'', ''g''], db')"
    and f: "map_option we_value (event_row db' ''f'' ''k'') = Some ''v''"
    by (simp add: example_fork_simps fork_eval event_row_def)
  from f have "event_row db' ''f'' ''k'' \<noteq> None" by auto
  moreover have "event_row db' ([''f'', ''g''] ! 0) ''k'' = None \<or> event_row db' ([''f'', ''g''] ! 1) ''k'' = None"
    by (rule fork_duplicate_loses_events [OF example_fork_inv run]) simp_all
  ultimately have "event_row db' ''g'' ''k'' = None" by auto
  with run f show ?thesis by blast
qed

section \<open>Forking from a failure\<close>

text \<open>
  A fork from the last failure starts at or after every failed step: it keeps what the workflow
  recorded before the last failed step and leaves out that step and everything after it (the start
  steps being read in the same database).
\<close>

lemma start_step_last_failure:
  assumes "fm_from_last_failure f" and "r \<in> set (operation_outputs db)" "oo_workflow_uuid r = wid" "oo_error r \<noteq> None"
  shows "\<exists>r0 \<in> set (operation_outputs db). fork_start_step f db wid = Some (oo_function_id r0)
    \<and> oo_workflow_uuid r0 = wid \<and> oo_error r0 \<noteq> None \<and> oo_function_id r \<le> oo_function_id r0"
proof -
  let ?failed = "map oo_function_id (filter (\<lambda>r. oo_error r \<noteq> None) (steps_of wid db))"
  have r: "oo_function_id r \<in> set ?failed" using assms by (auto simp: steps_of_def)
  then have "?failed \<noteq> []" by (rule list.set_cases) simp_all
  then obtain m where m: "max_opt ?failed = Some m" by (metis max_opt_None_iff option.exhaust)
  from max_opt_SomeD(1) [OF m] obtain r0 where "r0 \<in> set (operation_outputs db)" "oo_workflow_uuid r0 = wid"
    "oo_error r0 \<noteq> None" "m = oo_function_id r0" by (auto simp: steps_of_def)
  moreover have "fork_start_step f db wid = Some m" using assms(1) m by (simp add: fork_start_step_def)
  ultimately show ?thesis using max_opt_SomeD(2) [OF m r] by blast
qed

lemma fork_from_failure_restarts:
  assumes inv: "sysdb_inv db" and f: "fm_from_last_failure f"
    and run: "fork_from_failure wids v q k f g now db db = (Inr ids, db')"
    and i: "i < length wids" and r: "operation_row db (wids ! i) fid = Some r" "oo_error r \<noteq> None"
  shows "\<exists>fid0 \<ge> fid. \<forall>n. operation_row db' (ids ! i) n = (if 1 < fid0 \<and> n < fid0
      then map_option (copied_output [] (ids ! i)) (operation_row db (wids ! i) n) else None)"
proof -
  from f run have none: "fm_from_step f = None"
    by (auto simp: fork_from_failure_def fork_mode_count_def split: if_splits)
  let ?forks = "map g [0..<length wids]"
  from run none obtain steps where steps: "res_map (find_start_step f db) wids = Inr steps"
    and fork: "fork_workflow wids ?forks steps v q k [] now db = (Inr ids, db')"
    by (simp add: fork_from_failure_def split: if_splits sum.splits)
  from i have ne: "wids \<noteq> []" by auto
  have ids: "ids = ?forks" by (rule fork_workflow_fresh(6) [OF inv ne fork])
  from operation_row_SomeD [OF r(1)] have r': "r \<in> set (operation_outputs db)" "oo_workflow_uuid r = wids ! i"
    "oo_function_id r = fid" by auto
  from start_step_last_failure [OF f r'(1,2) r(2)] obtain r0 :: operation_output_row where
    s: "fork_start_step f db (wids ! i) = Some (oo_function_id r0)" "fid \<le> oo_function_id r0"
    unfolding r'(3) by blast
  have st: "steps ! i = oo_function_id r0"
  proof -
    from steps i have "find_start_step f db (wids ! i) = Inr (steps ! i)" by (auto simp: res_map_Inr_iff)
    with s(1) show ?thesis by (simp add: find_start_step_def)
  qed
  have rows: "operation_row db' (ids ! i) n = (if 1 < steps ! i \<and> n < steps ! i
      then map_option (copied_output [] (ids ! i)) (operation_row db (wids ! i) n) else None)" for n
    using fork_copies_outputs [OF inv fork i, of n] by (simp add: ids)
  show "\<exists>fid0 \<ge> fid. \<forall>n. operation_row db' (ids ! i) n = (if 1 < fid0 \<and> n < fid0
      then map_option (copied_output [] (ids ! i)) (operation_row db (wids ! i) n) else None)"
    by (rule exI [of _ "steps ! i"]) (use rows st s(2) in simp)
qed

end
