(* ===== verification/DBOS_GC.thy ===== *)
theory DBOS_GC
  imports DBOS_Status_Lifecycle
begin

text \<open>
  Garbage collection (\<^verbatim>\<open>garbage_collect\<close> of \<^verbatim>\<open>dbos/_sys_db.py\<close>): completed workflows created before a
  cutoff are deleted, in one statement or in batches that advance a watermark. Shown: the batched
  loop ends and deletes exactly what the single statement deletes, active workflows and their
  checkpoints survive, and the cutoff is the later of the given one and the one of the row threshold.
\<close>

definition gc_filter :: "int \<Rightarrow> workflow_status_row \<Rightarrow> bool" where
  "gc_filter cutoff r \<longleftrightarrow> ws_created_at r < cutoff
     \<and> \<not> (ws_status r = PENDING \<or> ws_status r = ENQUEUED \<or> ws_status r = DELAYED)"

text \<open>The cutoff of the row threshold; PostgreSQL refuses a negative offset.\<close>

definition rows_based_cutoff :: "int \<Rightarrow> sysdb \<Rightarrow> int option res" where
  "rows_based_cutoff rows_threshold db =
     (if rows_threshold - 1 < 0 then Inl (PyException ''OFFSET must not be negative'')
      else Inr (map_option ws_created_at (nth_row (nat (rows_threshold - 1))
        (sort_key (\<lambda>r. - ws_created_at r) (workflow_status db)))))"

definition gc_cutoff :: "int option \<Rightarrow> int option \<Rightarrow> sysdb \<Rightarrow> int option res" where
  "gc_cutoff cutoff rows_threshold db = (case rows_threshold of
     None \<Rightarrow> Inr cutoff
   | Some k \<Rightarrow> res_bind (rows_based_cutoff k db) (\<lambda>result. Inr (case result of
       None \<Rightarrow> cutoff
     | Some rows_cutoff \<Rightarrow> (case cutoff of
         None \<Rightarrow> Some rows_cutoff
       | Some c \<Rightarrow> if rows_cutoff > c then Some rows_cutoff else Some c))))"

definition gc_step :: "int \<Rightarrow> int \<Rightarrow> int \<Rightarrow> sysdb \<Rightarrow> int option" where
  "gc_step batch_size cutoff watermark db = map_option ws_created_at (nth_row (nat (batch_size - 1))
     (sort_key ws_created_at (filter (\<lambda>r. gc_filter cutoff r \<and> ws_created_at r > watermark) (workflow_status db))))"

lemma gc_step_row:
  assumes "gc_step b cutoff watermark db = Some s"
  obtains r where "r \<in> set (workflow_status db)" "gc_filter cutoff r" "ws_created_at r > watermark" "ws_created_at r = s"
  using assms by (auto simp: gc_step_def dest!: nth_row_SomeD)

lemma gc_measure:
  assumes "gc_step b cutoff watermark db = Some s"
  shows "length (filter (\<lambda>r. gc_filter cutoff r \<and> ws_created_at r > s)
      (workflow_status (delete_workflow_status (\<lambda>r. gc_filter cutoff r \<and> ws_created_at r > watermark
         \<and> ws_created_at r \<le> s) db)))
    < length (filter (\<lambda>r. gc_filter cutoff r \<and> ws_created_at r > watermark) (workflow_status db))"
proof -
  obtain r where r: "r \<in> set (workflow_status db)" "gc_filter cutoff r" "ws_created_at r > watermark" "ws_created_at r = s"
    by (rule gc_step_row [OF assms])
  let ?old = "filter (\<lambda>r. gc_filter cutoff r \<and> ws_created_at r > watermark) (workflow_status db)"
  have "filter (\<lambda>r. gc_filter cutoff r \<and> ws_created_at r > s)
      (workflow_status (delete_workflow_status (\<lambda>r. gc_filter cutoff r \<and> ws_created_at r > watermark
         \<and> ws_created_at r \<le> s) db)) = filter (\<lambda>r. ws_created_at r > s) ?old"
    using r(3,4) by (auto simp: delete_workflow_status_def Let_def sql_delete_def intro: filter_cong)
  moreover have "length (filter (\<lambda>r. ws_created_at r > s) ?old) < length ?old"
    by (rule length_filter_less [of r]) (use r in auto)
  ultimately show ?thesis by simp
qed

text \<open>Each batch is one transaction; the loop sees no other changes in between.\<close>

function gc_batches :: "int \<Rightarrow> int \<Rightarrow> int \<Rightarrow> sysdb \<Rightarrow> sysdb" where
  "gc_batches batch_size cutoff watermark db =
     (case gc_step batch_size cutoff watermark db of
        None \<Rightarrow> delete_workflow_status (gc_filter cutoff) db
      | Some s \<Rightarrow> gc_batches batch_size cutoff s
          (delete_workflow_status (\<lambda>r. gc_filter cutoff r \<and> ws_created_at r > watermark \<and> ws_created_at r \<le> s) db))"
  by pat_completeness auto

termination
  by (relation "measure (\<lambda>(b, cutoff, watermark, db).
      length (filter (\<lambda>r. gc_filter cutoff r \<and> ws_created_at r > watermark) (workflow_status db)))")
     (simp_all add: gc_measure)

declare gc_batches.simps [simp del]

definition garbage_collect ::
  "int option \<Rightarrow> int option \<Rightarrow> int option \<Rightarrow> sysdb \<Rightarrow> (int \<times> string list) option res \<times> sysdb" where
  "garbage_collect cutoff rows_threshold batch_size db =
     (if (case batch_size of Some b \<Rightarrow> b < 1 | None \<Rightarrow> False) then (Inl ValueError, db)
      else case gc_cutoff cutoff rows_threshold db of
        Inl e \<Rightarrow> (Inl e, db)
      | Inr None \<Rightarrow> (Inr None, db)
      | Inr (Some c) \<Rightarrow>
          (let db' = (case batch_size of
                 None \<Rightarrow> delete_workflow_status (gc_filter c) db
               | Some b \<Rightarrow> gc_batches b c 0 db)
           in (Inr (Some (c, map ws_workflow_uuid (filter (\<lambda>r. ws_created_at r < c) (workflow_status db')))), db')))"

section \<open>Batches delete what one statement deletes\<close>

lemma sql_delete_delete: "sql_delete P (sql_delete Q t) = sql_delete (\<lambda>r. Q r \<or> P r) t"
  by (auto simp: sql_delete_def intro: filter_cong)

lemma sql_delete_union:
  "A \<union> B = C \<Longrightarrow> sql_delete (\<lambda>r. f r \<in> B) (sql_delete (\<lambda>r. f r \<in> A) t) = sql_delete (\<lambda>r. f r \<in> C) t"
  unfolding sql_delete_delete by (metis Un_iff)

lemma delete_status_absorb:
  assumes "\<And>r. Q r \<Longrightarrow> P r"
  shows "delete_workflow_status P (delete_workflow_status Q db) = delete_workflow_status P db"
proof -
  define A B C where "A = set (map ws_workflow_uuid (filter Q (workflow_status db)))"
    and "B = set (map ws_workflow_uuid (filter P (sql_delete Q (workflow_status db))))"
    and "C = set (map ws_workflow_uuid (filter P (workflow_status db)))"
  have ABC: "A \<union> B = C" using assms by (auto simp: A_def B_def C_def sql_delete_def)
  have "(\<lambda>r. Q r \<or> P r) = P" using assms by auto
  then have status: "sql_delete P (sql_delete Q (workflow_status db)) = sql_delete P (workflow_status db)"
    unfolding sql_delete_delete by simp
  show ?thesis
    unfolding delete_workflow_status_def Let_def A_def [symmetric] C_def [symmetric]
    by (simp del: set_map set_filter add: B_def [symmetric] status sql_delete_union [OF ABC])
qed

lemma gc_batches_eq: "gc_batches b cutoff watermark db = delete_workflow_status (gc_filter cutoff) db"
proof (induction b cutoff watermark db rule: gc_batches.induct)
  case (1 b cutoff watermark db)
  show ?case
  proof (cases "gc_step b cutoff watermark db")
    case None
    then show ?thesis by (subst gc_batches.simps) simp
  next
    case (Some s)
    have "delete_workflow_status (gc_filter cutoff) (delete_workflow_status (\<lambda>r. gc_filter cutoff r
        \<and> ws_created_at r > watermark \<and> ws_created_at r \<le> s) db) = delete_workflow_status (gc_filter cutoff) db"
      by (rule delete_status_absorb) simp
    with 1 [OF Some] Some show ?thesis by (subst gc_batches.simps) simp
  qed
qed

section \<open>What is collected\<close>

lemma gc_cutoff_later:
  assumes "gc_cutoff cutoff rows db = Inr c"
  shows "(\<forall>x. cutoff = Some x \<longrightarrow> (\<exists>y \<ge> x. c = Some y))
    \<and> (\<forall>k. rows = Some k \<and> int (length (workflow_status db)) \<ge> k \<longrightarrow>
         (\<exists>y. c = Some y \<and> int (length (filter (\<lambda>r. ws_created_at r > y) (workflow_status db))) < k))"
proof -
  let ?newest = "sort_key (\<lambda>r. - ws_created_at r) (workflow_status db)"
  have few: "int (length (filter (\<lambda>r. ws_created_at r > y) (workflow_status db))) < k"
    if k: "1 \<le> k" "int (length (workflow_status db)) \<ge> k" and y: "ws_created_at (?newest ! nat (k - 1)) \<le> y" for k y
  proof -
    let ?n = "nat (k - 1)"
    have n: "?n < length ?newest" using k by simp
    have old: "\<not> ws_created_at r > y" if "r \<in> set (drop ?n ?newest)" for r
    proof -
      from that obtain j where j: "j < length ?newest - ?n" "r = ?newest ! (?n + j)"
        by (auto simp: in_set_conv_nth)
      have "- ws_created_at (?newest ! ?n) \<le> - ws_created_at (?newest ! (?n + j))"
        using sorted_nth_mono [OF sorted_sort_key [of "\<lambda>r. - ws_created_at r" "workflow_status db"], of ?n "?n + j"]
          j(1) n by simp
      with y j(2) show ?thesis by simp
    qed
    have "length (filter (\<lambda>r. ws_created_at r > y) (workflow_status db))
        = length (filter (\<lambda>r. ws_created_at r > y) ?newest)"
      by (metis filter_sort length_sort)
    also have "\<dots> = length (filter (\<lambda>r. ws_created_at r > y) (take ?n ?newest @ drop ?n ?newest))" by simp
    also have "\<dots> = length (filter (\<lambda>r. ws_created_at r > y) (take ?n ?newest))"
      unfolding filter_append using old by (simp add: filter_empty_conv)
    also have "\<dots> \<le> ?n" using length_filter_le [of _ "take ?n ?newest"] by (simp add: le_trans)
    finally show ?thesis using k by linarith
  qed
  show ?thesis
  proof (cases rows)
    case None
    with assms show ?thesis by (simp add: gc_cutoff_def)
  next
    case (Some k)
    with assms have k: "1 \<le> k" by (auto simp: gc_cutoff_def rows_based_cutoff_def split: if_splits)
    show ?thesis
    proof (cases "nat (k - 1) < length (workflow_status db)")
      case True
      let ?y = "ws_created_at (?newest ! nat (k - 1))"
      from assms Some k True have c: "c = (case cutoff of None \<Rightarrow> Some ?y | Some x \<Rightarrow> Some (max x ?y))"
        by (auto simp: gc_cutoff_def rows_based_cutoff_def nth_row_eq max_def split: option.splits)
      have "int (length (filter (\<lambda>r. ws_created_at r > y) (workflow_status db))) < k" if "c = Some y" for y
        by (rule few [OF k]) (use True k that c in \<open>auto split: option.splits\<close>)
      then show ?thesis using Some c by (auto split: option.splits)
    next
      case False
      with assms Some k have "c = cutoff" by (simp add: gc_cutoff_def rows_based_cutoff_def nth_row_eq)
      with False k Some show ?thesis by auto
    qed
  qed
qed

lemma delete_status_row:
  assumes "sysdb_inv db"
  shows "status_row (delete_workflow_status P db) wid = (case status_row db wid of
      None \<Rightarrow> None | Some r \<Rightarrow> if P r then None else Some r)"
proof -
  have ok: "status_table_ok (workflow_status db)" using assms by (simp add: sysdb_inv_def)
  have ok': "status_table_ok (workflow_status (delete_workflow_status P db))"
    using delete_workflow_status_inv [OF assms] by (simp add: sysdb_inv_def)
  have set': "set (workflow_status (delete_workflow_status P db)) = {r \<in> set (workflow_status db). \<not> P r}"
    by (simp add: delete_workflow_status_def Let_def set_sql_delete)
  show ?thesis
  proof (cases "status_row (delete_workflow_status P db) wid")
    case None
    then have "P r" if "status_row db wid = Some r" for r
      using status_row_SomeD [OF that] set' by (auto simp: status_row_None_iff workflow_ids_def)
    with None show ?thesis by (simp split: option.splits)
  next
    case (Some r)
    with status_row_SomeD [OF Some] set' have "status_row db wid = Some r" "\<not> P r"
      by (simp_all add: status_row_Some_iff [OF ok])
    with Some show ?thesis by simp
  qed
qed

lemma delete_operation_row:
  assumes "sysdb_inv db"
  shows "operation_row (delete_workflow_status P db) wid fid
    = (if status_row (delete_workflow_status P db) wid = None then None else operation_row db wid fid)"
proof -
  define gone where "gone = set (map ws_workflow_uuid (filter P (workflow_status db)))"
  have ok: "status_table_ok (workflow_status db)" using assms by (simp add: sysdb_inv_def)
  have outs: "operation_outputs (delete_workflow_status P db)
      = sql_delete (\<lambda>r. oo_workflow_uuid r \<in> gone) (operation_outputs db)"
    by (simp add: delete_workflow_status_def Let_def gone_def)
  have gone: "wid \<in> gone \<longleftrightarrow> (\<exists>r. status_row db wid = Some r \<and> P r)"
    by (auto simp: gone_def status_row_Some_iff [OF ok])
  have fk: "operation_row db wid fid = None" if "status_row db wid = None"
    using assms that by (auto simp: sysdb_inv_def children_ok_def child_ok_def status_row_None_iff operation_row_None_iff)
  have del: "operation_row (delete_workflow_status P db) wid fid
      = (if wid \<in> gone then None else operation_row db wid fid)"
  proof -
    have "filter (\<lambda>r. oo_pk r = (wid, fid)) (sql_delete (\<lambda>r. oo_workflow_uuid r \<in> gone) (operation_outputs db))
        = (if wid \<in> gone then [] else filter (\<lambda>r. oo_pk r = (wid, fid)) (operation_outputs db))"
      unfolding sql_delete_def filter_filter by (auto simp: filter_empty_conv intro: filter_cong)
    then show ?thesis unfolding operation_row_def outs by simp
  qed
  show ?thesis
    using del gone fk delete_status_row [OF assms, of P wid] by (auto split: option.splits)
qed

lemma garbage_collect_Some:
  assumes "garbage_collect cutoff rows batch db = (Inr (Some (c, ids)), db')"
  shows "gc_cutoff cutoff rows db = Inr (Some c)" "db' = delete_workflow_status (gc_filter c) db"
    "ids = map ws_workflow_uuid (filter (\<lambda>r. ws_created_at r < c) (workflow_status db'))"
  using assms by (auto simp: garbage_collect_def Let_def gc_batches_eq split: if_splits sum.splits option.splits)

text \<open>
  C35: Garbage collection, batched or not, always returns and removes exactly the completed
  workflows created before the cutoff, with all their data. What remains older than the cutoff (the
  returned IDs) is active; every surviving workflow keeps its row and its checkpoints. The cutoff is
  not before the given one, and with a row threshold of \<open>k\<close> fewer than \<open>k\<close> workflows are newer than it.
\<close>

theorem garbage_collect_correct:
  assumes inv: "sysdb_inv db"
    and run: "garbage_collect cutoff rows batch db = (Inr (Some (c, ids)), db')"
  shows "(\<forall>wid. status_row db' wid = (case status_row db wid of
        None \<Rightarrow> None
      | Some r \<Rightarrow> if ws_created_at r < c \<and> \<not> workflow_is_active (ws_status r) then None else Some r))
    \<and> (\<forall>wid fid. operation_row db' wid fid
        = (if status_row db' wid = None then None else operation_row db wid fid))
    \<and> set ids = {wid. \<exists>r. status_row db wid = Some r \<and> ws_created_at r < c \<and> workflow_is_active (ws_status r)}
    \<and> (\<forall>x. cutoff = Some x \<longrightarrow> x \<le> c)
    \<and> (\<forall>k. rows = Some k \<and> int (length (workflow_status db)) \<ge> k \<longrightarrow>
         int (length (filter (\<lambda>r. ws_created_at r > c) (workflow_status db))) < k)"
proof -
  note cut = garbage_collect_Some(1) [OF run] and db' = garbage_collect_Some(2) [OF run]
    and ids = garbage_collect_Some(3) [OF run]
  have active: "gc_filter c r \<longleftrightarrow> ws_created_at r < c \<and> \<not> workflow_is_active (ws_status r)" for r
    by (auto simp: gc_filter_def workflow_is_active_def)
  have ok: "status_table_ok (workflow_status db)" using inv by (simp add: sysdb_inv_def)
  have row: "status_row db' wid = (case status_row db wid of
        None \<Rightarrow> None
      | Some r \<Rightarrow> if ws_created_at r < c \<and> \<not> workflow_is_active (ws_status r) then None else Some r)" for wid
    unfolding db' delete_status_row [OF inv] active ..
  have left: "set ids = {wid. \<exists>r. status_row db wid = Some r \<and> ws_created_at r < c \<and> workflow_is_active (ws_status r)}"
    unfolding ids db' by (auto simp: delete_workflow_status_def Let_def set_sql_delete active status_row_Some_iff [OF ok])
  have ops: "operation_row db' wid fid = (if status_row db' wid = None then None else operation_row db wid fid)" for wid fid
    unfolding db' by (rule delete_operation_row [OF inv])
  from gc_cutoff_later [OF cut] have "\<forall>x. cutoff = Some x \<longrightarrow> x \<le> c"
    "\<forall>k. rows = Some k \<and> int (length (workflow_status db)) \<ge> k \<longrightarrow>
         int (length (filter (\<lambda>r. ws_created_at r > c) (workflow_status db))) < k" by auto
  with row left ops show ?thesis by blast
qed

lemma garbage_collect_inv: "sysdb_inv db \<Longrightarrow> sysdb_inv (snd (garbage_collect cutoff rows batch db))"
  by (auto simp: garbage_collect_def Let_def gc_batches_eq delete_workflow_status_inv split: sum.splits option.splits)

theorem garbage_collect_correct_witness:
  "\<exists>ids db'. garbage_collect (Some 20) None (Some 1) (update_workflow_status (outcome_guard ''a'')
      (outcome_effect SUCCESS None None 15) (example_db [''a'', ''b''])) = (Inr (Some (20, ids)), db')
    \<and> status_row db' ''a'' = None \<and> status_row db' ''b'' \<noteq> None \<and> ''b'' \<in> set ids"
proof -
  let ?db = "update_workflow_status (outcome_guard ''a'') (outcome_effect SUCCESS None None 15) (example_db [''a'', ''b''])"
  have inv: "sysdb_inv ?db"
    by (rule outcome_upd.update_inv)
       (simp add: example_db_def example_status_def new_status_row_def sysdb_inv_def status_table_ok_def
         dedup_unique_def dedup_key_def children_ok_def child_ok_def catalog_ok_def workflow_ids_def empty_sysdb_def)
  obtain ids db' where run: "garbage_collect (Some 20) None (Some 1) ?db = (Inr (Some (20, ids)), db')"
    by (simp add: garbage_collect_def gc_cutoff_def Let_def)
  have "\<exists>r. status_row ?db ''a'' = Some r \<and> ws_created_at r = 10 \<and> ws_status r = SUCCESS"
    "\<exists>r. status_row ?db ''b'' = Some r \<and> ws_created_at r = 10 \<and> ws_status r = PENDING"
    by (simp_all add: status_row_def update_workflow_status_def sql_update_def example_db_def outcome_guard_def
        outcome_effect_def new_status_row_def example_status_def)
  with garbage_collect_correct [OF inv run] have "status_row db' ''a'' = None" "status_row db' ''b'' \<noteq> None"
    "''b'' \<in> set ids"
    by (auto simp: workflow_is_active_def)
  with run show ?thesis by blast
qed

end
