(* ===== verification/DBOS_Export.thy ===== *)
theory DBOS_Export
  imports DBOS_Streams DBOS_Bulk
begin

text \<open>
  Export and import of workflows (\<^verbatim>\<open>export_workflow\<close> and \<^verbatim>\<open>import_workflow\<close> of \<^verbatim>\<open>dbos/_sys_db.py\<close>).
  Shown: what was exported from one database and imported into another, exports there again to the
  same data, and nothing else in the target changes. Messages are not part of an export.

  The columns of a row are the entries of the exported dict, so a row stands for the dict;
  \<^verbatim>\<open>owner_xid\<close> is left out of it, and the payload is one of this version, which has every entry.
\<close>

section \<open>Export\<close>

record ExportedWorkflow =
  ex_workflow_status :: workflow_status_row
  ex_operation_outputs :: "operation_output_row list"
  ex_workflow_events :: "workflow_event_row list"
  ex_workflow_events_history :: "workflow_event_history_row list"
  ex_streams :: "stream_row list"

definition export_one :: "sysdb \<Rightarrow> string \<Rightarrow> ExportedWorkflow res" where
  "export_one db wf_id = (case status_row db wf_id of
     None \<Rightarrow> Inl (DBOSNonExistentWorkflowError ''export'' wf_id)
   | Some r \<Rightarrow> Inr \<lparr>
       ex_workflow_status = r\<lparr>ws_owner_xid := None\<rparr>,
       ex_operation_outputs = filter (\<lambda>r. oo_workflow_uuid r = wf_id) (operation_outputs db),
       ex_workflow_events = filter (\<lambda>r. we_workflow_uuid r = wf_id) (workflow_events db),
       ex_workflow_events_history = filter (\<lambda>r. weh_workflow_uuid r = wf_id) (workflow_events_history db),
       ex_streams = filter (\<lambda>r. st_workflow_uuid r = wf_id) (streams db)\<rparr>)"

text \<open>
  The children are found first, in transactions of their own (in \<open>db0\<close>); \<open>set_iter\<close> is the order in
  which Python iterates over the set of them.
\<close>

definition export_workflow ::
  "(string set \<Rightarrow> string list) \<Rightarrow> string \<Rightarrow> bool \<Rightarrow> sysdb \<Rightarrow> sysdb \<Rightarrow> ExportedWorkflow list res" where
  "export_workflow set_iter workflow_id export_children db0 db =
     res_map (export_one db)
       (workflow_id # (if export_children then set_iter (get_workflow_children workflow_id db0) else []))"

section \<open>Import\<close>

definition import_one :: "ExportedWorkflow \<Rightarrow> sysdb \<Rightarrow> sysdb res" where
  "import_one w db =
     res_bind (insert_status_row ((ex_workflow_status w)\<lparr>ws_owner_xid := None\<rparr>) db) (\<lambda>db1.
     res_bind (insert_all insert_operation_output (ex_operation_outputs w) db1) (\<lambda>db2.
     res_bind (insert_all insert_event (ex_workflow_events w) db2) (\<lambda>db3.
     res_bind (insert_all insert_event_history (ex_workflow_events_history w) db3) (\<lambda>db4.
       insert_all insert_stream (ex_streams w) db4))))"

definition import_workflow :: "ExportedWorkflow list \<Rightarrow> sysdb \<Rightarrow> unit res \<times> sysdb" where
  "import_workflow ws = engine_begin (\<lambda>db. lift_db (insert_all import_one ws db))"

section \<open>When inserts succeed\<close>

text \<open>
  A child table as its inserts see it: an insert succeeds when the key is new and the owner
  exists. So rows with distinct keys of a workflow that has no rows yet can all be inserted.
\<close>

locale child_insert = table_insert ins app
  for ins :: "'r \<Rightarrow> sysdb \<Rightarrow> sysdb res" and app :: "'r list \<Rightarrow> sysdb \<Rightarrow> sysdb" +
  fixes key :: "'r \<Rightarrow> 'k" and owner :: "'r \<Rightarrow> string" and tab :: "sysdb \<Rightarrow> 'r list"
  assumes ins_ok: "key r \<notin> key ` set (tab db) \<Longrightarrow> owner r \<in> set (workflow_ids db) \<Longrightarrow> ins r db = Inr (app [r] db)"
    and tab_app: "tab (app rs db) = tab db @ rs"
    and ids_app: "workflow_ids (app rs db) = workflow_ids db"
begin

lemma insert_all_ok:
  "distinct (map key (tab db @ rs)) \<Longrightarrow> owner ` set rs \<subseteq> set (workflow_ids db) \<Longrightarrow>
   insert_all ins rs db = Inr (app rs db)"
proof (induction rs arbitrary: db)
  case (Cons r rs)
  then have "ins r db = Inr (app [r] db)" by (intro ins_ok) auto
  moreover have "insert_all ins rs (app [r] db) = Inr (app rs (app [r] db))"
    using Cons.prems by (intro Cons.IH) (auto simp: tab_app ids_app)
  ultimately show ?case by (simp add: app_app)
qed (simp add: app_Nil)

end

interpretation output_child: child_insert insert_operation_output add_outputs oo_pk oo_workflow_uuid operation_outputs
  by unfold_locales (auto simp: insert_operation_output_def insert_child_def workflow_ids_def)

interpretation event_child: child_insert insert_event add_events we_pk we_workflow_uuid workflow_events
  by unfold_locales (auto simp: insert_event_def insert_child_def workflow_ids_def)

interpretation history_child: child_insert insert_event_history add_history weh_pk weh_workflow_uuid
  workflow_events_history
  by unfold_locales (auto simp: insert_event_history_def insert_child_def workflow_ids_def)

interpretation stream_child: child_insert insert_stream add_streams st_pk st_workflow_uuid streams
  by unfold_locales (auto simp: insert_stream_def insert_child_def workflow_ids_def)

text \<open>An exported workflow holds one workflow's rows, with distinct keys.\<close>

definition exported_ok :: "ExportedWorkflow \<Rightarrow> bool" where
  "exported_ok w \<longleftrightarrow> (let wid = ws_workflow_uuid (ex_workflow_status w) in
     child_ok {wid} oo_pk oo_workflow_uuid (ex_operation_outputs w)
   \<and> child_ok {wid} we_pk we_workflow_uuid (ex_workflow_events w)
   \<and> child_ok {wid} weh_pk weh_workflow_uuid (ex_workflow_events_history w)
   \<and> child_ok {wid} st_pk st_workflow_uuid (ex_streams w)
   \<and> ws_owner_xid (ex_workflow_status w) = None)"

definition import_app :: "ExportedWorkflow \<Rightarrow> sysdb \<Rightarrow> sysdb" where
  "import_app w db = add_streams (ex_streams w) (add_history (ex_workflow_events_history w)
     (add_events (ex_workflow_events w) (add_outputs (ex_operation_outputs w)
       (add_status [ex_workflow_status w] db))))"

lemma fresh_child_rows:
  assumes "child_ok ids key owner t" and "child_ok {wid} key owner rs" and "wid \<notin> ids"
    and "\<And>r s. key r = key s \<Longrightarrow> owner r = owner s"
  shows "distinct (map key (t @ rs))" and "owner ` set rs \<subseteq> {wid}"
proof -
  have "key r \<noteq> key s" if "r \<in> set t" "s \<in> set rs" for r s
  proof -
    from that assms(1,2) have "owner r \<in> ids" "owner s = wid" by (auto simp: child_ok_def)
    with assms(3,4) show ?thesis by metis
  qed
  then have "key ` set t \<inter> key ` set rs = {}" by blast
  with assms(1,2) show "distinct (map key (t @ rs))" by (simp add: child_ok_def)
  from assms(2) show "owner ` set rs \<subseteq> {wid}" by (simp add: child_ok_def)
qed

lemma import_one_ok:
  assumes inv: "sysdb_inv db" and ok: "exported_ok w"
    and new: "ws_workflow_uuid (ex_workflow_status w) \<notin> set (workflow_ids db)"
    and dedup: "dedup_key (ex_workflow_status w) = None
      \<or> dedup_key (ex_workflow_status w) \<notin> dedup_key ` set (workflow_status db)"
  shows "import_one w db = Inr (import_app w db)"
proof -
  let ?wid = "ws_workflow_uuid (ex_workflow_status w)"
  let ?db1 = "add_status [ex_workflow_status w] db"
  from ok have "(ex_workflow_status w)\<lparr>ws_owner_xid := None\<rparr> = ex_workflow_status w"
    by (simp add: exported_ok_def Let_def)
  moreover have "insert_status_row (ex_workflow_status w) db = Inr ?db1"
    unfolding insert_status_row_def using new dedup by metis
  ultimately have one: "insert_status_row ((ex_workflow_status w)\<lparr>ws_owner_xid := None\<rparr>) db = Inr ?db1" by simp
  from inv have ch: "child_ok (set (workflow_ids db)) oo_pk oo_workflow_uuid (operation_outputs db)"
    "child_ok (set (workflow_ids db)) we_pk we_workflow_uuid (workflow_events db)"
    "child_ok (set (workflow_ids db)) weh_pk weh_workflow_uuid (workflow_events_history db)"
    "child_ok (set (workflow_ids db)) st_pk st_workflow_uuid (streams db)"
    by (simp_all add: sysdb_inv_def children_ok_def)
  from ok have ex: "child_ok {?wid} oo_pk oo_workflow_uuid (ex_operation_outputs w)"
    "child_ok {?wid} we_pk we_workflow_uuid (ex_workflow_events w)"
    "child_ok {?wid} weh_pk weh_workflow_uuid (ex_workflow_events_history w)"
    "child_ok {?wid} st_pk st_workflow_uuid (ex_streams w)"
    by (simp_all add: exported_ok_def Let_def)
  note fresh = fresh_child_rows [OF ch(1) ex(1) new] fresh_child_rows [OF ch(2) ex(2) new]
    fresh_child_rows [OF ch(3) ex(3) new] fresh_child_rows [OF ch(4) ex(4) new]
  have outs: "insert_all insert_operation_output (ex_operation_outputs w) ?db1
      = Inr (add_outputs (ex_operation_outputs w) ?db1)"
    by (rule output_child.insert_all_ok) (use fresh(1,2) in \<open>auto simp: workflow_ids_def\<close>)
  let ?db2 = "add_outputs (ex_operation_outputs w) ?db1"
  have evs: "insert_all insert_event (ex_workflow_events w) ?db2 = Inr (add_events (ex_workflow_events w) ?db2)"
    by (rule event_child.insert_all_ok) (use fresh(3,4) in \<open>auto simp: workflow_ids_def\<close>)
  let ?db3 = "add_events (ex_workflow_events w) ?db2"
  have hist: "insert_all insert_event_history (ex_workflow_events_history w) ?db3
      = Inr (add_history (ex_workflow_events_history w) ?db3)"
    by (rule history_child.insert_all_ok) (use fresh(5,6) in \<open>auto simp: workflow_ids_def\<close>)
  let ?db4 = "add_history (ex_workflow_events_history w) ?db3"
  have strs: "insert_all insert_stream (ex_streams w) ?db4 = Inr (add_streams (ex_streams w) ?db4)"
    by (rule stream_child.insert_all_ok) (use fresh(7,8) in \<open>auto simp: workflow_ids_def\<close>)
  show ?thesis unfolding import_one_def one res_bind_simps outs evs hist strs import_app_def ..
qed

section \<open>The round trip\<close>

abbreviation ex_id :: "ExportedWorkflow \<Rightarrow> string" where
  "ex_id w \<equiv> ws_workflow_uuid (ex_workflow_status w)"

lemma export_one_ok:
  assumes inv: "sysdb_inv db" and ex: "export_one db wid = Inr w"
  shows "exported_ok w" and "ex_id w = wid"
    and "\<exists>r \<in> set (workflow_status db). ws_workflow_uuid r = wid \<and> dedup_key r = dedup_key (ex_workflow_status w)"
proof -
  from ex obtain r where r: "status_row db wid = Some r" and w: "w = \<lparr>
       ex_workflow_status = r\<lparr>ws_owner_xid := None\<rparr>,
       ex_operation_outputs = filter (\<lambda>r. oo_workflow_uuid r = wid) (operation_outputs db),
       ex_workflow_events = filter (\<lambda>r. we_workflow_uuid r = wid) (workflow_events db),
       ex_workflow_events_history = filter (\<lambda>r. weh_workflow_uuid r = wid) (workflow_events_history db),
       ex_streams = filter (\<lambda>r. st_workflow_uuid r = wid) (streams db)\<rparr>"
    by (simp add: export_one_def split: option.splits)
  from status_row_SomeD [OF r] show id: "ex_id w = wid"
    and "\<exists>r \<in> set (workflow_status db). ws_workflow_uuid r = wid \<and> dedup_key r = dedup_key (ex_workflow_status w)"
    by (auto simp: w dedup_key_def)
  have part: "child_ok {wid} key owner (filter (\<lambda>r. owner r = wid) t)" if "child_ok ids key owner t"
    for ids and key :: "'r \<Rightarrow> 'k" and owner and t
    using that by (auto simp: child_ok_def distinct_map_filter)
  from inv id show "exported_ok w"
    unfolding exported_ok_def Let_def id
    by (auto simp: w sysdb_inv_def children_ok_def intro!: part)
qed

lemma filter_owner_append:
  assumes "child_ok ids key owner t" "child_ok {wid} key owner rs" "wid \<notin> ids"
  shows "filter (\<lambda>r. owner r = w) (t @ rs) = (if w = wid then rs else filter (\<lambda>r. owner r = w) t)"
proof (cases "w = wid")
  case True
  have "filter (\<lambda>r. owner r = wid) t = []" using no_child_rows [OF assms(1,3), where Q = "\<lambda>_. True"] by simp
  moreover have "filter (\<lambda>r. owner r = wid) rs = rs" using assms(2) by (auto simp: child_ok_def filter_id_conv)
  ultimately show ?thesis using True by simp
next
  case False
  then have "filter (\<lambda>r. owner r = w) rs = []" using assms(2) by (auto simp: child_ok_def filter_empty_conv)
  with False show ?thesis by simp
qed

lemma export_one_import:
  assumes inv: "sysdb_inv db" and ok: "exported_ok w" and new: "ex_id w \<notin> set (workflow_ids db)"
  shows "export_one (import_app w db) wid = (if wid = ex_id w then Inr w else export_one db wid)"
    and "wid \<noteq> ex_id w \<Longrightarrow> status_row (import_app w db) wid = status_row db wid"
proof -
  from new have none: "status_row db (ex_id w) = None" by (simp add: status_row_None_iff)
  have "status_row (import_app w db) = status_row (add_status [ex_workflow_status w] db)"
    by (rule status_row_cong) (simp add: import_app_def)
  then have row: "status_row (import_app w db) wid = (if wid = ex_id w then Some (ex_workflow_status w) else status_row db wid)" for wid
    using none by (auto simp: status_row_append split: option.splits)
  then show "wid \<noteq> ex_id w \<Longrightarrow> status_row (import_app w db) wid = status_row db wid" by simp
  from inv have ch: "child_ok (set (workflow_ids db)) oo_pk oo_workflow_uuid (operation_outputs db)"
    "child_ok (set (workflow_ids db)) we_pk we_workflow_uuid (workflow_events db)"
    "child_ok (set (workflow_ids db)) weh_pk weh_workflow_uuid (workflow_events_history db)"
    "child_ok (set (workflow_ids db)) st_pk st_workflow_uuid (streams db)"
    by (simp_all add: sysdb_inv_def children_ok_def)
  from ok have ex: "child_ok {ex_id w} oo_pk oo_workflow_uuid (ex_operation_outputs w)"
    "child_ok {ex_id w} we_pk we_workflow_uuid (ex_workflow_events w)"
    "child_ok {ex_id w} weh_pk weh_workflow_uuid (ex_workflow_events_history w)"
    "child_ok {ex_id w} st_pk st_workflow_uuid (ex_streams w)" "ws_owner_xid (ex_workflow_status w) = None"
    by (simp_all add: exported_ok_def Let_def)
  note rows = filter_owner_append [OF ch(1) ex(1) new] filter_owner_append [OF ch(2) ex(2) new]
    filter_owner_append [OF ch(3) ex(3) new] filter_owner_append [OF ch(4) ex(4) new]
  have tabs: "operation_outputs (import_app w db) = operation_outputs db @ ex_operation_outputs w"
    "workflow_events (import_app w db) = workflow_events db @ ex_workflow_events w"
    "workflow_events_history (import_app w db) = workflow_events_history db @ ex_workflow_events_history w"
    "streams (import_app w db) = streams db @ ex_streams w"
    by (simp_all add: import_app_def)
  show "export_one (import_app w db) wid = (if wid = ex_id w then Inr w else export_one db wid)"
    using ex(5) by (auto simp only: export_one_def row tabs rows option.case if_True if_False split: if_splits) simp
qed

lemma import_one_inv: "import_one w db = Inr db' \<Longrightarrow> sysdb_inv db \<Longrightarrow> sysdb_inv db'"
  unfolding import_one_def
  by (auto simp: res_bind_Inr_iff dest!: insert_status_row_inv output_ins.all_inv event_ins.all_inv
      history_ins.all_inv stream_ins.all_inv)

lemma import_workflow_inv: "sysdb_inv db \<Longrightarrow> sysdb_inv (snd (import_workflow ws db))"
proof -
  have "insert_all import_one ws db = Inr db' \<Longrightarrow> sysdb_inv db \<Longrightarrow> sysdb_inv db'" for db'
    by (induction ws arbitrary: db) (auto simp: res_bind_Inr_iff intro: import_one_inv)
  then show "sysdb_inv db \<Longrightarrow> ?thesis"
    unfolding import_workflow_def
    by (intro engine_begin_inv) (auto simp: lift_db_def split: sum.splits)
qed

lemma dedup_uniqueD:
  "dedup_unique t \<Longrightarrow> r \<in> set t \<Longrightarrow> s \<in> set t \<Longrightarrow> dedup_key r \<noteq> None \<Longrightarrow> dedup_key r = dedup_key s \<Longrightarrow>
   ws_workflow_uuid r = ws_workflow_uuid s"
  unfolding dedup_unique_def by blast

lemma dedup_unique_appendI:
  assumes "dedup_unique t" "dedup_unique u"
    and "\<And>r s. r \<in> set t \<Longrightarrow> s \<in> set u \<Longrightarrow> dedup_key r \<noteq> None \<Longrightarrow> dedup_key r \<noteq> dedup_key s"
  shows "dedup_unique (t @ u)"
  unfolding dedup_unique_def
proof (intro ballI impI, elim conjE)
  fix r s assume rs: "r \<in> set (t @ u)" "s \<in> set (t @ u)" "dedup_key r \<noteq> None" "dedup_key r = dedup_key s"
  from rs(1,2) consider "r \<in> set t" "s \<in> set t" | "r \<in> set u" "s \<in> set u" | "r \<in> set t" "s \<in> set u"
    | "r \<in> set u" "s \<in> set t" by auto
  then show "ws_workflow_uuid r = ws_workflow_uuid s"
    by cases (use rs(3,4) assms dedup_uniqueD in metis)+
qed

lemma import_all_ok:
  assumes "sysdb_inv db" and "\<forall>w \<in> set ws. exported_ok w" and "distinct (map ex_id ws)"
    and "\<forall>w \<in> set ws. ex_id w \<notin> set (workflow_ids db)"
    and "dedup_unique (workflow_status db @ map ex_workflow_status ws)"
  shows "\<exists>db'. insert_all import_one ws db = Inr db'
    \<and> (\<forall>w \<in> set ws. export_one db' (ex_id w) = Inr w)
    \<and> (\<forall>wid. wid \<notin> ex_id ` set ws \<longrightarrow> export_one db' wid = export_one db wid \<and> status_row db' wid = status_row db wid)
    \<and> notifications db' = notifications db"
  using assms
proof (induction ws arbitrary: db)
  case (Cons w ws)
  let ?db1 = "import_app w db"
  have new: "ex_id w \<notin> set (workflow_ids db)" and ok: "exported_ok w" using Cons.prems by simp_all
  have dk: "dedup_key (ex_workflow_status w) \<noteq> dedup_key r"
    if "r \<in> set (workflow_status db)" "dedup_key (ex_workflow_status w) \<noteq> None" for r
  proof
    assume "dedup_key (ex_workflow_status w) = dedup_key r"
    with that have "ex_id w = ws_workflow_uuid r"
      by (intro dedup_uniqueD [OF Cons.prems(5)]) simp_all
    with that new show False by (auto simp: workflow_ids_def)
  qed
  have one: "import_one w db = Inr ?db1"
  proof (rule import_one_ok [OF Cons.prems(1) ok new])
    show "dedup_key (ex_workflow_status w) = None
      \<or> dedup_key (ex_workflow_status w) \<notin> dedup_key ` set (workflow_status db)"
      using dk by (metis imageE)
  qed
  have st: "workflow_status ?db1 = workflow_status db @ [ex_workflow_status w]" by (simp add: import_app_def)
  then have ids: "workflow_ids ?db1 = workflow_ids db @ [ex_id w]" by (simp add: workflow_ids_def)
  have "\<exists>db'. insert_all import_one ws ?db1 = Inr db'
    \<and> (\<forall>w \<in> set ws. export_one db' (ex_id w) = Inr w)
    \<and> (\<forall>wid. wid \<notin> ex_id ` set ws \<longrightarrow>
         export_one db' wid = export_one ?db1 wid \<and> status_row db' wid = status_row ?db1 wid)
    \<and> notifications db' = notifications ?db1"
  proof (rule Cons.IH)
    show "sysdb_inv ?db1" by (rule import_one_inv [OF one Cons.prems(1)])
    show "\<forall>w \<in> set ws. exported_ok w" "distinct (map ex_id ws)" using Cons.prems by simp_all
    show "\<forall>w \<in> set ws. ex_id w \<notin> set (workflow_ids ?db1)" using Cons.prems(3,4) by (fastforce simp: ids image_iff)
    show "dedup_unique (workflow_status ?db1 @ map ex_workflow_status ws)" using Cons.prems(5) by (simp add: st)
  qed
  then obtain db' where rest: "insert_all import_one ws ?db1 = Inr db'"
    "\<forall>w \<in> set ws. export_one db' (ex_id w) = Inr w"
    "\<And>wid. wid \<notin> ex_id ` set ws \<Longrightarrow> export_one db' wid = export_one ?db1 wid \<and> status_row db' wid = status_row ?db1 wid"
    "notifications db' = notifications ?db1" by blast
  note exp = export_one_import [OF Cons.prems(1) ok new]
  have "ex_id w \<notin> ex_id ` set ws" using Cons.prems(3) by simp
  then have "export_one db' (ex_id w) = Inr w" using rest(3) exp(1) by simp
  moreover have "notifications db' = notifications db" using rest(4) by (simp add: import_app_def)
  moreover have "export_one db' wid = export_one db wid \<and> status_row db' wid = status_row db wid"
    if "wid \<notin> ex_id ` set (w # ws)" for wid
    using that rest(3) [of wid] exp by simp
  ultimately show ?case using one rest(1,2) by (intro exI [of _ db']) auto
qed auto

lemma children_loop_ids:
  "D \<subseteq> set (workflow_ids db) \<Longrightarrow> children_loop db F D \<subseteq> set (workflow_ids db)"
proof (induction db F D rule: children_loop.induct)
  case (1 db F D)
  let ?F = "filter (\<lambda>c. c \<notin> D) (get_direct_children F db)"
  have "D \<union> set ?F \<subseteq> set (workflow_ids db)" using "1.prems" direct_children_ids by fastforce
  with 1 show ?case by (subst children_loop.simps) (auto simp: Let_def)
qed

lemma finite_children: "finite (get_workflow_children wid db)"
  unfolding get_workflow_children_def by (rule finite_subset [OF children_loop_ids]) simp_all

text \<open>
  C36: Export and import are a round trip: what was exported of a workflow (and its children) and
  imported into a database that has none of these workflows and no clash of deduplication IDs is
  imported completely, and exporting any of these workflows there gives what exporting it at the
  source gives. All other workflows of the target are unchanged. Messages are not carried over: the
  notifications of the target are unchanged.
\<close>

theorem export_import_roundtrip:
  assumes inv: "sysdb_inv src" "sysdb_inv tgt"
    and iter: "\<And>S. finite S \<Longrightarrow> set (set_iter S) = S \<and> distinct (set_iter S)"
    and exp: "export_workflow set_iter wid b src src = Inr ws"
    and root: "wid \<notin> get_workflow_children wid src"
    and ids: "ids = insert wid (if b then get_workflow_children wid src else {})"
    and new: "ids \<inter> set (workflow_ids tgt) = {}"
    and dedup: "\<forall>r \<in> set (workflow_status src). ws_workflow_uuid r \<in> ids \<longrightarrow>
      dedup_key r = None \<or> dedup_key r \<notin> dedup_key ` set (workflow_status tgt)"
  shows "\<exists>tgt'. import_workflow ws tgt = (Inr (), tgt')
    \<and> (\<forall>w \<in> ids. export_one tgt' w = export_one src w)
    \<and> (\<forall>w. w \<notin> ids \<longrightarrow> export_one tgt' w = export_one tgt w \<and> status_row tgt' w = status_row tgt w)
    \<and> notifications tgt' = notifications tgt"
proof -
  define l where "l = wid # (if b then set_iter (get_workflow_children wid src) else [])"
  have l: "set l = ids" "distinct l"
    using iter [OF finite_children, of wid src] root by (auto simp: l_def ids)
  from exp have len: "length ws = length l" and ex: "\<And>i. i < length l \<Longrightarrow> export_one src (l ! i) = Inr (ws ! i)"
    by (auto simp: export_workflow_def l_def [symmetric] res_map_Inr_iff)
  have idl: "map ex_id ws = l"
  proof (rule nth_equalityI)
    fix i assume "i < length (map ex_id ws)"
    then show "map ex_id ws ! i = l ! i" using len ex [of i] export_one_ok(2) [OF inv(1)] by simp
  qed (simp add: len)
  have each: "export_one src (ex_id w) = Inr w" if "w \<in> set ws" for w
    using that ex len idl by (metis in_set_conv_nth nth_map)
  then have "\<forall>w \<in> set ws. exported_ok w" using export_one_ok(1) [OF inv(1)] by blast
  moreover have "distinct (map ex_id ws)" using l idl by simp
  moreover have idset: "ex_id ` set ws = ids" using idl l by (metis set_map)
  moreover have "\<forall>w \<in> set ws. ex_id w \<notin> set (workflow_ids tgt)" using idset new by blast
  moreover have "dedup_unique (workflow_status tgt @ map ex_workflow_status ws)"
  proof -
    have src: "\<exists>r \<in> set (workflow_status src). ws_workflow_uuid r = ex_id w
        \<and> dedup_key r = dedup_key (ex_workflow_status w)" if "w \<in> set ws" for w
      using export_one_ok(3) [OF inv(1) each [OF that]] .
    have uniq: "dedup_unique (workflow_status src)" "dedup_unique (workflow_status tgt)"
      using inv by (simp_all add: sysdb_inv_def status_table_ok_def)
    show ?thesis
    proof (rule dedup_unique_appendI [OF uniq(2)])
      show "dedup_key r \<noteq> dedup_key s"
        if rs: "r \<in> set (workflow_status tgt)" "s \<in> set (map ex_workflow_status ws)" "dedup_key r \<noteq> None" for r s
      proof -
        from rs(2) obtain w where w: "w \<in> set ws" "s = ex_workflow_status w" by auto
        with src obtain r0 where r0: "r0 \<in> set (workflow_status src)" "ws_workflow_uuid r0 = ex_id w"
          "dedup_key r0 = dedup_key s" by metis
        from w(1) idset have "ex_id w \<in> ids" by blast
        with r0 dedup have "dedup_key s = None \<or> dedup_key s \<notin> dedup_key ` set (workflow_status tgt)" by metis
        with rs show ?thesis by (metis image_eqI)
      qed
      show "dedup_unique (map ex_workflow_status ws)"
        unfolding dedup_unique_def
      proof (intro ballI impI, elim conjE)
        fix r s assume rs: "r \<in> set (map ex_workflow_status ws)" "s \<in> set (map ex_workflow_status ws)"
          "dedup_key r \<noteq> None" "dedup_key r = dedup_key s"
        have "\<exists>r0 \<in> set (workflow_status src). ws_workflow_uuid r0 = ws_workflow_uuid x \<and> dedup_key r0 = dedup_key x"
          if "x \<in> set (map ex_workflow_status ws)" for x using that src by auto
        with rs obtain r0 s0 where "r0 \<in> set (workflow_status src)" "ws_workflow_uuid r0 = ws_workflow_uuid r"
          "dedup_key r0 = dedup_key r" "s0 \<in> set (workflow_status src)" "ws_workflow_uuid s0 = ws_workflow_uuid s"
          "dedup_key s0 = dedup_key s" by metis
        with rs(3,4) dedup_uniqueD [OF uniq(1), of r0 s0] show "ws_workflow_uuid r = ws_workflow_uuid s" by simp
      qed
    qed
  qed
  ultimately obtain tgt' where "insert_all import_one ws tgt = Inr tgt'"
    "\<forall>w \<in> set ws. export_one tgt' (ex_id w) = Inr w"
    "\<forall>w. w \<notin> ids \<longrightarrow> export_one tgt' w = export_one tgt w \<and> status_row tgt' w = status_row tgt w"
    "notifications tgt' = notifications tgt"
    using import_all_ok [OF inv(2), of ws] by metis
  moreover have "\<forall>w \<in> ids. export_one tgt' w = export_one src w"
    using calculation(2) each idset by force
  ultimately show ?thesis by (intro exI [of _ tgt']) (simp add: import_workflow_def engine_begin_def lift_db_def)
qed

definition example_family :: sysdb where
  "example_family = (example_db [''w'', ''c''])\<lparr>workflow_status :=
     [new_status_row (example_status ''w'') (Some ''x0'') 10,
      (new_status_row (example_status ''c'') (Some ''x1'') 11)\<lparr>ws_parent_workflow_id := Some ''w''\<rparr>],
     operation_outputs := [\<lparr>oo_workflow_uuid = ''c'', oo_function_id = 1, oo_function_name = ''s1'', oo_output = Some ''o1'',
       oo_error = None, oo_child_workflow_id = None, oo_started_at_epoch_ms = Some 1,
       oo_completed_at_epoch_ms = Some 2, oo_serialization = None\<rparr>]\<rparr>"

lemmas example_family_simps = example_family_def example_db_def example_status_def new_status_row_def empty_sysdb_def

lemma example_family_children: "get_workflow_children ''w'' example_family = {''c''}"
  by (simp add: get_workflow_children_def children_loop.simps get_direct_children_def sql_in_def
      example_family_simps Let_def)

theorem export_import_roundtrip_witness:
  "\<exists>ws tgt'. export_workflow sorted_list_of_set ''w'' True example_family example_family = Inr ws
    \<and> import_workflow ws (example_db [''t'']) = (Inr (), tgt')
    \<and> export_one tgt' ''c'' = export_one example_family ''c'' \<and> export_one tgt' ''t'' = export_one (example_db [''t'']) ''t''"
proof -
  have inv: "sysdb_inv example_family" "sysdb_inv (example_db [''t''])"
    by (simp_all add: example_family_simps sysdb_inv_def status_table_ok_def dedup_unique_def dedup_key_def
        children_ok_def child_ok_def catalog_ok_def workflow_ids_def)
  have "\<exists>r. status_row example_family ''w'' = Some r" "\<exists>r. status_row example_family ''c'' = Some r"
    by (simp_all add: status_row_def example_family_simps)
  then obtain ws where exp: "export_workflow sorted_list_of_set ''w'' True example_family example_family = Inr ws"
    by (auto simp: export_workflow_def example_family_children export_one_def)
  have "\<exists>tgt'. import_workflow ws (example_db [''t'']) = (Inr (), tgt')
    \<and> (\<forall>w \<in> {''w'', ''c''}. export_one tgt' w = export_one example_family w)
    \<and> (\<forall>w. w \<notin> {''w'', ''c''} \<longrightarrow> export_one tgt' w = export_one (example_db [''t'']) w
        \<and> status_row tgt' w = status_row (example_db [''t'']) w)
    \<and> notifications tgt' = notifications (example_db [''t''])"
    by (rule export_import_roundtrip [OF inv _ exp])
       (auto simp: example_family_children, auto simp: example_family_simps workflow_ids_def dedup_key_def)
  then obtain tgt' where imp: "import_workflow ws (example_db [''t'']) = (Inr (), tgt')"
    and same: "\<forall>w \<in> {''w'', ''c''}. export_one tgt' w = export_one example_family w"
    and other: "\<forall>w. w \<notin> {''w'', ''c''} \<longrightarrow> export_one tgt' w = export_one (example_db [''t'']) w
        \<and> status_row tgt' w = status_row (example_db [''t'']) w" by blast
  from same have "export_one tgt' ''c'' = export_one example_family ''c''" by simp
  moreover from other [rule_format, of "''t''"] have "export_one tgt' ''t'' = export_one (example_db [''t'']) ''t''" by simp
  ultimately show ?thesis using exp imp by blast
qed

end
