(* ===== verification/DBOS_Schedules.thy ===== *)
theory DBOS_Schedules
  imports DBOS_Queues
begin

text \<open>
  Schedules and application versions: the tables' operations (\<^verbatim>\<open>dbos/_sys_db.py\<close>), and the enqueueing
  of scheduled workflows, backfilling, triggering and the polling of the schedule threads
  (\<^verbatim>\<open>dbos/_scheduler.py\<close>). The cron iterator, the time zones and the ISO texts of times are parameters;
  a time is an instant as an integer.

  Shown: a backfill ends, enqueues every due execution exactly once and repeats without effect; a
  poll leaves one thread per active schedule, with its current definition.
\<close>

section \<open>Schedule table\<close>

definition insert_schedule :: "workflow_schedule_row \<Rightarrow> sysdb \<Rightarrow> sysdb res" where
  "insert_schedule s db =
     (if sc_schedule_id s \<in> sc_schedule_id ` set (workflow_schedules db)
         \<or> sc_schedule_name s \<in> sc_schedule_name ` set (workflow_schedules db)
      then Inl UniqueViolation
      else Inr (db\<lparr>workflow_schedules := workflow_schedules db @ [s]\<rparr>))"

definition create_schedule :: "workflow_schedule_row \<Rightarrow> sysdb \<Rightarrow> unit res \<times> sysdb" where
  "create_schedule s = engine_begin (\<lambda>db. case insert_schedule s db of
     Inl e \<Rightarrow> Raise (if e = UniqueViolation
       then DBOSException (''Schedule '' @ [CHR 0x27] @ sc_schedule_name s @ [CHR 0x27] @ '' already exists'') else e)
   | Inr db' \<Rightarrow> Done () db')"

definition schedule_update :: "workflow_schedule_row \<Rightarrow> workflow_schedule_row \<Rightarrow> workflow_schedule_row" where
  "schedule_update s r = r\<lparr>sc_workflow_name := sc_workflow_name s, sc_workflow_class_name := sc_workflow_class_name s,
     sc_schedule := sc_schedule s, sc_context := sc_context s, sc_automatic_backfill := sc_automatic_backfill s,
     sc_cron_timezone := sc_cron_timezone s, sc_queue_name := sc_queue_name s\<rparr>"

definition update_schedules ::
  "string \<Rightarrow> (workflow_schedule_row \<Rightarrow> workflow_schedule_row) \<Rightarrow> sysdb \<Rightarrow> sysdb" where
  "update_schedules name f db = db\<lparr>workflow_schedules :=
     sql_update (\<lambda>r. sc_schedule_name r = name) f (workflow_schedules db)\<rparr>"

definition upsert_schedule_txn :: "workflow_schedule_row \<Rightarrow> sysdb \<Rightarrow> unit txn_result" where
  "upsert_schedule_txn s db =
     (if sc_schedule_name s \<in> sc_schedule_name ` set (workflow_schedules db)
      then Done () (update_schedules (sc_schedule_name s) (schedule_update s) db)
      else lift_db (insert_schedule s db))"

definition upsert_schedule :: "workflow_schedule_row \<Rightarrow> sysdb \<Rightarrow> unit res \<times> sysdb" where
  "upsert_schedule s = engine_begin (upsert_schedule_txn s)"

text \<open>
  \<^verbatim>\<open>LIKE\<close>: a percent sign stands for any text, an underscore for one character, a backslash takes the
  next character literally. The prefixes of \<^verbatim>\<open>list_schedules\<close> are not escaped.
\<close>

fun sql_like :: "string \<Rightarrow> string \<Rightarrow> bool" where
  "sql_like [] s = (s = [])"
| "sql_like (c # p) s =
     (if c = CHR 0x25 then sql_like p s \<or> (case s of [] \<Rightarrow> False | _ # s' \<Rightarrow> sql_like (c # p) s')
      else if c = CHR 0x5F then (case s of [] \<Rightarrow> False | _ # s' \<Rightarrow> sql_like p s')
      else if c = CHR 0x5C
      then (case p of [] \<Rightarrow> False | e # p' \<Rightarrow> (case s of [] \<Rightarrow> False | x # s' \<Rightarrow> x = e \<and> sql_like p' s'))
      else (case s of [] \<Rightarrow> False | x # s' \<Rightarrow> x = c \<and> sql_like p s'))"

definition list_schedules ::
  "string list option \<Rightarrow> string list option \<Rightarrow> string list option \<Rightarrow> sysdb \<Rightarrow> workflow_schedule_row list" where
  "list_schedules status workflow_name schedule_name_prefix db = filter (\<lambda>r.
     (case status of None \<Rightarrow> True | Some vs \<Rightarrow> sc_status r \<in> set vs)
   \<and> (case workflow_name of None \<Rightarrow> True | Some vs \<Rightarrow> sc_workflow_name r \<in> set vs)
   \<and> (case schedule_name_prefix of None \<Rightarrow> True
      | Some ps \<Rightarrow> \<exists>p \<in> set ps. sql_like (p @ [CHR 0x25]) (sc_schedule_name r))) (workflow_schedules db)"

definition get_schedule :: "string \<Rightarrow> sysdb \<Rightarrow> workflow_schedule_row option" where
  "get_schedule name db = fetchone (filter (\<lambda>r. sc_schedule_name r = name) (workflow_schedules db))"

definition set_schedule_status :: "string \<Rightarrow> string \<Rightarrow> sysdb \<Rightarrow> sysdb" where
  "set_schedule_status name status = update_schedules name (\<lambda>r. r\<lparr>sc_status := status\<rparr>)"

definition pause_schedule :: "string \<Rightarrow> sysdb \<Rightarrow> sysdb" where
  "pause_schedule name = set_schedule_status name ''PAUSED''"

definition resume_schedule :: "string \<Rightarrow> sysdb \<Rightarrow> sysdb" where
  "resume_schedule name = set_schedule_status name ''ACTIVE''"

definition update_last_fired_at :: "string \<Rightarrow> string \<Rightarrow> sysdb \<Rightarrow> sysdb" where
  "update_last_fired_at name last_fired_at = update_schedules name (\<lambda>r. r\<lparr>sc_last_fired_at := Some last_fired_at\<rparr>)"

definition delete_schedule :: "string \<Rightarrow> sysdb \<Rightarrow> sysdb" where
  "delete_schedule name db = db\<lparr>workflow_schedules :=
     sql_delete (\<lambda>r. sc_schedule_name r = name) (workflow_schedules db)\<rparr>"

section \<open>Application versions\<close>

definition create_application_version :: "string \<Rightarrow> string \<Rightarrow> int \<Rightarrow> sysdb \<Rightarrow> sysdb" where
  "create_application_version uuid version_name now db =
     (if version_name \<in> av_version_name ` set (application_versions db) then db
      else db\<lparr>application_versions := application_versions db @ [\<lparr>av_version_id = uuid, av_version_name = version_name,
             av_version_timestamp = now, av_created_at = now\<rparr>]\<rparr>)"

definition update_application_version_timestamp :: "string \<Rightarrow> int \<Rightarrow> sysdb \<Rightarrow> sysdb" where
  "update_application_version_timestamp version_name ts db = db\<lparr>application_versions :=
     sql_update (\<lambda>r. av_version_name r = version_name) (\<lambda>r. r\<lparr>av_version_timestamp := ts\<rparr>) (application_versions db)\<rparr>"

definition list_application_versions :: "sysdb \<Rightarrow> application_version_row list" where
  "list_application_versions db = sort_key (\<lambda>r. - av_version_timestamp r) (application_versions db)"

definition get_latest_application_version :: "sysdb \<Rightarrow> application_version_row res" where
  "get_latest_application_version db = (case fetchone (list_application_versions db) of
     None \<Rightarrow> Inl (DBOSException ''No application versions found'') | Some r \<Rightarrow> Inr r)"

section \<open>Enqueueing scheduled workflows\<close>

definition scheduled_status ::
  "string \<Rightarrow> string \<Rightarrow> string \<Rightarrow> string option \<Rightarrow> string option \<Rightarrow> string \<Rightarrow> string \<Rightarrow> WorkflowStatusInternal" where
  "scheduled_status workflow_name workflow_id schedule_name class_name queue_name version inputs = \<lparr>
     wi_workflow_uuid = workflow_id, wi_status = ENQUEUED, wi_name = workflow_name, wi_class_name = class_name,
     wi_config_name = None, wi_authenticated_user = None, wi_assumed_role = None,
     wi_authenticated_roles = None, wi_output = None, wi_error = None, wi_created_at = None,
     wi_updated_at = None,
     wi_queue_name = Some (case queue_name of Some q \<Rightarrow> if q = [] then INTERNAL_QUEUE_NAME else q
       | None \<Rightarrow> INTERNAL_QUEUE_NAME),
     wi_executor_id = None, wi_app_version = Some version, wi_app_id = None, wi_recovery_attempts = None,
     wi_workflow_timeout_ms = None, wi_workflow_deadline_epoch_ms = None,
     wi_deduplication_id = None, wi_priority = 0, wi_inputs = Some inputs,
     wi_queue_partition_key = None, wi_forked_from = None, wi_parent_workflow_id = None,
     wi_started_at_epoch_ms = None, wi_serialization = None, wi_owner_xid = None,
     wi_delay_until_epoch_ms = None, wi_attributes = None, wi_schedule_name = Some schedule_name,
     wi_debounce_deadline_epoch_ms = None, wi_is_debounced = False\<rparr>"

text \<open>
  Occurrences are in seconds, the datetime that the workflow gets in microseconds with the time zone of the schedule,
  UTC where it names none.
\<close>

abbreviation usecs :: "int \<Rightarrow> int" where
  "usecs t \<equiv> 1000000 * t"

definition enqueue_scheduled_workflow ::
  "Serializer \<Rightarrow> string option \<Rightarrow> string \<Rightarrow> int \<Rightarrow> string \<Rightarrow> string \<Rightarrow> pyval \<Rightarrow> string option
   \<Rightarrow> string option \<Rightarrow> int \<Rightarrow> sysdb \<Rightarrow> unit res \<times> sysdb" where
  "enqueue_scheduled_workflow sz tz workflow_name scheduled_at workflow_id schedule_name ctx class_name queue_name now db =
     (case get_latest_application_version db of
        Inl e \<Rightarrow> (Inl e, db)
      | Inr v \<Rightarrow> (case ser_serialize sz (PDict [(PStr ''args'', PTuple [PDatetime scheduled_at (Some (case tz of Some z \<Rightarrow> z | None \<Rightarrow> ''UTC'')), ctx]),
            (PStr ''kwargs'', PDict [])]) of
          Inl e \<Rightarrow> (Inl e, db)
        | Inr inputs \<Rightarrow> (case init_workflow (scheduled_status workflow_name workflow_id schedule_name class_name queue_name
              (av_version_name v) inputs) None None False False now db of
            (Inl e, db') \<Rightarrow> (Inl e, db')
          | (Inr _, db') \<Rightarrow> (Inr (), db'))))"

section \<open>Backfill and trigger\<close>

text \<open>
  \<open>isofmt tz t\<close> is \<^verbatim>\<open>isoformat()\<close> of the instant \<open>t\<close>, in microseconds, in a time zone, in UTC for \<open>None\<close>.
  \<open>next\<close> is \<^verbatim>\<open>it.get_next(datetime)\<close> from a position; \<open>clock\<close> gives the time of each insert.
\<close>

definition occurrence_id :: "(string option \<Rightarrow> int \<Rightarrow> string) \<Rightarrow> string option \<Rightarrow> string \<Rightarrow> int \<Rightarrow> string" where
  "occurrence_id isofmt tz name t = ''sched-'' @ name @ ''-'' @ isofmt tz (usecs t)"

definition schedule_tz :: "workflow_schedule_row \<Rightarrow> string option" where
  "schedule_tz s = (case sc_cron_timezone s of Some z \<Rightarrow> if z = [] then None else Some z | None \<Rightarrow> None)"

definition backfill_one ::
  "Serializer \<Rightarrow> (string option \<Rightarrow> int \<Rightarrow> string) \<Rightarrow> workflow_schedule_row \<Rightarrow> pyval \<Rightarrow> int \<Rightarrow> int \<Rightarrow> sysdb
   \<Rightarrow> unit res \<times> sysdb" where
  "backfill_one sz isofmt s ctx t now db =
     (if get_workflow_status (occurrence_id isofmt (schedule_tz s) (sc_schedule_name s) t) db = None
      then enqueue_scheduled_workflow sz (schedule_tz s) (sc_workflow_name s) (usecs t)
        (occurrence_id isofmt (schedule_tz s) (sc_schedule_name s) t) (sc_schedule_name s) ctx (sc_workflow_class_name s)
        (sc_queue_name s) now db
      else (Inr (), db))"

partial_function (option) backfill_loop ::
  "(int \<Rightarrow> int res) \<Rightarrow> (int \<Rightarrow> string) \<Rightarrow> (int \<Rightarrow> int \<Rightarrow> sysdb \<Rightarrow> unit res \<times> sysdb) \<Rightarrow> (nat \<Rightarrow> int) \<Rightarrow> int \<Rightarrow> int \<Rightarrow> string list
   \<Rightarrow> sysdb \<Rightarrow> (string list res \<times> sysdb) option" where
  "backfill_loop nxt id_of one clock end_time t ids db = (case nxt t of
     Inl e \<Rightarrow> Some (Inl e, db)
   | Inr next_time \<Rightarrow>
       if next_time \<ge> end_time then Some (Inr ids, db)
       else (case one next_time (clock (length ids)) db of
           (Inl e, db') \<Rightarrow> Some (Inl e, db')
         | (Inr _, db') \<Rightarrow>
             backfill_loop nxt id_of one clock end_time next_time (ids @ [id_of next_time]) db'))"

definition no_schedule :: "string \<Rightarrow> dbos_error" where
  "no_schedule name = DBOSException (''Schedule '' @ [CHR 0x27] @ name @ [CHR 0x27] @ '' does not exist'')"

text \<open>
  \<open>croniter cron tz\<close> is the iterator of an expression in a time zone, or the error of an invalid
  expression or zone. The schedule is read first (\<open>s\<close>), in a transaction of its own.
\<close>

definition backfill_schedule ::
  "(string \<Rightarrow> string option \<Rightarrow> (int \<Rightarrow> int res) res) \<Rightarrow> Serializer \<Rightarrow> (string option \<Rightarrow> int \<Rightarrow> string) \<Rightarrow> (nat \<Rightarrow> int)
   \<Rightarrow> string \<Rightarrow> int \<Rightarrow> int \<Rightarrow> sysdb \<Rightarrow> (string list res \<times> sysdb) option" where
  "backfill_schedule croniter sz isofmt clock schedule_name start end_time db = (case get_schedule schedule_name db of
     None \<Rightarrow> Some (Inl (no_schedule schedule_name), db)
   | Some s \<Rightarrow> (case ser_deserialize sz (sc_context s) of
       Inl e \<Rightarrow> Some (Inl e, db)
     | Inr ctx \<Rightarrow> (case croniter (sc_schedule s) (schedule_tz s) of
         Inl e \<Rightarrow> Some (Inl e, db)
       | Inr nxt \<Rightarrow> backfill_loop nxt (occurrence_id isofmt (schedule_tz s) (sc_schedule_name s))
           (backfill_one sz isofmt s ctx) clock end_time start [] db)))"

definition trigger_schedule ::
  "Serializer \<Rightarrow> (string option \<Rightarrow> int \<Rightarrow> string) \<Rightarrow> string \<Rightarrow> int \<Rightarrow> int \<Rightarrow> sysdb \<Rightarrow> string res \<times> sysdb" where
  "trigger_schedule sz isofmt schedule_name tnow now db = (case get_schedule schedule_name db of
     None \<Rightarrow> (Inl (no_schedule schedule_name), db)
   | Some s \<Rightarrow> (case ser_deserialize sz (sc_context s) of
       Inl e \<Rightarrow> (Inl e, db)
     | Inr ctx \<Rightarrow>
         (let wid = ''sched-'' @ schedule_name @ ''-trigger-'' @ isofmt None tnow in
          case enqueue_scheduled_workflow sz None (sc_workflow_name s) tnow wid schedule_name ctx
              (sc_workflow_class_name s) (sc_queue_name s) now db of
            (Inl e, db') \<Rightarrow> (Inl e, db')
          | (Inr _, db') \<Rightarrow> (Inr wid, db'))))"

section \<open>What the table operations keep\<close>

lemma sysdb_inv_schedules:
  "sysdb_inv db \<Longrightarrow> distinct (map sc_schedule_id t) \<Longrightarrow> distinct (map sc_schedule_name t) \<Longrightarrow>
   sysdb_inv (db\<lparr>workflow_schedules := t\<rparr>)"
  by (simp add: sysdb_inv_def children_ok_def catalog_ok_def workflow_ids_def)

lemma sysdb_inv_versions:
  "sysdb_inv db \<Longrightarrow> distinct (map av_version_name t) \<Longrightarrow> sysdb_inv (db\<lparr>application_versions := t\<rparr>)"
  by (simp add: sysdb_inv_def children_ok_def catalog_ok_def workflow_ids_def)

lemma schedules_distinct:
  assumes "sysdb_inv db"
  shows "distinct (map sc_schedule_id (workflow_schedules db))" "distinct (map sc_schedule_name (workflow_schedules db))"
    "distinct (map av_version_name (application_versions db))"
  using assms by (simp_all add: sysdb_inv_def catalog_ok_def)

lemma insert_schedule_inv: "insert_schedule s db = Inr db' \<Longrightarrow> sysdb_inv db \<Longrightarrow> sysdb_inv db'"
  by (auto simp: insert_schedule_def schedules_distinct split: if_splits intro!: sysdb_inv_schedules)

lemma update_schedules_inv:
  assumes "sysdb_inv db" "\<And>r. sc_schedule_id (f r) = sc_schedule_id r" "\<And>r. sc_schedule_name (f r) = sc_schedule_name r"
  shows "sysdb_inv (update_schedules name f db)"
  unfolding update_schedules_def
  by (rule sysdb_inv_schedules) (simp_all add: assms map_key_sql_update schedules_distinct)

lemma schedule_ops_inv:
  assumes "sysdb_inv db"
  shows "sysdb_inv (snd (create_schedule s db))" "sysdb_inv (snd (upsert_schedule s db))"
    "sysdb_inv (pause_schedule name db)" "sysdb_inv (resume_schedule name db)"
    "sysdb_inv (update_last_fired_at name at_text db)" "sysdb_inv (delete_schedule name db)"
    "sysdb_inv (create_application_version u v now db)" "sysdb_inv (update_application_version_timestamp v ts db)"
proof -
  show "sysdb_inv (snd (create_schedule s db))" unfolding create_schedule_def
    by (rule engine_begin_inv) (auto simp: assms insert_schedule_inv split: sum.splits)
  show "sysdb_inv (snd (upsert_schedule s db))" unfolding upsert_schedule_def
    by (rule engine_begin_inv)
       (auto simp: assms upsert_schedule_txn_def lift_db_def insert_schedule_inv schedule_update_def intro: update_schedules_inv split: sum.splits)
  show "sysdb_inv (pause_schedule name db)" "sysdb_inv (resume_schedule name db)"
    "sysdb_inv (update_last_fired_at name at_text db)"
    unfolding pause_schedule_def resume_schedule_def set_schedule_status_def update_last_fired_at_def
    by (rule update_schedules_inv; simp add: assms)+
  show "sysdb_inv (delete_schedule name db)" unfolding delete_schedule_def
    by (intro sysdb_inv_schedules map_key_sql_delete_distinct) (simp_all add: assms schedules_distinct)
  show "sysdb_inv (create_application_version u v now db)"
    unfolding create_application_version_def
    using assms schedules_distinct(3) [OF assms] by (auto intro!: sysdb_inv_versions)
  show "sysdb_inv (update_application_version_timestamp v ts db)"
    unfolding update_application_version_timestamp_def
    by (rule sysdb_inv_versions) (simp_all add: assms map_key_sql_update schedules_distinct)
qed

text \<open>
  An upsert keeps the identity, the state and the last firing of an existing schedule; the
  prefix search is exact on prefixes without wildcards, and is not on others.
\<close>

lemma get_schedule_SomeD: "get_schedule name db = Some r \<Longrightarrow> r \<in> set (workflow_schedules db) \<and> sc_schedule_name r = name"
  by (auto simp: get_schedule_def dest!: nth_row_SomeD)

lemma upsert_schedule_keeps:
  assumes "get_schedule (sc_schedule_name s) db = Some r"
  shows "fst (upsert_schedule s db) = Inr ()"
    and "get_schedule (sc_schedule_name s) (snd (upsert_schedule s db)) = Some (schedule_update s r)"
proof -
  from assms have mem: "sc_schedule_name s \<in> sc_schedule_name ` set (workflow_schedules db)"
    by (metis get_schedule_SomeD imageI)
  then show "fst (upsert_schedule s db) = Inr ()" by (simp add: upsert_schedule_def upsert_schedule_txn_def)
  have "filter (\<lambda>r. sc_schedule_name r = n) (sql_update (\<lambda>r. sc_schedule_name r = n) (schedule_update s) t)
      = map (schedule_update s) (filter (\<lambda>r. sc_schedule_name r = n) t)" for n t
    by (induction t) (auto simp: sql_update_def schedule_update_def)
  with assms mem show "get_schedule (sc_schedule_name s) (snd (upsert_schedule s db)) = Some (schedule_update s r)"
    by (simp add: upsert_schedule_def upsert_schedule_txn_def get_schedule_def update_schedules_def fetchone_map)
qed

lemma sql_like_prefix:
  assumes "set p \<inter> {CHR 0x25, CHR 0x5F, CHR 0x5C} = {}"
  shows "sql_like (p @ [CHR 0x25]) s \<longleftrightarrow> starts_with p s"
  using assms
proof (induction p arbitrary: s)
  case Nil
  have "sql_like [CHR 0x25] s" for s by (induction s) auto
  then show ?case by (simp add: starts_with_def)
next
  case (Cons c p)
  then show ?case by (cases s) (auto simp: starts_with_def)
qed

lemma list_schedules_underscore: "sql_like (''a_b'' @ [CHR 0x25]) ''axb-job'' \<and> \<not> starts_with ''a_b'' ''axb-job''"
  by (simp add: starts_with_def)

lemma latest_version_greatest:
  assumes "get_latest_application_version db = Inr v"
  shows "v \<in> set (application_versions db)"
    and "r \<in> set (application_versions db) \<Longrightarrow> av_version_timestamp r \<le> av_version_timestamp v"
proof -
  let ?s = "sort_key (\<lambda>r. - av_version_timestamp r) (application_versions db)"
  from assms obtain rest where s: "?s = v # rest"
    by (auto simp: get_latest_application_version_def list_application_versions_def nth_row_def
        split: option.splits list.splits)
  have "v \<in> set ?s" unfolding s by simp
  then show "v \<in> set (application_versions db)" by simp
  have "sorted (map (\<lambda>r. - av_version_timestamp r) (v # rest))"
    using sorted_sort_key [of "\<lambda>r. - av_version_timestamp r" "application_versions db"] by (simp only: s)
  moreover assume "r \<in> set (application_versions db)"
  then have "r \<in> set ?s" by simp
  then have "r \<in> set (v # rest)" by (simp only: s)
  ultimately show "av_version_timestamp r \<le> av_version_timestamp v" by auto
qed

section \<open>Backfilling\<close>

text \<open>The times the iterator gives, one after the other, from a start.\<close>

inductive cron_tick :: "(int \<Rightarrow> int res) \<Rightarrow> int \<Rightarrow> int \<Rightarrow> bool" for nxt start where
  first: "nxt start = Inr u \<Longrightarrow> cron_tick nxt start u"
| later: "cron_tick nxt start u \<Longrightarrow> nxt u = Inr v \<Longrightarrow> cron_tick nxt start v"

lemma cron_tick_shift:
  assumes "nxt t = Inr t'"
  shows "cron_tick nxt t u \<longleftrightarrow> u = t' \<or> cron_tick nxt t' u"
proof
  assume "cron_tick nxt t u"
  then show "u = t' \<or> cron_tick nxt t' u"
    by induction (use assms in \<open>auto intro: cron_tick.intros\<close>)
next
  assume "u = t' \<or> cron_tick nxt t' u"
  then show "cron_tick nxt t u"
  proof
    assume "cron_tick nxt t' u"
    then show ?thesis by induction (use assms in \<open>auto intro: cron_tick.intros\<close>)
  qed (use assms in \<open>auto intro: cron_tick.intros\<close>)
qed

lemma cron_tick_increases:
  assumes "\<And>x y. nxt x = Inr y \<Longrightarrow> x < y" and "cron_tick nxt t u"
  shows "t < u"
  using assms(2) by induction (use assms(1) in force)+

text \<open>
  The contract of the loop's body: it leaves a row under the occurrence's ID, it changes no other
  row and no existing one, and it does nothing when the row is there.
\<close>

locale occurrence_enqueue =
  fixes id_of :: "int \<Rightarrow> string" and one :: "int \<Rightarrow> int \<Rightarrow> sysdb \<Rightarrow> unit res \<times> sysdb"
  assumes one_row: "one t now db = (Inr u, db') \<Longrightarrow> status_row db' (id_of t) \<noteq> None"
    and one_keeps: "one t now db = (Inr u, db') \<Longrightarrow> status_row db wid = Some r \<Longrightarrow> status_row db' wid = Some r"
    and one_only: "one t now db = (Inr u, db') \<Longrightarrow> wid \<noteq> id_of t \<Longrightarrow> status_row db' wid = status_row db wid"
    and one_schedules: "one t now db = (Inr u, db') \<Longrightarrow> workflow_schedules db' = workflow_schedules db"
    and one_skips: "status_row db (id_of t) \<noteq> None \<Longrightarrow> one t now db = (Inr (), db)"
begin

lemma loop_returns:
  assumes "\<And>x y. nxt x = Inr y \<Longrightarrow> x < y"
  shows "\<exists>r. backfill_loop nxt id_of one clock end_time t ids db = Some r"
proof (induction "nat (end_time - t)" arbitrary: t ids db rule: less_induct)
  case less
  show ?case
  proof (cases "nxt t")
    case (Inr t')
    show ?thesis
    proof (cases "t' \<ge> end_time")
      case False
      from assms [OF Inr] False have "nat (end_time - t') < nat (end_time - t)" by simp
      from less [OF this] Inr False show ?thesis
        by (subst backfill_loop.simps) (simp split: prod.splits sum.splits)
    qed (simp add: backfill_loop.simps Inr)
  qed (simp add: backfill_loop.simps)
qed

lemma loop_correct:
  assumes inc: "\<And>x y. nxt x = Inr y \<Longrightarrow> x < y"
    and run: "backfill_loop nxt id_of one clock end_time t ids db = Some (Inr ids', db')"
  shows "\<exists>ts. ids' = ids @ map id_of ts \<and> distinct ts \<and> (\<forall>u. u \<in> set ts \<longleftrightarrow> cron_tick nxt t u \<and> u < end_time)
    \<and> (\<forall>u \<in> set ts. status_row db' (id_of u) \<noteq> None)
    \<and> (\<forall>wid r. status_row db wid = Some r \<longrightarrow> status_row db' wid = Some r)
    \<and> (\<forall>wid. wid \<notin> id_of ` set ts \<longrightarrow> status_row db' wid = status_row db wid)
    \<and> workflow_schedules db' = workflow_schedules db
    \<and> (\<forall>clock' db''. (\<forall>u \<in> set ts. status_row db'' (id_of u) \<noteq> None) \<longrightarrow>
         backfill_loop nxt id_of one clock' end_time t ids db'' = Some (Inr ids', db''))"
  using run
proof (induction "nat (end_time - t)" arbitrary: t ids db rule: less_induct)
  case less
  from less.prems obtain t' where nxt: "nxt t = Inr t'"
    by (cases "nxt t") (simp_all add: backfill_loop.simps)
  show ?case
  proof (cases "t' \<ge> end_time")
    case True
    have "\<not> (cron_tick nxt t u \<and> u < end_time)" for u
      using cron_tick_shift [of nxt, OF nxt] cron_tick_increases [of nxt, OF inc] True by force
    with less.prems nxt True show ?thesis
      by (intro exI [of _ "[]"]) (auto simp: backfill_loop.simps)
  next
    case False
    from less.prems nxt False obtain db1 where one: "one t' (clock (length ids)) db = (Inr (), db1)"
      and rest: "backfill_loop nxt id_of one clock end_time t' (ids @ [id_of t']) db1 = Some (Inr ids', db')"
      by (subst (asm) backfill_loop.simps) (auto split: prod.splits sum.splits)
    from inc [OF nxt] False have "nat (end_time - t') < nat (end_time - t)" by simp
    from less.hyps [OF this rest] obtain ts where ts: "ids' = (ids @ [id_of t']) @ map id_of ts" "distinct ts"
      "\<forall>u. u \<in> set ts \<longleftrightarrow> cron_tick nxt t' u \<and> u < end_time"
      "\<forall>u \<in> set ts. status_row db' (id_of u) \<noteq> None"
      "\<And>wid r. status_row db1 wid = Some r \<Longrightarrow> status_row db' wid = Some r"
      "\<And>wid. wid \<notin> id_of ` set ts \<Longrightarrow> status_row db' wid = status_row db1 wid"
      "\<And>clock' db''. \<forall>u \<in> set ts. status_row db'' (id_of u) \<noteq> None \<Longrightarrow>
         backfill_loop nxt id_of one clock' end_time t' (ids @ [id_of t']) db'' = Some (Inr ids', db'')"
      "workflow_schedules db' = workflow_schedules db1" by blast
    have new: "t' \<notin> set ts" using ts(3) cron_tick_increases [of nxt, OF inc] by blast
    have row: "status_row db' (id_of t') \<noteq> None" using one_row [OF one] ts(5) by (metis not_None_eq)
    have again: "backfill_loop nxt id_of one clock' end_time t ids db'' = Some (Inr ids', db'')"
      if "\<forall>u \<in> set (t' # ts). status_row db'' (id_of u) \<noteq> None" for clock' db''
      using that one_skips [of db'' t'] ts(7) [of db'' clock'] nxt False
      by (subst backfill_loop.simps) simp
    show ?thesis
    proof (intro exI [of _ "t' # ts"] conjI)
      show "ids' = ids @ map id_of (t' # ts)" "distinct (t' # ts)" using ts(1,2) new by simp_all
      show "\<forall>u. u \<in> set (t' # ts) \<longleftrightarrow> cron_tick nxt t u \<and> u < end_time"
        using ts(3) False cron_tick_shift [of nxt, OF nxt] by auto
      show "\<forall>u \<in> set (t' # ts). status_row db' (id_of u) \<noteq> None" using row ts(4) by simp
      show "\<forall>wid r. status_row db wid = Some r \<longrightarrow> status_row db' wid = Some r"
        using one_keeps [OF one] ts(5) by blast
      show "\<forall>wid. wid \<notin> id_of ` set (t' # ts) \<longrightarrow> status_row db' wid = status_row db wid"
        using one_only [OF one] ts(6) by simp
      show "workflow_schedules db' = workflow_schedules db" using one_schedules [OF one] ts(8) by simp
      show "\<forall>clock' db''. (\<forall>u \<in> set (t' # ts). status_row db'' (id_of u) \<noteq> None) \<longrightarrow>
         backfill_loop nxt id_of one clock' end_time t ids db'' = Some (Inr ids', db'')" using again by blast
    qed
  qed
qed

end

text \<open>Starting a workflow that is not recorded and has no deduplication ID inserts its row.\<close>

lemma init_workflow_new:
  assumes "status_row db (wi_workflow_uuid w) = None" and "wi_deduplication_id w = None"
  shows "\<exists>x. init_workflow w None None False False now db
    = (Inr x, db\<lparr>workflow_status := workflow_status db @ [new_status_row w None now]\<rparr>)"
proof -
  let ?db1 = "db\<lparr>workflow_status := workflow_status db @ [new_status_row w None now]\<rparr>"
  have uuid: "ws_workflow_uuid (new_status_row w None now) = wi_workflow_uuid w" by (simp add: new_status_row_def)
  have new: "wi_workflow_uuid w \<notin> set (workflow_ids db)" using assms(1) by (simp add: status_row_None_iff)
  have "dedup_key (new_status_row w None now) = None"
    using assms(2) by (simp add: new_status_row_def dedup_key_None)
  with new have up: "upsert_status_row w None False now db = Inr ?db1"
    by (simp add: upsert_status_row_def insert_status_row_def uuid)
  have row: "status_row ?db1 (wi_workflow_uuid w) = Some (new_status_row w None now)"
    using assms(1) by (simp add: status_row_append uuid)
  have "name_conflict w (new_status_row w None now) = None"
    by (simp add: name_conflict_def new_status_row_def)
  with up row show ?thesis by (simp add: init_workflow_def insert_workflow_status_def)
qed

lemma get_workflow_status_None_iff: "get_workflow_status wid db = None \<longleftrightarrow> status_row db wid = None"
  by (simp add: get_workflow_status_def split: option.splits)

lemma scheduled_row_uuid: "ws_workflow_uuid (new_status_row (scheduled_status wn wid sn cn qn v inputs) x now) = wid"
  by (simp add: new_status_row_def scheduled_status_def)

lemma enqueue_scheduled_effect:
  assumes "enqueue_scheduled_workflow sz tz wn t wid sn ctx cn qn now db = (Inr u, db')" and "status_row db wid = None"
  obtains v inputs where "get_latest_application_version db = Inr v"
    "db' = db\<lparr>workflow_status := workflow_status db
       @ [new_status_row (scheduled_status wn wid sn cn qn (av_version_name v) inputs) None now]\<rparr>"
proof -
  from assms(1) obtain v inputs where v: "get_latest_application_version db = Inr v"
    and init: "(case init_workflow (scheduled_status wn wid sn cn qn (av_version_name v) inputs) None None False False now db of
        (Inl e, db') \<Rightarrow> (Inl e, db') | (Inr _, db') \<Rightarrow> (Inr (), db')) = (Inr u, db')"
    by (auto simp: enqueue_scheduled_workflow_def split: sum.splits)
  let ?w = "scheduled_status wn wid sn cn qn (av_version_name v) inputs"
  have "\<exists>x. init_workflow ?w None None False False now db
    = (Inr x, db\<lparr>workflow_status := workflow_status db @ [new_status_row ?w None now]\<rparr>)"
    by (rule init_workflow_new) (simp_all add: assms(2) scheduled_status_def)
  with init have "db' = db\<lparr>workflow_status := workflow_status db @ [new_status_row ?w None now]\<rparr>" by auto
  with v that show thesis by blast
qed

interpretation backfilling: occurrence_enqueue "occurrence_id isofmt (schedule_tz s) (sc_schedule_name s)"
  "backfill_one sz isofmt s ctx" for isofmt s sz ctx
proof
  fix t now db u db'
  let ?id = "occurrence_id isofmt (schedule_tz s) (sc_schedule_name s) t"
  assume run: "backfill_one sz isofmt s ctx t now db = (Inr u, db')"
  have cases: "status_row db ?id \<noteq> None \<and> db' = db \<or> (\<exists>r. status_row db ?id = None \<and> ws_workflow_uuid r = ?id
      \<and> db' = db\<lparr>workflow_status := workflow_status db @ [r]\<rparr>)"
  proof (cases "status_row db ?id = None")
    case True
    with run have enq: "enqueue_scheduled_workflow sz (schedule_tz s) (sc_workflow_name s) (usecs t) ?id (sc_schedule_name s) ctx
        (sc_workflow_class_name s) (sc_queue_name s) now db = (Inr u, db')"
      by (simp add: backfill_one_def get_workflow_status_None_iff)
    show ?thesis
      by (rule enqueue_scheduled_effect [OF enq True]) (use True scheduled_row_uuid in blast)
  qed (use run in \<open>auto simp: backfill_one_def get_workflow_status_None_iff\<close>)
  then show "status_row db' ?id \<noteq> None" by (auto simp: status_row_append)
  from cases show "workflow_schedules db' = workflow_schedules db" by auto
  from cases show "status_row db' wid = Some r" if "status_row db wid = Some r" for wid r
    using that by (auto simp: status_row_append)
  from cases show "status_row db' wid = status_row db wid" if "wid \<noteq> ?id" for wid
    using that by (auto simp: status_row_append split: option.splits)
qed (auto simp: backfill_one_def get_workflow_status_None_iff)

text \<open>
  A backfill always returns when the cron iterator advances. When it succeeds it returns the
  IDs of exactly the occurrences the iterator gives between start and end; each of them then has
  exactly the row it had before or a new one, no other workflow changes, and repeating the backfill
  at any later time returns the same IDs and changes nothing.
\<close>

lemma backfill_schedule_exactly_once:
  assumes s: "get_schedule name db = Some s"
    and cron: "croniter (sc_schedule s) (schedule_tz s) = Inr nxt" "\<And>x y. nxt x = Inr y \<Longrightarrow> x < y"
  shows "\<exists>r db'. backfill_schedule croniter sz isofmt clock name start end_time db = Some (r, db')
    \<and> (\<forall>ids. r = Inr ids \<longrightarrow>
        (\<exists>ts. ids = map (occurrence_id isofmt (schedule_tz s) name) ts \<and> distinct ts
          \<and> (\<forall>u. u \<in> set ts \<longleftrightarrow> cron_tick nxt start u \<and> u < end_time))
      \<and> (\<forall>wid \<in> set ids. status_row db' wid \<noteq> None)
      \<and> (\<forall>wid r. status_row db wid = Some r \<longrightarrow> status_row db' wid = Some r)
      \<and> (\<forall>wid. wid \<notin> set ids \<longrightarrow> status_row db' wid = status_row db wid)
      \<and> (\<forall>clock'. backfill_schedule croniter sz isofmt clock' name start end_time db' = Some (Inr ids, db')))"
proof (cases "ser_deserialize sz (sc_context s)")
  case (Inl e)
  then show ?thesis by (simp add: backfill_schedule_def s)
next
  case (Inr ctx)
  have name: "sc_schedule_name s = name" using get_schedule_SomeD [OF s] by simp
  let ?loop = "\<lambda>clock. backfill_loop nxt (occurrence_id isofmt (schedule_tz s) name) (backfill_one sz isofmt s ctx) clock
      end_time start []"
  have run: "backfill_schedule croniter sz isofmt clock' name start end_time db' = ?loop clock' db'"
    if "workflow_schedules db' = workflow_schedules db" for clock' db'
  proof -
    from that s have "get_schedule name db' = Some s" by (simp add: get_schedule_def)
    then show ?thesis by (simp add: backfill_schedule_def Inr cron(1) name)
  qed
  from backfilling.loop_returns [where nxt = nxt and isofmt = isofmt and s = s and sz = sz and ctx = ctx and clock = clock
      and end_time = end_time and t = start and ids = "[]" and db = db, OF cron(2)]
  obtain r db' where r: "?loop clock db = Some (r, db')" unfolding name by force
  show ?thesis
  proof (intro exI [of _ r] exI [of _ db'] conjI allI impI)
    show "backfill_schedule croniter sz isofmt clock name start end_time db = Some (r, db')" using run [of db] r by simp
  next
    fix ids assume "r = Inr ids"
    with r have "backfill_loop nxt (occurrence_id isofmt (schedule_tz s) (sc_schedule_name s))
        (backfill_one sz isofmt s ctx) clock end_time start [] db = Some (Inr ids, db')" by (simp add: name)
    from backfilling.loop_correct [OF cron(2) this, unfolded name] obtain ts where
      ts: "ids = map (occurrence_id isofmt (schedule_tz s) name) ts" "distinct ts"
      "\<forall>u. u \<in> set ts \<longleftrightarrow> cron_tick nxt start u \<and> u < end_time"
      "\<forall>u \<in> set ts. status_row db' (occurrence_id isofmt (schedule_tz s) name u) \<noteq> None"
      "\<forall>wid r. status_row db wid = Some r \<longrightarrow> status_row db' wid = Some r"
      "\<forall>wid. wid \<notin> occurrence_id isofmt (schedule_tz s) name ` set ts \<longrightarrow> status_row db' wid = status_row db wid"
      "workflow_schedules db' = workflow_schedules db"
      "\<forall>clock' db''. (\<forall>u \<in> set ts. status_row db'' (occurrence_id isofmt (schedule_tz s) name u) \<noteq> None) \<longrightarrow>
         ?loop clock' db'' = Some (Inr ids, db'')" unfolding append_Nil by blast
    show "\<exists>ts. ids = map (occurrence_id isofmt (schedule_tz s) name) ts \<and> distinct ts
          \<and> (\<forall>u. u \<in> set ts \<longleftrightarrow> cron_tick nxt start u \<and> u < end_time)" using ts(1-3) by blast
    show "\<forall>wid \<in> set ids. status_row db' wid \<noteq> None" using ts(1,4) by auto
    show "\<And>wid r. status_row db wid = Some r \<Longrightarrow> status_row db' wid = Some r" using ts(5) by blast
    show "\<And>wid. wid \<notin> set ids \<Longrightarrow> status_row db' wid = status_row db wid" using ts(1,6) by simp
    show "\<And>clock'. backfill_schedule croniter sz isofmt clock' name start end_time db' = Some (Inr ids, db')"
      using run [OF ts(7)] ts(4,8) by simp
  qed
qed

definition example_schedule :: workflow_schedule_row where
  "example_schedule = \<lparr>sc_schedule_id = ''i1'', sc_schedule_name = ''job'', sc_workflow_name = ''wf'',
     sc_workflow_class_name = None, sc_schedule = ''* * * * *'', sc_status = ''ACTIVE'', sc_context = ''ctx'',
     sc_last_fired_at = None, sc_automatic_backfill = False, sc_cron_timezone = None, sc_queue_name = None\<rparr>"

definition example_schedule_db :: sysdb where
  "example_schedule_db = empty_sysdb\<lparr>workflow_schedules := [example_schedule],
     application_versions := [\<lparr>av_version_id = ''u'', av_version_name = ''v1'', av_version_timestamp = 1, av_created_at = 1\<rparr>]\<rparr>"

section \<open>Polling\<close>

type_synonym signature = "string \<times> string option \<times> string \<times> string \<times> string option \<times> string option"

record ScheduleThread =
  th_schedule_name :: string
  th_signature :: signature

definition compute_signature :: "workflow_schedule_row \<Rightarrow> signature" where
  "compute_signature s = (sc_workflow_name s, sc_workflow_class_name s, sc_schedule s, sc_context s,
     sc_cron_timezone s, sc_queue_name s)"

definition is_active :: "workflow_schedule_row \<Rightarrow> bool" where
  "is_active s \<longleftrightarrow> sc_status s = ''ACTIVE''"

text \<open>The constructor reads the context and looks up the time zone before it starts the thread.\<close>

definition new_thread :: "Serializer \<Rightarrow> (string \<Rightarrow> unit res) \<Rightarrow> workflow_schedule_row \<Rightarrow> ScheduleThread res" where
  "new_thread sz zone s = res_bind (ser_deserialize sz (sc_context s)) (\<lambda>_.
     res_bind (case schedule_tz s of None \<Rightarrow> Inr () | Some z \<Rightarrow> zone z) (\<lambda>_.
       Inr \<lparr>th_schedule_name = sc_schedule_name s, th_signature = compute_signature s\<rparr>))"

text \<open>The parameters of the scheduler's environment; an error of a backfill is only logged.\<close>

record scheduler_env =
  se_serializer :: Serializer
  se_zone :: "string \<Rightarrow> unit res"
  se_croniter :: "string \<Rightarrow> string option \<Rightarrow> (int \<Rightarrow> int res) res"
  se_isofmt :: "string option \<Rightarrow> int \<Rightarrow> string"
  se_fromiso :: "string \<Rightarrow> int res"
  se_now :: int
  se_clock :: "nat \<Rightarrow> int"

definition automatic_backfill :: "scheduler_env \<Rightarrow> workflow_schedule_row \<Rightarrow> sysdb \<Rightarrow> sysdb option" where
  "automatic_backfill env s db = (case sc_last_fired_at s of
     None \<Rightarrow> Some db
   | Some lf \<Rightarrow>
       if \<not> sc_automatic_backfill s \<or> lf = [] then Some db
       else (case se_fromiso env lf of
           Inl e \<Rightarrow> Some db
         | Inr last_fired \<Rightarrow>
             if last_fired < se_now env
             then map_option snd (backfill_schedule (se_croniter env) (se_serializer env) (se_isofmt env) (se_clock env)
                    (sc_schedule_name s) last_fired (se_now env) db)
             else Some db))"

type_synonym threads = "string \<rightharpoonup> ScheduleThread"

definition poll_schedule ::
  "scheduler_env \<Rightarrow> workflow_schedule_row \<Rightarrow> threads \<Rightarrow> sysdb \<Rightarrow> (threads res \<times> sysdb) option" where
  "poll_schedule env s threads db =
     (let start = (\<lambda>db. case new_thread (se_serializer env) (se_zone env) s of
            Inl e \<Rightarrow> (Inl e, db) | Inr th \<Rightarrow> (Inr (threads(sc_schedule_id s \<mapsto> th)), db))
      in if \<not> is_active s then Some (Inr (threads(sc_schedule_id s := None)), db)
      else case threads (sc_schedule_id s) of
        Some th \<Rightarrow> if th_signature th \<noteq> compute_signature s then Some (start db) else Some (Inr threads, db)
      | None \<Rightarrow> map_option start (automatic_backfill env s db))"

fun poll_each ::
  "scheduler_env \<Rightarrow> workflow_schedule_row list \<Rightarrow> threads \<Rightarrow> sysdb \<Rightarrow> (threads res \<times> sysdb) option" where
  "poll_each env [] threads db = Some (Inr threads, db)"
| "poll_each env (s # ss) threads db = (case poll_schedule env s threads db of
     None \<Rightarrow> None
   | Some (Inl e, db') \<Rightarrow> Some (Inl e, db')
   | Some (Inr threads', db') \<Rightarrow> poll_each env ss threads' db')"

text \<open>
  One round of \<^verbatim>\<open>dynamic_scheduler_loop\<close>. An error of a thread's constructor is not caught: it ends
  the loop, for all schedules.
\<close>

definition poll_schedules :: "scheduler_env \<Rightarrow> threads \<Rightarrow> sysdb \<Rightarrow> (threads res \<times> sysdb) option" where
  "poll_schedules env threads db =
     (let schedules = list_schedules None None None db
      in poll_each env schedules (threads |` set (map sc_schedule_id schedules)) db)"

lemma new_thread_signature: "new_thread sz zone s = Inr th \<Longrightarrow> th_signature th = compute_signature s"
  by (auto simp: new_thread_def res_bind_Inr_iff)

lemma poll_schedule_correct:
  assumes "poll_schedule env s threads db = Some (Inr threads', db')"
  shows "(if is_active s then \<exists>th. threads' (sc_schedule_id s) = Some th \<and> th_signature th = compute_signature s
      else threads' (sc_schedule_id s) = None)
    \<and> (\<forall>i. i \<noteq> sc_schedule_id s \<longrightarrow> threads' i = threads i)"
proof (cases "is_active s \<and> (\<forall>th. threads (sc_schedule_id s) = Some th \<longrightarrow> th_signature th \<noteq> compute_signature s)")
  case True
  with assms obtain th where th: "new_thread (se_serializer env) (se_zone env) s = Inr th"
    and "threads' = threads(sc_schedule_id s \<mapsto> th)"
    by (cases "new_thread (se_serializer env) (se_zone env) s")
       (auto simp: poll_schedule_def Let_def split: option.splits if_splits)
  with True new_thread_signature [OF th] show ?thesis by simp
next
  case False
  with assms show ?thesis by (auto simp: poll_schedule_def Let_def split: option.splits if_splits)
qed

lemma poll_each_correct:
  assumes "poll_each env ss threads db = Some (Inr threads', db')" and "distinct (map sc_schedule_id ss)"
  shows "(\<forall>s \<in> set ss. if is_active s
        then \<exists>th. threads' (sc_schedule_id s) = Some th \<and> th_signature th = compute_signature s
        else threads' (sc_schedule_id s) = None)
    \<and> (\<forall>i. i \<notin> sc_schedule_id ` set ss \<longrightarrow> threads' i = threads i)"
  using assms
proof (induction ss arbitrary: threads db)
  case (Cons s ss)
  from Cons.prems(1) obtain threads1 db1 where one: "poll_schedule env s threads db = Some (Inr threads1, db1)"
    and rest: "poll_each env ss threads1 db1 = Some (Inr threads', db')"
    by (auto split: option.splits sum.splits)
  from Cons.IH [OF rest] Cons.prems(2) have ih: "\<forall>s \<in> set ss. if is_active s
        then \<exists>th. threads' (sc_schedule_id s) = Some th \<and> th_signature th = compute_signature s
        else threads' (sc_schedule_id s) = None"
    and frame: "\<forall>i. i \<notin> sc_schedule_id ` set ss \<longrightarrow> threads' i = threads1 i" by simp_all
  from Cons.prems(2) frame have same: "threads' (sc_schedule_id s) = threads1 (sc_schedule_id s)" by simp
  from poll_schedule_correct [OF one] ih frame same show ?case by simp
qed simp

text \<open>
  After a poll of the schedules that succeeds there is one thread for every active schedule,
  running its current definition, and no thread for a paused or deleted one; whatever the threads
  were before.
\<close>

theorem poll_schedules_correct:
  assumes inv: "sysdb_inv db" and run: "poll_schedules env threads db = Some (Inr threads', db')"
  shows "(\<forall>s \<in> set (workflow_schedules db). if is_active s
        then \<exists>th. threads' (sc_schedule_id s) = Some th \<and> th_signature th = compute_signature s
        else threads' (sc_schedule_id s) = None)
    \<and> (\<forall>i. i \<notin> sc_schedule_id ` set (workflow_schedules db) \<longrightarrow> threads' i = None)"
proof -
  have all: "list_schedules None None None db = workflow_schedules db" by (simp add: list_schedules_def)
  from run have each: "poll_each env (workflow_schedules db)
      (threads |` set (map sc_schedule_id (workflow_schedules db))) db = Some (Inr threads', db')"
    by (simp add: poll_schedules_def all Let_def)
  from poll_each_correct [OF each schedules_distinct(1) [OF inv]] show ?thesis by simp
qed

definition example_env :: scheduler_env where
  "example_env = \<lparr>se_serializer = \<lparr>ser_name = ''c'', ser_serialize = (\<lambda>_. Inr ''in''), ser_deserialize = (\<lambda>_. Inr PNone)\<rparr>,
     se_zone = (\<lambda>_. Inr ()), se_croniter = (\<lambda>_ _. Inr (\<lambda>t. Inr (t + 60))), se_isofmt = (\<lambda>_ _. ''60''),
     se_fromiso = (\<lambda>_. Inr 0), se_now = 100, se_clock = (\<lambda>_. 5)\<rparr>"

theorem poll_schedules_correct_witness:
  "\<exists>threads' db'. poll_schedules example_env [''old'' \<mapsto> \<lparr>th_schedule_name = ''x'', th_signature = compute_signature example_schedule\<rparr>]
      example_schedule_db = Some (Inr threads', db') \<and> threads' ''old'' = None \<and> threads' ''i1'' \<noteq> None"
proof -
  let ?old = "[''old'' \<mapsto> \<lparr>th_schedule_name = ''x'', th_signature = compute_signature example_schedule\<rparr>]"
  have inv: "sysdb_inv example_schedule_db"
    by (simp add: example_schedule_db_def empty_sysdb_def sysdb_inv_def status_table_ok_def dedup_unique_def
        children_ok_def child_ok_def catalog_ok_def)
  obtain threads' db' where run: "poll_schedules example_env ?old example_schedule_db = Some (Inr threads', db')"
    by (simp add: poll_schedules_def list_schedules_def example_schedule_db_def poll_schedule_def is_active_def
        example_schedule_def automatic_backfill_def new_thread_def example_env_def schedule_tz_def)
  from poll_schedules_correct [OF inv run] have "threads' ''old'' = None \<and> threads' ''i1'' \<noteq> None"
    by (simp add: example_schedule_db_def example_schedule_def is_active_def) blast
  with run show ?thesis by blast
qed

text \<open>A schedule whose context cannot be read, or whose zone is unknown, ends the loop.\<close>

lemma poll_schedules_dies:
  assumes "workflow_schedules db = ss @ s # ss'" and "is_active s" and "sc_schedule_id s \<notin> sc_schedule_id ` set ss"
    and "new_thread (se_serializer env) (se_zone env) s = Inl e" and "threads (sc_schedule_id s) = None"
    and "poll_schedules env threads db = Some (r, db')"
  shows "\<exists>e. r = Inl e"
proof -
  have bad: "poll_schedule env s th db1 = Some (Inr x, y) \<Longrightarrow> th (sc_schedule_id s) \<noteq> None" for th db1 x y
    using assms(2,4) by (auto simp: poll_schedule_def Let_def split: option.splits if_splits)
  have "th (sc_schedule_id s) = None \<Longrightarrow> sc_schedule_id s \<notin> sc_schedule_id ` set ss \<Longrightarrow>
      poll_each env (ss @ s # ss') th db1 = Some (Inr x, y) \<Longrightarrow> False" for th db1 x y
  proof (induction ss arbitrary: th db1)
    case Nil
    then obtain th1 db2 where "poll_schedule env s th db1 = Some (Inr th1, db2)"
      by (auto split: option.splits sum.splits)
    from bad [OF this] Nil show ?case by simp
  next
    case (Cons a ss)
    then obtain th1 db2 where one: "poll_schedule env a th db1 = Some (Inr th1, db2)"
      and rest: "poll_each env (ss @ s # ss') th1 db2 = Some (Inr x, y)"
      by (auto split: option.splits sum.splits)
    from poll_schedule_correct [OF one] Cons.prems have "th1 (sc_schedule_id s) = None" by auto
    with Cons.IH [OF _ _ rest] Cons.prems(2) show ?case by simp
  qed
  note never = this
  let ?th = "threads |` set (map sc_schedule_id (workflow_schedules db))"
  have each: "poll_each env (ss @ s # ss') ?th db = Some (r, db')"
    using assms(1,6) by (simp add: poll_schedules_def list_schedules_def Let_def image_Un)
  have none: "?th (sc_schedule_id s) = None" using assms(5) by (simp add: restrict_map_def)
  show ?thesis
  proof (cases r)
    case (Inr x)
    from never [OF none assms(3) each [unfolded Inr]] show ?thesis ..
  qed simp
qed

end
