(* ===== verification/DBOS_Payloads.thy ===== *)
theory DBOS_Payloads
  imports DBOS_Serialization
begin

text \<open>
  Workflow arguments and exceptions as recorded payloads (\<^verbatim>\<open>dbos/_serialization.py\<close>): a call's
  arguments in the native and in the portable layout, the conversion of hinted arguments back from
  portable text, and the rendering of an exception as portable error data. What Python's reflection
  says of an exception object (its class name, text and attributes), the date parser of
  \<^verbatim>\<open>dateutil\<close> and the signature of the called function are parameters.
\<close>

section \<open>Arguments\<close>

text \<open>\<^verbatim>\<open>tuple(v)\<close>: the elements that iterating a value yields.\<close>

definition py_tuple :: "pyval \<Rightarrow> pyval list res" where
  "py_tuple v = (case v of
     PList vs \<Rightarrow> Inr vs | PTuple vs \<Rightarrow> Inr vs | PSet vs \<Rightarrow> Inr vs
   | PStr s \<Rightarrow> Inr (map (\<lambda>c. PStr [c]) s) | PDict kvs \<Rightarrow> Inr (map fst kvs)
   | _ \<Rightarrow> Inl TypeError)"

definition WorkflowInputs :: "pyval list \<Rightarrow> pyval \<Rightarrow> pyval" where
  "WorkflowInputs args kwargs = PDict [(PStr ''args'', PTuple args), (PStr ''kwargs'', kwargs)]"

definition JsonWorkflowArgs :: "pyval list \<Rightarrow> pyval \<Rightarrow> pyval" where
  "JsonWorkflowArgs args kwargs = PDict [(PStr ''namedArgs'', kwargs), (PStr ''positionalArgs'', PList args)]"

definition serialize_args ::
  "codecs \<Rightarrow> pyval list \<Rightarrow> pyval \<Rightarrow> WorkflowSerializationFormat option \<Rightarrow> Serializer \<Rightarrow> (string \<times> string) res" where
  "serialize_args cs args kwargs t sz =
     (let ser = serialization_for_type cs t sz in
      if ser = ser_name (DBOSPortableJSON cs)
      then res_bind (ser_serialize (DBOSPortableJSON cs) (JsonWorkflowArgs args kwargs))
             (\<lambda>s. Inr (s, ser_name (DBOSPortableJSON cs)))
      else let i = WorkflowInputs args kwargs in
      if ser = ser_name (DBOSDefaultSerializer cs)
      then res_bind (ser_serialize (DBOSDefaultSerializer cs) i)
             (\<lambda>s. Inr (s, ser_name (DBOSDefaultSerializer cs)))
      else if ser \<noteq> ser_name sz then Inl TypeError
      else res_bind (ser_serialize sz i) (\<lambda>s. Inr (s, ser_name sz)))"

text \<open>An absent or null entry of the portable layout stands for no arguments of that kind.\<close>

definition portable_entry :: "string \<Rightarrow> pyval \<Rightarrow> (pyval \<times> pyval) list \<Rightarrow> pyval" where
  "portable_entry k d kvs = (if dict_get k kvs = PNone then d else dict_get k kvs)"

definition inputs_of_portable :: "pyval \<Rightarrow> pyval res" where
  "inputs_of_portable v = (case v of
     PDict kvs \<Rightarrow> res_bind (py_tuple (portable_entry ''positionalArgs'' (PList []) kvs))
       (\<lambda>args. Inr (WorkflowInputs args (portable_entry ''namedArgs'' (PDict []) kvs)))
   | _ \<Rightarrow> Inl TypeError)"

definition deserialize_args ::
  "codecs \<Rightarrow> string option \<Rightarrow> string option \<Rightarrow> Serializer \<Rightarrow> pyval res" where
  "deserialize_args cs v ser sz = (case v of
     None \<Rightarrow> Inr PNone
   | Some s \<Rightarrow>
      if ser = Some (ser_name (DBOSPortableJSON cs))
      then res_bind (ser_deserialize (DBOSPortableJSON cs) s) inputs_of_portable
      else if ser = Some (ser_name (DBOSDefaultSerializer cs))
      then ser_deserialize (DBOSDefaultSerializer cs) s
      else if ser \<noteq> None \<and> ser \<noteq> Some (ser_name sz) then Inl TypeError
      else ser_deserialize sz s)"

text \<open>
  The hints of the called function, its parameter names (\<open>None\<close>: no signature), whether it is a
  class or instance method, and what \<^verbatim>\<open>isoparse\<close> makes of a text: the datetime (its instant and time
  zone, as in \<open>PDatetime\<close>) and the date that its \<^verbatim>\<open>date()\<close> gives, or \<open>None\<close> when it raises.
\<close>

type_synonym iso_parser = "string \<Rightarrow> ((int \<times> string option) \<times> int) option"

datatype type_hint = HintDatetime | HintDate | HintOther

record call_signature =
  sg_hints :: "(string \<times> type_hint) list"
  sg_params :: "string list option"
  sg_is_method :: bool

definition coerce :: "iso_parser \<Rightarrow> pyval \<Rightarrow> type_hint option \<Rightarrow> pyval" where
  "coerce isoparse value hint = (case value of
     PStr s \<Rightarrow>
       (case hint of
          Some HintDatetime \<Rightarrow> (case isoparse s of Some ((t, tz), d) \<Rightarrow> PDatetime t tz | None \<Rightarrow> value)
        | Some HintDate \<Rightarrow> (case isoparse s of Some (dt, d) \<Rightarrow> PDate d | None \<Rightarrow> value)
        | _ \<Rightarrow> value)
   | _ \<Rightarrow> value)"

fun coerce_args ::
  "iso_parser \<Rightarrow> (string \<times> type_hint) list \<Rightarrow> string list \<Rightarrow> pyval list \<Rightarrow> pyval list" where
  "coerce_args isoparse hints [] args = args"
| "coerce_args isoparse hints params [] = []"
| "coerce_args isoparse hints (p # ps) (a # args) =
     coerce isoparse a (map_of hints p) # coerce_args isoparse hints ps args"

definition coerce_portable_args_to_hints ::
  "iso_parser \<Rightarrow> call_signature \<Rightarrow> pyval list \<Rightarrow> (string \<times> pyval) list
   \<Rightarrow> pyval list \<times> (string \<times> pyval) list" where
  "coerce_portable_args_to_hints isoparse sg args kwargs =
     (if sg_hints sg = [] then (args, kwargs)
      else case sg_params sg of
        None \<Rightarrow> (args, kwargs)
      | Some ps \<Rightarrow>
          (coerce_args isoparse (sg_hints sg) (if sg_is_method sg then tl ps else ps) args,
           map (\<lambda>(k, v). (k, coerce isoparse v (map_of (sg_hints sg) k))) kwargs))"

section \<open>Exceptions\<close>

text \<open>
  What \<^verbatim>\<open>except Exception\<close> catches: the cancellation and the ID conflict of a workflow, and the
  cancellation of an asyncio task, derive from \<^verbatim>\<open>BaseException\<close> and pass through it.
\<close>

definition CancelledError :: dbos_error where
  "CancelledError = PyException ''asyncio.CancelledError''"

definition is_Exception :: "dbos_error \<Rightarrow> bool" where
  "is_Exception e = (case e of DBOSWorkflowCancelledError _ \<Rightarrow> False
     | DBOSWorkflowConflictIDError _ \<Rightarrow> False | _ \<Rightarrow> e \<noteq> CancelledError)"

text \<open>Reflection on Python objects: \<open>None\<close> where Python raises.\<close>

datatype attribute_value = AttrValue pyval | AttrCallable

record reflection =
  rf_type_name :: "dbos_error \<Rightarrow> string"
  rf_str :: "pyval \<Rightarrow> string option"
  rf_repr :: "pyval \<Rightarrow> string option"
  rf_getattr :: "dbos_error \<Rightarrow> string \<Rightarrow> attribute_value option"

definition safe_str :: "reflection \<Rightarrow> pyval \<Rightarrow> string" where
  "safe_str rf x = (case rf_str rf x of Some s \<Rightarrow> s
     | None \<Rightarrow> (case rf_repr rf x of Some s \<Rightarrow> s | None \<Rightarrow> ''<unprintable>''))"

definition is_code :: "pyval \<Rightarrow> bool" where
  "is_code v = (case v of PInt _ \<Rightarrow> True | PBool _ \<Rightarrow> True | PStr _ \<Rightarrow> True | PNone \<Rightarrow> True | _ \<Rightarrow> False)"

fun extract_code_from :: "reflection \<Rightarrow> dbos_error \<Rightarrow> string list \<Rightarrow> pyval" where
  "extract_code_from rf e [] = PNone"
| "extract_code_from rf e (a # attrs) = (case rf_getattr rf e a of
     Some (AttrValue v) \<Rightarrow> if is_code v then v else extract_code_from rf e attrs
   | _ \<Rightarrow> extract_code_from rf e attrs)"

definition extract_code :: "reflection \<Rightarrow> dbos_error \<Rightarrow> pyval" where
  "extract_code rf e =
     extract_code_from rf e [''code'', ''error_code'', ''errno'', ''status'', ''status_code'']"

fun extract_data_from :: "reflection \<Rightarrow> dbos_error \<Rightarrow> string list \<Rightarrow> pyval option" where
  "extract_data_from rf e [] = None"
| "extract_data_from rf e (a # attrs) = (case rf_getattr rf e a of
     Some (AttrValue v) \<Rightarrow> Some (case portableify v of Inr w \<Rightarrow> w | Inl _ \<Rightarrow> PStr (safe_str rf v))
   | _ \<Rightarrow> extract_data_from rf e attrs)"

definition exception_to_workflow_error_data :: "reflection \<Rightarrow> dbos_error \<Rightarrow> pyval" where
  "exception_to_workflow_error_data rf e = PDict (
     [(PStr ''name'', PStr (rf_type_name rf e)), (PStr ''message'', PStr (safe_str rf (PExn e))),
      (PStr ''code'', extract_code rf e)]
     @ (case extract_data_from rf e [''data'', ''details'', ''payload'', ''extra'', ''meta'', ''metadata''] of
          None \<Rightarrow> [] | Some d \<Rightarrow> [(PStr ''data'', d)]))"

definition serialize_exception ::
  "reflection \<Rightarrow> codecs \<Rightarrow> dbos_error \<Rightarrow> string option \<Rightarrow> Serializer \<Rightarrow> (string \<times> string) res" where
  "serialize_exception rf cs e ser0 sz =
     (let ser = (case ser0 of None \<Rightarrow> ser_name sz | Some n \<Rightarrow> n) in
      if ser = ser_name (DBOSPortableJSON cs)
      then res_bind (ser_serialize (DBOSPortableJSON cs) (exception_to_workflow_error_data rf e))
             (\<lambda>s. Inr (s, ser_name (DBOSPortableJSON cs)))
      else if ser = ser_name (DBOSDefaultSerializer cs)
      then res_bind (ser_serialize (DBOSDefaultSerializer cs) (PExn e))
             (\<lambda>s. Inr (s, ser_name (DBOSDefaultSerializer cs)))
      else if ser \<noteq> ser_name sz then Inl TypeError
      else res_bind (ser_serialize sz (PExn e)) (\<lambda>s. Inr (s, ser_name sz)))"

text \<open>Introspection shows the recorded text of what cannot be decoded.\<close>

definition or_raw :: "string \<Rightarrow> pyval res \<Rightarrow> pyval res" where
  "or_raw s r = (case r of Inr v \<Rightarrow> Inr v | Inl e \<Rightarrow> if is_Exception e then Inr (PStr s) else Inl e)"

definition safe_deserialize ::
  "codecs \<Rightarrow> Serializer \<Rightarrow> string option \<Rightarrow> string option \<Rightarrow> string option \<Rightarrow> string option
   \<Rightarrow> (pyval \<times> pyval \<times> pyval) res" where
  "safe_deserialize cs sz ser inp out exn =
     res_bind (case inp of None \<Rightarrow> Inr PNone | Some s \<Rightarrow> or_raw s (deserialize_args cs (Some s) ser sz)) (\<lambda>i.
     res_bind (case out of None \<Rightarrow> Inr PNone | Some s \<Rightarrow> or_raw s (deserialize_value cs (Some s) ser sz)) (\<lambda>r.
     res_bind (case exn of None \<Rightarrow> Inr PNone
       | Some s \<Rightarrow> or_raw s (res_bind (deserialize_exception cs s ser sz) (\<lambda>e. Inr (PExn e)))) (\<lambda>x.
     Inr (i, r, x))))"

definition safe_deserialize_schedule_context :: "Serializer \<Rightarrow> string \<Rightarrow> pyval res" where
  "safe_deserialize_schedule_context sz s = or_raw s (ser_deserialize sz s)"

section \<open>Properties\<close>

lemma extract_code_portable: "portableify (extract_code_from rf e attrs) = Inr (extract_code_from rf e attrs)"
  by (induction attrs) (auto simp: is_code_def split: option.splits attribute_value.splits pyval.splits)

lemma extract_data_portable: "extract_data_from rf e attrs = Some d \<Longrightarrow> portableify d = Inr d"
  by (induction attrs)
    (auto simp: portableify_idem split: option.splits attribute_value.splits sum.splits)

declare extract_code_from.simps [simp del] extract_data_from.simps [simp del]

text \<open>The error data is portable as it is: rendering an exception never fails, whatever it carries.\<close>

lemma error_data_portable:
  "portableify (exception_to_workflow_error_data rf e) = Inr (exception_to_workflow_error_data rf e)"
  by (auto simp: exception_to_workflow_error_data_def extract_code_def extract_code_portable
      extract_data_portable split: option.splits)

definition portable_error :: "reflection \<Rightarrow> dbos_error \<Rightarrow> dbos_error" where
  "portable_error rf e = PortableWorkflowError (safe_str rf (PExn e)) (rf_type_name rf e) (extract_code rf e)
     (case extract_data_from rf e [''data'', ''details'', ''payload'', ''extra'', ''meta'', ''metadata''] of
        None \<Rightarrow> PNone | Some d \<Rightarrow> d)"

lemma portable_exception_of_error_data:
  "portable_exception_of (exception_to_workflow_error_data rf e) = Inr (portable_error rf e)"
  by (simp add: exception_to_workflow_error_data_def portable_exception_of_def portable_error_def
      dict_get_def split: option.splits)

lemma deserialize_serialize_exception:
  assumes law: "codecs_law cs sz" and ser: "serialize_exception rf cs e ser sz = Inr (s, n)"
  shows "deserialize_exception cs s (Some n) sz
    = Inr (if n = ''portable_json'' then portable_error rf e else e)"
proof -
  have json: "codec_law is_json (json_dumps cs) (json_loads cs)"
    and pickle: "codec_law (\<lambda>_. True) (pickle_dumps cs) (pickle_loads cs)"
    using law by (auto simp: codecs_law_def)
  show ?thesis
  proof (cases "n = ''portable_json''")
    case True
    with ser have "json_dumps cs (exception_to_workflow_error_data rf e) = Inr s"
      using law by (auto simp: serialize_exception_def DBOSPortableJSON_def Let_def res_bind_Inr_iff error_data_portable
          codecs_law_def split: if_splits option.splits)
    with json have "json_loads cs s = Inr (exception_to_workflow_error_data rf e)"
      using portableify_is_json [OF error_data_portable] by (auto simp: codec_law_def)
    with True show ?thesis
      by (simp add: deserialize_exception_def)
         (simp add: DBOSPortableJSON_def portable_exception_of_error_data)
  next
    case False
    show ?thesis
    proof (cases "n = ''py_pickle''")
      case True
      with ser have "pickle_dumps cs (PExn e) = Inr s"
        using law by (auto simp: serialize_exception_def DBOSDefaultSerializer_def DBOSPortableJSON_def Let_def
            res_bind_Inr_iff codecs_law_def split: if_splits option.splits)
      with pickle True show ?thesis
        by (simp add: deserialize_exception_def codec_law_def exception_of_def DBOSDefaultSerializer_def)
    next
      case nd: False
      with False ser have "ser_serialize sz (PExn e) = Inr s" "n = ser_name sz"
        by (auto simp: serialize_exception_def Let_def res_bind_Inr_iff split: if_splits option.splits)
      with law False nd show ?thesis
        by (simp add: deserialize_exception_def codecs_law_def codec_law_def exception_of_def)
    qed
  qed
qed

lemma portableify_inputs:
  assumes "portableify (JsonWorkflowArgs args kwargs) = Inr w"
  shows "\<exists>args' kwargs'. res_map portableify args = Inr args' \<and> portableify kwargs = Inr kwargs'
    \<and> w = JsonWorkflowArgs args' kwargs'"
  using assms by (auto simp: JsonWorkflowArgs_def res_bind_Inr_iff)

lemma inputs_of_portable_args:
  "kwargs \<noteq> PNone \<Longrightarrow> inputs_of_portable (JsonWorkflowArgs args kwargs) = Inr (WorkflowInputs args kwargs)"
  by (simp add: inputs_of_portable_def JsonWorkflowArgs_def portable_entry_def dict_get_def py_tuple_def)

lemma serialize_args_cases:
  assumes law: "codecs_law cs sz" and ser: "serialize_args cs args kwargs t sz = Inr (s, n)"
  shows "(n = ''portable_json'' \<and> ser_serialize (DBOSPortableJSON cs) (JsonWorkflowArgs args kwargs) = Inr s)
    \<or> (n = ''py_pickle'' \<and> pickle_dumps cs (WorkflowInputs args kwargs) = Inr s)
    \<or> (n = ser_name sz \<and> n \<noteq> ''portable_json'' \<and> n \<noteq> ''py_pickle''
       \<and> ser_serialize sz (WorkflowInputs args kwargs) = Inr s)"
  using ser by (auto simp: serialize_args_def Let_def res_bind_Inr_iff DBOSDefaultSerializer_def split: if_splits)

text \<open>
  What a workflow gets back from its recorded arguments: the native formats keep them as they were;
  the portable format keeps their portable conversions, in the same positions and under the same names.
\<close>

lemma deserialize_serialize_args:
  assumes law: "codecs_law cs sz" and ser: "serialize_args cs args (PDict kvs) t sz = Inr (s, n)"
  shows "\<exists>args' kwargs'. deserialize_args cs (Some s) (Some n) sz = Inr (WorkflowInputs args' kwargs')
    \<and> (if n = ''portable_json'' then res_map portableify args = Inr args' \<and> portableify (PDict kvs) = Inr kwargs'
       else args' = args \<and> kwargs' = PDict kvs)"
  using serialize_args_cases [OF law ser]
proof (elim disjE conjE)
  assume n: "n = ''portable_json''"
    and "ser_serialize (DBOSPortableJSON cs) (JsonWorkflowArgs args (PDict kvs)) = Inr s"
  then obtain w where w: "portableify (JsonWorkflowArgs args (PDict kvs)) = Inr w" "json_dumps cs w = Inr s"
    by (auto simp: DBOSPortableJSON_def res_bind_Inr_iff)
  from portableify_inputs [OF w(1)] obtain args' kwargs' where
    a: "res_map portableify args = Inr args'" "portableify (PDict kvs) = Inr kwargs'"
      "w = JsonWorkflowArgs args' kwargs'" by blast
  have nn: "kwargs' \<noteq> PNone" using a(2) by (auto simp: res_bind_Inr_iff)
  have "json_loads cs s = Inr w"
    using law w(2) portableify_is_json [OF w(1)] by (auto simp: codecs_law_def codec_law_def)
  then have "deserialize_args cs (Some s) (Some n) sz = Inr (WorkflowInputs args' kwargs')"
    using n by (simp add: deserialize_args_def)
      (simp add: DBOSPortableJSON_def a(3) inputs_of_portable_args [OF nn])
  with n a(1,2) show ?thesis by auto
next
  assume "n = ''py_pickle''" "pickle_dumps cs (WorkflowInputs args (PDict kvs)) = Inr s"
  then show ?thesis using law
    by (simp add: codecs_law_def codec_law_def deserialize_args_def DBOSDefaultSerializer_def)
next
  assume "n = ser_name sz" "n \<noteq> ''portable_json''" "n \<noteq> ''py_pickle''"
    "ser_serialize sz (WorkflowInputs args (PDict kvs)) = Inr s"
  then show ?thesis using law
    by (simp add: codecs_law_def codec_law_def deserialize_args_def)
qed

section \<open>Hinted arguments\<close>

text \<open>
  An argument that its hint describes: a datetime or date under its own hint, a plain JSON value
  that is no text under a hint of another type.
\<close>

definition hint_matches :: "pyval \<Rightarrow> type_hint option \<Rightarrow> bool" where
  "hint_matches v h = (case v of
     PDatetime t tz \<Rightarrow> h = Some HintDatetime
   | PDate d \<Rightarrow> h = Some HintDate
   | PStr s \<Rightarrow> h \<noteq> Some HintDatetime \<and> h \<noteq> Some HintDate
   | _ \<Rightarrow> is_json v)"

text \<open>
  The law of the parser: it reads the text of an instant in UTC as that instant, to the millisecond the text has,
  and the text of a date as that date.
\<close>

definition isoparse_law :: "iso_parser \<Rightarrow> pyval \<Rightarrow> bool" where
  "isoparse_law isoparse v = (case v of
     PDatetime t tz \<Rightarrow> map_option fst (isoparse (rfc3339_text t)) = Some (t div 1000 * 1000, Some ''UTC'')
   | PDate d \<Rightarrow> map_option snd (isoparse (date_isoformat d)) = Some d
   | _ \<Rightarrow> True)"

text \<open>What is left of a value after the portable text: a datetime keeps its instant, cut to the millisecond, in UTC.\<close>

definition portable_form :: "pyval \<Rightarrow> pyval" where
  "portable_form v = (case v of PDatetime t tz \<Rightarrow> PDatetime (t div 1000 * 1000) (Some ''UTC'') | _ \<Rightarrow> v)"

lemma coerce_portableify:
  assumes "hint_matches v h" "isoparse_law isoparse v" "portableify v = Inr w"
  shows "coerce isoparse w h = portable_form v"
proof (cases v)
  case (PDatetime t tz) with assms show ?thesis
    by (auto simp: hint_matches_def isoparse_law_def coerce_def portable_form_def to_rfc3339_utc_def
        split: option.splits if_splits)
next
  case (PDate d) with assms show ?thesis
    by (auto simp: hint_matches_def isoparse_law_def coerce_def portable_form_def split: option.splits)
next
  case (PStr s) with assms show ?thesis
    by (auto simp: hint_matches_def coerce_def portable_form_def split: option.splits type_hint.splits)
next
  case (PList vs) with assms show ?thesis
    using portableify_json_id [of v] by (simp add: hint_matches_def coerce_def portable_form_def)
next
  case (PDict kvs) with assms show ?thesis
    using portableify_json_id [of v] by (simp add: hint_matches_def coerce_def portable_form_def)
qed (use assms in \<open>auto simp: hint_matches_def coerce_def portable_form_def\<close>)

lemma coerce_args_portableify:
  assumes "res_map portableify args = Inr ws"
    and "\<forall>i < length args. hint_matches (args ! i) (if i < length ps then map_of hs (ps ! i) else None)
           \<and> isoparse_law isoparse (args ! i)"
  shows "coerce_args isoparse hs ps ws = map portable_form args"
  using assms
proof (induction isoparse hs ps ws arbitrary: args rule: coerce_args.induct)
  case (1 isoparse hs ws)
  have "portable_form (args ! i) = ws ! i" if "i < length args" for i
    using coerce_portableify [of "args ! i" None isoparse "ws ! i"] 1 that
    by (auto simp: res_map_Inr_iff coerce_def split: pyval.splits)
  then show ?case using 1(1) by (auto simp: res_map_Inr_iff intro: nth_equalityI)
next
  case (3 isoparse hs p ps a ws)
  then obtain v vs where args: "args = v # vs" by (cases args) auto
  have "coerce isoparse a (map_of hs p) = portable_form v"
    using 3(2) 3(3) [rule_format, of 0] by (intro coerce_portableify) (auto simp: args res_bind_Inr_iff)
  moreover have "coerce_args isoparse hs ps ws = map portable_form vs"
  proof (rule 3(1))
    show "res_map portableify vs = Inr ws" using 3(2) by (auto simp: args res_bind_Inr_iff)
    show "\<forall>i < length vs. hint_matches (vs ! i) (if i < length ps then map_of hs (ps ! i) else None)
        \<and> isoparse_law isoparse (vs ! i)"
      using 3(3) by (auto simp: args All_less_Suc2)
  qed
  ultimately show ?case by (simp add: args)
qed (auto simp: res_map_Inr_iff)

lemma coerce_None [simp]: "coerce isoparse v None = v"
  by (simp add: coerce_def split: pyval.splits)

lemma coerce_args_no_hints: "coerce_args isoparse [] ps args = args"
  by (induction isoparse "[] :: (string \<times> type_hint) list" ps args rule: coerce_args.induct) auto

lemma coerce_portable_args_Some:
  "sg_params sg = Some ps \<Longrightarrow> coerce_portable_args_to_hints isoparse sg args kwargs =
    (coerce_args isoparse (sg_hints sg) (if sg_is_method sg then tl ps else ps) args,
     map (\<lambda>(k, v). (k, coerce isoparse v (map_of (sg_hints sg) k))) kwargs)"
  by (auto simp: coerce_portable_args_to_hints_def coerce_args_no_hints)

abbreviation kwargs_dict :: "(string \<times> pyval) list \<Rightarrow> pyval" where
  "kwargs_dict kws \<equiv> PDict (map (\<lambda>(k, v). (PStr k, v)) kws)"

lemma portableify_kwargs:
  assumes "portableify (kwargs_dict kws) = Inr w"
  shows "\<exists>kws'. w = kwargs_dict kws' \<and> length kws' = length kws
    \<and> (\<forall>i < length kws. fst (kws' ! i) = fst (kws ! i) \<and> portableify (snd (kws ! i)) = Inr (snd (kws' ! i)))"
  using assms
proof (induction kws arbitrary: w)
  case (Cons x xs)
  obtain k v where x: "x = (k, v)" by (cases x)
  from Cons.prems obtain v' ws where v': "portableify v = Inr v'" "portableify (kwargs_dict xs) = Inr (PDict ws)"
    "w = PDict ((PStr k, v') # ws)" by (auto simp: x res_bind_Inr_iff)
  from Cons.IH [OF v'(2)] obtain kws' where "ws = map (\<lambda>(k, v). (PStr k, v)) kws'" "length kws' = length xs"
    "\<forall>i < length xs. fst (kws' ! i) = fst (xs ! i) \<and> portableify (snd (xs ! i)) = Inr (snd (kws' ! i))"
    by auto
  with v' x show ?case by (intro exI [of _ "(k, v') # kws'"]) (simp add: All_less_Suc2)
qed simp

text \<open>
  C15: Portable recording keeps the types of hinted arguments. When the positional and keyword arguments of a call
  match the hints of the called function, and the parser of the hinted texts obeys its law, the call is recorded as
  JSON and read back with each plain JSON value and each date unchanged and each datetime as a datetime again: the
  same instant cut to the millisecond, in UTC whatever its time zone was (a naive datetime as if it were in UTC).
\<close>

theorem portable_args_typed:
  assumes law: "codecs_law cs sz" and iso_law: "\<forall>v \<in> set args \<union> snd ` set kws. isoparse_law isoparse v"
    and ser: "serialize_args cs args (kwargs_dict kws) t sz = Inr (s, ''portable_json'')"
    and ps: "sg_params sg = Some ps" "qs = (if sg_is_method sg then tl ps else ps)"
    and pos: "\<forall>i < length args. hint_matches (args ! i)
      (if i < length qs then map_of (sg_hints sg) (qs ! i) else None)"
    and named: "\<forall>(k, v) \<in> set kws. hint_matches v (map_of (sg_hints sg) k)"
  shows "\<exists>args' kws'. deserialize_args cs (Some s) (Some ''portable_json'') sz
      = Inr (WorkflowInputs args' (kwargs_dict kws'))
    \<and> coerce_portable_args_to_hints isoparse sg args' kws'
      = (map portable_form args, map (\<lambda>(k, v). (k, portable_form v)) kws)"
proof -
  from deserialize_serialize_args [OF law ser] obtain args' kwargs' where
    des: "deserialize_args cs (Some s) (Some ''portable_json'') sz = Inr (WorkflowInputs args' kwargs')"
    and args': "res_map portableify args = Inr args'" and k: "portableify (kwargs_dict kws) = Inr kwargs'"
    by auto
  from portableify_kwargs [OF k] obtain kws' where kws': "kwargs' = kwargs_dict kws'" "length kws' = length kws"
    "\<forall>i < length kws. fst (kws' ! i) = fst (kws ! i) \<and> portableify (snd (kws ! i)) = Inr (snd (kws' ! i))"
    by blast
  have "coerce_args isoparse (sg_hints sg) qs args' = map portable_form args"
    using args' pos iso_law by (intro coerce_args_portableify) auto
  moreover have "map (\<lambda>(k, v). (k, coerce isoparse v (map_of (sg_hints sg) k))) kws'
      = map (\<lambda>(k, v). (k, portable_form v)) kws"
  proof (rule nth_equalityI)
    fix i assume i: "i < length (map (\<lambda>(k, v). (k, coerce isoparse v (map_of (sg_hints sg) k))) kws')"
    obtain k v where kv: "kws ! i = (k, v)" by (cases "kws ! i")
    with i kws'(2) nth_mem [of i kws] have mem: "(k, v) \<in> set kws" by simp
    then have "isoparse_law isoparse v" using iso_law by force
    with mem named kws' i kv have "coerce isoparse (snd (kws' ! i)) (map_of (sg_hints sg) k) = portable_form v"
      by (intro coerce_portableify) auto
    with kws' i kv show "map (\<lambda>(k, v). (k, coerce isoparse v (map_of (sg_hints sg) k))) kws' ! i
        = map (\<lambda>(k, v). (k, portable_form v)) kws ! i"
      by (cases "kws' ! i") auto
  qed (simp add: kws'(2))
  ultimately show ?thesis using des kws'(1) ps
    by (intro exI [of _ args'] exI [of _ kws']) (simp add: coerce_portable_args_Some)
qed

definition args_codecs :: codecs where
  "args_codecs = \<lparr>
     json_dumps = (\<lambda>v. if v = JsonWorkflowArgs [PStr ''2024-01-01T00:00:00.123Z''] (PDict [(PStr ''n'', PInt 3)])
        then Inr ''json'' else Inl TypeError),
     json_loads = (\<lambda>s. if s = ''json''
        then Inr (JsonWorkflowArgs [PStr ''2024-01-01T00:00:00.123Z''] (PDict [(PStr ''n'', PInt 3)])) else Inl TypeError),
     pickle_dumps = (\<lambda>v. Inl TypeError), pickle_loads = (\<lambda>s. Inl TypeError)\<rparr>"

lemma args_text: "rfc3339_text 1704067200123456 = ''2024-01-01T00:00:00.123Z''"
  by code_simp

theorem portable_args_typed_witness:
  "\<exists>args' kws'. deserialize_args args_codecs (Some ''json'') (Some ''portable_json'') (DBOSPortableJSON args_codecs)
      = Inr (WorkflowInputs args' (kwargs_dict kws'))
    \<and> coerce_portable_args_to_hints
        (\<lambda>s. if s = ''2024-01-01T00:00:00.123Z'' then Some ((1704067200123000, Some ''UTC''), 19723) else None)
        \<lparr>sg_hints = [(''when'', HintDatetime)], sg_params = Some [''when'', ''n''], sg_is_method = False\<rparr> args' kws'
      = ([PDatetime 1704067200123000 (Some ''UTC'')], [(''n'', PInt 3)])"
proof -
  let ?isoparse = "\<lambda>s. if s = ''2024-01-01T00:00:00.123Z''
    then Some ((1704067200123000, Some ''UTC''), 19723) else None"
  let ?arg = "PDatetime 1704067200123456 (Some ''Europe/Rome'')"
  have "codecs_law args_codecs (DBOSPortableJSON args_codecs)"
    by (auto simp: codecs_law_def codec_law_def args_codecs_def split: if_splits)
  moreover have "serialize_args args_codecs [?arg] (kwargs_dict [(''n'', PInt 3)])
      (Some PORTABLE) (DBOSPortableJSON args_codecs) = Inr (''json'', ''portable_json'')"
    by (simp add: serialize_args_def serialization_for_type_def)
       (simp add: DBOSPortableJSON_def JsonWorkflowArgs_def args_codecs_def to_rfc3339_utc_def args_text)
  ultimately show ?thesis
    using portable_args_typed [of args_codecs "DBOSPortableJSON args_codecs" "[?arg]" "[(''n'', PInt 3)]" ?isoparse
        "Some PORTABLE" "''json''" "\<lparr>sg_hints = [(''when'', HintDatetime)], sg_params = Some [''when'', ''n''],
          sg_is_method = False\<rparr>" "[''when'', ''n'']" "[''when'', ''n'']"]
    by (simp add: isoparse_law_def hint_matches_def nth_Cons' args_text portable_form_def)
qed

end
