(* ===== verification/DBOS_Outcome.thy ===== *)
theory DBOS_Outcome
  imports DBOS_Context DBOS_Payloads
begin

text \<open>
  Composition of the wrappers around a step or workflow body (\<^verbatim>\<open>dbos/_outcome.py\<close>). A computation
  maps the state of the world to a result and the changed world; \<^verbatim>\<open>Immediate\<close> composes synchronous
  functions and \<^verbatim>\<open>Pending\<close> coroutines, where an error of the continuation is handed to the
  continuation once more. The retry loop is shown equal to its specification: it calls the function
  until one call succeeds, fails with an error that is not retried, or the attempts are used up.
\<close>

type_synonym ('a, 's) comp = "'s \<Rightarrow> 'a res \<times> 's"

section \<open>Composition\<close>

definition comp_bind :: "('a, 's) comp \<Rightarrow> ('a \<Rightarrow> ('b, 's) comp) \<Rightarrow> ('b, 's) comp" where
  "comp_bind f g s = (case f s of (Inl e, s1) \<Rightarrow> (Inl e, s1) | (Inr a, s1) \<Rightarrow> g a s1)"

text \<open>A function that was already evaluated: \<^verbatim>\<open>lambda: value\<close> or a lambda that raises.\<close>

definition evaluated :: "'a res \<Rightarrow> ('a, 's) comp" where
  "evaluated r s = (r, s)"

definition immediate_then :: "(('a, 's) comp \<Rightarrow> ('b, 's) comp) \<Rightarrow> ('a, 's) comp \<Rightarrow> ('b, 's) comp" where
  "immediate_then next_f func = next_f func"

definition immediate_wrap ::
  "((('a, 's) comp \<Rightarrow> ('b, 's) comp), 's) comp \<Rightarrow> ('a, 's) comp \<Rightarrow> ('b, 's) comp" where
  "immediate_wrap before func = comp_bind before (\<lambda>after. after func)"

text \<open>\<open>None\<close> of the interceptor is \<^verbatim>\<open>NoResult\<close>.\<close>

definition intercept :: "('a option, 's) comp \<Rightarrow> ('a, 's) comp \<Rightarrow> ('a, 's) comp" where
  "intercept interceptor func = comp_bind interceptor (\<lambda>r.
     case r of Some v \<Rightarrow> evaluated (Inr v) | None \<Rightarrow> func)"

text \<open>
  \<^verbatim>\<open>Pending._wrap\<close>: the continuation runs inside the \<^verbatim>\<open>try\<close>, so its own error is handed to it again,
  as the error of the function.
\<close>

definition pending_wrap ::
  "((('a, 's) comp \<Rightarrow> ('b, 's) comp), 's) comp \<Rightarrow> ('a, 's) comp \<Rightarrow> ('b, 's) comp" where
  "pending_wrap before func = comp_bind before (\<lambda>after s.
     (case func s of
        (Inl e, s1) \<Rightarrow> if e = CancelledError then (Inl e, s1) else after (evaluated (Inl e)) s1
      | (Inr v, s1) \<Rightarrow>
          (case after (evaluated (Inr v)) s1 of
             (Inl e, s2) \<Rightarrow> if e = CancelledError then (Inl e, s2) else after (evaluated (Inl e)) s2
           | (Inr b, s2) \<Rightarrow> (Inr b, s2))))"

definition pending_then :: "(('a, 's) comp \<Rightarrow> ('b, 's) comp) \<Rightarrow> ('a, 's) comp \<Rightarrow> ('b, 's) comp" where
  "pending_then next_f = pending_wrap (evaluated (Inr next_f))"

section \<open>Retries\<close>

text \<open>
  The arguments of \<^verbatim>\<open>retry\<close>; the validator is user code that may raise. \<open>slp\<close> is what sleeping does to
  the world; \<^verbatim>\<open>time.sleep\<close> refuses a negative time, \<^verbatim>\<open>asyncio.sleep\<close> does not (\<open>sync\<close>). The function sees
  the context of its attempt (\<^verbatim>\<open>EnterDBOSStepRetry\<close>).
\<close>

record 's retry_policy =
  rp_attempts :: nat
  rp_on_exception :: "nat \<Rightarrow> dbos_error \<Rightarrow> rat"
  rp_exceeded_retries :: "nat \<Rightarrow> dbos_error list \<Rightarrow> dbos_error"
  rp_should_retry :: "(dbos_error \<Rightarrow> (bool, 's) comp) option"

definition enter_step_retry :: "nat \<Rightarrow> nat \<Rightarrow> DBOSContext \<Rightarrow> DBOSContext" where
  "enter_step_retry current_attempt max_attempts c = (case cx_step_status c of
     None \<Rightarrow> c
   | Some st \<Rightarrow> c\<lparr>cx_step_status := Some (st\<lparr>ss_current_attempt := Some (int current_attempt),
       ss_max_attempts := Some (int max_attempts)\<rparr>)\<rparr>)"

text \<open>One failed attempt: whether to go on, after the validator and the wait.\<close>

definition after_failure ::
  "bool \<Rightarrow> (rat \<Rightarrow> 's \<Rightarrow> 's) \<Rightarrow> 's retry_policy \<Rightarrow> nat \<Rightarrow> dbos_error \<Rightarrow> (unit, 's) comp" where
  "after_failure sync slp p i e = comp_bind
     (case rp_should_retry p of None \<Rightarrow> evaluated (Inr True) | Some f \<Rightarrow> f e) (\<lambda>again s.
     if \<not> again then (Inl e, s)
     else if i + 1 = rp_attempts p then (Inr (), s)
     else let t = rp_on_exception p i e in
       if sync \<and> t < 0 then (Inl ValueError, s) else (Inr (), slp t s))"

function retry_from ::
  "bool \<Rightarrow> (rat \<Rightarrow> 's \<Rightarrow> 's) \<Rightarrow> 's retry_policy \<Rightarrow> DBOSContext \<Rightarrow> (DBOSContext \<Rightarrow> ('a, 's) comp) \<Rightarrow> nat
   \<Rightarrow> dbos_error list \<Rightarrow> ('a, 's) comp" where
  "retry_from sync slp p c func i errors s =
     (if i < rp_attempts p
      then case func (enter_step_retry i (rp_attempts p) c) s of
          (Inr v, s1) \<Rightarrow> (Inr v, s1)
        | (Inl e, s1) \<Rightarrow>
            if \<not> is_Exception e then (Inl e, s1)
            else (case after_failure sync slp p i e s1 of
                (Inl e', s2) \<Rightarrow> (Inl e', s2)
              | (Inr _, s2) \<Rightarrow> retry_from sync slp p c func (i + 1) (errors @ [e]) s2)
      else (Inl (rp_exceeded_retries p (rp_attempts p) errors), s))"
  by pat_completeness auto
termination
  by (relation "measure (\<lambda>(sync, slp, p, c, func, i, errors, s). rp_attempts p - i)") auto

declare retry_from.simps [simp del]

definition retry ::
  "bool \<Rightarrow> (rat \<Rightarrow> 's \<Rightarrow> 's) \<Rightarrow> 's retry_policy \<Rightarrow> DBOSContext \<Rightarrow> (DBOSContext \<Rightarrow> ('a, 's) comp)
   \<Rightarrow> ('a, 's) comp res" where
  "retry sync slp p c func = (if rp_attempts p > 0 then Inr (retry_from sync slp p c func 0 []) else Inl AssertionError)"

section \<open>The retry loop and its specification\<close>

text \<open>
  The specification: the state before attempt \<open>k\<close> and the errors so far, if the first \<open>k\<close> attempts all
  failed and were followed by another one.
\<close>

fun failed_attempts ::
  "bool \<Rightarrow> (rat \<Rightarrow> 's \<Rightarrow> 's) \<Rightarrow> 's retry_policy \<Rightarrow> DBOSContext \<Rightarrow> (DBOSContext \<Rightarrow> ('a, 's) comp) \<Rightarrow> nat
   \<Rightarrow> 's \<Rightarrow> (dbos_error list \<times> 's) option" where
  "failed_attempts sync slp p c func 0 s = Some ([], s)"
| "failed_attempts sync slp p c func (Suc k) s =
     (case failed_attempts sync slp p c func k s of
        None \<Rightarrow> None
      | Some (errs, s1) \<Rightarrow>
          (case func (enter_step_retry k (rp_attempts p) c) s1 of
             (Inr v, s2) \<Rightarrow> None
           | (Inl e, s2) \<Rightarrow>
               if \<not> is_Exception e then None
               else (case after_failure sync slp p k e s2 of
                       (Inl e', s3) \<Rightarrow> None
                     | (Inr _, s3) \<Rightarrow> Some (errs @ [e], s3))))"

text \<open>How attempt \<open>k\<close>, started in \<open>s\<close>, ends the loop, if it does.\<close>

definition attempt_ends ::
  "bool \<Rightarrow> (rat \<Rightarrow> 's \<Rightarrow> 's) \<Rightarrow> 's retry_policy \<Rightarrow> DBOSContext \<Rightarrow> (DBOSContext \<Rightarrow> ('a, 's) comp) \<Rightarrow> nat
   \<Rightarrow> 's \<Rightarrow> ('a res \<times> 's) option" where
  "attempt_ends sync slp p c func k s = (case func (enter_step_retry k (rp_attempts p) c) s of
     (Inr v, s1) \<Rightarrow> Some (Inr v, s1)
   | (Inl e, s1) \<Rightarrow>
       if \<not> is_Exception e then Some (Inl e, s1)
       else (case after_failure sync slp p k e s1 of
               (Inl e', s2) \<Rightarrow> Some (Inl e', s2) | (Inr _, s2) \<Rightarrow> None))"

lemma failed_attempts_ends:
  "failed_attempts sync slp p c func k s = Some (errs, s1) \<Longrightarrow>
   attempt_ends sync slp p c func k s1 = Some r \<longleftrightarrow>
   failed_attempts sync slp p c func (Suc k) s = None \<and> attempt_ends sync slp p c func k s1 = Some r"
  by (auto simp: attempt_ends_def split: sum.splits prod.splits if_splits)

lemma failed_attempts_length:
  "failed_attempts sync slp p c func k s = Some (errs, s1) \<Longrightarrow> length errs = k"
  by (induction k arbitrary: errs s1)
    (auto split: option.splits sum.splits prod.splits if_splits)

lemma retry_from_unfold:
  "retry_from sync slp p c func i errors s =
    (if i < rp_attempts p
     then case attempt_ends sync slp p c func i s of
         Some r \<Rightarrow> r
       | None \<Rightarrow> (case func (enter_step_retry i (rp_attempts p) c) s of
             (Inl e, s1) \<Rightarrow> retry_from sync slp p c func (i + 1) (errors @ [e])
                 (snd (after_failure sync slp p i e s1))
           | (Inr v, s1) \<Rightarrow> (Inr v, s1))
     else (Inl (rp_exceeded_retries p (rp_attempts p) errors), s))"
  by (subst retry_from.simps) (auto simp: attempt_ends_def split: sum.splits prod.splits)

lemma failed_attempts_Suc:
  assumes "failed_attempts sync slp p c func k s = Some (errs, s1)"
    and "attempt_ends sync slp p c func k s1 = None"
  shows "\<exists>e s2. func (enter_step_retry k (rp_attempts p) c) s1 = (Inl e, s2)
    \<and> failed_attempts sync slp p c func (Suc k) s
      = Some (errs @ [e], snd (after_failure sync slp p k e s2))"
  using assms by (auto simp: attempt_ends_def split: sum.splits prod.splits if_splits)

text \<open>The loop resumed after \<open>k\<close> failed attempts gives the result of the whole loop.\<close>

lemma retry_from_failed:
  assumes "failed_attempts sync slp p c func k s = Some (errs, s1)" "k \<le> rp_attempts p"
  shows "retry_from sync slp p c func 0 [] s = retry_from sync slp p c func k errs s1"
  using assms
proof (induction k arbitrary: errs s1)
  case (Suc k)
  from Suc.prems(1) obtain errs0 s0 where k: "failed_attempts sync slp p c func k s = Some (errs0, s0)"
    by (auto split: option.splits)
  have none: "attempt_ends sync slp p c func k s0 = None"
    using Suc.prems(1) k by (auto simp: attempt_ends_def split: sum.splits prod.splits if_splits)
  from failed_attempts_Suc [OF k none] obtain e s2 where
    e: "func (enter_step_retry k (rp_attempts p) c) s0 = (Inl e, s2)"
      "errs = errs0 @ [e]" "s1 = snd (after_failure sync slp p k e s2)"
    using Suc.prems(1) by auto
  have "retry_from sync slp p c func 0 [] s = retry_from sync slp p c func k errs0 s0"
    using Suc.IH [OF k] Suc.prems(2) by simp
  also have "\<dots> = retry_from sync slp p c func (Suc k) errs s1"
    using Suc.prems(2) none e by (subst retry_from_unfold) simp
  finally show ?case .
qed simp

text \<open>
  C14: The retry loop meets its specification. Either some attempt below the limit ends it, after
  attempts that all failed with retried errors, and its outcome is the result; or every attempt
  failed, and the error of exhausted retries carries all their errors in order. Exactly one attempt
  number is possible.
\<close>

theorem retry_correct:
  assumes "retry sync slp p c func = Inr loop"
  shows "(\<exists>k < rp_attempts p. \<exists>errs s1. failed_attempts sync slp p c func k s = Some (errs, s1)
      \<and> length errs = k \<and> attempt_ends sync slp p c func k s1 = Some (loop s))
    \<or> (\<exists>errs s1. failed_attempts sync slp p c func (rp_attempts p) s = Some (errs, s1)
      \<and> length errs = rp_attempts p
      \<and> loop s = (Inl (rp_exceeded_retries p (rp_attempts p) errs), s1))"
proof -
  have loop: "loop = retry_from sync slp p c func 0 []" using assms by (auto simp: retry_def split: if_splits)
  show ?thesis
  proof (cases "failed_attempts sync slp p c func (rp_attempts p) s")
    case (Some x)
    obtain errs s1 where x: "x = (errs, s1)" by (cases x)
    from Some x have "loop s = retry_from sync slp p c func (rp_attempts p) errs s1"
      by (simp add: loop retry_from_failed)
    then have "loop s = (Inl (rp_exceeded_retries p (rp_attempts p) errs), s1)"
      by (simp add: retry_from.simps)
    with Some x failed_attempts_length [of sync slp p c func "rp_attempts p" s errs s1] show ?thesis by blast
  next
    case None
    define k where "k = (LEAST k. failed_attempts sync slp p c func (Suc k) s = None)"
    have pos: "rp_attempts p > 0" using assms by (auto simp: retry_def split: if_splits)
    then have ex: "failed_attempts sync slp p c func (Suc (rp_attempts p - 1)) s = None" using None by simp
    have k: "failed_attempts sync slp p c func (Suc k) s = None"
      unfolding k_def by (rule LeastI [of _ "rp_attempts p - 1"]) (rule ex)
    have "k \<le> rp_attempts p - 1"
      unfolding k_def by (rule Least_le) (rule ex)
    with pos have lt: "k < rp_attempts p" by simp
    have "failed_attempts sync slp p c func k s \<noteq> None"
    proof (cases k)
      case (Suc j)
      then have "j < k" by simp
      from not_less_Least [OF this [unfolded k_def]] Suc show ?thesis by simp
    qed simp
    then obtain errs s1 where f: "failed_attempts sync slp p c func k s = Some (errs, s1)" by auto
    have "attempt_ends sync slp p c func k s1 \<noteq> None"
    proof
      assume "attempt_ends sync slp p c func k s1 = None"
      from failed_attempts_Suc [OF f this] k show False by (elim exE conjE) simp
    qed
    then obtain r where r: "attempt_ends sync slp p c func k s1 = Some r" by blast
    have "loop s = retry_from sync slp p c func k errs s1"
      using f lt by (simp add: loop retry_from_failed)
    also have "\<dots> = r" using lt r by (subst retry_from_unfold) simp
    finally show ?thesis using f r lt failed_attempts_length [OF f] by blast
  qed
qed

text \<open>The number of calls: a counter that only the function advances grows by at most the limit.\<close>

lemma retry_from_calls:
  fixes calls :: "'s \<Rightarrow> nat"
  assumes func: "\<And>c s. calls (snd (func c s)) = Suc (calls s)"
    and wait: "\<And>i e s. calls (snd (after_failure sync slp p i e s)) = calls s"
    and "i \<le> rp_attempts p"
  shows "calls (snd (retry_from sync slp p c func i errs s)) \<le> calls s + (rp_attempts p - i)"
  using assms(3)
proof (induction "rp_attempts p - i" arbitrary: i errs s)
  case 0
  then show ?case by (simp add: retry_from.simps)
next
  case (Suc n)
  then have i: "i < rp_attempts p" by simp
  obtain r s1 where f: "func (enter_step_retry i (rp_attempts p) c) s = (r, s1)" by fastforce
  have s1: "calls s1 = Suc (calls s)" using func [of "enter_step_retry i (rp_attempts p) c" s] f by simp
  show ?case
  proof (cases "attempt_ends sync slp p c func i s")
    case (Some x)
    have "calls (snd x) = calls s1"
    proof (cases r)
      case (Inl e)
      with Some wait [of i e s1] show ?thesis
        by (cases "after_failure sync slp p i e s1") (auto simp: attempt_ends_def f split: sum.splits if_splits)
    next
      case (Inr v)
      with Some f show ?thesis by (auto simp: attempt_ends_def)
    qed
    with Some i s1 show ?thesis by (subst retry_from_unfold) simp
  next
    case None
    then obtain e where r: "r = Inl e" using f by (auto simp: attempt_ends_def split: sum.splits)
    have "retry_from sync slp p c func i errs s
      = retry_from sync slp p c func (i + 1) (errs @ [e]) (snd (after_failure sync slp p i e s1))"
      using None i f r by (subst retry_from_unfold) simp
    moreover have "calls (snd (retry_from sync slp p c func (i + 1) (errs @ [e]) (snd (after_failure sync slp p i e s1))))
      \<le> calls (snd (after_failure sync slp p i e s1)) + (rp_attempts p - (i + 1))"
      using Suc.hyps(2) i by (intro Suc.hyps(1)) simp_all
    ultimately show ?thesis using wait [of i e s1] s1 i by simp
  qed
qed

text \<open>A function that fails twice and then succeeds, retried up to five times.\<close>

definition flaky :: "DBOSContext \<Rightarrow> (pyval, nat) comp" where
  "flaky c n = (if n < 2 then Inl (AppError ''flaky'') else Inr (PInt (int n)), Suc n)"

definition flaky_policy :: "nat retry_policy" where
  "flaky_policy = \<lparr>rp_attempts = 5, rp_on_exception = (\<lambda>_ _. 1),
     rp_exceeded_retries = (\<lambda>n es. DBOSMaxStepRetriesExceeded ''flaky'' (int n) es), rp_should_retry = None\<rparr>"

theorem retry_correct_witness:
  "retry True (\<lambda>t n. n) flaky_policy example_context flaky = Inr (retry_from True (\<lambda>t n. n) flaky_policy example_context flaky 0 [])
   \<and> retry_from True (\<lambda>t n. n) flaky_policy example_context flaky 0 [] 0 = (Inr (PInt 2), 3)"
proof -
  have r: "retry True (\<lambda>t n. n) flaky_policy example_context flaky = Inr (retry_from True (\<lambda>t n. n) flaky_policy example_context flaky 0 [])"
    by (simp add: retry_def flaky_policy_def)
  have two: "failed_attempts True (\<lambda>t n. n) flaky_policy example_context flaky (Suc (Suc 0)) 0
      = Some ([AppError ''flaky'', AppError ''flaky''], 2)"
    by (simp add: flaky_def flaky_policy_def after_failure_def comp_bind_def evaluated_def is_Exception_def CancelledError_def)
  have three: "failed_attempts True (\<lambda>t n. n) flaky_policy example_context flaky (Suc (Suc (Suc 0))) 0 = None"
    using two by (simp add: flaky_def flaky_policy_def)
  have later: "failed_attempts True (\<lambda>t n. n) flaky_policy example_context flaky (Suc (Suc (Suc k))) 0 = None" for k
    by (induction k) (use three in simp_all)
  from retry_correct [OF r, of 0] obtain k errs s1 where
    k: "failed_attempts True (\<lambda>t n. n) flaky_policy example_context flaky k 0 = Some (errs, s1)"
    "attempt_ends True (\<lambda>t n. n) flaky_policy example_context flaky k s1
      = Some (retry_from True (\<lambda>t n. n) flaky_policy example_context flaky 0 [] 0)"
    using later [of 2] by (auto simp: flaky_policy_def numeral_eq_Suc)
  have "k = 2"
  proof (rule ccontr)
    assume "k \<noteq> 2"
    then consider "k = 0" | "k = 1" | j where "k = Suc (Suc (Suc j))"
      by (metis One_nat_def Suc_1 not0_implies_Suc)
    then show False
    proof cases
      case 1
      with k show False by (simp add: attempt_ends_def flaky_def flaky_policy_def after_failure_def
          comp_bind_def evaluated_def is_Exception_def CancelledError_def)
    next
      case 2
      with k show False by (simp add: attempt_ends_def flaky_def flaky_policy_def after_failure_def
          comp_bind_def evaluated_def is_Exception_def CancelledError_def split: if_splits)
    next
      case 3
      with k later show False by simp
    qed
  qed
  with k two have "s1 = 2" by (simp add: numeral_eq_Suc)
  with k(2) \<open>k = 2\<close> show ?thesis using r by (simp add: attempt_ends_def flaky_def)
qed

end
