(* ===== verification/DBOS_Steps.thy ===== *)
theory DBOS_Steps
  imports DBOS_Checkpoints DBOS_Outcome
begin

text \<open>
  Steps (\<^verbatim>\<open>dbos/_core.py\<close>): a user function run inside a workflow with a checkpoint, retries and, for
  coroutines, preemption when the workflow is cancelled. The world is the system database together
  with everything else the function can touch; the clock and sleeping act on the latter. The theorem
  is the guarantee a step gives: its outcome, a value or an exception, is recorded, and every later
  execution of the workflow gets that outcome without calling the function.
\<close>

section \<open>The running process\<close>

text \<open>
  What \<^verbatim>\<open>dbos\<close> stands for in the code: its serializer, the executor it runs as, the application version, the clock (in
  milliseconds) and what sleeping does to the world outside the database.
\<close>

record 'w dbos_env =
  en_codecs :: codecs
  en_serializer :: Serializer
  en_reflection :: reflection
  en_executor_id :: "string option"
  en_app_version :: string
  en_clock :: "'w \<Rightarrow> int"
  en_sleep :: "rat \<Rightarrow> 'w \<Rightarrow> 'w"

type_synonym 'w world = "sysdb \<times> 'w"

definition on_db :: "(sysdb \<Rightarrow> 'a res \<times> sysdb) \<Rightarrow> ('a, 'w world) comp" where
  "on_db f s = (case f (fst s) of (r, db) \<Rightarrow> (r, (db, snd s)))"

section \<open>Options\<close>

record 's StepOptions =
  so_name :: "string option"
  so_retries_allowed :: bool
  so_interval_seconds :: rat
  so_max_attempts :: int
  so_backoff_rate :: rat
  so_should_retry :: "(dbos_error \<Rightarrow> (bool, 's) comp) option"
  so_preemptible :: bool

definition DEFAULT_STEP_OPTIONS :: "'s StepOptions" where
  "DEFAULT_STEP_OPTIONS = \<lparr>so_name = None, so_retries_allowed = False, so_interval_seconds = 1,
     so_max_attempts = 3, so_backoff_rate = 2, so_should_retry = None, so_preemptible = False\<rparr>"

text \<open>The options as given: only some keys of the dictionary are present.\<close>

datatype 's step_option =
    OptName "string option" | OptRetriesAllowed bool | OptInterval rat | OptMaxAttempts int
  | OptBackoff rat | OptShouldRetry "(dbos_error \<Rightarrow> (bool, 's) comp) option" | OptPreemptible bool

fun set_step_option :: "'s step_option \<Rightarrow> 's StepOptions \<Rightarrow> 's StepOptions" where
  "set_step_option (OptName n) o1 = o1\<lparr>so_name := n\<rparr>"
| "set_step_option (OptRetriesAllowed b) o1 = o1\<lparr>so_retries_allowed := b\<rparr>"
| "set_step_option (OptInterval x) o1 = o1\<lparr>so_interval_seconds := x\<rparr>"
| "set_step_option (OptMaxAttempts n) o1 = o1\<lparr>so_max_attempts := n\<rparr>"
| "set_step_option (OptBackoff x) o1 = o1\<lparr>so_backoff_rate := x\<rparr>"
| "set_step_option (OptShouldRetry f) o1 = o1\<lparr>so_should_retry := f\<rparr>"
| "set_step_option (OptPreemptible b) o1 = o1\<lparr>so_preemptible := b\<rparr>"

definition normalize_step_options :: "'s step_option list \<Rightarrow> 's StepOptions" where
  "normalize_step_options opts = fold set_step_option opts DEFAULT_STEP_OPTIONS"

section \<open>Preemption\<close>

text \<open>
  The poller of a preemptible step: the statuses it reads while the step runs, one a second (a failed
  read is logged and skipped), until one says CANCELLED; then the step's task is cancelled.
\<close>

fun poller :: "WorkflowStatusString option res list \<Rightarrow> bool" where
  "poller [] = False"
| "poller (Inl e # polls) = poller polls"
| "poller (Inr st # polls) = (if st = Some CANCELLED then True else poller polls)"

definition run_preemptible_step ::
  "string \<Rightarrow> ('s \<Rightarrow> WorkflowStatusString option res list) \<Rightarrow> ('a, 's) comp \<Rightarrow> ('a, 's) comp" where
  "run_preemptible_step wid polls step_task s = (case step_task s of
     (Inl e, s1) \<Rightarrow> if e = CancelledError \<and> poller (polls s)
        then (Inl (DBOSWorkflowCancelledError wid), s1) else (Inl e, s1)
   | (Inr v, s1) \<Rightarrow> (Inr v, s1))"

section \<open>Invoking a step\<close>

text \<open>
  The function as it is called: whether it is a coroutine function, its qualified name, whether the
  validator is one, and the statuses that a poller would read while it runs.
\<close>

record 's step_call =
  sc_func :: "DBOSContext \<Rightarrow> (pyval, 's) comp"
  sc_is_async :: bool
  sc_qualname :: string
  sc_should_retry_async :: bool
  sc_polls :: "'s \<Rightarrow> WorkflowStatusString option res list"

definition retry_wait :: "rat \<Rightarrow> rat \<Rightarrow> nat \<Rightarrow> rat" where
  "retry_wait interval_seconds backoff_rate attempt = min (interval_seconds * backoff_rate ^ attempt) 3600"

definition step_error_result ::
  "string \<Rightarrow> int \<Rightarrow> string \<Rightarrow> int \<Rightarrow> string \<Rightarrow> string option \<Rightarrow> OperationResultInternal" where
  "step_error_result wid fid name start err ser = \<lparr>
     or_workflow_uuid = wid, or_function_id = fid, or_function_name = name, or_output = None,
     or_error = Some err, or_serialization = ser, or_started_at_epoch_ms = start\<rparr>"

definition record_step_result ::
  "'w dbos_env \<Rightarrow> DBOSContext \<Rightarrow> string \<Rightarrow> int \<Rightarrow> (pyval, 'w world) comp \<Rightarrow> (pyval, 'w world) comp" where
  "record_step_result en c name start func s = (case func s of
     (Inl e, s1) \<Rightarrow>
       if \<not> is_Exception e then (Inl e, s1)
       else (case serialize_exception (en_reflection en) (en_codecs en) e None (en_serializer en) of
           Inl e' \<Rightarrow> (Inl e', s1)
         | Inr (err, ser) \<Rightarrow> comp_bind (on_db (record_operation_result (en_executor_id en)
             (step_error_result (cx_workflow_id c) (cx_function_id c) name start err (Some ser))
             (en_clock en (snd s1)))) (\<lambda>_. evaluated (Inl e)) s1)
   | (Inr v, s1) \<Rightarrow>
       (case serialize_value (en_codecs en) v None (en_serializer en) of
           Inl e' \<Rightarrow> (Inl e', s1)
         | Inr (out, ser) \<Rightarrow> comp_bind (on_db (record_operation_result (en_executor_id en)
             (step_result (cx_workflow_id c) (cx_function_id c) name start out (Some ser))
             (en_clock en (snd s1)))) (\<lambda>_. evaluated (Inr v)) s1))"

definition step_replay :: "'w dbos_env \<Rightarrow> RecordedResult \<Rightarrow> pyval res" where
  "step_replay en rr = (case rr_error rr of
     Some err \<Rightarrow> res_bind (deserialize_exception (en_codecs en) err (rr_serialization rr) (en_serializer en)) Inl
   | None \<Rightarrow> (case rr_output rr of
       Some out \<Rightarrow> deserialize_value (en_codecs en) (Some out) (rr_serialization rr) (en_serializer en)
     | None \<Rightarrow> Inl (PyException ''Output and error are both None'')))"

definition check_existing_result :: "'w dbos_env \<Rightarrow> DBOSContext \<Rightarrow> string \<Rightarrow> (pyval option, 'w world) comp" where
  "check_existing_result en c name =
     comp_bind (on_db (check_operation_execution (cx_workflow_id c) (cx_function_id c) name)) (\<lambda>recorded.
       evaluated (case recorded of None \<Rightarrow> Inr None
         | Some rr \<Rightarrow> res_bind (step_replay en rr) (\<lambda>v. Inr (Some v))))"

text \<open>The function with its preemption and retries, in the step's context.\<close>

definition step_outcome ::
  "'w dbos_env \<Rightarrow> DBOSContext \<Rightarrow> 'w world step_call \<Rightarrow> 'w world StepOptions \<Rightarrow> string \<Rightarrow> (pyval, 'w world) comp res" where
  "step_outcome en c call opts name =
     (let f = (\<lambda>c'. if so_preemptible opts
            then run_preemptible_step (cx_workflow_id c) (sc_polls call) (sc_func call c')
            else sc_func call c');
          policy = \<lparr>rp_attempts = nat (so_max_attempts opts),
            rp_on_exception = (\<lambda>i e. retry_wait (so_interval_seconds opts) (so_backoff_rate opts) i),
            rp_exceeded_retries = (\<lambda>n es. DBOSMaxStepRetriesExceeded name (int n) es),
            rp_should_retry = so_should_retry opts\<rparr>
      in if so_retries_allowed opts
         then retry (\<not> sc_is_async call) (\<lambda>t s. (fst s, en_sleep en t (snd s))) policy c f
         else Inr (f c))"

definition invoke_step ::
  "'w dbos_env \<Rightarrow> DBOSContext \<Rightarrow> 'w world step_call \<Rightarrow> 'w world StepOptions \<Rightarrow> string \<Rightarrow> (pyval, 'w world) comp" where
  "invoke_step en step_ctx call opts name s =
     (if so_should_retry opts \<noteq> None \<and> sc_should_retry_async call \<and> \<not> sc_is_async call
      then (Inl (DBOSException ''Step is sync but should_retry is async''), s)
      else if so_preemptible opts \<and> \<not> sc_is_async call
      then (Inl (DBOSException ''Step is sync but preemptible=True''), s)
      else
        let start = en_clock en (snd s); c = start_step (cx_function_id step_ctx) step_ctx in
        (case step_outcome en c call opts name of
           Inl e \<Rightarrow> (Inl e, s)
         | Inr body \<Rightarrow>
             intercept (check_existing_result en c name)
               ((if sc_is_async call then pending_then else immediate_then)
                  (record_step_result en c name start) body) s))"

text \<open>
  Called from a workflow, a step function takes the next number; called elsewhere it is an ordinary
  function. The context of the caller is part of the result.
\<close>

definition run_step ::
  "'w dbos_env \<Rightarrow> DBOSContext \<Rightarrow> DBOSContext option \<Rightarrow> 'w world step_call \<Rightarrow> 'w world step_option list
   \<Rightarrow> 'w world \<Rightarrow> (pyval res \<times> 'w world) \<times> DBOSContext option" where
  "run_step en blank cur call opts0 s =
     (let opts = normalize_step_options opts0 in
      case cur of
        Some c \<Rightarrow>
          if is_workflow c
          then (let (step_ctx, c') = snapshot_step_ctx False blank c;
                    name = (case so_name opts of Some n \<Rightarrow> if n = [] then sc_qualname call else n
                      | None \<Rightarrow> sc_qualname call)
                in (invoke_step en step_ctx call opts name s, Some c'))
          else (sc_func call c s, Some c)
      | None \<Rightarrow> (sc_func call blank s, None))"

section \<open>Properties\<close>

lemma on_db_simp: "f db = (r, db') \<Longrightarrow> on_db f (db, w) = (r, (db', w))"
  by (simp add: on_db_def)

lemma start_step_ids [simp]:
  "cx_workflow_id (start_step i c) = cx_workflow_id c" "cx_function_id (start_step i c) = cx_function_id c"
  by (simp_all add: start_step_def)

text \<open>The waits between attempts are at most an hour and never negative for sensible options.\<close>

lemma retry_wait_bounds: "0 \<le> i \<Longrightarrow> 0 \<le> b \<Longrightarrow> 0 \<le> retry_wait i b n \<and> retry_wait i b n \<le> 3600"
  by (simp add: retry_wait_def)

lemma retry_wait_mono: "0 \<le> i \<Longrightarrow> 1 \<le> b \<Longrightarrow> m \<le> n \<Longrightarrow> retry_wait i b m \<le> retry_wait i b n"
  unfolding retry_wait_def by (intro min.mono mult_left_mono power_increasing) auto

text \<open>What a replay makes of an outcome: the portable format converts it, the others keep it.\<close>

definition replayed :: "'w dbos_env \<Rightarrow> pyval res \<Rightarrow> pyval res \<Rightarrow> bool" where
  "replayed en r r' \<longleftrightarrow> (if ser_name (en_serializer en) = ''portable_json''
     then (case r of Inr v \<Rightarrow> r' = portableify v | Inl e \<Rightarrow> r' = Inl (portable_error (en_reflection en) e))
     else r' = r)"

text \<open>An outcome that a step records: a serializable value or a serializable \<^verbatim>\<open>Exception\<close>.\<close>

definition recordable :: "'w dbos_env \<Rightarrow> pyval res \<Rightarrow> bool" where
  "recordable en r = (case r of
     Inr v \<Rightarrow> (\<exists>x. serialize_value (en_codecs en) v None (en_serializer en) = Inr x)
   | Inl e \<Rightarrow> is_Exception e
       \<and> (\<exists>x. serialize_exception (en_reflection en) (en_codecs en) e None (en_serializer en) = Inr x))"

definition recorded_row ::
  "'w dbos_env \<Rightarrow> DBOSContext \<Rightarrow> string \<Rightarrow> int \<Rightarrow> pyval res \<Rightarrow> OperationResultInternal" where
  "recorded_row en c name start r = (case r of
     Inr v \<Rightarrow> (case serialize_value (en_codecs en) v None (en_serializer en) of
       Inr (out, ser) \<Rightarrow> step_result (cx_workflow_id c) (cx_function_id c) name start out (Some ser))
   | Inl e \<Rightarrow> (case serialize_exception (en_reflection en) (en_codecs en) e None (en_serializer en) of
       Inr (err, ser) \<Rightarrow> step_error_result (cx_workflow_id c) (cx_function_id c) name start err (Some ser)))"

lemma recorded_row_ids:
  "recordable en r \<Longrightarrow> or_workflow_uuid (recorded_row en c name start r) = cx_workflow_id c
    \<and> or_function_id (recorded_row en c name start r) = cx_function_id c
    \<and> or_function_name (recorded_row en c name start r) = name
    \<and> (or_error (recorded_row en c name start r) = None \<or> or_output (recorded_row en c name start r) = None)"
  by (auto simp: recordable_def recorded_row_def step_result_def step_error_result_def split: sum.splits)

lemma recorded_row_replay:
  assumes law: "codecs_law (en_codecs en) (en_serializer en)" and rec: "recordable en r"
  shows "replayed en r (step_replay en (recorded_result (operation_output_of (recorded_row en c name start r) t)))"
proof (cases r)
  case (Inr v)
  with rec obtain out ser where ser: "serialize_value (en_codecs en) v None (en_serializer en) = Inr (out, ser)"
    by (auto simp: recordable_def)
  have n: "ser = ser_name (en_serializer en)" using ser
    by (auto simp: serialize_value_def serialize_value_as_def serialization_for_type_def res_bind_Inr_iff
        split: if_splits)
  from deserialize_serialize [OF law ser [unfolded serialize_value_def]] obtain w where
    "deserialize_value (en_codecs en) (Some out) (Some ser) (en_serializer en) = Inr w"
    "if ser = ''portable_json'' then portableify v = Inr w else w = v" by blast
  with Inr n ser show ?thesis
    by (auto simp: replayed_def step_replay_def recorded_row_def recorded_result_def operation_output_of_def
        step_result_def)
next
  case (Inl e)
  with rec obtain err ser where
    ser: "serialize_exception (en_reflection en) (en_codecs en) e None (en_serializer en) = Inr (err, ser)"
    by (auto simp: recordable_def)
  have n: "ser = ser_name (en_serializer en)" using ser
    by (auto simp: serialize_exception_def Let_def res_bind_Inr_iff split: if_splits)
  show ?thesis using deserialize_serialize_exception [OF law ser] Inl n ser
    by (auto simp: replayed_def step_replay_def recorded_row_def recorded_result_def operation_output_of_def
        step_error_result_def)
qed

text \<open>What callers can see of a workflow's status and outcome; recording a step leaves it alone everywhere.\<close>

definition row_state :: "workflow_status_row \<Rightarrow> WorkflowStatusString \<times> string option \<times> string option \<times> string option" where
  "row_state r = (ws_status r, ws_serialization r, ws_output r, ws_error r)"

lemma reset_executor_row_state:
  assumes "status_row db wid = Some w"
  shows "map_option row_state (status_row (reset_executor ex wid w db) v) = map_option row_state (status_row db v)"
  using assms reset_executor_other [of v wid ex w db] reset_executor_row [OF assms, of ex]
  by (cases "v = wid") (auto simp: row_state_def split: option.splits)

text \<open>Recording an outcome that can be recorded, as the only recorder.\<close>

lemma record_step_result_records:
  assumes rec: "recordable en r" and run: "func s = (r, (db1, w1))"
    and alive: "status_row db1 (cx_workflow_id c) = Some wr"
    and none: "operation_row db1 (cx_workflow_id c) (cx_function_id c) = None"
  shows "\<exists>db'. record_step_result en c name start func s = (r, (db', w1))
    \<and> operation_row db' (cx_workflow_id c) (cx_function_id c)
      = Some (operation_output_of (recorded_row en c name start r) (en_clock en w1))
    \<and> (\<forall>v. map_option row_state (status_row db' v) = map_option row_state (status_row db1 v))
    \<and> (\<forall>wid i. (wid, i) \<noteq> (cx_workflow_id c, cx_function_id c) \<longrightarrow> operation_row db' wid i = operation_row db1 wid i)"
proof -
  let ?res = "recorded_row en c name start r" and ?t = "en_clock en w1"
  note ids = recorded_row_ids [OF rec, of c name start]
  let ?db = "(reset_executor (en_executor_id en) (or_workflow_uuid ?res) wr db1)\<lparr>operation_outputs :=
       operation_outputs db1 @ [operation_output_of ?res ?t]\<rparr>"
  have "record_operation_result_txn (en_executor_id en) ?res ?t db1 = Done () ?db"
    using ids alive none by (intro record_operation_fresh) auto
  then have ror: "record_operation_result (en_executor_id en) ?res ?t db1 = (Inr (), ?db)"
    by (simp add: record_operation_result_def)
  have "record_step_result en c name start func s = (r, (?db, w1))"
  proof (cases r)
    case (Inr v)
    with rec obtain out ser where ser: "serialize_value (en_codecs en) v None (en_serializer en) = Inr (out, ser)"
      by (auto simp: recordable_def)
    with Inr have "?res = step_result (cx_workflow_id c) (cx_function_id c) name start out (Some ser)"
      by (simp add: recorded_row_def)
    with ror Inr ser run show ?thesis
      by (simp add: record_step_result_def comp_bind_def on_db_def evaluated_def)
  next
    case (Inl e)
    with rec obtain err ser where ex: "is_Exception e"
      "serialize_exception (en_reflection en) (en_codecs en) e None (en_serializer en) = Inr (err, ser)"
      by (auto simp: recordable_def)
    with Inl have "?res = step_error_result (cx_workflow_id c) (cx_function_id c) name start err (Some ser)"
      by (simp add: recorded_row_def)
    with ror Inl ex run show ?thesis
      by (simp add: record_step_result_def comp_bind_def on_db_def evaluated_def)
  qed
  moreover have "operation_row ?db (cx_workflow_id c) (cx_function_id c) = Some (operation_output_of ?res ?t)"
    using ids none by (intro operation_row_appended) (auto simp: operation_output_of_def)
  moreover have "map_option row_state (status_row ?db v) = map_option row_state (status_row db1 v)" for v
    using ids alive by (simp add: reset_executor_row_state)
  moreover have "operation_row ?db wid i = operation_row db1 wid i"
    if "(wid, i) \<noteq> (cx_workflow_id c, cx_function_id c)" for wid i
    using that ids by (intro operation_row_appended_other) (auto simp: operation_output_of_def)
  ultimately show ?thesis by blast
qed

lemma check_existing_fresh:
  assumes "check_operation_execution_txn (cx_workflow_id c) (cx_function_id c) name db = Inr None"
  shows "check_existing_result en c name (db, w) = (Inr None, (db, w))"
  using check_operation_execution_None [OF assms]
  by (simp add: check_existing_result_def comp_bind_def on_db_def evaluated_def)

lemma check_existing_recorded:
  assumes "check_operation_execution (cx_workflow_id c) (cx_function_id c) name db = (Inr (Some rr), db)"
  shows "check_existing_result en c name (db, w)
    = (res_bind (step_replay en rr) (\<lambda>v. Inr (Some v)), (db, w))"
  using assms by (simp add: check_existing_result_def comp_bind_def on_db_def evaluated_def)

text \<open>A step call that passes the checks on its options.\<close>

definition step_valid :: "'s step_call \<Rightarrow> 's StepOptions \<Rightarrow> bool" where
  "step_valid call opts \<longleftrightarrow> (sc_is_async call \<or> (so_should_retry opts = None \<or> \<not> sc_should_retry_async call)
     \<and> \<not> so_preemptible opts) \<and> (so_retries_allowed opts \<longrightarrow> so_max_attempts opts > 0)"

lemma step_valid_outcome: "step_valid call opts \<Longrightarrow> \<exists>body. step_outcome en c call opts name = Inr body"
  by (simp add: step_valid_def step_outcome_def retry_def Let_def)

lemma invoke_step_valid:
  assumes "step_valid call opts" "step_outcome en (start_step (cx_function_id c) c) call opts name = Inr body"
  shows "invoke_step en c call opts name s =
    intercept (check_existing_result en (start_step (cx_function_id c) c) name)
      ((if sc_is_async call then pending_then else immediate_then)
         (record_step_result en (start_step (cx_function_id c) c) name (en_clock en (snd s))) body) s"
proof -
  have "\<not> (so_should_retry opts \<noteq> None \<and> sc_should_retry_async call \<and> \<not> sc_is_async call)"
    "\<not> (so_preemptible opts \<and> \<not> sc_is_async call)"
    using assms(1) by (auto simp: step_valid_def)
  then show ?thesis using assms(2) unfolding invoke_step_def Let_def by (simp only: if_False sum.case)
qed

lemma invoke_step_recorded:
  assumes "step_valid call opts"
    and "check_operation_execution (cx_workflow_id c) (cx_function_id c) name db = (Inr (Some rr), db)"
  shows "invoke_step en c call opts name (db, w) = (step_replay en rr, (db, w))"
proof -
  obtain body where body: "step_outcome en (start_step (cx_function_id c) c) call opts name = Inr body"
    using step_valid_outcome [OF assms(1)] by blast
  have chk: "check_existing_result en (start_step (cx_function_id c) c) name (db, w)
      = (res_bind (step_replay en rr) (\<lambda>v. Inr (Some v)), (db, w))"
    using assms(2) by (intro check_existing_recorded) simp
  show ?thesis using chk
    by (cases "step_replay en rr")
       (simp_all add: invoke_step_valid [OF assms(1) body] intercept_def comp_bind_def evaluated_def)
qed

lemma then_recorded:
  assumes rec: "recordable en r" and run: "body s = (r, (db1, w1))"
    and alive: "status_row db1 (cx_workflow_id c) = Some wr"
    and none: "operation_row db1 (cx_workflow_id c) (cx_function_id c) = None"
  shows "(if async then pending_then else immediate_then) (record_step_result en c name start) body s
    = record_step_result en c name start body s"
proof -
  have ev: "record_step_result en c name start (evaluated r) (db1, w1) = record_step_result en c name start body s"
    by (simp add: record_step_result_def evaluated_def run)
  obtain db' where step: "record_step_result en c name start body s = (r, (db', w1))"
    using record_step_result_records [where func = body and s = s, OF rec run alive none] by blast
  have nc: "r \<noteq> Inl CancelledError" using rec by (auto simp: recordable_def is_Exception_def CancelledError_def)
  have "pending_then (record_step_result en c name start) body s = (r, (db', w1))"
    using run ev step nc
    by (cases r) (auto simp: pending_then_def pending_wrap_def comp_bind_def evaluated_def [of "Inr _" s])
  with step show ?thesis by (simp add: immediate_then_def)
qed

lemma invoke_step_records:
  assumes law: "codecs_law (en_codecs en) (en_serializer en)" and valid: "step_valid call opts"
    and fresh: "check_operation_execution_txn (cx_workflow_id c) (cx_function_id c) name db = Inr None"
    and body: "step_outcome en (start_step (cx_function_id c) c) call opts name = Inr body"
    and run: "body (db, w) = (r, (db1, w1))" and rec: "recordable en r"
    and alive: "status_row db1 (cx_workflow_id c) = Some wr"
    and none: "operation_row db1 (cx_workflow_id c) (cx_function_id c) = None"
  shows "\<exists>db' r'. invoke_step en c call opts name (db, w) = (r, (db', w1)) \<and> replayed en r r'
    \<and> operation_row db' (cx_workflow_id c) (cx_function_id c) \<noteq> None
    \<and> (\<forall>v. map_option row_state (status_row db' v) = map_option row_state (status_row db1 v))
    \<and> (\<forall>wid i. (wid, i) \<noteq> (cx_workflow_id c, cx_function_id c) \<longrightarrow> operation_row db' wid i = operation_row db1 wid i)
    \<and> (\<forall>db'' call' opts' w''. checkpoint_stands (cx_workflow_id c) (cx_function_id c) db' db''
        \<longrightarrow> step_valid call' opts' \<longrightarrow> invoke_step en c call' opts' name (db'', w'') = (r', (db'', w'')))"
proof -
  let ?c = "start_step (cx_function_id c) c" and ?start = "en_clock en w"
  let ?row = "operation_output_of (recorded_row en ?c name ?start r) (en_clock en w1)"
  have alive': "status_row db1 (cx_workflow_id ?c) = Some wr"
    and none': "operation_row db1 (cx_workflow_id ?c) (cx_function_id ?c) = None"
    using alive none by simp_all
  from record_step_result_records [where func = body and s = "(db, w)", OF rec run alive' none', of name ?start] obtain db' where
    step: "record_step_result en ?c name ?start body (db, w) = (r, (db', w1))"
    and row: "operation_row db' (cx_workflow_id ?c) (cx_function_id ?c) = Some ?row"
    and st: "\<forall>v. map_option row_state (status_row db' v) = map_option row_state (status_row db1 v)"
    and keep: "\<forall>wid i. (wid, i) \<noteq> (cx_workflow_id ?c, cx_function_id ?c) \<longrightarrow> operation_row db' wid i = operation_row db1 wid i"
    by blast
  have chk: "check_existing_result en ?c name (db, w) = (Inr None, (db, w))"
    using fresh by (intro check_existing_fresh) simp
  have inv: "invoke_step en c call opts name (db, w) = (r, (db', w1))"
    using chk then_recorded [where body = body and s = "(db, w)", OF rec run alive' none', of "sc_is_async call" name ?start] step
    by (simp add: invoke_step_valid [OF valid body] intercept_def comp_bind_def split del: if_split)
  have "invoke_step en c call' opts' name (db'', w'') = (step_replay en (recorded_result ?row), (db'', w''))"
    if "checkpoint_stands (cx_workflow_id c) (cx_function_id c) db' db''" "step_valid call' opts'"
    for db'' call' opts' w''
  proof (rule invoke_step_recorded [OF that(2)])
    show "check_operation_execution (cx_workflow_id c) (cx_function_id c) name db''
      = (Inr (Some (recorded_result ?row)), db'')"
      by (rule checkpoint_stands_check [OF that(1)])
         (use row recorded_row_ids [OF rec, of ?c name ?start] in \<open>simp_all add: operation_output_of_def\<close>)
  qed
  moreover have "operation_row db' (cx_workflow_id c) (cx_function_id c) \<noteq> None" using row by simp
  ultimately show ?thesis
    using inv st keep recorded_row_replay [OF law rec, of ?c name ?start "en_clock en w1"]
    unfolding start_step_ids by blast
qed

text \<open>
  C5: A step's outcome is durable, errors included. When a step runs in a workflow that has no
  checkpoint for it and its function, after its retries, ends with a value or exception that can be
  serialized, that outcome is the result of the step; and from then on, in every database where the
  checkpoint stands, the step called again (with any function, options and outside world) gives the
  recorded outcome without running the function and without changing the database.
\<close>

theorem invoke_step_once:
  assumes law: "codecs_law (en_codecs en) (en_serializer en)" and valid: "step_valid call opts"
    and fresh: "check_operation_execution_txn (cx_workflow_id c) (cx_function_id c) name db = Inr None"
    and body: "step_outcome en (start_step (cx_function_id c) c) call opts name = Inr body"
    and run: "body (db, w) = (r, (db1, w1))" and rec: "recordable en r"
    and alive: "status_row db1 (cx_workflow_id c) = Some wr"
    and none: "operation_row db1 (cx_workflow_id c) (cx_function_id c) = None"
  shows "\<exists>db' r'. invoke_step en c call opts name (db, w) = (r, (db', w1)) \<and> replayed en r r'
    \<and> (\<forall>v. map_option row_state (status_row db' v) = map_option row_state (status_row db1 v))
    \<and> (\<forall>db'' call' opts' w''. checkpoint_stands (cx_workflow_id c) (cx_function_id c) db' db''
        \<longrightarrow> step_valid call' opts' \<longrightarrow> invoke_step en c call' opts' name (db'', w'') = (r', (db'', w'')))"
  using invoke_step_records [where body = body and db = db and w = w, OF law valid fresh body run rec alive none]
  by blast

text \<open>A step that always fails, retried twice; its retries error is what is recorded.\<close>

definition step_codecs :: codecs where
  "step_codecs = \<lparr>json_dumps = (\<lambda>v. Inl TypeError), json_loads = (\<lambda>s. Inl TypeError),
     pickle_dumps = (\<lambda>v. case v of PExn (DBOSMaxStepRetriesExceeded n k es) \<Rightarrow>
        if n = ''step'' \<and> k = 2 \<and> es = [AppError ''no'', AppError ''no''] then Inr ''retries'' else Inl TypeError
        | _ \<Rightarrow> Inl TypeError),
     pickle_loads = (\<lambda>s. if s = ''retries''
        then Inr (PExn (DBOSMaxStepRetriesExceeded ''step'' 2 [AppError ''no'', AppError ''no''])) else Inl TypeError)\<rparr>"

definition step_env :: "nat dbos_env" where
  "step_env = \<lparr>en_codecs = step_codecs, en_serializer = DBOSDefaultSerializer step_codecs,
     en_reflection = \<lparr>rf_type_name = (\<lambda>e. ''Exception''), rf_str = (\<lambda>v. Some []), rf_repr = (\<lambda>v. None),
       rf_getattr = (\<lambda>e a. None)\<rparr>,
     en_executor_id = None, en_app_version = ''v1'', en_clock = int, en_sleep = (\<lambda>t n. n)\<rparr>"

definition failing_call :: "nat world step_call" where
  "failing_call = \<lparr>sc_func = (\<lambda>c s. (Inl (AppError ''no''), (fst s, Suc (snd s)))), sc_is_async = False,
     sc_qualname = ''step'', sc_should_retry_async = False, sc_polls = (\<lambda>s. [])\<rparr>"

definition twice :: "nat world StepOptions" where
  "twice = normalize_step_options [OptRetriesAllowed True, OptMaxAttempts 2, OptInterval 0]"

theorem invoke_step_once_witness:
  "\<exists>db'. invoke_step step_env (example_ctx ''a'') failing_call twice ''step'' (example_db [''a''], 0)
      = (Inl (DBOSMaxStepRetriesExceeded ''step'' 2 [AppError ''no'', AppError ''no'']), (db', 2))
    \<and> (\<forall>w. invoke_step step_env (example_ctx ''a'') failing_call twice ''step'' (db', w)
        = (Inl (DBOSMaxStepRetriesExceeded ''step'' 2 [AppError ''no'', AppError ''no'']), (db', w)))"
proof -
  let ?c = "example_ctx ''a''" and ?e = "DBOSMaxStepRetriesExceeded ''step'' 2 [AppError ''no'', AppError ''no'']"
  have c: "cx_workflow_id ?c = ''a''" "cx_function_id ?c = 1"
    by (simp_all add: example_ctx_def start_workflow_def new_context_def)
  have law: "codecs_law (en_codecs step_env) (en_serializer step_env)"
    by (auto simp: codecs_law_def codec_law_def step_env_def step_codecs_def DBOSDefaultSerializer_def
        split: pyval.splits dbos_error.splits if_splits)
  have valid: "step_valid failing_call twice"
    by (simp add: step_valid_def failing_call_def twice_def normalize_step_options_def DEFAULT_STEP_OPTIONS_def)
  obtain body where body: "step_outcome step_env (start_step (cx_function_id ?c) ?c) failing_call twice ''step'' = Inr body"
    using step_valid_outcome [OF valid] by blast
  have run: "body (example_db [''a''], 0) = (Inl ?e, (example_db [''a''], 2))"
    using body
    by (auto simp: step_outcome_def twice_def normalize_step_options_def DEFAULT_STEP_OPTIONS_def failing_call_def
        retry_def retry_from.simps [where i = 0] retry_from.simps [where i = "Suc 0"]
        retry_from.simps [where i = 2] retry_from.simps [where i = "Suc (Suc 0)"] after_failure_def
        comp_bind_def evaluated_def retry_wait_def is_Exception_def CancelledError_def step_env_def Let_def)
  have rec: "recordable step_env (Inl ?e)"
    by (simp add: recordable_def is_Exception_def CancelledError_def serialize_exception_def step_env_def
        DBOSDefaultSerializer_def step_codecs_def)
  have fresh: "check_operation_execution_txn (cx_workflow_id ?c) (cx_function_id ?c) ''step'' (example_db [''a'']) = Inr None"
    by (simp add: c example_check)
  obtain wr where wr: "status_row (example_db [''a'']) (cx_workflow_id ?c) = Some wr"
    and live: "ws_status wr \<noteq> CANCELLED"
    using fresh by (auto simp: check_None_iff)
  have none: "operation_row (example_db [''a'']) (cx_workflow_id ?c) (cx_function_id ?c) = None"
    using fresh by (simp add: check_None_iff)
  from invoke_step_once [where body = body and db = "example_db [''a'']" and w = 0,
      OF law valid fresh body run rec wr none] obtain db' r' where
    db': "invoke_step step_env ?c failing_call twice ''step'' (example_db [''a''], 0) = (Inl ?e, (db', 2))"
    and r': "replayed step_env (Inl ?e) r'"
    and st: "\<forall>v. map_option row_state (status_row db' v) = map_option row_state (status_row (example_db [''a'']) v)"
    and again: "\<And>db'' call' opts' w''. checkpoint_stands (cx_workflow_id ?c) (cx_function_id ?c) db' db''
        \<Longrightarrow> step_valid call' opts' \<Longrightarrow> invoke_step step_env ?c call' opts' ''step'' (db'', w'') = (r', (db'', w''))"
    by blast
  have "r' = Inl ?e" using r' by (simp add: replayed_def step_env_def)
  moreover have "checkpoint_stands (cx_workflow_id ?c) (cx_function_id ?c) db' db'"
    using st [rule_format, of "cx_workflow_id ?c"] wr live
    by (auto simp: checkpoint_stands_def row_state_def split: option.splits)
  ultimately show ?thesis using db' again valid by blast
qed

text \<open>
  An output that cannot be serialized: a synchronous step raises and records nothing, so that a
  recovery runs it again; a coroutine step records the serialization error as the step's outcome.
\<close>

lemma unserializable_output:
  assumes valid: "step_valid call opts"
    and fresh: "check_operation_execution_txn (cx_workflow_id c) (cx_function_id c) name db = Inr None"
    and body: "step_outcome en (start_step (cx_function_id c) c) call opts name = Inr body"
    and run: "body (db, w) = (Inr v, (db1, w1))"
    and bad: "serialize_value (en_codecs en) v None (en_serializer en) = Inl e" and rec: "recordable en (Inl e)"
    and alive: "status_row db1 (cx_workflow_id c) = Some wr"
    and none: "operation_row db1 (cx_workflow_id c) (cx_function_id c) = None"
  shows "\<exists>db'. invoke_step en c call opts name (db, w) = (Inl e, (db', w1))
    \<and> (if sc_is_async call then operation_row db' (cx_workflow_id c) (cx_function_id c) \<noteq> None else db' = db1)"
proof -
  let ?c = "start_step (cx_function_id c) c" and ?start = "en_clock en w"
  have chk: "check_existing_result en ?c name (db, w) = (Inr None, (db, w))"
    using fresh by (intro check_existing_fresh) simp
  have first: "record_step_result en ?c name ?start (evaluated (Inr v)) (db1, w1) = (Inl e, (db1, w1))"
    using bad by (simp add: record_step_result_def evaluated_def)
  have second: "record_step_result en ?c name ?start body (db, w) = (Inl e, (db1, w1))"
    using bad run by (simp add: record_step_result_def)
  have "e \<noteq> CancelledError" using rec by (auto simp: recordable_def is_Exception_def CancelledError_def)
  have alive': "status_row db1 (cx_workflow_id ?c) = Some wr"
    and none': "operation_row db1 (cx_workflow_id ?c) (cx_function_id ?c) = None"
    using alive none by simp_all
  from record_step_result_records [where func = "evaluated (Inl e)" and s = "(db1, w1)",
      OF rec evaluated_def alive' none', of name ?start]
  obtain db' where db': "record_step_result en ?c name ?start (evaluated (Inl e)) (db1, w1) = (Inl e, (db', w1))"
    "operation_row db' (cx_workflow_id c) (cx_function_id c) \<noteq> None" by auto
  show ?thesis
  proof (cases "sc_is_async call")
    case True
    with chk run first db' \<open>e \<noteq> CancelledError\<close> show ?thesis
      by (simp add: invoke_step_valid [OF valid body] intercept_def comp_bind_def pending_then_def
          pending_wrap_def evaluated_def [of "Inr _" "(db, w)"])
  next
    case False
    with chk second show ?thesis
      by (simp add: invoke_step_valid [OF valid body] intercept_def comp_bind_def immediate_then_def)
  qed
qed

end
