(* ===== verification/DBOS_Start.thy ===== *)
theory DBOS_Start
  imports DBOS_Children DBOS_Steps
begin

text \<open>
  Starting workflows (\<^verbatim>\<open>dbos/_core.py\<close>, \<^verbatim>\<open>dbos/_roles.py\<close>): the required roles, the timeout and
  deadline, the status that a start builds from the context and records with \<open>init_workflow\<close>, and
  \<open>start_workflow\<close>, which reuses the child that a recovering parent started before. What runs in
  the background afterwards (the workflow's thread, the timeout task) is part of the result.
\<close>

section \<open>Registered functions\<close>

text \<open>
  What the registry knows of a workflow function (\<^verbatim>\<open>DBOSFuncInfo\<close>, \<^verbatim>\<open>DBOSClassInfo\<close>); the class and
  configuration names are computed from the first argument of a method, so they are functions of
  the arguments here.
\<close>

record wf_func =
  wf_name :: string
  wf_registered :: bool
  wf_max_recovery_attempts :: "int option"
  wf_serialization_type :: "WorkflowSerializationFormat option"
  wf_required_roles :: "string list option"
  wf_class_required_roles :: "string list option option"
  wf_class_name :: "pyval list \<Rightarrow> string option res"
  wf_config_name :: "pyval list \<Rightarrow> string option res"
  wf_self :: "pyval option"

definition check_required_roles :: "wf_func \<Rightarrow> DBOSContext option \<Rightarrow> string option res" where
  "check_required_roles fn ctx =
     (let roles0 = (case wf_class_required_roles fn of None \<Rightarrow> None | Some def_roles \<Rightarrow> def_roles);
          roles = (if wf_required_roles fn \<noteq> None then wf_required_roles fn else roles0)
      in case roles of
           None \<Rightarrow> Inr None
         | Some rs \<Rightarrow>
             if rs = [] then Inr None
             else (case ctx of
                 None \<Rightarrow> Inl (DBOSNotAuthorizedError (wf_name fn))
               | Some c \<Rightarrow> (case cx_authenticated_roles c of
                     None \<Rightarrow> Inl (DBOSNotAuthorizedError (wf_name fn))
                   | Some have \<Rightarrow> (case filter (\<lambda>r. r \<in> set have) rs of
                         r # _ \<Rightarrow> Inr (Some r)
                       | [] \<Rightarrow> Inl (DBOSNotAuthorizedError (wf_name fn))))))"

section \<open>Timeouts\<close>

text \<open>\<open>now\<close> is \<^verbatim>\<open>int(time.time() * 1000)\<close>; a timeout of 0 counts as none.\<close>

definition get_timeout_deadline :: "DBOSContext option \<Rightarrow> string option \<Rightarrow> int \<Rightarrow> int option \<times> int option" where
  "get_timeout_deadline ctx queue now = (case ctx of
     None \<Rightarrow> (None, None)
   | Some c \<Rightarrow>
       (case cx_workflow_timeout_ms c of
          Some t \<Rightarrow>
            if t \<noteq> 0 then (if queue \<noteq> None \<and> queue \<noteq> Some [] then (Some t, None) else (Some t, Some (now + t)))
            else (None, cx_workflow_deadline_epoch_ms c)
        | None \<Rightarrow> (None, cx_workflow_deadline_epoch_ms c)))"

section \<open>The status of a new workflow\<close>

record EnqueueOptionsInternal =
  eo_deduplication_id :: "string option"
  eo_priority :: "int option"
  eo_app_version :: "string option"
  eo_queue_partition_key :: "string option"
  eo_delay_until_epoch_ms :: "int option"
  eo_debounce_deadline_epoch_ms :: "int option"
  eo_is_debounced :: bool

definition enqueue_options_of :: "DBOSContext option \<Rightarrow> EnqueueOptionsInternal" where
  "enqueue_options_of ctx = (case ctx of
     None \<Rightarrow> \<lparr>eo_deduplication_id = None, eo_priority = None, eo_app_version = None,
        eo_queue_partition_key = None, eo_delay_until_epoch_ms = None,
        eo_debounce_deadline_epoch_ms = None, eo_is_debounced = False\<rparr>
   | Some c \<Rightarrow> \<lparr>eo_deduplication_id = cx_deduplication_id c, eo_priority = cx_priority c,
        eo_app_version = cx_app_version c, eo_queue_partition_key = cx_queue_partition_key c,
        eo_delay_until_epoch_ms = cx_delay_until_epoch_ms c,
        eo_debounce_deadline_epoch_ms = cx_debounce_deadline_epoch_ms c,
        eo_is_debounced = cx_is_debounced c\<rparr>)"

text \<open>The arguments of \<^verbatim>\<open>_init_workflow\<close> apart from the context.\<close>

record init_request =
  ir_args :: "pyval list"
  ir_kwargs :: pyval
  ir_name :: string
  ir_class_name :: "string option"
  ir_config_name :: "string option"
  ir_queue :: "string option"
  ir_timeout_ms :: "int option"
  ir_deadline_epoch_ms :: "int option"
  ir_max_recovery_attempts :: "int option"
  ir_enqueue_options :: "EnqueueOptionsInternal option"
  ir_is_recovery :: bool
  ir_is_dequeued :: bool
  ir_serialization_type :: "WorkflowSerializationFormat option"
  ir_child_workflow_id :: "string option"

definition init_workflow_id :: "init_request \<Rightarrow> DBOSContext \<Rightarrow> string" where
  "init_workflow_id rq c =
     (if ir_child_workflow_id rq \<noteq> None \<and> ir_child_workflow_id rq \<noteq> Some [] then the (ir_child_workflow_id rq)
      else if length (cx_workflow_id c) > 0 then cx_workflow_id c
      else cx_id_assigned_for_next_workflow c)"

definition init_serialization_type :: "init_request \<Rightarrow> DBOSContext \<Rightarrow> WorkflowSerializationFormat option" where
  "init_serialization_type rq c =
     (if ir_serialization_type rq = None \<or> ir_serialization_type rq = Some DEFAULT
      then Some (cx_serialization_type c) else ir_serialization_type rq)"

definition init_args :: "init_request \<Rightarrow> pyval list" where
  "init_args rq = (if ir_class_name rq \<noteq> None \<and> ir_class_name rq \<noteq> Some [] then drop 1 (ir_args rq) else ir_args rq)"

definition init_status ::
  "'w dbos_env \<Rightarrow> init_request \<Rightarrow> DBOSContext \<Rightarrow> string option \<Rightarrow> string \<Rightarrow> string \<Rightarrow> WorkflowStatusInternal" where
  "init_status en rq c roles serargs serialization =
     (let eo = ir_enqueue_options rq in \<lparr>
     wi_workflow_uuid = init_workflow_id rq c,
     wi_status = (if ir_queue rq = None then PENDING
        else if eo \<noteq> None \<and> eo_delay_until_epoch_ms (the eo) \<noteq> None then DELAYED else ENQUEUED),
     wi_name = ir_name rq, wi_class_name = ir_class_name rq, wi_config_name = ir_config_name rq,
     wi_authenticated_user = cx_authenticated_user c, wi_assumed_role = cx_assumed_role c,
     wi_authenticated_roles = roles, wi_output = None, wi_error = None,
     wi_created_at = None, wi_updated_at = None, wi_queue_name = ir_queue rq,
     wi_executor_id = Some (cx_executor_id c),
     wi_app_version = (if eo \<noteq> None \<and> eo_app_version (the eo) \<noteq> None then eo_app_version (the eo)
        else Some (en_app_version en)),
     wi_app_id = Some (cx_app_id c), wi_recovery_attempts = None,
     wi_workflow_timeout_ms = ir_timeout_ms rq, wi_workflow_deadline_epoch_ms = ir_deadline_epoch_ms rq,
     wi_deduplication_id = (case eo of None \<Rightarrow> None | Some x \<Rightarrow> eo_deduplication_id x),
     wi_priority = (case eo of None \<Rightarrow> 0 | Some x \<Rightarrow> (case eo_priority x of None \<Rightarrow> 0 | Some p \<Rightarrow> p)),
     wi_inputs = Some serargs,
     wi_queue_partition_key = (case eo of None \<Rightarrow> None | Some x \<Rightarrow> eo_queue_partition_key x),
     wi_forked_from = None,
     wi_parent_workflow_id = (if length (cx_parent_workflow_id c) > 0 then Some (cx_parent_workflow_id c) else None),
     wi_started_at_epoch_ms = None, wi_serialization = Some serialization, wi_owner_xid = None,
     wi_delay_until_epoch_ms = (case eo of None \<Rightarrow> None | Some x \<Rightarrow> eo_delay_until_epoch_ms x),
     wi_attributes = cx_workflow_attributes c, wi_schedule_name = None,
     wi_debounce_deadline_epoch_ms = (case eo of None \<Rightarrow> None | Some x \<Rightarrow> eo_debounce_deadline_epoch_ms x),
     wi_is_debounced = (case eo of None \<Rightarrow> False | Some x \<Rightarrow> eo_is_debounced x)\<rparr>)"

text \<open>A started workflow: its status, whether to execute it, the changed context, the timeout task.\<close>

record started =
  sd_status :: WorkflowStatusInternal
  sd_should_execute :: bool
  sd_ctx :: DBOSContext
  sd_timer :: "(string \<times> int) option"

text \<open>
  \<open>xid\<close> is the fresh UUID of this request. A refused deduplication is recorded as the outcome of the
  child start in the parent. Outside \<open>init_workflow\<close> the status keeps its own serialization; the one
  of an existing workflow is stored back by it.
\<close>

definition init_workflow_core ::
  "'w dbos_env \<Rightarrow> string \<Rightarrow> init_request \<Rightarrow> DBOSContext \<Rightarrow> (started, 'w world) comp" where
  "init_workflow_core en xid rq c s =
     (let wid = init_workflow_id rq c in
      if wid = [] then (Inl (DBOSException ''Attempted to initialize a workflow with an empty workflow ID''), s)
      else
        case serialize_args (en_codecs en) (init_args rq) (ir_kwargs rq) (init_serialization_type rq c)
               (en_serializer en) of
          Inl e \<Rightarrow> (Inl e, s)
        | Inr (serargs, serialization) \<Rightarrow>
          (case (case cx_authenticated_roles c of
                   Some (r # rs) \<Rightarrow> res_bind (json_dumps (en_codecs en) (PList (map PStr (r # rs)))) (\<lambda>t. Inr (Some t))
                 | _ \<Rightarrow> Inr None) of
             Inl e \<Rightarrow> (Inl e, s)
           | Inr roles \<Rightarrow>
             let status = init_status en rq c roles serargs serialization;
                 c1 = c\<lparr>cx_workflow_attributes := None\<rparr>
             in (case on_db (init_workflow status (ir_max_recovery_attempts rq) (Some xid) (ir_is_recovery rq)
                    (ir_is_dequeued rq) (en_clock en (snd s))) s of
                   (Inl e, s1) \<Rightarrow>
                     (case e of
                        DBOSQueueDeduplicatedError _ _ _ \<Rightarrow>
                          (case serialize_exception (en_reflection en) (en_codecs en) e (Some serialization)
                                 (en_serializer en) of
                             Inl e' \<Rightarrow> (Inl e', s1)
                           | Inr (sererr, ser) \<Rightarrow>
                               if has_parent c
                               then comp_bind (on_db (record_operation_result (en_executor_id en)
                                   (step_error_result (cx_parent_workflow_id c) (cx_parent_workflow_fid c)
                                      (ir_name rq) (en_clock en (snd s1)) sererr (Some ser))
                                   (en_clock en (snd s1)))) (\<lambda>_. evaluated (Inl e)) s1
                               else (Inl e, s1))
                      | _ \<Rightarrow> (Inl e, s1))
                 | (Inr (wf_status, deadline, should_execute, ser), s1) \<Rightarrow>
                     (Inr \<lparr>sd_status = status\<lparr>wi_serialization := ser, wi_workflow_deadline_epoch_ms := deadline,
                              wi_status := wf_status\<rparr>,
                           sd_should_execute = should_execute,
                           sd_ctx = c1\<lparr>cx_workflow_deadline_epoch_ms := deadline\<rparr>,
                           sd_timer = (if should_execute then map_option (\<lambda>d. (wid, d)) deadline else None)\<rparr>,
                      s1))))"

section \<open>Starting a workflow\<close>

datatype wf_handle = HandlePolling string | HandleFuture string

text \<open>
  What a recovering parent recorded of a child start: an error, which is raised again, or the child's
  ID. \<open>None\<close>: nothing was recorded.
\<close>

definition recorded_child :: "'w dbos_env \<Rightarrow> RecordedResult option \<Rightarrow> string option res" where
  "recorded_child en recorded = (case recorded of
     None \<Rightarrow> Inr None
   | Some rr \<Rightarrow>
       if rr_error rr \<noteq> None \<and> rr_error rr \<noteq> Some []
       then res_bind (deserialize_exception (en_codecs en) (the (rr_error rr)) (rr_serialization rr)
              (en_serializer en)) Inl
       else if rr_child_workflow_id rr \<noteq> None \<and> rr_child_workflow_id rr \<noteq> Some []
       then Inr (rr_child_workflow_id rr) else Inr None)"

definition check_child :: "'w dbos_env \<Rightarrow> DBOSContext \<Rightarrow> string \<Rightarrow> (string option, 'w world) comp" where
  "check_child en child name =
     (if has_parent child
      then comp_bind (on_db (check_operation_execution (cx_parent_workflow_id child) (cx_parent_workflow_fid child) name))
             (\<lambda>recorded. evaluated (recorded_child en recorded))
      else evaluated (Inr None))"

text \<open>Initialize the workflow and record it in its parent; then execute it, unless it is somebody else's.\<close>

definition start_new ::
  "'w dbos_env \<Rightarrow> string \<Rightarrow> wf_func \<Rightarrow> init_request \<Rightarrow> bool \<Rightarrow> DBOSContext \<Rightarrow> (wf_handle \<times> started option, 'w world) comp" where
  "start_new en xid fn rq execute child =
     (let wid = cx_id_assigned_for_next_workflow child;
          sertype = (case wf_serialization_type fn of None \<Rightarrow> DEFAULT | Some t \<Rightarrow> t)
      in comp_bind (init_workflow_core en xid rq child) (\<lambda>sd0.
         let sd = sd0\<lparr>sd_ctx := (sd_ctx sd0)\<lparr>cx_serialization_type :=
               (if wi_serialization (sd_status sd0) = Some ''portable_json'' then PORTABLE else sertype)\<rparr>\<rparr>
         in comp_bind
              (if has_parent child
               then on_db (record_child_workflow (cx_parent_workflow_id child) wid
                      (cx_parent_workflow_fid child) (wf_name fn))
               else evaluated (Inr ()))
              (\<lambda>_. evaluated (Inr
                 (if \<not> execute \<or> \<not> sd_should_execute sd \<or> wi_status (sd_status sd) = ERROR
                     \<or> wi_status (sd_status sd) = SUCCESS
                  then (HandlePolling wid, None) else (HandleFuture wid, Some sd))))))"

text \<open>
  The handle, what runs in the background (the started workflow, to be executed in its context), and
  the caller's context. \<open>uuid\<close> is the ID generated for a workflow that has no assigned one.
\<close>

definition start_workflow_core ::
  "'w dbos_env \<Rightarrow> string \<Rightarrow> string \<Rightarrow> DBOSContext \<Rightarrow> wf_func \<Rightarrow> pyval list \<Rightarrow> pyval \<Rightarrow> string option \<Rightarrow> bool \<Rightarrow> bool \<Rightarrow> bool
   \<Rightarrow> DBOSContext option \<Rightarrow> 'w world \<Rightarrow> ((wf_handle \<times> started option) res \<times> 'w world) \<times> DBOSContext option" where
  "start_workflow_core en uuid xid blank fn args0 kwargs queue_name execute is_recovery is_dequeued cur s =
     (let args = (case wf_self fn of None \<Rightarrow> args0 | Some o1 \<Rightarrow> o1 # args0) in
      if \<not> wf_registered fn then ((Inl (DBOSWorkflowFunctionNotFoundError ''<NONE>'' (wf_name fn)), s), cur)
      else
        case create_start_workflow_child uuid blank cur of
          Inl e \<Rightarrow> ((Inl e, s), cur)
        | Inr (child, cur') \<Rightarrow>
            (comp_bind (check_child en child (wf_name fn)) (\<lambda>recorded. case recorded of
                Some w \<Rightarrow> evaluated (Inr (HandlePolling w, None))
              | None \<Rightarrow>
                  (case (wf_class_name fn args, wf_config_name fn args) of
                     (Inl e, _) \<Rightarrow> evaluated (Inl e)
                   | (Inr _, Inl e) \<Rightarrow> evaluated (Inl e)
                   | (Inr cname, Inr cfg) \<Rightarrow>
                       start_new en xid fn \<lparr>ir_args = args, ir_kwargs = kwargs, ir_name = wf_name fn,
                           ir_class_name = cname, ir_config_name = cfg, ir_queue = queue_name,
                           ir_timeout_ms = (case cur of None \<Rightarrow> None | Some c \<Rightarrow> cx_workflow_timeout_ms c),
                           ir_deadline_epoch_ms = snd (get_timeout_deadline cur queue_name (en_clock en (snd s))),
                           ir_max_recovery_attempts = wf_max_recovery_attempts fn,
                           ir_enqueue_options = Some (enqueue_options_of cur),
                           ir_is_recovery = is_recovery, ir_is_dequeued = is_dequeued,
                           ir_serialization_type = Some (case wf_serialization_type fn of None \<Rightarrow> DEFAULT | Some t \<Rightarrow> t),
                           ir_child_workflow_id = Some (cx_id_assigned_for_next_workflow child)\<rparr> execute child))
               s, cur'))"

text \<open>The timeout task: when the deadline has passed, the workflow is cancelled.\<close>

definition timeout_func :: "(nat \<Rightarrow> int) \<Rightarrow> string \<times> int \<Rightarrow> sysdb \<Rightarrow> sysdb" where
  "timeout_func clock timer db = (if clock 0 \<ge> snd timer then cancel_workflows clock [fst timer] False db else db)"

section \<open>Properties\<close>

lemma update_status_ops [simp]: "operation_outputs (update_workflow_status P f db) = operation_outputs db"
  by (simp add: update_workflow_status_def)

lemma insert_status_ops: "insert_status_row r db = Inr db' \<Longrightarrow> operation_outputs db' = operation_outputs db"
  by (auto simp: insert_status_row_def split: if_splits)

text \<open>Starting a workflow leaves every checkpoint as it is.\<close>

lemma init_workflow_ops:
  "init_workflow st m xid rec deq now db = (r, db') \<Longrightarrow> operation_outputs db' = operation_outputs db"
  by (auto simp: init_workflow_def engine_begin_def insert_workflow_status_def upsert_status_row_def insert_status_ops
      split: txn_result.splits sum.splits option.splits if_splits)

lemma init_workflow_core_ops:
  assumes "init_workflow_core en xid rq c (db, w) = (Inr sd, (db', w'))"
  shows "operation_outputs db' = operation_outputs db"
proof -
  from assms obtain st m rec deq now x where
    "on_db (init_workflow st m (Some xid) rec deq now) (db, w) = (Inr x, (db', w'))"
    by (auto simp: init_workflow_core_def Let_def comp_bind_def evaluated_def
        split: if_splits sum.splits prod.splits dbos_error.splits)
  then have "init_workflow st m (Some xid) rec deq now db = (Inr x, db')"
    by (auto simp: on_db_def split: prod.splits)
  then show ?thesis by (rule init_workflow_ops)
qed

lemma record_child_fresh_or_same:
  assumes run: "record_child_workflow parent child fid name db = (Inr (), db')"
  shows "child \<noteq> [] \<and> (operation_row db parent fid = None \<and> operation_row db' parent fid = Some (child_row parent child fid name)
    \<or> (\<exists>r. operation_row db parent fid = Some r \<and> oo_child_workflow_id r = Some child))"
proof (cases "operation_row db parent fid")
  case None
  then have db': "db' = db\<lparr>operation_outputs := operation_outputs db @ [child_row parent child fid name]\<rparr>"
    using run by (auto simp: record_child_workflow_def insert_operation_output_def insert_child_def split: if_splits)
  have "operation_row db' parent fid = Some (child_row parent child fid name)"
    unfolding db' using None by (rule operation_row_appended) (simp add: child_row_def)
  then show ?thesis using None run by (auto simp: record_child_workflow_def)
next
  case (Some r)
  then have "oo_pk (child_row parent child fid name) \<in> oo_pk ` set (operation_outputs db)"
    by (force dest: operation_row_SomeD simp: child_row_def)
  with Some run show ?thesis
    by (auto simp: record_child_workflow_def insert_operation_output_def insert_child_def split: if_splits)
qed

lemma record_child_fresh:
  assumes "operation_row db parent fid = None" "status_row db parent = Some wr" "child \<noteq> []"
  shows "record_child_workflow parent child fid name db
    = (Inr (), db\<lparr>operation_outputs := operation_outputs db @ [child_row parent child fid name]\<rparr>)"
proof -
  have "parent \<in> set (workflow_ids db)" using assms(2) by (metis option.distinct(1) status_row_None_iff)
  with assms show ?thesis
    by (simp add: record_child_workflow_def insert_operation_output_def insert_child_def child_row_def
        operation_row_None_iff)
qed

lemma create_child_parent:
  assumes "is_workflow c" "create_start_workflow_child uuid blank (Some c) = Inr (child, cur')"
  shows "cx_parent_workflow_id child = cx_workflow_id c" "cx_parent_workflow_fid child = cx_function_id c + 1"
    "has_parent child"
  using assms
  by (auto simp: create_start_workflow_child_def create_child_def is_workflow_def is_within_workflow_def has_parent_def
      Let_def split: if_splits)

lemma create_child_exists:
  "is_workflow c \<Longrightarrow> \<exists>child cur'. create_start_workflow_child uuid blank (Some c) = Inr (child, Some cur')
    \<and> cx_function_id cur' = cx_function_id c + 1"
  by (auto simp: create_start_workflow_child_def create_child_def is_workflow_def is_within_workflow_def Let_def)

text \<open>A parent whose checkpoint names a child gets a handle on that child, and starts nothing.\<close>

lemma start_recorded_child:
  assumes c: "is_workflow c" and reg: "wf_registered fn"
    and row: "operation_row db (cx_workflow_id c) (cx_function_id c + 1) = Some r"
    and live: "status_row db (cx_workflow_id c) = Some wr" "ws_status wr \<noteq> CANCELLED"
    and r: "oo_function_name r = wf_name fn" "oo_error r = None \<or> oo_error r = Some []"
      "oo_child_workflow_id r = Some child" "child \<noteq> []"
  shows "\<exists>cur'. start_workflow_core en uuid xid blank fn args kwargs q ex rec deq (Some c) (db, w)
      = ((Inr (HandlePolling child, None), (db, w)), Some cur') \<and> cx_function_id cur' = cx_function_id c + 1"
proof -
  from create_child_exists [OF c, of uuid blank] obtain ch cur' where
    ch: "create_start_workflow_child uuid blank (Some c) = Inr (ch, Some cur')"
    and cur': "cx_function_id cur' = cx_function_id c + 1" by blast
  note p = create_child_parent [OF c ch]
  have "check_operation_execution_txn (cx_workflow_id c) (cx_function_id c + 1) (wf_name fn) db
    = Inr (Some (recorded_result r))"
    using row live r by (auto simp: check_Some_iff)
  then have "check_operation_execution (cx_workflow_id c) (cx_function_id c + 1) (wf_name fn) db
    = (Inr (Some (recorded_result r)), db)"
    by (simp add: check_operation_execution_def engine_begin_def lift_res_def)
  then have "check_child en ch (wf_name fn) (db, w) = (Inr (Some child), (db, w))"
    using p r by (auto simp: check_child_def comp_bind_def on_db_def evaluated_def recorded_child_def recorded_result_def)
  then show ?thesis using reg ch cur' by (simp add: start_workflow_core_def Let_def comp_bind_def evaluated_def)
qed

text \<open>What a successful start leaves in the parent: a checkpoint naming the child of the handle.\<close>

definition handle_id :: "wf_handle \<Rightarrow> string" where
  "handle_id h = (case h of HandlePolling w \<Rightarrow> w | HandleFuture w \<Rightarrow> w)"

lemma start_new_records:
  assumes run: "start_new en xid fn rq ex child (db, w) = (Inr (h, bg), (db', w'))"
    and p: "has_parent child"
    and old: "\<And>r. operation_row db (cx_parent_workflow_id child) (cx_parent_workflow_fid child) = Some r \<Longrightarrow>
      oo_child_workflow_id r = None \<or> oo_child_workflow_id r = Some []"
  shows "operation_row db' (cx_parent_workflow_id child) (cx_parent_workflow_fid child)
      = Some (child_row (cx_parent_workflow_id child) (handle_id h) (cx_parent_workflow_fid child) (wf_name fn))
    \<and> handle_id h = cx_id_assigned_for_next_workflow child \<and> handle_id h \<noteq> []"
proof -
  let ?wid = "cx_id_assigned_for_next_workflow child"
  let ?par = "cx_parent_workflow_id child" and ?fid = "cx_parent_workflow_fid child"
  obtain r0 s1 where i: "init_workflow_core en xid rq child (db, w) = (r0, s1)" by (cases "init_workflow_core en xid rq child (db, w)")
  obtain sd where sd: "r0 = Inr sd" using run i by (cases r0) (auto simp: start_new_def Let_def comp_bind_def)
  obtain db1 w1 where s1: "s1 = (db1, w1)" by (cases s1)
  have ops: "operation_outputs db1 = operation_outputs db"
    using init_workflow_core_ops [of en xid rq child db w sd db1 w1] i sd s1 by simp
  then have old': "\<And>r. operation_row db1 ?par ?fid = Some r \<Longrightarrow>
      oo_child_workflow_id r = None \<or> oo_child_workflow_id r = Some []"
    using old operation_row_cong [of db1 db] by simp
  obtain r2 db2 where rc: "record_child_workflow ?par ?wid ?fid (wf_name fn) db1 = (r2, db2)"
    by (cases "record_child_workflow ?par ?wid ?fid (wf_name fn) db1")
  have "r2 = Inr ()" and db2: "db2 = db'" and h: "handle_id h = ?wid"
    using run i sd s1 rc p
    by (auto simp: start_new_def Let_def comp_bind_def on_db_def evaluated_def handle_id_def
        split: sum.splits if_splits)
  with rc have "record_child_workflow ?par ?wid ?fid (wf_name fn) db1 = (Inr (), db')" by simp
  from record_child_fresh_or_same [OF this] old' h show ?thesis by force
qed

text \<open>
  C9: A child workflow is started once per point of its parent. When a start from a workflow
  returned a handle, the parent's checkpoint names that child; every later start at the same point
  (a recovering parent replays its code, with whatever arguments, IDs and options) in a database
  where the checkpoint stands returns a handle on the same child, starts nothing in the background
  and changes nothing.
\<close>

theorem child_started_once:
  assumes c: "is_workflow c"
    and run: "start_workflow_core en uuid xid blank fn args kwargs q ex rec deq (Some c) (db, w)
      = ((Inr (h, bg), (db', w')), cur)"
    and stands: "checkpoint_stands (cx_workflow_id c) (cx_function_id c + 1) db' db''"
    and fn': "wf_registered fn'" "wf_name fn' = wf_name fn"
  shows "\<exists>cur'. start_workflow_core en uuid' xid' blank' fn' args' kwargs' q' ex' rec' deq' (Some c) (db'', w'')
      = ((Inr (HandlePolling (handle_id h), None), (db'', w'')), Some cur')
    \<and> cx_function_id cur' = cx_function_id c + 1"
proof -
  from create_child_exists [OF c, of uuid blank] obtain ch cur0 where
    ch: "create_start_workflow_child uuid blank (Some c) = Inr (ch, Some cur0)" by blast
  note p = create_child_parent [OF c ch]
  let ?wid = "cx_workflow_id c" and ?fid = "cx_function_id c + 1"
  obtain r0 s0 where ck: "check_child en ch (wf_name fn) (db, w) = (r0, s0)"
    by (cases "check_child en ch (wf_name fn) (db, w)")
  have s0: "s0 = (db, w)"
    using ck p by (auto simp: check_child_def comp_bind_def on_db_def evaluated_def check_operation_execution_def
        engine_begin_def lift_res_def split: sum.splits prod.splits)
  obtain rec0 where r0: "r0 = Inr rec0"
    using run ch ck by (cases r0) (auto simp: start_workflow_core_def Let_def comp_bind_def split: if_splits)
  from ck r0 s0 p obtain rr where chk: "check_operation_execution_txn ?wid ?fid (wf_name fn) db = Inr rr"
    and rc: "recorded_child en rr = Inr rec0"
    by (auto simp: check_child_def comp_bind_def on_db_def evaluated_def check_operation_execution_def
        engine_begin_def lift_res_def split: sum.splits)
  from stands obtain wr where live: "status_row db'' ?wid = Some wr" "ws_status wr \<noteq> CANCELLED"
    by (auto simp: checkpoint_stands_def split: option.splits)
  have "\<exists>r. operation_row db' ?wid ?fid = Some r \<and> oo_function_name r = wf_name fn
      \<and> (oo_error r = None \<or> oo_error r = Some []) \<and> oo_child_workflow_id r = Some (handle_id h) \<and> handle_id h \<noteq> []"
  proof (cases rec0)
    case (Some child)
    with run ch ck r0 s0 have "h = HandlePolling child" "db' = db"
      by (auto simp: start_workflow_core_def Let_def comp_bind_def evaluated_def split: if_splits)
    moreover from Some rc chk obtain r where "operation_row db ?wid ?fid = Some r" "oo_function_name r = wf_name fn"
      "rr = Some (recorded_result r)"
      by (cases rr) (auto simp: recorded_child_def check_Some_iff)
    ultimately show ?thesis using Some rc
      by (auto simp: recorded_child_def recorded_result_def handle_id_def res_bind_def split: if_splits sum.splits)
  next
    case None
    then obtain rq where new: "start_new en xid fn rq ex ch (db, w) = (Inr (h, bg), (db', w'))"
      using run ch ck r0 s0
      by (auto simp: start_workflow_core_def Let_def comp_bind_def evaluated_def split: if_splits sum.splits)
    have old: "oo_child_workflow_id r = None \<or> oo_child_workflow_id r = Some []"
      if "operation_row db ?wid ?fid = Some r" for r
      using that chk rc None
      by (auto simp: recorded_child_def check_operation_execution_txn_def recorded_result_def res_bind_def
          split: option.splits if_splits sum.splits)
    show ?thesis
      using start_new_records [OF new p(3)] old p by (auto simp: child_row_def)
  qed
  then obtain r where r: "operation_row db' ?wid ?fid = Some r" "oo_function_name r = wf_name fn'"
    "oo_error r = None \<or> oo_error r = Some []" "oo_child_workflow_id r = Some (handle_id h)" "handle_id h \<noteq> []"
    using fn'(2) by auto
  have "operation_row db'' ?wid ?fid = Some r" using stands r(1) by (simp add: checkpoint_stands_def)
  from start_recorded_child [OF c fn'(1) this live r(2-5)] show ?thesis .
qed

text \<open>A parent that starts a child, twice.\<close>

definition start_codecs :: codecs where
  "start_codecs = example_codecs\<lparr>
     pickle_dumps := (\<lambda>v. if v = WorkflowInputs [] (PDict []) then Inr ''in'' else Inl TypeError),
     pickle_loads := (\<lambda>t. if t = ''in'' then Inr (WorkflowInputs [] (PDict [])) else Inl TypeError)\<rparr>"

definition start_env :: "nat dbos_env" where
  "start_env = step_env\<lparr>en_codecs := start_codecs, en_serializer := DBOSDefaultSerializer start_codecs\<rparr>"

definition example_fn :: wf_func where
  "example_fn = \<lparr>wf_name = ''child'', wf_registered = True, wf_max_recovery_attempts = None,
     wf_serialization_type = None, wf_required_roles = None, wf_class_required_roles = None,
     wf_class_name = (\<lambda>_. Inr None), wf_config_name = (\<lambda>_. Inr None), wf_self = None\<rparr>"

theorem child_started_once_witness:
  "\<exists>bg db' cur'. start_workflow_core start_env ''u'' ''x'' (new_context ''local'' ''app'') example_fn [] (PDict []) None
        True False False (Some (example_ctx ''a'')) (example_db [''a''], 5) = ((Inr (HandleFuture ''a-2'', bg), (db', 5)), cur')
    \<and> (\<exists>cur''. start_workflow_core start_env ''u2'' ''x2'' (new_context ''local'' ''app'') example_fn [] (PDict []) None
        True False False (Some (example_ctx ''a'')) (db', 9) = ((Inr (HandlePolling ''a-2'', None), (db', 9)), Some cur''))"
proof -
  let ?c = "example_ctx ''a''" and ?blank = "new_context ''local'' ''app''"
  have c: "is_workflow ?c" "cx_workflow_id ?c = ''a''" "cx_function_id ?c = 1"
    by (simp_all add: example_ctx_def start_workflow_def new_context_def is_workflow_def is_step_def is_transaction_def)
  have t: "cx_workflow_timeout_ms ?c = None" "cx_workflow_deadline_epoch_ms ?c = None"
    by (simp_all add: example_ctx_def start_workflow_def new_context_def)
  have two: "char_of (50::nat) = CHR ''2''" by code_simp
  let ?db = "example_db [''a'']"
  obtain ch cur' where create: "create_start_workflow_child ''u'' ?blank (Some ?c) = Inr (ch, cur')"
    and ch: "cx_id_assigned_for_next_workflow ch = ''a-2''" "cx_workflow_id ch = []" "cx_authenticated_roles ch = None"
      "cx_serialization_type ch = DEFAULT"
    by (simp add: example_ctx_def start_workflow_def new_context_def create_start_workflow_child_def create_child_def
        is_within_workflow_def is_workflow_def is_step_def is_transaction_def assign_workflow_id_def str_int_def
        nat_digits_small two)
  note p = create_child_parent [OF c(1) create]
  have none: "check_operation_execution_txn ''a'' 2 ''child'' ?db = Inr None" by (rule example_check)
  have ck: "check_child start_env ch ''child'' (?db, 5) = (Inr None, (?db, 5))"
    using check_operation_execution_None [OF none] p c
    by (simp add: check_child_def comp_bind_def on_db_def evaluated_def recorded_child_def)
  let ?rq = "\<lparr>ir_args = [], ir_kwargs = PDict [], ir_name = ''child'', ir_class_name = None, ir_config_name = None,
     ir_queue = None, ir_timeout_ms = None, ir_deadline_epoch_ms = None, ir_max_recovery_attempts = None,
     ir_enqueue_options = Some (enqueue_options_of (Some ?c)), ir_is_recovery = False, ir_is_dequeued = False,
     ir_serialization_type = Some DEFAULT, ir_child_workflow_id = Some ''a-2''\<rparr>"
  let ?st = "init_status start_env ?rq ch None ''in'' ''py_pickle''"
  have uuid: "wi_workflow_uuid ?st = ''a-2''" by (simp add: init_status_def init_workflow_id_def)
  let ?db1 = "?db\<lparr>workflow_status := workflow_status ?db @ [new_status_row ?st (Some ''x'') 5]\<rparr>"
  have init: "init_workflow ?st None (Some ''x'') False False 5 ?db
      = (Inr (wi_status ?st, wi_workflow_deadline_epoch_ms ?st, True, wi_serialization ?st), ?db1)"
    by (rule init_workflow_insert)
       (simp_all add: uuid workflow_ids_def example_db_def new_status_row_def example_status_def dedup_key_def)
  have ser: "serialize_args (en_codecs start_env) [] (PDict []) (Some DEFAULT) (en_serializer start_env)
      = Inr (''in'', ''py_pickle'')"
    by (simp add: serialize_args_def serialization_for_type_def start_env_def Let_def)
       (simp add: DBOSDefaultSerializer_def start_codecs_def)
  have env: "en_clock start_env = int" by (simp add: start_env_def step_env_def)
  have deadline: "wi_workflow_deadline_epoch_ms ?st = None" by (simp add: init_status_def Let_def)
  have core: "init_workflow_core start_env ''x'' ?rq ch (?db, 5) = (Inr \<lparr>sd_status = ?st, sd_should_execute = True,
      sd_ctx = ch\<lparr>cx_workflow_attributes := None, cx_workflow_deadline_epoch_ms := None\<rparr>, sd_timer = None\<rparr>, (?db1, 5))"
    using init ser ch deadline
    by (simp add: init_workflow_core_def Let_def init_workflow_id_def init_args_def init_serialization_type_def on_db_def env)
  have none1: "operation_row ?db1 ''a'' 2 = None"
    by (simp add: operation_row_def example_db_def empty_sysdb_def)
  have row1: "status_row ?db1 ''a'' = status_row ?db ''a''"
    using example_row by (simp add: status_row_append)
  let ?db' = "?db1\<lparr>operation_outputs := operation_outputs ?db1 @ [child_row ''a'' ''a-2'' 2 ''child'']\<rparr>"
  have rc: "record_child_workflow ''a'' ''a-2'' 2 ''child'' ?db1 = (Inr (), ?db')"
    using row1 example_row by (intro record_child_fresh [OF none1]) auto
  obtain db' where db': "db' = ?db'" by blast
  have st: "status_row db' ''a'' = status_row ?db ''a''" unfolding db' status_row_frame by (rule row1)
  have "\<exists>bg. start_new start_env ''x'' example_fn ?rq True ch (?db, 5) = (Inr (HandleFuture ''a-2'', bg), (db', 5))"
    using core rc [folded db'] p c ch
    by (simp add: start_new_def Let_def comp_bind_def on_db_def evaluated_def example_fn_def init_status_def)
  then obtain bg where run: "start_workflow_core start_env ''u'' ''x'' ?blank example_fn [] (PDict []) None
        True False False (Some ?c) (?db, 5) = ((Inr (HandleFuture ''a-2'', bg), (db', 5)), cur')"
    using create ck
    by (auto simp: start_workflow_core_def example_fn_def Let_def comp_bind_def get_timeout_deadline_def ch t)
  have "checkpoint_stands (cx_workflow_id ?c) (cx_function_id ?c + 1) db' db'"
    using st example_row by (simp add: checkpoint_stands_def c)
      (simp add: new_status_row_def example_status_def)
  from child_started_once [OF c(1) run this, of example_fn "''u2''" "''x2''" ?blank "[]" "PDict []" None True False False 9]
  have "\<exists>cur''. start_workflow_core start_env ''u2'' ''x2'' ?blank example_fn [] (PDict []) None True False False
      (Some ?c) (db', 9) = ((Inr (HandlePolling ''a-2'', None), (db', 9)), Some cur'')"
    by (auto simp: example_fn_def handle_id_def)
  with run show ?thesis by blast
qed

end
