(* ===== verification/DBOS_Step_Inv.thy ===== *)
theory DBOS_Step_Inv
  imports DBOS_Steps
begin

text \<open>
  Computations and the schema invariant: the wrappers around a step keep the constraints of the
  system database if the user's function and validator do.
\<close>

section \<open>The schema invariant\<close>

text \<open>A computation that keeps the constraints of the system database.\<close>

definition comp_inv :: "('a, 'w world) comp \<Rightarrow> bool" where
  "comp_inv f \<longleftrightarrow> (\<forall>s. sysdb_inv (fst s) \<longrightarrow> sysdb_inv (fst (snd (f s))))"

lemma comp_invI: "(\<And>s. sysdb_inv (fst s) \<Longrightarrow> sysdb_inv (fst (snd (f s)))) \<Longrightarrow> comp_inv f"
  by (simp add: comp_inv_def)

lemma comp_invD: "comp_inv f \<Longrightarrow> f s = (r, s') \<Longrightarrow> sysdb_inv (fst s) \<Longrightarrow> sysdb_inv (fst s')"
  by (metis comp_inv_def snd_conv)

lemma comp_inv_apply: "comp_inv f \<Longrightarrow> sysdb_inv (fst s) \<Longrightarrow> sysdb_inv (fst (snd (f s)))"
  unfolding comp_inv_def by blast

lemma comp_inv_evaluated [inv_intros]: "comp_inv (evaluated r)"
  by (simp add: comp_inv_def evaluated_def)

lemma comp_inv_on_db [inv_intros]:
  "(\<And>db. sysdb_inv db \<Longrightarrow> sysdb_inv (snd (f db))) \<Longrightarrow> comp_inv (on_db f)"
  by (auto simp: comp_inv_def on_db_def split: prod.splits) (metis snd_conv)

lemma comp_inv_bind [inv_intros]:
  fixes f :: "('a, 'w world) comp"
  shows "comp_inv f \<Longrightarrow> (\<And>a. comp_inv (g a)) \<Longrightarrow> comp_inv (comp_bind f g)"
proof (rule comp_invI)
  fix s :: "'w world"
  assume s: "sysdb_inv (fst s)" and f: "comp_inv f" and g: "\<And>a. comp_inv (g a)"
  obtain r s1 where run: "f s = (r, s1)" by (cases "f s")
  have "sysdb_inv (fst s1)" using f run s by (rule comp_invD)
  then show "sysdb_inv (fst (snd (comp_bind f g s)))"
    using comp_inv_apply [OF g] run by (cases r) (simp_all add: comp_bind_def)
qed

lemma comp_inv_intercept [inv_intros]: "comp_inv i \<Longrightarrow> comp_inv f \<Longrightarrow> comp_inv (intercept i f)"
  unfolding intercept_def by (intro comp_inv_bind) (auto split: option.splits intro: comp_inv_evaluated)

lemma comp_inv_record [inv_intros]:
  fixes f :: "(pyval, 'w world) comp"
  assumes f: "comp_inv f"
  shows "comp_inv (record_step_result en c name start f)"
proof (rule comp_invI)
  fix s :: "'w world"
  assume s: "sysdb_inv (fst s)"
  obtain r s1 where run: "f s = (r, s1)" by (cases "f s")
  have s1: "sysdb_inv (fst s1)" using f run s by (rule comp_invD)
  have rec: "comp_inv (comp_bind (on_db (record_operation_result ex res t)) (\<lambda>_. evaluated x))" for ex res t x
    by (intro comp_inv_bind comp_inv_on_db comp_inv_evaluated record_operation_result_inv)
  show "sysdb_inv (fst (snd (record_step_result en c name start f s)))"
    using s1 rec [unfolded comp_inv_def, rule_format, OF s1]
    by (auto simp: record_step_result_def run split: sum.splits)
qed

lemma comp_inv_pending [inv_intros]:
  fixes f :: "('a, 'w world) comp"
  assumes n: "\<And>g. comp_inv g \<Longrightarrow> comp_inv (nx g)" and f: "comp_inv f"
  shows "comp_inv (pending_then nx f)"
proof (rule comp_invI)
  fix s :: "'w world"
  assume s: "sysdb_inv (fst s)"
  obtain r s1 where run: "f s = (r, s1)" by (cases "f s")
  have s1: "sysdb_inv (fst s1)" using f run s by (rule comp_invD)
  have nx: "sysdb_inv (fst (snd (nx (evaluated x) s2)))" if "sysdb_inv (fst s2)" for x s2
    using n [OF comp_inv_evaluated] that by (rule comp_inv_apply)
  obtain r2 s2 where run2: "nx (evaluated r) s1 = (r2, s2)" by (cases "nx (evaluated r) s1")
  have s2: "sysdb_inv (fst s2)" using nx [OF s1, of r] run2 by simp
  show "sysdb_inv (fst (snd (pending_then nx f s)))"
    using s1 s2 run run2 nx [OF s1] nx [OF s2]
    by (cases r; cases r2)
       (simp_all add: pending_then_def pending_wrap_def comp_bind_def evaluated_def [of "Inr nx" s])
qed

lemma comp_inv_preemptible [inv_intros]: "comp_inv f \<Longrightarrow> comp_inv (run_preemptible_step wid polls f)"
  by (rule comp_invI) (auto simp: run_preemptible_step_def split: prod.splits sum.splits dest: comp_invD)

lemma comp_inv_after_failure:
  assumes sl: "\<And>t s. fst (slp t s) = fst s" and v: "\<And>f e. rp_should_retry p = Some f \<Longrightarrow> comp_inv (f e)"
  shows "comp_inv (after_failure sync slp p i e)"
  unfolding after_failure_def
proof (rule comp_inv_bind)
  show "comp_inv (case rp_should_retry p of None \<Rightarrow> evaluated (Inr True) | Some f \<Rightarrow> f e)"
    using v by (auto split: option.splits intro: comp_inv_evaluated)
qed (auto simp: comp_inv_def sl Let_def)

lemma comp_inv_retry:
  fixes func :: "DBOSContext \<Rightarrow> ('a, 'w world) comp"
  assumes sl: "\<And>t s. fst (slp t s) = fst s" and v: "\<And>f e. rp_should_retry p = Some f \<Longrightarrow> comp_inv (f e)"
    and f: "\<And>c. comp_inv (func c)"
  shows "comp_inv (retry_from sync slp p c func i errs)"
proof (rule comp_invI)
  fix s :: "'w world"
  assume "sysdb_inv (fst s)"
  then show "sysdb_inv (fst (snd (retry_from sync slp p c func i errs s)))"
  proof (induction "rp_attempts p - i" arbitrary: i errs s)
    case 0
    then show ?case by (simp add: retry_from.simps)
  next
    case (Suc n)
    then have i: "i < rp_attempts p" by simp
    obtain r s1 where run: "func (enter_step_retry i (rp_attempts p) c) s = (r, s1)"
      by (cases "func (enter_step_retry i (rp_attempts p) c) s")
    have s1: "sysdb_inv (fst s1)" using f run Suc.prems by (rule comp_invD)
    show ?case
    proof (cases r)
      case (Inr v)
      with i run s1 show ?thesis by (simp add: retry_from.simps)
    next
      case (Inl e)
      obtain r2 s2 where af: "after_failure sync slp p i e s1 = (r2, s2)"
        by (cases "after_failure sync slp p i e s1")
      have "comp_inv (after_failure sync slp p i e)" using sl v by (rule comp_inv_after_failure)
      then have s2: "sysdb_inv (fst s2)" using af s1 by (rule comp_invD)
      have "sysdb_inv (fst (snd (retry_from sync slp p c func (i + 1) (errs @ [e]) s2)))"
        using Suc.hyps(2) i s2 by (intro Suc.hyps(1)) simp_all
      with i run s1 s2 Inl af show ?thesis
        by (subst retry_from.simps) (cases r2; simp)
    qed
  qed
qed

text \<open>A step keeps the constraints when the user's function and validator do.\<close>

definition call_inv :: "'w world step_call \<Rightarrow> 'w world StepOptions \<Rightarrow> bool" where
  "call_inv call opts \<longleftrightarrow> (\<forall>c. comp_inv (sc_func call c)) \<and> (\<forall>f e. so_should_retry opts = Some f \<longrightarrow> comp_inv (f e))"

lemma step_outcome_inv:
  assumes "call_inv call opts" "step_outcome en c call opts name = Inr body"
  shows "comp_inv body"
proof -
  let ?f = "\<lambda>c'. if so_preemptible opts
      then run_preemptible_step (cx_workflow_id c) (sc_polls call) (sc_func call c') else sc_func call c'"
  have f: "comp_inv (?f c')" for c'
    using assms(1) by (auto simp: call_inv_def intro: comp_inv_preemptible)
  show ?thesis
  proof (cases "so_retries_allowed opts")
    case True
    let ?p = "\<lparr>rp_attempts = nat (so_max_attempts opts),
            rp_on_exception = (\<lambda>i e. retry_wait (so_interval_seconds opts) (so_backoff_rate opts) i),
            rp_exceeded_retries = (\<lambda>n es. DBOSMaxStepRetriesExceeded name (int n) es),
            rp_should_retry = so_should_retry opts\<rparr>"
    from assms(2) True have "body = retry_from (\<not> sc_is_async call) (\<lambda>t s. (fst s, en_sleep en t (snd s))) ?p c ?f 0 []"
      by (simp add: step_outcome_def retry_def Let_def split: if_splits)
    moreover have "comp_inv (retry_from (\<not> sc_is_async call) (\<lambda>t s. (fst s, en_sleep en t (snd s))) ?p c ?f 0 [])"
    proof (rule comp_inv_retry)
      show "comp_inv (h e)" if "rp_should_retry ?p = Some h" for h e
        using that assms(1) by (simp add: call_inv_def)
    qed (simp, rule f)
    ultimately show ?thesis by simp
  next
    case False
    with assms(2) have "body = ?f c" by (simp add: step_outcome_def Let_def)
    with f show ?thesis by simp
  qed
qed

lemma check_operation_execution_db: "snd (check_operation_execution wid fid name db) = db"
  by (auto simp: check_operation_execution_def engine_begin_def lift_res_def split: sum.splits)

lemma invoke_step_inv [inv_intros]:
  fixes en :: "'w dbos_env"
  assumes "call_inv call opts"
  shows "comp_inv (invoke_step en c call opts name)"
proof (rule comp_invI)
  fix s :: "'w world"
  assume s: "sysdb_inv (fst s)"
  let ?c = "start_step (cx_function_id c) c"
  have chk: "comp_inv (check_existing_result en ?c name)"
    unfolding check_existing_result_def
    by (intro comp_inv_bind comp_inv_on_db comp_inv_evaluated) (simp add: check_operation_execution_db)
  have "comp_inv (intercept (check_existing_result en ?c name)
      ((if sc_is_async call then pending_then else immediate_then) (record_step_result en ?c name start) body))"
    if "step_outcome en ?c call opts name = Inr body" for body start
    using step_outcome_inv [OF assms that] chk
    by (auto simp: immediate_then_def intro!: comp_inv_intercept comp_inv_pending comp_inv_record)
  then have body: "sysdb_inv (fst (snd (intercept (check_existing_result en ?c name)
      ((if sc_is_async call then pending_then else immediate_then) (record_step_result en ?c name start) body) s)))"
    if "step_outcome en ?c call opts name = Inr body" for body start
    using that s by (blast intro: comp_inv_apply)
  show "sysdb_inv (fst (snd (invoke_step en c call opts name s)))"
  proof (cases "step_outcome en ?c call opts name")
    case (Inl e)
    with s show ?thesis unfolding invoke_step_def Let_def by simp
  next
    case (Inr b)
    from body [OF this, of "en_clock en (snd s)"] s show ?thesis
      unfolding invoke_step_def Let_def Inr sum.case
      by (cases "sc_is_async call"; cases "so_preemptible opts"; cases "so_should_retry opts = None";
          cases "sc_should_retry_async call") simp_all
  qed
qed

end
