(* ===== verification/DBOS_Replay.thy ===== *)
theory DBOS_Replay
  imports DBOS_Step_Inv
begin

text \<open>
  Replay of a workflow's code over its durable operations. The code of a workflow is a program of
  the user: here the tree of what it does next, depending on the outcomes of the operations it
  called so far, which is all that deterministic code can depend on. The operations are a parameter
  \<open>run\<close>; the locale \<open>durable_calls\<close> is the contract they obey (an operation that recorded a
  checkpoint is replayed from it), and the replay of whole executions is proved in it. It is
  interpreted on the operations of the library in \<open>DBOS_Durability\<close>.
\<close>

section \<open>Workflow code and its executions\<close>

text \<open>An operation gives an outcome, the caller's context and the world, or does not return (\<open>None\<close>).\<close>

type_synonym 'w operation = "DBOSContext \<Rightarrow> 'w world \<Rightarrow> (pyval res \<times> DBOSContext \<times> 'w world) option"

datatype 'c wf_body =
    WReturn pyval
  | WRaise dbos_error
  | WCall 'c "pyval res \<Rightarrow> 'c wf_body"

primrec exec_body ::
  "('c \<Rightarrow> 'w operation) \<Rightarrow> 'c wf_body \<Rightarrow> DBOSContext \<Rightarrow> 'w world \<Rightarrow> (pyval res \<times> 'w world) option" where
  "exec_body run (WReturn v) = (\<lambda>c s. Some (Inr v, s))"
| "exec_body run (WRaise e) = (\<lambda>c s. Some (Inl e, s))"
| "exec_body run (WCall call k) = (\<lambda>c s. (case run call c s of
     None \<Rightarrow> None
   | Some (r, c', s1) \<Rightarrow> exec_body run (k r) c' s1))"

primrec all_calls :: "('c \<Rightarrow> bool) \<Rightarrow> 'c wf_body \<Rightarrow> bool" where
  "all_calls P (WReturn v) = True"
| "all_calls P (WRaise e) = True"
| "all_calls P (WCall call k) = (P call \<and> (\<forall>r. all_calls P (k r)))"

text \<open>
  A running workflow whose counter is ahead of its checkpoints: no operation above it was recorded.
\<close>

definition in_progress :: "DBOSContext \<Rightarrow> sysdb \<Rightarrow> bool" where
  "in_progress c db \<longleftrightarrow> (\<exists>wr. status_row db (cx_workflow_id c) = Some wr \<and> ws_status wr \<noteq> CANCELLED)
     \<and> (\<forall>i > cx_function_id c. operation_row db (cx_workflow_id c) i = None)"

definition running :: "string \<Rightarrow> DBOSContext \<Rightarrow> bool" where
  "running wid c \<longleftrightarrow> cx_workflow_id c = wid \<and> is_workflow c"

text \<open>
  What a workflow needs of a later database: its checkpoints up to a number are as they were, and it
  was not deleted or cancelled.
\<close>

definition recovered_db :: "string \<Rightarrow> int \<Rightarrow> sysdb \<Rightarrow> sysdb \<Rightarrow> bool" where
  "recovered_db wid n db db' \<longleftrightarrow> (\<forall>i \<le> n. operation_row db' wid i = operation_row db wid i)
     \<and> (\<exists>wr. status_row db' wid = Some wr \<and> ws_status wr \<noteq> CANCELLED)"

text \<open>
  The execution of one process, interleaved with the other processes, one operation at a time. An
  operation is completed when its checkpoint is recorded, or when it neither reads nor changes anything
  (a refused call, a sleep of no time); other processes change anything but the workflow's own rows.
\<close>

definition completed :: "'w operation \<Rightarrow> DBOSContext \<Rightarrow> pyval res \<Rightarrow> DBOSContext \<Rightarrow> sysdb \<Rightarrow> bool" where
  "completed f c r c' db' \<longleftrightarrow> operation_row db' (cx_workflow_id c) (cx_function_id c + 1) \<noteq> None
     \<or> (c' = c \<and> (\<forall>s. f c s = Some (r, c, s)))"

inductive wf_step ::
  "('c \<Rightarrow> 'w operation) \<Rightarrow> 'c wf_body \<times> DBOSContext \<times> 'w world \<Rightarrow> 'c wf_body \<times> DBOSContext \<times> 'w world \<Rightarrow> bool"
  for run where
  operation: "run call c s = Some (r, c', (db', w')) \<Longrightarrow> completed (run call) c r c' db'
    \<Longrightarrow> wf_step run (WCall call k, c, s) (k r, c', (db', w'))"
| elsewhere: "operation_row db' (cx_workflow_id c) = operation_row db (cx_workflow_id c)
    \<Longrightarrow> status_row db' (cx_workflow_id c) = Some wr \<Longrightarrow> ws_status wr \<noteq> CANCELLED
    \<Longrightarrow> wf_step run (b, c, (db, w)) (b, c, (db', w'))"

section \<open>The contract of durable operations\<close>

locale durable_calls =
  fixes run :: "'c \<Rightarrow> 'w operation" and ok :: "string \<Rightarrow> 'c \<Rightarrow> bool" and waits :: "'w \<Rightarrow> 'w \<Rightarrow> bool"
  assumes proceeds: "\<lbrakk>ok wid call; running wid c; in_progress c db; run call c (db, w) = Some (r, c', (db', w'));
      operation_row db' wid (cx_function_id c + 1) \<noteq> None\<rbrakk>
    \<Longrightarrow> running wid c' \<and> cx_function_id c < cx_function_id c' \<and> in_progress c' db'
        \<and> (\<forall>i \<le> cx_function_id c. operation_row db' wid i = operation_row db wid i)"
    and replays: "\<lbrakk>ok wid call; running wid c; in_progress c db; run call c (db, w) = Some (r, c', (db', w'));
      operation_row db' wid (cx_function_id c + 1) \<noteq> None; recovered_db wid (cx_function_id c') db' db''\<rbrakk>
    \<Longrightarrow> \<exists>w3. run call c (db'', w'') = Some (r, c', (db'', w3)) \<and> waits w'' w3"
    and waits_refl: "waits w w" and waits_trans: "waits w w1 \<Longrightarrow> waits w1 w2 \<Longrightarrow> waits w w2"
begin

lemma completed_proceeds:
  assumes ok: "ok wid call" and c: "running wid c" and prog: "in_progress c db"
    and run: "run call c (db, w) = Some (r, c', (db', w'))" and comp: "completed (run call) c r c' db'"
  shows "running wid c' \<and> cx_function_id c \<le> cx_function_id c' \<and> in_progress c' db'
    \<and> (\<forall>i \<le> cx_function_id c. operation_row db' wid i = operation_row db wid i)"
proof (cases "operation_row db' wid (cx_function_id c + 1) \<noteq> None")
  case True
  from proceeds [OF ok c prog run True] show ?thesis by simp
next
  case False
  with comp c have "c' = c" "run call c (db, w) = Some (r, c, (db, w))" by (auto simp: completed_def running_def)
  with run c prog show ?thesis by simp
qed

lemma completed_replays:
  assumes ok: "ok wid call" and c: "running wid c" and prog: "in_progress c db"
    and run: "run call c (db, w) = Some (r, c', (db', w'))" and comp: "completed (run call) c r c' db'"
    and later: "recovered_db wid (cx_function_id c') db' db''"
  shows "\<exists>w3. run call c (db'', w'') = Some (r, c', (db'', w3)) \<and> waits w'' w3"
proof (cases "operation_row db' wid (cx_function_id c + 1) \<noteq> None")
  case True
  from replays [OF ok c prog run True later] show ?thesis .
next
  case False
  with comp c have "c' = c" "run call c (db'', w'') = Some (r, c, (db'', w''))" by (auto simp: completed_def running_def)
  with waits_refl show ?thesis by auto
qed

lemma wf_step_keeps:
  assumes "wf_step run (b, c, (db, w)) (b', c', (db', w'))" "all_calls (ok wid) b" "running wid c" "in_progress c db"
  shows "all_calls (ok wid) b' \<and> running wid c' \<and> in_progress c' db' \<and> cx_function_id c \<le> cx_function_id c'
    \<and> (\<forall>i \<le> cx_function_id c. operation_row db' wid i = operation_row db wid i)"
  using assms(1)
proof cases
  case (operation call r k)
  with assms(2) have ok: "ok wid call" "all_calls (ok wid) b'" by auto
  from completed_proceeds [OF ok(1) assms(3,4) operation(3,4)] ok(2) show ?thesis by simp
next
  case (elsewhere wr)
  then show ?thesis using assms(2-4) by (simp add: running_def in_progress_def)
qed

lemma wf_steps_keep:
  assumes "(wf_step run)\<^sup>*\<^sup>* (b, c, (db, w)) (b', c', (db', w'))" "all_calls (ok wid) b" "running wid c" "in_progress c db"
  shows "all_calls (ok wid) b' \<and> running wid c' \<and> in_progress c' db' \<and> cx_function_id c \<le> cx_function_id c'
    \<and> (\<forall>i \<le> cx_function_id c. operation_row db' wid i = operation_row db wid i)"
  using assms(1)
proof (induction "(b', c', (db', w'))" arbitrary: b' c' db' w' rule: rtranclp_induct)
  case (step y)
  obtain b1 c1 db1 w1 where y: "y = (b1, c1, (db1, w1))" by (metis prod.exhaust)
  from step.hyps(3) [OF y] have
    k: "all_calls (ok wid) b1" "running wid c1" "in_progress c1 db1" "cx_function_id c \<le> cx_function_id c1"
      "\<forall>i \<le> cx_function_id c. operation_row db1 wid i = operation_row db wid i" by auto
  from wf_step_keeps [OF step.hyps(2) [unfolded y] k(1-3)] k(4,5) show ?case by auto
qed (use assms(2-4) in simp)

text \<open>Resuming: restarting from the beginning is continuing from where the execution stood.\<close>

lemma resumes:
  assumes "(wf_step run)\<^sup>*\<^sup>* (b, c, (db, w)) (b', c', (db', w'))"
    and "all_calls (ok wid) b" "running wid c" "in_progress c db" "recovered_db wid (cx_function_id c') db' db''"
  shows "\<exists>w3. waits w'' w3 \<and> exec_body run b c (db'', w'') = exec_body run b' c' (db'', w3)"
  using assms(1-4)
proof (induction "(b, c, (db, w))" arbitrary: b c db w w'' rule: converse_rtranclp_induct)
  case base
  then show ?case using waits_refl by blast
next
  case (step y)
  obtain b1 c1 db1 w1 where y: "y = (b1, c1, (db1, w1))" by (metis prod.exhaust)
  from wf_step_keeps [OF step.hyps(1) [unfolded y] step.prems] have
    k: "all_calls (ok wid) b1" "running wid c1" "in_progress c1 db1" by auto
  from wf_steps_keep [OF step.hyps(2) [unfolded y] k]
  have "recovered_db wid (cx_function_id c1) db1 db''" using assms(5) by (auto simp: recovered_db_def)
  note IH = step.hyps(3) [OF y k]
  show ?case using step.hyps(1) [unfolded y]
  proof cases
    case (operation call r k)
    with step.prems(1) have ok: "ok wid call" by simp
    from completed_replays [OF ok step.prems(2,3) operation(3,4) \<open>recovered_db wid (cx_function_id c1) db1 db''\<close>, of w'']
    obtain w2 where w2: "run call c (db'', w'') = Some (r, c1, (db'', w2))" "waits w'' w2" by blast
    from IH [of w2] obtain w3 where "waits w2 w3" "exec_body run b1 c1 (db'', w2) = exec_body run b' c' (db'', w3)" by blast
    with w2 operation waits_trans [OF w2(2)] show ?thesis by auto
  next
    case (elsewhere wr)
    with IH show ?thesis by simp
  qed
qed

end

section \<open>What an operation changes of its workflow\<close>

text \<open>
  Beside the checkpoints in \<open>F\<close>, the workflow's checkpoints and the state of its row are as they were.
\<close>

definition touches_only :: "string \<Rightarrow> int set \<Rightarrow> sysdb \<Rightarrow> sysdb \<Rightarrow> bool" where
  "touches_only wid F db db' \<longleftrightarrow> (\<forall>i. i \<notin> F \<longrightarrow> operation_row db' wid i = operation_row db wid i)
     \<and> map_option row_state (status_row db' wid) = map_option row_state (status_row db wid)"

lemma touches_refl [simp]: "touches_only wid F db db"
  by (simp add: touches_only_def)

lemma touches_trans: "touches_only wid F db db1 \<Longrightarrow> touches_only wid F db1 db2 \<Longrightarrow> touches_only wid F db db2"
  by (simp add: touches_only_def)

lemma touches_mono: "touches_only wid F db db' \<Longrightarrow> F \<subseteq> G \<Longrightarrow> touches_only wid G db db'"
  by (auto simp: touches_only_def)

lemma touches_frame:
  assumes "status_row db' = status_row db" "operation_outputs db' = operation_outputs db"
  shows "touches_only wid F db db'"
  using assms operation_row_cong [OF assms(2)] by (simp add: touches_only_def)

text \<open>
  A function of the user that runs as a step must leave the workflow's own checkpoints alone, and its
  row, which nobody deletes or cancels meanwhile; its outcome can be recorded.
\<close>

definition good_step ::
  "'w dbos_env \<Rightarrow> string \<Rightarrow> string \<Rightarrow> 'w world step_call \<Rightarrow> 'w world StepOptions \<Rightarrow> bool" where
  "good_step en wid name call opts \<longleftrightarrow> step_valid call opts
     \<and> (\<forall>c body. cx_workflow_id c = wid \<longrightarrow> step_outcome en c call opts name = Inr body \<longrightarrow>
          (\<forall>s. touches_only wid {} (fst s) (fst (snd (body s))) \<and> recordable en (fst (body s))))"

section \<open>Numbering\<close>

lemma snapshot_ids:
  assumes "snapshot_step_ctx b blank c = (step_ctx, c')"
  shows "cx_workflow_id step_ctx = cx_workflow_id c" "cx_function_id step_ctx = cx_function_id c + 1"
    "cx_workflow_id c' = cx_workflow_id c" "cx_function_id c' = cx_function_id c + (if b then 2 else 1)"
    "is_workflow c' = is_workflow c"
  using assms by (auto simp: snapshot_step_ctx_def Let_def is_workflow_def is_step_def is_transaction_def)

lemma snapshot_is_workflow:
  assumes "snapshot_step_ctx b (new_context e a) c = (step_ctx, c')" "is_workflow c"
  shows "is_workflow step_ctx"
  using assms
  by (auto simp: snapshot_step_ctx_def create_child_def new_context_def Let_def is_workflow_def is_step_def is_transaction_def
      is_within_workflow_def)

lemma in_progress_fresh:
  assumes "in_progress c db" "i > cx_function_id c"
  shows "check_operation_execution_txn (cx_workflow_id c) i name db = Inr None"
  using assms by (auto simp: in_progress_def check_None_iff)

lemma recovered_stands:
  "recovered_db wid n db db' \<Longrightarrow> i \<le> n \<Longrightarrow> checkpoint_stands wid i db db'"
  by (auto simp: recovered_db_def checkpoint_stands_def)

section \<open>Steps\<close>

text \<open>One step: its outcome, the advanced context and the changed world.\<close>

definition call_step ::
  "'w dbos_env \<Rightarrow> DBOSContext \<Rightarrow> string \<Rightarrow> 'w world step_call \<Rightarrow> 'w world StepOptions \<Rightarrow> 'w operation" where
  "call_step en blank name call opts c s =
     (let (step_ctx, c') = snapshot_step_ctx False blank c; (r, s1) = invoke_step en step_ctx call opts name s
      in Some (r, c', s1))"

text \<open>
  A step called at a fresh number records its outcome there and touches no other checkpoint of the
  workflow; its outcome is what every later execution gets, without effect.
\<close>

lemma call_step_fresh:
  assumes law: "codecs_law (en_codecs en) (en_serializer en)"
    and native: "ser_name (en_serializer en) \<noteq> ''portable_json''"
    and good: "good_step en (cx_workflow_id c) name call opts" and prog: "in_progress c db"
    and run: "call_step en blank name call opts c (db, w) = Some (r, c', (db', w'))"
  shows "in_progress c' db'"
    and "map_option row_state (status_row db' (cx_workflow_id c)) = map_option row_state (status_row db (cx_workflow_id c))"
    and "operation_row db' (cx_workflow_id c) (cx_function_id c + 1) \<noteq> None"
    and "\<exists>sc body db1. cx_workflow_id sc = cx_workflow_id c \<and> step_outcome en sc call opts name = Inr body
      \<and> body (db, w) = (r, (db1, w'))"
    and "i \<noteq> cx_function_id c + 1 \<Longrightarrow> operation_row db' (cx_workflow_id c) i = operation_row db (cx_workflow_id c) i"
    and "checkpoint_stands (cx_workflow_id c) (cx_function_id c + 1) db' db'' \<Longrightarrow>
      call_step en blank name call opts c (db'', w'') = Some (r, c', (db'', w''))"
proof -
  obtain step_ctx where snap: "snapshot_step_ctx False blank c = (step_ctx, c')"
    using run by (auto simp: call_step_def split: prod.splits)
  note ids = snapshot_ids [OF snap]
  have inv: "invoke_step en step_ctx call opts name (db, w) = (r, (db', w'))"
    using run snap by (auto simp: call_step_def split: prod.splits)
  from good have valid: "step_valid call opts" by (simp add: good_step_def)
  let ?c = "start_step (cx_function_id step_ctx) step_ctx"
  obtain body where body: "step_outcome en ?c call opts name = Inr body"
    using step_valid_outcome [OF valid] by blast
  have "cx_workflow_id ?c = cx_workflow_id c" using ids(1) by simp
  with good body have resp: "touches_only (cx_workflow_id c) {} (fst s) (fst (snd (body s)))"
      and recs: "recordable en (fst (body s))" for s unfolding good_step_def by blast+
  obtain r1 db1 w1 where b: "body (db, w) = (r1, (db1, w1))" by (metis prod.exhaust)
  have rec: "recordable en r1" using recs [of "(db, w)"] b by simp
  have ops: "operation_row db1 (cx_workflow_id c) = operation_row db (cx_workflow_id c)"
    and own1: "map_option row_state (status_row db1 (cx_workflow_id c)) = map_option row_state (status_row db (cx_workflow_id c))"
    using resp [of "(db, w)"] b by (auto simp: touches_only_def)
  from prog obtain wr0 where wr0: "status_row db (cx_workflow_id c) = Some wr0" "ws_status wr0 \<noteq> CANCELLED"
    by (auto simp: in_progress_def)
  from own1 wr0 obtain wr where wr: "status_row db1 (cx_workflow_id c) = Some wr"
    "row_state wr = row_state wr0" by auto
  have none0: "operation_row db (cx_workflow_id c) (cx_function_id c + 1) = None"
    using prog by (simp add: in_progress_def)
  have fresh: "check_operation_execution_txn (cx_workflow_id step_ctx) (cx_function_id step_ctx) name db = Inr None"
    using in_progress_fresh [OF prog] ids by simp
  have alive: "status_row db1 (cx_workflow_id step_ctx) = Some wr"
    and none: "operation_row db1 (cx_workflow_id step_ctx) (cx_function_id step_ctx) = None"
    using wr ops none0 ids by simp_all
  from invoke_step_records [where body = body and db = db and w = w, OF law valid fresh body b rec alive none]
  obtain r' where r: "r1 = r" and w1: "w1 = w'" and r': "replayed en r r'"
    and recd: "operation_row db' (cx_workflow_id step_ctx) (cx_function_id step_ctx) \<noteq> None"
    and st: "\<And>v. map_option row_state (status_row db' v) = map_option row_state (status_row db1 v)"
    and keep: "\<And>wid i. (wid, i) \<noteq> (cx_workflow_id step_ctx, cx_function_id step_ctx) \<Longrightarrow>
      operation_row db' wid i = operation_row db1 wid i"
    and again: "\<And>db'' call' opts' w''. checkpoint_stands (cx_workflow_id step_ctx) (cx_function_id step_ctx) db' db''
        \<Longrightarrow> step_valid call' opts' \<Longrightarrow> invoke_step en step_ctx call' opts' name (db'', w'') = (r', (db'', w''))"
    using inv by auto
  have own: "map_option row_state (status_row db' (cx_workflow_id c)) = Some (row_state wr0)"
    using st wr by simp
  have "r' = r" using r' native by (simp add: replayed_def)
  show "in_progress c' db'"
    using own wr0 ids keep [of "cx_workflow_id c"] ops prog by (auto simp: in_progress_def row_state_def)
  show "map_option row_state (status_row db' (cx_workflow_id c)) = map_option row_state (status_row db (cx_workflow_id c))"
    using own wr0 by simp
  show "operation_row db' (cx_workflow_id c) (cx_function_id c + 1) \<noteq> None" using recd ids by simp
  show "\<exists>sc body db1. cx_workflow_id sc = cx_workflow_id c \<and> step_outcome en sc call opts name = Inr body
      \<and> body (db, w) = (r, (db1, w'))"
    using body b r w1 ids(1) by (intro exI [of _ ?c] exI [of _ body] exI [of _ db1]) simp
  show "operation_row db' (cx_workflow_id c) i = operation_row db (cx_workflow_id c) i"
    if "i \<noteq> cx_function_id c + 1" using keep [of "cx_workflow_id c" i] that ids ops by simp
  show "call_step en blank name call opts c (db'', w'') = Some (r, c', (db'', w''))"
    if "checkpoint_stands (cx_workflow_id c) (cx_function_id c + 1) db' db''"
    using again [of db'' call opts w''] that ids valid snap \<open>r' = r\<close> by (simp add: call_step_def)
qed

lemma call_step_inv:
  assumes "call_inv call opts" "call_step en blank name call opts c s = Some (r, c', s')" "sysdb_inv (fst s)"
  shows "sysdb_inv (fst s')"
proof -
  obtain step_ctx c1 where snap: "snapshot_step_ctx False blank c = (step_ctx, c1)"
    by (cases "snapshot_step_ctx False blank c")
  with assms(2) have "invoke_step en step_ctx call opts name s = (r, s')"
    by (auto simp: call_step_def split: prod.splits)
  with invoke_step_inv [OF assms(1)] show ?thesis using assms(3) by (rule comp_invD)
qed

lemma exec_body_inv:
  assumes calls: "all_calls P b" and inv: "\<And>call c s r c' s'. P call \<Longrightarrow> run call c s = Some (r, c', s') \<Longrightarrow>
      sysdb_inv (fst s) \<Longrightarrow> sysdb_inv (fst s')"
    and "exec_body run b c s = Some (r, s')" "sysdb_inv (fst s)"
  shows "sysdb_inv (fst s')"
  using assms(1,3,4)
proof (induction b arbitrary: c s)
  case (WCall call k)
  then obtain r1 c1 s1 where cs: "run call c s = Some (r1, c1, s1)" by (auto split: option.splits)
  with WCall.prems inv [OF _ cs] have "sysdb_inv (fst s1)" by simp
  with WCall.IH [of "k r1" c1 s1] WCall.prems cs show ?case by auto
qed auto

lemma example_in_progress: "in_progress (example_ctx ''a'') (example_db [''a''])"
proof -
  have "cx_workflow_id (example_ctx ''a'') = ''a''" by (simp add: example_ctx_def start_workflow_def new_context_def)
  then show ?thesis
    using example_row
    by (simp add: in_progress_def operation_row_def)
       (simp add: example_db_def empty_sysdb_def new_status_row_def example_status_def)
qed

end
