(* ===== verification/DBOS_Execution.thy ===== *)
theory DBOS_Execution
  imports DBOS_Start DBOS_Replay DBOS_Queues
begin

text \<open>
  Executing and recovering workflows (\<^verbatim>\<open>dbos/_core.py\<close>, \<^verbatim>\<open>dbos/_recovery.py\<close>): the wrapper that persists
  the outcome of a workflow's function, the set of workflows active in a process, execution in a
  worker thread, execution by ID from the recorded status, and the recovery of pending workflows.
  The databases that a poll for a result sees are an argument, as in \<open>await_workflow_result\<close>; a result
  of \<open>None\<close> means that the call is still waiting.
\<close>

section \<open>Persisting the outcome\<close>

definition serialize_exception_for_persistence ::
  "reflection \<Rightarrow> codecs \<Rightarrow> dbos_error \<Rightarrow> string option \<Rightarrow> Serializer \<Rightarrow> string res" where
  "serialize_exception_for_persistence rf cs e ser sz = (case serialize_exception rf cs e ser sz of
     Inr (s, _) \<Rightarrow> Inr s
   | Inl e' \<Rightarrow>
       if is_Exception e'
       then (let fallback = PyException (rf_type_name rf e @ '': '' @ safe_str rf (PExn e)) in
             res_bind (serialize_exception rf cs fallback ser sz) (\<lambda>(s, _). Inr s))
       else Inl e')"

text \<open>Mark a workflow as failed with an error.\<close>

definition finalize_error :: "'w dbos_env \<Rightarrow> string \<Rightarrow> string option \<Rightarrow> dbos_error \<Rightarrow> (unit, 'w world) comp" where
  "finalize_error en wid ser e = (\<lambda>s.
     (case serialize_exception_for_persistence (en_reflection en) (en_codecs en) e ser (en_serializer en) of
        Inl e' \<Rightarrow> (Inl e', s)
      | Inr err \<Rightarrow> on_db (update_workflow_outcome wid ERROR None (Some err) (en_clock en (snd s))) s))"

definition await_result :: "'w dbos_env \<Rightarrow> string \<Rightarrow> sysdb list \<Rightarrow> pyval res option" where
  "await_result en wid polls = await_workflow_result (en_codecs en) (en_serializer en) wid polls"

text \<open>The \<^verbatim>\<open>except\<close> clauses of \<^verbatim>\<open>persist\<close>.\<close>

definition persist_except ::
  "'w dbos_env \<Rightarrow> sysdb list \<Rightarrow> WorkflowStatusInternal \<Rightarrow> dbos_error \<Rightarrow> 'w world \<Rightarrow> pyval res option \<times> 'w world" where
  "persist_except en polls status e s = (case e of
     DBOSWorkflowConflictIDError _ \<Rightarrow> (await_result en (wi_workflow_uuid status) polls, s)
   | DBOSWorkflowCancelledError _ \<Rightarrow> (Some (Inl (DBOSAwaitedWorkflowCancelledError (wi_workflow_uuid status))), s)
   | _ \<Rightarrow>
       if is_Exception e
       then (case finalize_error en (wi_workflow_uuid status) (wi_serialization status) e s of
               (Inl e', s1) \<Rightarrow> (Some (Inl e'), s1)
             | (Inr _, s1) \<Rightarrow> (Some (Inl e), s1))
       else (Some (Inl e), s))"

definition persist ::
  "'w dbos_env \<Rightarrow> sysdb list \<Rightarrow> WorkflowStatusInternal \<Rightarrow> (pyval, 'w world) comp \<Rightarrow> 'w world \<Rightarrow> pyval res option \<times> 'w world" where
  "persist en polls status func s =
     (if wi_status status = ERROR \<or> wi_status status = SUCCESS
      then (await_result en (wi_workflow_uuid status) polls, s)
      else case func s of
          (Inl e, s1) \<Rightarrow> persist_except en polls status e s1
        | (Inr output, s1) \<Rightarrow>
            (case serialize_value_as (en_codecs en) output (wi_serialization status) (en_serializer en) of
               Inl e \<Rightarrow> persist_except en polls status e s1
             | Inr (serval, _) \<Rightarrow>
                 (case on_db (update_workflow_outcome (wi_workflow_uuid status) SUCCESS (Some serval) None
                         (en_clock en (snd s1))) s1 of
                    (Inl e, s2) \<Rightarrow> persist_except en polls status e s2
                  | (Inr _, s2) \<Rightarrow> (Some (Inr output), s2))))"

text \<open>
  For a coroutine the function is awaited first, and an error of \<^verbatim>\<open>persist\<close> goes to \<^verbatim>\<open>persist\<close> once more
  (\<open>pending_then\<close>).
\<close>

definition persist_async ::
  "'w dbos_env \<Rightarrow> sysdb list \<Rightarrow> WorkflowStatusInternal \<Rightarrow> (pyval, 'w world) comp \<Rightarrow> 'w world \<Rightarrow> pyval res option \<times> 'w world" where
  "persist_async en polls status func s = (case func s of
     (Inl e, s1) \<Rightarrow> if e = CancelledError then (Some (Inl e), s1) else persist en polls status (evaluated (Inl e)) s1
   | (Inr v, s1) \<Rightarrow>
       (case persist en polls status (evaluated (Inr v)) s1 of
          (Some (Inl e), s2) \<Rightarrow>
            if e = CancelledError then (Some (Inl e), s2) else persist en polls status (evaluated (Inl e)) s2
        | r \<Rightarrow> r))"

section \<open>Workflows active in this process\<close>

text \<open>The dictionary from workflow ID to its queue bucket, in insertion order.\<close>

type_synonym active_workflows = "(string \<times> (string \<times> string option) option) list"

definition acquire :: "string \<Rightarrow> string option \<Rightarrow> string option \<Rightarrow> active_workflows \<Rightarrow> bool \<times> active_workflows" where
  "acquire key queue_name partition_key m =
     (if key \<in> fst ` set m then (False, m)
      else (True, m @ [(key, map_option (\<lambda>q. (q, partition_key)) queue_name)]))"

definition release :: "string \<Rightarrow> active_workflows \<Rightarrow> active_workflows res" where
  "release key m = (if key \<in> fst ` set m then Inr (filter (\<lambda>x. fst x \<noteq> key) m) else Inl (PyException ''KeyError''))"

definition activeList :: "active_workflows \<Rightarrow> string list" where
  "activeList m = map fst m"

definition count_for_queue :: "string \<Rightarrow> string option \<Rightarrow> active_workflows \<Rightarrow> nat" where
  "count_for_queue q pk m = length (filter (\<lambda>x. snd x = Some (q, pk)) m)"

section \<open>Execution in a worker thread\<close>

text \<open>\<^verbatim>\<open>EnterDBOSWorkflow\<close>: the context as the workflow's function sees it.\<close>

definition enter_workflow :: "string \<Rightarrow> DBOSContext \<Rightarrow> DBOSContext" where
  "enter_workflow uuid c = start_workflow uuid None (c\<lparr>cx_is_within_set_workflow_id_block := False,
     cx_workflow_timeout_ms := None, cx_deduplication_id := None, cx_priority := None\<rparr>)"

definition check_required_roles_or_finalize_error ::
  "'w dbos_env \<Rightarrow> WorkflowStatusInternal \<Rightarrow> wf_func \<Rightarrow> DBOSContext \<Rightarrow> (string option, 'w world) comp" where
  "check_required_roles_or_finalize_error en status fn c s = (case check_required_roles fn (Some c) of
     Inr r \<Rightarrow> (Inr r, s)
   | Inl e \<Rightarrow> (case e of
       DBOSNotAuthorizedError _ \<Rightarrow>
         comp_bind (finalize_error en (wi_workflow_uuid status) (wi_serialization status) e) (\<lambda>_. evaluated (Inl e)) s
     | _ \<Rightarrow> (Inl e, s)))"

text \<open>
  \<open>func\<close> is the workflow's function applied to its arguments, in the context it runs in. While the call
  waits the workflow stays in the active set; it is released when the call ends, normally or not.
\<close>

definition execute_workflow ::
  "'w dbos_env \<Rightarrow> bool \<Rightarrow> sysdb list \<Rightarrow> string \<Rightarrow> WorkflowStatusInternal \<Rightarrow> wf_func \<Rightarrow> (DBOSContext \<Rightarrow> (pyval, 'w world) comp)
   \<Rightarrow> DBOSContext \<Rightarrow> active_workflows \<Rightarrow> 'w world \<Rightarrow> (pyval res option \<times> 'w world) \<times> active_workflows" where
  "execute_workflow en async polls uuid status fn func c0 m s =
     (let c = enter_workflow uuid c0; wid = wi_workflow_uuid status in
      case check_required_roles_or_finalize_error en status fn c s of
        (Inl e, s1) \<Rightarrow> ((Some (Inl e), s1), m)
      | (Inr rr, s1) \<Rightarrow>
          (case acquire wid (wi_queue_name status) (wi_queue_partition_key status) m of
             (True, m1) \<Rightarrow>
               (case (if async then persist_async else persist) en polls status
                       (func (c\<lparr>cx_assumed_role := rr\<rparr>)) s1 of
                  (None, s2) \<Rightarrow> ((None, s2), m1)
                | (Some r, s2) \<Rightarrow>
                    (case release wid m1 of Inl e \<Rightarrow> ((Some (Inl e), s2), m1) | Inr m2 \<Rightarrow> ((Some r, s2), m2)))
           | (False, m1) \<Rightarrow> ((await_result en wid polls, s1), m1)))"

section \<open>Properties\<close>

lemma acquire_release:
  "acquire key q pk m = (True, m1) \<Longrightarrow> release key m1 = Inr m"
  by (auto simp: acquire_def release_def split: if_splits intro!: filter_True)

lemma acquire_iff: "fst (acquire key q pk m) \<longleftrightarrow> key \<notin> set (activeList m)"
  by (auto simp: acquire_def activeList_def)

text \<open>A workflow is executed at most once at a time in a process: the keys stay distinct.\<close>

lemma acquire_distinct: "distinct (activeList m) \<Longrightarrow> distinct (activeList (snd (acquire key q pk m)))"
  by (auto simp: acquire_def activeList_def)

lemma release_distinct: "distinct (activeList m) \<Longrightarrow> release key m = Inr m' \<Longrightarrow> distinct (activeList m')"
  by (auto simp: release_def activeList_def distinct_map_filter split: if_splits)

lemma count_acquire:
  "acquire key (Some q) pk m = (True, m1) \<Longrightarrow> count_for_queue q pk m1 = Suc (count_for_queue q pk m)"
  by (auto simp: acquire_def count_for_queue_def split: if_splits)

lemma execute_workflow_active:
  assumes "execute_workflow en async polls uuid status fn func c m s = ((Some r, s'), m')"
  shows "m' = m"
proof -
  let ?wid = "wi_workflow_uuid status"
  obtain r1 s1 where roles: "check_required_roles_or_finalize_error en status fn (enter_workflow uuid c) s = (r1, s1)"
    by (cases "check_required_roles_or_finalize_error en status fn (enter_workflow uuid c) s")
  obtain b m1 where acq: "acquire ?wid (wi_queue_name status) (wi_queue_partition_key status) m = (b, m1)"
    by (cases "acquire ?wid (wi_queue_name status) (wi_queue_partition_key status) m")
  show ?thesis
  proof (cases r1)
    case (Inl e)
    with assms roles show ?thesis by (simp add: execute_workflow_def)
  next
    case (Inr rr)
    let ?p = "(if async then persist_async else persist) en polls status
      (func ((enter_workflow uuid c)\<lparr>cx_assumed_role := rr\<rparr>)) s1"
    obtain o1 s2 where run: "?p = (o1, s2)" by (cases ?p)
    show ?thesis
    proof (cases b)
      case True
      with acq have rel: "release ?wid m1 = Inr m" by (auto intro: acquire_release)
      have "execute_workflow en async polls uuid status fn func c m s
        = (case o1 of None \<Rightarrow> ((None, s2), m1) | Some r \<Rightarrow> ((Some r, s2), m))"
        by (cases o1)
           (simp_all add: execute_workflow_def Let_def roles Inr acq True run rel split del: if_split cong: if_cong)
      with assms show ?thesis by (cases o1) simp_all
    next
      case False
      with acq have "m1 = m" by (auto simp: acquire_def split: if_splits)
      with assms roles Inr acq False show ?thesis by (simp add: execute_workflow_def)
    qed
  qed
qed

lemma execute_workflow_not_owner:
  assumes "wi_workflow_uuid status \<in> set (activeList m)"
    and "check_required_roles fn (Some (enter_workflow uuid c)) = Inr rr"
  shows "execute_workflow en async polls uuid status fn func c m s = ((await_result en (wi_workflow_uuid status) polls, s), m)"
  using assms
  by (auto simp: execute_workflow_def Let_def check_required_roles_or_finalize_error_def acquire_def activeList_def)

section \<open>The outcome of a workflow\<close>

definition persistable :: "'w dbos_env \<Rightarrow> string option \<Rightarrow> pyval res \<Rightarrow> bool" where
  "persistable en ser r = (case r of
     Inr v \<Rightarrow> (\<exists>x. serialize_value_as (en_codecs en) v ser (en_serializer en) = Inr x)
   | Inl e \<Rightarrow> is_Exception e \<and> (\<exists>x. serialize_exception_for_persistence (en_reflection en) (en_codecs en) e ser
        (en_serializer en) = Inr x))"

text \<open>The error that is recorded: the exception itself or, if that cannot be serialized, a plain one.\<close>

definition persisted_error :: "'w dbos_env \<Rightarrow> string option \<Rightarrow> dbos_error \<Rightarrow> dbos_error" where
  "persisted_error en ser e = (case serialize_exception (en_reflection en) (en_codecs en) e ser (en_serializer en) of
     Inr _ \<Rightarrow> e
   | Inl _ \<Rightarrow> PyException (rf_type_name (en_reflection en) e @ '': '' @ safe_str (en_reflection en) (PExn e)))"

text \<open>What callers awaiting the workflow get for an outcome recorded in the format \<open>ser\<close>.\<close>

definition awaited_as :: "'w dbos_env \<Rightarrow> string option \<Rightarrow> pyval res \<Rightarrow> pyval res \<Rightarrow> bool" where
  "awaited_as en ser r r' \<longleftrightarrow>
     (let portable = ((case ser of None \<Rightarrow> ser_name (en_serializer en) | Some n \<Rightarrow> n) = ''portable_json'') in
      case r of
        Inr v \<Rightarrow> r' = (if portable then portableify v else Inr v)
      | Inl e \<Rightarrow> r' = Inl (if portable then portable_error (en_reflection en) (persisted_error en ser e)
                           else persisted_error en ser e))"

lemma serialize_exception_name:
  "serialize_exception rf cs e ser sz = Inr (s, n) \<Longrightarrow> n = (case ser of None \<Rightarrow> ser_name sz | Some m \<Rightarrow> m)"
  by (auto simp: serialize_exception_def Let_def res_bind_Inr_iff split: if_splits option.splits)

lemma serialize_value_as_name:
  "codecs_law cs sz \<Longrightarrow> serialize_value_as cs v ser sz = Inr (s, n) \<Longrightarrow> n = (case ser of None \<Rightarrow> ser_name sz | Some m \<Rightarrow> m)"
  by (auto simp: serialize_value_as_def res_bind_Inr_iff split: if_splits option.splits)

lemma deserialize_exception_default:
  "deserialize_exception cs s ser sz = deserialize_exception cs s (Some (case ser of None \<Rightarrow> ser_name sz | Some m \<Rightarrow> m)) sz"
  by (cases ser) (simp_all add: deserialize_exception_def)

lemma persisted_error_roundtrip:
  assumes law: "codecs_law (en_codecs en) (en_serializer en)"
    and s: "serialize_exception_for_persistence (en_reflection en) (en_codecs en) e ser (en_serializer en) = Inr s"
  shows "deserialize_exception (en_codecs en) s ser (en_serializer en)
    = Inr (if (case ser of None \<Rightarrow> ser_name (en_serializer en) | Some m \<Rightarrow> m) = ''portable_json''
           then portable_error (en_reflection en) (persisted_error en ser e) else persisted_error en ser e)"
proof -
  obtain n where n: "serialize_exception (en_reflection en) (en_codecs en) (persisted_error en ser e) ser (en_serializer en)
      = Inr (s, n)"
    using s by (auto simp: serialize_exception_for_persistence_def persisted_error_def Let_def res_bind_Inr_iff
        split: sum.splits if_splits)
  show ?thesis
    unfolding deserialize_exception_default [of _ s ser]
    using deserialize_serialize_exception [OF law n] serialize_exception_name [OF n] by simp
qed

text \<open>The row and the awaited result after an outcome was recorded.\<close>

lemma awaited_outcome:
  assumes law: "codecs_law (en_codecs en) (en_serializer en)"
    and row: "status_row db wid = Some (outcome_effect st outp err now wr)"
    and r: "case r of
        Inr v \<Rightarrow> st = SUCCESS \<and> (\<exists>t n. outp = Some t
           \<and> serialize_value_as (en_codecs en) v (ws_serialization wr) (en_serializer en) = Inr (t, n))
      | Inl e \<Rightarrow> st = ERROR \<and> (\<exists>t. err = Some t \<and> serialize_exception_for_persistence (en_reflection en) (en_codecs en) e
           (ws_serialization wr) (en_serializer en) = Inr t)"
  shows "\<exists>r'. await_result en wid (db # polls) = Some r' \<and> awaited_as en (ws_serialization wr) r r'"
proof (cases r)
  case (Inr v)
  with r obtain t n where st: "st = SUCCESS" "outp = Some t"
    and ser: "serialize_value_as (en_codecs en) v (ws_serialization wr) (en_serializer en) = Inr (t, n)" by auto
  from deserialize_serialize [OF law ser] obtain v' where
    v': "deserialize_value (en_codecs en) (Some t) (Some n) (en_serializer en) = Inr v'"
      "if n = ''portable_json'' then portableify v = Inr v' else v' = v" by auto
  have "await_result en wid (db # polls) = Some (Inr v')"
    using v'(1) row st deserialize_with_recorded_format [OF law ser]
    by (simp add: await_result_def check_workflow_result_def outcome_effect_def)
  moreover have "awaited_as en (ws_serialization wr) r (Inr v')"
    using v'(2) Inr serialize_value_as_name [OF law ser] by (simp add: awaited_as_def split: if_splits)
  ultimately show ?thesis by blast
next
  case (Inl e)
  with r obtain t where st: "st = ERROR" "err = Some t"
    and ser: "serialize_exception_for_persistence (en_reflection en) (en_codecs en) e (ws_serialization wr)
      (en_serializer en) = Inr t" by auto
  show ?thesis using persisted_error_roundtrip [OF law ser] row st Inl
    by (simp add: await_result_def check_workflow_result_def outcome_effect_def awaited_as_def)
qed

lemma outcome_update:
  assumes "sysdb_inv db" "status_row db wid = Some wr" "ws_status wr \<noteq> CANCELLED"
  shows "\<exists>db'. update_workflow_outcome wid st outp err now db = (Inr (), db')
    \<and> status_row db' wid = Some (outcome_effect st outp err now wr)"
proof -
  have "status_table_ok (workflow_status db)" using assms(1) by (simp add: sysdb_inv_def)
  then show ?thesis
    using update_workflow_outcome_eq [of db wid wr st outp err now] outcome_recorded [OF assms(2,3)] assms(2,3) by auto
qed

lemma persist_records:
  assumes law: "codecs_law (en_codecs en) (en_serializer en)"
    and active: "wi_status status \<noteq> ERROR" "wi_status status \<noteq> SUCCESS"
    and run: "func s = (r, (db1, w1))" and ok: "persistable en (wi_serialization status) r"
    and inv: "sysdb_inv db1" and row: "status_row db1 (wi_workflow_uuid status) = Some wr"
    and live: "ws_status wr \<noteq> CANCELLED" and fmt: "ws_serialization wr = wi_serialization status"
  shows "\<exists>db2 r' st outp err. persist en polls status func s = (Some r, (db2, w1))
    \<and> st = (case r of Inr _ \<Rightarrow> SUCCESS | Inl _ \<Rightarrow> ERROR)
    \<and> status_row db2 (wi_workflow_uuid status) = Some (outcome_effect st outp err (en_clock en w1) wr)
    \<and> (\<forall>dbs. await_result en (wi_workflow_uuid status) (db2 # dbs) = Some r')
    \<and> awaited_as en (wi_serialization status) r r'"
proof -
  let ?wid = "wi_workflow_uuid status" and ?now = "en_clock en w1"
  have awaited: "\<exists>r'. (\<forall>dbs. await_result en ?wid (db2 # dbs) = Some r') \<and> awaited_as en (wi_serialization status) r r'"
    if "\<And>dbs. \<exists>r'. await_result en ?wid (db2 # dbs) = Some r' \<and> awaited_as en (ws_serialization wr) r r'" for db2
  proof -
    from that [of "[]"] obtain r' where r': "await_result en ?wid [db2] = Some r'" "awaited_as en (ws_serialization wr) r r'"
      by blast
    have "await_result en ?wid (db2 # dbs) = Some r'" for dbs
      using r'(1) by (auto simp: await_result_def split: sum.splits option.splits)
    with r'(2) fmt show ?thesis by auto
  qed
  show ?thesis
  proof (cases r)
    case (Inr v)
    with ok obtain t n where ser: "serialize_value_as (en_codecs en) v (wi_serialization status) (en_serializer en) = Inr (t, n)"
      by (auto simp: persistable_def)
    from outcome_update [OF inv row live, of SUCCESS "Some t" None ?now] obtain db2 where
      db2: "update_workflow_outcome ?wid SUCCESS (Some t) None ?now db1 = (Inr (), db2)"
      and row2: "status_row db2 ?wid = Some (outcome_effect SUCCESS (Some t) None ?now wr)" by blast
    have "persist en polls status func s = (Some r, (db2, w1))"
      using active run Inr ser db2 by (simp add: persist_def on_db_def)
    moreover have "\<exists>r'. await_result en ?wid (db2 # dbs) = Some r' \<and> awaited_as en (ws_serialization wr) r r'" for dbs
      using Inr ser fmt by (intro awaited_outcome [OF law row2]) auto
    ultimately show ?thesis using awaited [of db2] row2 Inr by auto
  next
    case (Inl e)
    with ok obtain t where ex: "is_Exception e"
      and ser: "serialize_exception_for_persistence (en_reflection en) (en_codecs en) e (wi_serialization status)
        (en_serializer en) = Inr t"
      by (auto simp: persistable_def)
    from outcome_update [OF inv row live, of ERROR None "Some t" ?now] obtain db2 where
      db2: "update_workflow_outcome ?wid ERROR None (Some t) ?now db1 = (Inr (), db2)"
      and row2: "status_row db2 ?wid = Some (outcome_effect ERROR None (Some t) ?now wr)" by blast
    have "persist_except en polls status e (db1, w1) = (Some (Inl e), (db2, w1))"
      using ex ser db2 by (cases e) (simp_all add: persist_except_def finalize_error_def on_db_def is_Exception_def)
    then have "persist en polls status func s = (Some r, (db2, w1))"
      using active run Inl by (simp add: persist_def)
    moreover have "\<exists>r'. await_result en ?wid (db2 # dbs) = Some r' \<and> awaited_as en (ws_serialization wr) r r'" for dbs
      using Inl ser fmt by (intro awaited_outcome [OF law row2]) auto
    ultimately show ?thesis using awaited [of db2] row2 Inl by auto
  qed
qed

lemma persist_async_eq:
  assumes "persist en polls status func s = (Some r, s')" "func s = (r, s1)" "r \<noteq> Inl CancelledError"
    "wi_status status \<noteq> ERROR" "wi_status status \<noteq> SUCCESS"
  shows "persist_async en polls status func s = (Some r, s')"
proof -
  have "persist en polls status (evaluated r) s1 = (Some r, s')"
    using assms by (simp add: persist_def evaluated_def)
  then show ?thesis using assms(2,3) by (cases r) (simp_all add: persist_async_def)
qed

text \<open>A completed workflow is not executed again: its recorded result is what a new execution returns.\<close>

lemma persist_completed:
  "wi_status status = SUCCESS \<or> wi_status status = ERROR \<Longrightarrow>
   persist en polls status func s = (await_result en (wi_workflow_uuid status) polls, s)"
  by (auto simp: persist_def)

text \<open>A workflow cancelled while its function ran: the outcome is discarded.\<close>

lemma persist_cancelled:
  assumes active: "wi_status status \<noteq> ERROR" "wi_status status \<noteq> SUCCESS"
    and run: "func s = (r, (db1, w1))" and ok: "persistable en (wi_serialization status) r"
    and inv: "sysdb_inv db1" and row: "status_row db1 (wi_workflow_uuid status) = Some wr" "ws_status wr = CANCELLED"
    and plain: "persistable en (wi_serialization status) (Inl (DBOSAwaitedWorkflowCancelledError (wi_workflow_uuid status)))"
  shows "persist en polls status func s
    = (Some (Inl (DBOSAwaitedWorkflowCancelledError (wi_workflow_uuid status))), (db1, w1))"
proof -
  let ?wid = "wi_workflow_uuid status"
  have upd: "update_workflow_outcome ?wid st outp err now db1 = (Inl (DBOSAwaitedWorkflowCancelledError ?wid), db1)"
    for st outp err now
    using inv row by (simp add: update_workflow_outcome_eq [OF _ row(1)] sysdb_inv_def)
  have exc: "persist_except en polls status e (db1, w1) = (Some (Inl (DBOSAwaitedWorkflowCancelledError ?wid)), (db1, w1))"
    if "persistable en (wi_serialization status) (Inl e)" for e
    using that upd by (cases e) (auto simp: persistable_def persist_except_def finalize_error_def on_db_def is_Exception_def)
  show ?thesis
  proof (cases r)
    case (Inr v)
    with ok obtain t n where "serialize_value_as (en_codecs en) v (wi_serialization status) (en_serializer en) = Inr (t, n)"
      by (auto simp: persistable_def)
    then show ?thesis using active run Inr upd exc [OF plain] by (simp add: persist_def on_db_def)
  next
    case (Inl e)
    then show ?thesis using active run exc ok by (simp add: persist_def)
  qed
qed

end
