(* ===== verification/DBOS_Recovery.thy ===== *)
theory DBOS_Recovery
  imports DBOS_Execution
begin

text \<open>
  Executing a workflow from its recorded status, and recovery (\<^verbatim>\<open>execute_workflow_by_id\<close> of
  \<^verbatim>\<open>dbos/_core.py\<close>, \<^verbatim>\<open>dbos/_recovery.py\<close>). A recorded workflow is looked up in the registry, its
  arguments are decoded, converted or validated, and it is started again under its own ID and
  authentication. A workflow that can never be started (its inputs cannot be decoded or do not pass
  validation) is marked as failed instead of being recovered forever.
\<close>

section \<open>The registry\<close>

text \<open>
  A registered workflow function: its information (if it has any), its signature for argument
  conversion, the validator of its arguments, whether it is a static function and a coroutine.
\<close>

record registered_wf =
  rw_fn :: wf_func
  rw_has_info :: bool
  rw_signature :: call_signature
  rw_validate :: "(pyval list \<Rightarrow> (string \<times> pyval) list \<Rightarrow> (pyval list \<times> (string \<times> pyval) list) res) option"
  rw_is_static :: bool
  rw_is_async :: bool

record wf_registry =
  rg_workflow_info_map :: "(string \<times> registered_wf) list"
  rg_instance_info_map :: "(string \<times> pyval) list"
  rg_class_info_map :: "(string \<times> pyval) list"

text \<open>\<^verbatim>\<open>inputs["args"]\<close> and \<^verbatim>\<open>inputs["kwargs"]\<close>.\<close>

definition inputs_parts :: "pyval \<Rightarrow> (pyval list \<times> (string \<times> pyval) list) res" where
  "inputs_parts v = (case v of
     PDict kvs \<Rightarrow>
       (case (map_of kvs (PStr ''args''), map_of kvs (PStr ''kwargs'')) of
          (Some (PTuple args), Some (PDict ks)) \<Rightarrow>
            res_bind (res_map (\<lambda>(k, x). case k of PStr n \<Rightarrow> Inr (n, x) | _ \<Rightarrow> Inl TypeError) ks) (\<lambda>kws. Inr (args, kws))
        | (None, _) \<Rightarrow> Inl (PyException ''KeyError'')
        | (_, None) \<Rightarrow> Inl (PyException ''KeyError'')
        | _ \<Rightarrow> Inl TypeError)
   | _ \<Rightarrow> Inl TypeError)"

definition roles_of :: "pyval \<Rightarrow> string list res" where
  "roles_of v = (case v of
     PList vs \<Rightarrow> res_map (\<lambda>x. case x of PStr s \<Rightarrow> Inr s | _ \<Rightarrow> Inl TypeError) vs
   | _ \<Rightarrow> Inl TypeError)"

section \<open>Execution by ID\<close>

text \<open>The decoded arguments, converted to the hints or validated.\<close>

definition decode_inputs ::
  "'w dbos_env \<Rightarrow> iso_parser \<Rightarrow> registered_wf \<Rightarrow> WorkflowStatusInternal \<Rightarrow> pyval \<Rightarrow> pyval res" where
  "decode_inputs en isoparse rw status inputs =
     (let portable = (wi_serialization status = Some ''portable_json''
            \<or> wi_serialization status = None \<and> ser_name (en_serializer en) = ''portable_json'');
          pack = (\<lambda>(args, kwargs). Inr (WorkflowInputs args (kwargs_dict kwargs)))
      in case rw_validate rw of
           None \<Rightarrow>
             if portable \<and> inputs \<noteq> PNone
             then res_bind (inputs_parts inputs) (\<lambda>(args, kwargs).
                    pack (coerce_portable_args_to_hints isoparse (rw_signature rw) args kwargs))
             else Inr inputs
         | Some validate \<Rightarrow>
             if inputs \<noteq> PNone
             then res_bind (inputs_parts inputs) (\<lambda>(args, kwargs). res_bind (validate args kwargs) pack)
             else Inr inputs)"

text \<open>The first argument of a method: the configured instance, or the class unless it is static.\<close>

definition receiver :: "wf_registry \<Rightarrow> registered_wf \<Rightarrow> WorkflowStatusInternal \<Rightarrow> pyval list res" where
  "receiver rg rw status = (case wi_config_name status of
     Some cfg \<Rightarrow>
       (let iname = (case wi_class_name status of None \<Rightarrow> ''None'' | Some cl \<Rightarrow> cl) @ ''/'' @ cfg in
        case map_of (rg_instance_info_map rg) iname of
          None \<Rightarrow> Inl (DBOSWorkflowFunctionNotFoundError (wi_workflow_uuid status) iname)
        | Some inst \<Rightarrow> Inr [inst])
   | None \<Rightarrow> (case wi_class_name status of
       None \<Rightarrow> Inr []
     | Some cl \<Rightarrow> (case map_of (rg_class_info_map rg) cl of
         None \<Rightarrow> Inl (DBOSWorkflowFunctionNotFoundError (wi_workflow_uuid status) cl)
       | Some cobj \<Rightarrow> Inr (if rw_is_static rw then [] else [cobj]))))"

text \<open>
  The context of the start: the recorded authentication, the workflow's own ID, its partition key and
  no other enqueue options.
\<close>

definition recovery_context ::
  "DBOSContext \<Rightarrow> DBOSContext option \<Rightarrow> WorkflowStatusInternal \<Rightarrow> string list option \<Rightarrow> DBOSContext" where
  "recovery_context blank cur status roles = (case cur of None \<Rightarrow> blank | Some c \<Rightarrow> c)\<lparr>
     cx_authenticated_user := wi_authenticated_user status, cx_authenticated_roles := roles,
     cx_id_assigned_for_next_workflow := wi_workflow_uuid status, cx_is_within_set_workflow_id_block := True,
     cx_deduplication_id := None, cx_priority := None, cx_app_version := None,
     cx_queue_partition_key := wi_queue_partition_key status, cx_delay_until_epoch_ms := None\<rparr>"

definition execute_workflow_by_id ::
  "'w dbos_env \<Rightarrow> iso_parser \<Rightarrow> wf_registry \<Rightarrow> string \<Rightarrow> string \<Rightarrow> DBOSContext \<Rightarrow> DBOSContext option
   \<Rightarrow> string \<Rightarrow> bool \<Rightarrow> bool \<Rightarrow> (wf_handle \<times> started option, 'w world) comp" where
  "execute_workflow_by_id en isoparse rg uuid xid blank cur wid is_recovery is_dequeue s =
     (case get_workflow_status wid (fst s) of
        None \<Rightarrow> (Inl (DBOSRecoveryError wid ''Workflow status not found''), s)
      | Some status \<Rightarrow>
        let fail = (\<lambda>e. comp_bind (finalize_error en wid (wi_serialization status) e) (\<lambda>_. evaluated (Inl e))) in
        if is_blank wid
        then fail (DBOSRecoveryError wid ''Cannot recover a workflow with an empty or whitespace-only ID'') s
        else
          (case deserialize_args (en_codecs en) (wi_inputs status) (wi_serialization status) (en_serializer en) of
             Inl e \<Rightarrow> if is_Exception e then fail e s else (Inl e, s)
           | Inr inputs \<Rightarrow>
             (case map_of (rg_workflow_info_map rg) (wi_name status) of
                None \<Rightarrow> (Inl (DBOSWorkflowFunctionNotFoundError wid (wi_name status)), s)
              | Some rw \<Rightarrow>
                if \<not> rw_has_info rw then (Inl (DBOSWorkflowFunctionNotFoundError ''<NONE>'' (wi_name status)), s)
                else
                  (case decode_inputs en isoparse rw status inputs of
                     Inl e \<Rightarrow> if is_Exception e \<and> rw_validate rw \<noteq> None then fail e s else (Inl e, s)
                   | Inr inputs1 \<Rightarrow>
                     (case res_bind (case wi_authenticated_roles status of
                              Some (ch # t) \<Rightarrow> res_bind (json_loads (en_codecs en) (ch # t))
                                 (\<lambda>v. res_bind (roles_of v) (\<lambda>rs. Inr (Some rs)))
                            | _ \<Rightarrow> Inr None) (\<lambda>roles.
                            res_bind (receiver rg rw status) (\<lambda>self.
                            res_bind (inputs_parts inputs1) (\<lambda>(args, kwargs). Inr (roles, self @ args, kwargs)))) of
                        Inl e \<Rightarrow> (Inl e, s)
                      | Inr (roles, args, kwargs) \<Rightarrow>
                           comp_bind
                             (\<lambda>s1. fst (start_workflow_core en uuid xid blank (rw_fn rw) args (kwargs_dict kwargs)
                                (wi_queue_name status) True is_recovery is_dequeue
                                (Some (recovery_context blank cur status roles)) s1))
                             (\<lambda>(h, bg). evaluated (Inr (if rw_is_async rw then (HandlePolling (handle_id h), bg)
                                else (h, bg)))) s)))))"

section \<open>Recovery\<close>

definition recover_workflow ::
  "'w dbos_env \<Rightarrow> iso_parser \<Rightarrow> wf_registry \<Rightarrow> string \<Rightarrow> string \<Rightarrow> DBOSContext
   \<Rightarrow> string \<times> string option \<Rightarrow> (wf_handle \<times> started option, 'w world) comp" where
  "recover_workflow en isoparse rg uuid xid blank pending s = (case pending of (wid, queue_name) \<Rightarrow>
     if queue_name \<noteq> None \<and> queue_name \<noteq> Some []
     then (Inr (HandlePolling wid, None), (clear_queue_assignment wid (fst s), snd s))
     else execute_workflow_by_id en isoparse rg uuid xid blank None wid True False s)"

text \<open>
  One executor's pending workflows in order: an \<^verbatim>\<open>Exception\<close> is logged and the next one is recovered;
  the handles of the recovered ones and the workflows to run in the background are collected.
  \<open>ids\<close> are the generated UUIDs of each attempt.
\<close>

fun recover_all ::
  "'w dbos_env \<Rightarrow> iso_parser \<Rightarrow> wf_registry \<Rightarrow> (nat \<Rightarrow> string \<times> string) \<Rightarrow> DBOSContext
   \<Rightarrow> (string \<times> string option) list \<Rightarrow> ((wf_handle \<times> started option) list, 'w world) comp" where
  "recover_all en isoparse rg ids blank [] s = (Inr [], s)"
| "recover_all en isoparse rg ids blank (p # ps) s =
     (case recover_workflow en isoparse rg (fst (ids (length ps))) (snd (ids (length ps))) blank p s of
        (Inl e, s1) \<Rightarrow>
          if is_Exception e then recover_all en isoparse rg ids blank ps s1 else (Inl e, s1)
      | (Inr h, s1) \<Rightarrow>
          (case recover_all en isoparse rg ids blank ps s1 of
             (Inl e, s2) \<Rightarrow> (Inl e, s2) | (Inr hs, s2) \<Rightarrow> (Inr (h # hs), s2)))"

fun recover_pending_workflows ::
  "'w dbos_env \<Rightarrow> iso_parser \<Rightarrow> wf_registry \<Rightarrow> (nat \<Rightarrow> string \<times> string) \<Rightarrow> DBOSContext
   \<Rightarrow> string list \<Rightarrow> ((wf_handle \<times> started option) list, 'w world) comp" where
  "recover_pending_workflows en isoparse rg ids blank [] s = (Inr [], s)"
| "recover_pending_workflows en isoparse rg ids blank (ex # exs) s =
     comp_bind (recover_all en isoparse rg ids blank (get_pending_workflows ex (en_app_version en) (fst s)))
       (\<lambda>hs. comp_bind (recover_pending_workflows en isoparse rg ids blank exs) (\<lambda>hs'. evaluated (Inr (hs @ hs')))) s"

text \<open>
  One round of the startup thread: a workflow whose function is not registered yet stays in the list
  for the next round, every other one leaves it.
\<close>

fun startup_recovery_round ::
  "'w dbos_env \<Rightarrow> iso_parser \<Rightarrow> wf_registry \<Rightarrow> (nat \<Rightarrow> string \<times> string) \<Rightarrow> DBOSContext
   \<Rightarrow> (string \<times> string option) list \<Rightarrow> ((string \<times> string option) list, 'w world) comp" where
  "startup_recovery_round en isoparse rg ids blank [] s = (Inr [], s)"
| "startup_recovery_round en isoparse rg ids blank (p # ps) s =
     (case recover_workflow en isoparse rg (fst (ids (length ps))) (snd (ids (length ps))) blank p s of
        (Inr h, s1) \<Rightarrow> startup_recovery_round en isoparse rg ids blank ps s1
      | (Inl e, s1) \<Rightarrow>
          (case e of
             DBOSWorkflowFunctionNotFoundError _ _ \<Rightarrow>
               comp_bind (startup_recovery_round en isoparse rg ids blank ps) (\<lambda>rest. evaluated (Inr (p # rest)))
                 (fst s1, en_sleep en 1 (snd s1))
           | _ \<Rightarrow> if is_Exception e then startup_recovery_round en isoparse rg ids blank ps s1 else (Inl e, s1)))"

section \<open>Properties\<close>

lemma get_workflow_status_wid: "get_workflow_status wid db = Some st \<Longrightarrow> wi_workflow_uuid st = wid"
  by (auto simp: get_workflow_status_def split: option.splits)

lemma get_workflow_status_row:
  assumes "status_row db wid = Some wr"
  shows "\<exists>st. get_workflow_status wid db = Some st \<and> wi_serialization st = ws_serialization wr
    \<and> wi_inputs st = ws_inputs wr \<and> wi_name st = ws_name wr \<and> wi_queue_name st = ws_queue_name wr"
  using assms by (simp add: get_workflow_status_def)

lemma outcome_pending:
  "get_pending_workflows ex v (update_workflow_status (outcome_guard wid) (outcome_effect ERROR outp err now) db)
    = filter (\<lambda>p. fst p \<noteq> wid) (get_pending_workflows ex v db)"
proof -
  have "map (\<lambda>r. (ws_workflow_uuid r, ws_queue_name r)) (filter (\<lambda>r. ws_status r = PENDING \<and> ws_executor_id r = Some ex
        \<and> ws_application_version r = Some v) (sql_update (outcome_guard wid) (outcome_effect ERROR outp err now) t))
    = filter (\<lambda>p. fst p \<noteq> wid) (map (\<lambda>r. (ws_workflow_uuid r, ws_queue_name r)) (filter (\<lambda>r. ws_status r = PENDING
        \<and> ws_executor_id r = Some ex \<and> ws_application_version r = Some v) t))" for t
    by (induction t) (auto simp: sql_update_def outcome_guard_def outcome_effect_def)
  then show ?thesis by (simp add: get_pending_workflows_def update_workflow_status_def)
qed

text \<open>Marking a workflow as failed, and what awaiting it then gives.\<close>

lemma finalize_error_records:
  assumes law: "codecs_law (en_codecs en) (en_serializer en)" and inv: "sysdb_inv db"
    and row: "status_row db wid = Some wr" "ws_status wr \<noteq> CANCELLED"
    and ok: "persistable en (ws_serialization wr) (Inl e)"
  shows "\<exists>db' wr' r'. comp_bind (finalize_error en wid (ws_serialization wr) e) (\<lambda>_. evaluated (Inl e)) (db, w)
      = (Inl e :: 'a res, (db', w))
    \<and> status_row db' wid = Some wr' \<and> ws_status wr' = ERROR
    \<and> (\<forall>ex v. get_pending_workflows ex v db' = filter (\<lambda>p. fst p \<noteq> wid) (get_pending_workflows ex v db))
    \<and> (\<forall>dbs. await_result en wid (db' # dbs) = Some r') \<and> awaited_as en (ws_serialization wr) (Inl e) r'"
proof -
  from ok obtain t where t: "serialize_exception_for_persistence (en_reflection en) (en_codecs en) e (ws_serialization wr)
      (en_serializer en) = Inr t"
    by (auto simp: persistable_def)
  let ?db = "update_workflow_status (outcome_guard wid) (outcome_effect ERROR None (Some t) (en_clock en w)) db"
  obtain db' where db'_def: "db' = ?db" by blast
  have db': "update_workflow_outcome wid ERROR None (Some t) (en_clock en w) db = (Inr (), db')"
      "status_row db' wid = Some (outcome_effect ERROR None (Some t) (en_clock en w) wr)"
    using inv row outcome_recorded [OF row] update_workflow_outcome_eq [of db wid wr]
    by (simp_all add: db'_def sysdb_inv_def)
  have pend: "get_pending_workflows ex v db' = filter (\<lambda>p. fst p \<noteq> wid) (get_pending_workflows ex v db)" for ex v
    unfolding db'_def by (rule outcome_pending)
  have "await_result en wid (db' # dbs) = Some (Inl (if (case ws_serialization wr of None \<Rightarrow> ser_name (en_serializer en)
      | Some n \<Rightarrow> n) = ''portable_json'' then portable_error (en_reflection en) (persisted_error en (ws_serialization wr) e)
      else persisted_error en (ws_serialization wr) e))" for dbs
    using persisted_error_roundtrip [OF law t] db'(2)
    by (simp add: await_result_def check_workflow_result_def outcome_effect_def)
  with db' t pend show ?thesis
    by (auto simp: comp_bind_def finalize_error_def on_db_def evaluated_def awaited_as_def outcome_effect_def)
qed

text \<open>
  A workflow whose recorded inputs cannot be decoded is not recovered forever: executing it
  raises the decoding error, starts nothing, and marks the workflow ERROR with that error, which is
  what callers awaiting it get.
\<close>

theorem undecodable_inputs_fail:
  assumes law: "codecs_law (en_codecs en) (en_serializer en)" and inv: "sysdb_inv db"
    and row: "status_row db wid = Some wr" "ws_status wr \<noteq> CANCELLED" and id: "\<not> is_blank wid"
    and bad: "deserialize_args (en_codecs en) (ws_inputs wr) (ws_serialization wr) (en_serializer en) = Inl e"
    and ok: "persistable en (ws_serialization wr) (Inl e)"
  shows "\<exists>db' wr' r'. execute_workflow_by_id en isoparse rg uuid xid blank cur wid rec deq (db, w) = (Inl e, (db', w))
    \<and> status_row db' wid = Some wr' \<and> ws_status wr' = ERROR \<and> get_pending_workflows ex v db' = filter (\<lambda>p. fst p \<noteq> wid)
        (get_pending_workflows ex v db)
    \<and> (\<forall>dbs. await_result en wid (db' # dbs) = Some r') \<and> awaited_as en (ws_serialization wr) (Inl e) r'"
proof -
  from get_workflow_status_row [OF row(1)] obtain st where
    st: "get_workflow_status wid db = Some st" "wi_serialization st = ws_serialization wr" "wi_inputs st = ws_inputs wr" by blast
  have ex: "is_Exception e" using ok by (simp add: persistable_def)
  have run: "execute_workflow_by_id en isoparse rg uuid xid blank cur wid rec deq (db, w)
      = comp_bind (finalize_error en wid (ws_serialization wr) e) (\<lambda>_. evaluated (Inl e)) (db, w)"
    using st id bad ex by (simp add: execute_workflow_by_id_def Let_def)
  show ?thesis unfolding run using finalize_error_records [OF law inv row ok, of w] by auto
qed

definition recovery_codecs :: codecs where
  "recovery_codecs = \<lparr>json_dumps = (\<lambda>v. Inl TypeError), json_loads = (\<lambda>s. Inl TypeError),
     pickle_dumps = (\<lambda>v. if v = PExn TypeError then Inr ''type-error'' else Inl TypeError),
     pickle_loads = (\<lambda>s. if s = ''type-error'' then Inr (PExn TypeError) else Inl TypeError)\<rparr>"

definition recovery_env :: "nat dbos_env" where
  "recovery_env = step_env\<lparr>en_codecs := recovery_codecs, en_serializer := DBOSDefaultSerializer recovery_codecs\<rparr>"

theorem undecodable_inputs_fail_witness:
  "\<exists>db' wr'. execute_workflow_by_id recovery_env (\<lambda>s. None) \<lparr>rg_workflow_info_map = [], rg_instance_info_map = [],
      rg_class_info_map = []\<rparr> ''u'' ''x'' (new_context ''local'' ''app'') None ''a'' True False (example_db [''a''], 3)
      = (Inl TypeError, (db', 3))
    \<and> status_row db' ''a'' = Some wr' \<and> ws_status wr' = ERROR \<and> get_pending_workflows ''local'' ''v1'' db' = []
    \<and> await_result recovery_env ''a'' [db'] = Some (Inl TypeError)"
proof -
  let ?rg = "\<lparr>rg_workflow_info_map = [], rg_instance_info_map = [], rg_class_info_map = []\<rparr> :: wf_registry"
  let ?wr = "new_status_row (example_status ''a'') (Some ''x0'') 10"
  have law: "codecs_law (en_codecs recovery_env) (en_serializer recovery_env)"
    by (auto simp: codecs_law_def codec_law_def recovery_env_def recovery_codecs_def DBOSDefaultSerializer_def split: if_splits)
  have live: "ws_status ?wr \<noteq> CANCELLED" by (simp add: new_status_row_def example_status_def)
  have id: "\<not> is_blank ''a''" by (simp add: is_blank_def py_isspace_def of_char_def)
  have bad: "deserialize_args (en_codecs recovery_env) (ws_inputs ?wr) (ws_serialization ?wr) (en_serializer recovery_env)
      = Inl TypeError"
    by (simp add: new_status_row_def example_status_def deserialize_args_def)
       (simp add: recovery_env_def DBOSDefaultSerializer_def recovery_codecs_def)
  have ser: "serialize_exception (en_reflection recovery_env) (en_codecs recovery_env) TypeError (ws_serialization ?wr)
      (en_serializer recovery_env) = Inr (''type-error'', ''py_pickle'')"
    by (simp add: new_status_row_def example_status_def serialize_exception_def)
       (simp add: recovery_env_def DBOSDefaultSerializer_def recovery_codecs_def)
  have ok: "persistable recovery_env (ws_serialization ?wr) (Inl TypeError)"
    using ser by (simp add: persistable_def serialize_exception_for_persistence_def is_Exception_def CancelledError_def)
  have inv: "sysdb_inv (example_db [''a''])" by (rule example_inv) simp
  have pend: "get_pending_workflows ''local'' ''v1'' (example_db [''a'']) = [(''a'', None)]"
    by (simp add: get_pending_workflows_def example_db_def new_status_row_def example_status_def)
  have "awaited_as recovery_env (ws_serialization ?wr) (Inl TypeError) r' \<Longrightarrow> r' = Inl TypeError" for r'
    using ser by (simp add: awaited_as_def persisted_error_def) (simp add: new_status_row_def example_status_def)
  with undecodable_inputs_fail [OF law inv example_row live id bad ok, of "\<lambda>s. None" ?rg "''u''" "''x''"
      "new_context ''local'' ''app''" None True False 3 "''local''" "''v1''"] pend
  show ?thesis by auto
qed

text \<open>A pending workflow of a queue goes back to the queue; it is not started by recovery.\<close>

lemma recover_queued:
  assumes "q \<noteq> []" "status_row db wid = Some wr" "ws_status wr = PENDING" "ws_queue_name wr \<noteq> None"
  shows "\<exists>db'. recover_workflow en isoparse rg uuid xid blank (wid, Some q) (db, w) = (Inr (HandlePolling wid, None), (db', w))
    \<and> map_option ws_status (status_row db' wid) = Some ENQUEUED"
  using assms status_row_SomeD [OF assms(2)]
  by (simp add: recover_workflow_def clear_queue_assignment_def clear_upd.update_row)
     (simp add: clear_guard_def clear_effect_def)

text \<open>
  After a round of the startup thread the list holds only workflows whose functions are unknown, in
  their old order; the round ends unless an error that is no \<^verbatim>\<open>Exception\<close> stops it.
\<close>

lemma startup_round_rest:
  assumes "startup_recovery_round en isoparse rg ids blank ps s = (Inr rest, s')"
  shows "set rest \<subseteq> set ps \<and> length rest \<le> length ps"
  using assms
proof (induction ps arbitrary: s rest)
  case (Cons p ps)
  obtain r s1 where r: "recover_workflow en isoparse rg (fst (ids (length ps))) (snd (ids (length ps))) blank p s = (r, s1)"
    by (cases "recover_workflow en isoparse rg (fst (ids (length ps))) (snd (ids (length ps))) blank p s")
  show ?case
  proof (cases "\<exists>s2. startup_recovery_round en isoparse rg ids blank ps s2 = (Inr rest, s')")
    case True
    with Cons.IH show ?thesis by fastforce
  next
    case False
    then have "startup_recovery_round en isoparse rg ids blank ps s1 \<noteq> (Inr rest, s')" by blast
    with Cons.prems r obtain s2 rest' where
      "startup_recovery_round en isoparse rg ids blank ps s2 = (Inr rest', s')" "rest = p # rest'"
      by (cases r) (auto simp: comp_bind_def evaluated_def split: dbos_error.splits if_splits prod.splits sum.splits)
    with Cons.IH show ?thesis by fastforce
  qed
qed auto

end
