(* ===== verification/DBOS_App_DB.thy ===== *)
theory DBOS_App_DB
  imports DBOS_Constraints
begin

text \<open>
  The application database (\<^verbatim>\<open>dbos/_app_db.py\<close>, \<^verbatim>\<open>dbos/_schemas/application_database.py\<close>): the table
  of transaction outputs that lives beside the user's own data, so that a transaction's effect and
  the record of it commit together. The batched garbage collection is shown to terminate and to
  delete exactly what one unbatched statement would.
\<close>

section \<open>State\<close>

record transaction_output_row =
  to_workflow_uuid :: string
  to_function_id :: int
  to_output :: "string option"
  to_error :: "string option"
  to_txn_id :: "string option"
  to_txn_snapshot :: string
  to_executor_id :: "string option"
  to_function_name :: string
  to_created_at :: int

record 'd app_db =
  app_data :: 'd
  transaction_outputs :: "transaction_output_row list"

abbreviation to_pk :: "transaction_output_row \<Rightarrow> string \<times> int" where
  "to_pk r \<equiv> (to_workflow_uuid r, to_function_id r)"

definition app_inv :: "'d app_db \<Rightarrow> bool" where
  "app_inv app \<longleftrightarrow> distinct (map to_pk (transaction_outputs app))"

record TransactionResultInternal =
  tr_workflow_uuid :: string
  tr_function_id :: int
  tr_output :: "string option"
  tr_error :: "string option"
  tr_serialization :: "string option"
  tr_txn_snapshot :: string
  tr_executor_id :: "string option"
  tr_function_name :: string

record TxnRecordedResult =
  xr_output :: "string option"
  xr_error :: "string option"
  xr_serialization :: "string option"

section \<open>Recording\<close>

definition insert_transaction_output :: "transaction_output_row \<Rightarrow> 'd app_db \<Rightarrow> 'd app_db res" where
  "insert_transaction_output r app =
     (if to_pk r \<in> to_pk ` set (transaction_outputs app) then Inl UniqueViolation
      else Inr (app\<lparr>transaction_outputs := transaction_outputs app @ [r]\<rparr>))"

definition transaction_row :: "TransactionResultInternal \<Rightarrow> string option \<Rightarrow> string option \<Rightarrow> int \<Rightarrow> transaction_output_row" where
  "transaction_row tr out err now = \<lparr>to_workflow_uuid = tr_workflow_uuid tr, to_function_id = tr_function_id tr,
     to_output = out, to_error = err, to_txn_id = Some [], to_txn_snapshot = tr_txn_snapshot tr,
     to_executor_id = (if tr_executor_id tr = Some [] then None else tr_executor_id tr),
     to_function_name = tr_function_name tr, to_created_at = now\<rparr>"

definition conflict_error :: "string \<Rightarrow> 'a res \<Rightarrow> 'a res" where
  "conflict_error wid r = (case r of
     Inl e \<Rightarrow> Inl (if e = UniqueViolation then DBOSWorkflowConflictIDError wid else e) | Inr x \<Rightarrow> Inr x)"

definition record_transaction_output :: "TransactionResultInternal \<Rightarrow> int \<Rightarrow> 'd app_db \<Rightarrow> 'd app_db res" where
  "record_transaction_output tr now app = conflict_error (tr_workflow_uuid tr)
     (insert_transaction_output (transaction_row tr (tr_output tr) None now) app)"

definition record_transaction_error :: "TransactionResultInternal \<Rightarrow> int \<Rightarrow> 'd app_db \<Rightarrow> 'd app_db res" where
  "record_transaction_error tr now app = conflict_error (tr_workflow_uuid tr)
     (insert_transaction_output (transaction_row tr None (tr_error tr) now) app)"

definition transaction_output_of :: "'d app_db \<Rightarrow> string \<Rightarrow> int \<Rightarrow> transaction_output_row option" where
  "transaction_output_of app wid fid = fetchone (filter (\<lambda>r. to_pk r = (wid, fid)) (transaction_outputs app))"

definition check_transaction_execution :: "string \<Rightarrow> int \<Rightarrow> string \<Rightarrow> 'd app_db \<Rightarrow> TxnRecordedResult option res" where
  "check_transaction_execution wid fid name app = (case transaction_output_of app wid fid of
     None \<Rightarrow> Inr None
   | Some r \<Rightarrow>
       if name \<noteq> to_function_name r then Inl (DBOSUnexpectedStepError wid fid name (to_function_name r))
       else Inr (Some \<lparr>xr_output = to_output r, xr_error = to_error r, xr_serialization = None\<rparr>))"

definition delete_transaction_outputs :: "string list \<Rightarrow> 'd app_db \<Rightarrow> 'd app_db" where
  "delete_transaction_outputs wids app = app\<lparr>transaction_outputs :=
     sql_delete (\<lambda>r. to_workflow_uuid r \<in> set wids) (transaction_outputs app)\<rparr>"

section \<open>Garbage collection\<close>

definition app_gc_condition :: "int \<Rightarrow> string list \<Rightarrow> transaction_output_row \<Rightarrow> bool" where
  "app_gc_condition cutoff pending r \<longleftrightarrow> to_created_at r < cutoff
     \<and> (pending = [] \<or> to_workflow_uuid r \<notin> set pending)"

lemma app_gc_step_row:
  assumes "nth_row k (sort (map to_created_at (filter Q t))) = Some s"
  shows "\<exists>r \<in> set t. Q r \<and> to_created_at r = s"
  using nth_row_SomeD [OF assms] by auto

lemma sql_delete_shorter: "r \<in> set t \<Longrightarrow> P r \<Longrightarrow> length (sql_delete P t) < length t"
  unfolding sql_delete_def by (rule length_filter_less) auto

text \<open>
  The loop over batches: \<open>step\<close> is the creation time of the last row of the batch, the oldest
  \<open>batch_size\<close> eligible rows above the watermark.
\<close>

function app_gc_batches ::
  "int \<Rightarrow> string list \<Rightarrow> nat \<Rightarrow> int \<Rightarrow> transaction_output_row list \<Rightarrow> transaction_output_row list" where
  "app_gc_batches cutoff pending batch_size watermark t =
     (let P = app_gc_condition cutoff pending in
      case nth_row (batch_size - 1) (sort (map to_created_at (filter (\<lambda>r. P r \<and> to_created_at r > watermark) t))) of
        None \<Rightarrow> sql_delete P t
      | Some s \<Rightarrow> app_gc_batches cutoff pending batch_size s
          (sql_delete (\<lambda>r. P r \<and> to_created_at r > watermark \<and> to_created_at r \<le> s) t))"
  by pat_completeness auto

termination
proof (relation "measure (\<lambda>(cutoff, pending, batch_size, watermark, t). length t)", goal_cases)
  case (2 cutoff pending batch_size watermark t P s)
  then obtain r where "r \<in> set t" "P r" "to_created_at r > watermark" "to_created_at r = s"
    using app_gc_step_row by blast
  then show ?case using sql_delete_shorter [of r t "\<lambda>r. P r \<and> to_created_at r > watermark \<and> to_created_at r \<le> s"] 2(1)
    by simp
qed simp

declare app_gc_batches.simps [simp del]

definition app_garbage_collect :: "int \<Rightarrow> string list \<Rightarrow> int option \<Rightarrow> 'd app_db \<Rightarrow> 'd app_db res" where
  "app_garbage_collect cutoff pending batch_size app = (case batch_size of
     Some b \<Rightarrow>
       if b < 1 then Inl ValueError
       else Inr (app\<lparr>transaction_outputs := app_gc_batches cutoff pending (nat b) 0 (transaction_outputs app)\<rparr>)
   | None \<Rightarrow> Inr (app\<lparr>transaction_outputs := sql_delete (app_gc_condition cutoff pending) (transaction_outputs app)\<rparr>))"

section \<open>Properties\<close>

lemma sql_delete_twice:
  "(\<And>r. r \<in> set t \<Longrightarrow> Q r \<Longrightarrow> P r) \<Longrightarrow> sql_delete P (sql_delete Q t) = sql_delete P t"
  unfolding sql_delete_def filter_filter by (rule filter_cong) auto

lemma app_gc_batches_eq: "app_gc_batches cutoff pending b watermark t = sql_delete (app_gc_condition cutoff pending) t"
proof (induction cutoff pending b watermark t rule: app_gc_batches.induct)
  case (1 cutoff pending b watermark t)
  show ?case
  proof (cases "nth_row (b - 1) (sort (map to_created_at (filter (\<lambda>r. app_gc_condition cutoff pending r
      \<and> to_created_at r > watermark) t)))")
    case None
    then show ?thesis by (simp add: app_gc_batches.simps Let_def)
  next
    case (Some s)
    then have "app_gc_batches cutoff pending b watermark t = sql_delete (app_gc_condition cutoff pending)
        (sql_delete (\<lambda>r. app_gc_condition cutoff pending r \<and> to_created_at r > watermark \<and> to_created_at r \<le> s) t)"
      using 1 by (simp add: app_gc_batches.simps [of cutoff pending b watermark t] Let_def)
    also have "\<dots> = sql_delete (app_gc_condition cutoff pending) t" by (rule sql_delete_twice) simp
    finally show ?thesis .
  qed
qed

text \<open>
  Deleting in batches is deleting at once: for every batch size the collection ends, and leaves
  exactly the rows that a single statement without batches leaves, namely those that are recent or
  belong to a pending workflow; a batch size below one is refused and nothing is deleted.
\<close>

theorem app_garbage_collect_batched:
  "app_garbage_collect cutoff pending (Some b) app =
     (if b < 1 then Inl ValueError else app_garbage_collect cutoff pending None app)
   \<and> app_garbage_collect cutoff pending None app = Inr (app\<lparr>transaction_outputs :=
       filter (\<lambda>r. to_created_at r \<ge> cutoff \<or> to_workflow_uuid r \<in> set pending) (transaction_outputs app)\<rparr>)"
proof -
  have "sql_delete (app_gc_condition cutoff pending) t
      = filter (\<lambda>r. to_created_at r \<ge> cutoff \<or> to_workflow_uuid r \<in> set pending) t" for t
    unfolding sql_delete_def by (rule filter_cong) (auto simp: app_gc_condition_def)
  then show ?thesis by (simp add: app_garbage_collect_def app_gc_batches_eq)
qed

lemma insert_transaction_output_inv: "app_inv app \<Longrightarrow> insert_transaction_output r app = Inr app' \<Longrightarrow> app_inv app'"
  by (auto simp: insert_transaction_output_def app_inv_def split: if_splits)

lemma conflict_error_Inr [simp]: "conflict_error wid r = Inr x \<longleftrightarrow> r = Inr x"
  by (simp add: conflict_error_def split: sum.splits)

lemma app_ops_inv:
  assumes "app_inv app"
  shows "record_transaction_output tr now app = Inr app' \<Longrightarrow> app_inv app'"
    "record_transaction_error tr now app = Inr app' \<Longrightarrow> app_inv app'"
    "app_inv (delete_transaction_outputs wids app)"
    "app_garbage_collect cutoff pending b app = Inr app' \<Longrightarrow> app_inv app'"
proof -
  show "app_inv app'" if "record_transaction_output tr now app = Inr app'"
    using that insert_transaction_output_inv [OF assms] by (simp add: record_transaction_output_def)
  show "app_inv app'" if "record_transaction_error tr now app = Inr app'"
    using that insert_transaction_output_inv [OF assms] by (simp add: record_transaction_error_def)
  show "app_inv (delete_transaction_outputs wids app)"
    using assms map_key_sql_delete_distinct [of to_pk "transaction_outputs app"]
    by (simp add: app_inv_def delete_transaction_outputs_def)
  show "app_inv app'" if "app_garbage_collect cutoff pending b app = Inr app'"
    using that assms map_key_sql_delete_distinct [of to_pk "transaction_outputs app"]
    by (auto simp: app_garbage_collect_def app_gc_batches_eq app_inv_def split: option.splits if_splits)
qed

lemma transaction_output_append:
  "transaction_output_of app (to_workflow_uuid r) (to_function_id r) = None \<Longrightarrow>
   transaction_output_of (app'\<lparr>transaction_outputs := transaction_outputs app @ [r]\<rparr>) (to_workflow_uuid r) (to_function_id r)
     = Some r"
  by (simp add: transaction_output_of_def)

lemma insert_transaction_fresh:
  "transaction_output_of app (to_workflow_uuid r) (to_function_id r) = None \<Longrightarrow>
   insert_transaction_output r app = Inr (app\<lparr>transaction_outputs := transaction_outputs app @ [r]\<rparr>)"
  by (auto simp: insert_transaction_output_def transaction_output_of_def filter_empty_conv)

end
