(* ===== verification/DBOS_Transactions.thy ===== *)
theory DBOS_Transactions
  imports DBOS_App_DB DBOS_Steps
begin

text \<open>
  Transactions (\<^verbatim>\<open>decorate_transaction\<close> of \<^verbatim>\<open>dbos/_core.py\<close>): a user function run in one transaction of
  the application database, retried on serialization failures, with its outcome recorded first in
  that database, atomically with the function's effect, and then in the system database. The two
  databases do not commit together: a process may stop between the two records. The theorem shows
  that the effect still happens exactly once.
\<close>

section \<open>One attempt\<close>

type_synonym ('d, 'v) tx_world = "sysdb \<times> 'd app_db \<times> 'v"
type_synonym ('d, 'v) tx_func = "DBOSContext \<Rightarrow> 'd \<times> 'v \<Rightarrow> pyval res \<times> ('d \<times> 'v)"

text \<open>
  How an attempt ends: with the outcome found in the application database, with a committed execution
  of the function, or with an error (the flag: it was already recorded). \<open>commit_err\<close> is the error that
  committing this attempt raises, if any; an attempt that does not commit leaves the application
  database as it was, while the rest of the world keeps the function's effects. A commit that takes effect although
  its answer is lost is not modelled here (it is for data sources).
\<close>

datatype tx_outcome = TxReturned pyval | TxCommitted pyval | TxFailed dbos_error bool

definition txn_output :: "DBOSContext \<Rightarrow> string \<Rightarrow> string option \<Rightarrow> string option \<Rightarrow> string option \<Rightarrow> TransactionResultInternal" where
  "txn_output c name out err ser = \<lparr>tr_workflow_uuid = cx_workflow_id c, tr_function_id = cx_function_id c,
     tr_output = out, tr_error = err, tr_serialization = ser, tr_txn_snapshot = [], tr_executor_id = None,
     tr_function_name = name\<rparr>"

definition is_recorded :: "string option \<Rightarrow> bool" where
  "is_recorded x \<longleftrightarrow> x \<noteq> None \<and> x \<noteq> Some []"

text \<open>The outcome found in the application database, copied to the system database.\<close>

definition tx_recorded ::
  "'v dbos_env \<Rightarrow> DBOSContext \<Rightarrow> string \<Rightarrow> int \<Rightarrow> TxnRecordedResult \<Rightarrow> ('d, 'v) tx_world \<Rightarrow> tx_outcome \<times> ('d, 'v) tx_world" where
  "tx_recorded en c name start rr s = (case s of (db, app, v) \<Rightarrow>
     let wid = cx_workflow_id c; fid = cx_function_id c in
     if is_recorded (xr_error rr)
     then (case deserialize_exception (en_codecs en) (the (xr_error rr)) (xr_serialization rr) (en_serializer en) of
             Inl e' \<Rightarrow> (TxFailed e' False, s)
           | Inr e \<Rightarrow>
               (case record_operation_result (en_executor_id en)
                       (step_error_result wid fid name start (the (xr_error rr)) (xr_serialization rr)) (en_clock en v) db of
                  (Inl e', db1) \<Rightarrow> (TxFailed e' True, (db1, app, v))
                | (Inr _, db1) \<Rightarrow> (TxFailed e True, (db1, app, v))))
     else if is_recorded (xr_output rr)
     then (case record_operation_result (en_executor_id en)
                  (step_result wid fid name start (the (xr_output rr)) (xr_serialization rr)) (en_clock en v) db of
             (Inl e', db1) \<Rightarrow> (TxFailed e' False, (db1, app, v))
           | (Inr _, db1) \<Rightarrow>
               (case deserialize_value (en_codecs en) (xr_output rr) (xr_serialization rr) (en_serializer en) of
                  Inl e' \<Rightarrow> (TxFailed e' False, (db1, app, v))
                | Inr out \<Rightarrow> (TxReturned out, (db1, app, v))))
     else (TxFailed (PyException ''Output and error are both None'') False, s))"

definition tx_execute ::
  "'v dbos_env \<Rightarrow> DBOSContext \<Rightarrow> string \<Rightarrow> ('d, 'v) tx_func \<Rightarrow> ('d, 'v) tx_world \<Rightarrow> tx_outcome \<times> ('d, 'v) tx_world" where
  "tx_execute en c name func s = (case s of (db, app, v) \<Rightarrow>
     (case func c (app_data app, v) of
        (Inl e, (d1, v1)) \<Rightarrow> (TxFailed e False, (db, app, v1))
      | (Inr out, (d1, v1)) \<Rightarrow>
          (case serialize_value (en_codecs en) out None (en_serializer en) of
             Inl e \<Rightarrow> (TxFailed e False, (db, app, v1))
           | Inr (t, ser) \<Rightarrow>
               (case record_transaction_output (txn_output c name (Some t) None (Some ser)) (en_clock en v1)
                       (app\<lparr>app_data := d1\<rparr>) of
                  Inl e \<Rightarrow> (TxFailed e False, (db, app, v1))
                | Inr app2 \<Rightarrow> (TxCommitted out, (db, app2, v1))))))"

definition tx_attempt ::
  "'v dbos_env \<Rightarrow> DBOSContext \<Rightarrow> string \<Rightarrow> int \<Rightarrow> ('d, 'v) tx_func \<Rightarrow> dbos_error option \<Rightarrow> ('d, 'v) tx_world
   \<Rightarrow> tx_outcome \<times> ('d, 'v) tx_world" where
  "tx_attempt en c name start func commit_err s = (case s of (db, app, v) \<Rightarrow>
     (case (case check_transaction_execution (cx_workflow_id c) (cx_function_id c) name app of
              Inl e \<Rightarrow> (TxFailed e False, s)
            | Inr (Some rr) \<Rightarrow> tx_recorded en c name start rr s
            | Inr None \<Rightarrow> tx_execute en c name func s) of
        (TxFailed e b, s1) \<Rightarrow> (TxFailed e b, s1)
      | (ended, (db1, app1, v1)) \<Rightarrow>
          (case commit_err of None \<Rightarrow> (ended, (db1, app1, v1)) | Some e \<Rightarrow> (TxFailed e False, (db1, app, v1)))))"

section \<open>The retry loop\<close>

text \<open>
  The errors that the driver reports as retriable (a lost connection, a serialization failure, a
  deadlock) are a parameter, as are the errors that the commits of the successive attempts raise. \<open>fuel\<close> bounds the attempts; \<open>None\<close>: the loop is
  still retrying.
\<close>

definition tx_fail ::
  "'v dbos_env \<Rightarrow> DBOSContext \<Rightarrow> string \<Rightarrow> int \<Rightarrow> dbos_error \<Rightarrow> bool \<Rightarrow> ('d, 'v) tx_world \<Rightarrow> pyval res \<times> ('d, 'v) tx_world" where
  "tx_fail en c name start e recorded s =
     (if recorded \<or> \<not> is_Exception e \<or> (\<exists>a b x y. e = DBOSUnexpectedStepError a b x y) then (Inl e, s)
      else case s of (db, app, v) \<Rightarrow>
        (case serialize_exception (en_reflection en) (en_codecs en) e None (en_serializer en) of
           Inl e' \<Rightarrow> (Inl e', s)
         | Inr (err, ser) \<Rightarrow>
             (case record_transaction_error (txn_output c name None (Some err) (Some ser)) (en_clock en v) app of
                Inl e' \<Rightarrow> (Inl e', s)
              | Inr app2 \<Rightarrow>
                  (case record_operation_result (en_executor_id en)
                          (step_error_result (cx_workflow_id c) (cx_function_id c) name start err (Some ser))
                          (en_clock en v) db of
                     (Inl e', db1) \<Rightarrow> (Inl e', (db1, app2, v))
                   | (Inr _, db1) \<Rightarrow> (Inl e, (db1, app2, v))))))"

definition tx_done ::
  "'v dbos_env \<Rightarrow> DBOSContext \<Rightarrow> string \<Rightarrow> int \<Rightarrow> pyval \<Rightarrow> ('d, 'v) tx_world \<Rightarrow> pyval res \<times> ('d, 'v) tx_world" where
  "tx_done en c name start out s = (case s of (db, app, v) \<Rightarrow>
     (case serialize_value (en_codecs en) out None (en_serializer en) of
        Inl e \<Rightarrow> (Inl e, s)
      | Inr (t, ser) \<Rightarrow>
          (case record_operation_result (en_executor_id en)
                  (step_result (cx_workflow_id c) (cx_function_id c) name start t (Some ser)) (en_clock en v) db of
             (Inl e, db1) \<Rightarrow> (Inl e, (db1, app, v))
           | (Inr _, db1) \<Rightarrow> (Inr out, (db1, app, v)))))"

fun tx_loop ::
  "'v dbos_env \<Rightarrow> (dbos_error \<Rightarrow> bool) \<Rightarrow> (nat \<Rightarrow> dbos_error option) \<Rightarrow> DBOSContext \<Rightarrow> string \<Rightarrow> int \<Rightarrow> ('d, 'v) tx_func
   \<Rightarrow> nat \<Rightarrow> nat \<Rightarrow> rat \<Rightarrow> ('d, 'v) tx_world \<Rightarrow> pyval res option \<times> ('d, 'v) tx_world" where
  "tx_loop en retriable commits c name start func 0 i wait s = (None, s)"
| "tx_loop en retriable commits c name start func (Suc fuel) i wait s =
     (case tx_attempt en c name start func (commits i) s of
        (TxReturned out, s1) \<Rightarrow> (Some (Inr out), s1)
      | (TxCommitted out, s1) \<Rightarrow> (case tx_done en c name start out s1 of (r, s2) \<Rightarrow> (Some r, s2))
      | (TxFailed e recorded, s1) \<Rightarrow>
          if retriable e
          then tx_loop en retriable commits c name start func fuel (Suc i) (min (wait * (3 / 2)) 2)
                 (fst s1, fst (snd s1), en_sleep en wait (snd (snd s1)))
          else (case tx_fail en c name start e recorded s1 of (r, s2) \<Rightarrow> (Some r, s2)))"

section \<open>Invoking a transaction\<close>

text \<open>
  The replay of a recorded transaction: as in the code, the second argument of the decoding is the
  checkpoint's child workflow ID (which a transaction does not have) and not its serialization.
\<close>

definition tx_replay :: "'v dbos_env \<Rightarrow> RecordedResult \<Rightarrow> pyval res" where
  "tx_replay en rr =
     (if is_recorded (rr_error rr)
      then res_bind (deserialize_exception (en_codecs en) (the (rr_error rr)) (rr_serialization rr) (en_serializer en)) Inl
      else if is_recorded (rr_output rr)
      then deserialize_value (en_codecs en) (rr_output rr) (rr_child_workflow_id rr) (en_serializer en)
      else Inl (PyException ''Output and error are both None''))"

definition tx_context :: "DBOSContext \<Rightarrow> DBOSContext" where
  "tx_context c = start_transaction (cx_function_id c + 1) (c\<lparr>cx_function_id := cx_function_id c + 1\<rparr>)"

definition invoke_tx ::
  "'v dbos_env \<Rightarrow> (dbos_error \<Rightarrow> bool) \<Rightarrow> (nat \<Rightarrow> dbos_error option) \<Rightarrow> nat \<Rightarrow> string \<Rightarrow> ('d, 'v) tx_func \<Rightarrow> DBOSContext
   \<Rightarrow> ('d, 'v) tx_world \<Rightarrow> pyval res option \<times> ('d, 'v) tx_world" where
  "invoke_tx en retriable commits fuel name func ctx s =
     (if \<not> is_workflow ctx then (Some (Inl AssertionError), s)
      else let c = tx_context ctx in
        (case check_operation_execution (cx_workflow_id c) (cx_function_id c) name (fst s) of
           (Inl e, db1) \<Rightarrow> (Some (Inl e), (db1, snd s))
         | (Inr (Some rr), db1) \<Rightarrow> (Some (tx_replay en rr), (db1, snd s))
         | (Inr None, db1) \<Rightarrow>
             tx_loop en retriable commits c name (en_clock en (snd (snd s))) func fuel 0 (1 / 1000) (db1, snd s)))"

section \<open>Properties\<close>

lemma tx_context_ids [simp]:
  "cx_workflow_id (tx_context c) = cx_workflow_id c" "cx_function_id (tx_context c) = cx_function_id c + 1"
  by (simp_all add: tx_context_def start_transaction_def)

lemma deserialize_default_format:
  assumes law: "codecs_law cs sz" and ser: "serialize_value cs v None sz = Inr (t, n)"
  shows "n = ser_name sz" "deserialize_value cs (Some t) None sz = deserialize_value cs (Some t) (Some n) sz"
proof -
  show n: "n = ser_name sz" using ser
    by (auto simp: serialize_value_def serialize_value_as_def serialization_for_type_def res_bind_Inr_iff split: if_splits)
  show "deserialize_value cs (Some t) None sz = deserialize_value cs (Some t) (Some n) sz"
    using law by (auto simp: n deserialize_value_def codecs_law_def)
qed

text \<open>A retried attempt changes neither database; a committed one is one execution of the function.\<close>

lemma tx_attempt_fresh:
  assumes fresh: "transaction_output_of app (cx_workflow_id c) (cx_function_id c) = None"
    and att: "tx_attempt en c name start func cm (db, app, v) = (x, (db1, app1, v1))"
  shows "case x of
      TxReturned out \<Rightarrow> False
    | TxFailed e b \<Rightarrow> db1 = db \<and> app1 = app \<and> \<not> b
    | TxCommitted out \<Rightarrow> db1 = db \<and> (\<exists>d t ser. func c (app_data app, v) = (Inr out, (d, v1))
        \<and> serialize_value (en_codecs en) out None (en_serializer en) = Inr (t, ser)
        \<and> app1 = app\<lparr>app_data := d, transaction_outputs := transaction_outputs app
             @ [transaction_row (txn_output c name (Some t) None (Some ser)) (Some t) None (en_clock en v1)]\<rparr>)"
proof -
  have chk: "check_transaction_execution (cx_workflow_id c) (cx_function_id c) name app = Inr None"
    using fresh by (simp add: check_transaction_execution_def)
  obtain r d2 v2 where f: "func c (app_data app, v) = (r, (d2, v2))" by (metis prod.exhaust)
  show ?thesis
  proof (cases r)
    case (Inl e)
    with att chk f show ?thesis by (auto simp: tx_attempt_def tx_execute_def)
  next
    case (Inr out)
    show ?thesis
    proof (cases "serialize_value (en_codecs en) out None (en_serializer en)")
      case (Inl e)
      with att chk f Inr show ?thesis by (auto simp: tx_attempt_def tx_execute_def)
    next
      case ser: (Inr ts)
      obtain t n where ts: "ts = (t, n)" by (cases ts)
      let ?row = "transaction_row (txn_output c name (Some t) None (Some n)) (Some t) None (en_clock en v2)"
      let ?app = "app\<lparr>app_data := d2\<rparr>"
      have "transaction_output_of ?app (to_workflow_uuid ?row) (to_function_id ?row) = None"
        using fresh by (simp add: transaction_output_of_def transaction_row_def txn_output_def)
      from insert_transaction_fresh [OF this]
      have "record_transaction_output (txn_output c name (Some t) None (Some n)) (en_clock en v2) ?app
        = Inr (?app\<lparr>transaction_outputs := transaction_outputs app @ [?row]\<rparr>)"
        by (simp add: record_transaction_output_def conflict_error_def) (simp add: txn_output_def)
      with att chk f Inr ser ts show ?thesis
        by (auto simp: tx_attempt_def tx_execute_def split: option.splits)
    qed
  qed
qed

lemma tx_fail_Inl: "\<exists>e'. fst (tx_fail en c name start e b s) = Inl e'"
  by (auto simp: tx_fail_def split: sum.splits prod.splits)

text \<open>The loop ends with a value only after one committed execution, whose record is in both databases.\<close>

lemma tx_loop_success:
  assumes fresh: "transaction_output_of app (cx_workflow_id c) (cx_function_id c) = None"
    and run: "tx_loop en retriable commits c name start func fuel i wait (db, app, v) = (Some (Inr out), (db', app', v'))"
  shows "\<exists>vk d t ser. func c (app_data app, vk) = (Inr out, (d, v'))
    \<and> serialize_value (en_codecs en) out None (en_serializer en) = Inr (t, ser)
    \<and> app' = app\<lparr>app_data := d, transaction_outputs := transaction_outputs app
         @ [transaction_row (txn_output c name (Some t) None (Some ser)) (Some t) None (en_clock en v')]\<rparr>
    \<and> record_operation_result (en_executor_id en)
        (step_result (cx_workflow_id c) (cx_function_id c) name start t (Some ser)) (en_clock en v') db = (Inr (), db')"
  using run
proof (induction fuel arbitrary: i wait v)
  case (Suc fuel)
  obtain x db1 app1 v1 where att: "tx_attempt en c name start func (commits i) (db, app, v) = (x, (db1, app1, v1))"
    by (metis prod.exhaust)
  note fr = tx_attempt_fresh [OF fresh att]
  show ?case
  proof (cases x)
    case (TxReturned out1)
    with fr show ?thesis by simp
  next
    case (TxFailed e b)
    with fr have db1: "db1 = db" "app1 = app" by auto
    show ?thesis
    proof (cases "retriable e")
      case True
      with Suc.prems att TxFailed db1 show ?thesis by (intro Suc.IH) simp
    next
      case False
      with Suc.prems att TxFailed tx_fail_Inl [of en c name start e b "(db, app, v1)"] db1 show ?thesis
        by (auto split: prod.splits)
    qed
  next
    case (TxCommitted out1)
    with fr obtain d t ser where f: "db1 = db" "func c (app_data app, v) = (Inr out1, (d, v1))"
      "serialize_value (en_codecs en) out1 None (en_serializer en) = Inr (t, ser)"
      "app1 = app\<lparr>app_data := d, transaction_outputs := transaction_outputs app
         @ [transaction_row (txn_output c name (Some t) None (Some ser)) (Some t) None (en_clock en v1)]\<rparr>" by auto
    obtain r db2 where rec: "record_operation_result (en_executor_id en)
        (step_result (cx_workflow_id c) (cx_function_id c) name start t (Some ser)) (en_clock en v1) db = (r, db2)"
      by (metis prod.exhaust)
    with Suc.prems att TxCommitted f have "r = Inr ()" "db2 = db'" "out1 = out" "app1 = app'" "v1 = v'"
      by (auto simp: tx_done_def split: sum.splits)
    with f rec show ?thesis by blast
  qed
qed simp

text \<open>A transaction found in the application database: its output is copied, the function does not run.\<close>

lemma tx_loop_recorded:
  assumes row: "transaction_output_of app (cx_workflow_id c) (cx_function_id c) = Some r" "to_function_name r = name"
      "to_error r = None" "to_output r = Some t" "t \<noteq> []"
    and des: "deserialize_value (en_codecs en) (Some t) None (en_serializer en) = Inr out"
    and alive: "status_row db (cx_workflow_id c) = Some wr"
    and none: "operation_row db (cx_workflow_id c) (cx_function_id c) = None" and cm: "commits i = None"
  shows "\<exists>db1. tx_loop en retriable commits c name start func (Suc fuel) i wait (db, app, v) = (Some (Inr out), (db1, app, v))
    \<and> operation_row db1 (cx_workflow_id c) (cx_function_id c) \<noteq> None"
proof -
  let ?res = "step_result (cx_workflow_id c) (cx_function_id c) name start t None"
  obtain db1 where rec: "record_operation_result (en_executor_id en) ?res (en_clock en v) db = (Inr (), db1)"
    using record_operation_fresh [of db ?res] alive none by (simp add: record_operation_result_def step_result_def)
  have "operation_row db1 (cx_workflow_id c) (cx_function_id c) \<noteq> None"
    using record_operation_result_row [OF rec] none by (simp add: step_result_def)
  moreover have "tx_attempt en c name start func (commits i) (db, app, v) = (TxReturned out, (db1, app, v))"
    using row des rec cm
    by (simp add: tx_attempt_def check_transaction_execution_def tx_recorded_def is_recorded_def)
  ultimately show ?thesis by simp
qed

text \<open>
  C6: A transaction takes effect exactly once. If a transaction returned a value, the application
  data is what one execution of the function made of it. From then on, as long as the application
  database keeps its record, invoking it again returns the same value, runs nothing and changes
  neither the application database nor the rest of the world; this holds both when the system
  database has the checkpoint and when the process had stopped before writing it.
\<close>

theorem transaction_exactly_once:
  fixes app :: "'d app_db"
  assumes law: "codecs_law (en_codecs en) (en_serializer en)" and wf: "is_workflow ctx"
    and fresh: "check_operation_execution_txn (cx_workflow_id ctx) (cx_function_id ctx + 1) name db = Inr None"
      "transaction_output_of app (cx_workflow_id ctx) (cx_function_id ctx + 1) = None"
    and run: "invoke_tx en retriable commits fuel name func ctx (db, app, v) = (Some (Inr out), (db', app', v'))"
    and visible: "\<forall>t n. serialize_value (en_codecs en) out None (en_serializer en) = Inr (t, n) \<longrightarrow> t \<noteq> []"
  shows "\<exists>vk out'. func (tx_context ctx) (app_data app, vk) = (Inr out, (app_data app', v'))
    \<and> (if ser_name (en_serializer en) = ''portable_json'' then portableify out = Inr out' else out' = out)
    \<and> (\<forall>db'' (app'' :: 'd app_db) v'' func' retriable' commits' fuel'.
         transaction_output_of app'' (cx_workflow_id ctx) (cx_function_id ctx + 1)
           = transaction_output_of app' (cx_workflow_id ctx) (cx_function_id ctx + 1)
         \<longrightarrow> checkpoint_stands (cx_workflow_id ctx) (cx_function_id ctx + 1) db' db''
             \<or> check_operation_execution_txn (cx_workflow_id ctx) (cx_function_id ctx + 1) name db'' = Inr None
         \<longrightarrow> commits' 0 = None
         \<longrightarrow> (\<exists>db3. invoke_tx en retriable' commits' (Suc fuel') name func' ctx (db'', app'', v'')
               = (Some (Inr out'), (db3, app'', v''))))"
proof -
  let ?c = "tx_context ctx" and ?wid = "cx_workflow_id ctx" and ?fid = "cx_function_id ctx + 1"
  have "tx_loop en retriable commits ?c name (en_clock en v) func fuel 0 (1 / 1000) (db, app, v)
      = (Some (Inr out), (db', app', v'))"
    using run wf check_operation_execution_None [OF fresh(1)] by (simp add: invoke_tx_def Let_def)
  from tx_loop_success [OF _ this] fresh(2) obtain vk d t ser where
    f: "func ?c (app_data app, vk) = (Inr out, (d, v'))"
    and ser: "serialize_value (en_codecs en) out None (en_serializer en) = Inr (t, ser)"
    and app': "app' = app\<lparr>app_data := d, transaction_outputs := transaction_outputs app
         @ [transaction_row (txn_output ?c name (Some t) None (Some ser)) (Some t) None (en_clock en v')]\<rparr>"
    and rec: "record_operation_result (en_executor_id en) (step_result ?wid ?fid name (en_clock en v) t (Some ser))
      (en_clock en v') db = (Inr (), db')"
    by auto
  let ?row = "transaction_row (txn_output ?c name (Some t) None (Some ser)) (Some t) None (en_clock en v')"
  have row: "transaction_output_of app' ?wid ?fid = Some ?row"
    using transaction_output_append [of app ?row "app\<lparr>app_data := d\<rparr>"] fresh(2)
    by (simp add: app') (simp add: transaction_row_def txn_output_def)
  have t: "t \<noteq> []" using visible ser by blast
  from deserialize_serialize [OF law ser [unfolded serialize_value_def]] obtain out' where
    out': "deserialize_value (en_codecs en) (Some t) (Some ser) (en_serializer en) = Inr out'"
      "if ser = ''portable_json'' then portableify out = Inr out' else out' = out" by blast
  note def = deserialize_default_format [OF law ser]
  have none: "operation_row db ?wid ?fid = None" using fresh(1) by (simp add: check_None_iff)
  let ?orow = "operation_output_of (step_result ?wid ?fid name (en_clock en v) t (Some ser)) (en_clock en v')"
  have orow: "operation_row db' ?wid ?fid = Some ?orow"
    using record_operation_result_row [OF rec] none by (simp add: step_result_def)
  have again: "\<exists>db3. invoke_tx en retriable' commits' (Suc fuel') name func' ctx (db'', app'', v'')
      = (Some (Inr out'), (db3, app'', v''))"
    if a: "transaction_output_of app'' ?wid ?fid = transaction_output_of app' ?wid ?fid"
      and later: "checkpoint_stands ?wid ?fid db' db'' \<or> check_operation_execution_txn ?wid ?fid name db'' = Inr None"
      and cm: "commits' 0 = None" for db'' app'' v'' func' retriable' commits' fuel'
    using later
  proof
    assume "checkpoint_stands ?wid ?fid db' db''"
    from checkpoint_stands_check [OF this orow, of name]
    have "check_operation_execution ?wid ?fid name db'' = (Inr (Some (recorded_result ?orow)), db'')"
      by (simp add: operation_output_of_def step_result_def)
    moreover have "tx_replay en (recorded_result ?orow) = Inr out'"
      using t out'(1) def by (simp add: tx_replay_def recorded_result_def operation_output_of_def step_result_def is_recorded_def)
    ultimately show ?thesis using wf by (simp add: invoke_tx_def Let_def)
  next
    assume chk: "check_operation_execution_txn ?wid ?fid name db'' = Inr None"
    then obtain wr where "status_row db'' ?wid = Some wr" "operation_row db'' ?wid ?fid = None" by (auto simp: check_None_iff)
    with tx_loop_recorded [of app'' ?c ?row name t en out' db'' wr commits' 0] a row t out'(1) def(2) cm
    have "\<exists>db1. tx_loop en retriable' commits' ?c name (en_clock en v'') func' (Suc fuel') 0 (1 / 1000) (db'', app'', v'')
        = (Some (Inr out'), (db1, app'', v''))"
      by (simp add: transaction_row_def txn_output_def) blast
    then show ?thesis using wf check_operation_execution_None [OF chk] by (simp add: invoke_tx_def Let_def)
  qed
  have "app_data app' = d" by (simp add: app')
  with f out'(2) def(1) show ?thesis
    by (intro exI [of _ vk] exI [of _ out'] conjI allI impI again) simp_all
qed

definition tx_env :: "nat dbos_env" where
  "tx_env = step_env\<lparr>en_codecs := example_codecs, en_serializer := DBOSDefaultSerializer example_codecs\<rparr>"

definition counting_tx :: "(nat, nat) tx_func" where
  "counting_tx c s = (Inr (PInt 42), (Suc (fst s), snd s))"

theorem transaction_exactly_once_witness:
  "\<exists>db' app'. invoke_tx tx_env (\<lambda>e. False) (\<lambda>i. None) 1 ''tx'' counting_tx (example_ctx ''a'')
        (example_db [''a''], \<lparr>app_data = 0, transaction_outputs = []\<rparr>, 5) = (Some (Inr (PInt 42)), (db', app', 5))
     \<and> app_data app' = 1
     \<and> (\<exists>db3. invoke_tx tx_env (\<lambda>e. False) (\<lambda>i. None) 1 ''tx'' counting_tx (example_ctx ''a'')
          (example_db [''a''], app', 9) = (Some (Inr (PInt 42)), (db3, app', 9)))"
proof -
  let ?c = "example_ctx ''a''" and ?db = "example_db [''a'']"
  let ?app = "\<lparr>app_data = 0, transaction_outputs = []\<rparr> :: nat app_db" and ?sz = "DBOSDefaultSerializer example_codecs"
  have c: "is_workflow ?c" "cx_workflow_id ?c = ''a''" "cx_function_id ?c = 1"
    by (simp_all add: example_ctx_def start_workflow_def new_context_def is_workflow_def is_step_def is_transaction_def)
  have en: "en_codecs tx_env = example_codecs" "en_serializer tx_env = ?sz" "en_clock tx_env = int"
    by (simp_all add: tx_env_def step_env_def)
  have ser: "serialize_value example_codecs (PInt 42) None ?sz = Inr (''pickle-42'', ''py_pickle'')"
    by (simp add: serialize_value_def serialize_value_as_def serialization_for_type_def
        DBOSDefaultSerializer_def example_codecs_def)
  have fresh: "check_operation_execution_txn ''a'' 2 ''tx'' ?db = Inr None" by (rule example_check)
  have none: "transaction_output_of ?app ''a'' 2 = None" by (simp add: transaction_output_of_def)
  let ?res = "step_result ''a'' 2 ''tx'' 5 ''pickle-42'' (Some ''py_pickle'')"
  let ?row = "transaction_row (txn_output (tx_context ?c) ''tx'' (Some ''pickle-42'') None (Some ''py_pickle''))
    (Some ''pickle-42'') None 5"
  let ?app' = "\<lparr>app_data = 1, transaction_outputs = [?row]\<rparr> :: nat app_db"
  obtain db' where rec: "record_operation_result (en_executor_id tx_env) ?res 5 ?db = (Inr (), db')"
    using record_operation_fresh [of ?db ?res] fresh by (auto simp: record_operation_result_def step_result_def check_None_iff)
  have att: "tx_attempt tx_env (tx_context ?c) ''tx'' 5 counting_tx None (?db, ?app, 5) = (TxCommitted (PInt 42), (?db, ?app', 5))"
    using none
    by (simp add: tx_attempt_def check_transaction_execution_def tx_execute_def counting_tx_def c en ser
        record_transaction_output_def conflict_error_def insert_transaction_output_def transaction_output_of_def)
       (simp add: txn_output_def)
  have run: "invoke_tx tx_env (\<lambda>e. False) (\<lambda>i. None) (Suc 0) ''tx'' counting_tx ?c (?db, ?app, 5)
      = (Some (Inr (PInt 42)), (db', ?app', 5))"
    using c att rec check_operation_execution_None [OF fresh]
    by (simp add: invoke_tx_def Let_def en tx_done_def ser)
  have law: "codecs_law (en_codecs tx_env) (en_serializer tx_env)" using example_codecs_law by (simp add: en)
  have name: "ser_name (en_serializer tx_env) \<noteq> ''portable_json''" by (simp add: en DBOSDefaultSerializer_def)
  have fr: "check_operation_execution_txn (cx_workflow_id ?c) (cx_function_id ?c + 1) ''tx'' ?db = Inr None"
    "transaction_output_of ?app (cx_workflow_id ?c) (cx_function_id ?c + 1) = None"
    using fresh none by (simp_all add: c)
  have "\<forall>t n. serialize_value (en_codecs tx_env) (PInt 42) None (en_serializer tx_env) = Inr (t, n) \<longrightarrow> t \<noteq> []"
    by (simp add: en ser)
  note once = transaction_exactly_once [OF law c(1) fr run this, unfolded if_not_P [OF name]]
  from once obtain vk out' where out': "out' = PInt 42"
    and again: "\<forall>db'' (app'' :: nat app_db) v'' func' retriable' commits' fuel'.
         transaction_output_of app'' (cx_workflow_id ?c) (cx_function_id ?c + 1)
           = transaction_output_of ?app' (cx_workflow_id ?c) (cx_function_id ?c + 1)
         \<longrightarrow> checkpoint_stands (cx_workflow_id ?c) (cx_function_id ?c + 1) db' db''
             \<or> check_operation_execution_txn (cx_workflow_id ?c) (cx_function_id ?c + 1) ''tx'' db'' = Inr None
         \<longrightarrow> commits' 0 = None
         \<longrightarrow> (\<exists>db3. invoke_tx tx_env retriable' commits' (Suc fuel') ''tx'' func' ?c (db'', app'', v'')
               = (Some (Inr out'), (db3, app'', v'')))" by blast
  from again [rule_format, where app'' = ?app' and db'' = ?db and commits' = "\<lambda>i. None", OF refl disjI2 [OF fr(1)] refl]
  have "\<exists>db3. invoke_tx tx_env (\<lambda>e. False) (\<lambda>i. None) (Suc 0) ''tx'' counting_tx ?c (?db, ?app', 9)
      = (Some (Inr (PInt 42)), (db3, ?app', 9))"
    unfolding out' .
  with run show ?thesis by auto
qed

end
