(* ===== verification/DBOS_Calls.thy ===== *)
theory DBOS_Calls
  imports DBOS_Execution DBOS_GC
begin

text \<open>
  Calling workflows and awaiting them (\<^verbatim>\<open>dbos/_core.py\<close>): the handles with \<^verbatim>\<open>get_result\<close>, and
  \<^verbatim>\<open>workflow_wrapper\<close>, the function that stands for a decorated workflow when it is called
  directly. The caller, when it is a workflow itself, records the child it starts and the result it gets.
\<close>

section \<open>Recording a result in the calling workflow\<close>

text \<open>
  Both record the result that the caller gets of workflow \<open>wid\<close>: in the given context, or in the
  current one if that is a workflow. An exception is recorded and raised again.
\<close>

definition record_result ::
  "'w dbos_env \<Rightarrow> string \<Rightarrow> DBOSContext option \<Rightarrow> DBOSContext option \<Rightarrow> pyval res \<Rightarrow> 'w world
   \<Rightarrow> pyval res \<times> DBOSContext option \<times> 'w world" where
  "record_result en wid ctx cur r s = (case r of
     Inl e \<Rightarrow>
       if \<not> is_Exception e then (Inl e, cur, s)
       else (case serialize_exception (en_reflection en) (en_codecs en) e None (en_serializer en) of
           Inl e' \<Rightarrow> (Inl e', cur, s)
         | Inr (err, ser) \<Rightarrow>
             (case record_get_result wid None (Some err) (Some ser) ctx cur (fst s) of
                (Inl e', cur1, db1) \<Rightarrow> (Inl e', cur1, (db1, snd s))
              | (Inr _, cur1, db1) \<Rightarrow> (Inl e, cur1, (db1, snd s))))
   | Inr v \<Rightarrow>
       (case serialize_value (en_codecs en) v None (en_serializer en) of
           Inl e' \<Rightarrow> (Inl e', cur, s)
         | Inr (out, ser) \<Rightarrow>
             (case record_get_result wid (Some out) None (Some ser) ctx cur (fst s) of
                (Inl e', cur1, db1) \<Rightarrow> (Inl e', cur1, (db1, snd s))
              | (Inr _, cur1, db1) \<Rightarrow> (Inr v, cur1, (db1, snd s)))))"

section \<open>Handles\<close>

text \<open>
  \<^verbatim>\<open>get_result\<close> of the handles. The result of the future (\<open>None\<close>: not done) and the databases that the
  polls see are arguments; the result is \<open>None\<close> as long as the call waits. The handles of
  coroutines do the same on the event loop.
\<close>

definition awaited_handle :: "'w dbos_env \<Rightarrow> wf_handle \<Rightarrow> pyval res option \<Rightarrow> sysdb list \<Rightarrow> pyval res option" where
  "awaited_handle en h future polls = (case h of
     HandlePolling wid \<Rightarrow> await_result en wid polls
   | HandleFuture wid \<Rightarrow> (case future of
       Some (Inl (DBOSWorkflowCancelledError m)) \<Rightarrow> await_result en wid polls
     | Some (Inl (DBOSAwaitedWorkflowCancelledError m)) \<Rightarrow> await_result en wid polls
     | r \<Rightarrow> r))"

definition get_result ::
  "'w dbos_env \<Rightarrow> wf_handle \<Rightarrow> pyval res option \<Rightarrow> sysdb list \<Rightarrow> DBOSContext option \<Rightarrow> 'w world
   \<Rightarrow> pyval res option \<times> DBOSContext option \<times> 'w world" where
  "get_result en h future polls cur s = (case awaited_handle en h future polls of
     None \<Rightarrow> (None, cur, s)
   | Some r \<Rightarrow> (case record_result en (handle_id h) None cur r s of (r1, cur1, s1) \<Rightarrow> (Some r1, cur1, s1)))"

definition get_status :: "wf_handle \<Rightarrow> sysdb \<Rightarrow> WorkflowStatusInternal res" where
  "get_status h db = (case get_workflow_status (handle_id h) db of
     None \<Rightarrow> Inl (DBOSNonExistentWorkflowError ''target'' (handle_id h))
   | Some st \<Rightarrow> Inr st)"

section \<open>Calling a workflow\<close>

datatype call_init = CallResult "pyval res option" | CallExecute started

definition check_and_init ::
  "'w dbos_env \<Rightarrow> sysdb list \<Rightarrow> string \<Rightarrow> wf_func \<Rightarrow> init_request res \<Rightarrow> string \<Rightarrow> DBOSContext \<Rightarrow> 'w world \<Rightarrow> call_init \<times> 'w world" where
  "check_and_init en polls xid fn request child_wfid ctx s =
     (case check_child en ctx (wf_name fn) s of
        (Inl e, s1) \<Rightarrow> (CallResult (Some (Inl e)), s1)
      | (Inr (Some w), s1) \<Rightarrow> (CallResult (await_result en w polls), s1)
      | (Inr None, s1) \<Rightarrow>
          (case request of
             Inl e \<Rightarrow> (CallResult (Some (Inl e)), s1)
           | Inr rq \<Rightarrow>
               (case init_workflow_core en xid rq ctx s1 of
                  (Inl e, s2) \<Rightarrow> (CallResult (Some (Inl e)), s2)
                | (Inr sd, s2) \<Rightarrow>
                    (case (if has_parent ctx
                           then on_db (record_child_workflow (cx_parent_workflow_id ctx) child_wfid
                                  (cx_parent_workflow_fid ctx) (wf_name fn)) s2
                           else (Inr (), s2)) of
                       (Inl e, s3) \<Rightarrow> (CallResult (Some (Inl e)), s3)
                     | (Inr _, s3) \<Rightarrow>
                         if sd_should_execute sd then (CallExecute sd, s3)
                         else (CallResult (await_result en (wi_workflow_uuid (sd_status sd)) polls), s3)))))"

text \<open>
  The request of a direct call: no queue, and no enqueue options.
\<close>

definition call_request ::
  "wf_func \<Rightarrow> pyval list \<Rightarrow> pyval \<Rightarrow> int option \<times> int option \<Rightarrow> string \<Rightarrow> init_request res" where
  "call_request fn args kwargs timeouts child_wfid =
     res_bind (wf_class_name fn args) (\<lambda>cname. res_bind (wf_config_name fn args) (\<lambda>cfg. Inr
       \<lparr>ir_args = args, ir_kwargs = kwargs, ir_name = wf_name fn, ir_class_name = cname, ir_config_name = cfg,
        ir_queue = None, ir_timeout_ms = fst timeouts, ir_deadline_epoch_ms = snd timeouts,
        ir_max_recovery_attempts = wf_max_recovery_attempts fn, ir_enqueue_options = None,
        ir_is_recovery = False, ir_is_dequeued = False, ir_serialization_type = wf_serialization_type fn,
        ir_child_workflow_id = Some child_wfid\<rparr>))"

text \<open>
  The last stage, in the caller's context. A coroutine's stage runs again on the error of its first
  run (\<open>pending_then\<close>), and not at all when the task was cancelled.
\<close>

definition finish_call ::
  "'w dbos_env \<Rightarrow> bool \<Rightarrow> string \<Rightarrow> DBOSContext option \<Rightarrow> DBOSContext option \<Rightarrow> pyval res option \<Rightarrow> 'w world
   \<Rightarrow> pyval res option \<times> DBOSContext option \<times> 'w world" where
  "finish_call en async wid resctx cur r s = (case r of
     None \<Rightarrow> (None, cur, s)
   | Some r0 \<Rightarrow>
       if async \<and> r0 = Inl CancelledError then (Some r0, cur, s)
       else (case record_result en wid resctx cur r0 s of
           (Inl e, cur1, s1) \<Rightarrow>
             if async \<and> (\<exists>v. r0 = Inr v) \<and> e \<noteq> CancelledError
             then (case record_result en wid resctx cur1 (Inl e) s1 of (r2, cur2, s2) \<Rightarrow> (Some r2, cur2, s2))
             else (Some (Inl e), cur1, s1)
         | (Inr v, cur1, s1) \<Rightarrow> (Some (Inr v), cur1, s1)))"

text \<open>The stages of a call, composed: \<open>func\<close> is the workflow's function applied to the arguments.\<close>

definition run_call ::
  "'w dbos_env \<Rightarrow> bool \<Rightarrow> sysdb list \<Rightarrow> string \<Rightarrow> wf_func \<Rightarrow> init_request res \<Rightarrow> string \<Rightarrow> DBOSContext
   \<Rightarrow> DBOSContext option \<Rightarrow> DBOSContext option \<Rightarrow> (DBOSContext \<Rightarrow> (pyval, 'w world) comp) \<Rightarrow> 'w world
   \<Rightarrow> pyval res option \<times> DBOSContext option \<times> 'w world" where
  "run_call en async polls xid fn request wid ctx resctx cur func s =
     (case check_and_init en polls xid fn request wid ctx s of
        (CallResult r, s1) \<Rightarrow> finish_call en async wid resctx cur r s1
      | (CallExecute sd, s1) \<Rightarrow>
          (case (if async then persist_async else persist) en polls (sd_status sd) (func (sd_ctx sd)) s1 of
             (r, s2) \<Rightarrow> finish_call en async wid resctx cur r s2))"

text \<open>The result of the call, the caller's context and the world.\<close>

definition call_workflow ::
  "'w dbos_env \<Rightarrow> bool \<Rightarrow> sysdb list \<Rightarrow> string \<Rightarrow> string \<Rightarrow> DBOSContext \<Rightarrow> wf_func \<Rightarrow> pyval list \<Rightarrow> pyval
   \<Rightarrow> (DBOSContext \<Rightarrow> (pyval, 'w world) comp) \<Rightarrow> DBOSContext option \<Rightarrow> 'w world
   \<Rightarrow> pyval res option \<times> DBOSContext option \<times> 'w world" where
  "call_workflow en async polls uuid xid blank fn args kwargs func cur s =
     (if \<not> wf_registered fn then (Some (Inl AssertionError), cur, s)
      else case check_required_roles fn cur of
        Inl e \<Rightarrow> (Some (Inl e), cur, s)
      | Inr rr \<Rightarrow>
        (case create_start_workflow_child uuid blank cur of
           Inl e \<Rightarrow> (Some (Inl e), cur, s)
         | Inr (child, cur1) \<Rightarrow>
             let wid = cx_id_assigned_for_next_workflow child;
                 (resctx, cur2) = (case cur1 of
                     Some c \<Rightarrow> if is_workflow c
                       then (let (rc, c2) = snapshot_step_ctx False blank c in (Some rc, Some c2)) else (None, cur1)
                   | None \<Rightarrow> (None, cur1));
                 request = call_request fn args kwargs (get_timeout_deadline cur2 None (en_clock en (snd s))) wid;
                 ctx = (enter_workflow uuid child)\<lparr>cx_assumed_role := rr\<rparr>
             in run_call en async polls xid fn request wid ctx resctx cur2 func s))"

section \<open>Recording results\<close>

text \<open>A result is recorded once: a second recording finds the row and does nothing.\<close>

lemma record_result_fresh:
  assumes rec: "recordable en r" and none: "operation_row db (cx_workflow_id rc) (cx_function_id rc) = None"
    and parent: "status_row db (cx_workflow_id rc) = Some pr"
  shows "\<exists>row. record_result en wid (Some rc) cur r (db, w)
      = (r, cur, (db\<lparr>operation_outputs := operation_outputs db @ [row]\<rparr>, w))
    \<and> oo_pk row = (cx_workflow_id rc, cx_function_id rc)"
proof -
  have mem: "cx_workflow_id rc \<in> set (workflow_ids db)"
    using parent by (metis option.distinct(1) status_row_None_iff)
  have ins: "insert_operation_output (get_result_row wid out err ser rc) db
      = Inr (db\<lparr>operation_outputs := operation_outputs db @ [get_result_row wid out err ser rc]\<rparr>)" for out err ser
    using mem none by (simp add: insert_operation_output_def insert_child_def get_result_row_def operation_row_None_iff)
  have "oo_pk (get_result_row wid out err ser rc) = (cx_workflow_id rc, cx_function_id rc)" for out err ser
    by (simp add: get_result_row_def)
  with rec ins show ?thesis
    by (cases r) (auto simp: recordable_def record_result_def record_get_result_def)
qed

lemma record_result_again:
  assumes rec: "recordable en r" and row: "operation_row db (cx_workflow_id rc) (cx_function_id rc) = Some g"
  shows "record_result en wid (Some rc) cur r (db, w) = (r, cur, (db, w))"
proof -
  have "oo_pk (get_result_row wid out err ser rc) \<in> oo_pk ` set (operation_outputs db)" for out err ser
    using operation_row_SomeD [OF row] by (force simp: get_result_row_def)
  then have "insert_operation_output (get_result_row wid out err ser rc) db = Inl UniqueViolation" for out err ser
    by (simp add: insert_operation_output_def insert_child_def)
  with rec show ?thesis
    by (cases r) (auto simp: recordable_def record_result_def record_get_result_def)
qed

lemma finish_call_recorded:
  assumes "record_result en wid resctx cur r s = (r, cur, s')" "r \<noteq> Inl CancelledError"
  shows "finish_call en async wid resctx cur (Some r) s = (Some r, cur, s')"
  using assms by (cases r) (auto simp: finish_call_def)

section \<open>Calls from a workflow\<close>

lemma create_child_current:
  assumes "is_workflow c" "create_start_workflow_child uuid blank (Some c) = Inr (child, cur)"
  obtains c1 where "cur = Some c1" "is_workflow c1" "cx_workflow_id c1 = cx_workflow_id c"
    "cx_function_id c1 = cx_function_id c + 1" "cx_workflow_timeout_ms c1 = cx_workflow_timeout_ms c"
    "cx_workflow_deadline_epoch_ms c1 = cx_workflow_deadline_epoch_ms c"
  using assms
  by (auto simp: create_start_workflow_child_def create_child_def is_workflow_def is_within_workflow_def
      is_step_def is_transaction_def Let_def split: if_splits)

text \<open>
  A call from a workflow: the child is recorded under the next function ID, its result under the
  one after that.
\<close>

lemma call_workflow_from_workflow:
  assumes c: "is_workflow c" and reg: "wf_registered fn" and roles: "check_required_roles fn (Some c) = Inr rr"
    and ch: "create_start_workflow_child uuid blank (Some c) = Inr (child, cur)"
  obtains rc c2 request ctx where
    "cx_workflow_id rc = cx_workflow_id c" "cx_function_id rc = cx_function_id c + 2"
    "cx_workflow_id c2 = cx_workflow_id c" "cx_function_id c2 = cx_function_id c + 2"
    "cx_parent_workflow_id ctx = cx_workflow_id c" "cx_parent_workflow_fid ctx = cx_function_id c + 1" "has_parent ctx"
    "ctx = (enter_workflow uuid child)\<lparr>cx_assumed_role := rr\<rparr>"
    "request = call_request fn args kwargs (get_timeout_deadline (Some c) None (en_clock en w))
       (cx_id_assigned_for_next_workflow child)"
    "\<And>async polls xid func. call_workflow en async polls uuid xid blank fn args kwargs func (Some c) (db, w)
      = run_call en async polls xid fn request (cx_id_assigned_for_next_workflow child) ctx (Some rc) (Some c2) func (db, w)"
proof -
  obtain c1 where c1: "cur = Some c1" "is_workflow c1" "cx_workflow_id c1 = cx_workflow_id c"
    "cx_function_id c1 = cx_function_id c + 1" "cx_workflow_timeout_ms c1 = cx_workflow_timeout_ms c"
    "cx_workflow_deadline_epoch_ms c1 = cx_workflow_deadline_epoch_ms c" by (rule create_child_current [OF c ch])
  obtain rc c2 where snap: "snapshot_step_ctx False blank c1 = (rc, c2)" by (cases "snapshot_step_ctx False blank c1")
  let ?ctx = "(enter_workflow uuid child)\<lparr>cx_assumed_role := rr\<rparr>"
  have "cx_workflow_timeout_ms c2 = cx_workflow_timeout_ms c1"
    "cx_workflow_deadline_epoch_ms c2 = cx_workflow_deadline_epoch_ms c1"
    using snap by (auto simp: snapshot_step_ctx_def Let_def)
  then have dl: "get_timeout_deadline (Some c2) None t = get_timeout_deadline (Some c) None t" for t
    using c1 by (simp add: get_timeout_deadline_def split: option.split)
  have par: "cx_parent_workflow_id ?ctx = cx_workflow_id c" "cx_parent_workflow_fid ?ctx = cx_function_id c + 1" "has_parent ?ctx"
    using create_child_parent [OF c ch] by (simp_all add: enter_workflow_def start_workflow_def has_parent_def)
  show ?thesis
    by (rule that [of rc c2 ?ctx, OF _ _ _ _ par refl refl])
       (use snapshot_ids [OF snap] c1 snap reg roles ch dl in \<open>auto simp: call_workflow_def Let_def\<close>)
qed

text \<open>What a cleared call has recorded: the child in the parent, and nothing else of the parent's.\<close>

lemma check_and_init_executes:
  assumes run: "check_and_init en polls xid fn request wid ctx (db, w) = (CallExecute sd, (db1, w1))"
    and p: "has_parent ctx"
    and fresh: "operation_row db (cx_parent_workflow_id ctx) (cx_parent_workflow_fid ctx) = None"
  shows "operation_row db1 (cx_parent_workflow_id ctx) (cx_parent_workflow_fid ctx)
      = Some (child_row (cx_parent_workflow_id ctx) wid (cx_parent_workflow_fid ctx) (wf_name fn))"
    "wid \<noteq> []" "w1 = w"
    "\<And>i. i \<noteq> cx_parent_workflow_fid ctx \<Longrightarrow> operation_row db1 (cx_parent_workflow_id ctx) i
      = operation_row db (cx_parent_workflow_id ctx) i"
proof -
  let ?par = "cx_parent_workflow_id ctx" and ?fid = "cx_parent_workflow_fid ctx"
  obtain r0 s0 where ck: "check_child en ctx (wf_name fn) (db, w) = (r0, s0)"
    by (cases "check_child en ctx (wf_name fn) (db, w)")
  have s0: "s0 = (db, w)"
    using ck p by (auto simp: check_child_def comp_bind_def on_db_def evaluated_def check_operation_execution_def
        engine_begin_def lift_res_def split: sum.splits prod.splits)
  have r0: "r0 = Inr None"
    using run ck by (cases r0) (auto simp: check_and_init_def split: option.splits)
  obtain rq where rq: "request = Inr rq"
    using run ck r0 by (cases request) (auto simp: check_and_init_def)
  obtain r2 db2 w2 where i: "init_workflow_core en xid rq ctx (db, w) = (r2, (db2, w2))"
    by (cases "init_workflow_core en xid rq ctx (db, w)") auto
  obtain sd' where sd': "r2 = Inr sd'"
    using run ck r0 rq i s0 by (cases r2) (auto simp: check_and_init_def)
  have ops: "operation_outputs db2 = operation_outputs db" using i unfolding sd' by (rule init_workflow_core_ops)
  have w2: "w2 = w" using i sd'
    by (auto simp: init_workflow_core_def Let_def on_db_def comp_bind_def evaluated_def
        split: if_splits sum.splits prod.splits dbos_error.splits)
  obtain r3 db3 where rc: "record_child_workflow ?par wid ?fid (wf_name fn) db2 = (r3, db3)"
    by (cases "record_child_workflow ?par wid ?fid (wf_name fn) db2")
  have "r3 = Inr ()" "db3 = db1" "w1 = w2"
    using run ck r0 rq i sd' s0 p rc
    by (auto simp: check_and_init_def on_db_def split: sum.splits if_splits)
  with rc w2 have rc: "record_child_workflow ?par wid ?fid (wf_name fn) db2 = (Inr (), db1)" and "w1 = w" by auto
  then show "w1 = w" by simp
  have none: "operation_row db2 ?par ?fid = None" using fresh operation_row_cong [OF ops] by simp
  from record_child_fresh_or_same [OF rc] none
  show "operation_row db1 ?par ?fid = Some (child_row ?par wid ?fid (wf_name fn))" "wid \<noteq> []" by auto
  have db1: "db1 = db2\<lparr>operation_outputs := operation_outputs db2 @ [child_row ?par wid ?fid (wf_name fn)]\<rparr>"
    using rc none
    by (auto simp: record_child_workflow_def insert_operation_output_def insert_child_def split: if_splits)
  show "operation_row db1 ?par i = operation_row db ?par i" if "i \<noteq> ?fid" for i
    unfolding db1 using that operation_row_cong [OF ops]
    by (subst operation_row_appended_other) (auto simp: child_row_def)
qed

text \<open>A recorded child that has completed: the call returns its outcome, the function does not run.\<close>

lemma call_recorded_child:
  assumes c: "is_workflow c" and reg: "wf_registered fn" and roles: "check_required_roles fn (Some c) = Inr rr"
    and row: "operation_row db (cx_workflow_id c) (cx_function_id c + 1)
      = Some (child_row (cx_workflow_id c) wid (cx_function_id c + 1) (wf_name fn))" "wid \<noteq> []"
    and live: "status_row db (cx_workflow_id c) = Some pr" "ws_status pr \<noteq> CANCELLED"
    and got: "operation_row db (cx_workflow_id c) (cx_function_id c + 2) = Some g"
    and child: "await_result en wid polls = Some r" and rec: "recordable en r"
  shows "\<exists>c2. call_workflow en async polls uuid xid blank fn args kwargs func (Some c) (db, w)
      = (Some r, Some c2, (db, w)) \<and> cx_function_id c2 = cx_function_id c + 2"
proof -
  from create_child_exists [OF c, of uuid blank] obtain child cur where
    ch: "create_start_workflow_child uuid blank (Some c) = Inr (child, cur)" by blast
  obtain rc c2 request ctx where ids: "cx_workflow_id rc = cx_workflow_id c" "cx_function_id rc = cx_function_id c + 2"
      "cx_function_id c2 = cx_function_id c + 2"
    and p: "cx_parent_workflow_id ctx = cx_workflow_id c" "cx_parent_workflow_fid ctx = cx_function_id c + 1" "has_parent ctx"
    and call: "\<And>async polls xid func. call_workflow en async polls uuid xid blank fn args kwargs func (Some c) (db, w)
      = run_call en async polls xid fn request (cx_id_assigned_for_next_workflow child) ctx (Some rc) (Some c2) func (db, w)"
    by (rule call_workflow_from_workflow [OF c reg roles ch, of args kwargs en w db]) blast
  let ?row = "child_row (cx_workflow_id c) wid (cx_function_id c + 1) (wf_name fn)"
  have "check_operation_execution_txn (cx_workflow_id c) (cx_function_id c + 1) (wf_name fn) db
      = Inr (Some (recorded_result ?row))"
    using row live by (auto simp: check_Some_iff child_row_def)
  then have "check_child en ctx (wf_name fn) (db, w) = (Inr (Some wid), (db, w))"
    using p row(2)
    by (simp add: check_child_def check_operation_execution_def engine_begin_def lift_res_def comp_bind_def on_db_def
        evaluated_def recorded_child_def recorded_result_def child_row_def)
  then have "check_and_init en polls xid fn request (cx_id_assigned_for_next_workflow child) ctx (db, w)
      = (CallResult (Some r), (db, w))"
    by (simp add: check_and_init_def child)
  moreover have "finish_call en async (cx_id_assigned_for_next_workflow child) (Some rc) (Some c2) (Some r) (db, w)
      = (Some r, Some c2, (db, w))"
    by (rule finish_call_recorded [OF record_result_again [OF rec]])
       (use got ids rec in \<open>auto simp: recordable_def is_Exception_def CancelledError_def\<close>)
  ultimately show ?thesis using ids call by (simp add: run_call_def)
qed

text \<open>Recording an outcome changes no checkpoint and no other workflow.\<close>

lemma outcome_other_row:
  "wid' \<noteq> wid \<Longrightarrow> status_row (update_workflow_status (outcome_guard wid) (outcome_effect st outp err now) db) wid'
     = status_row db wid'"
  by (cases "status_row db wid'") (auto simp: outcome_upd.update_row outcome_guard_def dest: status_row_SomeD)

lemma update_workflow_outcome_frame:
  assumes "update_workflow_outcome wid st outp err now db = (x, db')"
  shows "operation_outputs db' = operation_outputs db \<and> (\<forall>wid'. wid' \<noteq> wid \<longrightarrow> status_row db' wid' = status_row db wid')"
  using assms outcome_other_row
  by (auto simp: update_workflow_outcome_def engine_begin_def split: if_splits option.splits)

lemma persist_frame:
  assumes "persist en polls status func s = (x, (db3, w3))" "func s = (r, (db2, w2))"
    "wi_status status \<noteq> ERROR" "wi_status status \<noteq> SUCCESS"
  shows "operation_outputs db3 = operation_outputs db2
    \<and> (\<forall>wid'. wid' \<noteq> wi_workflow_uuid status \<longrightarrow> status_row db3 wid' = status_row db2 wid')"
proof -
  have except: "operation_outputs d3 = operation_outputs d
      \<and> (\<forall>wid'. wid' \<noteq> wi_workflow_uuid status \<longrightarrow> status_row d3 wid' = status_row d wid')"
    if "persist_except en polls status e (d, v) = (y, (d3, v3))" for e d v y d3 v3
    using that by (auto simp: persist_except_def finalize_error_def on_db_def
        dest!: update_workflow_outcome_frame split: dbos_error.splits if_splits sum.splits prod.splits)
  show ?thesis using assms
    by (auto simp: persist_def on_db_def dest!: except update_workflow_outcome_frame split: sum.splits prod.splits)
qed

text \<open>
  C10: A workflow called by a workflow runs once. Let a running workflow call another one, be cleared
  to execute it, and let its function end with an outcome that can be recorded. Then the call
  returns that outcome, the child's row has the final status, and every replay of the call, in a
  later database that has kept the parent's two checkpoints and the child's row, returns the recorded
  outcome: it starts nothing, runs no code and changes nothing.
\<close>

theorem called_workflow_once:
  assumes law: "codecs_law (en_codecs en) (en_serializer en)" and c: "is_workflow c" and reg: "wf_registered fn"
    and roles: "check_required_roles fn (Some c) = Inr rr" and prog: "in_progress c db"
    and ch: "create_start_workflow_child uuid blank (Some c) = Inr (child, cur)"
    and wid: "wid = cx_id_assigned_for_next_workflow child"
    and cleared: "check_and_init en polls xid fn (call_request fn args kwargs
        (get_timeout_deadline (Some c) None (en_clock en w)) wid) wid
        ((enter_workflow uuid child)\<lparr>cx_assumed_role := rr\<rparr>) (db, w) = (CallExecute sd, (db1, w1))"
      "wi_workflow_uuid (sd_status sd) = wid" "wi_status (sd_status sd) \<noteq> ERROR" "wi_status (sd_status sd) \<noteq> SUCCESS"
    and body: "func (sd_ctx sd) (db1, w1) = (r, (db2, w2))" "sysdb_inv db2"
      "operation_row db2 (cx_workflow_id c) = operation_row db1 (cx_workflow_id c)"
      "status_row db2 (cx_workflow_id c) = Some pr" "wid \<noteq> cx_workflow_id c"
      "status_row db2 wid = Some wr" "ws_status wr \<noteq> CANCELLED" "ws_serialization wr = wi_serialization (sd_status sd)"
    and ok: "persistable en (wi_serialization (sd_status sd)) r" "recordable en r"
      "\<forall>r'. awaited_as en (wi_serialization (sd_status sd)) r r' \<longrightarrow> recordable en r'"
  shows "\<exists>c2 db' wr' r'. call_workflow en async polls uuid xid blank fn args kwargs func (Some c) (db, w)
      = (Some r, Some c2, (db', w2)) \<and> status_row db' (cx_workflow_id c) = Some pr
    \<and> status_row db' wid = Some wr' \<and> ws_status wr' = (case r of Inr _ \<Rightarrow> SUCCESS | Inl _ \<Rightarrow> ERROR)
    \<and> awaited_as en (wi_serialization (sd_status sd)) r r'
    \<and> (\<forall>db'' dbs async' uuid' xid' blank' args' kwargs' func' w''.
         operation_row db'' (cx_workflow_id c) = operation_row db' (cx_workflow_id c)
         \<longrightarrow> (\<exists>pr''. status_row db'' (cx_workflow_id c) = Some pr'' \<and> ws_status pr'' \<noteq> CANCELLED)
         \<longrightarrow> status_row db'' wid = status_row db' wid
         \<longrightarrow> (\<exists>c2'. call_workflow en async' (db'' # dbs) uuid' xid' blank' fn args' kwargs' func' (Some c) (db'', w'')
               = (Some r', Some c2', (db'', w'')) \<and> cx_function_id c2' = cx_function_id c2))"
proof -
  let ?pid = "cx_workflow_id c" and ?fid = "cx_function_id c" and ?st = "sd_status sd"
  let ?ctx = "(enter_workflow uuid child)\<lparr>cx_assumed_role := rr\<rparr>"
  obtain rc c2 request ctx where ids: "cx_workflow_id rc = ?pid" "cx_function_id rc = ?fid + 2"
      "cx_function_id c2 = ?fid + 2"
    and p: "cx_parent_workflow_id ctx = ?pid" "cx_parent_workflow_fid ctx = ?fid + 1" "has_parent ctx" and ctx: "ctx = ?ctx"
    and rq: "request = call_request fn args kwargs (get_timeout_deadline (Some c) None (en_clock en w)) wid"
    and call: "\<And>async polls xid func. call_workflow en async polls uuid xid blank fn args kwargs func (Some c) (db, w)
      = run_call en async polls xid fn request wid ctx (Some rc) (Some c2) func (db, w)"
    by (rule call_workflow_from_workflow [OF c reg roles ch, of args kwargs en w db]) (unfold wid, blast)
  have cl: "check_and_init en polls xid fn request wid ctx (db, w) = (CallExecute sd, (db1, w1))"
    unfolding rq ctx by (rule cleared(1))
  have none: "operation_row db ?pid i = None" if "i > ?fid" for i using prog that by (simp add: in_progress_def)
  note ini = check_and_init_executes [OF cl p(3)]
  have row2: "operation_row db2 ?pid (?fid + 1) = Some (child_row ?pid wid (?fid + 1) (wf_name fn))"
    "operation_row db2 ?pid (?fid + 2) = None" "wid \<noteq> []"
    using ini(1,2) ini(4) [of "?fid + 2"] body(3) none p by auto
  from persist_records [where func = "func (sd_ctx sd)" and s = "(db1, w1)", OF law cleared(3,4) body(1) ok(1) body(2),
      of wr polls] cleared(2) body(6-8)
  obtain db3 r' outp err where
    per: "persist en polls ?st (func (sd_ctx sd)) (db1, w1) = (Some r, (db3, w2))"
    and row3: "status_row db3 wid = Some (outcome_effect (case r of Inr _ \<Rightarrow> SUCCESS | Inl _ \<Rightarrow> ERROR) outp err
      (en_clock en w2) wr)"
    and r': "\<And>dbs. await_result en wid (db3 # dbs) = Some r'" "awaited_as en (wi_serialization ?st) r r'" by auto
  from persist_frame [OF per body(1) cleared(3,4)]
  have ops: "operation_outputs db3 = operation_outputs db2" and pr3: "status_row db3 ?pid = Some pr"
    using body(4,5) cleared(2) by auto
  have row3': "operation_row db3 ?pid i = operation_row db2 ?pid i" for i using operation_row_cong [OF ops] by simp
  from record_result_fresh [OF ok(2), of db3 rc pr wid "Some c2" w2] row3' row2(2) ids pr3 obtain row where
    rec: "record_result en wid (Some rc) (Some c2) r (db3, w2)
      = (r, Some c2, (db3\<lparr>operation_outputs := operation_outputs db3 @ [row]\<rparr>, w2))"
    and row: "oo_pk row = (?pid, ?fid + 2)" by auto
  let ?db = "db3\<lparr>operation_outputs := operation_outputs db3 @ [row]\<rparr>"
  have nc: "r \<noteq> Inl CancelledError" using ok(2) by (auto simp: recordable_def is_Exception_def CancelledError_def)
  have "persist_async en polls ?st (func (sd_ctx sd)) (db1, w1) = (Some r, (db3, w2))"
    by (rule persist_async_eq [OF per body(1) nc cleared(3,4)])
  with per have "call_workflow en async polls uuid xid blank fn args kwargs func (Some c) (db, w) = (Some r, Some c2, (?db, w2))"
    using finish_call_recorded [OF rec nc] by (simp add: call cl run_call_def)
  moreover have rows: "operation_row ?db ?pid (?fid + 1) = Some (child_row ?pid wid (?fid + 1) (wf_name fn))"
    "operation_row ?db ?pid (?fid + 2) = Some row"
    using operation_row_appended_other [of row ?pid "?fid + 1"] operation_row_appended [of db3 ?pid "?fid + 2" row] row row2 row3'
    by simp_all
  have "\<exists>c2'. call_workflow en async' (db'' # dbs) uuid' xid' blank' fn args' kwargs' func' (Some c) (db'', w'')
      = (Some r', Some c2', (db'', w'')) \<and> cx_function_id c2' = cx_function_id c2"
    if "operation_row db'' ?pid = operation_row ?db ?pid" "status_row db'' ?pid = Some pr''" "ws_status pr'' \<noteq> CANCELLED"
      "status_row db'' wid = status_row ?db wid" for db'' dbs async' uuid' xid' blank' args' kwargs' func' w'' pr''
  proof -
    have "status_row db'' wid = status_row db3 wid" using that(4) by (simp add: status_row_def)
    then have aw: "await_result en wid (db'' # dbs) = await_result en wid (db3 # dbs)"
      by (simp add: await_result_def check_workflow_result_def r' split: sum.splits option.splits)
    from call_recorded_child [OF c reg roles _ row2(3) that(2,3), of row en "db'' # dbs" r' async' uuid' xid' blank' args' kwargs' func' w'']
    show ?thesis using that(1) rows aw r' ok(3) ids by simp
  qed
  ultimately show ?thesis using row3 pr3 r'(2) by (auto simp: status_row_def outcome_effect_def)
qed

text \<open>A parent calls a child that returns 42, and replays the call.\<close>

definition call_codecs :: codecs where
  "call_codecs = example_codecs\<lparr>
     pickle_dumps := (\<lambda>v. if v = WorkflowInputs [] (PDict []) then Inr ''in'' else if v = PInt 42 then Inr ''42'' else Inl TypeError),
     pickle_loads := (\<lambda>t. if t = ''in'' then Inr (WorkflowInputs [] (PDict [])) else if t = ''42'' then Inr (PInt 42) else Inl TypeError)\<rparr>"

definition call_env :: "nat dbos_env" where
  "call_env = step_env\<lparr>en_codecs := call_codecs, en_serializer := DBOSDefaultSerializer call_codecs\<rparr>"

lemma call_env_simps:
  "en_clock call_env = int" "ser_name (en_serializer call_env) = ''py_pickle''"
  "codecs_law (en_codecs call_env) (en_serializer call_env)"
  "serialize_value (en_codecs call_env) (PInt 42) None (en_serializer call_env) = Inr (''42'', ''py_pickle'')"
  "serialize_value_as (en_codecs call_env) (PInt 42) (Some ''py_pickle'') (en_serializer call_env) = Inr (''42'', ''py_pickle'')"
  "serialize_args (en_codecs call_env) [] (PDict []) (Some DEFAULT) (en_serializer call_env) = Inr (''in'', ''py_pickle'')"
  by (auto simp: call_env_def step_env_def call_codecs_def codecs_law_def codec_law_def example_codecs_def
      DBOSDefaultSerializer_def serialize_value_def serialize_value_as_def serialization_for_type_def serialize_args_def
      WorkflowInputs_def Let_def split: if_splits)

theorem called_workflow_once_witness:
  "\<exists>c2 db'. call_workflow call_env False [] ''u'' ''x'' (new_context ''local'' ''app'') example_fn [] (PDict [])
        (\<lambda>c s. (Inr (PInt 42), (fst s, Suc (snd s)))) (Some (example_ctx ''a'')) (example_db [''a''], 5)
      = (Some (Inr (PInt 42)), Some c2, (db', 6))
    \<and> (\<forall>func'. \<exists>c2'. call_workflow call_env False [db'] ''u2'' ''x2'' (new_context ''local'' ''app'') example_fn [] (PDict [])
        func' (Some (example_ctx ''a'')) (db', 9) = (Some (Inr (PInt 42)), Some c2', (db', 9)))"
proof -
  let ?c = "example_ctx ''a''" and ?blank = "new_context ''local'' ''app''" and ?db = "example_db [''a'']"
  let ?f = "\<lambda>(c :: DBOSContext) (s :: nat world). (Inr (PInt 42) :: pyval res, (fst s, Suc (snd s)))"
  have c: "is_workflow ?c" "cx_workflow_id ?c = ''a''" "cx_function_id ?c = 1" "cx_workflow_timeout_ms ?c = None"
      "cx_workflow_deadline_epoch_ms ?c = None"
    by (simp_all add: example_ctx_def start_workflow_def new_context_def is_workflow_def is_step_def is_transaction_def)
  have two: "char_of (50::nat) = CHR ''2''" by code_simp
  obtain ch cur' where create: "create_start_workflow_child ''u'' ?blank (Some ?c) = Inr (ch, cur')"
    and ch: "cx_id_assigned_for_next_workflow ch = ''a-2''" "cx_workflow_id ch = []" "cx_authenticated_roles ch = None"
      "cx_serialization_type ch = DEFAULT"
    by (simp add: example_ctx_def start_workflow_def new_context_def create_start_workflow_child_def create_child_def
        is_within_workflow_def is_workflow_def is_step_def is_transaction_def assign_workflow_id_def str_int_def
        nat_digits_small two)
  let ?ctx = "(enter_workflow ''u'' ch)\<lparr>cx_assumed_role := None\<rparr>"
  have ctx: "cx_parent_workflow_id ?ctx = ''a''" "cx_parent_workflow_fid ?ctx = 2" "has_parent ?ctx"
    "cx_authenticated_roles ?ctx = None" "cx_serialization_type ?ctx = DEFAULT"
    using create_child_parent [OF c(1) create] c ch
    by (simp_all add: enter_workflow_def start_workflow_def has_parent_def)
  have roles: "check_required_roles example_fn (Some ?c) = Inr None" "wf_registered example_fn"
    by (simp_all add: check_required_roles_def example_fn_def)
  have ck: "check_child call_env ?ctx ''child'' (?db, 5) = (Inr None, (?db, 5))"
    using check_operation_execution_None [OF example_check [of 2 "''child''"]] ctx
    by (simp add: check_child_def comp_bind_def on_db_def evaluated_def recorded_child_def)
  let ?request = "call_request example_fn [] (PDict []) (get_timeout_deadline (Some ?c) None (en_clock call_env 5)) ''a-2''"
  obtain rq where rq: "?request = Inr rq" and rq_simps: "ir_args rq = []" "ir_kwargs rq = PDict []" "ir_class_name rq = None"
    "ir_serialization_type rq = None" "ir_child_workflow_id rq = Some ''a-2''" "ir_queue rq = None"
    "ir_max_recovery_attempts rq = None" "\<not> ir_is_recovery rq" "\<not> ir_is_dequeued rq" "ir_enqueue_options rq = None"
    "ir_deadline_epoch_ms rq = None"
    by (simp add: call_request_def example_fn_def get_timeout_deadline_def c)
  let ?st = "init_status call_env rq ?ctx None ''in'' ''py_pickle''"
  have st: "wi_workflow_uuid ?st = ''a-2''" "wi_status ?st = PENDING" "wi_serialization ?st = Some ''py_pickle''"
    "wi_workflow_deadline_epoch_ms ?st = None"
    by (simp_all add: init_status_def init_workflow_id_def rq_simps Let_def)
  let ?db1 = "?db\<lparr>workflow_status := workflow_status ?db @ [new_status_row ?st (Some ''x'') 5]\<rparr>"
  have init: "init_workflow ?st None (Some ''x'') False False 5 ?db
      = (Inr (PENDING, None, True, Some ''py_pickle''), ?db1)"
    using init_workflow_insert [of ?st ?db "Some ''x''" 5 None False False]
    by (simp add: st workflow_ids_def) (simp add: example_db_def new_status_row_def example_status_def dedup_key_def)
  let ?sd = "\<lparr>sd_status = ?st, sd_should_execute = True,
      sd_ctx = ?ctx\<lparr>cx_workflow_attributes := None, cx_workflow_deadline_epoch_ms := None\<rparr>, sd_timer = None\<rparr>"
  have "?st\<lparr>wi_serialization := Some ''py_pickle'', wi_workflow_deadline_epoch_ms := None, wi_status := PENDING\<rparr> = ?st"
    using st by simp
  then have core: "init_workflow_core call_env ''x'' rq ?ctx (?db, 5) = (Inr ?sd, (?db1, 5))"
    using init ctx call_env_simps
    by (simp add: init_workflow_core_def Let_def init_workflow_id_def init_args_def init_serialization_type_def on_db_def
        rq_simps)
  have row1: "status_row ?db1 ''a'' = status_row ?db ''a''" using example_row by (simp add: status_row_append)
  have none1: "operation_row ?db1 ''a'' i = None" for i by (simp add: operation_row_def example_db_def empty_sysdb_def)
  define db1 where "db1 = ?db1\<lparr>operation_outputs := operation_outputs ?db1 @ [child_row ''a'' ''a-2'' 2 ''child'']\<rparr>"
  have rc: "record_child_workflow ''a'' ''a-2'' 2 ''child'' ?db1 = (Inr (), db1)"
    unfolding db1_def using row1 example_row by (intro record_child_fresh [OF none1]) auto
  have name: "wf_name example_fn = ''child''" by (simp add: example_fn_def)
  have cleared: "check_and_init call_env [] ''x'' example_fn ?request ''a-2'' ?ctx (?db, 5) = (CallExecute ?sd, (db1, 5))"
    using ck core rc ctx by (simp add: check_and_init_def rq name on_db_def)
  have inv: "sysdb_inv db1"
    using record_child_workflow_inv [of ?db1 "''a''" "''a-2''" 2 "''child''"] rc
      init_workflow_inv [of ?db ?st None "Some ''x''" False False 5] init example_inv [of "[''a'']"] by simp
  obtain pr where pr: "status_row db1 ''a'' = Some pr" "ws_status pr \<noteq> CANCELLED"
    using row1 example_row by (simp add: db1_def status_row_frame) (simp add: new_status_row_def example_status_def)
  have wr: "status_row db1 ''a-2'' = Some (new_status_row ?st (Some ''x'') 5)"
    by (simp add: db1_def status_row_frame status_row_append) (simp add: new_status_row_def st status_row_def example_db_def example_status_def)
  have prog: "in_progress ?c ?db" by (rule example_in_progress)
  have ok: "persistable call_env (Some ''py_pickle'') (Inr (PInt 42))" "recordable call_env (Inr (PInt 42))"
    by (simp_all add: persistable_def recordable_def call_env_simps)
  have awaited: "awaited_as call_env (Some ''py_pickle'') (Inr (PInt 42)) r' \<longleftrightarrow> r' = Inr (PInt 42)" for r'
    by (simp add: awaited_as_def)
  have "\<exists>c2 db' wr' r'. call_workflow call_env False [] ''u'' ''x'' ?blank example_fn [] (PDict []) ?f (Some ?c) (?db, 5)
      = (Some (Inr (PInt 42)), Some c2, (db', 6)) \<and> status_row db' (cx_workflow_id ?c) = Some pr
    \<and> status_row db' ''a-2'' = Some wr' \<and> ws_status wr' = SUCCESS
    \<and> awaited_as call_env (Some ''py_pickle'') (Inr (PInt 42)) r'
    \<and> (\<forall>db'' dbs async' uuid' xid' blank' args' kwargs' func' w''.
         operation_row db'' (cx_workflow_id ?c) = operation_row db' (cx_workflow_id ?c)
         \<longrightarrow> (\<exists>pr''. status_row db'' (cx_workflow_id ?c) = Some pr'' \<and> ws_status pr'' \<noteq> CANCELLED)
         \<longrightarrow> status_row db'' ''a-2'' = status_row db' ''a-2''
         \<longrightarrow> (\<exists>c2'. call_workflow call_env async' (db'' # dbs) uuid' xid' blank' example_fn args' kwargs' func' (Some ?c) (db'', w'')
               = (Some r', Some c2', (db'', w'')) \<and> cx_function_id c2' = cx_function_id c2))"
    using called_workflow_once [OF call_env_simps(3) c(1) roles(2,1) prog create refl, unfolded ch(1), OF cleared,
        of ?f "Inr (PInt 42)" db1 6 pr "new_status_row ?st (Some ''x'') 5" False] inv pr wr ok awaited st c
    by (simp add: new_status_row_def)
  then obtain c2 db' wr' r' where
    run: "call_workflow call_env False [] ''u'' ''x'' ?blank example_fn [] (PDict []) ?f (Some ?c) (?db, 5)
      = (Some (Inr (PInt 42)), Some c2, (db', 6))" and pr': "status_row db' (cx_workflow_id ?c) = Some pr"
    and r': "awaited_as call_env (Some ''py_pickle'') (Inr (PInt 42)) r'"
    and again: "\<forall>db'' dbs async' uuid' xid' blank' args' kwargs' func' w''.
         operation_row db'' (cx_workflow_id ?c) = operation_row db' (cx_workflow_id ?c)
         \<longrightarrow> (\<exists>pr''. status_row db'' (cx_workflow_id ?c) = Some pr'' \<and> ws_status pr'' \<noteq> CANCELLED)
         \<longrightarrow> status_row db'' ''a-2'' = status_row db' ''a-2''
         \<longrightarrow> (\<exists>c2'. call_workflow call_env async' (db'' # dbs) uuid' xid' blank' example_fn args' kwargs' func' (Some ?c) (db'', w'')
               = (Some r', Some c2', (db'', w'')) \<and> cx_function_id c2' = cx_function_id c2)"
    by blast
  have live: "\<exists>pr''. status_row db' (cx_workflow_id ?c) = Some pr'' \<and> ws_status pr'' \<noteq> CANCELLED" using pr(2) pr' by simp
  have "\<exists>c2'. call_workflow call_env False [db'] ''u2'' ''x2'' ?blank example_fn [] (PDict []) func' (Some ?c) (db', 9)
      = (Some r', Some c2', (db', 9))" for func'
    using again [rule_format, OF refl live refl, of False "[]" "''u2''" "''x2''" ?blank "[]" "PDict []" func' 9] by blast
  with run r' show ?thesis by (simp add: awaited)
qed

section \<open>Results of deleted workflows\<close>

lemma await_absent:
  "\<forall>d \<in> set polls. status_row d wid = None \<Longrightarrow> await_result en wid polls = None"
  by (induction polls) (simp_all add: await_result_def check_workflow_result_def)

text \<open>
  C11: A collected child blocks its recovering parent. The result that a workflow got from a child is
  recorded among its checkpoints, and garbage collection keeps them as long as the workflow is
  active, but it deletes the completed child. The parent's replay does not read the recorded
  result: its \<^verbatim>\<open>get_result\<close> polls for the child's row and does not return at any poll.
\<close>

theorem collected_child_blocks_parent:
  assumes inv: "sysdb_inv db"
    and child: "status_row db wid = Some wr" "\<not> workflow_is_active (ws_status wr)" "ws_created_at wr < cutoff_ms"
    and parent: "status_row db (cx_workflow_id rc) = Some pr" "workflow_is_active (ws_status pr)"
    and got: "operation_row db (cx_workflow_id rc) (cx_function_id rc) = Some (get_result_row wid (Some out) None ser rc)"
    and gc: "garbage_collect cutoff rows batch db = (Inr (Some (cutoff_ms, ids)), db')"
    and gone: "\<forall>d \<in> set polls. status_row d wid = None"
  shows "status_row db' (cx_workflow_id rc) = Some pr
    \<and> operation_row db' (cx_workflow_id rc) (cx_function_id rc) = Some (get_result_row wid (Some out) None ser rc)
    \<and> get_result en (HandlePolling wid) future (db' # polls) cur s = (None, cur, s)"
proof -
  note db' = garbage_collect_Some(2) [OF gc]
  have "status_row db' wid = None" "status_row db' (cx_workflow_id rc) = Some pr"
    unfolding db' delete_status_row [OF inv] using child parent by (auto simp: gc_filter_def workflow_is_active_def)
  then show ?thesis
    using delete_operation_row [OF inv, of "gc_filter cutoff_ms" "cx_workflow_id rc" "cx_function_id rc"] got
      await_absent [of "db' # polls" wid en] gone
    by (simp add: get_result_def awaited_handle_def flip: db')
qed

definition collected_db :: sysdb where
  "collected_db = (update_workflow_status (outcome_guard ''b'') (outcome_effect SUCCESS (Some ''42'') None 15)
     (example_db [''a'', ''b'']))\<lparr>operation_outputs :=
       [get_result_row ''b'' (Some ''42'') None (Some ''py_pickle'') ((example_ctx ''a'')\<lparr>cx_function_id := 3\<rparr>)]\<rparr>"

theorem collected_child_blocks_parent_witness:
  "\<exists>ids db'. garbage_collect (Some 20) None None collected_db = (Inr (Some (20, ids)), db')
    \<and> operation_row db' ''a'' 3 \<noteq> None
    \<and> get_result call_env (HandlePolling ''b'') None [db', db', db'] (Some (example_ctx ''a'')) (db', 7)
        = (None, Some (example_ctx ''a''), (db', 7))"
proof -
  let ?rc = "(example_ctx ''a'')\<lparr>cx_function_id := 3\<rparr>"
  have rc: "cx_workflow_id ?rc = ''a''" "cx_function_id ?rc = 3"
    by (simp_all add: example_ctx_def start_workflow_def new_context_def)
  have inv: "sysdb_inv collected_db"
    by (simp add: collected_db_def update_workflow_status_def sql_update_def outcome_guard_def outcome_effect_def
        example_db_def example_status_def new_status_row_def sysdb_inv_def status_table_ok_def
        dedup_unique_def dedup_key_def children_ok_def child_ok_def catalog_ok_def workflow_ids_def empty_sysdb_def
        get_result_row_def rc)
  obtain ids db' where run: "garbage_collect (Some 20) None None collected_db = (Inr (Some (20, ids)), db')"
    by (simp add: garbage_collect_def gc_cutoff_def Let_def)
  obtain wr where wr: "status_row collected_db ''b'' = Some wr" "ws_created_at wr = 10" "ws_status wr = SUCCESS"
    by (simp add: status_row_def collected_db_def update_workflow_status_def sql_update_def example_db_def outcome_guard_def
        outcome_effect_def new_status_row_def example_status_def)
  obtain pr where pr: "status_row collected_db ''a'' = Some pr" "ws_status pr = PENDING"
    by (simp add: status_row_def collected_db_def update_workflow_status_def sql_update_def example_db_def outcome_guard_def
        outcome_effect_def new_status_row_def example_status_def)
  have got: "operation_row collected_db ''a'' 3 = Some (get_result_row ''b'' (Some ''42'') None (Some ''py_pickle'') ?rc)"
    by (simp add: operation_row_def collected_db_def) (simp add: get_result_row_def rc)
  have gone: "status_row db' ''b'' = None"
    unfolding garbage_collect_Some(2) [OF run] delete_status_row [OF inv] using wr by (simp add: gc_filter_def)
  from collected_child_blocks_parent [OF inv wr(1) _ _ _ _ _ run, of ?rc pr "''42''" "Some ''py_pickle''" "[db', db']"
      call_env None "Some (example_ctx ''a'')" "(db', 7)"]
  have "operation_row db' ''a'' 3 \<noteq> None
    \<and> get_result call_env (HandlePolling ''b'') None [db', db', db'] (Some (example_ctx ''a'')) (db', 7)
        = (None, Some (example_ctx ''a''), (db', 7))"
    using wr pr got gone by (simp add: rc workflow_is_active_def)
  with run show ?thesis by blast
qed

section \<open>The format of a called workflow\<close>

text \<open>
  A workflow that records in the portable format runs with that format in its context when it is
  started (and so when it is recovered), but not when it is called: then the context has the format
  of a new context.
\<close>

lemma called_context_format:
  assumes "check_and_init en polls xid fn request wid ctx s = (CallExecute sd, s1)"
  shows "cx_serialization_type (sd_ctx sd) = cx_serialization_type ctx"
proof -
  obtain rq s0 s2 where "init_workflow_core en xid rq ctx s0 = (Inr sd, s2)"
    using assms by (auto simp: check_and_init_def split: prod.splits sum.splits option.splits if_splits)
  then show ?thesis
    by (auto simp: init_workflow_core_def Let_def comp_bind_def evaluated_def split: if_splits sum.splits prod.splits dbos_error.splits)
qed

lemma started_context_format:
  assumes "start_new en xid fn rq ex child s = (Inr (h, Some sd), s1)" "wi_serialization (sd_status sd) = Some ''portable_json''"
  shows "cx_serialization_type (sd_ctx sd) = PORTABLE"
  using assms by (auto simp: start_new_def Let_def comp_bind_def evaluated_def split: if_splits sum.splits prod.splits)

end
