(* ===== verification/DBOS_API.thy ===== *)
theory DBOS_API
  imports DBOS_Replay DBOS_Streams
begin

text \<open>
  The operations a workflow calls (class \<^verbatim>\<open>DBOS\<close> of \<^verbatim>\<open>dbos/_dbos.py\<close> and the functions of
  \<^verbatim>\<open>dbos/_core.py\<close> under them): sending and receiving messages, events, streams, durable sleep, patches,
  and system operations run as steps. Each takes the current context, reserves its function IDs
  there, and works on the world. A call from outside a workflow, or from within a step, takes the
  path the code has for it.
\<close>

section \<open>The process\<close>

text \<open>
  What a process has beside the environment of \<open>dbos_env\<close>: its identity, generated identifiers, the
  registries of waiters (part of the world outside the database), the wake-ups of a waiting thread
  (the world at each and whether a notification had set the event), the worlds that the further attempts
  of a stream write see, and whether patching is enabled.
\<close>

record 'w registry =
  rg_get :: "'w \<Rightarrow> event_dict"
  rg_set :: "event_dict \<Rightarrow> 'w \<Rightarrow> 'w"

record 'w process =
  pr_env :: "'w dbos_env"
  pr_executor_id :: string
  pr_app_id :: string
  pr_uuid :: "'w \<Rightarrow> nat \<Rightarrow> string"
  pr_notifications_map :: "'w registry"
  pr_workflow_events_map :: "'w registry"
  pr_new_event :: "'w \<Rightarrow> nat"
  pr_wakes :: "rat \<Rightarrow> 'w world \<Rightarrow> ('w world \<times> bool) list"
  pr_attempts :: "'w world \<Rightarrow> sysdb list"
  pr_enable_patching :: bool

abbreviation pr_codecs :: "'w process \<Rightarrow> codecs" where
  "pr_codecs p \<equiv> en_codecs (pr_env p)"

abbreviation pr_serializer :: "'w process \<Rightarrow> Serializer" where
  "pr_serializer p \<equiv> en_serializer (pr_env p)"

abbreviation pr_executor :: "'w process \<Rightarrow> string option" where
  "pr_executor p \<equiv> en_executor_id (pr_env p)"

definition now :: "'w process \<Rightarrow> 'w \<Rightarrow> int" where
  "now p w = en_clock (pr_env p) w"

definition now_sec :: "'w process \<Rightarrow> 'w \<Rightarrow> rat" where
  "now_sec p w = of_int (now p w) / 1000"

definition snapshot_step_context :: "'w process \<Rightarrow> bool \<Rightarrow> DBOSContext option \<Rightarrow> DBOSContext option \<times> DBOSContext option" where
  "snapshot_step_context p reserve_sleep_id cur = (case cur of
     None \<Rightarrow> (None, None)
   | Some c \<Rightarrow>
       if is_workflow c
       then (let (sc, c') = snapshot_step_ctx reserve_sleep_id (new_context (pr_executor_id p) (pr_app_id p)) c
             in (Some sc, Some c'))
       else (Some c, Some c))"

definition none_result :: "unit res \<Rightarrow> pyval res" where
  "none_result r = (case r of Inl e \<Rightarrow> Inl e | Inr _ \<Rightarrow> Inr PNone)"

text \<open>The format of a message, event or stream entry: the caller's choice, or else that of the workflow.\<close>

definition effective_format ::
  "WorkflowSerializationFormat option \<Rightarrow> DBOSContext option \<Rightarrow> WorkflowSerializationFormat" where
  "effective_format ser_type ctx = (if ser_type = None \<or> ser_type = Some DEFAULT
     then (case ctx of Some c \<Rightarrow> cx_serialization_type c | None \<Rightarrow> DEFAULT) else the ser_type)"

section \<open>Messages\<close>

definition send_bulk_core ::
  "'w process \<Rightarrow> DBOSContext option \<Rightarrow> SendMessage list \<Rightarrow> WorkflowSerializationFormat option \<Rightarrow> string \<Rightarrow> bool
   \<Rightarrow> (unit, 'w world) comp" where
  "send_bulk_core p ctx messages ser_type function_name send_to_forks s =
     (let t = now p (snd s);
          (wid, fid) = (case ctx of
              Some c \<Rightarrow> if is_workflow c then (Some (cx_workflow_id c), Some (cx_function_id c)) else (None, None)
            | None \<Rightarrow> (None, None))
      in on_db (send_bulk (pr_codecs p) (pr_serializer p) (pr_executor p) (pr_uuid p (snd s)) t
           (Some (effective_format ser_type ctx)) wid fid function_name send_to_forks t t messages) s)"

definition DBOS_send_bulk ::
  "'w process \<Rightarrow> string \<Rightarrow> SendMessage list \<Rightarrow> WorkflowSerializationFormat option \<Rightarrow> bool \<Rightarrow> DBOSContext option \<Rightarrow> 'w world
   \<Rightarrow> pyval res \<times> DBOSContext option \<times> 'w world" where
  "DBOS_send_bulk p function_name messages ser_type send_to_forks cur s =
     (let (ctx, cur') = snapshot_step_context p False cur;
          (r, s') = send_bulk_core p ctx messages ser_type function_name send_to_forks s
      in (none_result r, cur', s'))"

definition DBOS_send ::
  "'w process \<Rightarrow> string \<Rightarrow> pyval \<Rightarrow> string option \<Rightarrow> string option \<Rightarrow> WorkflowSerializationFormat option \<Rightarrow> bool
   \<Rightarrow> DBOSContext option \<Rightarrow> 'w world \<Rightarrow> pyval res \<times> DBOSContext option \<times> 'w world" where
  "DBOS_send p dest msg topic key ser_type send_to_forks =
     DBOS_send_bulk p ''DBOS.send''
       [\<lparr>sm_destination_id = dest, sm_message = msg, sm_topic = topic, sm_idempotency_key = key\<rparr>]
       ser_type send_to_forks"

text \<open>
  Waiting for a message or event: the event was set, or the deadline has passed, or the thread waits
  again, looking at the database after each wake-up. \<open>None\<close>: still waiting.
\<close>

fun await_event ::
  "'w process \<Rightarrow> (sysdb \<Rightarrow> bool) \<Rightarrow> rat \<Rightarrow> bool \<Rightarrow> 'w world \<Rightarrow> ('w world \<times> bool) list \<Rightarrow> 'w world option" where
  "await_event p check deadline is_set s [] =
     (if is_set \<or> deadline - now_sec p (snd s) \<le> 0 then Some s else None)"
| "await_event p check deadline is_set s ((s1, notified) # wakes) =
     (if is_set \<or> deadline - now_sec p (snd s) \<le> 0 then Some s
      else await_event p check deadline (notified \<or> check (fst s1)) s1 wakes)"

definition with_waiters :: "'w registry \<Rightarrow> event_dict \<times> sysdb \<Rightarrow> 'w \<Rightarrow> 'w world" where
  "with_waiters g x w = (snd x, rg_set g (fst x) w)"

definition pop_waiter :: "'w registry \<Rightarrow> string \<Rightarrow> 'w world \<Rightarrow> 'w world" where
  "pop_waiter g payload s = (fst s, rg_set g (event_pop payload (rg_get g (snd s))) (snd s))"

definition recv ::
  "'w process \<Rightarrow> string \<Rightarrow> int \<Rightarrow> int \<Rightarrow> string option \<Rightarrow> rat \<Rightarrow> 'w world \<Rightarrow> (pyval res \<times> 'w world) option" where
  "recv p wid fid timeout_fid topic timeout_seconds s =
     (let t = now p (snd s); ts = now_sec p (snd s) in
      case recv_setup (pr_codecs p) (pr_serializer p) (pr_executor p) wid fid timeout_fid topic timeout_seconds
             (pr_new_event p (snd s)) t ts t ts (rg_get (pr_notifications_map p) (snd s)) (fst s) of
        (Inl e, x) \<Rightarrow> Some (Inl e, with_waiters (pr_notifications_map p) x (snd s))
      | (Inr (Cached v), x) \<Rightarrow> Some (Inr v, with_waiters (pr_notifications_map p) x (snd s))
      | (Inr (Waiting event is_set actual_timeout payload), x) \<Rightarrow>
          (let s1 = with_waiters (pr_notifications_map p) x (snd s) in
           case await_event p (recv_check wid topic) (now_sec p (snd s1) + actual_timeout) is_set s1
                  (pr_wakes p actual_timeout s1) of
             None \<Rightarrow> None
           | Some s2 \<Rightarrow>
               (case on_db (recv_consume (pr_codecs p) (pr_serializer p) (pr_executor p) wid fid topic t
                       (now p (snd s2))) s2 of
                  (r, s3) \<Rightarrow> Some (r, pop_waiter (pr_notifications_map p) payload s3))))"

definition DBOS_recv ::
  "'w process \<Rightarrow> string option \<Rightarrow> rat \<Rightarrow> DBOSContext option \<Rightarrow> 'w world
   \<Rightarrow> (pyval res \<times> DBOSContext option \<times> 'w world) option" where
  "DBOS_recv p topic timeout_seconds cur s =
     (case snapshot_step_context p True cur of
        (Some c, cur') \<Rightarrow>
          if is_workflow c
          then map_option (\<lambda>(r, s'). (r, cur', s'))
                 (recv p (cx_workflow_id c) (cx_function_id c) (cx_function_id c + 1) topic timeout_seconds s)
          else Some (Inl (DBOSException ''recv() must be called from within a workflow''), cur', s)
      | (None, cur') \<Rightarrow> Some (Inl (DBOSException ''recv() must be called from within a workflow''), cur', s))"

section \<open>Events\<close>

definition set_event_core ::
  "'w process \<Rightarrow> DBOSContext option \<Rightarrow> string \<Rightarrow> pyval \<Rightarrow> WorkflowSerializationFormat option \<Rightarrow> (unit, 'w world) comp" where
  "set_event_core p ctx key v ser_type s =
     (let t = now p (snd s); fmt = effective_format ser_type ctx in
      case ctx of
        None \<Rightarrow> (Inl (DBOSException ''set_event() must be called from within a workflow or step''), s)
      | Some c \<Rightarrow>
          if is_workflow c
          then on_db (set_event_from_workflow (pr_codecs p) (pr_serializer p) (pr_executor p) (cx_workflow_id c)
                 (cx_function_id c) key v fmt t t) s
          else if is_step c
          then on_db (set_event_from_step (pr_codecs p) (pr_serializer p) (cx_workflow_id c)
                 (cx_curr_step_function_id c) key v fmt) s
          else (Inl (DBOSException ''set_event() must be called from within a workflow or step''), s))"

definition DBOS_set_event ::
  "'w process \<Rightarrow> string \<Rightarrow> pyval \<Rightarrow> WorkflowSerializationFormat option \<Rightarrow> DBOSContext option \<Rightarrow> 'w world
   \<Rightarrow> pyval res \<times> DBOSContext option \<times> 'w world" where
  "DBOS_set_event p key v ser_type cur s =
     (let (ctx, cur') = snapshot_step_context p False cur; (r, s') = set_event_core p ctx key v ser_type s
      in (none_result r, cur', s'))"

definition get_event ::
  "'w process \<Rightarrow> string \<Rightarrow> string \<Rightarrow> rat \<Rightarrow> GetEventWorkflowContext option \<Rightarrow> 'w world \<Rightarrow> (pyval res \<times> 'w world) option" where
  "get_event p target key timeout_seconds caller s =
     (let t = now p (snd s); ts = now_sec p (snd s) in
      case get_event_setup (pr_codecs p) (pr_serializer p) (pr_executor p) target key timeout_seconds caller
             (pr_new_event p (snd s)) t ts t ts (rg_get (pr_workflow_events_map p) (snd s)) (fst s) of
        (Inl e, x) \<Rightarrow> Some (Inl e, with_waiters (pr_workflow_events_map p) x (snd s))
      | (Inr (Cached v), x) \<Rightarrow> Some (Inr v, with_waiters (pr_workflow_events_map p) x (snd s))
      | (Inr (Waiting event is_set actual_timeout payload), x) \<Rightarrow>
          (let s1 = with_waiters (pr_workflow_events_map p) x (snd s) in
           case await_event p (get_event_check target key) (now_sec p (snd s1) + actual_timeout) is_set s1
                  (pr_wakes p actual_timeout s1) of
             None \<Rightarrow> None
           | Some s2 \<Rightarrow>
               (case on_db (get_event_consume (pr_codecs p) (pr_serializer p) (pr_executor p) target key t caller
                       (now p (snd s2))) s2 of
                  (r, s3) \<Rightarrow> Some (r, pop_waiter (pr_workflow_events_map p) payload s3))))"

definition DBOS_get_event ::
  "'w process \<Rightarrow> string \<Rightarrow> string \<Rightarrow> rat \<Rightarrow> DBOSContext option \<Rightarrow> 'w world
   \<Rightarrow> (pyval res \<times> DBOSContext option \<times> 'w world) option" where
  "DBOS_get_event p target key timeout_seconds cur s =
     (let (ctx, cur') = snapshot_step_context p True cur;
          caller = (case ctx of
              Some c \<Rightarrow> if is_workflow c then Some \<lparr>gc_workflow_uuid = cx_workflow_id c, gc_function_id = cx_function_id c,
                  gc_timeout_function_id = cx_function_id c + 1\<rparr> else None
            | None \<Rightarrow> None)
      in map_option (\<lambda>(r, s'). (r, cur', s')) (get_event p target key timeout_seconds caller s))"

section \<open>Streams\<close>

text \<open>
  The attempts of a write from a step: the first reads and inserts in the database of the call, each later one reads
  one database and inserts into the next.
\<close>

definition step_attempts :: "sysdb list \<Rightarrow> (sysdb \<times> sysdb) list" where
  "step_attempts dbs = (case dbs of [] \<Rightarrow> [] | db # _ \<Rightarrow> (db, db) # zip dbs (tl dbs))"

definition write_stream_core ::
  "'w process \<Rightarrow> DBOSContext option \<Rightarrow> string \<Rightarrow> pyval \<Rightarrow> WorkflowSerializationFormat option \<Rightarrow> 'w world
   \<Rightarrow> (unit res \<times> 'w world) option" where
  "write_stream_core p ctx key v ser_type s =
     (let t = now p (snd s); fmt = effective_format ser_type ctx; dbs = fst s # pr_attempts p s in
      case ctx of
        None \<Rightarrow> Some (Inl (DBOSException ''write_stream() must be called from within a workflow or step''), s)
      | Some c \<Rightarrow>
          if is_workflow c
          then map_option (\<lambda>(r, db). (r, (db, snd s))) (write_stream_from_workflow (pr_codecs p) (pr_serializer p)
                 (pr_executor p) (cx_workflow_id c) (cx_function_id c) key v fmt t t dbs)
          else if is_step c
          then map_option (\<lambda>(r, db). (r, (db, snd s))) (write_stream_from_step (pr_codecs p) (pr_serializer p)
                 (cx_workflow_id c) (cx_function_id c) key v fmt (step_attempts dbs))
          else Some (Inl (DBOSException ''write_stream() must be called from within a workflow or step''), s))"

definition DBOS_write_stream ::
  "'w process \<Rightarrow> string \<Rightarrow> pyval \<Rightarrow> WorkflowSerializationFormat option \<Rightarrow> DBOSContext option \<Rightarrow> 'w world
   \<Rightarrow> (pyval res \<times> DBOSContext option \<times> 'w world) option" where
  "DBOS_write_stream p key v ser_type cur s =
     (let (ctx, cur') = snapshot_step_context p False cur
      in map_option (\<lambda>(r, s'). (none_result r, cur', s')) (write_stream_core p ctx key v ser_type s))"

definition close_stream_core ::
  "'w process \<Rightarrow> DBOSContext option \<Rightarrow> string \<Rightarrow> 'w world \<Rightarrow> (unit res \<times> 'w world) option" where
  "close_stream_core p ctx key s =
     (let t = now p (snd s) in
      case ctx of
        None \<Rightarrow> Some (Inl (DBOSException ''close_stream() must be called from within a workflow''), s)
      | Some c \<Rightarrow>
          if is_workflow c
          then map_option (\<lambda>(r, db). (r, (db, snd s))) (close_stream (pr_codecs p) (pr_serializer p) (pr_executor p)
                 (cx_workflow_id c) (cx_function_id c) key t t (fst s # pr_attempts p s))
          else Some (Inl (DBOSException ''close_stream() must be called from within a workflow''), s))"

definition DBOS_close_stream ::
  "'w process \<Rightarrow> string \<Rightarrow> DBOSContext option \<Rightarrow> 'w world \<Rightarrow> (pyval res \<times> DBOSContext option \<times> 'w world) option" where
  "DBOS_close_stream p key cur s =
     (let (ctx, cur') = snapshot_step_context p False cur
      in map_option (\<lambda>(r, s'). (none_result r, cur', s')) (close_stream_core p ctx key s))"

section \<open>Sleeping\<close>

definition record_sleep_core :: "'w process \<Rightarrow> DBOSContext option \<Rightarrow> rat \<Rightarrow> (rat, 'w world) comp" where
  "record_sleep_core p ctx seconds s =
     (let t = now p (snd s); ts = now_sec p (snd s) in
      case ctx of
        None \<Rightarrow> (Inl (DBOSException ''sleep() must be called from within a workflow''), s)
      | Some c \<Rightarrow>
          if is_workflow c
          then on_db (record_sleep (pr_codecs p) (pr_serializer p) (pr_executor p) (cx_workflow_id c) (cx_function_id c)
                 seconds t ts t ts) s
          else (Inl AssertionError, s))"

definition DBOS_sleep ::
  "'w process \<Rightarrow> rat \<Rightarrow> DBOSContext option \<Rightarrow> 'w world \<Rightarrow> pyval res \<times> DBOSContext option \<times> 'w world" where
  "DBOS_sleep p seconds cur s =
     (if seconds \<le> 0 then (Inr PNone, cur, s)
      else let (ctx, cur') = snapshot_step_context p False cur in
        (case record_sleep_core p ctx seconds s of
           (Inl e, s') \<Rightarrow> (Inl e, cur', s')
         | (Inr duration, s') \<Rightarrow> (Inr PNone, cur', (fst s', en_sleep (pr_env p) duration (snd s')))))"

section \<open>Patches\<close>

definition DBOS_patch ::
  "'w process \<Rightarrow> string \<Rightarrow> DBOSContext option \<Rightarrow> 'w world \<Rightarrow> pyval res \<times> DBOSContext option \<times> 'w world" where
  "DBOS_patch p patch_name cur s =
     (if \<not> pr_enable_patching p
      then (Inl (DBOSException ''enable_patching must be True in DBOS configuration''), cur, s)
      else case cur of
        None \<Rightarrow> (Inl (DBOSException ''DBOS.patch must be called from a workflow''), cur, s)
      | Some c \<Rightarrow>
          if \<not> is_workflow c then (Inl (DBOSException ''DBOS.patch must be called from a workflow''), cur, s)
          else (case on_db (patch (pr_executor p) (cx_workflow_id c) (cx_function_id c + 1) (''DBOS.patch-'' @ patch_name)
                       (now p (snd s)) (now p (snd s))) s of
                  (Inl e, s') \<Rightarrow> (Inl e, cur, s')
                | (Inr patched, s') \<Rightarrow>
                    (Inr (PBool patched),
                     Some (if patched then c\<lparr>cx_function_id := cx_function_id c + 1\<rparr> else c), s')))"

definition DBOS_deprecate_patch ::
  "'w process \<Rightarrow> string \<Rightarrow> DBOSContext option \<Rightarrow> 'w world \<Rightarrow> pyval res \<times> DBOSContext option \<times> 'w world" where
  "DBOS_deprecate_patch p patch_name cur s =
     (if \<not> pr_enable_patching p
      then (Inl (DBOSException ''enable_patching must be True in DBOS configuration''), cur, s)
      else case cur of
        None \<Rightarrow> (Inl (DBOSException ''DBOS.deprecate_patch must be called from a workflow''), cur, s)
      | Some c \<Rightarrow>
          if \<not> is_workflow c then (Inl (DBOSException ''DBOS.deprecate_patch must be called from a workflow''), cur, s)
          else if deprecate_patch (cx_workflow_id c) (cx_function_id c + 1) (''DBOS.patch-'' @ patch_name) (fst s)
          then (Inr (PBool True), Some (c\<lparr>cx_function_id := cx_function_id c + 1\<rparr>), s)
          else (Inr (PBool True), cur, s))"

text \<open>
  The coroutine version looks at the database in a thread; \<open>siblings\<close> is what the other tasks of the
  workflow and other processes do meanwhile.
\<close>

definition DBOS_patch_async ::
  "'w process \<Rightarrow> string \<Rightarrow> (DBOSContext \<times> 'w world \<Rightarrow> DBOSContext \<times> 'w world) \<Rightarrow> DBOSContext option \<Rightarrow> 'w world
   \<Rightarrow> pyval res \<times> DBOSContext option \<times> 'w world" where
  "DBOS_patch_async p patch_name0 siblings cur s =
     (if \<not> pr_enable_patching p
      then (Inl (DBOSException ''enable_patching must be True in DBOS configuration''), cur, s)
      else case cur of
        None \<Rightarrow> (Inl (DBOSException ''DBOS.patch_async must be called from a workflow''), cur, s)
      | Some c \<Rightarrow>
          if \<not> is_workflow c then (Inl (DBOSException ''DBOS.patch_async must be called from a workflow''), cur, s)
          else (let wid = cx_workflow_id c; fid = cx_function_id c; patch_name = ''DBOS.patch-'' @ patch_name0;
                    checkpoint_name = get_checkpoint_name wid (fid + 1) (fst s);
                    (c1, s1) = siblings (c, s)
                in if cx_function_id c1 \<noteq> fid then (Inl (DBOSPatchNondeterminismError wid patch_name), Some c1, s1)
                   else if checkpoint_name \<noteq> None \<and> checkpoint_name \<noteq> Some patch_name then (Inr (PBool False), Some c1, s1)
                   else let c2 = c1\<lparr>cx_function_id := cx_function_id c1 + 1\<rparr> in
                     if checkpoint_name = Some patch_name then (Inr (PBool True), Some c2, s1)
                     else (case on_db (patch (pr_executor p) wid (fid + 1) patch_name (now p (snd s1)) (now p (snd s1))) s1 of
                        (Inl e, s2) \<Rightarrow> (Inl e, Some c2, s2)
                      | (Inr patched, s2) \<Rightarrow> (Inr (PBool patched), Some c2, s2))))"

section \<open>System operations run as steps\<close>

text \<open>\<open>fn\<close> is the operation on the database; its value is recorded.\<close>

definition api_as_step ::
  "'w process \<Rightarrow> string \<Rightarrow> (sysdb \<Rightarrow> pyval res \<times> sysdb) \<Rightarrow> DBOSContext option \<Rightarrow> 'w world
   \<Rightarrow> pyval res \<times> DBOSContext option \<times> 'w world" where
  "api_as_step p name fn cur s =
     (let (ctx, cur') = snapshot_step_context p False cur;
          t = now p (snd s);
          (r, s') = on_db (call_function_as_step (pr_codecs p) (pr_serializer p) (pr_executor p) fn name ctx t t) s
      in (r, cur', s'))"

end
