(* ===== verification/DBOS_API_Replay.thy ===== *)
theory DBOS_API_Replay
  imports DBOS_API
begin

text \<open>
  Replay of the single operations of \<open>DBOS_API\<close>: what each changes of the workflow that calls it (its
  own checkpoints and nothing else of the workflow's rows), and that after its checkpoint was recorded
  it gives the recorded result without any effect.
\<close>

section \<open>What an operation changes of its workflow\<close>

lemma record_touches:
  assumes "record_operation_result_txn ex res t db = Done u db'" "or_function_id res \<in> F"
  shows "touches_only (or_workflow_uuid res) F db db'"
proof -
  from assms(1) obtain w where w: "status_row db (or_workflow_uuid res) = Some w"
    and err: "or_error res = None \<or> or_output res = None"
    by (auto simp: record_operation_result_txn_def split: option.splits if_splits)
  let ?db = "reset_executor ex (or_workflow_uuid res) w db"
  have st: "map_option row_state (status_row ?db v) = map_option row_state (status_row db v)" for v
    using w by (rule reset_executor_row_state)
  show ?thesis
  proof (cases "operation_row db (or_workflow_uuid res) (or_function_id res)")
    case None
    then have "db' = ?db\<lparr>operation_outputs := operation_outputs db @ [operation_output_of res t]\<rparr>"
      using record_operation_fresh [OF w None err, of ex t] assms(1) by simp
    then show ?thesis using st assms(2)
      by (auto simp: touches_only_def operation_output_of_def intro!: operation_row_appended_other [THEN trans])
  next
    case (Some old)
    then have "db' = ?db"
      using record_operation_exists [OF w Some err, of ex t] assms(1) by (auto split: option.splits if_splits)
    then show ?thesis using st by (simp add: touches_only_def)
  qed
qed

lemma record_result_touches:
  assumes "record_operation_result ex res t db = (x, db')" "or_function_id res \<in> F"
  shows "touches_only (or_workflow_uuid res) F db db'"
  using assms record_touches [OF _ assms(2)]
  by (auto simp: record_operation_result_def engine_begin_def split: txn_result.splits)

lemma engine_touches:
  assumes "engine_begin body db = (x, db')" "\<And>a d. body db = Done a d \<Longrightarrow> touches_only wid F db d"
    "\<And>e d. body db \<noteq> CommitRaise e d"
  shows "touches_only wid F db db'"
  using assms by (auto simp: engine_begin_def split: txn_result.splits)

text \<open>What these changes give for the workflow's progress.\<close>

lemma touches_progress:
  assumes "running wid c" "in_progress c db" "touches_only wid {cx_function_id c + 1 .. cx_function_id c'} db db'"
    and "cx_workflow_id c' = wid" "is_workflow c'" "cx_function_id c < cx_function_id c'"
  shows "running wid c' \<and> cx_function_id c < cx_function_id c' \<and> in_progress c' db'
    \<and> (\<forall>i \<le> cx_function_id c. operation_row db' wid i = operation_row db wid i)"
proof -
  have rows: "operation_row db' wid i = operation_row db wid i" if "i \<le> cx_function_id c \<or> i > cx_function_id c'" for i
    using assms(3) that by (auto simp: touches_only_def)
  have st: "map_option row_state (status_row db' wid) = map_option row_state (status_row db wid)"
    using assms(3) by (simp add: touches_only_def)
  with assms(1,2) obtain wr where "status_row db' wid = Some wr" "ws_status wr \<noteq> CANCELLED"
    by (auto simp: in_progress_def running_def row_state_def)
  moreover have "operation_row db' wid i = None" if "i > cx_function_id c'" for i
    using rows [of i] that assms(1,2,6) by (auto simp: in_progress_def running_def)
  ultimately show ?thesis using assms rows by (auto simp: running_def in_progress_def)
qed

section \<open>Sending, setting events and writing streams\<close>

text \<open>A transaction that checks, works and records; its result, \<open>None\<close>, is the same on every replay.\<close>

lemma sending_touches:
  assumes "send_bulk cs sz ex fresh t ty (Some wid) (Some fid) name forks start t' ms db = (x, db')" "fid \<in> F"
  shows "touches_only wid F db db'"
proof -
  have *: "touches_only wid F db d"
    if "send_prepared_txn ex fresh t (Some wid) (Some fid) name forks start t' ps db = Done a d" for ps a d
  proof (cases "check_operation_execution_txn wid fid name db = Inr None")
    case True
    with that obtain d1 where d1: "deliver fresh t forks ps db = Done () d1"
      "record_operation_result_txn ex (send_result wid fid name start) t' d1 = Done () d"
      by (auto simp: send_prepared_txn_def txn_bind_Done_iff)
    from deliver_Done_frame [OF d1(1)] have "touches_only wid F db d1" by (auto intro: touches_frame)
    moreover have "touches_only wid F d1 d"
      using record_touches [OF d1(2), of F] assms(2) by (simp add: send_result_def)
    ultimately show ?thesis by (rule touches_trans)
  next
    case False
    with that show ?thesis by (auto simp: send_prepared_txn_def split: sum.splits option.splits)
  qed
  show ?thesis
  proof (rule engine_touches [OF assms(1) [unfolded send_bulk_def]])
    fix a d
    assume "send_bulk_txn cs sz ex fresh t ty (Some wid) (Some fid) name forks start t' ms db = Done a d"
    with * show "touches_only wid F db d" by (auto simp: send_bulk_txn_def split: if_splits sum.splits)
  next
    fix e d
    show "send_bulk_txn cs sz ex fresh t ty (Some wid) (Some fid) name forks start t' ms db \<noteq> CommitRaise e d"
      by (auto simp: send_bulk_txn_def send_prepared_txn_def deliver_def Let_def split: sum.splits option.splits
          elim!: txn_bind.elims)
  qed
qed

context checkpointed
begin

lemma recorded_later:
  assumes fresh: "check_operation_execution_txn wid fid name db = Inr None"
    and run: "engine_begin body db = (x, db')" and rec: "operation_row db' wid fid \<noteq> None"
    and later: "checkpoint_stands wid fid db' db''"
  shows "\<exists>a rr. x = Inr a \<and> check_operation_execution_txn wid fid name db'' = Inr (Some rr) \<and> faithful a rr"
proof (cases x)
  case (Inl e)
  with failed_unchanged run have "db' = db" by blast
  with fresh rec show ?thesis by (simp add: check_None_iff)
next
  case (Inr a)
  with succeeded_recorded [of db a db'] run fresh obtain rr where
    "check_operation_execution_txn wid fid name db' = Inr (Some rr)" "faithful a rr" by auto
  with later Inr show ?thesis
    by (auto simp: check_Some_iff checkpoint_stands_def split: option.splits)
qed

end

lemma sending_replay:
  assumes fresh: "check_operation_execution_txn wid fid name db = Inr None"
    and run: "send_bulk cs sz ex fr t ty (Some wid) (Some fid) name forks start t' ms db = (x, db')"
    and rec: "operation_row db' wid fid \<noteq> None" and later: "checkpoint_stands wid fid db' db''"
  shows "x = Inr ()"
    "send_bulk cs sz ex fr2 t2 ty (Some wid) (Some fid) name forks start2 t2' ms db'' = (Inr (), db'')"
proof -
  have "db' \<noteq> db" using fresh rec by (auto simp: check_None_iff)
  with run obtain ps where keys: "length (provided_keys ms) = length (remdups (provided_keys ms))"
    and ps: "prepare cs sz ty ms = Inr ps"
    by (auto simp: send_bulk_def send_bulk_txn_def engine_begin_def split: if_splits sum.splits)
  then have eq: "send_bulk cs sz e f n ty (Some wid) (Some fid) name forks a b ms
      = engine_begin (send_prepared_txn e f n (Some wid) (Some fid) name forks a b ps)" for e f n a b
    by (auto simp: send_bulk_def send_bulk_txn_def engine_begin_def)
  from sending.recorded_later [OF fresh run [unfolded eq] rec later]
  obtain rr where "x = Inr ()" "check_operation_execution_txn wid fid name db'' = Inr (Some rr)" by auto
  with sending.replay_unchanged show "x = Inr ()"
    "send_bulk cs sz ex fr2 t2 ty (Some wid) (Some fid) name forks start2 t2' ms db'' = (Inr (), db'')"
    unfolding eq by auto
qed

lemma setting_touches:
  assumes "set_event_from_workflow cs sz ex wid fid key v ty start t db = (x, db')" "fid \<in> F"
  shows "touches_only wid F db db'"
proof (cases "serialize_value cs v (Some ty) sz")
  case (Inl e)
  with assms(1) show ?thesis by (simp add: set_event_from_workflow_def)
next
  case (Inr y)
  then obtain val ser where y: "serialize_value cs v (Some ty) sz = Inr (val, ser)" by (cases y) auto
  have body: "touches_only wid F db d" if "set_event_txn ex wid fid key val ser start t db = Done a d" for a d
  proof (cases "check_operation_execution_txn wid fid ''DBOS.setEvent'' db = Inr None")
    case True
    with that obtain d1 where d1: "store_event wid fid key val ser db = Done () d1"
      "record_operation_result_txn ex (send_result wid fid ''DBOS.setEvent'' start) t d1 = Done () d"
      by (auto simp: set_event_txn_def txn_bind_Done_iff)
    have "touches_only wid F db d1" by (rule touches_frame) (use store_event_frame [OF d1(1)] in auto)
    moreover have "touches_only wid F d1 d" using record_touches [OF d1(2), of F] assms(2) by (simp add: send_result_def)
    ultimately show ?thesis by (rule touches_trans)
  next
    case False
    with that show ?thesis by (auto simp: set_event_txn_def split: sum.splits option.splits)
  qed
  show ?thesis
  proof (rule engine_touches)
    show "engine_begin (set_event_txn ex wid fid key val ser start t) db = (x, db')"
      using assms(1) y by (simp add: set_event_from_workflow_def)
    show "set_event_txn ex wid fid key val ser start t db \<noteq> CommitRaise e d" for e d
      by (auto simp: set_event_txn_def split: sum.splits option.splits elim!: txn_bind.elims dest: sym)
  qed (rule body)
qed

lemma setting_replay:
  assumes fresh: "check_operation_execution_txn wid fid ''DBOS.setEvent'' db = Inr None"
    and run: "set_event_from_workflow cs sz ex wid fid key v ty start t db = (x, db')"
    and rec: "operation_row db' wid fid \<noteq> None" and later: "checkpoint_stands wid fid db' db''"
  shows "x = Inr ()" "set_event_from_workflow cs sz ex wid fid key v ty start2 t2 db'' = (Inr (), db'')"
proof -
  have "db' \<noteq> db" using fresh rec by (auto simp: check_None_iff)
  with run obtain val ser where y: "serialize_value cs v (Some ty) sz = Inr (val, ser)"
    by (auto simp: set_event_from_workflow_def split: sum.splits)
  then have eq: "set_event_from_workflow cs sz ex wid fid key v ty a b
      = engine_begin (set_event_txn ex wid fid key val ser a b)" for a b
    by (auto simp: set_event_from_workflow_def)
  from setting.recorded_later [OF fresh run [unfolded eq] rec later] obtain rr where
    "x = Inr ()" "check_operation_execution_txn wid fid ''DBOS.setEvent'' db'' = Inr (Some rr)" by auto
  with setting.replay_unchanged show "x = Inr ()"
    "set_event_from_workflow cs sz ex wid fid key v ty start2 t2 db'' = (Inr (), db'')"
    unfolding eq by auto
qed

text \<open>A stream write may see other databases at its later attempts, which have kept the workflow's rows.\<close>

lemma stream_write_attempt:
  assumes "write_stream_from_workflow cs sz ex wid fid key v ty start t dbs = Some (x, db')"
  shows "\<exists>d \<in> set dbs. case serialize_value cs v (Some ty) sz of
      Inl e \<Rightarrow> x = Inl e \<and> db' = d
    | Inr (val, ser) \<Rightarrow>
        engine_begin (write_stream_txn ex wid fid (stream_function_name v) key val ser start t) d = (x, db')"
proof -
  have "\<exists>d \<in> set dbs. engine_begin (write_stream_txn ex wid fid name key val ser start t) d = (x, db')"
    if "write_stream_loop ex wid fid name key val ser start t dbs = Some (x, db')" for name val ser
    using that by (induction dbs) (auto split: if_splits)
  with assms show ?thesis
    by (fastforce simp: write_stream_from_workflow_def split: list.splits sum.splits)
qed

lemma streaming_touches:
  assumes "engine_begin (write_stream_txn ex wid fid name key val ser start t) db = (x, db')" "fid \<in> F"
  shows "touches_only wid F db db'"
proof (rule engine_touches [OF assms(1)])
  fix a d
  assume body: "write_stream_txn ex wid fid name key val ser start t db = Done a d"
  show "touches_only wid F db d"
  proof (cases "check_operation_execution_txn wid fid name db = Inr None")
    case True
    with body obtain d1 where d1: "stream_insert_stmt wid fid key val ser db = Inr d1"
      "record_operation_result_txn ex (send_result wid fid name start) t d1 = Done () d"
      by (auto simp: write_stream_txn_def txn_bind_Done_iff)
    have "touches_only wid F db d1" by (rule touches_frame) (use insert_frame [OF d1(1)] in auto)
    moreover have "touches_only wid F d1 d" using record_touches [OF d1(2), of F] assms(2) by (simp add: send_result_def)
    ultimately show ?thesis by (rule touches_trans)
  next
    case False
    with body show ?thesis by (auto simp: write_stream_txn_def split: sum.splits option.splits)
  qed
next
  show "write_stream_txn ex wid fid name key val ser start t db \<noteq> CommitRaise e d" for e d
    by (auto simp: write_stream_txn_def split: sum.splits option.splits elim!: txn_bind.elims dest: sym)
qed

lemma stream_write_touches:
  assumes run: "write_stream_from_workflow cs sz ex wid fid key v ty start t (db # dbs) = Some (x, db')" "fid \<in> F"
    and keep: "\<forall>d \<in> set dbs. touches_only wid {} db d"
  shows "touches_only wid F db db'"
proof -
  from stream_write_attempt [OF run(1)] obtain d where d: "d \<in> set (db # dbs)"
    and at: "case serialize_value cs v (Some ty) sz of Inl e \<Rightarrow> x = Inl e \<and> db' = d
      | Inr (val, ser) \<Rightarrow>
          engine_begin (write_stream_txn ex wid fid (stream_function_name v) key val ser start t) d = (x, db')" by blast
  have "touches_only wid {} db d" using d keep by auto
  then have "touches_only wid F db d" by (rule touches_mono) simp
  moreover have "touches_only wid F d db'"
    using at by (auto simp: streaming_touches [OF _ run(2)] split: sum.splits)
  ultimately show ?thesis by (rule touches_trans)
qed

lemma stream_write_replay:
  assumes fresh: "check_operation_execution_txn wid fid (stream_function_name v) db = Inr None"
    and run: "write_stream_from_workflow cs sz ex wid fid key v ty start t (db # dbs) = Some (x, db')"
    and keep: "\<forall>d \<in> set dbs. touches_only wid {} db d"
    and rec: "operation_row db' wid fid \<noteq> None" and later: "checkpoint_stands wid fid db' db''"
  shows "x = Inr ()"
    "write_stream_from_workflow cs sz ex wid fid key v ty start2 t2 (db'' # dbs2) = Some (Inr (), db'')"
proof -
  from stream_write_attempt [OF run] obtain d where d: "d \<in> set (db # dbs)"
    and at: "case serialize_value cs v (Some ty) sz of Inl e \<Rightarrow> x = Inl e \<and> db' = d
      | Inr (val, ser) \<Rightarrow>
          engine_begin (write_stream_txn ex wid fid (stream_function_name v) key val ser start t) d = (x, db')" by blast
  have "touches_only wid {} db d" using d keep by auto
  with fresh have fresh': "check_operation_execution_txn wid fid (stream_function_name v) d = Inr None"
    by (auto simp: touches_only_def check_None_iff row_state_def)
  with rec at obtain val ser where ser: "serialize_value cs v (Some ty) sz = Inr (val, ser)"
    and eng: "engine_begin (write_stream_txn ex wid fid (stream_function_name v) key val ser start t) d = (x, db')"
    by (auto simp: check_None_iff split: sum.splits)
  from streaming.recorded_later [OF fresh' eng rec later] obtain rr where
    x: "x = Inr ()" and chk: "check_operation_execution_txn wid fid (stream_function_name v) db'' = Inr (Some rr)" by auto
  then show "x = Inr ()" by simp
  have "\<not> stream_conflict wid fid (stream_function_name v) key val ser db''"
    using chk by (simp add: stream_conflict_def)
  with streaming.replay_unchanged [OF chk]
  show "write_stream_from_workflow cs sz ex wid fid key v ty start2 t2 (db'' # dbs2) = Some (Inr (), db'')"
    by (simp add: write_stream_from_workflow_def ser)
qed

section \<open>Sleeping, patches and functions run as steps\<close>

lemma check_unchanged: "check_operation_execution wid fid name db = (r, db') \<Longrightarrow> db' = db"
  by (auto simp: check_operation_execution_def engine_begin_def lift_res_def split: sum.splits)

lemma record_failed_unchanged: "record_operation_result ex res t db = (Inl e, db') \<Longrightarrow> db' = db"
  by (auto simp: record_operation_result_def engine_begin_def split: txn_result.splits)

lemma sleeping_touches:
  assumes "record_sleep cs sz ex wid fid secs s t1 t t2 db = (x, db')" "fid \<in> F"
  shows "touches_only wid F db db'"
proof -
  have rec: "touches_only wid F d d'"
    if "record_operation_result ex (step_result wid fid name s out ser) t d = (y, d')" for name out ser d y d'
    using record_result_touches [OF that, of F] assms(2) by (simp add: step_result_def)
  show ?thesis using assms(1)
    by (auto simp: record_sleep_def Let_def dest!: check_unchanged dest: rec
        split: prod.splits sum.splits option.splits pyval.splits dbos_error.splits)
qed

lemma sleeping_recorded:
  assumes fresh: "check_operation_execution_txn wid fid ''DBOS.sleep'' db = Inr None"
    and run: "record_sleep cs sz ex wid fid secs s t1 t t2 db = (x, db')" and rec: "operation_row db' wid fid \<noteq> None"
  shows "\<exists>d. x = Inr d"
proof -
  have "operation_row db wid fid = None" using fresh by (simp add: check_None_iff)
  then show ?thesis using run rec
    by (auto simp: record_sleep_def Let_def check_operation_execution_None [OF fresh] dest!: record_failed_unchanged
        split: prod.splits sum.splits dbos_error.splits)
qed

lemma patch_touches:
  assumes "patch ex wid fid pname s t db = (x, db')" "fid \<in> F"
  shows "touches_only wid F db db'"
proof (rule engine_touches [OF assms(1) [unfolded patch_def]])
  fix a d
  assume "(case get_checkpoint_name wid fid db of
      None \<Rightarrow> txn_bind (record_operation_result_txn ex (patch_result wid fid pname s) t db) (\<lambda>_ db1. Done True db1)
    | Some n \<Rightarrow> Done (n = pname) db) = Done a d"
  then show "touches_only wid F db d"
    using record_touches [of ex "patch_result wid fid pname s" t db _ _ F] assms(2)
    by (auto simp: txn_bind_Done_iff patch_result_def split: option.splits)
qed (auto split: option.splits elim!: txn_bind.elims dest: sym)

text \<open>A system operation that a workflow may run as a step leaves the workflow's own rows alone.\<close>

definition fn_alone :: "string \<Rightarrow> (sysdb \<Rightarrow> pyval res \<times> sysdb) \<Rightarrow> bool" where
  "fn_alone wid fn \<longleftrightarrow> (\<forall>db. touches_only wid {} db (snd (fn db)))"

lemma as_step_recorded:
  assumes c: "is_workflow c" and alone: "fn_alone (cx_workflow_id c) fn"
    and fresh: "check_operation_execution_txn (cx_workflow_id c) (cx_function_id c) name db = Inr None"
    and run: "call_function_as_step cs sz ex fn name (Some c) s t db = (x, db')"
  shows "cx_function_id c \<in> F \<Longrightarrow> touches_only (cx_workflow_id c) F db db'"
    and "operation_row db' (cx_workflow_id c) (cx_function_id c) \<noteq> None \<Longrightarrow>
      \<exists>v db1. fn db = (Inr v, db1) \<and> operation_row db1 (cx_workflow_id c) (cx_function_id c) = None \<and> x = Inr v"
proof -
  let ?wid = "cx_workflow_id c" and ?fid = "cx_function_id c"
  have nt: "\<not> is_transaction c" using c by (simp add: is_workflow_def)
  obtain y db1 where fn: "fn db = (y, db1)" by (cases "fn db")
  have t1: "touches_only ?wid {} db db1" using alone fn by (auto simp: fn_alone_def dest: spec [of _ db])
  then have none: "operation_row db1 ?wid ?fid = None" using fresh by (simp add: touches_only_def check_None_iff)
  note run' = run [unfolded call_function_as_step_def, simplified, unfolded check_operation_execution_None [OF fresh]]
  show "touches_only ?wid F db db'" if "?fid \<in> F"
  proof -
    have "touches_only ?wid F db db1" using t1 by (rule touches_mono) simp
    moreover have "touches_only ?wid F db1 db2"
      if "record_operation_result ex (step_result ?wid ?fid name s out ser) t db1 = (z, db2)" for out ser z db2
      using record_result_touches [OF that, of F] \<open>?fid \<in> F\<close> by (simp add: step_result_def)
    ultimately show ?thesis using run' c nt fn
      by (auto split: sum.splits prod.splits intro: touches_trans)
  qed
  show "\<exists>v db1. fn db = (Inr v, db1) \<and> operation_row db1 ?wid ?fid = None \<and> x = Inr v"
    if "operation_row db' ?wid ?fid \<noteq> None"
    using run' c nt fn that none by (auto dest!: record_failed_unchanged split: sum.splits prod.splits)
qed

section \<open>Receiving messages and events\<close>

text \<open>
  What a process is relied on for: the codecs are inverse to each other, \<^verbatim>\<open>json.loads\<close> gives JSON values,
  the registries are stored as they are, and the other processes that act while this one waits leave the
  workflow's own rows alone.
\<close>

definition registry_law :: "'w registry \<Rightarrow> bool" where
  "registry_law g \<longleftrightarrow> (\<forall>w. rg_set g (rg_get g w) w = w)"

definition good_process :: "string \<Rightarrow> 'w process \<Rightarrow> bool" where
  "good_process wid p \<longleftrightarrow> codecs_law (pr_codecs p) (pr_serializer p) \<and> ser_name (pr_serializer p) \<noteq> ''portable_json''
     \<and> (\<forall>s v. json_loads (pr_codecs p) s = Inr v \<longrightarrow> is_json v)
     \<and> registry_law (pr_notifications_map p) \<and> registry_law (pr_workflow_events_map p)
     \<and> (\<forall>t s x. x \<in> set (pr_wakes p t s) \<longrightarrow> touches_only wid {} (fst s) (fst (fst x)))
     \<and> (\<forall>s d. d \<in> set (pr_attempts p s) \<longrightarrow> touches_only wid {} (fst s) d)"

lemma good_processD:
  assumes "good_process wid p"
  shows "codecs_law (pr_codecs p) (pr_serializer p)" "\<forall>s v. json_loads (pr_codecs p) s = Inr v \<longrightarrow> is_json v"
    "ser_name (pr_serializer p) \<noteq> ''portable_json''"
    "rg_set (pr_notifications_map p) (rg_get (pr_notifications_map p) w) w = w"
    "rg_set (pr_workflow_events_map p) (rg_get (pr_workflow_events_map p) w) w = w"
    "\<forall>d \<in> set (pr_attempts p s). touches_only wid {} (fst s) d"
  using assms unfolding good_process_def registry_law_def by blast+

text \<open>A value read in one format and recorded in it reads back as it was.\<close>

lemma reread:
  assumes law: "codecs_law cs sz" and json: "\<forall>s v. json_loads cs s = Inr v \<longrightarrow> is_json v"
    and native: "ser_name sz \<noteq> ''portable_json''"
    and rd: "(v, ser0) = (PNone, None) \<or> (\<exists>txt. deserialize_value cs (Some txt) ser0 sz = Inr v)"
    and wrt: "serialize_value_as cs v ser0 sz = Inr (out, ser)"
  shows "deserialize_value cs (Some out) (Some ser) sz = Inr v"
proof -
  from deserialize_serialize [OF law wrt] obtain v' where
    v': "deserialize_value cs (Some out) (Some ser) sz = Inr v'"
    and eq: "if ser = ''portable_json'' then portableify v = Inr v' else v' = v" by auto
  have "v' = v"
  proof (cases "ser = ''portable_json''")
    case True
    with wrt native have "ser0 = Some ''portable_json''"
      by (auto simp: serialize_value_as_def res_bind_Inr_iff split: if_splits option.splits)
    with rd json have "is_json v" by (auto simp: deserialize_value_def DBOSPortableJSON_def)
    with eq True show ?thesis by (simp add: portableify_json_id)
  qed (use eq in simp)
  with v' show ?thesis by simp
qed

lemma await_event_world:
  "await_event p check d b s wakes = Some s2 \<Longrightarrow> s2 = s \<or> s2 \<in> fst ` set wakes"
  by (induction p check d b s wakes rule: await_event.induct) (auto split: if_splits)

lemma await_touches:
  assumes "good_process wid p" "await_event p check d b s (pr_wakes p t s) = Some s2"
  shows "touches_only wid F (fst s) (fst s2)"
proof -
  have "touches_only wid {} (fst s) (fst s2)"
    using await_event_world [OF assms(2)]
  proof
    assume "s2 \<in> fst ` set (pr_wakes p t s)"
    then obtain x where x: "x \<in> set (pr_wakes p t s)" "s2 = fst x" by auto
    have "\<forall>x \<in> set (pr_wakes p t s). touches_only wid {} (fst s) (fst (fst x))"
      using assms(1) unfolding good_process_def by blast
    with x show ?thesis by simp
  qed simp
  then show ?thesis by (rule touches_mono) simp
qed

lemma consume_touches:
  assumes "recv_consume cs sz ex wid fid topic s t db = (x, db')" "fid \<in> F"
  shows "touches_only wid F db db'"
proof -
  have rec: "touches_only wid F d d'"
    if "record_operation_result_txn ex (step_result wid fid ''DBOS.recv'' s out ser) t d = Done u d'" for out ser d u d'
    using record_touches [OF that, of F] assms(2) by (simp add: step_result_def)
  have con: "touches_only wid F db (consume wid tp m db)" for tp m
    by (rule touches_frame) (simp_all add: consume_def)
  show ?thesis
  proof (rule engine_touches [OF assms(1) [unfolded recv_consume_def]])
    fix a d
    assume "recv_consume_txn cs sz ex wid fid topic s t db = Done a d"
    then show "touches_only wid F db d"
      by (auto simp: recv_consume_txn_def Let_def lift_res_def txn_bind_Done_iff
          intro: rec touches_trans [OF con rec] split: option.splits sum.splits prod.splits)
  next
    show "recv_consume_txn cs sz ex wid fid topic s t db \<noteq> CommitRaise e d" for e d
      by (auto simp: recv_consume_txn_def Let_def lift_res_def split: option.splits sum.splits prod.splits
          elim!: txn_bind.elims dest: sym)
  qed
qed

lemma consume_recorded:
  assumes law: "codecs_law cs sz" and json: "\<forall>s v. json_loads cs s = Inr v \<longrightarrow> is_json v"
    and native: "ser_name sz \<noteq> ''portable_json''" and none: "operation_row db wid fid = None"
    and run: "recv_consume cs sz ex wid fid topic s t db = (x, db')" and rec: "operation_row db' wid fid \<noteq> None"
  shows "\<exists>v row. x = Inr v \<and> operation_row db' wid fid = Some row \<and> oo_function_name row = ''DBOS.recv''
    \<and> replay_output cs sz (recorded_result row) = Inr v"
proof (cases x)
  case (Inl e)
  with run have "db' = db"
    by (auto simp: recv_consume_def recv_consume_txn_def Let_def lift_res_def engine_begin_def
        split: option.splits sum.splits prod.splits txn_result.splits elim!: txn_bind.elims dest: sym)
  with none rec show ?thesis by simp
next
  case (Inr v)
  from run none Inr obtain ser0 db1 out ser where
    ser: "serialize_value_as cs v ser0 sz = Inr (out, ser)"
    and rd: "(v, ser0) = (PNone, None) \<or> (\<exists>txt. deserialize_value cs (Some txt) ser0 sz = Inr v)"
    and rec1: "record_operation_result_txn ex (step_result wid fid ''DBOS.recv'' s out (Some ser)) t db1 = Done () db'"
    and outs: "operation_outputs db1 = operation_outputs db"
    by (cases "oldest_message wid (topic_of topic) db")
       (auto simp: recv_consume_def recv_consume_txn_def Let_def engine_begin_def consume_def txn_bind_Done_iff
          topic_of_def [symmetric] split: sum.splits prod.splits txn_result.splits, fastforce+)
  let ?row = "operation_output_of (step_result wid fid ''DBOS.recv'' s out (Some ser)) t"
  have "record_operation_result ex (step_result wid fid ''DBOS.recv'' s out (Some ser)) t db1 = (Inr (), db')"
    using rec1 by (simp add: record_operation_result_def)
  moreover have "operation_row db1 wid fid = None" using none operation_row_cong [OF outs] by simp
  ultimately have "operation_row db' wid fid = Some ?row"
    using record_operation_result_row [of ex "step_result wid fid ''DBOS.recv'' s out (Some ser)" t db1 db']
    by (simp add: step_result_def)
  moreover have "replay_output cs sz (recorded_result ?row) = Inr v"
    using reread [OF law json native rd ser]
    by (simp add: replay_output_def recorded_result_def operation_output_of_def step_result_def)
  ultimately show ?thesis using Inr by (auto simp: operation_output_of_def step_result_def)
qed

text \<open>The set-up of a receive that found no checkpoint records at most the timeout.\<close>

lemma recv_setup_fresh:
  assumes fresh: "check_operation_execution_txn wid fid ''DBOS.recv'' db = Inr None"
    and run: "recv_setup cs sz ex wid fid tfid topic secs ev s t1 t t2 waiting db = (x, wt, db')" "tfid \<in> F"
  shows "touches_only wid F db db'" "x \<noteq> Inr (Cached v)"
  using run
  by (auto simp: recv_setup_def Let_def check_operation_execution_None [OF fresh]
      intro: sleeping_touches split: prod.splits if_splits sum.splits)

lemma recv_durable:
  assumes good: "good_process wid p" and fresh: "check_operation_execution_txn wid fid ''DBOS.recv'' db = Inr None"
    and run: "recv p wid fid tfid topic secs (db, w) = Some (x, (db', w'))" and ids: "tfid \<noteq> fid"
  shows "touches_only wid {fid, tfid} db db'"
    and "operation_row db' wid fid \<noteq> None \<Longrightarrow> checkpoint_stands wid fid db' db'' \<Longrightarrow>
      recv p wid fid tfid topic secs (db'', w'') = Some (x, (db'', w''))"
proof -
  let ?cs = "pr_codecs p" and ?sz = "pr_serializer p" and ?g = "pr_notifications_map p"
  let ?t = "now p w" and ?ts = "now_sec p w"
  obtain x0 wt db0 where su: "recv_setup ?cs ?sz (pr_executor p) wid fid tfid topic secs
      (pr_new_event p w) ?t ?ts ?t ?ts (rg_get ?g w) db = (x0, wt, db0)"
    by (metis prod.exhaust)
  note s0 = recv_setup_fresh [OF fresh su]
  have none: "operation_row db wid fid = None" using fresh by (simp add: check_None_iff)
  have none0: "operation_row db0 wid fid = None" using s0(1) [of "{tfid}"] none ids by (simp add: touches_only_def)
  have both: "touches_only wid {fid, tfid} db db'
    \<and> (operation_row db' wid fid \<noteq> None \<longrightarrow> (\<exists>v row. x = Inr v \<and> operation_row db' wid fid = Some row
       \<and> oo_function_name row = ''DBOS.recv'' \<and> replay_output ?cs ?sz (recorded_result row) = Inr v))"
  proof (cases "\<exists>event is_set timeout payload. x0 = Inr (Waiting event is_set timeout payload)")
    case True
    then obtain event is_set timeout payload where x0: "x0 = Inr (Waiting event is_set timeout payload)" by blast
    let ?s1 = "with_waiters ?g (wt, db0) w"
    from run su x0 obtain s2 r s3 where
      aw: "await_event p (recv_check wid topic) (now_sec p (snd ?s1) + timeout) is_set ?s1 (pr_wakes p timeout ?s1) = Some s2"
      and con: "on_db (recv_consume ?cs ?sz (pr_executor p) wid fid topic ?t (now p (snd s2))) s2 = (r, s3)"
      and fin: "x = r" "(db', w') = pop_waiter ?g payload s3"
      by (auto simp: recv_def Let_def split: option.splits prod.splits)
    have c: "recv_consume ?cs ?sz (pr_executor p) wid fid topic ?t (now p (snd s2)) (fst s2) = (x, db')"
      using con fin by (auto simp: on_db_def pop_waiter_def split: prod.splits)
    have t2: "touches_only wid F db0 (fst s2)" for F
      using await_touches [OF good aw] by (simp add: with_waiters_def)
    have none2: "operation_row (fst s2) wid fid = None" using t2 [of "{}"] none0 by (simp add: touches_only_def)
    have "touches_only wid {fid, tfid} db db0" using s0(1) by simp
    then have "touches_only wid {fid, tfid} db (fst s2)" using t2 by (rule touches_trans)
    moreover have "touches_only wid {fid, tfid} (fst s2) db'" using consume_touches [OF c] by simp
    ultimately have "touches_only wid {fid, tfid} db db'" by (rule touches_trans)
    then show ?thesis using consume_recorded [OF good_processD(1-3) [OF good] none2 c] by (intro conjI impI)
  next
    case False
    have "x0 \<noteq> Inr y" for y using False s0(2) [OF UNIV_I] by (cases y) auto
    then obtain e where "x0 = Inl e" by (cases x0) auto
    with run su have "x = Inl e" "db' = db0" by (auto simp: recv_def with_waiters_def)
    with s0(1) [of "{fid, tfid}"] none0 show ?thesis by simp
  qed
  then show "touches_only wid {fid, tfid} db db'" by blast
  assume rec: "operation_row db' wid fid \<noteq> None" and later: "checkpoint_stands wid fid db' db''"
  with both obtain v row where v: "x = Inr v" "operation_row db' wid fid = Some row"
    "oo_function_name row = ''DBOS.recv''" "replay_output ?cs ?sz (recorded_result row) = Inr v" by auto
  have lens: "rg_set ?g (rg_get ?g w'') w'' = w''" by (rule good_processD(4) [OF good])
  have "check_operation_execution wid fid ''DBOS.recv'' db'' = (Inr (Some (recorded_result row)), db'')"
    by (rule checkpoint_stands_check [OF later v(2,3)])
  with v show "recv p wid fid tfid topic secs (db'', w'') = Some (x, (db'', w''))"
    by (simp add: recv_def recv_setup_def Let_def with_waiters_def lens)
qed

lemma get_event_setup_fresh:
  assumes fresh: "check_operation_execution_txn (gc_workflow_uuid c) (gc_function_id c) ''DBOS.getEvent'' db = Inr None"
    and run: "get_event_setup cs sz ex target key secs (Some c) ev s t1 t t2 waiting db = (x, wt, db')"
      "gc_timeout_function_id c \<in> F"
  shows "touches_only (gc_workflow_uuid c) F db db'" "x \<noteq> Inr (Cached v)"
  using run
  by (auto simp: get_event_setup_def Let_def check_operation_execution_None [OF fresh]
      intro: sleeping_touches split: prod.splits if_splits sum.splits)

lemma event_consume_touches:
  assumes "get_event_consume cs sz ex target key s (Some c) t db = (x, db')" "gc_function_id c \<in> F"
  shows "touches_only (gc_workflow_uuid c) F db db'"
proof -
  have rec: "touches_only (gc_workflow_uuid c) F db d'"
    if "record_operation_result ex (step_result (gc_workflow_uuid c) (gc_function_id c) n s out ser) t db = (y, d')"
    for n out ser y d'
    using record_result_touches [OF that, of F] assms(2) by (simp add: step_result_def)
  show ?thesis using assms(1) by (auto simp: get_event_consume_def intro: rec split: sum.splits prod.splits)
qed

lemma event_consume_recorded:
  assumes law: "codecs_law cs sz" and json: "\<forall>s v. json_loads cs s = Inr v \<longrightarrow> is_json v"
    and native: "ser_name sz \<noteq> ''portable_json''"
    and none: "operation_row db (gc_workflow_uuid c) (gc_function_id c) = None"
    and run: "get_event_consume cs sz ex target key s (Some c) t db = (x, db')"
    and rec: "operation_row db' (gc_workflow_uuid c) (gc_function_id c) \<noteq> None"
  shows "\<exists>v row. x = Inr v \<and> operation_row db' (gc_workflow_uuid c) (gc_function_id c) = Some row
    \<and> oo_function_name row = ''DBOS.getEvent'' \<and> replay_output cs sz (recorded_result row) = Inr v"
proof (cases x)
  case (Inl e)
  with run have "db' = db"
    by (auto simp: get_event_consume_def dest!: record_failed_unchanged split: sum.splits prod.splits)
  with none rec show ?thesis by simp
next
  case (Inr v)
  let ?res = "\<lambda>out ser. step_result (gc_workflow_uuid c) (gc_function_id c) ''DBOS.getEvent'' s out (Some ser)"
  from run Inr obtain ser0 out ser where rd: "read_event cs sz target key db = Inr (v, ser0)"
    and ser: "serialize_value_as cs v ser0 sz = Inr (out, ser)"
    and rec1: "record_operation_result ex (?res out ser) t db = (Inr (), db')"
    by (auto simp: get_event_consume_def split: sum.splits prod.splits)
  from rd have rd': "(v, ser0) = (PNone, None) \<or> (\<exists>txt. deserialize_value cs (Some txt) ser0 sz = Inr v)"
    by (auto simp: read_event_def res_bind_Inr_iff split: option.splits)
  have "operation_row db' (gc_workflow_uuid c) (gc_function_id c) = Some (operation_output_of (?res out ser) t)"
    using record_operation_result_row [OF rec1] none by (simp add: step_result_def)
  moreover have "replay_output cs sz (recorded_result (operation_output_of (?res out ser) t)) = Inr v"
    using reread [OF law json native rd' ser]
    by (simp add: replay_output_def recorded_result_def operation_output_of_def step_result_def)
  ultimately show ?thesis using Inr by (auto simp: operation_output_of_def step_result_def)
qed

lemma get_event_durable:
  assumes good: "good_process (gc_workflow_uuid c) p"
    and fresh: "check_operation_execution_txn (gc_workflow_uuid c) (gc_function_id c) ''DBOS.getEvent'' db = Inr None"
    and run: "get_event p target key secs (Some c) (db, w) = Some (x, (db', w'))"
    and ids: "gc_timeout_function_id c \<noteq> gc_function_id c"
  shows "touches_only (gc_workflow_uuid c) {gc_function_id c, gc_timeout_function_id c} db db'"
    and "operation_row db' (gc_workflow_uuid c) (gc_function_id c) \<noteq> None \<Longrightarrow>
      checkpoint_stands (gc_workflow_uuid c) (gc_function_id c) db' db'' \<Longrightarrow>
      get_event p target key secs (Some c) (db'', w'') = Some (x, (db'', w''))"
proof -
  let ?cs = "pr_codecs p" and ?sz = "pr_serializer p" and ?g = "pr_workflow_events_map p"
  let ?t = "now p w" and ?ts = "now_sec p w" and ?wid = "gc_workflow_uuid c" and ?fid = "gc_function_id c"
  let ?F = "{?fid, gc_timeout_function_id c}"
  obtain x0 wt db0 where su: "get_event_setup ?cs ?sz (pr_executor p) target key secs (Some c)
      (pr_new_event p w) ?t ?ts ?t ?ts (rg_get ?g w) db = (x0, wt, db0)"
    by (metis prod.exhaust)
  note s0 = get_event_setup_fresh [OF fresh su]
  have none: "operation_row db ?wid ?fid = None" using fresh by (simp add: check_None_iff)
  have none0: "operation_row db0 ?wid ?fid = None"
    using s0(1) [of "{gc_timeout_function_id c}"] none ids by (simp add: touches_only_def)
  have both: "touches_only ?wid ?F db db'
    \<and> (operation_row db' ?wid ?fid \<noteq> None \<longrightarrow> (\<exists>v row. x = Inr v \<and> operation_row db' ?wid ?fid = Some row
       \<and> oo_function_name row = ''DBOS.getEvent'' \<and> replay_output ?cs ?sz (recorded_result row) = Inr v))"
  proof (cases "\<exists>event is_set timeout payload. x0 = Inr (Waiting event is_set timeout payload)")
    case True
    then obtain event is_set timeout payload where x0: "x0 = Inr (Waiting event is_set timeout payload)" by blast
    let ?s1 = "with_waiters ?g (wt, db0) w"
    from run su x0 obtain s2 r s3 where
      aw: "await_event p (get_event_check target key) (now_sec p (snd ?s1) + timeout) is_set ?s1 (pr_wakes p timeout ?s1) = Some s2"
      and con: "on_db (get_event_consume ?cs ?sz (pr_executor p) target key ?t (Some c) (now p (snd s2))) s2 = (r, s3)"
      and fin: "x = r" "(db', w') = pop_waiter ?g payload s3"
      by (auto simp: get_event_def Let_def split: option.splits prod.splits)
    have e: "get_event_consume ?cs ?sz (pr_executor p) target key ?t (Some c) (now p (snd s2)) (fst s2) = (x, db')"
      using con fin by (auto simp: on_db_def pop_waiter_def split: prod.splits)
    have t2: "touches_only ?wid F db0 (fst s2)" for F
      using await_touches [OF good aw] by (simp add: with_waiters_def)
    have none2: "operation_row (fst s2) ?wid ?fid = None" using t2 [of "{}"] none0 by (simp add: touches_only_def)
    have "touches_only ?wid ?F db db0" using s0(1) by simp
    then have "touches_only ?wid ?F db (fst s2)" using t2 by (rule touches_trans)
    moreover have "touches_only ?wid ?F (fst s2) db'" using event_consume_touches [OF e] by simp
    ultimately have "touches_only ?wid ?F db db'" by (rule touches_trans)
    then show ?thesis using event_consume_recorded [OF good_processD(1-3) [OF good] none2 e] by (intro conjI impI)
  next
    case False
    have "x0 \<noteq> Inr y" for y using False s0(2) [OF UNIV_I] by (cases y) auto
    then obtain e where "x0 = Inl e" by (cases x0) auto
    with run su have "x = Inl e" "db' = db0" by (auto simp: get_event_def with_waiters_def)
    with s0(1) [of ?F] none0 show ?thesis by simp
  qed
  then show "touches_only ?wid ?F db db'" by blast
  assume rec: "operation_row db' ?wid ?fid \<noteq> None" and later: "checkpoint_stands ?wid ?fid db' db''"
  with both obtain v row where v: "x = Inr v" "operation_row db' ?wid ?fid = Some row"
    "oo_function_name row = ''DBOS.getEvent''" "replay_output ?cs ?sz (recorded_result row) = Inr v" by auto
  have lens: "rg_set ?g (rg_get ?g w'') w'' = w''" by (rule good_processD(5) [OF good])
  have "check_operation_execution ?wid ?fid ''DBOS.getEvent'' db'' = (Inr (Some (recorded_result row)), db'')"
    by (rule checkpoint_stands_check [OF later v(2,3)])
  with v show "get_event p target key secs (Some c) (db'', w'') = Some (x, (db'', w''))"
    by (simp add: get_event_def get_event_setup_def Let_def with_waiters_def lens)
qed

end
