(* ===== verification/DBOS_API_Inv.thy ===== *)
theory DBOS_API_Inv
  imports DBOS_API
begin

text \<open>
  Every operation of \<open>DBOS_API\<close> keeps the constraints of the schema, on every path, if the processes that
  act while it waits do.
\<close>

definition inv_process :: "'w process \<Rightarrow> bool" where
  "inv_process p \<longleftrightarrow> (\<forall>t s x. x \<in> set (pr_wakes p t s) \<longrightarrow> sysdb_inv (fst s) \<longrightarrow> sysdb_inv (fst (fst x)))
     \<and> (\<forall>s d. d \<in> set (pr_attempts p s) \<longrightarrow> sysdb_inv (fst s) \<longrightarrow> sysdb_inv d)"

lemma inv_processD:
  assumes "inv_process p" "sysdb_inv (fst s)"
  shows "\<And>t x. x \<in> set (pr_wakes p t s) \<Longrightarrow> sysdb_inv (fst (fst x))"
    and "\<And>d. d \<in> set (pr_attempts p s) \<Longrightarrow> sysdb_inv d"
  using assms unfolding inv_process_def by blast+

section \<open>Operations of the system database\<close>

lemma check_inv:
  "check_operation_execution wid fid name db = (r, db') \<Longrightarrow> sysdb_inv db \<Longrightarrow> sysdb_inv db'"
  by (auto simp: check_operation_execution_def engine_begin_def lift_res_def split: sum.splits)

lemma record_inv: "record_operation_result ex res t db = (r, db') \<Longrightarrow> sysdb_inv db \<Longrightarrow> sysdb_inv db'"
  using record_operation_result_inv [of db ex res t] by simp

lemma record_sleep_inv:
  "record_sleep cs sz ex wid fid secs s t1 t t2 db = (x, db') \<Longrightarrow> sysdb_inv db \<Longrightarrow> sysdb_inv db'"
  by (auto simp: record_sleep_def Let_def dest: check_inv record_inv
      split: prod.splits sum.splits option.splits pyval.splits dbos_error.splits)

lemma engine_inv:
  "engine_begin body db = (x, db') \<Longrightarrow> txn_inv (body db) \<Longrightarrow> sysdb_inv db \<Longrightarrow> sysdb_inv db'"
  using engine_begin_inv [of body db] by simp

lemma patch_inv: "patch ex wid fid n s t db = (x, db') \<Longrightarrow> sysdb_inv db \<Longrightarrow> sysdb_inv db'"
  unfolding patch_def
  by (erule engine_inv) (auto split: option.splits intro!: txn_inv_bind record_operation_result_txn_inv)

lemma call_function_as_step_inv:
  assumes "\<And>db. sysdb_inv db \<Longrightarrow> sysdb_inv (snd (fn db))"
    and "call_function_as_step cs sz ex fn name ctx s t db = (x, db')" "sysdb_inv db"
  shows "sysdb_inv db'"
proof -
  have fn: "fn d = (y, d') \<Longrightarrow> sysdb_inv d \<Longrightarrow> sysdb_inv d'" for d y d' using assms(1) [of d] by simp
  show ?thesis using assms(2,3)
    by (auto simp: call_function_as_step_def dest: fn check_inv record_inv
        split: option.splits if_splits sum.splits prod.splits)
qed

lemma consume_inv: "sysdb_inv db \<Longrightarrow> sysdb_inv (consume wid topic m db)"
proof -
  assume inv: "sysdb_inv db"
  have "child_ok (set (workflow_ids db)) nt_message_uuid nt_destination_uuid
      (sql_update (\<lambda>r. recv_match wid topic r \<and> nt_message_uuid r = nt_message_uuid m) (\<lambda>r. r\<lparr>nt_consumed := True\<rparr>)
        (notifications db))"
    using inv by (intro child_ok_update) (auto simp: sysdb_inv_def children_ok_def)
  with inv show ?thesis by (simp add: consume_def sysdb_inv_def children_ok_def catalog_ok_def workflow_ids_def)
qed

lemma recv_consume_inv:
  "recv_consume cs sz ex wid fid topic s t db = (x, db') \<Longrightarrow> sysdb_inv db \<Longrightarrow> sysdb_inv db'"
  unfolding recv_consume_def
  by (erule engine_inv)
     (auto simp: recv_consume_txn_def Let_def lift_res_def split: option.splits sum.splits prod.splits
       intro!: txn_inv_bind record_operation_result_txn_inv consume_inv)

lemma recv_setup_inv:
  "recv_setup cs sz ex wid fid tfid topic secs ev s t1 t t2 waiting db = (x, wt, db') \<Longrightarrow> sysdb_inv db \<Longrightarrow> sysdb_inv db'"
  by (auto simp: recv_setup_def Let_def dest: check_inv record_sleep_inv
      split: prod.splits if_splits sum.splits option.splits)

lemma get_event_setup_inv:
  "get_event_setup cs sz ex target key secs c ev s t1 t t2 waiting db = (x, wt, db') \<Longrightarrow> sysdb_inv db \<Longrightarrow> sysdb_inv db'"
  by (auto simp: get_event_setup_def Let_def dest: check_inv record_sleep_inv
      split: prod.splits if_splits sum.splits option.splits)

lemma write_stream_from_workflow_inv:
  assumes "write_stream_from_workflow cs sz ex wid fid key v ty s t dbs = Some (x, db')" "\<And>d. d \<in> set dbs \<Longrightarrow> sysdb_inv d"
  shows "sysdb_inv db'"
proof -
  have "sysdb_inv db'" if "write_stream_loop ex wid fid name key val ser s t dbs = Some (x, db')" for name val ser
    using that assms(2)
    by (induction dbs) (use streaming.run_inv in \<open>auto split: if_splits\<close>, metis snd_conv)
  with assms show ?thesis by (auto simp: write_stream_from_workflow_def split: list.splits sum.splits)
qed

lemma write_stream_from_step_inv:
  assumes "write_stream_from_step cs sz wid fid key v ty as = Some (x, db')" "\<And>u d. (u, d) \<in> set as \<Longrightarrow> sysdb_inv d"
  shows "sysdb_inv db'"
proof -
  have "sysdb_inv db'" if "write_stream_attempts wid fid key val ser as = Some (x, db')" "\<forall>p \<in> set as. sysdb_inv (snd p)"
    for val ser
    using that by (induction as) (auto split: sum.splits intro: stream_insert_from_inv)
  moreover have "\<forall>p \<in> set as. sysdb_inv (snd p)" using assms(2) by auto
  ultimately show ?thesis using assms(1) by (auto simp: write_stream_from_step_def split: list.splits sum.splits)
qed

lemma step_attempts_dbs: "(u, d) \<in> set (step_attempts dbs) \<Longrightarrow> d \<in> set dbs"
  by (cases dbs) (auto simp: step_attempts_def dest: set_zip_rightD)

section \<open>Calls\<close>

lemma await_event_inv:
  assumes "inv_process p" "await_event p check d b s (pr_wakes p t s) = Some s2" "sysdb_inv (fst s)"
  shows "sysdb_inv (fst s2)"
proof -
  have "s2 = s \<or> s2 \<in> fst ` set wakes" if "await_event p check d b s wakes = Some s2" for b s wakes
    using that by (induction p check d b s wakes rule: await_event.induct) (auto split: if_splits)
  from this [OF assms(2)] consider "s2 = s" | x where "x \<in> set (pr_wakes p t s)" "s2 = fst x" by auto
  then show ?thesis using assms(3) inv_processD(1) [OF assms(1,3)] by cases simp_all
qed

lemma recv_inv:
  assumes p: "inv_process p" and run: "recv p wid fid tfid topic secs s = Some (x, s')" and s: "sysdb_inv (fst s)"
  shows "sysdb_inv (fst s')"
  using run
  by (auto simp: recv_def Let_def with_waiters_def pop_waiter_def on_db_def
      dest: recv_setup_inv [OF _ s] split: prod.splits sum.splits EventSetupResult.splits option.splits
      dest!: await_event_inv [OF p] recv_consume_inv)

lemma get_event_inv:
  assumes p: "inv_process p" and run: "get_event p target key secs c s = Some (x, s')" and s: "sysdb_inv (fst s)"
  shows "sysdb_inv (fst s')"
proof -
  have consume: "sysdb_inv db'" if "get_event_consume cs sz ex target key st c t db = (y, db')" "sysdb_inv db"
    for cs sz ex st t db y db'
    using get_event_consume_inv [OF that(2), of cs sz ex target key st c t] that(1) by simp
  show ?thesis using run
    by (auto simp: get_event_def Let_def with_waiters_def pop_waiter_def on_db_def
        dest: get_event_setup_inv [OF _ s] split: prod.splits sum.splits EventSetupResult.splits option.splits
        dest!: await_event_inv [OF p] consume)
qed

lemma send_bulk_core_inv:
  "send_bulk_core p ctx ms ty name forks s = (x, s') \<Longrightarrow> sysdb_inv (fst s) \<Longrightarrow> sysdb_inv (fst s')"
  by (auto simp: send_bulk_core_def on_db_def Let_def split: prod.splits) (metis send_bulk_inv snd_conv)

lemma set_event_core_inv:
  "set_event_core p ctx key v ty s = (x, s') \<Longrightarrow> sysdb_inv (fst s) \<Longrightarrow> sysdb_inv (fst s')"
  by (auto simp: set_event_core_def on_db_def Let_def split: prod.splits option.splits if_splits)
     (metis set_event_from_workflow_inv set_event_from_step_inv snd_conv)+

lemma write_stream_core_inv:
  assumes p: "inv_process p" and run: "write_stream_core p ctx key v ty s = Some (x, s')" and s: "sysdb_inv (fst s)"
  shows "sysdb_inv (fst s')"
proof -
  have dbs: "sysdb_inv d" if "d \<in> set (fst s # pr_attempts p s)" for d
    using that s inv_processD(2) [OF p s] by auto
  show ?thesis using run s
    by (auto simp: write_stream_core_def Let_def split: option.splits if_splits
        dest!: write_stream_from_workflow_inv [OF _ dbs] write_stream_from_step_inv [OF _ dbs [OF step_attempts_dbs]])
qed

lemma close_stream_core_inv:
  assumes p: "inv_process p" and run: "close_stream_core p ctx key s = Some (x, s')" and s: "sysdb_inv (fst s)"
  shows "sysdb_inv (fst s')"
proof -
  have dbs: "sysdb_inv d" if "d \<in> set (fst s # pr_attempts p s)" for d
    using that s inv_processD(2) [OF p s] by auto
  show ?thesis using run s
    by (auto simp: close_stream_core_def close_stream_def Let_def split: option.splits if_splits
        dest!: write_stream_from_workflow_inv [OF _ dbs])
qed

lemma sleep_inv: "DBOS_sleep p secs cur s = (x, cur', s') \<Longrightarrow> sysdb_inv (fst s) \<Longrightarrow> sysdb_inv (fst s')"
  by (auto simp: DBOS_sleep_def record_sleep_core_def on_db_def Let_def dest: record_sleep_inv
      split: prod.splits sum.splits option.splits if_splits)

lemma DBOS_patch_inv: "DBOS_patch p n cur s = (x, cur', s') \<Longrightarrow> sysdb_inv (fst s) \<Longrightarrow> sysdb_inv (fst s')"
  by (auto simp: DBOS_patch_def on_db_def dest: patch_inv split: prod.splits sum.splits option.splits if_splits)

lemma api_as_step_inv:
  assumes "\<And>db. sysdb_inv db \<Longrightarrow> sysdb_inv (snd (fn db))" "api_as_step p name fn cur s = (x, cur', s')" "sysdb_inv (fst s)"
  shows "sysdb_inv (fst s')"
proof -
  obtain ctx db' where "call_function_as_step (pr_codecs p) (pr_serializer p) (pr_executor p) fn name ctx
      (now p (snd s)) (now p (snd s)) (fst s) = (x, db')" "db' = fst s'"
    using assms(2) by (auto simp: api_as_step_def on_db_def Let_def split: prod.splits)
  with call_function_as_step_inv [where fn = fn, OF assms(1)] assms(3) show ?thesis by blast
qed

end
