(* ===== verification/DBOS_Durability.thy ===== *)
theory DBOS_Durability
  imports DBOS_API_Replay DBOS_API_Inv DBOS_Execution
begin

text \<open>
  Durable execution of whole workflows: the operations of \<open>DBOS_API\<close>, with the functions of the user as
  parameters, obey the contract \<open>durable_calls\<close>; so a workflow over all of them that a crash cut off
  anywhere continues, when it is executed again, where it stopped, and its outcome is recorded.
\<close>

section \<open>The calls of a workflow\<close>

datatype 'w api_call =
    CallStep "'w world step_call" "'w world step_option list"
  | CallSystem string "sysdb \<Rightarrow> pyval res \<times> sysdb"
  | CallSend string "SendMessage list" "WorkflowSerializationFormat option" bool
  | CallRecv "string option" rat
  | CallSetEvent string pyval "WorkflowSerializationFormat option"
  | CallGetEvent string string rat
  | CallWriteStream string pyval "WorkflowSerializationFormat option"
  | CallCloseStream string
  | CallSleep rat
  | CallPatch string

definition ctx_of :: "DBOSContext \<Rightarrow> DBOSContext option \<Rightarrow> DBOSContext" where
  "ctx_of c cur = (case cur of Some c' \<Rightarrow> c' | None \<Rightarrow> c)"

definition in_ctx ::
  "(DBOSContext option \<Rightarrow> 'w world \<Rightarrow> (pyval res \<times> DBOSContext option \<times> 'w world) option) \<Rightarrow> 'w operation" where
  "in_ctx f c s = map_option (\<lambda>(r, cur, s'). (r, ctx_of c cur, s')) (f (Some c) s)"

abbreviation returning :: "('a \<Rightarrow> 'b \<Rightarrow> 'c) \<Rightarrow> 'a \<Rightarrow> 'b \<Rightarrow> 'c option" where
  "returning f \<equiv> (\<lambda>a b. Some (f a b))"

primrec run_api :: "'w process \<Rightarrow> 'w api_call \<Rightarrow> 'w operation" where
  "run_api p (CallStep call opts) = in_ctx (\<lambda>cur s.
     (case run_step (pr_env p) (new_context (pr_executor_id p) (pr_app_id p)) cur call opts s of
        ((r, s'), cur') \<Rightarrow> Some (r, cur', s')))"
| "run_api p (CallSystem name fn) = in_ctx (returning (api_as_step p name fn))"
| "run_api p (CallSend name ms ty forks) = in_ctx (returning (DBOS_send_bulk p name ms ty forks))"
| "run_api p (CallRecv topic secs) = in_ctx (DBOS_recv p topic secs)"
| "run_api p (CallSetEvent key v ty) = in_ctx (returning (DBOS_set_event p key v ty))"
| "run_api p (CallGetEvent target key secs) = in_ctx (DBOS_get_event p target key secs)"
| "run_api p (CallWriteStream key v ty) = in_ctx (DBOS_write_stream p key v ty)"
| "run_api p (CallCloseStream key) = in_ctx (DBOS_close_stream p key)"
| "run_api p (CallSleep secs) = in_ctx (returning (DBOS_sleep p secs))"
| "run_api p (CallPatch name) = in_ctx (returning (DBOS_patch p name))"

text \<open>
  What the parameters of a call must satisfy: the functions of the user and the system operations leave the
  workflow's own rows alone.
\<close>

definition step_name :: "'s step_call \<Rightarrow> 's StepOptions \<Rightarrow> string" where
  "step_name call opts = (case so_name opts of Some n \<Rightarrow> if n = [] then sc_qualname call else n | None \<Rightarrow> sc_qualname call)"

definition good_call :: "'w process \<Rightarrow> string \<Rightarrow> 'w api_call \<Rightarrow> bool" where
  "good_call p wid call \<longleftrightarrow> good_process wid p \<and> (case call of
     CallStep f opts \<Rightarrow> good_step (pr_env p) wid (step_name f (normalize_step_options opts)) f (normalize_step_options opts)
   | CallSystem name fn \<Rightarrow> fn_alone wid fn
   | _ \<Rightarrow> True)"

text \<open>A replay does nothing to the world but sleep.\<close>

definition waits :: "'w process \<Rightarrow> 'w \<Rightarrow> 'w \<Rightarrow> bool" where
  "waits p w w' \<longleftrightarrow> (\<exists>ts. w' = fold (en_sleep (pr_env p)) ts w)"

lemma waits_refl [simp]: "waits p w w"
  unfolding waits_def by (rule exI [of _ "[]"]) simp

lemma waits_trans: "waits p w w1 \<Longrightarrow> waits p w1 w2 \<Longrightarrow> waits p w w2"
  unfolding waits_def by (metis comp_apply fold_append)

lemma waits_sleep: "waits p w (en_sleep (pr_env p) t w)"
  unfolding waits_def by (rule exI [of _ "[t]"]) simp

section \<open>Each call is durable\<close>

definition durable :: "string \<Rightarrow> ('w \<Rightarrow> 'w \<Rightarrow> bool) \<Rightarrow> 'w operation \<Rightarrow> bool" where
  "durable wid W f \<longleftrightarrow> (\<forall>c db w r c' db' w'.
     running wid c \<longrightarrow> in_progress c db \<longrightarrow> f c (db, w) = Some (r, c', (db', w')) \<longrightarrow>
     operation_row db' wid (cx_function_id c + 1) \<noteq> None \<longrightarrow>
     (running wid c' \<and> cx_function_id c < cx_function_id c' \<and> in_progress c' db'
       \<and> (\<forall>i \<le> cx_function_id c. operation_row db' wid i = operation_row db wid i))
     \<and> (\<forall>db'' w''. recovered_db wid (cx_function_id c') db' db'' \<longrightarrow>
          (\<exists>w3. f c (db'', w'') = Some (r, c', (db'', w3)) \<and> W w'' w3)))"

text \<open>
  An operation that reserves its function IDs in the context and then works under them: \<open>n\<close> IDs, with
  its result recorded under the first.
\<close>

lemma durable_snapshot:
  fixes F :: "DBOSContext \<Rightarrow> 'w world \<Rightarrow> (pyval res \<times> 'w world) option"
  assumes f: "\<And>c s. is_workflow c \<Longrightarrow> f c s = (case snapshot_step_ctx b (new_context e a) c of
      (sc, c') \<Rightarrow> map_option (\<lambda>(r, s'). (r, c', s')) (F sc s))"
    and touch: "\<And>sc db w x db' w'. \<lbrakk>cx_workflow_id sc = wid; is_workflow sc;
        \<And>i name. i \<ge> cx_function_id sc \<Longrightarrow> check_operation_execution_txn wid i name db = Inr None;
        F sc (db, w) = Some (x, (db', w'))\<rbrakk>
      \<Longrightarrow> touches_only wid {cx_function_id sc .. cx_function_id sc + (if b then 1 else 0)} db db'"
    and replay: "\<And>sc db w x db' w' db'' w''. \<lbrakk>cx_workflow_id sc = wid; is_workflow sc;
        \<And>i name. i \<ge> cx_function_id sc \<Longrightarrow> check_operation_execution_txn wid i name db = Inr None;
        F sc (db, w) = Some (x, (db', w')); operation_row db' wid (cx_function_id sc) \<noteq> None;
        checkpoint_stands wid (cx_function_id sc) db' db''\<rbrakk>
      \<Longrightarrow> \<exists>w3. F sc (db'', w'') = Some (x, (db'', w3)) \<and> W w'' w3"
  shows "durable wid W f"
  unfolding durable_def
proof (intro allI impI)
  fix c db w r c' db' w'
  assume c: "running wid c" and prog: "in_progress c db" and run: "f c (db, w) = Some (r, c', (db', w'))"
    and rec: "operation_row db' wid (cx_function_id c + 1) \<noteq> None"
  have wf: "is_workflow c" and wid: "cx_workflow_id c = wid" using c by (simp_all add: running_def)
  obtain sc c1 where snap: "snapshot_step_ctx b (new_context e a) c = (sc, c1)"
    by (cases "snapshot_step_ctx b (new_context e a) c")
  note ids = snapshot_ids [OF snap]
  have F: "F sc (db, w) = Some (r, (db', w'))" and c1: "c1 = c'"
    using run snap by (auto simp: f [OF wf] split: option.splits)
  have sc: "cx_workflow_id sc = wid" "is_workflow sc" using ids wid snapshot_is_workflow [OF snap wf] by simp_all
  have fresh: "check_operation_execution_txn wid i name db = Inr None" if "i \<ge> cx_function_id sc" for i name
    using in_progress_fresh [OF prog, of i name] that ids wid by simp
  have "touches_only wid {cx_function_id c + 1 .. cx_function_id c'} db db'"
    using touch [OF sc fresh F] ids c1 by (simp add: add.commute split: if_splits)
  then have "running wid c' \<and> cx_function_id c < cx_function_id c' \<and> in_progress c' db'
      \<and> (\<forall>i \<le> cx_function_id c. operation_row db' wid i = operation_row db wid i)"
    by (rule touches_progress [OF c prog]) (use ids c1 wid wf in \<open>simp_all split: if_splits\<close>)
  moreover have "\<exists>w3. f c (db'', w'') = Some (r, c', (db'', w3)) \<and> W w'' w3"
    if "recovered_db wid (cx_function_id c') db' db''" for db'' w''
  proof -
    have "checkpoint_stands wid (cx_function_id sc) db' db''"
      using recovered_stands [OF that] ids c1 by (simp split: if_splits)
    from replay [OF sc fresh F _ this] rec ids snap c1 show ?thesis by (fastforce simp: f [OF wf])
  qed
  ultimately show "(running wid c' \<and> cx_function_id c < cx_function_id c' \<and> in_progress c' db'
      \<and> (\<forall>i \<le> cx_function_id c. operation_row db' wid i = operation_row db wid i))
    \<and> (\<forall>db'' w''. recovered_db wid (cx_function_id c') db' db'' \<longrightarrow>
        (\<exists>w3. f c (db'', w'') = Some (r, c', (db'', w3)) \<and> W w'' w3))" by blast
qed

lemmas snapshot_simps = in_ctx_def ctx_of_def snapshot_step_context_def Let_def

lemma send_durable: "durable wid (waits p) (run_api p (CallSend name ms ty forks))"
proof (rule durable_snapshot [where b = False and e = "pr_executor_id p" and a = "pr_app_id p" and
      F = "\<lambda>sc s. Some (map_prod none_result id (send_bulk_core p (Some sc) ms ty name forks s))"], goal_cases)
  case (1 c s)
  then show ?case by (auto simp: snapshot_simps DBOS_send_bulk_def split: prod.splits)
next
  case (2 sc db w x db' w')
  then show ?case by (auto simp: send_bulk_core_def on_db_def Let_def intro: sending_touches split: prod.splits)
next
  case (3 sc db w x db' w' db'' w'')
  from 3(1,2,4) obtain y where y: "x = none_result y" and run: "send_bulk (pr_codecs p) (pr_serializer p) (pr_executor p)
      (pr_uuid p w) (now p w) (Some (effective_format ty (Some sc))) (Some wid) (Some (cx_function_id sc)) name forks
      (now p w) (now p w) ms db = (y, db')"
    by (auto simp: send_bulk_core_def on_db_def Let_def split: prod.splits)
  note again = sending_replay [OF 3(3) [OF order_refl] run 3(5,6)]
  show ?case by (rule exI [of _ w'']) (use 3(1,2) y again in \<open>simp add: send_bulk_core_def on_db_def Let_def\<close>)
qed

lemma set_event_durable: "durable wid (waits p) (run_api p (CallSetEvent key v ty))"
proof (rule durable_snapshot [where b = False and e = "pr_executor_id p" and a = "pr_app_id p" and
      F = "\<lambda>sc s. Some (map_prod none_result id (set_event_core p (Some sc) key v ty s))"], goal_cases)
  case (1 c s)
  then show ?case by (auto simp: snapshot_simps DBOS_set_event_def split: prod.splits)
next
  case (2 sc db w x db' w')
  then show ?case by (auto simp: set_event_core_def on_db_def Let_def intro: setting_touches split: prod.splits)
next
  case (3 sc db w x db' w' db'' w'')
  from 3(1,2,4) obtain y where y: "x = none_result y" and run: "set_event_from_workflow (pr_codecs p) (pr_serializer p)
      (pr_executor p) wid (cx_function_id sc) key v (effective_format ty (Some sc)) (now p w) (now p w) db = (y, db')"
    by (auto simp: set_event_core_def on_db_def Let_def split: prod.splits)
  note again = setting_replay [OF 3(3) [OF order_refl] run 3(5,6)]
  show ?case by (rule exI [of _ w'']) (use 3(1,2) y again in \<open>simp add: set_event_core_def on_db_def Let_def\<close>)
qed

lemma write_stream_durable:
  assumes good: "good_process wid p"
  shows "durable wid (waits p) (run_api p (CallWriteStream key v ty))"
proof (rule durable_snapshot [where b = False and e = "pr_executor_id p" and a = "pr_app_id p" and
      F = "\<lambda>sc s. map_option (map_prod none_result id) (write_stream_core p (Some sc) key v ty s)"], goal_cases)
  case (1 c s)
  then show ?case by (auto simp: snapshot_simps DBOS_write_stream_def option.map_comp split: prod.splits
      intro!: option.map_cong)
next
  case (2 sc db w x db' w')
  then obtain y where "write_stream_from_workflow (pr_codecs p) (pr_serializer p) (pr_executor p) wid (cx_function_id sc)
      key v (effective_format ty (Some sc)) (now p w) (now p w) (db # pr_attempts p (db, w)) = Some (y, db')"
    by (auto simp: write_stream_core_def Let_def)
  then show ?case using stream_write_touches good_processD(6) [OF good, of "(db, w)"] by simp
next
  case (3 sc db w x db' w' db'' w'')
  from 3(1,2,4) obtain y where y: "x = none_result y" and run: "write_stream_from_workflow (pr_codecs p) (pr_serializer p)
      (pr_executor p) wid (cx_function_id sc) key v (effective_format ty (Some sc)) (now p w) (now p w)
      (db # pr_attempts p (db, w)) = Some (y, db')"
    by (auto simp: write_stream_core_def Let_def)
  note again = stream_write_replay [OF 3(3) [OF order_refl] run _ 3(5,6)]
  show ?case
    by (rule exI [of _ w'']) (use 3(1,2) y again good_processD(6) [OF good, of "(db, w)"] in
      \<open>simp add: write_stream_core_def Let_def\<close>)
qed

lemma close_stream_durable:
  assumes good: "good_process wid p"
  shows "durable wid (waits p) (run_api p (CallCloseStream key))"
proof (rule durable_snapshot [where b = False and e = "pr_executor_id p" and a = "pr_app_id p" and
      F = "\<lambda>sc s. map_option (map_prod none_result id) (close_stream_core p (Some sc) key s)"], goal_cases)
  case (1 c s)
  then show ?case by (auto simp: snapshot_simps DBOS_close_stream_def option.map_comp split: prod.splits
      intro!: option.map_cong)
next
  case (2 sc db w x db' w')
  then obtain y where "write_stream_from_workflow (pr_codecs p) (pr_serializer p) (pr_executor p) wid (cx_function_id sc)
      key (PStr dbos_stream_closed_sentinel) PORTABLE (now p w) (now p w) (db # pr_attempts p (db, w)) = Some (y, db')"
    by (auto simp: close_stream_core_def close_stream_def Let_def)
  then show ?case using stream_write_touches good_processD(6) [OF good, of "(db, w)"] by simp
next
  case (3 sc db w x db' w' db'' w'')
  from 3(1,2,4) obtain y where y: "x = none_result y" and run: "write_stream_from_workflow (pr_codecs p) (pr_serializer p)
      (pr_executor p) wid (cx_function_id sc) key (PStr dbos_stream_closed_sentinel) PORTABLE (now p w) (now p w)
      (db # pr_attempts p (db, w)) = Some (y, db')"
    by (auto simp: close_stream_core_def close_stream_def Let_def)
  note again = stream_write_replay [OF 3(3) [OF order_refl] run _ 3(5,6)]
  show ?case
    by (rule exI [of _ w'']) (use 3(1,2) y again good_processD(6) [OF good, of "(db, w)"] in
      \<open>simp add: close_stream_core_def close_stream_def Let_def\<close>)
qed

lemma sleep_durable:
  assumes good: "good_process wid p"
  shows "durable wid (waits p) (run_api p (CallSleep secs))"
proof (cases "secs \<le> 0")
  case True
  then have "run_api p (CallSleep secs) c s = Some (Inr PNone, c, s)" for c s
    by (simp add: in_ctx_def DBOS_sleep_def ctx_of_def)
  then show ?thesis by (simp add: durable_def in_progress_def running_def)
next
  case False
  define F where "F = (\<lambda>sc s. case record_sleep_core p (Some sc) secs s of
      (Inl e, s') \<Rightarrow> Some (Inl e :: pyval res, s')
    | (Inr d, s') \<Rightarrow> Some (Inr PNone, (fst s', en_sleep (pr_env p) d (snd s'))))"
  show ?thesis
  proof (rule durable_snapshot [where b = False and e = "pr_executor_id p" and a = "pr_app_id p" and F = F], goal_cases)
    case (1 c s)
    then show ?case using False
      by (auto simp: F_def snapshot_simps DBOS_sleep_def split: prod.splits sum.splits)
  next
    case (2 sc db w x db' w')
    then show ?case
      by (auto simp: F_def record_sleep_core_def on_db_def Let_def intro: sleeping_touches split: prod.splits sum.splits)
  next
    case (3 sc db w x db' w' db'' w'')
    note fresh = 3(3) [OF order_refl, of "''DBOS.sleep''"]
    from 3(1,2,4) obtain y where run: "record_sleep (pr_codecs p) (pr_serializer p) (pr_executor p) wid (cx_function_id sc)
        secs (now p w) (now_sec p w) (now p w) (now_sec p w) db = (y, db')"
      and x: "x = (case y of Inl e \<Rightarrow> Inl e | Inr _ \<Rightarrow> Inr PNone)"
      by (auto simp: F_def record_sleep_core_def on_db_def Let_def split: prod.splits sum.splits)
    from sleeping_recorded [OF fresh run 3(5)] obtain d where d: "y = Inr d" by blast
    from record_sleep_durable [OF good_processD(1) [OF good] fresh run [unfolded d] 3(6)]
    obtain d' where "record_sleep (pr_codecs p) (pr_serializer p) (pr_executor p) wid (cx_function_id sc)
        secs (now p w'') (now_sec p w'') (now p w'') (now_sec p w'') db'' = (Inr d', db'')" by blast
    with 3(1,2) x d show ?case
      by (intro exI [of _ "en_sleep (pr_env p) d' w''"])
         (simp add: F_def record_sleep_core_def on_db_def Let_def waits_sleep)
  qed
qed

lemma recv_call_durable:
  assumes good: "good_process wid p"
  shows "durable wid (waits p) (run_api p (CallRecv topic secs))"
proof (rule durable_snapshot [where b = True and e = "pr_executor_id p" and a = "pr_app_id p" and
      F = "\<lambda>sc. recv p (cx_workflow_id sc) (cx_function_id sc) (cx_function_id sc + 1) topic secs"], goal_cases)
  case (1 c s)
  then show ?case
    by (auto simp: snapshot_simps DBOS_recv_def option.map_comp snapshot_is_workflow split: prod.splits
        intro!: option.map_cong)
next
  case (2 sc db w x db' w')
  have "touches_only wid {cx_function_id sc, cx_function_id sc + 1} db db'"
    using recv_durable(1) [OF good 2(3) [OF order_refl] 2(4) [unfolded 2(1)]] by simp
  then show ?case by (rule touches_mono) auto
next
  case (3 sc db w x db' w' db'' w'')
  from recv_durable(2) [OF good 3(3) [OF order_refl] 3(4) [unfolded 3(1)] _ 3(5,6)]
  show ?case unfolding 3(1) by (intro exI [of _ w'']) simp
qed

lemma get_event_call_durable:
  assumes good: "good_process wid p"
  shows "durable wid (waits p) (run_api p (CallGetEvent target key secs))"
proof -
  define gc where "gc = (\<lambda>sc :: DBOSContext. \<lparr>gc_workflow_uuid = cx_workflow_id sc, gc_function_id = cx_function_id sc,
    gc_timeout_function_id = cx_function_id sc + 1\<rparr>)"
  show ?thesis
  proof (rule durable_snapshot [where b = True and e = "pr_executor_id p" and a = "pr_app_id p" and
        F = "\<lambda>sc. get_event p target key secs (Some (gc sc))"], goal_cases)
    case (1 c s)
    then show ?case
      by (auto simp: gc_def snapshot_simps DBOS_get_event_def option.map_comp snapshot_is_workflow split: prod.splits
          intro!: option.map_cong)
  next
    case (2 sc db w x db' w')
    have "touches_only wid {cx_function_id sc, cx_function_id sc + 1} db db'"
      using get_event_durable(1) [of "gc sc" p db target key secs w x db' w'] good 2 by (simp add: gc_def)
    then show ?case by (rule touches_mono) auto
  next
    case (3 sc db w x db' w' db'' w'')
    then show ?case
      using get_event_durable(2) [of "gc sc" p db target key secs w x db' w' db'' w''] good
      by (intro exI [of _ w'']) (simp add: gc_def)
  qed
qed

lemma system_durable:
  assumes good: "good_process wid p" and alone: "fn_alone wid fn"
  shows "durable wid (waits p) (run_api p (CallSystem name fn))"
proof (rule durable_snapshot [where b = False and e = "pr_executor_id p" and a = "pr_app_id p" and
      F = "\<lambda>sc s. Some (on_db (call_function_as_step (pr_codecs p) (pr_serializer p) (pr_executor p) fn name (Some sc)
        (now p (snd s)) (now p (snd s))) s)"], goal_cases)
  case (1 c s)
  then show ?case by (auto simp: snapshot_simps api_as_step_def split: prod.splits)
next
  case (2 sc db w x db' w')
  from 2 have "call_function_as_step (pr_codecs p) (pr_serializer p) (pr_executor p) fn name (Some sc)
      (now p w) (now p w) db = (x, db')" by (auto simp: on_db_def split: prod.splits)
  from as_step_recorded(1) [OF 2(2) _ _ this] 2(1,3) alone show ?case by simp
next
  case (3 sc db w x db' w' db'' w'')
  from 3(4) have run: "call_function_as_step (pr_codecs p) (pr_serializer p) (pr_executor p) fn name (Some sc)
      (now p w) (now p w) db = (x, db')" by (auto simp: on_db_def split: prod.splits)
  have fresh: "check_operation_execution_txn (cx_workflow_id sc) (cx_function_id sc) name db = Inr None"
    using 3(1,3) by simp
  from as_step_recorded(2) [OF 3(2) _ fresh run] alone 3(1,5) obtain v db1 where
    v: "fn db = (Inr v, db1)" "operation_row db1 (cx_workflow_id sc) (cx_function_id sc) = None" "x = Inr v" by auto
  from call_function_as_step_once [OF 3(2) good_processD(1) [OF good] fresh v(1,2) run [unfolded v(3)]] 3(1,6)
    good_processD(3) [OF good] v(3)
  show ?case by (intro exI [of _ w'']) (simp add: on_db_def)
qed

lemma step_durable:
  assumes good: "good_process wid p" and step: "good_step (pr_env p) wid (step_name call (normalize_step_options opts)) call
      (normalize_step_options opts)"
  shows "durable wid (waits p) (run_api p (CallStep call opts))"
  unfolding durable_def
proof (intro allI impI)
  fix c db w r c' db' w'
  let ?b = "new_context (pr_executor_id p) (pr_app_id p)" and ?o = "normalize_step_options opts"
  assume c: "running wid c" and prog: "in_progress c db"
    and run: "run_api p (CallStep call opts) c (db, w) = Some (r, c', (db', w'))"
  have eq: "run_api p (CallStep call opts) c s = call_step (pr_env p) ?b (step_name call ?o) call ?o c s" for s
    using c by (auto simp: in_ctx_def ctx_of_def run_step_def call_step_def step_name_def running_def Let_def split: prod.splits)
  have wid: "cx_workflow_id c = wid" "is_workflow c" using c by (simp_all add: running_def)
  obtain sc where "snapshot_step_ctx False ?b c = (sc, c')"
    using run unfolding eq call_step_def by (auto simp: Let_def split: prod.splits)
  from snapshot_ids [OF this] wid
  have c': "cx_workflow_id c' = wid" "cx_function_id c' = cx_function_id c + 1" "is_workflow c'" by simp_all
  note fs = call_step_fresh [OF good_processD(1,3) [OF good] _ prog run [unfolded eq]]
  have replay: "run_api p (CallStep call opts) c (db'', w'') = Some (r, c', (db'', w''))"
    if "recovered_db wid (cx_function_id c') db' db''" for db'' w''
    unfolding eq using fs(6) [of db'' w''] recovered_stands [OF that] step wid c' by simp
  have "running wid c' \<and> cx_function_id c < cx_function_id c' \<and> in_progress c' db'"
    using c' fs(1) step wid by (simp add: running_def)
  moreover have "\<forall>i \<le> cx_function_id c. operation_row db' wid i = operation_row db wid i"
    using fs(5) step wid by simp
  moreover have "\<forall>db'' w''. recovered_db wid (cx_function_id c') db' db'' \<longrightarrow>
      (\<exists>w3. run_api p (CallStep call opts) c (db'', w'') = Some (r, c', (db'', w3)) \<and> waits p w'' w3)"
    by (intro allI impI exI conjI, rule replay, assumption, rule waits_refl)
  ultimately show "(running wid c' \<and> cx_function_id c < cx_function_id c' \<and> in_progress c' db'
      \<and> (\<forall>i \<le> cx_function_id c. operation_row db' wid i = operation_row db wid i))
    \<and> (\<forall>db'' w''. recovered_db wid (cx_function_id c') db' db'' \<longrightarrow>
        (\<exists>w3. run_api p (CallStep call opts) c (db'', w'') = Some (r, c', (db'', w3)) \<and> waits p w'' w3))"
    by (intro conjI) simp_all
qed

lemma patch_durable: "durable wid (waits p) (run_api p (CallPatch name))"
  unfolding durable_def
proof (intro allI impI)
  fix c :: DBOSContext and db w r c' db' w'
  let ?n = "''DBOS.patch-'' @ name" and ?fid = "cx_function_id c + 1"
  assume c: "running wid c" and prog: "in_progress c db"
    and run: "run_api p (CallPatch name) c (db, w) = Some (r, c', (db', w'))" and rec: "operation_row db' wid ?fid \<noteq> None"
  have wid: "cx_workflow_id c = wid" "is_workflow c" using c by (simp_all add: running_def)
  have none: "operation_row db wid ?fid = None" using prog wid by (simp add: in_progress_def)
  with rec have "db' \<noteq> db" by auto
  with run have en: "pr_enable_patching p"
    by (cases "pr_enable_patching p") (auto simp: in_ctx_def DBOS_patch_def)
  have api: "run_api p (CallPatch name) c (d, v) = (case patch (pr_executor p) wid ?fid ?n (now p v) (now p v) d of
      (Inl e, d1) \<Rightarrow> Some (Inl e, c, (d1, v))
    | (Inr b, d1) \<Rightarrow> Some (Inr (PBool b), if b then c\<lparr>cx_function_id := ?fid\<rparr> else c, (d1, v)))" for d v
    using en wid by (auto simp: in_ctx_def DBOS_patch_def ctx_of_def on_db_def split: prod.splits sum.splits)
  obtain x where x: "patch (pr_executor p) wid ?fid ?n (now p w) (now p w) db = (x, db')"
    using run unfolding api by (auto split: prod.splits sum.splits)
  have "\<exists>b. x = Inr b" using x none rec
    by (auto simp: patch_def get_checkpoint_name_def engine_begin_def split: txn_result.splits elim!: txn_bind.elims dest: sym)
  then obtain b where b: "x = Inr b" by blast
  from patch_stable [OF x [unfolded b] refl] none have "b" by (simp add: get_checkpoint_name_def)
  with run x b have c': "c' = c\<lparr>cx_function_id := ?fid\<rparr>" "r = Inr (PBool True)" unfolding api by auto
  have "touches_only wid {?fid .. cx_function_id c'} db db'" using patch_touches [OF x] c' by simp
  then have "running wid c' \<and> cx_function_id c < cx_function_id c' \<and> in_progress c' db'
      \<and> (\<forall>i \<le> cx_function_id c. operation_row db' wid i = operation_row db wid i)"
    by (rule touches_progress [OF c prog])
       (use c' wid in \<open>simp_all add: is_workflow_def is_step_def is_transaction_def\<close>)
  moreover have replay: "\<exists>w3. run_api p (CallPatch name) c (db'', w'') = Some (r, c', (db'', w3)) \<and> waits p w'' w3"
    if "recovered_db wid (cx_function_id c') db' db''" for db'' w''
  proof -
    have "operation_row db'' wid ?fid = operation_row db' wid ?fid" using that c' by (simp add: recovered_db_def)
    from patch_stable [OF x [unfolded b] this] \<open>b\<close> c' show ?thesis unfolding api by (intro exI [of _ w'']) simp
  qed
  ultimately show "(running wid c' \<and> cx_function_id c < cx_function_id c' \<and> in_progress c' db'
      \<and> (\<forall>i \<le> cx_function_id c. operation_row db' wid i = operation_row db wid i))
    \<and> (\<forall>db'' w''. recovered_db wid (cx_function_id c') db' db'' \<longrightarrow>
        (\<exists>w3. run_api p (CallPatch name) c (db'', w'') = Some (r, c', (db'', w3)) \<and> waits p w'' w3))"
    by (intro conjI allI impI replay) simp_all
qed

lemma run_api_durable: "good_call p wid call \<Longrightarrow> durable wid (waits p) (run_api p call)"
  by (cases call)
     (simp_all only: good_call_def api_call.case step_durable system_durable send_durable recv_call_durable set_event_durable
       get_event_call_durable write_stream_durable close_stream_durable sleep_durable patch_durable)

text \<open>The operations of the library obey the contract, in every process and for every workflow.\<close>

interpretation api: durable_calls "run_api p" "good_call p" "waits p" for p :: "'w process"
proof
  fix wid and call :: "'w api_call" and c db w r c' db' w'
  assume h: "good_call p wid call" "running wid c" "in_progress c db"
    "run_api p call c (db, w) = Some (r, c', (db', w'))" "operation_row db' wid (cx_function_id c + 1) \<noteq> None"
  note d = run_api_durable [OF h(1), unfolded durable_def, rule_format, OF h(2-5)]
  show "running wid c' \<and> cx_function_id c < cx_function_id c' \<and> in_progress c' db'
      \<and> (\<forall>i \<le> cx_function_id c. operation_row db' wid i = operation_row db wid i)" using d by blast
  show "\<exists>w3. run_api p call c (db'', w'') = Some (r, c', (db'', w3)) \<and> waits p w'' w3"
    if "recovered_db wid (cx_function_id c') db' db''" for db'' w'' using d that by blast
qed (simp_all add: waits_trans)

section \<open>Recovery\<close>

primrec inv_call :: "'w api_call \<Rightarrow> bool" where
  "inv_call (CallStep call opts) = call_inv call (normalize_step_options opts)"
| "inv_call (CallSystem name fn) = (\<forall>db. sysdb_inv db \<longrightarrow> sysdb_inv (snd (fn db)))"
| "inv_call (CallSend name ms ty forks) = True"
| "inv_call (CallRecv topic secs) = True"
| "inv_call (CallSetEvent key v ty) = True"
| "inv_call (CallGetEvent target key secs) = True"
| "inv_call (CallWriteStream key v ty) = True"
| "inv_call (CallCloseStream key) = True"
| "inv_call (CallSleep secs) = True"
| "inv_call (CallPatch name) = True"

lemma run_api_inv:
  assumes p: "inv_process p" and call: "inv_call call"
    and run: "run_api p call c s = Some (r, c', s')" and s: "sysdb_inv (fst s)"
  shows "sysdb_inv (fst s')"
proof (cases call)
  case (CallStep f opts)
  let ?o = "normalize_step_options opts" and ?b = "new_context (pr_executor_id p) (pr_app_id p)"
  show ?thesis
  proof (cases "is_workflow c")
    case True
    then have step: "call_step (pr_env p) ?b (step_name f ?o) f ?o c s = Some (r, c', s')"
      using run CallStep
      by (auto simp: in_ctx_def ctx_of_def run_step_def call_step_def step_name_def Let_def split: prod.splits)
    have "call_inv f ?o" using call CallStep by simp
    from call_step_inv [OF this step s] show ?thesis .
  next
    case False
    then have f: "sc_func f c s = (r, s')" using run CallStep by (auto simp: in_ctx_def run_step_def Let_def split: prod.splits)
    have "comp_inv (sc_func f c)" using call CallStep by (simp add: call_inv_def)
    from comp_invD [OF this f s] show ?thesis .
  qed
next
  case (CallSystem name fn)
  then obtain cur where step: "api_as_step p name fn (Some c) s = (r, cur, s')"
    using run by (auto simp: in_ctx_def split: prod.splits)
  have "sysdb_inv (snd (fn db))" if "sysdb_inv db" for db using call CallSystem that by simp
  from api_as_step_inv [where fn = fn, OF this step s] show ?thesis .
next
  case (CallSend name ms ty forks)
  then show ?thesis using run s
    by (auto simp: in_ctx_def DBOS_send_bulk_def Let_def dest: send_bulk_core_inv split: prod.splits)
next
  case (CallRecv topic secs)
  then show ?thesis using run s
    by (auto simp: in_ctx_def DBOS_recv_def dest: recv_inv [OF p] split: prod.splits option.splits if_splits)
next
  case (CallSetEvent key v ty)
  then show ?thesis using run s
    by (auto simp: in_ctx_def DBOS_set_event_def Let_def dest: set_event_core_inv split: prod.splits)
next
  case (CallGetEvent target key secs)
  then show ?thesis using run s
    by (auto simp: in_ctx_def DBOS_get_event_def Let_def dest: get_event_inv [OF p] split: prod.splits)
next
  case (CallWriteStream key v ty)
  then show ?thesis using run s
    by (auto simp: in_ctx_def DBOS_write_stream_def Let_def dest: write_stream_core_inv [OF p] split: prod.splits)
next
  case (CallCloseStream key)
  then show ?thesis using run s
    by (auto simp: in_ctx_def DBOS_close_stream_def Let_def dest: close_stream_core_inv [OF p] split: prod.splits)
next
  case (CallSleep secs)
  then show ?thesis using run s by (auto simp: in_ctx_def dest: sleep_inv split: prod.splits)
next
  case (CallPatch name)
  then show ?thesis using run s by (auto simp: in_ctx_def dest: DBOS_patch_inv split: prod.splits)
qed

text \<open>
  C1: Durable execution. Let a process execute a workflow, interleaved with all other processes, until it
  crashes: its code (any code over steps, messages, events, streams, durable sleep, patches and
  system operations run as steps) has completed some operations and left the rest \<open>b'\<close> to do. In every later
  database that still has the checkpoints of the completed operations, the execution restarted from the
  beginning is the execution of that rest, in the world as it is now but for time slept: no
  completed operation runs again, the recorded outcomes steer the code down the same path, and the
  function IDs continue in order. The crash may also have happened in the middle of an operation,
  after any of its transactions.
\<close>

theorem recovery_resumes:
  assumes crash: "(wf_step (run_api p))\<^sup>*\<^sup>* (b, c, (db, w)) (b', c', (db', w'))"
    and calls: "all_calls (good_call p wid) b" and c: "running wid c" and prog: "in_progress c db"
    and later: "recovered_db wid (cx_function_id c') db' db''"
  shows "\<exists>w3. waits p w'' w3 \<and> exec_body (run_api p) b c (db'', w'') = exec_body (run_api p) b' c' (db'', w3)"
  using crash calls c prog later by (rule api.resumes)

text \<open>A workflow of two steps, interrupted after the first.\<close>

definition example_process :: "nat process" where
  "example_process = \<lparr>pr_env = step_env\<lparr>en_codecs := example_codecs, en_serializer := DBOSDefaultSerializer example_codecs\<rparr>,
     pr_executor_id = ''local'', pr_app_id = ''app'', pr_uuid = (\<lambda>w n. ''u''),
     pr_notifications_map = \<lparr>rg_get = (\<lambda>_. []), rg_set = (\<lambda>_ w. w)\<rparr>,
     pr_workflow_events_map = \<lparr>rg_get = (\<lambda>_. []), rg_set = (\<lambda>_ w. w)\<rparr>,
     pr_new_event = id, pr_wakes = (\<lambda>_ _. []), pr_attempts = (\<lambda>_. []), pr_enable_patching = True\<rparr>"

definition answer_call :: "nat world step_call" where
  "answer_call = failing_call\<lparr>sc_func := (\<lambda>c s. (Inr (PInt 42), (fst s, Suc (snd s))))\<rparr>"

definition second_step :: "nat api_call wf_body" where
  "second_step = WCall (CallStep answer_call []) (\<lambda>r. case r of Inr v \<Rightarrow> WReturn v | Inl e \<Rightarrow> WRaise e)"

definition two_steps :: "nat api_call wf_body" where
  "two_steps = WCall (CallStep answer_call []) (\<lambda>_. second_step)"

lemma example_process_good: "good_process wid example_process" "inv_process example_process"
  using example_codecs_law
  by (auto simp: good_process_def inv_process_def registry_law_def example_process_def example_codecs_def split: if_splits)

lemma example_waits: "waits example_process w w' \<longleftrightarrow> w' = w"
proof -
  have "fold (\<lambda>t n. n) ts w = (w :: nat)" for ts :: "rat list" by (induction ts) simp_all
  then show ?thesis by (auto simp: waits_def example_process_def step_env_def)
qed

lemma answer_good: "good_call example_process wid (CallStep answer_call [])" "inv_call (CallStep answer_call [])"
proof -
  have rec: "recordable (pr_env example_process) (Inr (PInt 42))"
    by (simp add: recordable_def example_process_def serialize_value_def serialize_value_as_def
        serialization_for_type_def DBOSDefaultSerializer_def DBOSPortableJSON_def example_codecs_def)
  have o: "normalize_step_options [] = (DEFAULT_STEP_OPTIONS :: nat world StepOptions)"
    by (simp add: normalize_step_options_def)
  show "good_call example_process wid (CallStep answer_call [])"
    using rec example_process_good(1)
    by (auto simp: o good_call_def good_step_def step_valid_def answer_call_def failing_call_def DEFAULT_STEP_OPTIONS_def
        step_outcome_def)
  show "inv_call (CallStep answer_call [])"
    by (simp add: o call_inv_def answer_call_def DEFAULT_STEP_OPTIONS_def comp_inv_def)
qed

lemma two_steps_good: "all_calls (good_call example_process wid) two_steps" "all_calls inv_call two_steps"
  using answer_good by (auto simp: two_steps_def second_step_def split: sum.splits)

lemma answer_step:
  assumes c: "running wid c" and prog: "in_progress c db"
  shows "\<exists>c' db'. run_api example_process (CallStep answer_call []) c (db, w) = Some (Inr (PInt 42), c', (db', Suc w))
    \<and> wf_step (run_api example_process) (WCall (CallStep answer_call []) k, c, (db, w)) (k (Inr (PInt 42)), c', (db', Suc w))
    \<and> in_progress c' db' \<and> running wid c' \<and> (sysdb_inv db \<longrightarrow> sysdb_inv db')
    \<and> map_option row_state (status_row db' wid) = map_option row_state (status_row db wid)"
proof -
  let ?b = "new_context (pr_executor_id example_process) (pr_app_id example_process)"
  let ?o = "normalize_step_options [] :: nat world StepOptions"
  let ?run = "run_api example_process (CallStep answer_call [])"
  obtain r db' w' cur where "run_step (pr_env example_process) ?b (Some c) answer_call [] (db, w) = ((r, (db', w')), cur)"
    by (cases "run_step (pr_env example_process) ?b (Some c) answer_call [] (db, w)") auto
  then obtain c' where run: "?run c (db, w) = Some (r, c', (db', w'))" by (simp add: in_ctx_def)
  have step: "call_step (pr_env example_process) ?b (step_name answer_call ?o) answer_call ?o c (db, w) = Some (r, c', (db', w'))"
    using run c by (auto simp: in_ctx_def ctx_of_def run_step_def call_step_def step_name_def running_def Let_def split: prod.splits)
  have wid: "cx_workflow_id c = wid" using c by (simp add: running_def)
  have good: "good_step (pr_env example_process) (cx_workflow_id c) (step_name answer_call ?o) answer_call ?o"
    using answer_good(1) [of "cx_workflow_id c"] by (simp add: good_call_def)
  note fs = call_step_fresh [OF good_processD(1,3) [OF example_process_good(1)] good prog step]
  have rec: "operation_row db' wid (cx_function_id c + 1) \<noteq> None" using fs(3) wid by simp
  from fs(4) have r: "r = Inr (PInt 42)" "w' = Suc w"
    by (auto simp: step_outcome_def DEFAULT_STEP_OPTIONS_def normalize_step_options_def answer_call_def)
  have "wf_step (run_api example_process) (WCall (CallStep answer_call []) k, c, (db, w)) (k r, c', (db', w'))"
    by (rule wf_step.operation [where run = "run_api example_process", OF run]) (use rec wid in \<open>simp add: completed_def\<close>)
  moreover have "running wid c'" "in_progress c' db'"
    using api.proceeds [OF answer_good(1) c prog run rec] by simp_all
  moreover have "sysdb_inv db'" if "sysdb_inv db"
    using run_api_inv [OF example_process_good(2) answer_good(2) run] that by simp
  ultimately show ?thesis using run fs(2) wid unfolding r by blast
qed

lemma example_running: "running ''a'' (example_ctx ''a'')"
  by (simp add: running_def example_ctx_def start_workflow_def new_context_def is_workflow_def is_step_def is_transaction_def)

theorem recovery_resumes_witness:
  "\<exists>c' db'. (wf_step (run_api example_process))\<^sup>*\<^sup>* (two_steps, example_ctx ''a'', (example_db [''a''], 0)) (second_step, c', (db', 1))
    \<and> exec_body (run_api example_process) two_steps (example_ctx ''a'') (db', 7)
      = exec_body (run_api example_process) second_step c' (db', 7)"
proof -
  let ?c = "example_ctx ''a''" and ?db = "example_db [''a'']"
  from answer_step [OF example_running example_in_progress, of 0 "\<lambda>_. second_step"] obtain c' db' where
    st: "wf_step (run_api example_process) (two_steps, ?c, (?db, 0)) (second_step, c', (db', 1))"
    and k: "in_progress c' db'" "running ''a'' c'" by (auto simp: two_steps_def)
  then have crash: "(wf_step (run_api example_process))\<^sup>*\<^sup>* (two_steps, ?c, (?db, 0)) (second_step, c', (db', 1))" by simp
  have "recovered_db ''a'' (cx_function_id c') db' db'" using k by (auto simp: recovered_db_def in_progress_def running_def)
  from recovery_resumes [OF crash two_steps_good(1) example_running example_in_progress this, of 7] crash
  show ?thesis by (auto simp: example_waits)
qed

text \<open>The code of a workflow as the function that is executed; one that does not return is cancelled with its task.\<close>

definition workflow_function :: "'w process \<Rightarrow> 'w api_call wf_body \<Rightarrow> DBOSContext \<Rightarrow> (pyval, 'w world) comp" where
  "workflow_function p b c s = (case exec_body (run_api p) b c s of Some x \<Rightarrow> x | None \<Rightarrow> (Inl CancelledError, s))"

text \<open>
  C2: A recovered workflow completes. Let an execution of a workflow crash anywhere and let the workflow be
  executed again, in a later database that still has its checkpoints. If what the crashed execution
  had left to do, continued in that database, returns, and nobody cancels the workflow meanwhile, then
  the new execution returns the same outcome and records it as the workflow's final status, SUCCESS with the
  value or ERROR with the exception; every caller awaiting the workflow gets that outcome.
\<close>

theorem recovered_workflow_completes:
  assumes crash: "(wf_step (run_api p))\<^sup>*\<^sup>* (b, c, (db, w)) (b', c', (db', w'))"
    and calls: "all_calls (good_call p wid) b" and c: "running wid c" and prog: "in_progress c db"
    and later: "recovered_db wid (cx_function_id c') db' db''"
    and inv: "inv_process p" "all_calls inv_call b" "sysdb_inv db''"
    and law: "codecs_law (pr_codecs p) (pr_serializer p)"
    and status: "wi_workflow_uuid status = wid" "wi_status status \<noteq> ERROR" "wi_status status \<noteq> SUCCESS"
  shows "\<exists>w3. waits p w'' w3 \<and> (\<forall>r db1 w1 wr. exec_body (run_api p) b' c' (db'', w3) = Some (r, (db1, w1))
      \<longrightarrow> status_row db1 wid = Some wr \<longrightarrow> ws_status wr \<noteq> CANCELLED \<longrightarrow> ws_serialization wr = wi_serialization status
      \<longrightarrow> persistable (pr_env p) (wi_serialization status) r
      \<longrightarrow> (\<exists>db2 r' wr'. persist (pr_env p) polls status (workflow_function p b c) (db'', w'') = (Some r, (db2, w1))
        \<and> status_row db2 wid = Some wr' \<and> ws_status wr' = (case r of Inr _ \<Rightarrow> SUCCESS | Inl _ \<Rightarrow> ERROR)
        \<and> (\<forall>dbs. await_result (pr_env p) wid (db2 # dbs) = Some r')
        \<and> awaited_as (pr_env p) (wi_serialization status) r r'))"
proof -
  from api.resumes [OF crash calls c prog later, of w''] obtain w3 where w3: "waits p w'' w3"
    and eq: "exec_body (run_api p) b c (db'', w'') = exec_body (run_api p) b' c' (db'', w3)" by blast
  have "\<exists>db2 r' wr'. persist (pr_env p) polls status (workflow_function p b c) (db'', w'') = (Some r, (db2, w1))
      \<and> status_row db2 wid = Some wr' \<and> ws_status wr' = (case r of Inr _ \<Rightarrow> SUCCESS | Inl _ \<Rightarrow> ERROR)
      \<and> (\<forall>dbs. await_result (pr_env p) wid (db2 # dbs) = Some r')
      \<and> awaited_as (pr_env p) (wi_serialization status) r r'"
    if rest: "exec_body (run_api p) b' c' (db'', w3) = Some (r, (db1, w1))" and row: "status_row db1 wid = Some wr"
      "ws_status wr \<noteq> CANCELLED" "ws_serialization wr = wi_serialization status"
      and ok: "persistable (pr_env p) (wi_serialization status) r" for r db1 w1 wr
  proof -
    have run: "workflow_function p b c (db'', w'') = (r, (db1, w1))"
      using eq rest by (simp add: workflow_function_def)
    have db1: "sysdb_inv db1"
      using exec_body_inv [OF inv(2) run_api_inv [OF inv(1)] eq [unfolded rest]] inv(3) by simp
    from persist_records [where func = "workflow_function p b c" and s = "(db'', w'')",
        OF law status(2,3) run ok db1, of wr polls] row status(1)
    show ?thesis by (auto simp: outcome_effect_def)
  qed
  with w3 show ?thesis by blast
qed

theorem recovered_workflow_completes_witness:
  "\<exists>c' db' db2 wr. (wf_step (run_api example_process))\<^sup>*\<^sup>* (two_steps, example_ctx ''a'', (example_db [''a''], 0)) (second_step, c', (db', 1))
    \<and> persist (pr_env example_process) [] (example_status ''a'') (workflow_function example_process two_steps (example_ctx ''a'')) (db', 7)
      = (Some (Inr (PInt 42)), (db2, 8))
    \<and> status_row db2 ''a'' = Some wr \<and> ws_status wr = SUCCESS
    \<and> await_result (pr_env example_process) ''a'' [db2] = Some (Inr (PInt 42))"
proof -
  let ?c = "example_ctx ''a''" and ?db = "example_db [''a'']" and ?p = example_process and ?st = "example_status ''a''"
  from answer_step [OF example_running example_in_progress, of 0 "\<lambda>_. second_step"] obtain c' db' where
    st: "wf_step (run_api ?p) (two_steps, ?c, (?db, 0)) (second_step, c', (db', 1))"
    and k: "in_progress c' db'" "running ''a'' c'" "sysdb_inv db'"
      "map_option row_state (status_row db' ''a'') = map_option row_state (status_row ?db ''a'')"
    using example_inv by (auto simp: two_steps_def)
  then have crash: "(wf_step (run_api ?p))\<^sup>*\<^sup>* (two_steps, ?c, (?db, 0)) (second_step, c', (db', 1))" by simp
  have later: "recovered_db ''a'' (cx_function_id c') db' db'" using k by (auto simp: recovered_db_def in_progress_def running_def)
  from answer_step [OF k(2,1), of 7 "\<lambda>_. WReturn PNone"] obtain c2 db1 where
    s2: "run_api ?p (CallStep answer_call []) c' (db', 7) = Some (Inr (PInt 42), c2, (db1, 8))"
    and own: "map_option row_state (status_row db1 ''a'') = map_option row_state (status_row db' ''a'')"
    by (auto simp del: run_api.simps)
  have rest: "exec_body (run_api ?p) second_step c' (db', 7) = Some (Inr (PInt 42), (db1, 8))"
    using s2 by (simp add: second_step_def del: run_api.simps)
  from own k(4) obtain wr where wr: "status_row db1 ''a'' = Some wr" "ws_status wr \<noteq> CANCELLED"
      "ws_serialization wr = wi_serialization ?st"
    using example_row by (auto simp: row_state_def) (simp add: new_status_row_def example_status_def)
  have status: "wi_workflow_uuid ?st = ''a''" "wi_status ?st \<noteq> ERROR" "wi_status ?st \<noteq> SUCCESS"
    by (simp_all add: example_status_def)
  have ok: "persistable (pr_env ?p) (wi_serialization ?st) (Inr (PInt 42))"
    by (simp add: persistable_def example_status_def example_process_def serialize_value_as_def)
       (simp add: DBOSDefaultSerializer_def example_codecs_def)
  from recovered_workflow_completes [OF crash two_steps_good(1) example_running example_in_progress later
      example_process_good(2) two_steps_good(2) k(3) good_processD(1) [OF example_process_good(1)] status, of 7 "[]"]
    rest wr ok obtain db2 r' wr' where
    db2: "persist (pr_env ?p) [] ?st (workflow_function ?p two_steps ?c) (db', 7) = (Some (Inr (PInt 42)), (db2, 8))"
      "status_row db2 ''a'' = Some wr'" "ws_status wr' = SUCCESS" "\<forall>dbs. await_result (pr_env ?p) ''a'' (db2 # dbs) = Some r'"
      "awaited_as (pr_env ?p) (wi_serialization ?st) (Inr (PInt 42)) r'"
    unfolding example_waits by fastforce
  have "r' = Inr (PInt 42)" using db2(5) by (simp add: awaited_as_def example_status_def)
  with db2(4) have "await_result (pr_env ?p) ''a'' [db2] = Some (Inr (PInt 42))" by simp
  with db2(1-3) crash show ?thesis by blast
qed

end
