(* ===== verification/DBOS_Reachable.thy ===== *)
theory DBOS_Reachable
  imports DBOS_Queue_Config DBOS_Fork DBOS_GC DBOS_Export DBOS_Schedules DBOS_API_Inv
begin

text \<open>
  The system database as a state machine whose steps are the transactions of all components, in any
  interleaving. The abstract machine \<open>life_step\<close> says how the status of one workflow may move and what
  happens to its recorded outcome on the way; every transaction refines it. By rule induction, every
  reachable database satisfies the constraints of the schema and every row the consistency of its
  status, outcome, completion time and deduplication ID.
\<close>

section \<open>The life of one workflow\<close>

text \<open>
  The columns the machine is about: status, output, error, completion time, deduplication ID and whether
  the workflow is debounced.
\<close>

type_synonym life =
  "WorkflowStatusString \<times> string option \<times> string option \<times> int option \<times> string option \<times> bool"

abbreviation life :: "workflow_status_row \<Rightarrow> life" where
  "life r \<equiv> (ws_status r, ws_output r, ws_error r, ws_completed_at r, ws_deduplication_id r, ws_is_debounced r)"

inductive life_step :: "life \<Rightarrow> life \<Rightarrow> bool" where
  stay: "life_step l l"
| finish: "st \<noteq> CANCELLED \<Longrightarrow> life_step (st, outp, err, c, d, b) (SUCCESS, outp', None, Some t, None, b)"
| fail: "st \<noteq> CANCELLED \<Longrightarrow> life_step (st, outp, err, c, d, b) (ERROR, None, err', Some t, None, b)"
| cancel: "st \<noteq> SUCCESS \<Longrightarrow> st \<noteq> ERROR \<Longrightarrow>
    life_step (st, outp, err, c, d, b) (CANCELLED, outp, err, Some t, None, b)"
| resume: "st \<noteq> SUCCESS \<Longrightarrow> st \<noteq> ERROR \<Longrightarrow>
    life_step (st, outp, err, c, d, b) (ENQUEUED, outp, err, None, None, b)"
| release: "life_step (DELAYED, outp, err, c, d, False) (ENQUEUED, outp, err, c, d, False)"
| release_key: "life_step (DELAYED, outp, err, c, d, True) (ENQUEUED, outp, err, c, None, True)"
| dequeue: "life_step (ENQUEUED, outp, err, c, d, b) (PENDING, outp, err, c, d, b)"
| requeue: "life_step (PENDING, outp, err, c, d, b) (ENQUEUED, outp, err, c, d, b)"
| give_up: "life_step (PENDING, outp, err, c, d, b) (MAX_RECOVERY_ATTEMPTS_EXCEEDED, outp, err, c, None, b)"

inductive_cases life_stepE: "life_step (st, outp, err, c, d, b) (st', outp', err', c', d', b')"

definition life_ok :: "workflow_status_row \<Rightarrow> bool" where
  "life_ok r \<longleftrightarrow> (ws_completed_at r \<noteq> None \<longleftrightarrow> ws_status r \<in> {SUCCESS, ERROR, CANCELLED})
     \<and> (ws_output r \<noteq> None \<longrightarrow> ws_status r = SUCCESS) \<and> (ws_error r \<noteq> None \<longrightarrow> ws_status r = ERROR)
     \<and> (ws_deduplication_id r \<noteq> None \<longrightarrow> workflow_is_active (ws_status r))
     \<and> (ws_is_debounced r \<and> ws_deduplication_id r \<noteq> None \<longrightarrow> ws_status r = DELAYED)"

lemma life_ok_step: "life_step (life r) (life r') \<Longrightarrow> life_ok r \<Longrightarrow> life_ok r'"
  by (erule life_stepE) (auto simp: life_ok_def workflow_is_active_def)

section \<open>Transactions on the status table\<close>

text \<open>Existing rows move along \<open>life_step\<close>, new rows are consistent, and rows may disappear.\<close>

definition moves :: "sysdb \<Rightarrow> sysdb \<Rightarrow> bool" where
  "moves db db' \<longleftrightarrow> (\<forall>wid r'. status_row db' wid = Some r' \<longrightarrow>
     (case status_row db wid of None \<Rightarrow> life_ok r' | Some r \<Rightarrow> life_step (life r) (life r')))"

lemma movesI:
  "(\<And>wid r'. status_row db' wid = Some r' \<Longrightarrow>
     (case status_row db wid of None \<Rightarrow> life_ok r' | Some r \<Rightarrow> life_step (life r) (life r'))) \<Longrightarrow> moves db db'"
  by (simp add: moves_def)

lemma movesD:
  assumes "moves db db'" "status_row db wid = Some r" "status_row db' wid = Some r'"
  shows "life_step (life r) (life r')"
  using assms(1) [unfolded moves_def, rule_format, OF assms(3)] assms(2) by simp

lemma moves_refl: "moves db db"
  by (auto simp: moves_def intro: stay)

lemma moves_update:
  assumes "guarded_update guard eff" and "\<And>r. guard r \<Longrightarrow> life_step (life r) (life (eff r))"
  shows "moves db (update_workflow_status guard eff db)"
  using assms(2) by (auto simp: moves_def guarded_update.update_row [OF assms(1)] intro: stay)

lemma moves_delete: "sysdb_inv db \<Longrightarrow> moves db (delete_workflow_status P db)"
  by (auto simp: moves_def delete_status_row intro: stay split: option.splits if_splits)

lemma moves_table: "workflow_status db' = workflow_status db \<Longrightarrow> moves db db'"
  using status_row_cong [of db' db] moves_refl [of db] by (simp add: moves_def)

lemma moves_engine:
  assumes "\<And>a d. body db = Done a d \<Longrightarrow> moves db d" and "\<And>e d. body db = CommitRaise e d \<Longrightarrow> moves db d"
  shows "moves db (snd (engine_begin body db))"
  using assms by (cases "body db") (simp_all add: engine_begin_def moves_refl)

text \<open>What a transaction on the other tables may do to the status table: set the executor of a row.\<close>

definition views :: "sysdb \<Rightarrow> workflow_status_row list" where
  "views db = map (\<lambda>r. r\<lparr>ws_executor_id := None\<rparr>) (workflow_status db)"

lemma view_row:
  "map_option (\<lambda>r. r\<lparr>ws_executor_id := None\<rparr>) (status_row db wid)
   = fetchone (filter (\<lambda>r. ws_workflow_uuid r = wid) (views db))"
  by (simp add: views_def status_row_def filter_map_key [of ws_workflow_uuid] fetchone_map)

definition txn_views :: "workflow_status_row list \<Rightarrow> 'a txn_result \<Rightarrow> bool" where
  "txn_views V r = (case r of Done a db \<Rightarrow> views db = V | Raise e \<Rightarrow> True | CommitRaise e db \<Rightarrow> views db = V)"

lemma txn_views_simps [simp]:
  "txn_views V (Done a db) \<longleftrightarrow> views db = V" "txn_views V (Raise e)" "txn_views V (CommitRaise e db) \<longleftrightarrow> views db = V"
  by (simp_all add: txn_views_def)

lemma txn_views_bind:
  "txn_views V r \<Longrightarrow> (\<And>a db. views db = V \<Longrightarrow> txn_views V (f a db)) \<Longrightarrow> txn_views V (txn_bind r f)"
  by (cases r) auto

lemma txn_views_lift_db: "(\<And>db. r = Inr db \<Longrightarrow> views db = V) \<Longrightarrow> txn_views V (lift_db r)"
  by (cases r) (auto simp: lift_db_def)

lemma engine_views: "txn_views (views db) (body db) \<Longrightarrow> views (snd (engine_begin body db)) = views db"
  by (cases "body db") (simp_all add: engine_begin_def)

lemma views_frame [simp]:
  "views (db\<lparr>operation_outputs := t1\<rparr>) = views db" "views (db\<lparr>notifications := t2\<rparr>) = views db"
  "views (db\<lparr>workflow_events := t3\<rparr>) = views db" "views (db\<lparr>workflow_events_history := t4\<rparr>) = views db"
  "views (db\<lparr>streams := t5\<rparr>) = views db"
  by (simp_all add: views_def)

lemma views_reset [simp]: "views (reset_executor ex wid w db) = views db"
  by (auto simp: views_def reset_executor_def update_workflow_status_def sql_update_def split: option.splits)

lemma views_inserts:
  "insert_operation_output r1 db = Inr db' \<Longrightarrow> views db' = views db"
  "insert_event r3 db = Inr db' \<Longrightarrow> views db' = views db"
  "insert_event_history r4 db = Inr db' \<Longrightarrow> views db' = views db"
  "insert_stream r5 db = Inr db' \<Longrightarrow> views db' = views db"
  by (drule insert_rows_app, simp)+

lemma views_record [simp]: "views db = V \<Longrightarrow> txn_views V (record_operation_result_txn ex res t db)"
  by (auto simp: record_operation_result_txn_def Let_def dest!: views_inserts split: option.splits sum.splits)


section \<open>Operations that leave the status table alone\<close>

lemma views_record_operation [simp]: "views (snd (record_operation_result ex res t db)) = views db"
  unfolding record_operation_result_def by (intro engine_views views_record refl)

lemma views_record_get_result [simp]: "views (snd (snd (record_get_result rw outp err ser ctx cur db))) = views db"
  by (auto simp: record_get_result_def Let_def dest!: views_inserts split: option.splits sum.splits if_splits)

lemma views_record_child [simp]: "views (snd (record_child_workflow p c f n db)) = views db"
  by (auto simp: record_child_workflow_def dest!: views_inserts split: option.splits sum.splits)

lemma views_patch [simp]: "views (snd (patch ex wid fid n s t db)) = views db"
  unfolding patch_def by (intro engine_views) (auto split: option.splits intro!: txn_views_bind)

lemma views_record_eq:
  "record_operation_result ex res t db = (x, db') \<Longrightarrow> views db' = views db"
  "check_operation_execution wid fid name db = (y, db') \<Longrightarrow> views db' = views db"
  using views_record_operation [of ex res t db] check_operation_execution_db [of wid fid name db] by auto

lemma views_record_sleep [simp]: "views (snd (record_sleep cs sz ex wid fid secs s t1 t t2 db)) = views db"
  by (auto simp: record_sleep_def Let_def dest!: views_record_eq
      split: prod.splits sum.splits option.splits pyval.splits dbos_error.splits)

lemma views_deliver: "views db = V \<Longrightarrow> txn_views V (deliver fresh tm b ps db)"
  by (cases "deliver fresh tm b ps db") (auto dest: deliver_Done_frame)

lemma views_send_prepared: "txn_views (views db) (send_prepared_txn ex fresh tm wid fid name forks s t ps db)"
  by (auto simp: send_prepared_txn_def views_deliver split: option.splits sum.splits intro!: txn_views_bind)

lemma views_send_bulk [simp]: "views (snd (send_bulk cs sz ex fresh tm ty wid fid name forks s t ms db)) = views db"
  unfolding send_bulk_def by (intro engine_views) (auto simp: send_bulk_txn_def views_send_prepared split: sum.splits)

lemma views_recv_consume [simp]: "views (snd (recv_consume cs sz ex wid fid topic s t db)) = views db"
  unfolding recv_consume_def
  by (intro engine_views)
     (auto simp: recv_consume_txn_def Let_def lift_res_def consume_def split: option.splits sum.splits prod.splits
       intro!: txn_views_bind)

lemma views_store_event: "views db = V \<Longrightarrow> txn_views V (store_event wid fid key val ser db)"
  unfolding store_event_def
  by (intro txn_views_bind txn_views_lift_db)
     (auto simp: views_def dest!: upsert_event_frame upsert_event_history_frame)

lemma views_set_event [simp]:
  "views (snd (set_event_from_workflow cs sz ex wid fid key m ty s t db)) = views db"
  "views (snd (set_event_from_step cs sz wid fid key m ty db)) = views db"
proof -
  have "txn_views (views db) (set_event_txn ex wid fid key val ser s t db)" for val ser
    by (auto simp: set_event_txn_def views_store_event split: option.splits sum.splits intro!: txn_views_bind)
  then show "views (snd (set_event_from_workflow cs sz ex wid fid key m ty s t db)) = views db"
    by (auto simp: set_event_from_workflow_def engine_views split: sum.splits)
  show "views (snd (set_event_from_step cs sz wid fid key m ty db)) = views db"
    by (auto simp: set_event_from_step_def engine_views views_store_event split: sum.splits)
qed

lemma views_get_event_consume [simp]: "views (snd (get_event_consume cs sz ex target key s c t db)) = views db"
  by (auto simp: get_event_consume_def dest!: views_record_eq split: sum.splits option.splits prod.splits)

lemma views_stream_insert_from: "stream_insert_from snap wid fid key val ser db = Inr db' \<Longrightarrow> views db' = views db"
  by (auto simp: stream_insert_from_def dest: views_inserts)

lemma views_stream_insert: "stream_insert_stmt wid fid key val ser db = Inr db' \<Longrightarrow> views db' = views db"
  by (simp add: stream_insert_stmt_def views_stream_insert_from)

lemma views_write_stream [simp]:
  "views (snd (engine_begin (write_stream_txn ex wid fid name key val ser s t) db)) = views db"
  by (intro engine_views)
     (auto simp: write_stream_txn_def split: option.splits sum.splits
       intro!: txn_views_bind txn_views_lift_db dest: views_stream_insert)

section \<open>Operations on the status table\<close>

text \<open>Steps that keep every row where it is in its life, and may add rows.\<close>

definition quiet :: "sysdb \<Rightarrow> sysdb \<Rightarrow> bool" where
  "quiet db db' \<longleftrightarrow> (\<forall>wid. case status_row db wid of
     None \<Rightarrow> (case status_row db' wid of None \<Rightarrow> True | Some r' \<Rightarrow> life_ok r')
   | Some r \<Rightarrow> (case status_row db' wid of None \<Rightarrow> False | Some r' \<Rightarrow> life r' = life r))"

lemma quiet_trans_moves:
  assumes "quiet db db1" "moves db1 db2"
  shows "moves db db2"
proof (rule movesI)
  fix wid r'
  assume r': "status_row db2 wid = Some r'"
  note q = assms(1) [unfolded quiet_def, rule_format, of wid] and m = assms(2) [unfolded moves_def, rule_format, OF r']
  show "case status_row db wid of None \<Rightarrow> life_ok r' | Some r \<Rightarrow> life_step (life r) (life r')"
  proof (cases "status_row db1 wid")
    case None
    with q m show ?thesis by (simp split: option.splits)
  next
    case (Some r1)
    with q m show ?thesis by (cases "status_row db wid") (auto intro: life_ok_step)
  qed
qed

lemma quiet_moves: "quiet db db' \<Longrightarrow> moves db db'"
  by (erule quiet_trans_moves) (rule moves_refl)

lemma quiet_update:
  assumes "guarded_update guard eff" and "\<And>r. guard r \<Longrightarrow> life (eff r) = life r"
  shows "quiet db (update_workflow_status guard eff db)"
  using assms(2) by (auto simp: quiet_def guarded_update.update_row [OF assms(1)] split: option.splits)

lemma quiet_insert:
  assumes "insert_status_row r db = Inr db'" "life_ok r"
  shows "quiet db db'"
proof -
  have "db' = add_status [r] db" by (rule insert_rows_app(1) [OF assms(1)])
  with assms(2) show ?thesis by (auto simp: quiet_def status_row_append split: option.splits)
qed

lemma new_status_row_ok:
  "workflow_is_active (wi_status w) \<Longrightarrow> wi_output w = None \<Longrightarrow> wi_error w = None \<Longrightarrow>
   (wi_is_debounced w \<longrightarrow> wi_status w = DELAYED) \<Longrightarrow> life_ok (new_status_row w xid tm)"
  by (auto simp: life_ok_def new_status_row_def workflow_is_active_def)

lemma quiet_upsert:
  assumes "upsert_status_row w xid force tm db = Inr db'"
    and "workflow_is_active (wi_status w)" "wi_output w = None" "wi_error w = None"
    "wi_is_debounced w \<longrightarrow> wi_status w = DELAYED"
  shows "quiet db db'"
proof (cases "wi_workflow_uuid w \<in> set (workflow_ids db)")
  case True
  with assms(1) have "db' = update_workflow_status (\<lambda>r. ws_workflow_uuid r = wi_workflow_uuid w) (conflict_update w force tm) db"
    by (simp add: upsert_status_row_def)
  with quiet_update [OF conflict_upd.guarded_update_axioms] show ?thesis by (simp add: conflict_update_def)
next
  case False
  with assms(1) show ?thesis
    by (intro quiet_insert [OF _ new_status_row_ok [OF assms(2-5)]]) (simp add: upsert_status_row_def)
qed

lemma moves_dlq: "moves db (update_workflow_status (dlq_guard wid) dlq_effect db)"
  by (rule moves_update [OF dlq_upd.guarded_update_axioms])
     (auto simp: dlq_guard_def dlq_effect_def intro: give_up)

lemma moves_init_workflow:
  assumes "workflow_is_active (wi_status w)" "wi_output w = None" "wi_error w = None"
    "wi_is_debounced w \<longrightarrow> wi_status w = DELAYED"
  shows "moves db (snd (init_workflow w m xid rec deq tm db))"
  unfolding init_workflow_def
proof (rule moves_engine)
  note q = quiet_upsert [OF _ assms]
  show "moves db d" if "insert_workflow_status w m xid rec deq tm db = Done a d" for a d
    using that by (intro quiet_moves [OF q]) (auto simp: insert_workflow_status_def
        split: sum.splits option.splits if_splits)
  show "moves db d" if "insert_workflow_status w m xid rec deq tm db = CommitRaise e d" for e d
    using that by (auto simp: insert_workflow_status_def intro: quiet_trans_moves [OF q moves_dlq]
        split: sum.splits option.splits if_splits)
qed

lemma moves_outcome:
  assumes "\<And>r. ws_status r \<noteq> CANCELLED \<Longrightarrow> life_step (life r) (life (outcome_effect st outp err tm r))"
  shows "moves db (snd (update_workflow_outcome wid st outp err tm db))"
proof -
  have "moves db (update_workflow_status (outcome_guard wid) (outcome_effect st outp err tm) db)"
    by (rule moves_update [OF outcome_upd.guarded_update_axioms]) (simp add: assms outcome_guard_def)
  then show ?thesis unfolding update_workflow_outcome_def
    by (intro moves_engine) (auto simp: moves_refl split: if_splits option.splits)
qed

lemma moves_success: "moves db (snd (update_workflow_outcome wid SUCCESS outp None tm db))"
  by (rule moves_outcome) (simp add: outcome_effect_def finish)

lemma moves_error: "moves db (snd (update_workflow_outcome wid ERROR None err tm db))"
  by (rule moves_outcome) (simp add: outcome_effect_def fail)

lemma moves_cancel: "moves db (cancel_batch tm ids db)"
  unfolding cancel_batch_def
  by (rule moves_update [OF cancel_upd.guarded_update_axioms]) (auto simp: not_complete_def cancel_effect_def intro: cancel)

lemma moves_resume: "moves db (resume_workflows ids q tm db)"
  unfolding resume_workflows_def
  by (rule moves_update [OF resume_upd.guarded_update_axioms]) (auto simp: not_complete_def resume_effect_def intro: resume)

lemma moves_delay: "moves db (snd (set_workflow_delay wid ds du ts tm db))"
proof -
  have "moves db (update_workflow_status (delay_guard wid) (delay_effect u tm) db)" for u
    by (rule moves_update [OF delay_upd.guarded_update_axioms]) (simp add: delay_effect_def stay)
  then show ?thesis by (auto simp: set_workflow_delay_def moves_refl split: option.splits)
qed

lemma moves_debounce: "moves db (snd (debounce_delayed_workflow wn qn d u i ser tm db))"
proof -
  have "moves db (update_workflow_status (debounce_guard wn qn d) (debounce_effect u i ser tm) db)"
    by (rule moves_update [OF debounce_upd.guarded_update_axioms]) (simp add: debounce_effect_def stay)
  then show ?thesis by (auto simp: debounce_delayed_workflow_def moves_refl split: option.splits)
qed

lemma moves_attributes: "moves db (snd (update_workflow_attributes wid attrs tm db))"
proof -
  have "moves db (update_workflow_status (\<lambda>r. ws_workflow_uuid r = wid) (\<lambda>r. r\<lparr>ws_attributes := attrs, ws_updated_at := tm\<rparr>) db)"
    by (rule moves_update [OF attributes_upd.guarded_update_axioms]) (simp add: stay)
  then show ?thesis by (auto simp: update_workflow_attributes_def moves_refl split: sum.splits)
qed

lemma moves_transition: "moves db (transition_delayed_workflows tm db)"
  unfolding transition_delayed_workflows_def
  by (rule moves_update [OF delayed_upd.guarded_update_axioms])
     (auto simp: delayed_guard_def delayed_effect_def intro: release release_key)

lemma moves_clear: "moves db (clear_queue_assignment wid db)"
  unfolding clear_queue_assignment_def
  by (rule moves_update [OF clear_upd.guarded_update_axioms]) (auto simp: clear_guard_def clear_effect_def intro: requeue)

lemma moves_start: "sysdb_inv db \<Longrightarrow> moves db (snd (start_queued_workflows q ex av key lc s tm db))"
  by (simp add: start_queued_workflows_eq, rule moves_update [OF start_upd.guarded_update_axioms])
     (auto simp: start_effect_def intro: dequeue)


lemma quiet_refl: "quiet db db"
  by (simp add: quiet_def split: option.splits)

lemma quiet_trans: "quiet db db1 \<Longrightarrow> quiet db1 db2 \<Longrightarrow> quiet db db2"
proof (unfold quiet_def, intro allI)
  fix wid
  assume q: "\<forall>wid. case status_row db wid of
     None \<Rightarrow> (case status_row db1 wid of None \<Rightarrow> True | Some r' \<Rightarrow> life_ok r')
   | Some r \<Rightarrow> (case status_row db1 wid of None \<Rightarrow> False | Some r' \<Rightarrow> life r' = life r)"
    "\<forall>wid. case status_row db1 wid of
     None \<Rightarrow> (case status_row db2 wid of None \<Rightarrow> True | Some r' \<Rightarrow> life_ok r')
   | Some r \<Rightarrow> (case status_row db2 wid of None \<Rightarrow> False | Some r' \<Rightarrow> life r' = life r)"
  show "case status_row db wid of
     None \<Rightarrow> (case status_row db2 wid of None \<Rightarrow> True | Some r' \<Rightarrow> life_ok r')
   | Some r \<Rightarrow> (case status_row db2 wid of None \<Rightarrow> False | Some r' \<Rightarrow> life r' = life r)"
    using q [THEN spec, of wid] by (auto simp: life_ok_def split: option.splits)
qed

lemma quiet_views:
  assumes "views db' = views db"
  shows "quiet db db'"
proof (unfold quiet_def, intro allI)
  fix wid
  let ?hide = "\<lambda>r. r\<lparr>ws_executor_id := None\<rparr>"
  have eq: "map_option ?hide (status_row db' wid) = map_option ?hide (status_row db wid)"
    using assms by (simp add: view_row)
  show "case status_row db wid of
     None \<Rightarrow> (case status_row db' wid of None \<Rightarrow> True | Some r' \<Rightarrow> life_ok r')
   | Some r \<Rightarrow> (case status_row db' wid of None \<Rightarrow> False | Some r' \<Rightarrow> life r' = life r)"
  proof (cases "status_row db wid")
    case None
    with eq show ?thesis by simp
  next
    case (Some r)
    with eq obtain r' where r': "status_row db' wid = Some r'" "?hide r' = ?hide r" by auto
    from arg_cong [OF r'(2), of life] have "life r' = life r" by simp
    with Some r'(1) show ?thesis by simp
  qed
qed

lemma moves_views: "views db' = views db \<Longrightarrow> moves db db'"
  by (rule quiet_moves) (rule quiet_views)

definition txn_quiet :: "sysdb \<Rightarrow> 'a txn_result \<Rightarrow> bool" where
  "txn_quiet db0 r = (case r of Done a db \<Rightarrow> quiet db0 db | Raise e \<Rightarrow> True | CommitRaise e db \<Rightarrow> quiet db0 db)"

lemma txn_quiet_simps [simp]:
  "txn_quiet db0 (Done a db) \<longleftrightarrow> quiet db0 db" "txn_quiet db0 (Raise e)"
  "txn_quiet db0 (CommitRaise e db) \<longleftrightarrow> quiet db0 db"
  by (simp_all add: txn_quiet_def)

lemma txn_quiet_bind:
  "txn_quiet db0 r \<Longrightarrow> (\<And>a db. r = Done a db \<Longrightarrow> quiet db0 db \<Longrightarrow> txn_quiet db0 (f a db)) \<Longrightarrow> txn_quiet db0 (txn_bind r f)"
  by (cases r) auto

lemma txn_quiet_lift_db: "quiet db0 db \<Longrightarrow> (\<And>db'. r = Inr db' \<Longrightarrow> quiet db db') \<Longrightarrow> txn_quiet db0 (lift_db r)"
  by (cases r) (auto simp: lift_db_def intro: quiet_trans)

lemma moves_quiet_engine: "txn_quiet db (body db) \<Longrightarrow> moves db (snd (engine_begin body db))"
  by (rule moves_engine) (auto intro: quiet_moves)

lemma quiet_insert_all:
  "(\<And>r db db'. r \<in> set rs \<Longrightarrow> ins r db = Inr db' \<Longrightarrow> quiet db db') \<Longrightarrow> insert_all ins rs db = Inr db' \<Longrightarrow> quiet db db'"
proof (induction rs arbitrary: db)
  case (Cons r rs)
  from Cons.prems(2) obtain db1 where "ins r db = Inr db1" "insert_all ins rs db1 = Inr db'"
    by (auto simp: res_bind_Inr_iff)
  with Cons.IH [of db1] Cons.prems(1) have "quiet db db1" "quiet db1 db'" by auto
  then show ?case by (rule quiet_trans)
qed (simp add: quiet_refl)

lemma quiet_child_inserts:
  "insert_all insert_operation_output r1 db = Inr db' \<Longrightarrow> quiet db db'"
  "insert_all insert_event r3 db = Inr db' \<Longrightarrow> quiet db db'"
  "insert_all insert_event_history r4 db = Inr db' \<Longrightarrow> quiet db db'"
  "insert_all insert_stream r5 db = Inr db' \<Longrightarrow> quiet db db'"
  by (erule quiet_insert_all [rotated], rule quiet_views, erule views_inserts)+

lemma txn_quiet_child:
  assumes "quiet db0 db"
  shows "txn_quiet db0 (lift_db (insert_all insert_operation_output r1 db))"
    "txn_quiet db0 (lift_db (insert_all insert_event r3 db))"
    "txn_quiet db0 (lift_db (insert_all insert_event_history r4 db))"
    "txn_quiet db0 (lift_db (insert_all insert_stream r5 db))"
  by (rule txn_quiet_lift_db [OF assms], erule quiet_child_inserts)+

lemma fork_row_ok: "life_ok (fork_row v q k tm orig fork r)"
  by (simp add: life_ok_def fork_row_def)

lemma quiet_mark_forked: "quiet db (update_workflow_status (\<lambda>r. ws_workflow_uuid r \<in> S) mark_forked db)"
  by (rule quiet_update [OF forked_upd.guarded_update_axioms]) (simp add: mark_forked_def)

lemma quiet_fork_txn: "txn_quiet db (fork_txn origs forks steps v q k repl tm db)"
proof -
  have rows: "quiet db db1" if "insert_all insert_status_row
         (map (\<lambda>(orig, fork, r). fork_row v q k tm orig fork r) (zip origs (zip forks sts))) db = Inr db1" for sts db1
    by (rule quiet_insert_all [OF _ that]) (auto intro: quiet_insert fork_row_ok)
  have copy: "txn_quiet db (copy_fork_data repl ms d)" if "quiet db d" for ms d
    unfolding copy_fork_data_def
    by (intro txn_quiet_bind txn_quiet_child; (rule that | assumption))
  show ?thesis unfolding fork_txn_def Let_def
    by (intro txn_quiet_bind)
       (auto simp: lift_res_def lift_db_def quiet_refl rows intro: copy quiet_trans [OF _ quiet_mark_forked] split: sum.splits)
qed

lemma moves_fork: "moves db (snd (fork_workflow origs forks steps v q k repl tm db))"
proof -
  have "moves db (snd (engine_begin (fork_txn origs forks steps v q k repl tm) db))"
    by (rule moves_quiet_engine) (rule quiet_fork_txn)
  then show ?thesis by (auto simp: fork_workflow_def moves_refl split: sum.splits prod.splits)
qed

lemma quiet_import_one:
  assumes "life_ok (ex_workflow_status w)" "import_one w db = Inr db'"
  shows "quiet db db'"
proof -
  have ok: "life_ok ((ex_workflow_status w)\<lparr>ws_owner_xid := None\<rparr>)" using assms(1) by (simp add: life_ok_def)
  from assms(2) obtain d1 d2 d3 d4 where d: "insert_status_row ((ex_workflow_status w)\<lparr>ws_owner_xid := None\<rparr>) db = Inr d1"
    "insert_all insert_operation_output (ex_operation_outputs w) d1 = Inr d2"
    "insert_all insert_event (ex_workflow_events w) d2 = Inr d3"
    "insert_all insert_event_history (ex_workflow_events_history w) d3 = Inr d4"
    "insert_all insert_stream (ex_streams w) d4 = Inr db'"
    by (auto simp: import_one_def res_bind_Inr_iff)
  show ?thesis
    by (rule quiet_trans [OF quiet_insert [OF d(1) ok]], rule quiet_trans [OF quiet_child_inserts(1) [OF d(2)]],
        rule quiet_trans [OF quiet_child_inserts(2) [OF d(3)]], rule quiet_trans [OF quiet_child_inserts(3) [OF d(4)]],
        rule quiet_child_inserts(4) [OF d(5)])
qed

lemma moves_import:
  "(\<And>w. w \<in> set ws \<Longrightarrow> life_ok (ex_workflow_status w)) \<Longrightarrow> moves db (snd (import_workflow ws db))"
  unfolding import_workflow_def
  by (rule moves_quiet_engine, rule txn_quiet_lift_db [OF quiet_refl]) (auto intro: quiet_insert_all quiet_import_one)

section \<open>Operations on the catalogue\<close>

lemma catalogue_moves:
  "moves db (snd (create_schedule sc db))" "moves db (snd (upsert_schedule sc db))"
  "moves db (pause_schedule name db)" "moves db (resume_schedule name db)"
  "moves db (update_last_fired_at name iso_time db)" "moves db (delete_schedule name db)"
  "moves db (create_application_version u v tm db)" "moves db (update_application_version_timestamp v ts db)"
  "moves db (update_queue qn changes tm db)" "moves db (delete_queue qn db)"
  "moves db (snd (upsert_queue qn cc wc rm rp pe pq poll ue nid tm db))"
  by (rule moves_table, auto simp: create_schedule_def upsert_schedule_def upsert_schedule_txn_def engine_begin_def insert_schedule_def
      pause_schedule_def resume_schedule_def set_schedule_status_def update_schedules_def update_last_fired_at_def
      delete_schedule_def create_application_version_def update_application_version_timestamp_def
      update_queue_def delete_queue_def upsert_queue_def lift_db_def split: if_splits sum.splits txn_result.splits)+

lemma queue_table_inv:
  "sysdb_inv db \<Longrightarrow> distinct (map qr_name t) \<Longrightarrow> sysdb_inv (db\<lparr>queues := t\<rparr>)"
  by (simp add: sysdb_inv_def children_ok_def catalog_ok_def workflow_ids_def)

lemma set_fields_name: "qr_name (fold set_field changes r) = qr_name r"
proof (induction changes arbitrary: r)
  case (Cons c changes)
  then show ?case by (cases c) simp_all
qed simp

lemma queue_ops_inv:
  assumes "sysdb_inv db"
  shows "sysdb_inv (update_queue qn changes tm db)" "sysdb_inv (delete_queue qn db)"
    "sysdb_inv (snd (upsert_queue qn cc wc rm rp pe pq poll ue nid tm db))"
proof -
  from assms have d: "distinct (map qr_name (queues db))" by (simp add: sysdb_inv_def catalog_ok_def)
  show "sysdb_inv (update_queue qn changes tm db)"
    using assms d by (auto simp: update_queue_def map_key_sql_update set_fields_name intro!: queue_table_inv)
  show "sysdb_inv (delete_queue qn db)"
    using assms d by (auto simp: delete_queue_def intro!: queue_table_inv map_key_sql_delete_distinct)
  show "sysdb_inv (snd (upsert_queue qn cc wc rm rp pe pq poll ue nid tm db))"
    using assms d by (auto simp: upsert_queue_def map_key_sql_update intro!: queue_table_inv)
qed


section \<open>The system\<close>

text \<open>
  One transaction of any component, with any arguments, at any time. A status given to
  \<open>init_workflow\<close> is that of a workflow to be run, DELAYED if it is debounced, and outcomes are recorded as the execution does:
  a value with SUCCESS, an exception with ERROR. A cancellation with children, a batched garbage
  collection and a backfill are several such steps. Imported rows are taken to be those of a consistent database
  (\<open>life_ok\<close>), so that payloads of older versions, without completion times, are left out; an entry of a stream
  may have its offset from any earlier database.
\<close>

inductive sys_step :: "sysdb \<Rightarrow> sysdb \<Rightarrow> bool" where
  start_workflow: "workflow_is_active (wi_status w) \<Longrightarrow> wi_output w = None \<Longrightarrow> wi_error w = None \<Longrightarrow>
    (wi_is_debounced w \<longrightarrow> wi_status w = DELAYED) \<Longrightarrow> sys_step db (snd (init_workflow w m xid rec deq tm db))"
| record_success: "sys_step db (snd (update_workflow_outcome wid SUCCESS outp None tm db))"
| record_error: "sys_step db (snd (update_workflow_outcome wid ERROR None err tm db))"
| cancel_some: "sys_step db (cancel_batch tm ids db)"
| resume_some: "sys_step db (resume_workflows ids qn tm db)"
| set_delay: "sys_step db (snd (set_workflow_delay wid ds du ts tm db))"
| debounce: "sys_step db (snd (debounce_delayed_workflow wn qn0 d u i ser tm db))"
| set_attributes: "sys_step db (snd (update_workflow_attributes wid attrs tm db))"
| delete_some: "sys_step db (delete_workflows ids db)"
| collect_some: "sys_step db (delete_workflow_status (\<lambda>r. gc_filter cutoff r \<and> P r) db)"
| dequeue_some: "sys_step db (snd (start_queued_workflows q ex av key lc ts0 tm db))"
| release_delayed: "sys_step db (transition_delayed_workflows tm db)"
| clear_assignment: "sys_step db (clear_queue_assignment wid db)"
| fork_some: "sys_step db (snd (fork_workflow origs forks steps av0 qn pk repl tm db))"
| import_some: "(\<And>w. w \<in> set ws \<Longrightarrow> life_ok (ex_workflow_status w)) \<Longrightarrow> sys_step db (snd (import_workflow ws db))"
| checkpoint: "sys_step db (snd (record_operation_result ex0 res tm db))"
| checkpoint_result: "sys_step db (snd (snd (record_get_result wid outp err ser0 ctx cur db)))"
| checkpoint_child: "sys_step db (snd (record_child_workflow wid cid fid name db))"
| checkpoint_patch: "sys_step db (snd (patch ex0 wid fid name start tm db))"
| checkpoint_sleep: "sys_step db (snd (record_sleep cs sz ex0 wid fid secs start t1 tm t2 db))"
| send_some: "sys_step db (snd (send_bulk cs sz ex0 fresh tm ty wid0 fid0 name b start tm' ms db))"
| receive: "sys_step db (snd (recv_consume cs sz ex0 wid fid topic start tm db))"
| publish: "sys_step db (snd (set_event_from_workflow cs sz ex0 wid fid key0 v ty0 start tm db))"
| publish_step: "sys_step db (snd (set_event_from_step cs sz wid fid key0 v ty0 db))"
| read_published: "sys_step db (snd (get_event_consume cs sz ex0 wid key0 start caller tm db))"
| append_stream: "sys_step db (snd (engine_begin (write_stream_txn ex0 wid fid name key0 val sername start tm) db))"
| append_stream_step: "stream_insert_from snap wid fid key0 val sername db = Inr db' \<Longrightarrow> sys_step db db'"
| new_schedule: "sys_step db (snd (create_schedule sc db))"
| put_schedule: "sys_step db (snd (upsert_schedule sc db))"
| pause_schedule: "sys_step db (pause_schedule name db)"
| resume_schedule: "sys_step db (resume_schedule name db)"
| schedule_fired: "sys_step db (update_last_fired_at name iso_time db)"
| drop_schedule: "sys_step db (delete_schedule name db)"
| new_version: "sys_step db (create_application_version uuid name tm db)"
| promote_version: "sys_step db (update_application_version_timestamp name ts db)"
| configure_queue: "sys_step db (update_queue name changes tm db)"
| drop_queue: "sys_step db (delete_queue name db)"
| put_queue: "sys_step db (snd (upsert_queue name cc wc rm rp pe pq poll ue nid tm db))"


lemma step_inv: "sys_step db db' \<Longrightarrow> sysdb_inv db \<Longrightarrow> sysdb_inv db'"
proof (induction rule: sys_step.induct)
  case (checkpoint_patch db ex0 wid fid name start tm)
  then show ?case using patch_inv [of ex0 wid fid name start tm db] by (metis prod.collapse)
next
  case (checkpoint_sleep db cs sz ex0 wid fid secs start t1 tm t2)
  then show ?case using record_sleep_inv [of cs sz ex0 wid fid secs start t1 tm t2 db] by (metis prod.collapse)
next
  case (receive db cs sz ex0 wid fid topic start tm)
  then show ?case using recv_consume_inv [of cs sz ex0 wid fid topic start tm db] by (metis prod.collapse)
qed (auto intro: init_workflow_inv update_workflow_outcome_inv cancel_batch_inv resume_workflows_inv
    set_workflow_delay_inv debounce_delayed_workflow_inv update_workflow_attributes_inv delete_workflows_inv
    delete_workflow_status_inv start_queued_workflows_inv transition_delayed_inv clear_queue_assignment_inv
    fork_workflow_inv import_workflow_inv record_operation_result_inv record_get_result_inv record_child_workflow_inv
    send_bulk_inv set_event_from_workflow_inv set_event_from_step_inv get_event_consume_inv streaming.run_inv
    stream_insert_from_inv schedule_ops_inv queue_ops_inv)

lemma step_moves: "sys_step db db' \<Longrightarrow> sysdb_inv db \<Longrightarrow> moves db db'"
  by (induction rule: sys_step.induct)
     (auto intro: moves_init_workflow moves_success moves_error moves_cancel moves_resume moves_delay moves_debounce
      moves_attributes moves_delete moves_start moves_transition moves_clear moves_fork moves_import
      moves_views views_stream_insert_from catalogue_moves simp: delete_workflows_def)

abbreviation reachable :: "sysdb \<Rightarrow> bool" where
  "reachable db \<equiv> sys_step\<^sup>*\<^sup>* empty_sysdb db"

lemma empty_inv: "sysdb_inv empty_sysdb"
  by (simp add: sysdb_inv_def status_table_ok_def empty_sysdb_def children_ok_def catalog_ok_def child_ok_def
      dedup_unique_def)

lemma reachable_sysdb_inv: "reachable db \<Longrightarrow> sysdb_inv db"
  by (induction rule: rtranclp_induct) (auto intro: empty_inv step_inv)


section \<open>Operations of several transactions\<close>

abbreviation sys_steps :: "sysdb \<Rightarrow> sysdb \<Rightarrow> bool" where
  "sys_steps db db' \<equiv> sys_step\<^sup>*\<^sup>* db db'"

lemma cancel_loop_steps: "sys_steps db (cancel_loop clock k F V db)"
proof (induction clock k F V db rule: cancel_loop.induct)
  case (1 clock k F V db)
  show ?case
  proof (cases "F = []")
    case True
    then show ?thesis by (simp add: cancel_loop.simps)
  next
    case False
    note rest = "1.IH" [OF False refl refl refl]
    from False show ?thesis
      by (subst cancel_loop.simps) (use rest sys_step.cancel_some [of db "clock k" F] in \<open>simp add: Let_def
          converse_rtranclp_into_rtranclp\<close>)
  qed
qed

lemma cancel_workflows_steps: "sys_steps db (cancel_workflows clock ids b db)"
  by (auto simp: cancel_workflows_def intro: cancel_loop_steps sys_step.cancel_some r_into_rtranclp)

lemma garbage_collect_steps: "sys_steps db (snd (garbage_collect cutoff rows batch db))"
proof -
  have "sys_step db (delete_workflow_status (gc_filter c) db)" for c
    using sys_step.collect_some [of db c "\<lambda>_. True"] by simp
  then show ?thesis
    by (auto simp: garbage_collect_def Let_def gc_batches_eq intro: r_into_rtranclp split: sum.splits option.splits)
qed

lemma enqueue_scheduled_steps:
  "sys_steps db (snd (enqueue_scheduled_workflow sz tz wn sat wid name ctx cn qn tm db))"
proof -
  have "sys_step db (snd (init_workflow (scheduled_status wn wid name cn qn v i) None None False False tm db))" for v i
    by (rule sys_step.start_workflow) (simp_all add: scheduled_status_def workflow_is_active_def)
  then show ?thesis
    by (auto simp: enqueue_scheduled_workflow_def split: sum.splits prod.splits) (metis r_into_rtranclp snd_conv)+
qed

lemma trigger_schedule_steps: "sys_steps db (snd (trigger_schedule sz isofmt name tnow tm db))"
proof -
  have "sys_steps db d" if "enqueue_scheduled_workflow sz tz wn sat wid n ctx cn qn tm db = (x, d)" for tz wn sat wid n ctx cn qn x d
    using enqueue_scheduled_steps [of db sz tz wn sat wid n ctx cn qn tm] that by simp
  then show ?thesis
    by (auto simp: trigger_schedule_def Let_def split: option.splits sum.splits prod.splits)
qed

lemma backfill_loop_steps:
  assumes one: "\<And>t tm d. sys_steps d (snd (one t tm d))"
    and "backfill_loop nxt id_of one clock e t ids db = Some (x, db')"
  shows "sys_steps db db'"
proof -
  have "sys_steps db (snd y)" if "backfill_loop nxt id_of one clock e t ids db = Some y" for y
    using that one
  proof (induction nxt id_of one clock e t ids db y rule: backfill_loop.raw_induct [rotated, consumes 1])
    case (1 bl nxt id_of one clock e t ids db y)
    show ?case
    proof (cases "nxt t")
      case (Inl err)
      with "1.hyps" show ?thesis by auto
    next
      case (Inr n)
      show ?thesis
      proof (cases "n \<ge> e \<or> (\<exists>err d. one n (clock (length ids)) db = (Inl err, d))")
        case True
        with Inr "1.hyps" show ?thesis
          using "1.prems" [of db n "clock (length ids)"] by (auto split: if_splits sum.splits prod.splits)
      next
        case False
        then obtain u d where d: "one n (clock (length ids)) db = (Inr u, d)" "\<not> n \<ge> e"
          by (metis old.sum.exhaust prod.collapse)
        with Inr "1.hyps" have "bl nxt id_of one clock e n (ids @ [id_of n]) d = Some y" by simp
        from "1.IH" [OF this "1.prems"] have "sys_steps d (snd y)" .
        moreover have "sys_steps db d" using "1.prems" [of db n "clock (length ids)"] d by simp
        ultimately show ?thesis by simp
      qed
    qed
  qed
  from this [OF assms(2)] show ?thesis by simp
qed

lemma backfill_schedule_steps:
  assumes "backfill_schedule croniter sz isofmt clock name start e db = Some (x, db')"
  shows "sys_steps db db'"
proof -
  have "sys_steps d (snd (backfill_one sz isofmt s ctx t tm d))" for s ctx t tm d
    by (simp add: backfill_one_def enqueue_scheduled_steps)
  from backfill_loop_steps [OF this] assms show ?thesis
    by (auto simp: backfill_schedule_def split: option.splits sum.splits)
qed


section \<open>Every reachable database\<close>

lemma reachable_rows:
  assumes "reachable db" "status_row db wid = Some r"
  shows "life_ok r"
  using assms
proof (induction arbitrary: wid r rule: rtranclp_induct)
  case base
  then show ?case by (simp add: status_row_def empty_sysdb_def)
next
  case (step db db')
  from step_moves [OF step.hyps(2) reachable_sysdb_inv [OF step.hyps(1)]] step.prems
  have "case status_row db wid of None \<Rightarrow> life_ok r | Some r0 \<Rightarrow> life_step (life r0) (life r)" by (simp add: moves_def)
  with step.IH show ?case by (auto intro: life_ok_step split: option.splits)
qed

text \<open>
  C3: Whatever transactions the components execute, in whatever order and interleaving, every
  database reached from the empty one satisfies all constraints of the schema, and every workflow
  row is consistent: it has a completion time exactly when it is SUCCESS, ERROR or CANCELLED, an output
  only when SUCCESS, an error only when ERROR, and holds a deduplication ID only while it is active, if it
  is debounced only while it is DELAYED.
\<close>

theorem reachable_consistent:
  assumes "sys_step\<^sup>*\<^sup>* empty_sysdb db"
  shows "sysdb_inv db
    \<and> (\<forall>r \<in> set (workflow_status db).
        (ws_completed_at r \<noteq> None \<longleftrightarrow> ws_status r \<in> {SUCCESS, ERROR, CANCELLED})
      \<and> (ws_output r \<noteq> None \<longrightarrow> ws_status r = SUCCESS) \<and> (ws_error r \<noteq> None \<longrightarrow> ws_status r = ERROR)
      \<and> (ws_deduplication_id r \<noteq> None \<longrightarrow> workflow_is_active (ws_status r))
      \<and> (ws_is_debounced r \<and> ws_deduplication_id r \<noteq> None \<longrightarrow> ws_status r = DELAYED))"
proof -
  have inv: "sysdb_inv db" by (rule reachable_sysdb_inv [OF assms])
  then have "life_ok r" if "r \<in> set (workflow_status db)" for r
    using that reachable_rows [OF assms, of "ws_workflow_uuid r" r] by (simp add: sysdb_inv_def status_row_Some_iff)
  with inv show ?thesis by (simp add: life_ok_def)
qed

definition example_started :: sysdb where
  "example_started = snd (init_workflow (example_status ''a'') None (Some ''x0'') False False 10 empty_sysdb)"

definition example_finished :: sysdb where
  "example_finished = snd (update_workflow_outcome ''a'' SUCCESS (Some ''1'') None 20 example_started)"

lemma example_started_eq: "example_started = example_db [''a'']"
  by (simp add: example_started_def init_workflow_def engine_begin_def insert_workflow_status_def upsert_status_row_def
      insert_status_row_def workflow_ids_def empty_sysdb_def status_row_def name_conflict_def example_db_def)
     (simp add: example_status_def new_status_row_def dedup_key_def)

lemma example_reachable: "reachable example_started" "reachable example_finished"
proof -
  have "sys_step empty_sysdb example_started" unfolding example_started_def
    by (rule sys_step.start_workflow) (simp_all add: example_status_def workflow_is_active_def)
  then show r: "reachable example_started" ..
  have "sys_step example_started example_finished" unfolding example_finished_def by (rule sys_step.record_success)
  with r show "reachable example_finished" by simp
qed

lemma example_finished_row:
  "status_row example_finished ''a'' = Some (outcome_effect SUCCESS (Some ''1'') None 20
     (new_status_row (example_status ''a'') (Some ''x0'') 10))"
proof -
  have "status_table_ok (workflow_status (example_db [''a'']))" using example_inv [of "[''a'']"] by (simp add: sysdb_inv_def)
  from update_workflow_outcome_eq [OF this example_row] outcome_recorded [OF example_row]
  show ?thesis by (simp add: example_finished_def example_started_eq) (simp add: new_status_row_def example_status_def)
qed

theorem reachable_consistent_witness:
  "sysdb_inv example_finished \<and> (\<exists>r \<in> set (workflow_status example_finished). ws_status r = SUCCESS
     \<and> ws_completed_at r \<noteq> None \<and> ws_error r = None \<and> ws_deduplication_id r = None)"
proof -
  let ?r = "outcome_effect SUCCESS (Some ''1'') None 20 (new_status_row (example_status ''a'') (Some ''x0'') 10)"
  note c = reachable_consistent [OF example_reachable(2)]
  have "?r \<in> set (workflow_status example_finished)" using status_row_SomeD [OF example_finished_row] by simp
  with c have "(ws_completed_at ?r \<noteq> None \<longleftrightarrow> ws_status ?r \<in> {SUCCESS, ERROR, CANCELLED})
      \<and> (ws_error ?r \<noteq> None \<longrightarrow> ws_status ?r = ERROR)
      \<and> (ws_deduplication_id ?r \<noteq> None \<longrightarrow> workflow_is_active (ws_status ?r))" by blast
  moreover have "ws_status ?r = SUCCESS" by (simp add: outcome_effect_def)
  ultimately show ?thesis using c \<open>?r \<in> _\<close> by (intro conjI bexI [of _ ?r]) (auto simp: workflow_is_active_def)
qed

text \<open>
  C4: Every transaction of every component moves each workflow only along the life cycle
  \<open>life_step\<close>. In particular a workflow that has completed stays completed as long as its row exists, a
  cancelled one is only ever resumed (it gets no outcome), one that is off the queues after too many
  recoveries does not run by itself, and a workflow is PENDING only after it was ENQUEUED or started so.
\<close>

theorem workflow_lifecycle:
  assumes "sys_step\<^sup>*\<^sup>* empty_sysdb db" "sys_step db db'"
    and "status_row db wid = Some r" "status_row db' wid = Some r'"
  shows "life_step (life r) (life r')
    \<and> (ws_status r \<in> {SUCCESS, ERROR} \<longrightarrow> ws_status r' \<in> {SUCCESS, ERROR})
    \<and> (ws_status r = CANCELLED \<longrightarrow> ws_status r' \<in> {CANCELLED, ENQUEUED} \<and> ws_output r' = None \<and> ws_error r' = None)
    \<and> (ws_status r = MAX_RECOVERY_ATTEMPTS_EXCEEDED \<longrightarrow> ws_status r' \<noteq> PENDING \<and> ws_status r' \<noteq> DELAYED)
    \<and> (ws_status r' = PENDING \<longrightarrow> ws_status r \<in> {PENDING, ENQUEUED})"
proof -
  have step: "life_step (life r) (life r')"
    by (rule movesD [OF step_moves [OF assms(2) reachable_sysdb_inv [OF assms(1)]] assms(3,4)])
  have "life_ok r" by (rule reachable_rows [OF assms(1,3)])
  then have "ws_status r = CANCELLED \<longrightarrow> ws_output r = None \<and> ws_error r = None"
    by (auto simp: life_ok_def)
  with step show ?thesis by (elim life_stepE) (simp_all add: life_step.intros)
qed

theorem workflow_lifecycle_witness:
  "\<exists>r r'. status_row example_started ''a'' = Some r \<and> ws_status r = PENDING
     \<and> status_row example_finished ''a'' = Some r' \<and> ws_status r' = SUCCESS \<and> life_step (life r) (life r')"
proof -
  have "sys_step example_started example_finished" unfolding example_finished_def by (rule sys_step.record_success)
  note l = workflow_lifecycle [OF example_reachable(1) this example_row [folded example_started_eq] example_finished_row]
  have "ws_status (new_status_row (example_status ''a'') (Some ''x0'') 10) = PENDING"
    by (simp add: new_status_row_def example_status_def)
  with l show ?thesis using example_row [folded example_started_eq] example_finished_row
    by (auto simp: outcome_effect_def)
qed

end
