(* ===== verification/DBOS_Client.thy ===== *)
theory DBOS_Client
  imports DBOS_Reachable DBOS_Payloads
begin

text \<open>
  The client of an application (\<^verbatim>\<open>dbos/_client.py\<close>, \<^verbatim>\<open>dbos/_workflow_commands.py\<close>): a process that is not
  part of it and works on the system database only. It enqueues workflows, registers queues and
  schedules, deletes and forks workflows, and follows streams. \<open>cs\<close> and \<open>sz\<close> are the codecs and the
  serializer, \<open>uuid\<close> a generated ID, \<open>time_sec\<close> a reading of \<^verbatim>\<open>time.time()\<close> and \<open>tm\<close> the database's clock. The
  reader of a stream yields exactly the values that were written.
\<close>

section \<open>Enqueueing\<close>

text \<open>An absent key of the options is \<open>None\<close>.\<close>

record EnqueueOptions =
  ce_workflow_name :: string
  ce_queue_name :: string
  ce_workflow_id :: "string option"
  ce_app_version :: "string option"
  ce_workflow_timeout :: "rat option"
  ce_delay_seconds :: "rat option"
  ce_deduplication_id :: "string option"
  ce_priority :: "int option"
  ce_queue_partition_key :: "string option"
  ce_authenticated_user :: "string option"
  ce_authenticated_roles :: "string list option"
  ce_serialization_type :: "WorkflowSerializationFormat option"
  ce_class_name :: "string option"
  ce_instance_name :: "string option"
  ce_attributes :: "attributes option"

definition validate_enqueue_options :: "EnqueueOptions \<Rightarrow> unit res" where
  "validate_enqueue_options opts = (case ce_priority opts of
     Some p \<Rightarrow> if p < MinPriority \<or> p > MaxPriority
       then Inl (DBOSException (''Invalid priority '' @ str_int p @ ''. Priority must be between '' @ str_int MinPriority
              @ ''~'' @ str_int MaxPriority @ ''.''))
       else if ce_workflow_id opts \<noteq> None then validate_workflow_id (ce_workflow_id opts) else Inr ()
   | None \<Rightarrow> if ce_workflow_id opts \<noteq> None then validate_workflow_id (ce_workflow_id opts) else Inr ())"

definition enqueue_id :: "string \<Rightarrow> EnqueueOptions \<Rightarrow> string" where
  "enqueue_id uuid opts = (case ce_workflow_id opts of Some w \<Rightarrow> w | None \<Rightarrow> uuid)"

definition delay_until :: "rat \<Rightarrow> EnqueueOptions \<Rightarrow> int option" where
  "delay_until time_sec opts = map_option (\<lambda>d. py_int ((time_sec + d) * 1000)) (ce_delay_seconds opts)"

definition enqueue_status ::
  "string \<Rightarrow> rat \<Rightarrow> string option \<Rightarrow> string \<Rightarrow> string \<Rightarrow> EnqueueOptions \<Rightarrow> WorkflowStatusInternal" where
  "enqueue_status uuid time_sec roles inputs serialization opts = \<lparr>
     wi_workflow_uuid = enqueue_id uuid opts,
     wi_status = (if delay_until time_sec opts \<noteq> None then DELAYED else ENQUEUED),
     wi_name = ce_workflow_name opts, wi_class_name = ce_class_name opts, wi_config_name = ce_instance_name opts,
     wi_authenticated_user = ce_authenticated_user opts, wi_assumed_role = None,
     wi_authenticated_roles = roles, wi_output = None, wi_error = None, wi_created_at = None,
     wi_updated_at = None, wi_queue_name = Some (ce_queue_name opts), wi_executor_id = None,
     wi_app_version = ce_app_version opts, wi_app_id = None, wi_recovery_attempts = None,
     wi_workflow_timeout_ms = map_option (\<lambda>t. py_int (t * 1000)) (ce_workflow_timeout opts),
     wi_workflow_deadline_epoch_ms = None, wi_deduplication_id = ce_deduplication_id opts,
     wi_priority = (case ce_priority opts of Some p \<Rightarrow> p | None \<Rightarrow> 0), wi_inputs = Some inputs,
     wi_queue_partition_key = ce_queue_partition_key opts, wi_forked_from = None,
     wi_parent_workflow_id = None, wi_started_at_epoch_ms = None, wi_serialization = Some serialization,
     wi_owner_xid = None, wi_delay_until_epoch_ms = delay_until time_sec opts,
     wi_attributes = ce_attributes opts, wi_schedule_name = None,
     wi_debounce_deadline_epoch_ms = None, wi_is_debounced = False\<rparr>"

definition build_enqueue_status ::
  "codecs \<Rightarrow> Serializer \<Rightarrow> string \<Rightarrow> rat \<Rightarrow> EnqueueOptions \<Rightarrow> pyval list \<Rightarrow> pyval \<Rightarrow> WorkflowStatusInternal res" where
  "build_enqueue_status cs sz uuid time_sec opts args kwargs =
     res_bind (validate_enqueue_options opts) (\<lambda>_.
     res_bind (case ce_authenticated_roles opts of
         Some (r # rs) \<Rightarrow> res_bind (json_dumps cs (PList (map PStr (r # rs)))) (\<lambda>t. Inr (Some t))
       | _ \<Rightarrow> Inr None) (\<lambda>roles.
     res_bind (serialize_args cs args kwargs (ce_serialization_type opts) sz) (\<lambda>(inputs, serialization).
       Inr (enqueue_status uuid time_sec roles inputs serialization opts))))"

definition init_built :: "WorkflowStatusInternal res \<Rightarrow> int \<Rightarrow> sysdb \<Rightarrow> string res \<times> sysdb" where
  "init_built built tm db = (case built of
     Inl e \<Rightarrow> (Inl e, db)
   | Inr status \<Rightarrow> (case init_workflow status None None False False tm db of
       (Inl e, db') \<Rightarrow> (Inl e, db')
     | (Inr _, db') \<Rightarrow> (Inr (wi_workflow_uuid status), db')))"

text \<open>The result of an enqueue is the ID in the handle.\<close>

definition client_enqueue ::
  "codecs \<Rightarrow> Serializer \<Rightarrow> string \<Rightarrow> rat \<Rightarrow> int \<Rightarrow> EnqueueOptions \<Rightarrow> pyval list \<Rightarrow> pyval \<Rightarrow> sysdb \<Rightarrow> string res \<times> sysdb" where
  "client_enqueue cs sz uuid time_sec tm opts args kwargs db =
     init_built (build_enqueue_status cs sz uuid time_sec opts args kwargs) tm db"

text \<open>In a transaction of the caller.\<close>

definition enqueue_in_transaction ::
  "codecs \<Rightarrow> Serializer \<Rightarrow> string \<Rightarrow> rat \<Rightarrow> int \<Rightarrow> EnqueueOptions \<Rightarrow> pyval list \<Rightarrow> pyval \<Rightarrow> sysdb \<Rightarrow> string txn_result" where
  "enqueue_in_transaction cs sz uuid time_sec tm opts args kwargs db =
     txn_bind (lift_res (build_enqueue_status cs sz uuid time_sec opts args kwargs) db) (\<lambda>status db1.
     txn_bind (init_workflow_with_connection status None None tm db1) (\<lambda>_ db2.
       Done (wi_workflow_uuid status) db2))"

definition enqueue_debounced ::
  "codecs \<Rightarrow> Serializer \<Rightarrow> string \<Rightarrow> rat \<Rightarrow> int \<Rightarrow> EnqueueOptions \<Rightarrow> int option \<Rightarrow> pyval list \<Rightarrow> pyval \<Rightarrow> sysdb
   \<Rightarrow> string res \<times> sysdb" where
  "enqueue_debounced cs sz uuid time_sec tm opts deadline args kwargs db =
     init_built (res_bind (build_enqueue_status cs sz uuid time_sec opts args kwargs) (\<lambda>status.
       Inr (status\<lparr>wi_debounce_deadline_epoch_ms := deadline, wi_is_debounced := True\<rparr>))) tm db"

section \<open>Queues and workflows\<close>

datatype QueueConflictResolution = Update_if_latest_version | Always_update | Never_update

definition client_register_queue ::
  "string \<Rightarrow> int option \<Rightarrow> limiter_arg \<Rightarrow> int option \<Rightarrow> bool \<Rightarrow> bool \<Rightarrow> rat \<Rightarrow> QueueConflictResolution
   \<Rightarrow> string \<Rightarrow> int \<Rightarrow> sysdb \<Rightarrow> Queue res \<times> sysdb" where
  "client_register_queue name concurrency limiter worker_concurrency priority_enabled partition_queue polling
     on_conflict uuid tm db =
     (case validate_queue concurrency worker_concurrency polling limiter of
        Inl e \<Rightarrow> (Inl e, db)
      | Inr _ \<Rightarrow>
          if on_conflict = Update_if_latest_version
          then (Inl (DBOSException ''DBOSClient.register_queue does not support on_conflict=update_if_latest_version''), db)
          else
            let (_, db1) = upsert_queue name concurrency worker_concurrency (map_option rl_limit (limiter_of limiter))
                  (map_option rl_period (limiter_of limiter)) priority_enabled partition_queue polling
                  (on_conflict = Always_update) uuid tm db
            in (case get_queue name db1 of
                  Inl e \<Rightarrow> (Inl e, db1)
                | Inr None \<Rightarrow> (Inl AssertionError, db1)
                | Inr (Some q) \<Rightarrow> (Inr q, db1)))"

text \<open>\<^verbatim>\<open>get_workflow\<close> searches by ID and takes the first.\<close>

definition search_by_id :: "string \<Rightarrow> workflow_search" where
  "search_by_id wid = \<lparr>wq_workflow_ids = [wid], wq_status = [], wq_start_time = None, wq_end_time = None,
     wq_completed_after = None, wq_completed_before = None, wq_dequeued_after = None, wq_dequeued_before = None,
     wq_name = [], wq_app_version = [], wq_forked_from = [], wq_parent_workflow_id = [], wq_user = [],
     wq_queue_name = [], wq_workflow_id_prefix = [], wq_executor_id = [], wq_schedule_name = [],
     wq_attributes = None, wq_queues_only = False, wq_was_forked_from = None, wq_has_parent = None,
     wq_limit = 0, wq_offset = 0, wq_sort_desc = False\<rparr>"

definition get_workflow :: "string \<Rightarrow> sysdb \<Rightarrow> workflow_status_row option" where
  "get_workflow wid db = fetchone (list_workflows (search_by_id wid) db)"

definition client_get_status :: "string \<Rightarrow> sysdb \<Rightarrow> workflow_status_row res" where
  "client_get_status wid db = (case get_workflow wid db of
     None \<Rightarrow> Inl (DBOSNonExistentWorkflowError ''target'' wid) | Some r \<Rightarrow> Inr r)"

definition client_retrieve_workflow :: "string \<Rightarrow> sysdb \<Rightarrow> string res" where
  "client_retrieve_workflow wid db = (case get_workflow wid db of
     None \<Rightarrow> Inl (DBOSNonExistentWorkflowError ''target'' wid) | Some _ \<Rightarrow> Inr wid)"

text \<open>\<^verbatim>\<open>await_first_workflow_id\<close> polls the databases of the last argument.\<close>

fun await_first_workflow_id :: "string list \<Rightarrow> sysdb list \<Rightarrow> string res option" where
  "await_first_workflow_id ids [] = None"
| "await_first_workflow_id ids (db # dbs) = (case check_first_workflow_id ids db of
     Inl e \<Rightarrow> Some (Inl e)
   | Inr (Some wid) \<Rightarrow> Some (Inr wid)
   | Inr None \<Rightarrow> await_first_workflow_id ids dbs)"

definition wait_first :: "string list \<Rightarrow> sysdb list \<Rightarrow> string res option" where
  "wait_first handles dbs =
     (if handles = [] then Some (Inl ValueError)
      else if card (set handles) \<noteq> length handles then Some (Inl ValueError)
      else await_first_workflow_id handles dbs)"

text \<open>\<open>set_iter\<close> is the order in which the set of children is iterated.\<close>

definition client_delete_workflows ::
  "(string set \<Rightarrow> string list) \<Rightarrow> string list \<Rightarrow> bool \<Rightarrow> sysdb \<Rightarrow> sysdb" where
  "client_delete_workflows set_iter ids delete_children db =
     (let all_ids = ids @ (if delete_children
            then concat (map (\<lambda>wid. set_iter (get_workflow_children wid db)) ids) else [])
      in delete_workflows all_ids db)"

text \<open>The fork takes an ID that was assigned in the context, which is used up, or a new one.\<close>

definition fork_workflow_command ::
  "string \<Rightarrow> int \<Rightarrow> string option \<Rightarrow> string option \<Rightarrow> string option \<Rightarrow> (string \<times> string) list
   \<Rightarrow> string \<Rightarrow> int \<Rightarrow> DBOSContext option \<Rightarrow> sysdb \<Rightarrow> string res \<times> DBOSContext option \<times> sysdb" where
  "fork_workflow_command wid first_step app_version queue_name partition_key repl uuid tm ctx db =
     (let (forked, ctx') = (case ctx of
            Some c \<Rightarrow> if length (cx_id_assigned_for_next_workflow c) > 0
              then (cx_id_assigned_for_next_workflow c, Some (c\<lparr>cx_id_assigned_for_next_workflow := []\<rparr>))
              else (uuid, ctx)
          | None \<Rightarrow> (uuid, ctx))
      in case fork_workflow [wid] [forked] [first_step] app_version queue_name partition_key repl tm db of
           (Inl e, db') \<Rightarrow> (Inl e, ctx', db')
         | (Inr _, db') \<Rightarrow> (Inr forked, ctx', db'))"

definition set_latest_application_version :: "string \<Rightarrow> rat \<Rightarrow> sysdb \<Rightarrow> sysdb" where
  "set_latest_application_version name time_sec db =
     update_application_version_timestamp name (py_int (time_sec * 1000)) db"

section \<open>Schedules\<close>

text \<open>
  One entry of \<^verbatim>\<open>apply_schedules\<close>; a required key may be missing. \<open>valid_cron\<close> is \<^verbatim>\<open>croniter.is_valid\<close> and
  \<open>valid_zone\<close> whether \<^verbatim>\<open>ZoneInfo\<close> knows the time zone.
\<close>

record ClientScheduleInput =
  si_schedule_name :: "string option"
  si_workflow_name :: "string option"
  si_schedule :: "string option"
  si_context :: pyval
  si_workflow_class_name :: "string option"
  si_automatic_backfill :: bool
  si_cron_timezone :: "string option"
  si_queue_name :: "string option"

definition quoted :: "string \<Rightarrow> string" where
  "quoted s = [CHR 0x27] @ s @ [CHR 0x27]"

definition missing_field :: "nat \<Rightarrow> string \<Rightarrow> dbos_error" where
  "missing_field i f = DBOSException (''Schedule entry '' @ str_int (int i) @ '' is missing required field '' @ quoted f)"

definition validate_cron :: "(string \<Rightarrow> bool) \<Rightarrow> (string \<Rightarrow> bool) \<Rightarrow> string \<Rightarrow> string option \<Rightarrow> unit res" where
  "validate_cron valid_cron valid_zone cron tz =
     (if \<not> valid_cron cron then Inl (DBOSException (''Invalid cron schedule: '' @ quoted cron))
      else case tz of
        None \<Rightarrow> Inr ()
      | Some z \<Rightarrow> if valid_zone z then Inr () else Inl (DBOSException (''Invalid timezone: '' @ quoted z)))"

definition client_schedule ::
  "(string \<Rightarrow> bool) \<Rightarrow> (string \<Rightarrow> bool) \<Rightarrow> Serializer \<Rightarrow> string \<Rightarrow> string \<Rightarrow> string \<Rightarrow> string \<Rightarrow> ClientScheduleInput
   \<Rightarrow> workflow_schedule_row res" where
  "client_schedule valid_cron valid_zone sz uuid name wname cron e =
     res_bind (validate_cron valid_cron valid_zone cron (si_cron_timezone e)) (\<lambda>_.
     res_bind (ser_serialize sz (si_context e)) (\<lambda>ctx.
       Inr \<lparr>sc_schedule_id = uuid, sc_schedule_name = name, sc_workflow_name = wname,
            sc_workflow_class_name = si_workflow_class_name e, sc_schedule = cron, sc_status = ''ACTIVE'',
            sc_context = ctx, sc_last_fired_at = None, sc_automatic_backfill = si_automatic_backfill e,
            sc_cron_timezone = si_cron_timezone e, sc_queue_name = si_queue_name e\<rparr>))"

text \<open>The required arguments of \<^verbatim>\<open>create_schedule\<close> are given.\<close>

definition client_create_schedule ::
  "(string \<Rightarrow> bool) \<Rightarrow> (string \<Rightarrow> bool) \<Rightarrow> Serializer \<Rightarrow> string \<Rightarrow> string \<Rightarrow> string \<Rightarrow> string \<Rightarrow> ClientScheduleInput \<Rightarrow> sysdb
   \<Rightarrow> unit res \<times> sysdb" where
  "client_create_schedule valid_cron valid_zone sz uuid name wname cron e db =
     (case client_schedule valid_cron valid_zone sz uuid name wname cron e of
        Inl err \<Rightarrow> (Inl err, db) | Inr s \<Rightarrow> create_schedule s db)"

definition schedule_entry ::
  "(string \<Rightarrow> bool) \<Rightarrow> (string \<Rightarrow> bool) \<Rightarrow> Serializer \<Rightarrow> (nat \<Rightarrow> string) \<Rightarrow> nat \<times> ClientScheduleInput \<Rightarrow> workflow_schedule_row res" where
  "schedule_entry valid_cron valid_zone sz uuids ie = (case ie of (i, e) \<Rightarrow>
     (case si_schedule_name e of
        None \<Rightarrow> Inl (missing_field i ''schedule_name'')
      | Some name \<Rightarrow> (case si_workflow_name e of
          None \<Rightarrow> Inl (missing_field i ''workflow_name'')
        | Some wname \<Rightarrow> (case si_schedule e of
            None \<Rightarrow> Inl (missing_field i ''schedule'')
          | Some cron \<Rightarrow> client_schedule valid_cron valid_zone sz (uuids i) name wname cron e))))"

fun upsert_schedules :: "workflow_schedule_row list \<Rightarrow> sysdb \<Rightarrow> unit txn_result" where
  "upsert_schedules [] db = Done () db"
| "upsert_schedules (s # ss) db = txn_bind (upsert_schedule_txn s db) (\<lambda>_ db1. upsert_schedules ss db1)"

definition client_apply_schedules ::
  "(string \<Rightarrow> bool) \<Rightarrow> (string \<Rightarrow> bool) \<Rightarrow> Serializer \<Rightarrow> (nat \<Rightarrow> string) \<Rightarrow> ClientScheduleInput list \<Rightarrow> sysdb
   \<Rightarrow> unit res \<times> sysdb" where
  "client_apply_schedules valid_cron valid_zone sz uuids entries db =
     (case res_map (schedule_entry valid_cron valid_zone sz uuids) (enumerate 0 entries) of
        Inl e \<Rightarrow> (Inl e, db)
      | Inr rows \<Rightarrow> engine_begin (upsert_schedules rows) db)"

section \<open>Following a stream\<close>

text \<open>
  The generator \<^verbatim>\<open>read_stream\<close>. Each round reads the database twice, for the next value and for the
  status of the workflow, with other processes at work in between; the argument holds both databases
  of every round. The result: the values yielded, and how the generator ended (\<open>None\<close>: it is still
  reading). Every \<^verbatim>\<open>ValueError\<close> of the read counts as a value that is not there yet.
\<close>

fun client_read_stream ::
  "codecs \<Rightarrow> Serializer \<Rightarrow> string \<Rightarrow> string \<Rightarrow> int \<Rightarrow> bool \<Rightarrow> (sysdb \<times> sysdb) list \<Rightarrow> pyval list \<times> unit res option" where
  "client_read_stream cs sz wid key off final_read [] = ([], None)"
| "client_read_stream cs sz wid key off final_read ((db1, db2) # dbs) =
     (case read_stream cs sz wid key off db1 of
        Inr v \<Rightarrow>
          if v = PStr dbos_stream_closed_sentinel then ([], Some (Inr ()))
          else (let (vs, r) = client_read_stream cs sz wid key (off + 1) final_read dbs in (v # vs, r))
      | Inl e \<Rightarrow>
          if e \<noteq> ValueError then ([], Some (Inl e))
          else if final_read then ([], Some (Inr ()))
          else (case get_workflow wid db2 of
              None \<Rightarrow> ([], Some (Inr ()))
            | Some r \<Rightarrow>
                if \<not> workflow_is_active (ws_status r)
                then client_read_stream cs sz wid key off True dbs
                else client_read_stream cs sz wid key off False dbs))"

section \<open>A reader gets the whole stream\<close>

lemma get_workflow_row:
  assumes "sysdb_inv db"
  shows "get_workflow wid db = status_row db wid"
proof -
  let ?rs = "filter (\<lambda>r. ws_workflow_uuid r = wid) (workflow_status db)"
  have m: "search_matches (search_by_id wid) = (\<lambda>r. ws_workflow_uuid r = wid)"
    by (simp add: search_matches_def search_by_id_def in_filter_def from_filter_def upto_filter_def sql_in_def fun_eq_iff)
  have "?rs = [] \<or> (\<exists>r. ?rs = [r])"
  proof (cases "status_row db wid")
    case None
    then have "?rs = []" by (simp add: status_row_def)
    then show ?thesis ..
  next
    case (Some r)
    then have "?rs = [r]" using status_row_SomeD [OF Some] assms filter_key_unique [of ws_workflow_uuid "workflow_status db" r]
      by (auto simp: sysdb_inv_def status_table_ok_def)
    then show ?thesis by blast
  qed
  then show ?thesis
    by (auto simp: get_workflow_def list_workflows_def m status_row_def) (simp_all add: search_by_id_def)
qed

definition entry_value :: "codecs \<Rightarrow> Serializer \<Rightarrow> stream_row \<Rightarrow> pyval res" where
  "entry_value cs sz r = deserialize_value cs (Some (st_value r)) (st_serialization r) sz"

text \<open>
  What a reader may see of a stream whose final content is that of \<open>D\<close>: a beginning of it, while the
  workflow is active, and all of it once the workflow was seen not to be.
\<close>

definition partial_stream :: "string \<Rightarrow> string \<Rightarrow> sysdb \<Rightarrow> sysdb \<Rightarrow> bool" where
  "partial_stream wid key D db \<longleftrightarrow> stream_contiguous wid key db
     \<and> stream_rows wid key db = take (length (stream_rows wid key db)) (stream_rows wid key D)"

definition ended :: "string \<Rightarrow> sysdb \<Rightarrow> bool" where
  "ended wid db \<longleftrightarrow> (case get_workflow wid db of None \<Rightarrow> False | Some r \<Rightarrow> \<not> workflow_is_active (ws_status r))"

fun rounds_of :: "string \<Rightarrow> string \<Rightarrow> sysdb \<Rightarrow> bool \<Rightarrow> (sysdb \<times> sysdb) list \<Rightarrow> bool" where
  "rounds_of wid key D e [] = True"
| "rounds_of wid key D e ((db1, db2) # dbs) \<longleftrightarrow> partial_stream wid key D db1
     \<and> (e \<longrightarrow> stream_rows wid key db1 = stream_rows wid key D)
     \<and> get_workflow wid db2 \<noteq> None \<and> rounds_of wid key D (e \<or> ended wid db2) dbs"

lemma partial_read:
  assumes "partial_stream wid key D db" "res_map (entry_value cs sz) (stream_rows wid key D) = Inr vs"
  shows "read_stream cs sz wid key (int i) db
    = (if i < length (stream_rows wid key db) then Inr (vs ! i) else Inl ValueError)"
    "length (stream_rows wid key db) \<le> length vs"
proof -
  let ?rs = "stream_rows wid key db" and ?RS = "stream_rows wid key D"
  from assms(2) have len: "length vs = length ?RS" and val: "\<And>j. j < length ?RS \<Longrightarrow> entry_value cs sz (?RS ! j) = Inr (vs ! j)"
    by (auto simp: res_map_Inr_iff)
  from assms(1) have cont: "stream_contiguous wid key db" and eq: "?rs = take (length ?rs) ?RS"
    by (simp_all add: partial_stream_def)
  show le: "length ?rs \<le> length vs" using arg_cong [OF eq, of length] len by simp
  have "?rs ! i = ?RS ! i" if "i < length ?rs" using that by (subst eq) simp
  then show "read_stream cs sz wid key (int i) db = (if i < length ?rs then Inr (vs ! i) else Inl ValueError)"
    using val [of i] le len by (simp add: read_stream_nth [OF cont] entry_value_def)
qed

abbreviation upto_close :: "pyval list \<Rightarrow> pyval list" where
  "upto_close vs \<equiv> takeWhile (\<lambda>v. v \<noteq> PStr dbos_stream_closed_sentinel) vs"

lemma read_stream_prefix:
  assumes "rounds_of wid key D e rs" "b \<longrightarrow> e" and vs: "res_map (entry_value cs sz) (stream_rows wid key D) = Inr vs"
    and "client_read_stream cs sz wid key (int i) b rs = (ys, r)"
  shows "ys = take (length ys) (upto_close (drop i vs)) \<and> (r \<noteq> None \<longrightarrow> r = Some (Inr ()) \<and> ys = upto_close (drop i vs))"
  using assms(1,2,4)
proof (induction rs arbitrary: i e b ys r)
  case Nil
  then show ?case by simp
next
  case (Cons x rs)
  obtain db1 db2 where x: "x = (db1, db2)" by (cases x)
  let ?n = "length (stream_rows wid key db1)"
  from Cons.prems(1) have part: "partial_stream wid key D db1"
    and full: "e \<Longrightarrow> stream_rows wid key db1 = stream_rows wid key D"
    and wf: "get_workflow wid db2 \<noteq> None" and rest: "rounds_of wid key D (e \<or> ended wid db2) rs"
    by (simp_all add: x)
  note read = partial_read [OF part vs]
  show ?case
  proof (cases "i < ?n")
    case True
    with read(2) have d: "drop i vs = vs ! i # drop (Suc i) vs" by (simp add: Cons_nth_drop_Suc)
    show ?thesis
    proof (cases "vs ! i = PStr dbos_stream_closed_sentinel")
      case True
      with Cons.prems(3) \<open>i < ?n\<close> d show ?thesis by (auto simp: x read(1))
    next
      case False
      obtain ys' r' where rec: "client_read_stream cs sz wid key (int (Suc i)) b rs = (ys', r')" by fastforce
      with Cons.prems(3) \<open>i < ?n\<close> False have ys: "ys = vs ! i # ys'" "r = r'"
        by (auto simp: x read(1) add.commute)
      from Cons.IH [OF rest _ rec] Cons.prems(2) ys False d show ?thesis by simp
    qed
  next
    case False
    show ?thesis
    proof (cases b)
      case True
      with Cons.prems(2) full have "?n = length vs" using vs by (simp add: res_map_Inr_iff)
      with False True Cons.prems(3) show ?thesis by (simp add: x read(1))
    next
      case nb: False
      with Cons.prems(3) False wf have "client_read_stream cs sz wid key (int i) (ended wid db2) rs = (ys, r)"
        by (auto simp: x read(1) ended_def split: if_splits)
      from Cons.IH [OF rest _ this] show ?thesis by simp
    qed
  qed
qed

lemma read_stream_ends:
  assumes "rounds_of wid key D e rs" "b \<longrightarrow> e" and vs: "res_map (entry_value cs sz) (stream_rows wid key D) = Inr vs"
    and "\<And>x. x \<in> set rs \<Longrightarrow> stream_rows wid key (fst x) = stream_rows wid key D \<and> ended wid (snd x)"
    and "length rs \<ge> length vs - i + (if b then 1 else 2)"
  shows "snd (client_read_stream cs sz wid key (int i) b rs) \<noteq> None"
  using assms(1,2,4,5)
proof (induction rs arbitrary: i e b)
  case Nil
  then show ?case by (simp split: if_splits)
next
  case (Cons x rs)
  obtain db1 db2 where x: "x = (db1, db2)" by (cases x)
  from Cons.prems(1) have part: "partial_stream wid key D db1" and rest: "rounds_of wid key D (e \<or> ended wid db2) rs"
    by (simp_all add: x)
  from Cons.prems(3) [of x] have full: "stream_rows wid key db1 = stream_rows wid key D" and en: "ended wid db2"
    by (simp_all add: x)
  have n: "length (stream_rows wid key db1) = length vs" using full vs by (simp add: res_map_Inr_iff)
  note read = partial_read [OF part vs, unfolded n]
  have all: "\<And>x. x \<in> set rs \<Longrightarrow> stream_rows wid key (fst x) = stream_rows wid key D \<and> ended wid (snd x)"
    using Cons.prems(3) by simp
  show ?case
  proof (cases "i < length vs")
    case True
    then have "length rs \<ge> length vs - Suc i + (if b then 1 else 2)" using Cons.prems(4) by (simp split: if_splits)
    from Cons.IH [OF rest _ all this] Cons.prems(2) True show ?thesis
      by (auto simp: x read(1) add.commute split: prod.splits)
  next
    case False
    show ?thesis
    proof (cases b)
      case True
      with False show ?thesis by (simp add: x read(1))
    next
      case nb: False
      have "length rs \<ge> length vs - i + (if True then 1 else 2)" using Cons.prems(4) nb by simp
      from Cons.IH [OF rest _ all this] en nb False show ?thesis
        by (auto simp: x read(1) ended_def split: option.splits)
    qed
  qed
qed

lemma rounds_of_append: "rounds_of wid key D e (pre @ post) \<Longrightarrow> \<exists>e'. rounds_of wid key D e' post"
  by (induction wid key D e pre rule: rounds_of.induct) auto

lemma rounds_of_take: "rounds_of wid key D e rs \<Longrightarrow> rounds_of wid key D e (take k rs)"
proof (induction rs arbitrary: e k)
  case (Cons x rs)
  then show ?case by (cases k; cases x) auto
qed simp

lemma read_stream_ends_after:
  assumes "rounds_of wid key D e (pre @ post)" "b \<longrightarrow> e" and vs: "res_map (entry_value cs sz) (stream_rows wid key D) = Inr vs"
    and "\<And>x. x \<in> set post \<Longrightarrow> stream_rows wid key (fst x) = stream_rows wid key D \<and> ended wid (snd x)"
    and "length post \<ge> length vs + 2"
  shows "snd (client_read_stream cs sz wid key (int i) b (pre @ post)) \<noteq> None"
  using assms(1,2)
proof (induction pre arbitrary: i e b)
  case Nil
  have "length post \<ge> length vs - i + (if b then 1 else 2)" using assms(5) by (cases b) simp_all
  from read_stream_ends [OF Nil(1) [unfolded append_Nil] Nil(2) vs assms(4) this] show ?case by simp
next
  case (Cons x pre)
  obtain db1 db2 where x: "x = (db1, db2)" by (cases x)
  from Cons.prems(1) have part: "partial_stream wid key D db1" and rest: "rounds_of wid key D (e \<or> ended wid db2) (pre @ post)"
    and wf: "get_workflow wid db2 \<noteq> None"
    by (simp_all add: x)
  note read = partial_read [OF part vs]
  show ?case
  proof (cases "i < length (stream_rows wid key db1)")
    case True
    from Cons.IH [OF rest, of b "Suc i"] Cons.prems(2) True show ?thesis
      by (auto simp: x read(1) add.commute split: prod.splits)
  next
    case False
    from Cons.IH [OF rest, of "ended wid db2" i] wf False show ?thesis
      by (auto simp: x read(1) ended_def)
  qed
qed

text \<open>
  C33: The generator that follows a stream yields exactly the values written to it, in order, up to the
  closing mark, and then ends. \<open>D\<close> is a database with the final content of the stream; the rounds of the
  reader may meet any earlier state of it, but all of it after the workflow was seen to have ended.
  At any time it has yielded a beginning of the stream, and it ends once enough rounds have seen
  the final content.
\<close>

theorem stream_reader_complete:
  assumes rounds: "rounds_of wid key D False (pre @ post)"
    and vs: "res_map (entry_value cs sz) (stream_rows wid key D) = Inr vs"
    and post: "\<And>x. x \<in> set post \<Longrightarrow> stream_rows wid key (fst x) = stream_rows wid key D \<and> ended wid (snd x)"
    and enough: "length post \<ge> length vs + 2"
  shows "client_read_stream cs sz wid key (int i) False (pre @ post) = (upto_close (drop i vs), Some (Inr ()))
    \<and> (\<forall>k. \<exists>n. fst (client_read_stream cs sz wid key (int i) False (take k (pre @ post))) = take n (upto_close (drop i vs)))"
proof -
  obtain ys r where run: "client_read_stream cs sz wid key (int i) False (pre @ post) = (ys, r)" by fastforce
  have "r \<noteq> None"
    using read_stream_ends_after [OF rounds _ vs post enough, of False i] run by simp
  with read_stream_prefix [OF rounds _ vs run] run
  have "client_read_stream cs sz wid key (int i) False (pre @ post) = (upto_close (drop i vs), Some (Inr ()))" by simp
  moreover have "\<exists>n. fst (client_read_stream cs sz wid key (int i) False (take k (pre @ post))) = take n (upto_close (drop i vs))" for k
    using read_stream_prefix [OF rounds_of_take [OF rounds] _ vs surjective_pairing, of False i k] by blast
  ultimately show ?thesis by blast
qed

definition example_stream :: sysdb where
  "example_stream = example_finished\<lparr>streams := [\<lparr>st_workflow_uuid = ''a'', st_key = ''k'', st_value = ''pickle-42'',
     st_offset = 0, st_function_id = 1, st_serialization = Some ''py_pickle''\<rparr>]\<rparr>"

theorem stream_reader_complete_witness:
  "client_read_stream example_codecs (DBOSDefaultSerializer example_codecs) ''a'' ''k'' 0 False
     ((example_started, example_started) # replicate 3 (example_stream, example_stream)) = ([PInt 42], Some (Inr ()))"
proof -
  let ?sz = "DBOSDefaultSerializer example_codecs"
  let ?post = "replicate 3 (example_stream, example_stream)"
  have rows: "stream_rows ''a'' ''k'' example_stream = [\<lparr>st_workflow_uuid = ''a'', st_key = ''k'', st_value = ''pickle-42'',
     st_offset = 0, st_function_id = 1, st_serialization = Some ''py_pickle''\<rparr>]"
    "stream_rows ''a'' ''k'' example_started = []"
    by (simp_all add: stream_rows_def example_stream_def of_stream_def example_started_eq)
  have vs: "res_map (entry_value example_codecs ?sz) (stream_rows ''a'' ''k'' example_stream) = Inr [PInt 42]"
    by (simp add: rows entry_value_def deserialize_value_def DBOSDefaultSerializer_def DBOSPortableJSON_def example_codecs_def)
  have part: "partial_stream ''a'' ''k'' example_stream example_started" "partial_stream ''a'' ''k'' example_stream example_stream"
    by (simp_all add: partial_stream_def stream_contiguous_def rows)
  have st: "get_workflow ''a'' example_started = status_row example_started ''a''"
    by (rule get_workflow_row) (rule reachable_sysdb_inv [OF example_reachable(1)])
  have "get_workflow ''a'' example_stream = get_workflow ''a'' example_finished"
    by (simp add: get_workflow_def list_workflows_def example_stream_def)
  also have "\<dots> = status_row example_finished ''a''"
    by (rule get_workflow_row) (rule reachable_sysdb_inv [OF example_reachable(2)])
  finally have row: "get_workflow ''a'' example_stream = Some (outcome_effect SUCCESS (Some ''1'') None 20
     (new_status_row (example_status ''a'') (Some ''x0'') 10))" by (simp add: example_finished_row)
  then have en: "ended ''a'' example_stream" by (simp add: ended_def outcome_effect_def workflow_is_active_def)
  have r0: "get_workflow ''a'' example_started \<noteq> None" using example_row [folded example_started_eq] st by simp
  have "rounds_of ''a'' ''k'' example_stream True (replicate n (example_stream, example_stream))" for n
    by (induction n) (simp_all add: part row)
  then have "rounds_of ''a'' ''k'' example_stream e ?post" for e
    by (simp add: numeral_3_eq_3 part row en)
  then have "rounds_of ''a'' ''k'' example_stream False ([(example_started, example_started)] @ ?post)"
    using r0 by (simp add: part)
  from stream_reader_complete [OF this vs, of 0] en show ?thesis
    by (simp add: dbos_stream_closed_sentinel_def)
qed

end
