(* ===== verification/DBOS_Debouncer.thy ===== *)
theory DBOS_Debouncer
  imports DBOS_Client
begin

text \<open>
  Debouncing (\<^verbatim>\<open>dbos/_debouncer.py\<close>): calls with the same key within the debounce period are coalesced
  into one DELAYED workflow, which runs with the inputs of the last call once the calls stop or its
  deadline has come. A call first tries to extend the workflow that holds the key, and enqueues a
  new one when nobody holds it; either attempt may lose a race and is then repeated. The key is the
  deduplication ID of the workflow, so the unique index of the status table makes it exclusive.
\<close>

section \<open>Decisions\<close>

text \<open>The queue of a debouncer is given as an object, by name, or not at all.\<close>

datatype queue_ref = NoQueue | QueueObject Queue | QueueNamed string

fun resolve_queue_name :: "queue_ref \<Rightarrow> string option" where
  "resolve_queue_name NoQueue = None"
| "resolve_queue_name (QueueObject q) = Some (q_name q)"
| "resolve_queue_name (QueueNamed n) = Some n"

definition reject_conflicting_options :: "bool \<Rightarrow> bool \<Rightarrow> bool \<Rightarrow> bool \<Rightarrow> unit res" where
  "reject_conflicting_options has_deduplication_id has_delay has_priority has_partition_key =
     (if has_deduplication_id
      then Inl (DBOSException ''Cannot debounce a workflow with a deduplication_id set: the debounce key is used as the workflow's deduplication ID.'')
      else if has_delay
      then Inl (DBOSException ''Cannot debounce a workflow with a delay set: the debounce period controls the workflow's delay.'')
      else if has_priority
      then Inl (DBOSException ''Cannot debounce a workflow with a priority set: priority is not supported for debounced workflows.'')
      else if has_partition_key
      then Inl (DBOSException ''Cannot debounce a workflow with a queue partition key set: partitioned queues do not support deduplication, which debouncing requires.'')
      else Inr ())"

datatype BounceAction = BounceReturn | BounceEnqueue | BounceRaise | BounceRetry

definition classify_bounce :: "DebounceResult \<Rightarrow> string \<Rightarrow> BounceAction" where
  "classify_bounce result workflow_name =
     (if dr_bounced_workflow_id result \<noteq> None then BounceReturn
      else if dr_holder_workflow_id result = None then BounceEnqueue
      else if \<not> dr_holder_is_debounced result then BounceRaise
      else if dr_holder_workflow_name result \<noteq> Some workflow_name then BounceRaise
      else BounceRetry)"

section \<open>The client's debouncer\<close>

record DebouncerOptions =
  do_debounce_timeout_sec :: "rat option"
  do_queue_name :: "string option"

definition client_queue :: "DebouncerOptions \<Rightarrow> EnqueueOptions \<Rightarrow> string" where
  "client_queue dopts wopts = (case do_queue_name dopts of
     Some n \<Rightarrow> if n = [] then ce_queue_name wopts else n | None \<Rightarrow> ce_queue_name wopts)"

definition debounce_id :: "string \<Rightarrow> string \<Rightarrow> string" where
  "debounce_id workflow_name debounce_key = workflow_name @ ''-'' @ debounce_key"

text \<open>
  What one round of the loop reads: the databases of its two transactions, with other processes at
  work in between, the clocks (process and database) at each, and a generated ID.
\<close>

record bounce_round =
  br_bounce_db :: sysdb
  br_bounce_time :: rat
  br_bounce_tm :: int
  br_enqueue_db :: sysdb
  br_deadline_time :: rat
  br_enqueue_time :: rat
  br_enqueue_tm :: int
  br_uuid :: string

definition bounce_deadline :: "rat option \<Rightarrow> int \<Rightarrow> int option" where
  "bounce_deadline timeout_sec now_ms = (case timeout_sec of
     Some t \<Rightarrow> if t = 0 then None else Some (py_int (of_int now_ms + t * 1000)) | None \<Rightarrow> None)"

definition bounce_delay :: "rat \<Rightarrow> int option \<Rightarrow> int \<Rightarrow> rat" where
  "bounce_delay period deadline_ms now_ms = (case deadline_ms of
     Some d \<Rightarrow> min period (max ((of_int d - of_int now_ms) / 1000) 0) | None \<Rightarrow> period)"

definition enqueue_fresh ::
  "codecs \<Rightarrow> Serializer \<Rightarrow> DebouncerOptions \<Rightarrow> EnqueueOptions \<Rightarrow> string \<Rightarrow> rat \<Rightarrow> pyval list \<Rightarrow> pyval \<Rightarrow> bounce_round
   \<Rightarrow> string res \<times> sysdb" where
  "enqueue_fresh cs sz dopts wopts key period args kwargs rd =
     (let now_ms = py_int (br_deadline_time rd * 1000);
          deadline_ms = bounce_deadline (do_debounce_timeout_sec dopts) now_ms;
          opts = wopts\<lparr>ce_queue_name := client_queue dopts wopts,
                   ce_deduplication_id := Some (debounce_id (ce_workflow_name wopts) key),
                   ce_delay_seconds := Some (bounce_delay period deadline_ms now_ms)\<rparr>
      in enqueue_debounced cs sz (br_uuid rd) (br_enqueue_time rd) (br_enqueue_tm rd) opts deadline_ms args kwargs
           (br_enqueue_db rd))"

text \<open>\<open>None\<close>: the round lost a race and is to be repeated.\<close>

definition client_bounce ::
  "codecs \<Rightarrow> Serializer \<Rightarrow> DebouncerOptions \<Rightarrow> EnqueueOptions \<Rightarrow> string \<Rightarrow> rat \<Rightarrow> pyval list \<Rightarrow> pyval \<Rightarrow> bounce_round
   \<Rightarrow> (string res \<times> sysdb) option" where
  "client_bounce cs sz dopts wopts key period args kwargs rd =
     (let name = ce_workflow_name wopts; q = client_queue dopts wopts; d = debounce_id name key in
      case serialize_args cs args kwargs (ce_serialization_type wopts) sz of
        Inl e \<Rightarrow> Some (Inl e, br_bounce_db rd)
      | Inr (inputs, serialization) \<Rightarrow>
          (let (result, db1) = debounce_delayed_workflow name q d
                 (py_int (br_bounce_time rd * 1000 + period * 1000)) inputs (Some serialization) (br_bounce_tm rd)
                 (br_bounce_db rd)
           in case classify_bounce result name of
                BounceReturn \<Rightarrow> (case dr_bounced_workflow_id result of
                    Some w \<Rightarrow> Some (Inr w, db1) | None \<Rightarrow> Some (Inl AssertionError, db1))
              | BounceRaise \<Rightarrow> (case dr_holder_workflow_id result of
                    Some h \<Rightarrow> Some (Inl (DBOSQueueDeduplicatedError h q d), db1) | None \<Rightarrow> Some (Inl AssertionError, db1))
              | BounceRetry \<Rightarrow> None
              | BounceEnqueue \<Rightarrow> (case enqueue_fresh cs sz dopts wopts key period args kwargs rd of
                    (Inl e, db2) \<Rightarrow> (case e of
                        DBOSQueueDeduplicatedError _ _ _ \<Rightarrow> None | _ \<Rightarrow> Some (Inl e, db2))
                  | (Inr w, db2) \<Rightarrow> Some (Inr w, db2))))"

fun bounce_loop :: "(bounce_round \<Rightarrow> (string res \<times> sysdb) option) \<Rightarrow> bounce_round list \<Rightarrow> (string res \<times> sysdb) option" where
  "bounce_loop bounce [] = None"
| "bounce_loop bounce (rd # rds) = (case bounce rd of None \<Rightarrow> bounce_loop bounce rds | Some x \<Rightarrow> Some x)"

text \<open>The result is the ID in the handle; \<open>None\<close>: every round lost a race so far.\<close>

definition client_debounce ::
  "codecs \<Rightarrow> Serializer \<Rightarrow> DebouncerOptions \<Rightarrow> EnqueueOptions \<Rightarrow> string \<Rightarrow> rat \<Rightarrow> pyval list \<Rightarrow> pyval \<Rightarrow> sysdb
   \<Rightarrow> bounce_round list \<Rightarrow> (string res \<times> sysdb) option" where
  "client_debounce cs sz dopts wopts key period args kwargs db rds =
     (case reject_conflicting_options (ce_deduplication_id wopts \<noteq> None) (ce_delay_seconds wopts \<noteq> None)
             (ce_priority wopts \<noteq> None) (ce_queue_partition_key wopts \<noteq> None) of
        Inl e \<Rightarrow> Some (Inl e, db)
      | Inr _ \<Rightarrow> bounce_loop (client_bounce cs sz dopts wopts key period args kwargs) rds)"

section \<open>Rounds\<close>

text \<open>In a reachable database a debounced holder of a key is DELAYED, so a bounce never has to be retried.\<close>

lemma no_retry:
  assumes reach: "reachable db" and run: "debounce_delayed_workflow name q d u i ser tm db = (result, db')"
  shows "classify_bounce result name \<noteq> BounceRetry"
proof
  assume "classify_bounce result name = BounceRetry"
  then obtain h where res: "dr_bounced_workflow_id result = None" "dr_holder_workflow_id result = Some h"
    "dr_holder_is_debounced result" "dr_holder_workflow_name result = Some name"
    by (auto simp: classify_bounce_def split: if_splits)
  note inv = reachable_sysdb_inv [OF reach]
  from debounce_delayed_workflow_cases [OF inv run] res obtain r where
    none: "\<forall>r \<in> set (workflow_status db). \<not> debounce_guard name q d r"
    and r: "status_row db h = Some r" "dedup_key r = Some (q, d)" "ws_is_debounced r" "ws_name r = name"
    by auto
  from reachable_rows [OF reach r(1)] r(2,3) have "ws_status r = DELAYED"
    by (auto simp: life_ok_def dedup_key_def split: option.splits)
  with r have "debounce_guard name q d r" by (auto simp: debounce_guard_def dedup_key_def split: option.splits)
  with none status_row_SomeD [OF r(1)] show False by blast
qed

definition coalesced :: "string \<Rightarrow> string \<Rightarrow> string \<Rightarrow> string \<Rightarrow> workflow_status_row \<Rightarrow> bool" where
  "coalesced name q d inputs r \<longleftrightarrow> dedup_key r = Some (q, d) \<and> ws_status r = DELAYED \<and> ws_is_debounced r
     \<and> ws_name r = name \<and> ws_inputs r = Some inputs"

lemma bounced_coalesced: "debounce_guard name q d r \<Longrightarrow> coalesced name q d i (debounce_effect u i ser tm r)"
  by (simp add: coalesced_def debounce_guard_def debounce_effect_def dedup_key_def)

text \<open>Enqueueing on a free key with a new ID.\<close>

lemma enqueue_debounced_free:
  assumes status: "build_enqueue_status cs sz uuid time_sec opts args kwargs = Inr status"
    and new: "wi_workflow_uuid status \<notin> set (workflow_ids db)"
    and free: "\<forall>r \<in> set (workflow_status db). dedup_key r \<noteq> Some (q, d)"
    and key: "wi_queue_name status = Some q" "wi_deduplication_id status = Some d"
  shows "enqueue_debounced cs sz uuid time_sec tm opts deadline args kwargs db
    = (Inr (wi_workflow_uuid status), db\<lparr>workflow_status := workflow_status db @
        [new_status_row (status\<lparr>wi_debounce_deadline_epoch_ms := deadline, wi_is_debounced := True\<rparr>) None tm]\<rparr>)"
proof -
  let ?w = "status\<lparr>wi_debounce_deadline_epoch_ms := deadline, wi_is_debounced := True\<rparr>"
  have "init_workflow ?w None None False False tm db =
    (Inr (wi_status ?w, wi_workflow_deadline_epoch_ms ?w, True, wi_serialization ?w),
     db\<lparr>workflow_status := workflow_status db @ [new_status_row ?w None tm]\<rparr>)"
    by (rule init_workflow_insert) (use new free key in \<open>auto simp: dedup_key_new_status_row\<close>)
  then show ?thesis by (simp add: enqueue_debounced_def init_built_def status res_bind_def)
qed

lemma build_enqueue_ok:
  assumes "validate_enqueue_options opts = Inr ()" "serialize_args cs args kwargs (ce_serialization_type opts) sz = Inr (inputs, ser)"
    and "\<forall>r rs. ce_authenticated_roles opts = Some (r # rs) \<longrightarrow> (\<exists>t. json_dumps cs (PList (map PStr (r # rs))) = Inr t)"
  shows "\<exists>roles. build_enqueue_status cs sz uuid time_sec opts args kwargs
    = Inr (enqueue_status uuid time_sec roles inputs ser opts)"
  using assms
  by (auto simp: build_enqueue_status_def res_bind_def split: option.splits list.splits sum.splits)

lemma fresh_enqueued:
  fixes rd :: bounce_round
  assumes now_ms: "now_ms = py_int (br_deadline_time rd * 1000)"
    and deadline: "deadline = bounce_deadline (do_debounce_timeout_sec dopts) now_ms"
    and new: "enqueue_id (br_uuid rd) wopts \<notin> set (workflow_ids (br_enqueue_db rd))"
    and free: "\<forall>r \<in> set (workflow_status (br_enqueue_db rd)).
      dedup_key r \<noteq> Some (client_queue dopts wopts, debounce_id (ce_workflow_name wopts) key)"
    and valid: "validate_enqueue_options wopts = Inr ()"
    and ser: "serialize_args cs args kwargs (ce_serialization_type wopts) sz = Inr (inputs, ser)"
    and roles: "\<forall>r rs. ce_authenticated_roles wopts = Some (r # rs) \<longrightarrow> (\<exists>t. json_dumps cs (PList (map PStr (r # rs))) = Inr t)"
  obtains row where "enqueue_fresh cs sz dopts wopts key period args kwargs rd
      = (Inr (enqueue_id (br_uuid rd) wopts), add_status [row] (br_enqueue_db rd))"
    "ws_workflow_uuid row = enqueue_id (br_uuid rd) wopts" "life_ok row"
    "coalesced (ce_workflow_name wopts) (client_queue dopts wopts) (debounce_id (ce_workflow_name wopts) key) inputs row"
    "ws_debounce_deadline_epoch_ms row = deadline"
    "ws_delay_until_epoch_ms row = Some (py_int ((br_enqueue_time rd + bounce_delay period deadline now_ms) * 1000))"
    "\<exists>w m xid rec deq tm. workflow_is_active (wi_status w) \<and> wi_output w = None \<and> wi_error w = None
       \<and> (wi_is_debounced w \<longrightarrow> wi_status w = DELAYED)
       \<and> add_status [row] (br_enqueue_db rd) = snd (init_workflow w m xid rec deq tm (br_enqueue_db rd))"
proof -
  let ?q = "client_queue dopts wopts" and ?d = "debounce_id (ce_workflow_name wopts) key"
  let ?opts = "wopts\<lparr>ce_queue_name := ?q, ce_deduplication_id := Some ?d,
      ce_delay_seconds := Some (bounce_delay period deadline now_ms)\<rparr>"
  have "validate_enqueue_options ?opts = validate_enqueue_options wopts"
    by (cases "ce_priority wopts"; cases "ce_workflow_id wopts") (simp_all add: validate_enqueue_options_def)
  then have v: "validate_enqueue_options ?opts = Inr ()"
    and s: "serialize_args cs args kwargs (ce_serialization_type ?opts) sz = Inr (inputs, ser)"
    and rl: "\<forall>r rs. ce_authenticated_roles ?opts = Some (r # rs) \<longrightarrow> (\<exists>t. json_dumps cs (PList (map PStr (r # rs))) = Inr t)"
    using valid ser roles by simp_all
  from build_enqueue_ok [OF v s rl] obtain rs where st: "build_enqueue_status cs sz (br_uuid rd) (br_enqueue_time rd) ?opts args kwargs
      = Inr (enqueue_status (br_uuid rd) (br_enqueue_time rd) rs inputs ser ?opts)"
    by blast
  let ?s = "enqueue_status (br_uuid rd) (br_enqueue_time rd) rs inputs ser ?opts"
  let ?w = "?s\<lparr>wi_debounce_deadline_epoch_ms := deadline, wi_is_debounced := True\<rparr>"
  have s: "wi_workflow_uuid ?s = enqueue_id (br_uuid rd) wopts" "wi_queue_name ?s = Some ?q" "wi_deduplication_id ?s = Some ?d"
    by (simp_all add: enqueue_status_def enqueue_id_def)
  have w: "workflow_is_active (wi_status ?w)" "wi_output ?w = None" "wi_error ?w = None" "wi_status ?w = DELAYED"
    by (simp_all add: enqueue_status_def delay_until_def workflow_is_active_def)
  note enq = enqueue_debounced_free [OF st _ free s(2,3), unfolded s(1), OF new, of "br_enqueue_tm rd" deadline]
  have row: "init_workflow ?w None None False False (br_enqueue_tm rd) (br_enqueue_db rd) =
    (Inr (wi_status ?w, wi_workflow_deadline_epoch_ms ?w, True, wi_serialization ?w),
     add_status [new_status_row ?w None (br_enqueue_tm rd)] (br_enqueue_db rd))"
    by (rule init_workflow_insert) (use new free s in \<open>auto simp: dedup_key_new_status_row\<close>)
  show ?thesis
  proof (rule that)
    show "enqueue_fresh cs sz dopts wopts key period args kwargs rd
      = (Inr (enqueue_id (br_uuid rd) wopts), add_status [new_status_row ?w None (br_enqueue_tm rd)] (br_enqueue_db rd))"
      unfolding enqueue_fresh_def Let_def now_ms [symmetric] deadline [symmetric] by (rule enq)
    show "life_ok (new_status_row ?w None (br_enqueue_tm rd))" by (rule new_status_row_ok) (use w in simp_all)
    show "coalesced (ce_workflow_name wopts) ?q ?d inputs (new_status_row ?w None (br_enqueue_tm rd))"
      using w(4) s by (simp add: coalesced_def dedup_key_new_status_row) (simp add: new_status_row_def enqueue_status_def)
    show "ws_delay_until_epoch_ms (new_status_row ?w None (br_enqueue_tm rd))
        = Some (py_int ((br_enqueue_time rd + bounce_delay period deadline now_ms) * 1000))"
      by (simp add: new_status_row_def enqueue_status_def delay_until_def)
    show "\<exists>w m xid rec deq tm. workflow_is_active (wi_status w) \<and> wi_output w = None \<and> wi_error w = None
       \<and> (wi_is_debounced w \<longrightarrow> wi_status w = DELAYED)
       \<and> add_status [new_status_row ?w None (br_enqueue_tm rd)] (br_enqueue_db rd)
         = snd (init_workflow w m xid rec deq tm (br_enqueue_db rd))"
      using w row by (metis snd_conv)
  qed (use s in \<open>simp_all add: new_status_row_def\<close>)
qed

text \<open>
  C17: Debouncing coalesces. In every reachable database and undisturbed by other processes, a debounce
  returns in its first round. Either it returns the one DELAYED workflow that holds the key
  afterwards, with the inputs of this call: the workflow that held it before, its delay extended but
  not past its deadline, or a new one; every other workflow is as it was. Or it raises, because
  the key is held by a workflow that is not debounced or is another function's, and changes nothing.
\<close>

theorem debounce_coalesces:
  fixes rd :: bounce_round
  assumes reach: "sys_step\<^sup>*\<^sup>* empty_sysdb db"
    and alone: "br_bounce_db rd = db" "br_enqueue_db rd = db"
    and new: "enqueue_id (br_uuid rd) wopts \<notin> set (workflow_ids db)"
    and opts: "reject_conflicting_options (ce_deduplication_id wopts \<noteq> None) (ce_delay_seconds wopts \<noteq> None)
        (ce_priority wopts \<noteq> None) (ce_queue_partition_key wopts \<noteq> None) = Inr ()"
      "validate_enqueue_options wopts = Inr ()"
    and ser: "serialize_args cs args kwargs (ce_serialization_type wopts) sz = Inr (inputs, ser)"
    and roles: "\<forall>r rs. ce_authenticated_roles wopts = Some (r # rs) \<longrightarrow> (\<exists>t. json_dumps cs (PList (map PStr (r # rs))) = Inr t)"
  shows "\<exists>result db'. client_debounce cs sz dopts wopts key period args kwargs db [rd] = Some (result, db')
    \<and> sys_step\<^sup>*\<^sup>* db db'
    \<and> (case result of
        Inr wid \<Rightarrow> (\<exists>row. status_row db' wid = Some row
          \<and> coalesced (ce_workflow_name wopts) (client_queue dopts wopts) (debounce_id (ce_workflow_name wopts) key) inputs row
          \<and> (case status_row db wid of
              Some old \<Rightarrow> ws_delay_until_epoch_ms row = Some (case ws_debounce_deadline_epoch_ms old of
                 None \<Rightarrow> py_int (br_bounce_time rd * 1000 + period * 1000)
               | Some dl \<Rightarrow> min (py_int (br_bounce_time rd * 1000 + period * 1000)) dl)
            | None \<Rightarrow> wid = enqueue_id (br_uuid rd) wopts))
          \<and> (\<forall>w. w \<noteq> wid \<longrightarrow> status_row db' w = status_row db w)
      | Inl e \<Rightarrow> db' = db \<and> (\<exists>h row. status_row db h = Some row
          \<and> e = DBOSQueueDeduplicatedError h (client_queue dopts wopts) (debounce_id (ce_workflow_name wopts) key)
          \<and> dedup_key row = Some (client_queue dopts wopts, debounce_id (ce_workflow_name wopts) key)
          \<and> \<not> (ws_is_debounced row \<and> ws_name row = ce_workflow_name wopts)))"
proof -
  let ?name = "ce_workflow_name wopts" and ?q = "client_queue dopts wopts"
  let ?d = "debounce_id ?name key" and ?u = "py_int (br_bounce_time rd * 1000 + period * 1000)"
  note inv = reachable_sysdb_inv [OF reach]
  obtain res db1 where run: "debounce_delayed_workflow ?name ?q ?d ?u inputs (Some ser) (br_bounce_tm rd) db = (res, db1)"
    by fastforce
  note cases = debounce_delayed_workflow_cases [OF inv run]
  have loop: "client_debounce cs sz dopts wopts key period args kwargs db [rd]
      = client_bounce cs sz dopts wopts key period args kwargs rd"
    unfolding client_debounce_def opts(1) by (simp split: option.splits)
  consider (bounced) wid where "dr_bounced_workflow_id res = Some wid"
    | (free) "dr_bounced_workflow_id res = None" "dr_holder_workflow_id res = None"
    | (held) h where "dr_bounced_workflow_id res = None" "dr_holder_workflow_id res = Some h" by fastforce
  then show ?thesis
  proof cases
    case bounced
    with cases obtain r where r: "status_row db wid = Some r" "debounce_guard ?name ?q ?d r"
      "status_row db1 wid = Some (debounce_effect ?u inputs (Some ser) (br_bounce_tm rd) r)"
      "\<forall>w. w \<noteq> wid \<longrightarrow> status_row db1 w = status_row db w" by auto
    have "client_bounce cs sz dopts wopts key period args kwargs rd = Some (Inr wid, db1)"
      using bounced run by (simp add: client_bounce_def Let_def ser alone classify_bounce_def)
    moreover have "sys_step\<^sup>*\<^sup>* db db1"
      using sys_step.debounce [of db ?name ?q ?d ?u inputs "Some ser" "br_bounce_tm rd"] run by auto
    moreover have "ws_delay_until_epoch_ms (debounce_effect ?u inputs (Some ser) (br_bounce_tm rd) r)
        = Some (case ws_debounce_deadline_epoch_ms r of None \<Rightarrow> ?u | Some dl \<Rightarrow> min ?u dl)"
      by (simp add: debounce_effect_def capped_delay_def min_def split: option.splits)
    ultimately show ?thesis using r bounced_coalesced [OF r(2)] by (auto simp: loop)
  next
    case free
    with cases have db1: "db1 = db" and unheld: "\<forall>r \<in> set (workflow_status db). dedup_key r \<noteq> Some (?q, ?d)" by auto
    obtain row where enq: "enqueue_fresh cs sz dopts wopts key period args kwargs rd
        = (Inr (enqueue_id (br_uuid rd) wopts), add_status [row] db)"
      and row: "ws_workflow_uuid row = enqueue_id (br_uuid rd) wopts" "coalesced ?name ?q ?d inputs row"
      and st: "\<exists>w m xid rec deq tm. workflow_is_active (wi_status w) \<and> wi_output w = None \<and> wi_error w = None
       \<and> (wi_is_debounced w \<longrightarrow> wi_status w = DELAYED)
       \<and> add_status [row] db = snd (init_workflow w m xid rec deq tm db)"
      by (rule fresh_enqueued [OF refl refl, of rd wopts dopts key cs args kwargs sz inputs ser period, unfolded alone(2),
            OF new unheld opts(2) ser roles]) (rule that)
    have "client_bounce cs sz dopts wopts key period args kwargs rd
        = Some (Inr (enqueue_id (br_uuid rd) wopts), add_status [row] db)"
      using free run by (simp add: client_bounce_def Let_def ser alone classify_bounce_def enq)
    moreover have "sys_step\<^sup>*\<^sup>* db (add_status [row] db)"
      using st by (metis r_into_rtranclp sys_step.start_workflow)
    moreover have none: "status_row db (enqueue_id (br_uuid rd) wopts) = None"
      using new by (simp add: status_row_None_iff)
    moreover have "status_row (add_status [row] db) (enqueue_id (br_uuid rd) wopts) = Some row"
      "\<forall>w. w \<noteq> enqueue_id (br_uuid rd) wopts \<longrightarrow> status_row (add_status [row] db) w = status_row db w"
      using none row(1) by (auto simp: status_row_append split: option.splits)
    ultimately show ?thesis using row(2) by (auto simp: loop)
  next
    case held
    with cases obtain r where db1: "db1 = db" and r: "status_row db h = Some r" "dedup_key r = Some (?q, ?d)"
      "dr_holder_is_debounced res = ws_is_debounced r" "dr_holder_workflow_name res = Some (ws_name r)" by auto
    have "\<not> (ws_is_debounced r \<and> ws_name r = ?name)"
      using no_retry [OF reach run] held r(3,4) by (auto simp: classify_bounce_def)
    moreover from this have "client_bounce cs sz dopts wopts key period args kwargs rd
        = Some (Inl (DBOSQueueDeduplicatedError h ?q ?d), db)"
      using held run r(3,4) db1 by (auto simp: client_bounce_def Let_def ser alone classify_bounce_def)
    ultimately show ?thesis using r by (auto simp: loop)
  qed
qed

definition bounce_codecs :: codecs where
  "bounce_codecs = \<lparr>json_dumps = (\<lambda>v. Inl TypeError), json_loads = (\<lambda>s. Inl TypeError),
     pickle_dumps = (\<lambda>v. Inr ''in''), pickle_loads = (\<lambda>s. Inl TypeError)\<rparr>"

definition example_options :: EnqueueOptions where
  "example_options = \<lparr>ce_workflow_name = ''wf'', ce_queue_name = ''q'', ce_workflow_id = None, ce_app_version = None,
     ce_workflow_timeout = None, ce_delay_seconds = None, ce_deduplication_id = None, ce_priority = None,
     ce_queue_partition_key = None, ce_authenticated_user = None, ce_authenticated_roles = None,
     ce_serialization_type = None, ce_class_name = None, ce_instance_name = None, ce_attributes = None\<rparr>"

definition example_round :: bounce_round where
  "example_round = \<lparr>br_bounce_db = example_started, br_bounce_time = 1, br_bounce_tm = 1000,
     br_enqueue_db = example_started, br_deadline_time = 1, br_enqueue_time = 1, br_enqueue_tm = 1001, br_uuid = ''u''\<rparr>"

theorem debounce_coalesces_witness:
  "\<exists>wid db' row. client_debounce bounce_codecs (DBOSDefaultSerializer bounce_codecs)
      \<lparr>do_debounce_timeout_sec = Some 60, do_queue_name = None\<rparr> example_options ''k'' 5 [] (PDict []) example_started
      [example_round] = Some (Inr wid, db')
    \<and> status_row db' wid = Some row \<and> ws_status row = DELAYED \<and> dedup_key row = Some (''q'', ''wf-k'')"
proof -
  let ?sz = "DBOSDefaultSerializer bounce_codecs"
  let ?do = "\<lparr>do_debounce_timeout_sec = Some 60, do_queue_name = None\<rparr>"
  have new: "enqueue_id (br_uuid example_round) example_options \<notin> set (workflow_ids example_started)"
    by (simp add: enqueue_id_def example_options_def example_round_def workflow_ids_def example_started_eq example_db_def
        new_status_row_def example_status_def)
  have opts: "reject_conflicting_options (ce_deduplication_id example_options \<noteq> None) (ce_delay_seconds example_options \<noteq> None)
      (ce_priority example_options \<noteq> None) (ce_queue_partition_key example_options \<noteq> None) = Inr ()"
    "validate_enqueue_options example_options = Inr ()"
    by (simp_all add: reject_conflicting_options_def validate_enqueue_options_def example_options_def)
  have ser: "serialize_args bounce_codecs [] (PDict []) (ce_serialization_type example_options) ?sz = Inr (''in'', ''py_pickle'')"
    by (simp add: serialize_args_def serialization_for_type_def example_options_def DBOSDefaultSerializer_def
        DBOSPortableJSON_def bounce_codecs_def res_bind_def)
  have roles: "\<forall>r rs. ce_authenticated_roles example_options = Some (r # rs)
      \<longrightarrow> (\<exists>t. json_dumps bounce_codecs (PList (map PStr (r # rs))) = Inr t)" by (simp add: example_options_def)
  have key: "client_queue ?do example_options = ''q''" "debounce_id (ce_workflow_name example_options) ''k'' = ''wf-k''"
    by (simp_all add: client_queue_def debounce_id_def example_options_def)
  have free: "ws_deduplication_id row = None" if "status_row example_started h = Some row" for h row
    using that by (auto simp: example_started_eq example_db_def status_row_def new_status_row_def example_status_def
        split: if_splits)
  have alone: "br_bounce_db example_round = example_started" "br_enqueue_db example_round = example_started"
    by (simp_all add: example_round_def)
  from debounce_coalesces [OF example_reachable(1) alone new opts ser roles, of ?do "''k''" 5] obtain result db' where
    run: "client_debounce bounce_codecs ?sz ?do example_options ''k'' 5 [] (PDict []) example_started [example_round]
      = Some (result, db')"
    and res: "case result of
        Inr wid \<Rightarrow> \<exists>row. status_row db' wid = Some row \<and> coalesced (ce_workflow_name example_options) ''q'' ''wf-k'' ''in'' row
      | Inl e \<Rightarrow> \<exists>h row. status_row example_started h = Some row \<and> dedup_key row = Some (''q'', ''wf-k'')"
    unfolding key by (fastforce split: sum.splits)
  show ?thesis
  proof (cases result)
    case (Inl e)
    with res free show ?thesis by (fastforce simp: dedup_key_def split: option.splits)
  next
    case (Inr wid)
    with res run show ?thesis by (auto simp: coalesced_def)
  qed
qed

text \<open>
  The first delay of a new debounced workflow is computed from a later reading of the clock than
  its deadline, so it may pass the deadline by the time in between.
\<close>

lemma fresh_delay_bound:
  fixes t2 t3 period timeout :: rat
  assumes "0 \<le> t2" "0 \<le> t3" "0 < timeout" "0 \<le> period"
    and "bounce_deadline (Some timeout) (py_int (t2 * 1000)) = Some dl"
  shows "py_int ((t3 + bounce_delay period (Some dl) (py_int (t2 * 1000))) * 1000) \<le> dl + (\<lfloor>t3 * 1000\<rfloor> - \<lfloor>t2 * 1000\<rfloor>)"
proof -
  let ?n = "\<lfloor>t2 * 1000\<rfloor>"
  have n: "py_int (t2 * 1000) = ?n" using assms(1) by (simp add: py_int_def)
  have n0: "0 \<le> ?n" using assms(1) by simp
  from assms(3,5) n n0 have dl: "dl = \<lfloor>of_int ?n + timeout * 1000\<rfloor>" by (simp add: bounce_deadline_def py_int_def)
  have "of_int ?n \<le> of_int ?n + timeout * 1000" using assms(3) by simp
  then have "?n \<le> dl" unfolding dl by (simp add: le_floor_iff)
  then have ge: "0 \<le> (of_int dl - of_int ?n :: rat) / 1000" by simp
  define ds where "ds = bounce_delay period (Some dl) ?n"
  have "ds = min period ((of_int dl - of_int ?n) / 1000)"
    using ge by (simp only: ds_def bounce_delay_def option.case max_absorb1)
  with ge assms(4) have ds: "0 \<le> ds" "ds \<le> (of_int dl - of_int ?n) / 1000" by (simp_all only: min.cobounded2 min.bounded_iff)
  have "(t3 + ds) * 1000 \<le> t3 * 1000 + of_int (dl - ?n)" using ds(2) by (simp add: field_simps)
  then have "\<lfloor>(t3 + ds) * 1000\<rfloor> \<le> \<lfloor>t3 * 1000 + of_int (dl - ?n)\<rfloor>" by (rule floor_mono)
  also have "\<dots> = \<lfloor>t3 * 1000\<rfloor> + (dl - ?n)" by (rule floor_add_int [symmetric])
  finally show ?thesis using ds(1) assms(2) unfolding n ds_def [symmetric] by (simp add: py_int_def)
qed

end
