(* ===== verification/DBOS_Aggregates.thy ===== *)
theory DBOS_Aggregates
  imports DBOS_Client
begin

text \<open>
  The read-only reports of the system database (\<^verbatim>\<open>dbos/_sys_db.py\<close>): the steps of a workflow, aggregates of
  workflows and of steps with \<^verbatim>\<open>GROUP BY\<close>, and the metrics of a period. The aggregates partition the rows
  that the corresponding search finds: the counts of the groups add up to its length.
\<close>

section \<open>Grouping\<close>

text \<open>\<^verbatim>\<open>GROUP BY\<close>: one group per value of the key, NULL being a value.\<close>

definition sql_group :: "('r \<Rightarrow> 'k) \<Rightarrow> 'r list \<Rightarrow> ('k \<times> 'r list) list" where
  "sql_group key rows = map (\<lambda>k. (k, filter (\<lambda>r. key r = k) rows)) (remdups (map key rows))"

definition min_opt :: "int list \<Rightarrow> int option" where
  "min_opt xs = map_option uminus (max_opt (map uminus xs))"

text \<open>Aggregates skip NULL.\<close>

definition max_some :: "int option list \<Rightarrow> int option" where
  "max_some xs = max_opt (List.map_filter id xs)"

definition minus_null :: "int option \<Rightarrow> int option \<Rightarrow> int option" where
  "minus_null x y = (case (x, y) of (Some a, Some b) \<Rightarrow> Some (a - b) | _ \<Rightarrow> None)"

text \<open>
  The columns of a key, with the text that the result shows (\<^verbatim>\<open>str\<close>, or \<^verbatim>\<open>None\<close> for NULL), which
  determines the value. A time bucket is the start of the interval that holds a time.
\<close>

type_synonym group_key = "(string \<times> string option) list"

definition column_if :: "bool \<Rightarrow> string \<Rightarrow> string option \<Rightarrow> group_key" where
  "column_if enabled name v = (if enabled then [(name, v)] else [])"

definition time_bucket :: "int option \<Rightarrow> int option \<Rightarrow> group_key" where
  "time_bucket bucket t = (case bucket of
     None \<Rightarrow> [] | Some b \<Rightarrow> [(''time_bucket'', map_option (\<lambda>x. str_int (x div b * b)) t)])"

fun status_name :: "WorkflowStatusString \<Rightarrow> string" where
  "status_name PENDING = ''PENDING''"
| "status_name SUCCESS = ''SUCCESS''"
| "status_name ERROR = ''ERROR''"
| "status_name MAX_RECOVERY_ATTEMPTS_EXCEEDED = ''MAX_RECOVERY_ATTEMPTS_EXCEEDED''"
| "status_name CANCELLED = ''CANCELLED''"
| "status_name ENQUEUED = ''ENQUEUED''"
| "status_name DELAYED = ''DELAYED''"

section \<open>Aggregates of workflows\<close>

record workflow_grouping =
  wg_by_status :: bool
  wg_by_name :: bool
  wg_by_queue_name :: bool
  wg_by_executor_id :: bool
  wg_by_application_version :: bool
  wg_time_bucket_size_ms :: "int option"
  wg_select_count :: bool
  wg_select_min_created_at :: bool
  wg_select_max_queue_wait_ms :: bool
  wg_select_max_total_latency_ms :: bool

record WorkflowAggregateRow =
  wa_group :: group_key
  wa_count :: "int option"
  wa_min_created_at :: "int option"
  wa_max_queue_wait_ms :: "int option"
  wa_max_total_latency_ms :: "int option"

definition workflow_key :: "workflow_grouping \<Rightarrow> workflow_status_row \<Rightarrow> group_key" where
  "workflow_key g r =
     column_if (wg_by_status g) ''status'' (Some (status_name (ws_status r)))
   @ column_if (wg_by_name g) ''name'' (Some (ws_name r))
   @ column_if (wg_by_queue_name g) ''queue_name'' (ws_queue_name r)
   @ column_if (wg_by_executor_id g) ''executor_id'' (ws_executor_id r)
   @ column_if (wg_by_application_version g) ''application_version'' (ws_application_version r)
   @ time_bucket (wg_time_bucket_size_ms g) (Some (ws_created_at r))"

definition workflow_grouped :: "workflow_grouping \<Rightarrow> bool" where
  "workflow_grouped g \<longleftrightarrow> wg_by_status g \<or> wg_by_name g \<or> wg_by_queue_name g \<or> wg_by_executor_id g
     \<or> wg_by_application_version g \<or> wg_time_bucket_size_ms g \<noteq> None"

definition workflow_selected :: "workflow_grouping \<Rightarrow> bool" where
  "workflow_selected g \<longleftrightarrow> wg_select_count g \<or> wg_select_min_created_at g \<or> wg_select_max_queue_wait_ms g
     \<or> wg_select_max_total_latency_ms g"

definition workflow_aggregate :: "workflow_grouping \<Rightarrow> group_key \<times> workflow_status_row list \<Rightarrow> WorkflowAggregateRow" where
  "workflow_aggregate g kr = (case kr of (k, rows) \<Rightarrow> \<lparr>
     wa_group = k,
     wa_count = (if wg_select_count g then Some (int (length rows)) else None),
     wa_min_created_at = (if wg_select_min_created_at g then min_opt (map ws_created_at rows) else None),
     wa_max_queue_wait_ms = (if wg_select_max_queue_wait_ms g
       then max_some (map (\<lambda>r. minus_null (ws_started_at_epoch_ms r) (Some (ws_created_at r))) rows) else None),
     wa_max_total_latency_ms = (if wg_select_max_total_latency_ms g
       then max_some (map (\<lambda>r. minus_null (ws_completed_at r) (Some (ws_created_at r))) rows) else None)\<rparr>)"

text \<open>
  The criteria of an aggregate query and the \<^verbatim>\<open>where\<close> clauses it adds for them, one for each criterion that is
  given. The query builds its own clauses: they are not those of \<^verbatim>\<open>list_workflows\<close>.
\<close>

record aggregate_search =
  ag_status :: "WorkflowStatusString list"
  ag_start_time :: "int option"
  ag_end_time :: "int option"
  ag_completed_after :: "int option"
  ag_completed_before :: "int option"
  ag_dequeued_after :: "int option"
  ag_dequeued_before :: "int option"
  ag_name :: "string list"
  ag_app_version :: "string list"
  ag_executor_id :: "string list"
  ag_queue_name :: "string list"
  ag_workflow_id_prefix :: "string list"
  ag_workflow_ids :: "string list"
  ag_forked_from :: "string list"
  ag_parent_workflow_id :: "string list"
  ag_user :: "string list"
  ag_schedule_name :: "string list"
  ag_was_forked_from :: "bool option"
  ag_has_parent :: "bool option"
  ag_attributes :: "(attributes option \<Rightarrow> bool) option"

definition where_in :: "'a list \<Rightarrow> ('r \<Rightarrow> 'a option) \<Rightarrow> ('r \<Rightarrow> bool) list" where
  "where_in vs col = (if vs = [] then [] else [\<lambda>r. sql_in (col r) vs])"

definition where_from :: "int option \<Rightarrow> ('r \<Rightarrow> int option) \<Rightarrow> ('r \<Rightarrow> bool) list" where
  "where_from t col = (case t of None \<Rightarrow> []
     | Some x \<Rightarrow> [\<lambda>r. case col r of None \<Rightarrow> False | Some y \<Rightarrow> x \<le> y])"

definition where_upto :: "int option \<Rightarrow> ('r \<Rightarrow> int option) \<Rightarrow> ('r \<Rightarrow> bool) list" where
  "where_upto t col = (case t of None \<Rightarrow> []
     | Some x \<Rightarrow> [\<lambda>r. case col r of None \<Rightarrow> False | Some y \<Rightarrow> y \<le> x])"

definition aggregate_where :: "aggregate_search \<Rightarrow> (workflow_status_row \<Rightarrow> bool) list" where
  "aggregate_where c =
     where_in (ag_status c) (\<lambda>r. Some (ws_status r))
   @ where_from (ag_start_time c) (\<lambda>r. Some (ws_created_at r))
   @ where_upto (ag_end_time c) (\<lambda>r. Some (ws_created_at r))
   @ where_from (ag_completed_after c) ws_completed_at
   @ where_upto (ag_completed_before c) ws_completed_at
   @ where_from (ag_dequeued_after c) ws_started_at_epoch_ms
   @ where_upto (ag_dequeued_before c) ws_started_at_epoch_ms
   @ where_in (ag_name c) (\<lambda>r. Some (ws_name r))
   @ where_in (ag_app_version c) ws_application_version
   @ where_in (ag_executor_id c) ws_executor_id
   @ where_in (ag_queue_name c) ws_queue_name
   @ (if ag_workflow_id_prefix c = [] then []
      else [\<lambda>r. list_ex (\<lambda>p. starts_with p (ws_workflow_uuid r)) (ag_workflow_id_prefix c)])
   @ where_in (ag_workflow_ids c) (\<lambda>r. Some (ws_workflow_uuid r))
   @ where_in (ag_forked_from c) ws_forked_from
   @ where_in (ag_parent_workflow_id c) ws_parent_workflow_id
   @ where_in (ag_user c) ws_authenticated_user
   @ where_in (ag_schedule_name c) ws_schedule_name
   @ (case ag_was_forked_from c of None \<Rightarrow> [] | Some b \<Rightarrow> [\<lambda>r. ws_was_forked_from r = b])
   @ (case ag_has_parent c of None \<Rightarrow> []
      | Some b \<Rightarrow> if b then [\<lambda>r. ws_parent_workflow_id r \<noteq> None] else [\<lambda>r. ws_parent_workflow_id r = None])
   @ (case ag_attributes c of None \<Rightarrow> [] | Some contains \<Rightarrow> [\<lambda>r. contains (ws_attributes r)])"

definition aggregate_matches :: "aggregate_search \<Rightarrow> workflow_status_row \<Rightarrow> bool" where
  "aggregate_matches c r = list_all (\<lambda>clause. clause r) (aggregate_where c)"

definition get_workflow_aggregates :: "workflow_grouping \<Rightarrow> aggregate_search \<Rightarrow> sysdb \<Rightarrow> WorkflowAggregateRow list res" where
  "get_workflow_aggregates g c db =
     (if (case wg_time_bucket_size_ms g of Some b \<Rightarrow> b \<le> 0 | None \<Rightarrow> False) then Inl ValueError
      else if \<not> workflow_grouped g then Inl ValueError
      else if \<not> workflow_selected g then Inl ValueError
      else Inr (map (workflow_aggregate g)
        (sql_group (workflow_key g) (filter (aggregate_matches c) (workflow_status db)))))"

section \<open>Aggregates of steps\<close>

record step_search =
  sq_status :: "string list"
  sq_function_name :: "string list"
  sq_workflow_id_prefix :: "string list"
  sq_completed_after :: "int option"
  sq_completed_before :: "int option"

record step_grouping =
  sg_by_function_name :: bool
  sg_by_status :: bool
  sg_time_bucket_size_ms :: "int option"
  sg_select_count :: bool
  sg_select_max_duration_ms :: bool

record StepAggregateRow =
  sa_group :: group_key
  sa_count :: "int option"
  sa_max_duration_ms :: "int option"

definition step_status :: "operation_output_row \<Rightarrow> string" where
  "step_status r = (if oo_error r = None then ''SUCCESS'' else ''ERROR'')"

definition step_matches :: "step_search \<Rightarrow> operation_output_row \<Rightarrow> bool" where
  "step_matches q r \<longleftrightarrow> in_filter (sq_status q) (Some (step_status r))
   \<and> in_filter (sq_function_name q) (Some (oo_function_name r))
   \<and> (sq_workflow_id_prefix q = [] \<or> (\<exists>p \<in> set (sq_workflow_id_prefix q). starts_with p (oo_workflow_uuid r)))
   \<and> from_filter (sq_completed_after q) (oo_completed_at_epoch_ms r)
   \<and> upto_filter (sq_completed_before q) (oo_completed_at_epoch_ms r)"

definition step_key :: "step_grouping \<Rightarrow> operation_output_row \<Rightarrow> group_key" where
  "step_key g r =
     column_if (sg_by_function_name g) ''function_name'' (Some (oo_function_name r))
   @ column_if (sg_by_status g) ''status'' (Some (step_status r))
   @ time_bucket (sg_time_bucket_size_ms g) (oo_completed_at_epoch_ms r)"

definition step_aggregate :: "step_grouping \<Rightarrow> group_key \<times> operation_output_row list \<Rightarrow> StepAggregateRow" where
  "step_aggregate g kr = (case kr of (k, rows) \<Rightarrow> \<lparr>
     sa_group = k,
     sa_count = (if sg_select_count g then Some (int (length rows)) else None),
     sa_max_duration_ms = (if sg_select_max_duration_ms g
       then max_some (map (\<lambda>r. minus_null (oo_completed_at_epoch_ms r) (oo_started_at_epoch_ms r)) rows) else None)\<rparr>)"

definition get_step_aggregates :: "step_grouping \<Rightarrow> step_search \<Rightarrow> sysdb \<Rightarrow> StepAggregateRow list res" where
  "get_step_aggregates g q db =
     (if (case sg_time_bucket_size_ms g of Some b \<Rightarrow> b \<le> 0 | None \<Rightarrow> False) then Inl ValueError
      else if \<not> (sg_by_function_name g \<or> sg_by_status g \<or> sg_time_bucket_size_ms g \<noteq> None) then Inl ValueError
      else if \<not> (sg_select_count g \<or> sg_select_max_duration_ms g) then Inl ValueError
      else Inr (map (step_aggregate g) (sql_group (step_key g) (filter (step_matches q) (operation_outputs db)))))"

section \<open>Metrics\<close>

record MetricData =
  me_metric_type :: string
  me_metric_name :: string
  me_value :: int

definition metrics_of :: "string \<Rightarrow> (string \<times> 'r list) list \<Rightarrow> MetricData list" where
  "metrics_of ty groups = map (\<lambda>(k, rows). \<lparr>me_metric_type = ty, me_metric_name = k, me_value = int (length rows)\<rparr>) groups"

definition in_period :: "int \<Rightarrow> int \<Rightarrow> int option \<Rightarrow> bool" where
  "in_period start_ms end_ms t \<longleftrightarrow> (case t of None \<Rightarrow> False | Some x \<Rightarrow> start_ms \<le> x \<and> x < end_ms)"

text \<open>The period as epoch milliseconds.\<close>

definition get_metrics :: "int \<Rightarrow> int \<Rightarrow> sysdb \<Rightarrow> MetricData list" where
  "get_metrics start_ms end_ms db =
     metrics_of ''workflow_count'' (sql_group ws_name
       (filter (\<lambda>r. in_period start_ms end_ms (Some (ws_created_at r))) (workflow_status db)))
   @ metrics_of ''step_count'' (sql_group oo_function_name
       (filter (\<lambda>r. in_period start_ms end_ms (oo_completed_at_epoch_ms r)) (operation_outputs db)))"

section \<open>Steps of a workflow\<close>

record StepInfo =
  sf_function_id :: int
  sf_function_name :: string
  sf_output :: pyval
  sf_error :: pyval
  sf_child_workflow_id :: "string option"
  sf_started_at_epoch_ms :: "int option"
  sf_completed_at_epoch_ms :: "int option"

definition step_info :: "codecs \<Rightarrow> Serializer \<Rightarrow> bool \<Rightarrow> operation_output_row \<Rightarrow> StepInfo res" where
  "step_info cs sz load_output r =
     res_bind (if load_output
       then res_bind (safe_deserialize cs sz (oo_serialization r) None (oo_output r) (oo_error r)) (\<lambda>(_, out, exn). Inr (out, exn))
       else Inr (PNone, PNone)) (\<lambda>(out, exn).
     Inr \<lparr>sf_function_id = oo_function_id r, sf_function_name = oo_function_name r, sf_output = out, sf_error = exn,
       sf_child_workflow_id = oo_child_workflow_id r, sf_started_at_epoch_ms = oo_started_at_epoch_ms r,
       sf_completed_at_epoch_ms = oo_completed_at_epoch_ms r\<rparr>)"

definition list_workflow_steps ::
  "codecs \<Rightarrow> Serializer \<Rightarrow> string \<Rightarrow> bool \<Rightarrow> nat option \<Rightarrow> nat option \<Rightarrow> sysdb \<Rightarrow> StepInfo list res" where
  "list_workflow_steps cs sz wid load_output limit off db =
     (let rows = sort_key oo_function_id (filter (\<lambda>r. oo_workflow_uuid r = wid) (operation_outputs db));
          skipped = (case off of None \<Rightarrow> rows | Some n \<Rightarrow> drop n rows)
      in res_map (step_info cs sz load_output) (case limit of None \<Rightarrow> skipped | Some k \<Rightarrow> take k skipped))"

section \<open>Correctness\<close>

lemma sql_group_distinct: "distinct (map fst (sql_group key rows))"
  by (simp add: sql_group_def o_def)

lemma sql_group_mem:
  "(k, rs) \<in> set (sql_group key rows) \<longleftrightarrow> k \<in> key ` set rows \<and> rs = filter (\<lambda>r. key r = k) rows"
  by (auto simp: sql_group_def)

lemma sql_group_nonempty: "(k, rs) \<in> set (sql_group key rows) \<Longrightarrow> rs \<noteq> []"
  by (auto simp: sql_group_mem filter_empty_conv)

lemma sum_counts: "distinct ks \<Longrightarrow> key ` set rows \<subseteq> set ks \<Longrightarrow>
  (\<Sum>k\<leftarrow>ks. length (filter (\<lambda>r. key r = k) rows)) = length rows"
proof (induction rows)
  case (Cons r rows)
  have "(\<Sum>k\<leftarrow>ks. length (filter (\<lambda>x. key x = k) (r # rows)))
      = (\<Sum>k\<leftarrow>ks. (if k = key r then 1 else 0) + length (filter (\<lambda>x. key x = k) rows))"
    by (rule arg_cong [of _ _ sum_list]) auto
  also have "\<dots> = (\<Sum>k\<leftarrow>ks. if k = key r then 1 else 0) + length rows"
    using Cons by (simp add: sum_list_addf)
  also have "(\<Sum>k\<leftarrow>ks. if k = key r then 1 else 0) = (1::nat)"
    using Cons.prems by (simp add: sum_list_distinct_conv_sum_set)
  finally show ?case by simp
qed simp

text \<open>The groups partition the rows.\<close>

lemma sql_group_total: "(\<Sum>p\<leftarrow>sql_group key rows. length (snd p)) = length rows"
  using sum_counts [of "remdups (map key rows)" key rows] by (simp add: sql_group_def o_def)

lemma min_opt_SomeD:
  assumes "min_opt xs = Some m"
  shows "m \<in> set xs" and "x \<in> set xs \<Longrightarrow> m \<le> x"
proof -
  obtain n where n: "max_opt (map uminus xs) = Some n" "m = - n" using assms by (auto simp: min_opt_def)
  show "m \<in> set xs" using max_opt_SomeD(1) [OF n(1)] n(2) by auto
  show "x \<in> set xs \<Longrightarrow> m \<le> x" using max_opt_SomeD(2) [OF n(1), of "- x"] n(2) by auto
qed

lemma set_map_filter_id: "set (List.map_filter id xs) = {x. Some x \<in> set xs}"
  by (force simp: List.map_filter_def image_iff)

lemma max_some_SomeD:
  assumes "max_some xs = Some m"
  shows "Some m \<in> set xs" and "Some x \<in> set xs \<Longrightarrow> x \<le> m"
  using max_opt_SomeD [of "List.map_filter id xs" m] assms
  by (simp_all add: max_some_def set_map_filter_id)

lemma max_some_upper:
  assumes "Some x \<in> set xs"
  obtains m where "max_some xs = Some m" "x \<le> m"
proof -
  have "List.map_filter id xs \<noteq> []" using assms set_map_filter_id [of xs] by auto
  then obtain m where "max_some xs = Some m" by (auto simp: max_some_def simp flip: max_opt_None_iff)
  with that max_some_SomeD(2) assms show ?thesis by blast
qed

lemma max_opt_Max: "max_opt xs = (if xs = [] then None else Some (Max (set xs)))"
proof (cases "max_opt xs")
  case (Some m)
  from max_opt_SomeD [OF Some] have "Max (set xs) = m" by (intro Max_eqI) auto
  with Some show ?thesis by (cases xs) (auto simp: max_opt_def)
qed (simp add: max_opt_None_iff)

lemma max_some_Max:
  "max_some xs = (let vs = {x. Some x \<in> set xs} in if vs = {} then None else Some (Max vs))"
  by (simp add: max_some_def max_opt_Max flip: set_map_filter_id)

lemma min_opt_Min: "xs \<noteq> [] \<Longrightarrow> min_opt xs = Some (Min (set xs))"
proof (cases "min_opt xs")
  case (Some m)
  from min_opt_SomeD [OF Some] have "Min (set xs) = m" by (intro Min_eqI) auto
  with Some show ?thesis by simp
qed (simp add: min_opt_def max_opt_None_iff)

text \<open>
  The listing with the criteria of an aggregate query: all its workflows, without paging. The clauses of the two
  queries accept the same rows.
\<close>

definition listing_criteria :: "aggregate_search \<Rightarrow> workflow_search" where
  "listing_criteria c = \<lparr>
     wq_workflow_ids = ag_workflow_ids c, wq_status = ag_status c, wq_start_time = ag_start_time c,
     wq_end_time = ag_end_time c, wq_completed_after = ag_completed_after c,
     wq_completed_before = ag_completed_before c, wq_dequeued_after = ag_dequeued_after c,
     wq_dequeued_before = ag_dequeued_before c, wq_name = ag_name c, wq_app_version = ag_app_version c,
     wq_forked_from = ag_forked_from c, wq_parent_workflow_id = ag_parent_workflow_id c, wq_user = ag_user c,
     wq_queue_name = ag_queue_name c, wq_workflow_id_prefix = ag_workflow_id_prefix c,
     wq_executor_id = ag_executor_id c, wq_schedule_name = ag_schedule_name c, wq_attributes = ag_attributes c,
     wq_queues_only = False, wq_was_forked_from = ag_was_forked_from c, wq_has_parent = ag_has_parent c,
     wq_limit = 0, wq_offset = 0, wq_sort_desc = False\<rparr>"

lemma where_clauses:
  "list_all (\<lambda>p. p r) (where_in vs col) = in_filter vs (col r)"
  "list_all (\<lambda>p. p r) (where_from t dcol) = from_filter t (dcol r)"
  "list_all (\<lambda>p. p r) (where_upto t dcol) = upto_filter t (dcol r)"
  by (auto simp: where_in_def in_filter_def where_from_def from_filter_def where_upto_def upto_filter_def
      split: option.splits)

lemma aggregate_matches_listing: "aggregate_matches c r = search_matches (listing_criteria c) r"
proof -
  have "list_all (\<lambda>p. p r) (if ag_workflow_id_prefix c = [] then []
      else [\<lambda>r. list_ex (\<lambda>p. starts_with p (ws_workflow_uuid r)) (ag_workflow_id_prefix c)])
    = (ag_workflow_id_prefix c = [] \<or> (\<exists>p \<in> set (ag_workflow_id_prefix c). starts_with p (ws_workflow_uuid r)))"
    by (simp add: list_ex_iff)
  moreover have "list_all (\<lambda>p. p r) (case ag_was_forked_from c of None \<Rightarrow> [] | Some b \<Rightarrow> [\<lambda>r. ws_was_forked_from r = b])
    = (case ag_was_forked_from c of None \<Rightarrow> True | Some b \<Rightarrow> ws_was_forked_from r = b)"
    by (simp split: option.split)
  moreover have "list_all (\<lambda>p. p r) (case ag_has_parent c of None \<Rightarrow> []
      | Some b \<Rightarrow> if b then [\<lambda>r. ws_parent_workflow_id r \<noteq> None] else [\<lambda>r. ws_parent_workflow_id r = None])
    = (case ag_has_parent c of None \<Rightarrow> True | Some b \<Rightarrow> (ws_parent_workflow_id r \<noteq> None) = b)"
    by (simp split: option.split)
  moreover have "list_all (\<lambda>p. p r) (case ag_attributes c of None \<Rightarrow> [] | Some contains \<Rightarrow> [\<lambda>r. contains (ws_attributes r)])
    = (case ag_attributes c of None \<Rightarrow> True | Some contains \<Rightarrow> contains (ws_attributes r))"
    by (simp split: option.split)
  ultimately show ?thesis
    unfolding aggregate_matches_def aggregate_where_def search_matches_def list_all_append where_clauses
    by (simp only: listing_criteria_def workflow_search.simps) blast
qed

text \<open>The rows behind the workflow aggregates, and the shape of a successful report.\<close>

lemma get_workflow_aggregates_Inr:
  assumes "get_workflow_aggregates g c db = Inr out"
  obtains rows where "out = map (workflow_aggregate g) (sql_group (workflow_key g) rows)"
    "mset rows = mset (list_workflows (listing_criteria c) db)"
proof
  have m: "aggregate_matches c = search_matches (listing_criteria c)" by (simp add: fun_eq_iff aggregate_matches_listing)
  show "mset (filter (aggregate_matches c) (workflow_status db)) = mset (list_workflows (listing_criteria c) db)"
    by (simp add: list_workflows_def m Let_def) (simp add: listing_criteria_def)
  show "out = map (workflow_aggregate g) (sql_group (workflow_key g) (filter (aggregate_matches c) (workflow_status db)))"
    using assms by (simp add: get_workflow_aggregates_def split: if_splits)
qed

lemma workflow_aggregate_mem:
  assumes "a \<in> set (map (workflow_aggregate g) (sql_group key rows))"
  shows "wa_group a \<in> key ` set rows"
    and "a = workflow_aggregate g (wa_group a, filter (\<lambda>r. key r = wa_group a) rows)"
  using assms by (auto simp: sql_group_def workflow_aggregate_def)

text \<open>The spans that a set of workflows has between its creation and another time that may be missing.\<close>

definition spans :: "(workflow_status_row \<Rightarrow> int option) \<Rightarrow> workflow_status_row set \<Rightarrow> int set" where
  "spans col R = {t - ws_created_at r | r t. r \<in> R \<and> col r = Some t}"

definition max_span :: "(workflow_status_row \<Rightarrow> int option) \<Rightarrow> workflow_status_row set \<Rightarrow> int option" where
  "max_span col R = (if spans col R = {} then None else Some (Max (spans col R)))"

lemma max_some_spans: "max_some (map (\<lambda>r. minus_null (col r) (Some (ws_created_at r))) rows) = max_span col (set rows)"
proof -
  have "{x. Some x \<in> set (map (\<lambda>r. minus_null (col r) (Some (ws_created_at r))) rows)} = spans col (set rows)"
    by (force simp: spans_def minus_null_def image_iff split: option.splits)
  then show ?thesis by (simp only: max_some_Max max_span_def Let_def)
qed

lemma workflow_aggregate_values:
  assumes "rows \<noteq> []"
  shows "workflow_aggregate g (k, rows) = \<lparr>wa_group = k,
     wa_count = (if wg_select_count g then Some (int (length rows)) else None),
     wa_min_created_at = (if wg_select_min_created_at g then Some (Min (ws_created_at ` set rows)) else None),
     wa_max_queue_wait_ms = (if wg_select_max_queue_wait_ms g then max_span ws_started_at_epoch_ms (set rows) else None),
     wa_max_total_latency_ms = (if wg_select_max_total_latency_ms g then max_span ws_completed_at (set rows) else None)\<rparr>"
  using assms by (simp add: workflow_aggregate_def max_some_spans min_opt_Min)

lemma sql_group_keys: "set (map fst (sql_group key rows)) = key ` set rows"
  by (auto simp: sql_group_def)

lemma sum_list_of_nat: "(\<Sum>p\<leftarrow>ps. int (f p)) = int (\<Sum>p\<leftarrow>ps. f p)"
  by (induction ps) simp_all

lemma length_filter_mset: "mset xs = mset ys \<Longrightarrow> length (filter P xs) = length (filter P ys)"
  by (metis mset_filter size_mset)

text \<open>
  C27: Workflow aggregates report the workflows that \<^verbatim>\<open>list_workflows\<close> finds with the same criteria, although the two
  queries build their \<^verbatim>\<open>where\<close> clauses separately: one row per value of the key that occurs among them, with the
  selected values computed from exactly the workflows of that key: their number, so that the counts add up to the
  length of the listing, their earliest creation, and the longest time from creation to dequeue and to completion of
  those that have one. A value that is not selected is \<open>None\<close>.
\<close>

theorem workflow_aggregates_correct:
  assumes "get_workflow_aggregates g c db = Inr out"
  defines "whole \<equiv> list_workflows (listing_criteria c) db"
  shows "distinct (map wa_group out) \<and> set (map wa_group out) = workflow_key g ` set whole
   \<and> (wg_select_count g \<longrightarrow> (\<Sum>a\<leftarrow>out. the (wa_count a)) = int (length whole))
   \<and> (\<forall>a \<in> set out. let members = filter (\<lambda>r. workflow_key g r = wa_group a) whole in
        wa_count a = (if wg_select_count g then Some (int (length members)) else None)
      \<and> wa_min_created_at a = (if wg_select_min_created_at g then Some (Min (ws_created_at ` set members)) else None)
      \<and> wa_max_queue_wait_ms a = (if wg_select_max_queue_wait_ms g
          then max_span ws_started_at_epoch_ms (set members) else None)
      \<and> wa_max_total_latency_ms a = (if wg_select_max_total_latency_ms g
          then max_span ws_completed_at (set members) else None))"
proof -
  obtain rows where out: "out = map (workflow_aggregate g) (sql_group (workflow_key g) rows)"
    and ms: "mset rows = mset whole"
    using get_workflow_aggregates_Inr [OF assms(1)] unfolding whole_def by blast
  have sw: "set rows = set whole" using ms by (rule mset_eq_setD)
  have g: "map wa_group out = map fst (sql_group (workflow_key g) rows)"
    by (simp add: out workflow_aggregate_def split_def)
  have total: "(\<Sum>a\<leftarrow>out. the (wa_count a)) = int (length whole)" if "wg_select_count g"
  proof -
    have "(\<Sum>a\<leftarrow>out. the (wa_count a)) = (\<Sum>p\<leftarrow>sql_group (workflow_key g) rows. int (length (snd p)))"
      using that by (simp add: out workflow_aggregate_def split_def o_def)
    then show ?thesis by (simp add: sum_list_of_nat sql_group_total mset_eq_length [OF ms])
  qed
  have each: "wa_count a = (if wg_select_count g then Some (int (length ms)) else None)
      \<and> wa_min_created_at a = (if wg_select_min_created_at g then Some (Min (ws_created_at ` set ms)) else None)
      \<and> wa_max_queue_wait_ms a = (if wg_select_max_queue_wait_ms g then max_span ws_started_at_epoch_ms (set ms) else None)
      \<and> wa_max_total_latency_ms a = (if wg_select_max_total_latency_ms g then max_span ws_completed_at (set ms) else None)"
    if a: "a = workflow_aggregate g (k, ms)" and ne: "ms \<noteq> []" for a k ms
    unfolding a workflow_aggregate_values [OF ne] by (simp only: WorkflowAggregateRow.select_convs simp_thms)
  have members: "length (filter P rows) = length (filter P whole)" "set (filter P rows) = set (filter P whole)" for P
    using length_filter_mset [OF ms] sw by auto
  have "let members = filter (\<lambda>r. workflow_key g r = wa_group a) whole in
        wa_count a = (if wg_select_count g then Some (int (length members)) else None)
      \<and> wa_min_created_at a = (if wg_select_min_created_at g then Some (Min (ws_created_at ` set members)) else None)
      \<and> wa_max_queue_wait_ms a = (if wg_select_max_queue_wait_ms g
          then max_span ws_started_at_epoch_ms (set members) else None)
      \<and> wa_max_total_latency_ms a = (if wg_select_max_total_latency_ms g
          then max_span ws_completed_at (set members) else None)" if "a \<in> set out" for a
  proof -
    let ?members = "filter (\<lambda>r. workflow_key g r = wa_group a) rows"
    have k: "wa_group a \<in> workflow_key g ` set rows" and a: "a = workflow_aggregate g (wa_group a, ?members)"
      using workflow_aggregate_mem that unfolding out by blast+
    have "?members \<noteq> []" using k by (auto simp: filter_empty_conv)
    from each [OF a this] show ?thesis unfolding Let_def members .
  qed
  moreover have "distinct (map wa_group out)" "set (map wa_group out) = workflow_key g ` set whole"
    unfolding g by (rule sql_group_distinct) (simp only: sql_group_keys sw)
  ultimately show ?thesis using total by blast
qed

definition example_grouping :: workflow_grouping where
  "example_grouping = \<lparr>wg_by_status = True, wg_by_name = False, wg_by_queue_name = True, wg_by_executor_id = False,
     wg_by_application_version = False, wg_time_bucket_size_ms = Some 1000, wg_select_count = True,
     wg_select_min_created_at = True, wg_select_max_queue_wait_ms = True, wg_select_max_total_latency_ms = True\<rparr>"

definition example_criteria :: aggregate_search where
  "example_criteria = \<lparr>
     ag_status = [PENDING], ag_start_time = Some 10, ag_end_time = None, ag_completed_after = None,
     ag_completed_before = None, ag_dequeued_after = None, ag_dequeued_before = None, ag_name = [], ag_app_version = [],
     ag_executor_id = [], ag_queue_name = [], ag_workflow_id_prefix = [''w''], ag_workflow_ids = [], ag_forked_from = [],
     ag_parent_workflow_id = [], ag_user = [], ag_schedule_name = [], ag_was_forked_from = None,
     ag_has_parent = Some False, ag_attributes = None\<rparr>"

theorem workflow_aggregates_correct_witness:
  "\<exists>out. get_workflow_aggregates example_grouping example_criteria (example_db [''w1'', ''w2'', ''x'']) = Inr out
     \<and> (\<Sum>a\<leftarrow>out. the (wa_count a)) = 2"
proof -
  let ?db = "example_db [''w1'', ''w2'', ''x'']"
  have ok: "get_workflow_aggregates example_grouping example_criteria ?db
      = Inr (map (workflow_aggregate example_grouping) (sql_group (workflow_key example_grouping)
          (filter (aggregate_matches example_criteria) (workflow_status ?db))))"
    by (simp add: get_workflow_aggregates_def example_grouping_def workflow_grouped_def workflow_selected_def)
  have "length (list_workflows (listing_criteria example_criteria) ?db) = 2"
    by code_simp
  then show ?thesis using workflow_aggregates_correct [OF ok] ok by (auto simp: example_grouping_def)
qed

text \<open>
  Step aggregates likewise partition the recorded steps that match the criteria: one row per key that occurs,
  with the number of its steps; no step with both times recorded took longer than the maximum of its group.
\<close>

theorem step_aggregates_correct:
  assumes "get_step_aggregates g q db = Inr out"
  defines "whole \<equiv> filter (step_matches q) (operation_outputs db)"
  shows "distinct (map sa_group out)" and "set (map sa_group out) = step_key g ` set whole"
    and "sg_select_count g \<Longrightarrow> (\<Sum>a\<leftarrow>out. the (sa_count a)) = int (length whole)"
    and "a \<in> set out \<Longrightarrow> sg_select_count g \<Longrightarrow>
      sa_count a = Some (int (length (filter (\<lambda>r. step_key g r = sa_group a) whole)))"
    and "a \<in> set out \<Longrightarrow> sg_select_max_duration_ms g \<Longrightarrow> r \<in> set whole \<Longrightarrow> step_key g r = sa_group a \<Longrightarrow>
      oo_started_at_epoch_ms r = Some t \<Longrightarrow> oo_completed_at_epoch_ms r = Some u \<Longrightarrow>
      \<exists>m. sa_max_duration_ms a = Some m \<and> u - t \<le> m"
proof -
  have out: "out = map (step_aggregate g) (sql_group (step_key g) whole)"
    using assms(1) by (simp add: get_step_aggregates_def whole_def split: if_splits)
  have g: "map sa_group out = map fst (sql_group (step_key g) whole)"
    by (simp add: out step_aggregate_def split_def)
  show "distinct (map sa_group out)" "set (map sa_group out) = step_key g ` set whole"
    unfolding g by (rule sql_group_distinct sql_group_keys)+
  show "(\<Sum>a\<leftarrow>out. the (sa_count a)) = int (length whole)" if "sg_select_count g"
    using that by (simp add: out step_aggregate_def split_def o_def sum_list_of_nat sql_group_total)
  assume a: "a \<in> set out"
  let ?members = "filter (\<lambda>r. step_key g r = sa_group a) whole"
  have am: "a = step_aggregate g (sa_group a, ?members)"
    using a by (auto simp: out sql_group_def step_aggregate_def)
  show "sa_count a = Some (int (length ?members))" if "sg_select_count g"
    by (subst am) (simp add: step_aggregate_def that)
  show "\<exists>m. sa_max_duration_ms a = Some m \<and> u - t \<le> m"
    if g: "sg_select_max_duration_ms g" and r: "r \<in> set whole" "step_key g r = sa_group a"
      "oo_started_at_epoch_ms r = Some t" "oo_completed_at_epoch_ms r = Some u"
  proof -
    let ?times = "map (\<lambda>r. minus_null (oo_completed_at_epoch_ms r) (oo_started_at_epoch_ms r)) ?members"
    have "Some (u - t) \<in> set ?times" using r by (force simp: minus_null_def)
    then obtain m where m: "max_some ?times = Some m" "u - t \<le> m" by (rule max_some_upper)
    have "sa_max_duration_ms a = max_some ?times" by (subst am) (simp add: step_aggregate_def g)
    with m show ?thesis by simp
  qed
qed

text \<open>The metrics of adjacent periods add up: a workflow or step is counted in exactly one of them.\<close>

definition metric_value :: "string \<Rightarrow> string \<Rightarrow> MetricData list \<Rightarrow> int" where
  "metric_value ty name ms = sum_list (map me_value (filter (\<lambda>m. me_metric_type m = ty \<and> me_metric_name m = name) ms))"

lemma metric_value_append [simp]: "metric_value ty name (xs @ ys) = metric_value ty name xs + metric_value ty name ys"
  by (simp add: metric_value_def)

lemma metric_value_metrics_of:
  "metric_value ty name (metrics_of ty' (sql_group key rows)) =
     (if ty = ty' then int (length (filter (\<lambda>r. key r = name) rows)) else 0)"
proof (cases "ty = ty'")
  case True
  have "filter (\<lambda>m. me_metric_type m = ty \<and> me_metric_name m = name) (metrics_of ty' (sql_group key rows))
      = metrics_of ty' (filter (\<lambda>p. fst p = name) (sql_group key rows))"
    using True by (simp add: metrics_of_def filter_map o_def split_def)
  also have "filter (\<lambda>p. fst p = name) (sql_group key rows)
      = (if name \<in> key ` set rows then [(name, filter (\<lambda>r. key r = name) rows)] else [])"
  proof -
    have "filter (\<lambda>k. k = name) (remdups (map key rows)) = (if name \<in> key ` set rows then [name] else [])"
      using filter_key_unique [of id "remdups (map key rows)" name] by (auto simp: filter_empty_conv)
    then show ?thesis by (simp add: sql_group_def filter_map o_def)
  qed
  finally show ?thesis using True
    by (auto simp: metric_value_def metrics_of_def filter_empty_conv)
qed (auto simp: metric_value_def metrics_of_def filter_map o_def split_def)

lemma length_filter_split:
  "(\<And>x. x \<in> set xs \<Longrightarrow> P x = (Q x \<or> R x)) \<Longrightarrow> (\<And>x. x \<in> set xs \<Longrightarrow> \<not> (Q x \<and> R x)) \<Longrightarrow>
   length (filter P xs) = length (filter Q xs) + length (filter R xs)"
  by (induction xs) auto

theorem metrics_additive:
  assumes "a \<le> b" "b \<le> c"
  shows "metric_value ty name (get_metrics a c db)
       = metric_value ty name (get_metrics a b db) + metric_value ty name (get_metrics b c db)"
proof -
  have split: "in_period a c t = (in_period a b t \<or> in_period b c t)" "\<not> (in_period a b t \<and> in_period b c t)" for t
    using assms by (auto simp: in_period_def split: option.splits)
  have add: "length (filter (\<lambda>r. key r = name \<and> in_period a c (f r)) rows)
      = length (filter (\<lambda>r. key r = name \<and> in_period a b (f r)) rows)
      + length (filter (\<lambda>r. key r = name \<and> in_period b c (f r)) rows)" for key :: "'r \<Rightarrow> string" and f rows
    by (rule length_filter_split) (use split in blast)+
  show ?thesis
    by (simp add: get_metrics_def metric_value_metrics_of conj_commute add)
qed

text \<open>
  The steps of a workflow come in the order of their function IDs, each once, and a page is a slice of the whole list.
\<close>

lemma res_map_slice:
  assumes "res_map f xs = Inr ys"
  shows "res_map f (take k (drop n xs)) = Inr (take k (drop n ys))"
  using assms by (auto simp: res_map_Inr_iff)

lemma sort_key_strict: "distinct (map f xs) \<Longrightarrow> sorted_wrt (<) (map f (sort_key f xs))" for f :: "'a \<Rightarrow> int"
proof -
  assume d: "distinct (map f xs)"
  have "mset (map f (sort_key f xs)) = mset (map f xs)" by simp
  with d have "distinct (map f (sort_key f xs))" by (metis mset_eq_imp_distinct_iff)
  then show ?thesis by (simp add: strict_sorted_iff)
qed

theorem list_workflow_steps_correct:
  assumes inv: "sysdb_inv db"
  assumes run: "list_workflow_steps cs sz wid load_output None None db = Inr steps"
  shows "sorted_wrt (<) (map sf_function_id steps)"
    and "set (map sf_function_id steps) = {fid. \<exists>r \<in> set (operation_outputs db). oo_pk r = (wid, fid)}"
    and "list_workflow_steps cs sz wid load_output (Some k) (Some n) db = Inr (take k (drop n steps))"
proof -
  let ?mine = "filter (\<lambda>r. oo_workflow_uuid r = wid) (operation_outputs db)"
  let ?rows = "sort_key oo_function_id ?mine"
  have m: "res_map (step_info cs sz load_output) ?rows = Inr steps" using run by (simp add: list_workflow_steps_def)
  have id: "sf_function_id y = oo_function_id x" if "step_info cs sz load_output x = Inr y" for x y
    using that by (auto simp: step_info_def res_bind_def split: sum.splits)
  have ids: "map sf_function_id steps = map oo_function_id ?rows"
    using m by (auto simp: res_map_Inr_iff intro!: nth_equalityI id)
  have "distinct (map oo_pk ?mine)" using inv by (auto simp: sysdb_inv_def children_ok_def child_ok_def distinct_map_filter)
  then have "distinct (map oo_function_id ?mine)" by (auto simp: distinct_map inj_on_def)
  then show "sorted_wrt (<) (map sf_function_id steps)" unfolding ids by (rule sort_key_strict)
  show "set (map sf_function_id steps) = {fid. \<exists>r \<in> set (operation_outputs db). oo_pk r = (wid, fid)}"
    unfolding ids by auto
  show "list_workflow_steps cs sz wid load_output (Some k) (Some n) db = Inr (take k (drop n steps))"
    using res_map_slice [OF m] by (simp add: list_workflow_steps_def)
qed

end
