(* ===== verification/DBOS_Datasource.thy ===== *)
theory DBOS_Datasource
  imports DBOS_Replay DBOS_Transactions
begin

text \<open>
  Data sources (\<^verbatim>\<open>dbos/_datasource.py\<close>): transactions on a database of the user's own, run as steps of a
  workflow. The database has a table of outputs beside the user's data, and the outcome of a transaction
  is recorded there in the same transaction as its effect, before the step is recorded in the system database.
  The effect happens at most once however the driver behaves, also when it loses the answer to a commit, and
  a transaction that returned is replayed from one of the two records.
\<close>

section \<open>State\<close>

record datasource_output_row =
  do_workflow_id :: string
  do_step_id :: int
  do_output :: "string option"
  do_error :: "string option"
  do_serialization :: "string option"
  do_created_at :: int

record 'd datasource_db =
  ds_data :: 'd
  datasource_outputs :: "datasource_output_row list"

abbreviation do_pk :: "datasource_output_row \<Rightarrow> string \<times> int" where
  "do_pk r \<equiv> (do_workflow_id r, do_step_id r)"

definition datasource_inv :: "'d datasource_db \<Rightarrow> bool" where
  "datasource_inv ds \<longleftrightarrow> distinct (map do_pk (datasource_outputs ds))"

type_synonym ('d, 'v) ds_world = "('d datasource_db \<times> 'v) world"
type_synonym ('d, 'v) ds_func = "DBOSContext \<Rightarrow> sysdb \<times> 'd \<times> 'v \<Rightarrow> pyval res \<times> sysdb \<times> 'd \<times> 'v"

text \<open>
  The driver: which errors it reports as transient (\<^verbatim>\<open>retriable_postgres_exception\<close>, \<^verbatim>\<open>_is_serialization_error\<close>),
  and how the reads and commits of the successive attempts end. A commit can fail, and it can succeed
  in the database although the connection breaks before the answer arrives.
\<close>

datatype commit_answer = Committed | CommitFailed dbos_error | CommitLost dbos_error

record ds_driver =
  dv_retriable :: "dbos_error \<Rightarrow> bool"
  dv_read :: "nat \<Rightarrow> dbos_error option"
  dv_commit :: "nat \<Rightarrow> commit_answer"

section \<open>The table of outputs\<close>

record DatasourceRecordedResult =
  dr_output :: "string option"
  dr_error :: "string option"
  dr_serialization :: "string option"

definition output_of :: "string \<Rightarrow> int \<Rightarrow> 'd datasource_db \<Rightarrow> datasource_output_row option" where
  "output_of wid sid ds = fetchone (filter (\<lambda>r. do_pk r = (wid, sid)) (datasource_outputs ds))"

definition row_to_result :: "datasource_output_row option \<Rightarrow> DatasourceRecordedResult option" where
  "row_to_result = map_option (\<lambda>r. \<lparr>dr_output = do_output r, dr_error = do_error r, dr_serialization = do_serialization r\<rparr>)"

definition check_execution :: "string \<Rightarrow> int \<Rightarrow> 'd datasource_db \<Rightarrow> DatasourceRecordedResult option" where
  "check_execution wid sid ds = row_to_result (output_of wid sid ds)"

definition ds_record_result ::
  "string \<Rightarrow> int \<Rightarrow> string option \<Rightarrow> string option \<Rightarrow> string option \<Rightarrow> int \<Rightarrow> 'd datasource_db \<Rightarrow> 'd datasource_db res" where
  "ds_record_result wid sid out err ser t ds =
     (if (wid, sid) \<in> do_pk ` set (datasource_outputs ds) then Inl UniqueViolation
      else Inr (ds\<lparr>datasource_outputs := datasource_outputs ds @ [\<lparr>do_workflow_id = wid, do_step_id = sid,
        do_output = out, do_error = err, do_serialization = ser, do_created_at = t\<rparr>]\<rparr>))"

definition replay_recorded :: "codecs \<Rightarrow> Serializer \<Rightarrow> DatasourceRecordedResult \<Rightarrow> pyval res" where
  "replay_recorded cs sz rr =
     (if dr_error rr \<noteq> None \<and> dr_error rr \<noteq> Some []
      then res_bind (deserialize_exception cs (the (dr_error rr)) (dr_serialization rr) sz) Inl
      else if dr_output rr \<noteq> None
      then deserialize_value cs (dr_output rr) (dr_serialization rr) sz
      else Inl (DBOSException ''Datasource recorded output and error are both None''))"

section \<open>Running a transaction\<close>

text \<open>
  The loops retry as long as the driver reports transient errors. \<open>fuel\<close> bounds the attempts that the process
  lives to make: then the wait is interrupted, by an exception that is not an \<^verbatim>\<open>Exception\<close> and that no handler
  records.
\<close>

definition ds_sleep :: "('d datasource_db \<times> 'v) dbos_env \<Rightarrow> rat \<Rightarrow> ('d, 'v) ds_world \<Rightarrow> ('d, 'v) ds_world" where
  "ds_sleep en wait s = (fst s, fst (snd s), snd (en_sleep en wait (snd s)))"

definition next_wait :: "rat \<Rightarrow> rat" where
  "next_wait wait = min (wait * (3 / 2)) 2"

fun check_execution_with_retry ::
  "('d datasource_db \<times> 'v) dbos_env \<Rightarrow> ds_driver \<Rightarrow> string \<Rightarrow> int \<Rightarrow> nat \<Rightarrow> nat \<Rightarrow> rat
   \<Rightarrow> (DatasourceRecordedResult option, ('d, 'v) ds_world) comp" where
  "check_execution_with_retry en dv wid sid 0 i wait s = (Inl CancelledError, s)"
| "check_execution_with_retry en dv wid sid (Suc fuel) i wait s = (case dv_read dv i of
     None \<Rightarrow> (Inr (check_execution wid sid (fst (snd s))), s)
   | Some e \<Rightarrow>
       if dv_retriable dv e
       then check_execution_with_retry en dv wid sid fuel (Suc i) (next_wait wait) (ds_sleep en wait s)
       else (Inl e, s))"

text \<open>
  One attempt: the function and, in a workflow, the record of its output, in one transaction of the data source.
  Without a commit the data source is as it was; what the function did elsewhere stays.
\<close>

definition ds_attempt ::
  "('d datasource_db \<times> 'v) dbos_env \<Rightarrow> Serializer \<Rightarrow> (string \<times> int) option \<Rightarrow> ('d, 'v) ds_func \<Rightarrow> DBOSContext
   \<Rightarrow> commit_answer \<Rightarrow> (pyval, ('d, 'v) ds_world) comp" where
  "ds_attempt en sz rid func c answer s = (case s of (db, ds, v) \<Rightarrow>
     (case func c (db, ds_data ds, v) of (r, db1, d1, v1) \<Rightarrow>
        (case res_bind r (\<lambda>out. case rid of
                  None \<Rightarrow> Inr (out, ds\<lparr>ds_data := d1\<rparr>)
                | Some (wid, sid) \<Rightarrow>
                    res_bind (serialize_value (en_codecs en) out None sz) (\<lambda>(t, ser).
                    res_bind (ds_record_result wid sid (Some t) None (Some ser) (en_clock en (ds, v1)) (ds\<lparr>ds_data := d1\<rparr>))
                      (\<lambda>ds2. Inr (out, ds2)))) of
           Inl e \<Rightarrow> (Inl e, (db1, ds, v1))
         | Inr (out, ds2) \<Rightarrow> (case answer of
             Committed \<Rightarrow> (Inr out, (db1, ds2, v1))
           | CommitFailed e \<Rightarrow> (Inl e, (db1, ds, v1))
           | CommitLost e \<Rightarrow> (Inl e, (db1, ds2, v1))))))"

definition record_error ::
  "('d datasource_db \<times> 'v) dbos_env \<Rightarrow> Serializer \<Rightarrow> (string \<times> int) option \<Rightarrow> dbos_error
   \<Rightarrow> (pyval, ('d, 'v) ds_world) comp" where
  "record_error en sz rid e s = (case rid of
     None \<Rightarrow> (Inl e, s)
   | Some (wid, sid) \<Rightarrow>
       (case serialize_exception (en_reflection en) (en_codecs en) e None sz of
          Inl e' \<Rightarrow> (Inl e', s)
        | Inr (err, ser) \<Rightarrow>
            (case ds_record_result wid sid None (Some err) (Some ser) (en_clock en (snd s)) (fst (snd s)) of
               Inl e' \<Rightarrow> (Inl e', s)
             | Inr ds' \<Rightarrow> (Inl e, (fst s, ds', snd (snd s))))))"

fun ds_loop ::
  "('d datasource_db \<times> 'v) dbos_env \<Rightarrow> Serializer \<Rightarrow> ds_driver \<Rightarrow> (string \<times> int) option \<Rightarrow> ('d, 'v) ds_func
   \<Rightarrow> DBOSContext \<Rightarrow> nat \<Rightarrow> nat \<Rightarrow> rat \<Rightarrow> (pyval, ('d, 'v) ds_world) comp" where
  "ds_loop en sz dv rid func c 0 i wait s = (Inl CancelledError, s)"
| "ds_loop en sz dv rid func c (Suc fuel) i wait s = (case ds_attempt en sz rid func c (dv_commit dv i) s of
     (Inr out, s1) \<Rightarrow> (Inr out, s1)
   | (Inl e, s1) \<Rightarrow>
       if \<not> is_Exception e then (Inl e, s1)
       else if dv_retriable dv e
       then ds_loop en sz dv rid func c fuel (Suc i) (next_wait wait) (ds_sleep en wait s1)
       else record_error en sz rid e s1)"

definition start_ds_transaction :: "bool \<Rightarrow> DBOSContext \<Rightarrow> DBOSContext" where
  "start_ds_transaction async c = (if async then start_async_ds_transaction c else start_sync_ds_transaction c)"

text \<open>\<^verbatim>\<open>_body\<close>, in the context of the step, or of the caller outside a workflow.\<close>

definition ds_body ::
  "('d datasource_db \<times> 'v) dbos_env \<Rightarrow> Serializer \<Rightarrow> ds_driver \<Rightarrow> nat \<Rightarrow> bool \<Rightarrow> bool \<Rightarrow> ('d, 'v) ds_func \<Rightarrow> DBOSContext
   \<Rightarrow> (pyval, ('d, 'v) ds_world) comp" where
  "ds_body en sz dv fuel async in_wf func c s =
     (let c' = start_ds_transaction async c; wid = cx_workflow_id c; sid = cx_curr_step_function_id c in
      if in_wf
      then (case check_execution_with_retry en dv wid sid fuel 0 (1 / 1000) s of
              (Inl e, s1) \<Rightarrow> (Inl e, s1)
            | (Inr (Some rr), s1) \<Rightarrow> (replay_recorded (en_codecs en) sz rr, s1)
            | (Inr None, s1) \<Rightarrow> ds_loop en sz dv (Some (wid, sid)) func c' fuel 0 (1 / 1000) s1)
      else ds_loop en sz dv None func c' fuel 0 (1 / 1000) s)"

record ('d, 'v) ds_call =
  dc_func :: "('d, 'v) ds_func"
  dc_is_coroutine :: bool
  dc_qualname :: string
  dc_name :: "string option"

definition ds_name :: "('d, 'v) ds_call \<Rightarrow> string" where
  "ds_name call = (case dc_name call of Some n \<Rightarrow> if n = [] then dc_qualname call else n | None \<Rightarrow> dc_qualname call)"

definition ds_step_call ::
  "('d datasource_db \<times> 'v) dbos_env \<Rightarrow> Serializer \<Rightarrow> ds_driver \<Rightarrow> nat \<Rightarrow> bool \<Rightarrow> ('d, 'v) ds_func
   \<Rightarrow> ('d, 'v) ds_world step_call" where
  "ds_step_call en sz dv fuel async func = \<lparr>sc_func = ds_body en sz dv fuel async True func, sc_is_async = async,
     sc_qualname = ''_body'', sc_should_retry_async = False, sc_polls = (\<lambda>s. [])\<rparr>"

text \<open>The common code of \<^verbatim>\<open>run_tx_step\<close> and \<^verbatim>\<open>run_tx_step_async\<close>; \<open>cur\<close> is the context of the caller.\<close>

definition run_ds_step ::
  "('d datasource_db \<times> 'v) dbos_env \<Rightarrow> DBOSContext \<Rightarrow> Serializer \<Rightarrow> ds_driver \<Rightarrow> nat \<Rightarrow> bool \<Rightarrow> DBOSContext option
   \<Rightarrow> ('d, 'v) ds_call \<Rightarrow> ('d, 'v) ds_world \<Rightarrow> (pyval res \<times> ('d, 'v) ds_world) \<times> DBOSContext option" where
  "run_ds_step en blank sz dv fuel async cur call s =
     (if dc_is_coroutine call \<noteq> async then ((Inl (DBOSException ''Function and data source do not match''), s), cur)
      else case cur of
        Some c \<Rightarrow>
          if is_workflow c
          then run_step en blank cur (ds_step_call en sz dv fuel async (dc_func call)) [OptName (Some (ds_name call))] s
          else (ds_body en sz dv fuel async False (dc_func call) c s, cur)
      | None \<Rightarrow> (ds_body en sz dv fuel async False (dc_func call) blank s, cur))"

definition run_tx_step ::
  "('d datasource_db \<times> 'v) dbos_env \<Rightarrow> DBOSContext \<Rightarrow> Serializer \<Rightarrow> ds_driver \<Rightarrow> nat \<Rightarrow> DBOSContext option
   \<Rightarrow> ('d, 'v) ds_call \<Rightarrow> ('d, 'v) ds_world \<Rightarrow> (pyval res \<times> ('d, 'v) ds_world) \<times> DBOSContext option" where
  "run_tx_step en blank sz dv fuel = run_ds_step en blank sz dv fuel False"

definition run_tx_step_async ::
  "('d datasource_db \<times> 'v) dbos_env \<Rightarrow> DBOSContext \<Rightarrow> Serializer \<Rightarrow> ds_driver \<Rightarrow> nat \<Rightarrow> DBOSContext option
   \<Rightarrow> ('d, 'v) ds_call \<Rightarrow> ('d, 'v) ds_world \<Rightarrow> (pyval res \<times> ('d, 'v) ds_world) \<times> DBOSContext option" where
  "run_tx_step_async en blank sz dv fuel = run_ds_step en blank sz dv fuel True"

section \<open>Effects\<close>

lemma ds_sleep_parts [simp]:
  "fst (ds_sleep en wait s) = fst s" "fst (snd (ds_sleep en wait s)) = fst (snd s)"
  by (simp_all add: ds_sleep_def)

lemma output_of_None_iff: "output_of wid sid ds = None \<longleftrightarrow> (wid, sid) \<notin> do_pk ` set (datasource_outputs ds)"
  by (auto simp: output_of_def filter_empty_conv)

lemma output_of_data [simp]: "output_of wid sid (ds\<lparr>ds_data := d\<rparr>) = output_of wid sid ds"
  by (simp add: output_of_def)

lemma ds_record_result_fresh:
  assumes "output_of wid sid ds = None"
  obtains row where "ds_record_result wid sid out err ser t ds = Inr (ds\<lparr>datasource_outputs := datasource_outputs ds @ [row]\<rparr>)"
    "do_output row = out" "do_error row = err" "do_serialization row = ser"
    "output_of wid sid (ds\<lparr>datasource_outputs := datasource_outputs ds @ [row]\<rparr>) = Some row"
proof
  let ?row = "\<lparr>do_workflow_id = wid, do_step_id = sid, do_output = out, do_error = err, do_serialization = ser, do_created_at = t\<rparr>"
  show "ds_record_result wid sid out err ser t ds = Inr (ds\<lparr>datasource_outputs := datasource_outputs ds @ [?row]\<rparr>)"
    using assms by (auto simp: ds_record_result_def output_of_None_iff)
  have "filter (\<lambda>r. do_pk r = (wid, sid)) (datasource_outputs ds) = []" using assms by (simp add: output_of_def)
  then show "output_of wid sid (ds\<lparr>datasource_outputs := datasource_outputs ds @ [?row]\<rparr>) = Some ?row"
    by (simp add: output_of_def)
qed simp_all

lemma ds_record_result_taken: "output_of wid sid ds = Some row \<Longrightarrow> ds_record_result wid sid out err ser t ds = Inl UniqueViolation"
  using output_of_None_iff [of wid sid ds] by (auto simp: ds_record_result_def)

lemma ds_record_result_inv:
  "ds_record_result wid sid out err ser t ds = Inr ds' \<Longrightarrow> datasource_inv ds \<Longrightarrow> datasource_inv ds'"
  by (auto simp: ds_record_result_def datasource_inv_def split: if_splits)

text \<open>
  What a transaction of a workflow has made of the data source: nothing; nothing but the record of an
  error; or what one execution of the function made of the data, together with the record of its output.
\<close>

datatype 'd ds_effect = Untouched | Failed | Applied 'd pyval

definition ds_outcome :: "codecs \<Rightarrow> Serializer \<Rightarrow> string \<Rightarrow> int \<Rightarrow> 'd datasource_db \<Rightarrow> 'd datasource_db \<Rightarrow> 'd ds_effect \<Rightarrow> bool" where
  "ds_outcome cs sz wid sid ds ds' x = (case x of
     Untouched \<Rightarrow> ds' = ds
   | Failed \<Rightarrow> ds_data ds' = ds_data ds \<and> (\<exists>row. output_of wid sid ds' = Some row \<and> do_output row = None)
   | Applied d out \<Rightarrow> ds_data ds' = d \<and> (\<exists>row t ser. output_of wid sid ds' = Some row
       \<and> serialize_value cs out None sz = Inr (t, ser)
       \<and> do_output row = Some t \<and> do_error row = None \<and> do_serialization row = Some ser))"

lemma ds_attempt_fresh:
  assumes fresh: "output_of wid sid ds = None"
    and att: "ds_attempt en sz (Some (wid, sid)) func c answer (db, ds, v) = (r, (db1, ds1, v1))"
  shows "(ds1 = ds \<and> (\<exists>e. r = Inl e)) \<or> (\<exists>d out. func c (db, ds_data ds, v) = (Inr out, db1, d, v1)
      \<and> ds_outcome (en_codecs en) sz wid sid ds ds1 (Applied d out) \<and> (\<forall>w. r = Inr w \<longrightarrow> w = out))"
proof -
  obtain r0 db0 d v0 where f: "func c (db, ds_data ds, v) = (r0, db0, d, v0)" by (metis prod.exhaust)
  show ?thesis
  proof (cases "res_bind r0 (\<lambda>out. serialize_value (en_codecs en) out None sz)")
    case (Inl e)
    with att f show ?thesis by (cases r0) (auto simp: ds_attempt_def)
  next
    case (Inr p)
    then obtain out t ser where r0: "r0 = Inr out" "serialize_value (en_codecs en) out None sz = Inr (t, ser)"
      by (cases p) (auto simp: res_bind_Inr_iff)
    have "output_of wid sid (ds\<lparr>ds_data := d\<rparr>) = None" using fresh by simp
    from ds_record_result_fresh [OF this, of "Some t" None "Some ser" "en_clock en (ds, v0)"] obtain row where
      row: "ds_record_result wid sid (Some t) None (Some ser) (en_clock en (ds, v0)) (ds\<lparr>ds_data := d\<rparr>)
         = Inr (ds\<lparr>ds_data := d, datasource_outputs := datasource_outputs ds @ [row]\<rparr>)"
      "do_output row = Some t" "do_error row = None" "do_serialization row = Some ser"
      "output_of wid sid (ds\<lparr>ds_data := d, datasource_outputs := datasource_outputs ds @ [row]\<rparr>) = Some row"
      by auto
    show ?thesis
    proof (cases answer)
      case (CommitFailed e)
      with att f r0 row show ?thesis by (auto simp: ds_attempt_def)
    qed (use att f r0 row in \<open>auto simp: ds_attempt_def ds_outcome_def\<close>)
  qed
qed

lemma ds_attempt_taken:
  assumes "output_of wid sid ds = Some row"
    and "ds_attempt en sz (Some (wid, sid)) func c answer (db, ds, v) = (r, (db1, ds1, v1))"
  shows "ds1 = ds \<and> (\<exists>e. r = Inl e)"
  using assms ds_record_result_taken [of wid sid "ds\<lparr>ds_data := _\<rparr>" row]
  by (auto simp: ds_attempt_def res_bind_def split: sum.splits prod.splits)

lemma record_error_raises: "\<exists>e'. fst (record_error en sz rid e s) = Inl e'"
  by (auto simp: record_error_def split: option.splits prod.splits sum.splits)

lemma record_error_effect:
  assumes "record_error en sz (Some (wid, sid)) e (db, ds, v) = (r, (db', ds', v'))"
  shows "ds' = ds \<or> output_of wid sid ds = None \<and> ds_outcome cs sz' wid sid ds ds' Failed"
proof (cases "output_of wid sid ds")
  case (Some row)
  from ds_record_result_taken [OF Some] assms show ?thesis by (auto simp: record_error_def split: sum.splits)
next
  case None
  show ?thesis
  proof (cases "serialize_exception (en_reflection en) (en_codecs en) e None sz")
    case (Inr p)
    obtain err ser where p: "p = (err, ser)" by (cases p)
    from ds_record_result_fresh [OF None, of None "Some err" "Some ser" "en_clock en (ds, v)"] obtain row where
      "ds_record_result wid sid None (Some err) (Some ser) (en_clock en (ds, v)) ds
        = Inr (ds\<lparr>datasource_outputs := datasource_outputs ds @ [row]\<rparr>)" "do_output row = None"
      "output_of wid sid (ds\<lparr>datasource_outputs := datasource_outputs ds @ [row]\<rparr>) = Some row" by blast
    with assms Inr p None show ?thesis by (auto simp: record_error_def ds_outcome_def)
  qed (use assms in \<open>auto simp: record_error_def\<close>)
qed

text \<open>Once an outcome is recorded, the loop cannot commit again.\<close>

lemma ds_loop_taken:
  assumes "output_of wid sid ds = Some row"
    and "ds_loop en sz dv (Some (wid, sid)) func c fuel i wait (db, ds, v) = (r, (db', ds', v'))"
  shows "ds' = ds \<and> (\<exists>e. r = Inl e)"
  using assms(2)
proof (induction fuel arbitrary: i wait db v)
  case (Suc fuel)
  obtain r1 db1 ds1 v1 where att: "ds_attempt en sz (Some (wid, sid)) func c (dv_commit dv i) (db, ds, v) = (r1, (db1, ds1, v1))"
    by (metis prod.exhaust)
  from ds_attempt_taken [OF assms(1) att] obtain e where e: "ds1 = ds" "r1 = Inl e" by blast
  obtain db2 v2 where sl: "ds_sleep en wait (db1, ds, v1) = (db2, ds, v2)" by (metis ds_sleep_parts(2) prod.collapse prod.sel)
  show ?case
    using Suc.prems Suc.IH [of "Suc i" "next_wait wait" db2 v2] att e sl record_error_raises [of en sz "Some (wid, sid)" e "(db1, ds, v1)"]
      record_error_effect [of en sz wid sid e db1 ds v1 r db' ds' v'] assms(1)
    by (auto split: if_splits)
qed auto

text \<open>The loop applies the function to the data at most once, whatever the driver does.\<close>

lemma ds_loop_effect:
  assumes "output_of wid sid ds = None"
    and "ds_loop en sz dv (Some (wid, sid)) func c fuel i wait (db, ds, v) = (r, (db', ds', v'))"
  shows "\<exists>x. ds_outcome (en_codecs en) sz wid sid ds ds' x
    \<and> (case x of
         Applied d out \<Rightarrow> \<exists>dbk vk db1 v1. func c (dbk, ds_data ds, vk) = (Inr out, db1, d, v1)
           \<and> (\<forall>w. r = Inr w \<longrightarrow> w = out \<and> db' = db1 \<and> v' = v1)
       | _ \<Rightarrow> \<exists>e. r = Inl e)"
  using assms(2)
proof (induction fuel arbitrary: i wait db v)
  case 0
  then show ?case by (intro exI [of _ Untouched]) (auto simp: ds_outcome_def)
next
  case (Suc fuel)
  let ?rid = "Some (wid, sid)"
  obtain r1 db1 ds1 v1 where att: "ds_attempt en sz ?rid func c (dv_commit dv i) (db, ds, v) = (r1, (db1, ds1, v1))"
    by (metis prod.exhaust)
  obtain db2 v2 where sl: "ds_sleep en wait (db1, ds1, v1) = (db2, ds1, v2)" by (metis ds_sleep_parts(2) prod.collapse prod.sel)
  show ?case
  proof (cases "ds1 = ds \<and> (\<exists>e. r1 = Inl e)")
    case True
    then obtain e where e: "ds1 = ds" "r1 = Inl e" by blast
    consider (base) "\<not> is_Exception e" | (again) "is_Exception e" "dv_retriable dv e"
      | (stop) "is_Exception e" "\<not> dv_retriable dv e" by blast
    then show ?thesis
    proof cases
      case base
      with Suc.prems att e show ?thesis by (intro exI [of _ Untouched]) (auto simp: ds_outcome_def)
    next
      case again
      with Suc.prems att e sl show ?thesis by (intro Suc.IH [of "Suc i" "next_wait wait" db2 v2]) simp
    next
      case stop
      with Suc.prems att e have re: "record_error en sz ?rid e (db1, ds, v1) = (r, (db', ds', v'))" by simp
      with record_error_raises [of en sz ?rid e "(db1, ds, v1)"] have "\<exists>e. r = Inl e" by simp
      note raised = this
      show ?thesis
      proof (cases "ds' = ds")
        case True
        with raised show ?thesis by (intro exI [of _ Untouched]) (simp add: ds_outcome_def)
      next
        case False
        with record_error_effect [OF re, of "en_codecs en" sz] raised show ?thesis
          by (intro exI [of _ Failed]) simp
      qed
    qed
  next
    case False
    with ds_attempt_fresh [OF assms(1) att] obtain d out where
      ap: "func c (db, ds_data ds, v) = (Inr out, db1, d, v1)" "ds_outcome (en_codecs en) sz wid sid ds ds1 (Applied d out)"
        "\<forall>w. r1 = Inr w \<longrightarrow> w = out" by blast
    have "ds' = ds1 \<and> (\<forall>w. r = Inr w \<longrightarrow> w = out \<and> db' = db1 \<and> v' = v1)"
    proof (cases r1)
      case (Inr w)
      with Suc.prems att ap show ?thesis by auto
    next
      case (Inl e)
      obtain row where row: "output_of wid sid ds1 = Some row" using ap(2) by (auto simp: ds_outcome_def)
      show ?thesis
        using Suc.prems att Inl sl ds_loop_taken [OF row, of en sz dv func c fuel "Suc i" "next_wait wait" db2 v2 r db' ds' v']
          record_error_raises [of en sz ?rid e "(db1, ds1, v1)"]
          record_error_effect [of en sz wid sid e db1 ds1 v1 r db' ds' v'] row
        by (auto split: if_splits)
    qed
    with ap show ?thesis by (intro exI [of _ "Applied d out"]) auto
  qed
qed

text \<open>
  A commit whose answer is lost: the effect stays, but the loop does not look for the record before it tries again,
  and every later attempt collides with it, so that the transaction raises although it took effect.
\<close>

lemma datasource_lost_commit:
  assumes fresh: "output_of wid sid ds = None" and func: "func c (db, ds_data ds, v) = (Inr out, db1, d, v1)"
    and ser: "serialize_value (en_codecs en) out None sz = Inr (t, ser)"
    and lost: "dv_commit dv i = CommitLost e" "is_Exception e" "dv_retriable dv e"
  shows "\<exists>e' db' ds' v'. ds_loop en sz dv (Some (wid, sid)) func c (Suc fuel) i wait (db, ds, v) = (Inl e', (db', ds', v'))
    \<and> ds_outcome (en_codecs en) sz wid sid ds ds' (Applied d out)"
proof -
  obtain r ds1 db2 v2 where att: "ds_attempt en sz (Some (wid, sid)) func c (dv_commit dv i) (db, ds, v) = (r, (db2, ds1, v2))"
    by (metis prod.exhaust)
  have "output_of wid sid (ds\<lparr>ds_data := d\<rparr>) = None" using fresh by simp
  from ds_record_result_fresh [OF this, of "Some t" None "Some ser" "en_clock en (ds, v1)"] obtain row where
    "ds_record_result wid sid (Some t) None (Some ser) (en_clock en (ds, v1)) (ds\<lparr>ds_data := d\<rparr>)
       = Inr (ds\<lparr>ds_data := d, datasource_outputs := datasource_outputs ds @ [row]\<rparr>)" by auto
  then have r: "r = Inl e" "ds1 = ds\<lparr>ds_data := d, datasource_outputs := datasource_outputs ds @ [row]\<rparr>"
    using att func ser lost(1) by (auto simp: ds_attempt_def)
  from arg_cong [OF r(2), of datasource_outputs] have "ds1 \<noteq> ds" by auto
  have ap: "ds_outcome (en_codecs en) sz wid sid ds ds1 (Applied d out)"
    using ds_attempt_fresh [OF fresh att] \<open>ds1 \<noteq> ds\<close> func by auto
  then obtain row where row: "output_of wid sid ds1 = Some row" by (auto simp: ds_outcome_def)
  obtain db3 v3 where sl: "ds_sleep en wait (db2, ds1, v2) = (db3, ds1, v3)" by (metis ds_sleep_parts(2) prod.collapse prod.sel)
  obtain r' db' ds' v' where l: "ds_loop en sz dv (Some (wid, sid)) func c fuel (Suc i) (next_wait wait) (db3, ds1, v3) = (r', (db', ds', v'))"
    by (metis prod.exhaust)
  from ds_loop_taken [OF row l] ap l att r sl lost(2,3) show ?thesis by auto
qed

section \<open>Transactions as steps\<close>

lemma check_execution_with_retry_parts:
  "check_execution_with_retry en dv wid sid fuel i wait (db, ds, v) = (r, (db', ds', v')) \<Longrightarrow>
   db' = db \<and> ds' = ds \<and> (\<forall>x. r = Inr x \<longrightarrow> x = check_execution wid sid ds)"
proof (induction fuel arbitrary: i wait v)
  case (Suc fuel)
  obtain v2 where "ds_sleep en wait (db, ds, v) = (db, ds, v2)" by (metis ds_sleep_parts fst_conv prod.collapse snd_conv)
  with Suc show ?case by (auto split: option.splits if_splits)
qed auto

lemma ds_body_effect:
  assumes c: "cx_workflow_id c = wid" "cx_curr_step_function_id c = sid" and fresh: "output_of wid sid ds = None"
    and run: "ds_body en sz dv fuel async True func c (db, ds, v) = (r, (db', ds', v'))"
  shows "\<exists>x. ds_outcome (en_codecs en) sz wid sid ds ds' x
    \<and> (case x of
         Applied d out \<Rightarrow> \<exists>dbk vk db1 v1. func (start_ds_transaction async c) (dbk, ds_data ds, vk) = (Inr out, db1, d, v1)
           \<and> (\<forall>w. r = Inr w \<longrightarrow> w = out \<and> db' = db1 \<and> v' = v1)
       | _ \<Rightarrow> \<exists>e. r = Inl e)"
proof -
  obtain r1 db1 ds1 v1 where chk: "check_execution_with_retry en dv wid sid fuel 0 (1 / 1000) (db, ds, v) = (r1, (db1, ds1, v1))"
    by (metis prod.exhaust)
  note parts = check_execution_with_retry_parts [OF chk]
  have none: "check_execution wid sid ds = None" using fresh by (simp add: check_execution_def row_to_result_def)
  show ?thesis
  proof (cases r1)
    case (Inl e)
    with run chk c parts show ?thesis by (intro exI [of _ Untouched]) (auto simp: ds_body_def ds_outcome_def)
  next
    case (Inr x)
    with run chk c parts none
    have "ds_loop en sz dv (Some (wid, sid)) func (start_ds_transaction async c) fuel 0 (1 / 1000) (db, ds, v1) = (r, (db', ds', v'))"
      by (simp add: ds_body_def)
    then show ?thesis by (rule ds_loop_effect [OF fresh])
  qed
qed

text \<open>A step that has no checkpoint runs its function once and then touches only the system database.\<close>

lemma record_step_result_func:
  assumes "record_step_result en c name start func s = (r, (db', w'))"
  shows "\<exists>rb db1. func s = (rb, (db1, w')) \<and> (\<forall>x. r = Inr x \<longrightarrow> rb = Inr x \<and> recordable en (Inr x))"
proof -
  obtain rb db1 w1 where "func s = (rb, (db1, w1))" by (metis prod.exhaust)
  with assms show ?thesis
    by (cases rb) (auto simp: record_step_result_def comp_bind_def on_db_def evaluated_def recordable_def
        split: sum.splits prod.splits if_splits)
qed

lemma then_func:
  assumes "(if async then pending_then else immediate_then) (record_step_result en c name start) body s = (r, (db', w'))"
  shows "\<exists>rb db1. body s = (rb, (db1, w')) \<and> (\<forall>x. r = Inr x \<longrightarrow> rb = Inr x \<and> recordable en (Inr x))"
proof (cases async)
  case False
  with assms show ?thesis by (intro record_step_result_func) (simp add: immediate_then_def)
next
  case True
  let ?rec = "record_step_result en c name start"
  obtain rb s1 where b: "body s = (rb, s1)" by (metis prod.exhaust)
  obtain db1 w1 where s1: "s1 = (db1, w1)" by (cases s1)
  have ev: "w2 = w1 \<and> (\<forall>x. r2 = Inr x \<longrightarrow> rx = Inr x \<and> recordable en (Inr x))"
    if "?rec (evaluated rx) (db3, w1) = (r2, (db2, w2))" for rx r2 db2 w2 db3
    using record_step_result_func [OF that] by (auto simp: evaluated_def)
  show ?thesis
  proof (cases rb)
    case (Inl e)
    with assms True b s1 ev [of "Inl e" db1] show ?thesis
      by (auto simp: pending_then_def pending_wrap_def comp_bind_def evaluated_def [of "Inr _" s] split: if_splits)
  next
    case (Inr v)
    obtain r2 db2 w2 where r2: "?rec (evaluated (Inr v)) (db1, w1) = (r2, (db2, w2))" by (metis prod.exhaust)
    with assms True b s1 Inr ev [OF r2] ev [of "Inl _" db2] show ?thesis
      by (cases r2) (auto simp: pending_then_def pending_wrap_def comp_bind_def evaluated_def [of "Inr _" s] split: if_splits)
  qed
qed

lemma invoke_step_body:
  assumes valid: "step_valid call opts"
    and body: "step_outcome en (start_step (cx_function_id c) c) call opts name = Inr body"
    and fresh: "check_operation_execution_txn (cx_workflow_id c) (cx_function_id c) name db = Inr None"
    and run: "invoke_step en c call opts name (db, w) = (r, (db', w'))"
  shows "\<exists>rb db1. body (db, w) = (rb, (db1, w')) \<and> (\<forall>x. r = Inr x \<longrightarrow> rb = Inr x \<and> recordable en (Inr x))"
proof -
  have "check_existing_result en (start_step (cx_function_id c) c) name (db, w) = (Inr None, (db, w))"
    using fresh by (intro check_existing_fresh) simp
  with run have "(if sc_is_async call then pending_then else immediate_then)
      (record_step_result en (start_step (cx_function_id c) c) name (en_clock en w)) body (db, w) = (r, (db', w'))"
    by (simp add: invoke_step_valid [OF valid body] intercept_def comp_bind_def split del: if_split)
  then show ?thesis by (rule then_func)
qed

text \<open>How a data source transaction in a workflow is a step.\<close>

definition ds_options :: "string \<Rightarrow> ('d, 'v) ds_world StepOptions" where
  "ds_options name = normalize_step_options [OptName (Some name)]"

definition ds_step_context :: "DBOSContext \<Rightarrow> DBOSContext \<Rightarrow> DBOSContext" where
  "ds_step_context blank ctx = fst (snapshot_step_ctx False blank ctx)"

lemma ds_step_context_ids [simp]:
  "cx_workflow_id (ds_step_context blank ctx) = cx_workflow_id ctx"
  "cx_function_id (ds_step_context blank ctx) = cx_function_id ctx + 1"
  using snapshot_ids [of False blank ctx "fst (snapshot_step_ctx False blank ctx)" "snd (snapshot_step_ctx False blank ctx)"]
  by (simp_all add: ds_step_context_def)

lemma ds_valid: "step_valid (ds_step_call en sz dv fuel async func) (ds_options name)"
  by (simp add: step_valid_def ds_step_call_def ds_options_def normalize_step_options_def DEFAULT_STEP_OPTIONS_def)

lemma ds_outcome_body:
  "step_outcome en c (ds_step_call en sz dv fuel async func) (ds_options name) name' = Inr (ds_body en sz dv fuel async True func c)"
  by (simp add: step_outcome_def ds_step_call_def ds_options_def normalize_step_options_def DEFAULT_STEP_OPTIONS_def)

lemma run_ds_step_workflow:
  assumes "is_workflow ctx" "dc_is_coroutine call = async" "ds_name call \<noteq> []"
  shows "fst (run_ds_step en blank sz dv fuel async (Some ctx) call s)
    = invoke_step en (ds_step_context blank ctx) (ds_step_call en sz dv fuel async (dc_func call)) (ds_options (ds_name call)) (ds_name call) s"
  using assms
  by (simp add: run_ds_step_def run_step_def ds_step_context_def ds_options_def normalize_step_options_def
      DEFAULT_STEP_OPTIONS_def Let_def split: prod.splits)

text \<open>The primary key of the table of outputs is kept.\<close>

lemma ds_attempt_inv: "datasource_inv (fst (snd s)) \<Longrightarrow> datasource_inv (fst (snd (snd (ds_attempt en sz rid func c answer s))))"
proof -
  assume inv: "datasource_inv (fst (snd s))"
  then have "datasource_inv ((fst (snd s))\<lparr>ds_data := d\<rparr>)" for d by (simp add: datasource_inv_def)
  with inv show ?thesis
    by (auto simp: ds_attempt_def res_bind_def split: sum.splits prod.splits commit_answer.splits option.splits dest: ds_record_result_inv)
qed

lemma record_error_inv: "datasource_inv (fst (snd s)) \<Longrightarrow> datasource_inv (fst (snd (snd (record_error en sz rid e s))))"
  by (auto simp: record_error_def split: option.splits prod.splits sum.splits dest: ds_record_result_inv)

lemma ds_loop_inv: "datasource_inv (fst (snd s)) \<Longrightarrow> datasource_inv (fst (snd (snd (ds_loop en sz dv rid func c fuel i wait s))))"
proof (induction fuel arbitrary: i wait s)
  case (Suc fuel)
  obtain r1 s1 where att: "ds_attempt en sz rid func c (dv_commit dv i) s = (r1, s1)" by (metis prod.exhaust)
  then have "datasource_inv (fst (snd s1))" using ds_attempt_inv [OF Suc.prems, of en sz rid func c "dv_commit dv i"] by simp
  with att Suc.IH show ?case by (auto simp: record_error_inv split: sum.splits)
qed simp

lemma ds_body_inv:
  assumes "datasource_inv ds" "ds_body en sz dv fuel async in_wf func c (db, ds, v) = (r, (db', ds', v'))"
  shows "datasource_inv ds'"
proof -
  obtain r1 db1 ds1 v1 where chk: "check_execution_with_retry en dv (cx_workflow_id c) (cx_curr_step_function_id c) fuel 0 (1 / 1000)
      (db, ds, v) = (r1, (db1, ds1, v1))" by (metis prod.exhaust)
  have l: "datasource_inv ds'" if "ds_loop en sz dv rid func (start_ds_transaction async c) fuel 0 (1 / 1000) (dbx, ds, vx) = (r, (db', ds', v'))" for dbx vx rid
    using ds_loop_inv [of "(dbx, ds, vx)" en sz dv rid func "start_ds_transaction async c" fuel 0 "1 / 1000"] assms(1) that by simp
  show ?thesis using assms chk check_execution_with_retry_parts [OF chk] l
    by (auto simp: ds_body_def Let_def split: sum.splits option.splits if_splits)
qed

text \<open>A function that leaves the system database alone.\<close>

definition ds_local :: "('d, 'v) ds_func \<Rightarrow> bool" where
  "ds_local func \<longleftrightarrow> (\<forall>c s. fst (snd (func c s)) = fst s)"

lemma ds_attempt_local: "ds_local func \<Longrightarrow> fst (snd (ds_attempt en sz rid func c answer s)) = fst s"
proof -
  assume l: "ds_local func"
  obtain db ds v r db1 d1 v1 where s: "s = (db, ds, v)" and f: "func c (db, ds_data ds, v) = (r, db1, d1, v1)" by (metis prod.exhaust)
  have "db1 = db" using l [unfolded ds_local_def, rule_format, of c "(db, ds_data ds, v)"] f by simp
  with s f show ?thesis by (auto simp: ds_attempt_def split: sum.splits prod.splits commit_answer.splits)
qed

lemma record_error_local: "fst (snd (record_error en sz rid e s)) = fst s"
  by (auto simp: record_error_def split: option.splits prod.splits sum.splits)

lemma ds_loop_local: "ds_local func \<Longrightarrow> fst (snd (ds_loop en sz dv rid func c fuel i wait s)) = fst s"
proof (induction fuel arbitrary: i wait s)
  case (Suc fuel)
  obtain r1 s1 where att: "ds_attempt en sz rid func c (dv_commit dv i) s = (r1, s1)" by (metis prod.exhaust)
  then have "fst s1 = fst s" using ds_attempt_local [OF Suc.prems, of en sz rid c "dv_commit dv i" s] by simp
  with att Suc show ?case by (auto simp: record_error_local split: sum.splits)
qed simp

lemma ds_body_local:
  assumes "ds_local func" "ds_body en sz dv fuel async in_wf func c (db, ds, v) = (r, (db', x))"
  shows "db' = db"
proof -
  obtain r1 db1 ds1 v1 where chk: "check_execution_with_retry en dv (cx_workflow_id c) (cx_curr_step_function_id c) fuel 0 (1 / 1000)
      (db, ds, v) = (r1, (db1, ds1, v1))" by (metis prod.exhaust)
  show ?thesis using assms chk check_execution_with_retry_parts [OF chk] ds_loop_local [OF assms(1)]
    by (auto simp: ds_body_def Let_def split: sum.splits option.splits if_splits) (metis fst_conv snd_conv)+
qed

lemma ds_body_recorded:
  assumes c: "cx_workflow_id c = wid" "cx_curr_step_function_id c = sid" and row: "output_of wid sid ds = Some row"
    and read: "dv_read dv 0 = None"
  shows "ds_body en sz dv (Suc fuel) async True func c (db, ds, v) = (replay_recorded (en_codecs en) sz
    \<lparr>dr_output = do_output row, dr_error = do_error row, dr_serialization = do_serialization row\<rparr>, (db, ds, v))"
  using assms by (simp add: ds_body_def check_execution_def row_to_result_def)

lemma run_ds_step_func:
  assumes "is_workflow ctx" "dc_is_coroutine call = async" "ds_name call \<noteq> []"
  shows "fst (run_ds_step en blank sz dv fuel async (Some ctx) (call\<lparr>dc_func := func\<rparr>) s)
    = invoke_step en (ds_step_context blank ctx) (ds_step_call en sz dv fuel async func) (ds_options (ds_name call)) (ds_name call) s"
proof -
  have "ds_name (call\<lparr>dc_func := func\<rparr>) = ds_name call" by (simp add: ds_name_def split: option.splits)
  with run_ds_step_workflow [of ctx "call\<lparr>dc_func := func\<rparr>" async en blank sz dv fuel s] assms show ?thesis by simp
qed

text \<open>A process that stopped between the two records: the transaction is not run, and the step is recorded now.\<close>

lemma datasource_resumed:
  assumes law: "codecs_law (en_codecs en) (en_serializer en)"
    and ctx: "is_workflow ctx" and call: "dc_is_coroutine call = async" "ds_name call \<noteq> []"
    and fresh: "check_operation_execution_txn (cx_workflow_id ctx) (cx_function_id ctx + 1) (ds_name call) db = Inr None"
    and read: "dv_read dv 0 = None" and out: "output_of (cx_workflow_id ctx) (cx_function_id ctx + 1) ds = Some row"
    and row: "do_output row = Some t" "do_error row = None" "do_serialization row = Some ser"
    and w: "deserialize_value (en_codecs en) (Some t) (Some ser) sz = Inr w" and rec: "recordable en (Inr w)"
  shows "\<exists>db'. fst (run_ds_step en blank sz dv (Suc fuel) async (Some ctx) (call\<lparr>dc_func := func\<rparr>) (db, ds, v)) = (Inr w, (db', ds, v))"
proof -
  let ?c = "ds_step_context blank ctx"
  let ?sc = "start_step (cx_function_id ?c) ?c"
  have curr: "cx_workflow_id ?sc = cx_workflow_id ctx" "cx_curr_step_function_id ?sc = cx_function_id ctx + 1"
    by (simp_all add: start_step_def)
  have b: "ds_body en sz dv (Suc fuel) async True func ?sc (db, ds, v) = (Inr w, (db, ds, v))"
    using ds_body_recorded [OF curr out read, of en sz fuel async func db v] row w by (simp add: replay_recorded_def)
  have f: "check_operation_execution_txn (cx_workflow_id ?c) (cx_function_id ?c) (ds_name call) db = Inr None" using fresh by simp
  obtain wr where "status_row db (cx_workflow_id ?c) = Some wr" "operation_row db (cx_workflow_id ?c) (cx_function_id ?c) = None"
    using fresh by (auto simp: check_None_iff)
  from invoke_step_records [OF law ds_valid f ds_outcome_body b rec this] show ?thesis
    unfolding run_ds_step_func [OF ctx call] by blast
qed

section \<open>Exactly once\<close>

text \<open>
  C7: However the driver of a data source behaves (failed reads, failed commits, commits whose answer is lost,
  an interruption while it retries), a transaction that a workflow runs on it takes effect at most once: afterwards
  the data source is as it was, or holds the record of an error and the same data, or holds the data as one
  execution of the function left it together with the record of that execution's output. The transaction
  returns a value only in the last case, and the value is that output.
\<close>

theorem datasource_effect_once:
  assumes ctx: "is_workflow ctx" and call: "dc_is_coroutine call = async" "ds_name call \<noteq> []"
    and fresh: "check_operation_execution_txn (cx_workflow_id ctx) (cx_function_id ctx + 1) (ds_name call) db = Inr None"
      "output_of (cx_workflow_id ctx) (cx_function_id ctx + 1) ds = None"
    and run: "fst (run_ds_step en blank sz dv fuel async (Some ctx) call (db, ds, v)) = (r, (db', ds', v'))"
  shows "\<exists>x. ds_outcome (en_codecs en) sz (cx_workflow_id ctx) (cx_function_id ctx + 1) ds ds' x
    \<and> (case x of
         Applied d out \<Rightarrow> (\<exists>c dbk vk db1 v1. dc_func call c (dbk, ds_data ds, vk) = (Inr out, db1, d, v1)) \<and> (\<forall>w. r = Inr w \<longrightarrow> w = out)
       | _ \<Rightarrow> \<exists>e. r = Inl e)"
proof -
  let ?c = "ds_step_context blank ctx"
  let ?sc = "start_step (cx_function_id ?c) ?c"
  have "invoke_step en ?c (ds_step_call en sz dv fuel async (dc_func call)) (ds_options (ds_name call)) (ds_name call) (db, ds, v)
      = (r, (db', ds', v'))"
    using run run_ds_step_workflow [OF ctx call] by metis
  from invoke_step_body [OF ds_valid ds_outcome_body _ this] fresh(1) obtain rb db1 where
    b: "ds_body en sz dv fuel async True (dc_func call) ?sc (db, ds, v) = (rb, (db1, ds', v'))" "\<forall>w. r = Inr w \<longrightarrow> rb = Inr w"
    by auto
  have "cx_curr_step_function_id ?sc = cx_function_id ctx + 1" by (simp add: start_step_def)
  from ds_body_effect [OF _ this fresh(2) b(1)] obtain x where
    x: "ds_outcome (en_codecs en) sz (cx_workflow_id ctx) (cx_function_id ctx + 1) ds ds' x"
    and xr: "case x of
         Applied d out \<Rightarrow> \<exists>dbk vk db2 v1. dc_func call (start_ds_transaction async ?sc) (dbk, ds_data ds, vk) = (Inr out, db2, d, v1)
           \<and> (\<forall>w. rb = Inr w \<longrightarrow> w = out \<and> db1 = db2 \<and> v' = v1)
       | _ \<Rightarrow> \<exists>e. rb = Inl e" by auto
  have "\<exists>e. r = Inl e" if "rb = Inl e" for e using b(2) that by (cases r) auto
  with xr b(2) have "case x of
         Applied d out \<Rightarrow> (\<exists>c dbk vk db1 v1. dc_func call c (dbk, ds_data ds, vk) = (Inr out, db1, d, v1)) \<and> (\<forall>w. r = Inr w \<longrightarrow> w = out)
       | _ \<Rightarrow> \<exists>e. r = Inl e"
    by (cases x) (simp_all, blast+)
  with x show ?thesis by blast
qed

definition ds_env :: "(nat datasource_db \<times> nat) dbos_env" where
  "ds_env = \<lparr>en_codecs = example_codecs, en_serializer = DBOSDefaultSerializer example_codecs,
     en_reflection = en_reflection step_env, en_executor_id = None, en_app_version = ''v1'', en_clock = (\<lambda>w. int (snd w)),
     en_sleep = (\<lambda>t w. (fst w, Suc (snd w)))\<rparr>"

definition counting_call :: "(nat, nat) ds_call" where
  "counting_call = \<lparr>dc_func = (\<lambda>c (db, d, v). (Inr (PInt 42), db, Suc d, v)), dc_is_coroutine = False, dc_qualname = ''tx'',
     dc_name = None\<rparr>"

text \<open>A driver whose first commit fails.\<close>

definition flaky_driver :: ds_driver where
  "flaky_driver = \<lparr>dv_retriable = (\<lambda>e. e = PyException ''locked''), dv_read = (\<lambda>i. None),
     dv_commit = (\<lambda>i. if i = 0 then CommitFailed (PyException ''locked'') else Committed)\<rparr>"

definition fresh_source :: "nat datasource_db" where
  "fresh_source = \<lparr>ds_data = 0, datasource_outputs = []\<rparr>"

lemma flaky_facts:
  "is_workflow (example_ctx ''a'')" "cx_workflow_id (example_ctx ''a'') = ''a''" "cx_function_id (example_ctx ''a'') = 1"
  "dc_is_coroutine counting_call = False" "ds_name counting_call = ''tx''" "output_of ''a'' 2 fresh_source = None"
  by (simp_all add: example_ctx_def start_workflow_def new_context_def is_workflow_def is_step_def is_transaction_def
      counting_call_def ds_name_def fresh_source_def output_of_def)

lemma flaky_serialize: "serialize_value example_codecs (PInt 42) None (DBOSDefaultSerializer example_codecs) = Inr (''pickle-42'', ''py_pickle'')"
  by (simp add: serialize_value_def serialize_value_as_def serialization_for_type_def DBOSDefaultSerializer_def example_codecs_def)

lemma flaky_run:
  obtains db' ds' where "fst (run_ds_step ds_env blank (DBOSDefaultSerializer example_codecs) flaky_driver 2 False
      (Some (example_ctx ''a'')) counting_call (example_db [''a''], fresh_source, 5)) = (Inr (PInt 42), (db', ds', 6))"
    "ds_data ds' = 1"
    "\<forall>v. map_option row_state (status_row db' v) = map_option row_state (status_row (example_db [''a'']) v)"
proof -
  let ?sz = "DBOSDefaultSerializer example_codecs" and ?c = "ds_step_context blank (example_ctx ''a'')" and ?db = "example_db [''a'']"
  let ?sc = "start_step (cx_function_id ?c) ?c"
  have c: "cx_workflow_id ?sc = ''a''" "cx_curr_step_function_id ?sc = 2" by (simp_all add: start_step_def flaky_facts)
  have two: "(2::nat) = Suc (Suc 0)" by simp
  obtain ds' where b: "ds_body ds_env ?sz flaky_driver 2 False True (dc_func counting_call) ?sc (?db, fresh_source, 5)
      = (Inr (PInt 42), (?db, ds', 6))" and d: "ds_data ds' = 1"
    by (auto simp: two ds_body_def c Let_def flaky_driver_def check_execution_def row_to_result_def output_of_def fresh_source_def
        ds_attempt_def counting_call_def ds_env_def flaky_serialize ds_record_result_def is_Exception_def CancelledError_def
        ds_sleep_def)
  have rec: "recordable ds_env (Inr (PInt 42))" by (simp add: recordable_def ds_env_def flaky_serialize)
  have law: "codecs_law (en_codecs ds_env) (en_serializer ds_env)" using example_codecs_law by (simp add: ds_env_def)
  have fresh: "check_operation_execution_txn (cx_workflow_id ?c) (cx_function_id ?c) ''tx'' ?db = Inr None"
    by (simp add: flaky_facts example_check)
  obtain wr where "status_row ?db (cx_workflow_id ?c) = Some wr" "operation_row ?db (cx_workflow_id ?c) (cx_function_id ?c) = None"
    using fresh by (auto simp: check_None_iff)
  from invoke_step_records [OF law ds_valid [where name = "''tx''"] fresh ds_outcome_body b rec this] obtain db' where
    "invoke_step ds_env ?c (ds_step_call ds_env ?sz flaky_driver 2 False (dc_func counting_call)) (ds_options ''tx'') ''tx'' (?db, fresh_source, 5)
      = (Inr (PInt 42), (db', ds', 6))"
    "\<forall>v. map_option row_state (status_row db' v) = map_option row_state (status_row ?db v)" by blast
  with that d run_ds_step_workflow [of "example_ctx ''a''" counting_call False ds_env blank ?sz flaky_driver 2] flaky_facts
  show thesis by simp
qed

theorem datasource_effect_once_witness:
  "\<exists>db' ds'. fst (run_ds_step ds_env (new_context ''e'' ''a'') (DBOSDefaultSerializer example_codecs) flaky_driver 2 False
        (Some (example_ctx ''a'')) counting_call (example_db [''a''], fresh_source, 5)) = (Inr (PInt 42), (db', ds', 6))
    \<and> (\<exists>x. ds_outcome example_codecs (DBOSDefaultSerializer example_codecs) ''a'' 2 fresh_source ds' x \<and> (\<exists>d. x = Applied d (PInt 42)))"
proof -
  let ?sz = "DBOSDefaultSerializer example_codecs"
  from flaky_run obtain db' ds' where run: "fst (run_ds_step ds_env (new_context ''e'' ''a'') ?sz flaky_driver 2 False
      (Some (example_ctx ''a'')) counting_call (example_db [''a''], fresh_source, 5)) = (Inr (PInt 42), (db', ds', 6))" by blast
  have en: "en_codecs ds_env = example_codecs" by (simp add: ds_env_def)
  have ne: "ds_name counting_call \<noteq> []" by (simp add: flaky_facts)
  have fr: "check_operation_execution_txn (cx_workflow_id (example_ctx ''a'')) (cx_function_id (example_ctx ''a'') + 1) (ds_name counting_call)
      (example_db [''a'']) = Inr None" by (simp add: flaky_facts example_check)
  have o: "output_of (cx_workflow_id (example_ctx ''a'')) (cx_function_id (example_ctx ''a'') + 1) fresh_source = None"
    by (simp add: flaky_facts)
  from datasource_effect_once [OF flaky_facts(1,4) ne fr o run] obtain x where
    x: "ds_outcome example_codecs ?sz ''a'' 2 fresh_source ds' x" "case x of Applied d out \<Rightarrow> out = PInt 42 | _ \<Rightarrow> False"
    by (fastforce simp: flaky_facts en split: ds_effect.splits)
  then have "\<exists>d. x = Applied d (PInt 42)" by (cases x) auto
  with x(1) run show ?thesis by blast
qed

text \<open>
  C8: A data source transaction that returned a value is replayed from its records. As long as the data source
  keeps its record, running the transaction again in the same place of the workflow does not run the function
  and leaves the data source and the rest of the world alone. If the step's checkpoint is in the system database, the result is
  the recorded one; if the process had stopped after the commit and before the checkpoint, it is the
  output recorded in the data source.
\<close>

theorem datasource_replayed:
  assumes law: "codecs_law (en_codecs en) (en_serializer en)" "codecs_law (en_codecs en) sz"
    and ctx: "is_workflow ctx" and call: "dc_is_coroutine call = async" "ds_name call \<noteq> []" and loc: "ds_local (dc_func call)"
    and fresh: "check_operation_execution_txn (cx_workflow_id ctx) (cx_function_id ctx + 1) (ds_name call) db = Inr None"
      "output_of (cx_workflow_id ctx) (cx_function_id ctx + 1) ds = None"
    and run: "fst (run_ds_step en blank sz dv fuel async (Some ctx) call (db, ds, v)) = (Inr w, (db', ds', v'))"
  shows "\<exists>r' w'. replayed en (Inr w) r' \<and> (if ser_name sz = ''portable_json'' then portableify w = Inr w' else w' = w)
    \<and> (\<forall>db'' ds'' v'' func' dv' fuel'. output_of (cx_workflow_id ctx) (cx_function_id ctx + 1) ds''
          = output_of (cx_workflow_id ctx) (cx_function_id ctx + 1) ds' \<longrightarrow> dv_read dv' 0 = None \<longrightarrow>
        (checkpoint_stands (cx_workflow_id ctx) (cx_function_id ctx + 1) db' db'' \<longrightarrow>
           fst (run_ds_step en blank sz dv' (Suc fuel') async (Some ctx) (call\<lparr>dc_func := func'\<rparr>) (db'', ds'', v''))
             = (r', (db'', ds'', v'')))
      \<and> (check_operation_execution_txn (cx_workflow_id ctx) (cx_function_id ctx + 1) (ds_name call) db'' = Inr None \<longrightarrow>
         recordable en (Inr w') \<longrightarrow>
           (\<exists>db3. fst (run_ds_step en blank sz dv' (Suc fuel') async (Some ctx) (call\<lparr>dc_func := func'\<rparr>) (db'', ds'', v''))
             = (Inr w', (db3, ds'', v'')))))"
proof -
  let ?c = "ds_step_context blank ctx" and ?wid = "cx_workflow_id ctx" and ?sid = "cx_function_id ctx + 1"
  let ?sc = "start_step (cx_function_id ?c) ?c" and ?name = "ds_name call" and ?opts = "ds_options (ds_name call)"
  note step = run_ds_step_workflow [OF ctx call] and step' = run_ds_step_func [OF ctx call]
  have curr: "cx_workflow_id ?sc = ?wid" "cx_curr_step_function_id ?sc = ?sid" by (simp_all add: start_step_def)
  have fr: "check_operation_execution_txn (cx_workflow_id ?c) (cx_function_id ?c) ?name db = Inr None" using fresh by simp
  have inv: "invoke_step en ?c (ds_step_call en sz dv fuel async (dc_func call)) ?opts ?name (db, ds, v) = (Inr w, (db', ds', v'))"
    using run step by metis
  from invoke_step_body [OF ds_valid ds_outcome_body fr inv] obtain db1 where
    b: "ds_body en sz dv fuel async True (dc_func call) ?sc (db, ds, v) = (Inr w, (db1, ds', v'))" and rec: "recordable en (Inr w)"
    by auto
  have db1: "db1 = db" by (rule ds_body_local [OF loc b])
  obtain wr where alive: "status_row db1 (cx_workflow_id ?c) = Some wr" and none: "operation_row db1 (cx_workflow_id ?c) (cx_function_id ?c) = None"
    using fresh(1) by (auto simp: check_None_iff db1)
  from invoke_step_records [OF law(1) ds_valid [where name = ?name] fr ds_outcome_body b rec alive none, unfolded inv] obtain r' where
    r': "replayed en (Inr w) r'" and rep: "\<forall>db'' call' opts' w''. checkpoint_stands (cx_workflow_id ?c) (cx_function_id ?c) db' db''
        \<longrightarrow> step_valid call' opts' \<longrightarrow> invoke_step en ?c call' opts' ?name (db'', w'') = (r', (db'', w''))"
    by blast
  have chk: "fst (run_ds_step en blank sz dv' (Suc fuel') async (Some ctx) (call\<lparr>dc_func := func'\<rparr>) (db'', s)) = (r', (db'', s))"
    if "checkpoint_stands ?wid ?sid db' db''" for dv' fuel' func' db'' s
    using rep [rule_format, OF _ ds_valid] that unfolding step' ds_step_context_ids by blast
  from ds_body_effect [OF curr fresh(2) b] obtain row t ser where
    row: "output_of ?wid ?sid ds' = Some row" "do_output row = Some t" "do_error row = None" "do_serialization row = Some ser"
      and ser: "serialize_value (en_codecs en) w None sz = Inr (t, ser)"
    by (fastforce simp: ds_outcome_def split: ds_effect.splits)
  from deserialize_serialize [OF law(2) ser [unfolded serialize_value_def]] obtain w' where
    w': "deserialize_value (en_codecs en) (Some t) (Some ser) sz = Inr w'" "if ser = ''portable_json'' then portableify w = Inr w' else w' = w"
    by blast
  have name: "ser = ser_name sz" by (rule deserialize_default_format(1) [OF law(2) ser])
  note again = datasource_resumed [OF law(1) ctx call _ _ _ row(2,3,4) w'(1)]
  show ?thesis
    using r' chk w'(2) name again row(1) by (intro exI [of _ r'] exI [of _ w'] conjI allI impI) auto
qed

theorem datasource_replayed_witness:
  "\<exists>db' ds'. fst (run_ds_step ds_env (new_context ''e'' ''a'') (DBOSDefaultSerializer example_codecs) flaky_driver 2 False
        (Some (example_ctx ''a'')) counting_call (example_db [''a''], fresh_source, 5)) = (Inr (PInt 42), (db', ds', 6))
    \<and> fst (run_ds_step ds_env (new_context ''e'' ''a'') (DBOSDefaultSerializer example_codecs) flaky_driver 1 False
        (Some (example_ctx ''a'')) counting_call (db', ds', 9)) = (Inr (PInt 42), (db', ds', 9))
    \<and> (\<exists>db3. fst (run_ds_step ds_env (new_context ''e'' ''a'') (DBOSDefaultSerializer example_codecs) flaky_driver 1 False
        (Some (example_ctx ''a'')) counting_call (example_db [''a''], ds', 9)) = (Inr (PInt 42), (db3, ds', 9)))"
proof -
  let ?sz = "DBOSDefaultSerializer example_codecs" and ?ctx = "example_ctx ''a''" and ?db = "example_db [''a'']" and ?blank = "new_context ''e'' ''a''"
  from flaky_run obtain db' ds' where run: "fst (run_ds_step ds_env ?blank ?sz flaky_driver 2 False
      (Some ?ctx) counting_call (?db, fresh_source, 5)) = (Inr (PInt 42), (db', ds', 6))"
    and st: "\<forall>v. map_option row_state (status_row db' v) = map_option row_state (status_row ?db v)" by blast
  have law: "codecs_law (en_codecs ds_env) (en_serializer ds_env)" "codecs_law (en_codecs ds_env) ?sz"
    using example_codecs_law by (simp_all add: ds_env_def)
  have name: "ser_name (en_serializer ds_env) \<noteq> ''portable_json''" "ser_name ?sz \<noteq> ''portable_json''"
    by (simp_all add: ds_env_def DBOSDefaultSerializer_def)
  have ne: "ds_name counting_call \<noteq> []" by (simp add: flaky_facts)
  have loc: "ds_local (dc_func counting_call)" by (simp add: ds_local_def counting_call_def split_def)
  have fr: "check_operation_execution_txn (cx_workflow_id ?ctx) (cx_function_id ?ctx + 1) (ds_name counting_call) ?db = Inr None"
    by (simp add: flaky_facts example_check)
  have o: "output_of (cx_workflow_id ?ctx) (cx_function_id ?ctx + 1) fresh_source = None" by (simp add: flaky_facts)
  have rd: "dv_read flaky_driver 0 = None" by (simp add: flaky_driver_def)
  have rec: "recordable ds_env (Inr (PInt 42))" by (simp add: recordable_def ds_env_def flaky_serialize)
  obtain wr where "status_row ?db (cx_workflow_id ?ctx) = Some wr" "ws_status wr \<noteq> CANCELLED" using fr by (auto simp: check_None_iff)
  then have stands: "checkpoint_stands (cx_workflow_id ?ctx) (cx_function_id ?ctx + 1) db' db'"
    using st [rule_format, of "cx_workflow_id ?ctx"] by (auto simp: checkpoint_stands_def row_state_def split: option.splits)
  have upd: "counting_call\<lparr>dc_func := dc_func counting_call\<rparr> = counting_call" by simp
  from datasource_replayed [OF law flaky_facts(1,4) ne loc fr o run] obtain r' where r': "replayed ds_env (Inr (PInt 42)) r'"
    and again: "\<forall>db'' ds'' v'' func' dv' fuel'. output_of (cx_workflow_id ?ctx) (cx_function_id ?ctx + 1) ds''
          = output_of (cx_workflow_id ?ctx) (cx_function_id ?ctx + 1) ds' \<longrightarrow> dv_read dv' 0 = None \<longrightarrow>
        (checkpoint_stands (cx_workflow_id ?ctx) (cx_function_id ?ctx + 1) db' db'' \<longrightarrow>
           fst (run_ds_step ds_env ?blank ?sz dv' (Suc fuel') False (Some ?ctx) (counting_call\<lparr>dc_func := func'\<rparr>) (db'', ds'', v''))
             = (r', (db'', ds'', v'')))
      \<and> (check_operation_execution_txn (cx_workflow_id ?ctx) (cx_function_id ?ctx + 1) (ds_name counting_call) db'' = Inr None \<longrightarrow>
         recordable ds_env (Inr (PInt 42)) \<longrightarrow>
           (\<exists>db3. fst (run_ds_step ds_env ?blank ?sz dv' (Suc fuel') False (Some ?ctx) (counting_call\<lparr>dc_func := func'\<rparr>) (db'', ds'', v''))
             = (Inr (PInt 42), (db3, ds'', v''))))"
    using name(2) by auto
  have "r' = Inr (PInt 42)" using r' name(1) by (simp add: replayed_def)
  with run stands rec rd fr again [rule_format, of ds' flaky_driver db' 0 "dc_func counting_call" 9]
    again [rule_format, of ds' flaky_driver ?db 0 "dc_func counting_call" 9]
  show ?thesis unfolding upd One_nat_def by blast
qed

end
