(* ===== verification/DBOS_Context_Managers.thy ===== *)
theory DBOS_Context_Managers
  imports DBOS_Context DBOS_Workflow_Status
begin

text \<open>
  The context managers (\<^verbatim>\<open>dbos/_context.py\<close>): \<^verbatim>\<open>with\<close> blocks that set options of the current context, or
  install another one, and undo it when the block is left, by falling through or by an exception. Contexts
  are mutable objects that the context variable and the managers share, so the state is a store of objects and the
  address of the current one. The theorem shows that blocks nest: whatever a program does inside them, after it
  the same context is current, with the same settings.
\<close>

section \<open>State\<close>

record ctx_store =
  ct_objects :: "DBOSContext list"
  ct_current :: "nat option"

definition get_local_dbos_context :: "ctx_store \<Rightarrow> DBOSContext option" where
  "get_local_dbos_context s = map_option (\<lambda>a. ct_objects s ! a) (ct_current s)"

definition set_local_dbos_context :: "nat option \<Rightarrow> ctx_store \<Rightarrow> ctx_store" where
  "set_local_dbos_context a s = s\<lparr>ct_current := a\<rparr>"

definition alloc :: "DBOSContext \<Rightarrow> ctx_store \<Rightarrow> nat \<times> ctx_store" where
  "alloc c s = (length (ct_objects s), s\<lparr>ct_objects := ct_objects s @ [c]\<rparr>)"

definition modify :: "nat \<Rightarrow> (DBOSContext \<Rightarrow> DBOSContext) \<Rightarrow> ctx_store \<Rightarrow> ctx_store" where
  "modify a f s = s\<lparr>ct_objects := (ct_objects s)[a := f (ct_objects s ! a)]\<rparr>"

section \<open>The managers\<close>

text \<open>
  A manager with the attributes that its constructor computed. The managers that install another context
  (\<open>EnterDBOSWorkflow\<close>, \<open>EnterDBOSStepCtx\<close>), those of retries and transactions and \<open>DBOSAssumeRole\<close> follow below.
\<close>

datatype manager =
    DBOSContextEnsure
  | SetWorkflowID string
  | SetWorkflowTimeout "int option"
  | SetWorkflowAttributes "attributes option"
  | SetEnqueueOptions "string option" "int option" "string option" "string option" "int option"
  | SetWorkflowDebounce string int "int option"
  | EnterDBOSHandler
  | DBOSContextSetAuth "string option" "string list option"
  | UseLogAttributes string

definition new_SetWorkflowID :: "string \<Rightarrow> manager res" where
  "new_SetWorkflowID w = res_bind (validate_workflow_id (Some w)) (\<lambda>_. Inr (SetWorkflowID w))"

text \<open>\<^verbatim>\<open>int\<close> truncates; a timeout of zero passes the test.\<close>

definition new_SetWorkflowTimeout :: "rat option \<Rightarrow> manager res" where
  "new_SetWorkflowTimeout sec =
     (if (case sec of Some t \<Rightarrow> t \<noteq> 0 \<and> \<not> t > 0 | None \<Rightarrow> False) then Inl (PyException ''Invalid workflow timeout'')
      else Inr (SetWorkflowTimeout (map_option (\<lambda>t. \<lfloor>t * 1000\<rfloor>) sec)))"

definition new_SetWorkflowAttributes :: "attributes option \<Rightarrow> manager res" where
  "new_SetWorkflowAttributes attrs = res_bind (validate_workflow_attributes attrs) (\<lambda>_. Inr (SetWorkflowAttributes attrs))"

text \<open>\<open>clock\<close> is \<^verbatim>\<open>time.time()\<close>, in seconds.\<close>

definition new_SetEnqueueOptions ::
  "string option \<Rightarrow> int option \<Rightarrow> string option \<Rightarrow> string option \<Rightarrow> rat option \<Rightarrow> rat \<Rightarrow> manager res" where
  "new_SetEnqueueOptions dedup priority app_version partition_key delay_seconds clock =
     (if (case priority of Some p \<Rightarrow> p < MinPriority \<or> p > MaxPriority | None \<Rightarrow> False) then Inl (PyException ''Invalid priority'')
      else Inr (SetEnqueueOptions dedup priority app_version partition_key
        (map_option (\<lambda>d. let x = (clock + d) * 1000 in if x < 0 then \<lceil>x\<rceil> else \<lfloor>x\<rfloor>) delay_seconds)))"

text \<open>What a block sets in the context, and what it puts back from the context as it was at the beginning.\<close>

definition SetWorkflowID_enter :: "string \<Rightarrow> DBOSContext \<Rightarrow> DBOSContext" where
  "SetWorkflowID_enter w c = c\<lparr>cx_id_assigned_for_next_workflow := w, cx_is_within_set_workflow_id_block := True\<rparr>"

definition SetWorkflowID_exit :: "DBOSContext \<Rightarrow> DBOSContext" where
  "SetWorkflowID_exit c = c\<lparr>cx_is_within_set_workflow_id_block := False\<rparr>"

definition SetWorkflowTimeout_enter :: "int option \<Rightarrow> DBOSContext \<Rightarrow> DBOSContext" where
  "SetWorkflowTimeout_enter t c = c\<lparr>cx_workflow_timeout_ms := t, cx_workflow_deadline_epoch_ms := None\<rparr>"

definition SetWorkflowTimeout_exit :: "DBOSContext \<Rightarrow> DBOSContext \<Rightarrow> DBOSContext" where
  "SetWorkflowTimeout_exit saved c = c\<lparr>cx_workflow_timeout_ms := cx_workflow_timeout_ms saved,
     cx_workflow_deadline_epoch_ms := cx_workflow_deadline_epoch_ms saved\<rparr>"

definition SetWorkflowAttributes_enter :: "attributes option \<Rightarrow> DBOSContext \<Rightarrow> DBOSContext" where
  "SetWorkflowAttributes_enter x c = c\<lparr>cx_workflow_attributes := x\<rparr>"

definition SetWorkflowAttributes_exit :: "DBOSContext \<Rightarrow> DBOSContext \<Rightarrow> DBOSContext" where
  "SetWorkflowAttributes_exit saved c = c\<lparr>cx_workflow_attributes := cx_workflow_attributes saved\<rparr>"

definition SetEnqueueOptions_enter ::
  "string option \<Rightarrow> int option \<Rightarrow> string option \<Rightarrow> string option \<Rightarrow> int option \<Rightarrow> DBOSContext \<Rightarrow> DBOSContext" where
  "SetEnqueueOptions_enter d p v k t c = c\<lparr>cx_deduplication_id := d, cx_priority := p, cx_app_version := v,
     cx_queue_partition_key := k, cx_delay_until_epoch_ms := t\<rparr>"

definition SetEnqueueOptions_exit :: "DBOSContext \<Rightarrow> DBOSContext \<Rightarrow> DBOSContext" where
  "SetEnqueueOptions_exit saved c = c\<lparr>cx_deduplication_id := cx_deduplication_id saved,
     cx_priority := cx_priority saved, cx_app_version := cx_app_version saved,
     cx_queue_partition_key := cx_queue_partition_key saved, cx_delay_until_epoch_ms := cx_delay_until_epoch_ms saved\<rparr>"

definition SetWorkflowDebounce_enter :: "string \<Rightarrow> int \<Rightarrow> int option \<Rightarrow> DBOSContext \<Rightarrow> DBOSContext" where
  "SetWorkflowDebounce_enter d t l c = c\<lparr>cx_deduplication_id := Some d, cx_delay_until_epoch_ms := Some t,
     cx_debounce_deadline_epoch_ms := l, cx_is_debounced := True, cx_workflow_deadline_epoch_ms := None\<rparr>"

definition SetWorkflowDebounce_exit :: "DBOSContext \<Rightarrow> DBOSContext \<Rightarrow> DBOSContext" where
  "SetWorkflowDebounce_exit saved c = c\<lparr>cx_deduplication_id := cx_deduplication_id saved,
     cx_delay_until_epoch_ms := cx_delay_until_epoch_ms saved,
     cx_debounce_deadline_epoch_ms := cx_debounce_deadline_epoch_ms saved, cx_is_debounced := cx_is_debounced saved,
     cx_workflow_deadline_epoch_ms := cx_workflow_deadline_epoch_ms saved\<rparr>"

text \<open>Without a span, \<^verbatim>\<open>set_authentication\<close> sets two attributes.\<close>

definition set_authentication :: "string option \<Rightarrow> string list option \<Rightarrow> DBOSContext \<Rightarrow> DBOSContext" where
  "set_authentication u rs c = c\<lparr>cx_authenticated_user := u, cx_authenticated_roles := rs\<rparr>"

definition UseLogAttributes_enter :: "string \<Rightarrow> DBOSContext \<Rightarrow> DBOSContext" where
  "UseLogAttributes_enter w c = c\<lparr>cx_workflow_id := w\<rparr>"

definition UseLogAttributes_exit :: "DBOSContext \<Rightarrow> DBOSContext \<Rightarrow> DBOSContext" where
  "UseLogAttributes_exit saved c = c\<lparr>cx_workflow_id := cx_workflow_id saved\<rparr>"

lemmas manager_defs = SetWorkflowID_enter_def SetWorkflowID_exit_def SetWorkflowTimeout_enter_def SetWorkflowTimeout_exit_def
  SetWorkflowAttributes_enter_def SetWorkflowAttributes_exit_def SetEnqueueOptions_enter_def SetEnqueueOptions_exit_def
  SetWorkflowDebounce_enter_def SetWorkflowDebounce_exit_def set_authentication_def UseLogAttributes_enter_def UseLogAttributes_exit_def

fun apply_manager :: "manager \<Rightarrow> DBOSContext \<Rightarrow> DBOSContext" where
  "apply_manager DBOSContextEnsure c = c"
| "apply_manager (SetWorkflowID w) c = SetWorkflowID_enter w c"
| "apply_manager (SetWorkflowTimeout t) c = SetWorkflowTimeout_enter t c"
| "apply_manager (SetWorkflowAttributes x) c = SetWorkflowAttributes_enter x c"
| "apply_manager (SetEnqueueOptions d p v k t) c = SetEnqueueOptions_enter d p v k t c"
| "apply_manager (SetWorkflowDebounce d t l) c = SetWorkflowDebounce_enter d t l c"
| "apply_manager EnterDBOSHandler c = c"
| "apply_manager (DBOSContextSetAuth u rs) c = set_authentication u rs c"
| "apply_manager (UseLogAttributes w) c = UseLogAttributes_enter w c"

fun restore_manager :: "manager \<Rightarrow> DBOSContext \<Rightarrow> DBOSContext \<Rightarrow> DBOSContext" where
  "restore_manager DBOSContextEnsure saved c = c"
| "restore_manager (SetWorkflowID w) saved c = SetWorkflowID_exit c"
| "restore_manager (SetWorkflowTimeout t) saved c = SetWorkflowTimeout_exit saved c"
| "restore_manager (SetWorkflowAttributes x) saved c = SetWorkflowAttributes_exit saved c"
| "restore_manager (SetEnqueueOptions d p v k t) saved c = SetEnqueueOptions_exit saved c"
| "restore_manager (SetWorkflowDebounce d t l) saved c = SetWorkflowDebounce_exit saved c"
| "restore_manager EnterDBOSHandler saved c = c"
| "restore_manager (DBOSContextSetAuth u rs) saved c = set_authentication (cx_authenticated_user saved) (cx_authenticated_roles saved) c"
| "restore_manager (UseLogAttributes w) saved c = UseLogAttributes_exit saved c"

text \<open>
  \<^verbatim>\<open>__enter__\<close>: a context is created if there is none. \<open>created_ctx\<close> and the saved attributes are the frame that
  \<^verbatim>\<open>__exit__\<close> gets. Leaving a block asserts that there is a context, except for the bare \<open>DBOSContextEnsure\<close>.
\<close>

definition enter :: "DBOSContext \<Rightarrow> manager \<Rightarrow> ctx_store \<Rightarrow> (bool \<times> DBOSContext) \<times> ctx_store" where
  "enter blank m s = (case ct_current s of
     Some a \<Rightarrow> ((False, ct_objects s ! a), modify a (apply_manager m) s)
   | None \<Rightarrow> (case alloc blank s of (a, s1) \<Rightarrow>
       ((True, blank), modify a (apply_manager m) (set_local_dbos_context (Some a) s1))))"

definition exit :: "manager \<Rightarrow> bool \<times> DBOSContext \<Rightarrow> ctx_store \<Rightarrow> unit res \<times> ctx_store" where
  "exit m frame s = (case frame of (created, saved) \<Rightarrow>
     (case ct_current s of
        None \<Rightarrow> (if m = DBOSContextEnsure then Inr () else Inl AssertionError, s)
      | Some a \<Rightarrow> (Inr (), (if created then set_local_dbos_context None else id) (modify a (restore_manager m saved) s))))"

text \<open>
  \<^verbatim>\<open>EnterDBOSWorkflow\<close>: the context of the workflow at address \<open>use\<close> becomes current; the options meant for
  the workflow itself are hidden from its children. An assertion that fails on entry leaves the context installed.
  The frame has the previous context and the saved options.
\<close>

definition enter_workflow_ctx :: "string \<Rightarrow> DBOSContext \<Rightarrow> DBOSContext" where
  "enter_workflow_ctx uuid c = start_workflow uuid None (c\<lparr>cx_is_within_set_workflow_id_block := False,
     cx_workflow_timeout_ms := None, cx_deduplication_id := None, cx_priority := None\<rparr>)"

definition exit_workflow_ctx :: "DBOSContext \<Rightarrow> DBOSContext \<Rightarrow> DBOSContext" where
  "exit_workflow_ctx saved c = (end_workflow c)\<lparr>
     cx_is_within_set_workflow_id_block := cx_is_within_set_workflow_id_block saved,
     cx_workflow_timeout_ms := cx_workflow_timeout_ms saved, cx_workflow_deadline_epoch_ms := None,
     cx_priority := cx_priority saved, cx_deduplication_id := cx_deduplication_id saved\<rparr>"

definition enter_workflow :: "DBOSContext \<Rightarrow> nat option \<Rightarrow> string \<Rightarrow> ctx_store \<Rightarrow> (nat \<times> nat option \<times> DBOSContext) res \<times> ctx_store" where
  "enter_workflow blank use uuid s =
     (let prev = ct_current s;
          (a, s1) = (case use of Some a \<Rightarrow> (a, s) | None \<Rightarrow> alloc blank s);
          s2 = set_local_dbos_context (Some a) s1; c = ct_objects s2 ! a
      in if is_within_workflow c then (Inl AssertionError, s2)
         else (Inr (a, prev, c), modify a (enter_workflow_ctx uuid) s2))"

definition exit_workflow :: "nat \<times> nat option \<times> DBOSContext \<Rightarrow> ctx_store \<Rightarrow> unit res \<times> ctx_store" where
  "exit_workflow frame s = (case frame of (use, prev, saved) \<Rightarrow>
     (case ct_current s of
        None \<Rightarrow> (Inl AssertionError, s)
      | Some a \<Rightarrow>
          if a \<noteq> use then (Inl AssertionError, s)
          else if \<not> is_within_workflow (ct_objects s ! a) then (Inl AssertionError, s)
          else (Inr (), set_local_dbos_context prev (modify a (exit_workflow_ctx saved) s))))"

definition enter_step :: "nat \<Rightarrow> ctx_store \<Rightarrow> nat res \<times> ctx_store" where
  "enter_step use s = (case ct_current s of
     None \<Rightarrow> (Inl AssertionError, s)
   | Some a \<Rightarrow>
       if \<not> is_workflow (ct_objects s ! a) then (Inl AssertionError, s)
       else (Inr a, modify use (\<lambda>c. start_step (cx_function_id c) c) (set_local_dbos_context (Some use) s)))"

definition exit_step :: "nat \<Rightarrow> ctx_store \<Rightarrow> unit res \<times> ctx_store" where
  "exit_step prev s = (case ct_current s of
     None \<Rightarrow> (Inl AssertionError, s)
   | Some a \<Rightarrow>
       if \<not> is_step (ct_objects s ! a) then (Inl AssertionError, s)
       else (Inr (), set_local_dbos_context (Some prev) (modify a end_step s)))"

definition set_attempt :: "int option \<Rightarrow> int option \<Rightarrow> ctx_store \<Rightarrow> ctx_store" where
  "set_attempt cur_attempt max_attempts s = (case ct_current s of
     None \<Rightarrow> s
   | Some a \<Rightarrow> modify a (\<lambda>c. c\<lparr>cx_step_status := map_option (\<lambda>st. st\<lparr>ss_current_attempt := cur_attempt,
       ss_max_attempts := max_attempts\<rparr>) (cx_step_status c)\<rparr>) s)"

definition enter_step_retry :: "int \<Rightarrow> int \<Rightarrow> ctx_store \<Rightarrow> ctx_store" where
  "enter_step_retry i n = set_attempt (Some i) (Some n)"

definition exit_step_retry :: "ctx_store \<Rightarrow> ctx_store" where
  "exit_step_retry = set_attempt None None"

definition enter_transaction :: "ctx_store \<Rightarrow> unit res \<times> ctx_store" where
  "enter_transaction s = (case ct_current s of
     None \<Rightarrow> (Inl AssertionError, s)
   | Some a \<Rightarrow>
       if \<not> is_workflow (ct_objects s ! a) then (Inl AssertionError, s)
       else (Inr (), modify a (\<lambda>c. start_transaction (cx_function_id c + 1) (c\<lparr>cx_function_id := cx_function_id c + 1\<rparr>)) s))"

definition exit_transaction :: "ctx_store \<Rightarrow> unit res \<times> ctx_store" where
  "exit_transaction s = (case ct_current s of
     None \<Rightarrow> (Inl AssertionError, s)
   | Some a \<Rightarrow>
       if \<not> is_transaction (ct_objects s ! a) then (Inl AssertionError, s)
       else (Inr (), modify a end_transaction s))"

definition enter_assume_role :: "string option \<Rightarrow> ctx_store \<Rightarrow> string option res \<times> ctx_store" where
  "enter_assume_role role s = (case ct_current s of
     None \<Rightarrow> (Inl AssertionError, s)
   | Some a \<Rightarrow> (Inr (cx_assumed_role (ct_objects s ! a)),
       if role \<noteq> None then modify a (\<lambda>c. c\<lparr>cx_assumed_role := role\<rparr>) s else s))"

definition exit_assume_role :: "string option \<Rightarrow> string option \<Rightarrow> ctx_store \<Rightarrow> unit res \<times> ctx_store" where
  "exit_assume_role role prior s = (case ct_current s of
     None \<Rightarrow> (Inl AssertionError, s)
   | Some a \<Rightarrow>
       if role \<noteq> None \<and> cx_assumed_role (ct_objects s ! a) \<noteq> role then (Inl AssertionError, s)
       else (Inr (), modify a (\<lambda>c. c\<lparr>cx_assumed_role := prior\<rparr>) s))"

section \<open>Programs\<close>

text \<open>
  What code does to the contexts: options in \<^verbatim>\<open>with\<close> blocks, roles, workflows that it starts or calls, steps and
  transactions, exceptions. A called workflow runs in the child context that \<open>create_start_workflow_child\<close> makes for it, a
  step in the snapshot of the workflow's context (outside a workflow it is an ordinary call), with the number
  of its attempt. The string is the ID that would be generated.
\<close>

datatype program =
    Pass
  | Seq program program
  | Fail dbos_error
  | With manager program
  | AssumeRole "string option" program
  | StartWorkflow string
  | CallWorkflow string program
  | CallStep "(int \<times> int) option" program
  | CallTransaction program

text \<open>The statement after a block: the exception of the body goes on, unless leaving the block raises another.\<close>

definition leave :: "unit res \<Rightarrow> unit res \<times> ctx_store \<Rightarrow> unit res \<times> ctx_store" where
  "leave r x = (case x of (Inl e, s) \<Rightarrow> (Inl e, s) | (Inr _, s) \<Rightarrow> (r, s))"

definition start_child :: "DBOSContext \<Rightarrow> string \<Rightarrow> ctx_store \<Rightarrow> nat res \<times> ctx_store" where
  "start_child blank uuid s = (case create_start_workflow_child uuid blank (get_local_dbos_context s) of
     Inl e \<Rightarrow> (Inl e, s)
   | Inr (child, cur) \<Rightarrow>
       (case alloc child (case (ct_current s, cur) of (Some a, Some c) \<Rightarrow> modify a (\<lambda>_. c) s | _ \<Rightarrow> s) of
          (a, s1) \<Rightarrow> (Inr a, s1)))"

fun exec :: "DBOSContext \<Rightarrow> program \<Rightarrow> ctx_store \<Rightarrow> unit res \<times> ctx_store" where
  "exec blank Pass s = (Inr (), s)"
| "exec blank (Seq p q) s = (case exec blank p s of (Inl e, s1) \<Rightarrow> (Inl e, s1) | (Inr _, s1) \<Rightarrow> exec blank q s1)"
| "exec blank (Fail e) s = (Inl e, s)"
| "exec blank (With m p) s = (case enter blank m s of (frame, s1) \<Rightarrow>
     (case exec blank p s1 of (r, s2) \<Rightarrow> leave r (exit m frame s2)))"
| "exec blank (AssumeRole role p) s = (case enter_assume_role role s of
     (Inl e, s1) \<Rightarrow> (Inl e, s1)
   | (Inr prior, s1) \<Rightarrow> (case exec blank p s1 of (r, s2) \<Rightarrow> leave r (exit_assume_role role prior s2)))"
| "exec blank (StartWorkflow uuid) s = (case start_child blank uuid s of (Inl e, s1) \<Rightarrow> (Inl e, s1) | (Inr a, s1) \<Rightarrow> (Inr (), s1))"
| "exec blank (CallWorkflow uuid p) s = (case start_child blank uuid s of
     (Inl e, s1) \<Rightarrow> (Inl e, s1)
   | (Inr a, s1) \<Rightarrow> (case enter_workflow blank (Some a) uuid s1 of
       (Inl e, s2) \<Rightarrow> (Inl e, s2)
     | (Inr frame, s2) \<Rightarrow> (case exec blank p s2 of (r, s3) \<Rightarrow> leave r (exit_workflow frame s3))))"
| "exec blank (CallStep attempt p) s = (case ct_current s of
     None \<Rightarrow> exec blank p s
   | Some a \<Rightarrow>
       if \<not> is_workflow (ct_objects s ! a) then exec blank p s
       else (case snapshot_step_ctx False blank (ct_objects s ! a) of (sc, c') \<Rightarrow>
         (case alloc sc (modify a (\<lambda>_. c') s) of (b, s1) \<Rightarrow>
           (case enter_step b s1 of
              (Inl e, s2) \<Rightarrow> (Inl e, s2)
            | (Inr prev, s2) \<Rightarrow>
                (case attempt of
                   None \<Rightarrow> (case exec blank p s2 of (r, s3) \<Rightarrow> leave r (exit_step prev s3))
                 | Some (i, n) \<Rightarrow> (case exec blank p (enter_step_retry i n s2) of (r, s3) \<Rightarrow>
                     leave r (exit_step prev (exit_step_retry s3))))))))"
| "exec blank (CallTransaction p) s = (case enter_transaction s of
     (Inl e, s1) \<Rightarrow> (Inl e, s1)
   | (Inr _, s1) \<Rightarrow> (case exec blank p s1 of (r, s2) \<Rightarrow> leave r (exit_transaction s2)))"

section \<open>Restoration\<close>

text \<open>
  The settings of a context: all of it but the step counter, the ID for the next workflow and the mark of its
  block, which only controls a warning.
\<close>

definition settings :: "DBOSContext \<Rightarrow> DBOSContext" where
  "settings c = c\<lparr>cx_function_id := 0, cx_id_assigned_for_next_workflow := [], cx_is_within_set_workflow_id_block := False\<rparr>"

definition progressed :: "DBOSContext \<Rightarrow> DBOSContext \<Rightarrow> bool" where
  "progressed c c' \<longleftrightarrow> settings c' = settings c \<and> cx_function_id c \<le> cx_function_id c'"

text \<open>A context without a session is not in a transaction, and its counter starts at -1.\<close>

definition ctx_ok :: "DBOSContext \<Rightarrow> bool" where
  "ctx_ok c \<longleftrightarrow> (\<not> cx_sql_session c \<longrightarrow> cx_curr_tx_function_id c = -1) \<and> cx_function_id c \<ge> -1"

definition store_ok :: "ctx_store \<Rightarrow> bool" where
  "store_ok s \<longleftrightarrow> (\<forall>c \<in> set (ct_objects s). ctx_ok c) \<and> (case ct_current s of None \<Rightarrow> True | Some a \<Rightarrow> a < length (ct_objects s))"

definition restored :: "ctx_store \<Rightarrow> ctx_store \<Rightarrow> bool" where
  "restored s s' \<longleftrightarrow> store_ok s' \<and> ct_current s' = ct_current s \<and> length (ct_objects s) \<le> length (ct_objects s')
     \<and> (\<forall>a < length (ct_objects s). if ct_current s = Some a then progressed (ct_objects s ! a) (ct_objects s' ! a)
          else ct_objects s' ! a = ct_objects s ! a)"

lemma settings_eqE:
  assumes "settings c' = settings c"
  obtains i w b where "c' = c\<lparr>cx_function_id := i, cx_id_assigned_for_next_workflow := w, cx_is_within_set_workflow_id_block := b\<rparr>"
  using assms by (cases c'; cases c) (simp add: settings_def)

lemma restore_apply:
  assumes "progressed (apply_manager m c) c'"
  shows "progressed c (restore_manager m c c')"
proof -
  from assms obtain i w b where c': "c' = (apply_manager m c)\<lparr>cx_function_id := i, cx_id_assigned_for_next_workflow := w,
      cx_is_within_set_workflow_id_block := b\<rparr>" unfolding progressed_def by (metis settings_eqE)
  have "cx_function_id (apply_manager m c) = cx_function_id c" by (cases m) (simp_all add: manager_defs)
  with assms have "cx_function_id c \<le> i" by (simp add: progressed_def c')
  then show ?thesis by (cases m; cases c) (simp_all add: c' manager_defs progressed_def settings_def)
qed

lemma progressed_refl [simp]: "progressed c c"
  by (simp add: progressed_def)

lemma progressed_trans: "progressed c d \<Longrightarrow> progressed d e \<Longrightarrow> progressed c e"
  by (simp add: progressed_def)

lemma progressed_fields:
  assumes "progressed c c'"
  shows "cx_sql_session c' = cx_sql_session c" "cx_curr_tx_function_id c' = cx_curr_tx_function_id c"
    "cx_workflow_id c' = cx_workflow_id c" "cx_curr_step_function_id c' = cx_curr_step_function_id c"
    "cx_assumed_role c' = cx_assumed_role c" "cx_function_id c \<le> cx_function_id c'"
proof -
  from assms obtain i w b where "c' = c\<lparr>cx_function_id := i, cx_id_assigned_for_next_workflow := w,
      cx_is_within_set_workflow_id_block := b\<rparr>" unfolding progressed_def by (metis settings_eqE)
  then show "cx_sql_session c' = cx_sql_session c" "cx_curr_tx_function_id c' = cx_curr_tx_function_id c"
    "cx_workflow_id c' = cx_workflow_id c" "cx_curr_step_function_id c' = cx_curr_step_function_id c"
    "cx_assumed_role c' = cx_assumed_role c" by simp_all
  show "cx_function_id c \<le> cx_function_id c'" using assms by (simp add: progressed_def)
qed

lemma progressed_ok: "progressed c c' \<Longrightarrow> ctx_ok c \<Longrightarrow> ctx_ok c'"
  using progressed_fields [of c c'] by (auto simp: ctx_ok_def)

lemma restored_refl: "store_ok s \<Longrightarrow> restored s s"
  by (auto simp: restored_def)

lemma restored_trans: "restored s s1 \<Longrightarrow> restored s1 s2 \<Longrightarrow> restored s s2"
proof -
  assume r: "restored s s1" "restored s1 s2"
  have "if ct_current s = Some a then progressed (ct_objects s ! a) (ct_objects s2 ! a) else ct_objects s2 ! a = ct_objects s ! a"
    if "a < length (ct_objects s)" for a
  proof (cases "ct_current s = Some a")
    case True
    with r that have "progressed (ct_objects s ! a) (ct_objects s1 ! a)" "progressed (ct_objects s1 ! a) (ct_objects s2 ! a)"
      by (auto simp: restored_def)
    then show ?thesis using True by (simp add: progressed_trans)
  qed (use r that in \<open>auto simp: restored_def\<close>)
  with r show ?thesis by (auto simp: restored_def)
qed

lemma modify_simps [simp]:
  "ct_current (modify a f s) = ct_current s" "length (ct_objects (modify a f s)) = length (ct_objects s)"
  "b \<noteq> a \<Longrightarrow> ct_objects (modify a f s) ! b = ct_objects s ! b"
  "a < length (ct_objects s) \<Longrightarrow> ct_objects (modify a f s) ! a = f (ct_objects s ! a)"
  by (simp_all add: modify_def)

lemma set_local_simps [simp]:
  "ct_current (set_local_dbos_context a s) = a" "ct_objects (set_local_dbos_context a s) = ct_objects s"
  by (simp_all add: set_local_dbos_context_def)

lemma store_ok_modify:
  assumes "store_ok s" "a < length (ct_objects s) \<Longrightarrow> ctx_ok (f (ct_objects s ! a))"
  shows "store_ok (modify a f s)"
proof (cases "a < length (ct_objects s)")
  case True
  then have "set (ct_objects (modify a f s)) \<subseteq> insert (f (ct_objects s ! a)) (set (ct_objects s))"
    by (simp add: modify_def set_update_subset_insert)
  with assms True show ?thesis by (fastforce simp: store_ok_def split: option.splits)
next
  case False
  with assms show ?thesis by (simp add: store_ok_def modify_def not_less list_update_beyond split: option.splits)
qed

text \<open>A block that changes the current context and undoes it.\<close>

lemma block_restored:
  assumes s: "store_ok s" and a: "ct_current s = Some a" and body: "restored (modify a f s) s2"
    and undo: "progressed (f (ct_objects s ! a)) (ct_objects s2 ! a) \<Longrightarrow> progressed (ct_objects s ! a) (g (ct_objects s2 ! a))"
  shows "restored s (modify a g s2)"
proof -
  have lt: "a < length (ct_objects s)" using s a by (simp add: store_ok_def)
  have p: "progressed (ct_objects s ! a) (g (ct_objects s2 ! a))"
    using body a lt by (intro undo) (auto simp: restored_def)
  have "ctx_ok (ct_objects s ! a)" using s lt by (simp add: store_ok_def)
  then have "ctx_ok (g (ct_objects s2 ! a))" using p progressed_ok by blast
  then have "store_ok (modify a g s2)" using body by (intro store_ok_modify) (simp_all add: restored_def)
  moreover have "ct_objects (modify a g s2) ! b = ct_objects s ! b" if "b < length (ct_objects s)" "b \<noteq> a" for b
    using body that a by (auto simp: restored_def)
  ultimately show ?thesis using body a p lt by (auto simp: restored_def)
qed

text \<open>A block that installs a new context and afterwards the previous one.\<close>

lemma install_restored:
  assumes s: "store_ok s" and s0: "restored s s0" and c: "ctx_ok c"
    and body: "restored (set_local_dbos_context (Some (length (ct_objects s0))) (s0\<lparr>ct_objects := ct_objects s0 @ [c]\<rparr>)) s2"
    and g: "ctx_ok (g (ct_objects s2 ! length (ct_objects s0)))"
  shows "restored s (set_local_dbos_context (ct_current s) (modify (length (ct_objects s0)) g s2))"
proof -
  let ?n = "length (ct_objects s0)"
  have "store_ok (modify ?n g s2)" using body g by (intro store_ok_modify) (simp_all add: restored_def)
  moreover have "case ct_current s of None \<Rightarrow> True | Some a \<Rightarrow> a < length (ct_objects s2)"
    using s s0 body by (auto simp: store_ok_def restored_def split: option.splits)
  ultimately have ok: "store_ok (set_local_dbos_context (ct_current s) (modify ?n g s2))"
    by (auto simp: store_ok_def split: option.splits)
  have "ct_objects (modify ?n g s2) ! a = ct_objects s0 ! a" if "a < length (ct_objects s)" for a
  proof -
    have "a < ?n" using that s0 by (simp add: restored_def)
    then show ?thesis using body by (auto simp: restored_def nth_append)
  qed
  with ok s0 body show ?thesis by (auto simp: restored_def)
qed

lemma modify_last [simp]:
  "length (ct_objects s0) = n \<Longrightarrow> modify n f (set_local_dbos_context b (s0\<lparr>ct_objects := ct_objects s0 @ [c]\<rparr>))
    = set_local_dbos_context b (s0\<lparr>ct_objects := ct_objects s0 @ [f c]\<rparr>)"
  by (cases s0) (auto simp: modify_def set_local_dbos_context_def)

lemma install_body:
  assumes "restored (set_local_dbos_context (Some (length (ct_objects s0))) (s0\<lparr>ct_objects := ct_objects s0 @ [c]\<rparr>)) s3"
  shows "progressed c (ct_objects s3 ! length (ct_objects s0))" "ct_current s3 = Some (length (ct_objects s0))"
    "length (ct_objects s0) < length (ct_objects s3)"
  using assms by (auto simp: restored_def)

section \<open>Every construct restores the contexts\<close>

lemma leave_snd [simp]: "snd (leave r x) = snd x"
  by (auto simp: leave_def split: prod.splits sum.splits)

lemma leave_Inr [simp]: "leave r (Inr u, s) = (r, s)"
  by (simp add: leave_def)

lemma current_ok: "store_ok s \<Longrightarrow> ct_current s = Some a \<Longrightarrow> a < length (ct_objects s) \<and> ctx_ok (ct_objects s ! a)"
  by (simp add: store_ok_def)

lemma restored_current: "restored s s' \<Longrightarrow> ct_current s = Some a \<Longrightarrow> store_ok s \<Longrightarrow> progressed (ct_objects s ! a) (ct_objects s' ! a)"
  by (auto simp: restored_def store_ok_def)

text \<open>A setting changed for the duration of a block; leaving the block raises nothing.\<close>

lemma apply_manager_ok: "ctx_ok c \<Longrightarrow> ctx_ok (apply_manager m c)"
  by (cases m) (simp_all add: ctx_ok_def manager_defs)

lemma new_context_ok: "ctx_ok (new_context e a)"
  by (simp add: ctx_ok_def new_context_def)

lemma with_restored:
  assumes s: "store_ok s" and blank: "ctx_ok blank"
    and body: "\<And>s1. store_ok s1 \<Longrightarrow> restored s1 (snd (exec blank p s1))"
  shows "restored s (snd (exec blank (With m p) s))"
    and "fst (exec blank (With m p) s) = fst (exec blank p (snd (enter blank m s)))"
proof -
  obtain frame s1 where en: "enter blank m s = (frame, s1)" by (rule prod.exhaust)
  obtain r s2 where ex: "exec blank p s1 = (r, s2)" by (rule prod.exhaust)
  have both: "\<exists>s3. exit m frame s2 = (Inr (), s3) \<and> restored s s3"
  proof (cases "ct_current s")
    case (Some a)
    with en have f: "frame = (False, ct_objects s ! a)" and s1: "s1 = modify a (apply_manager m) s"
      by (simp_all add: enter_def)
    have ok: "store_ok s1" unfolding s1 using s current_ok [OF s Some] by (intro store_ok_modify apply_manager_ok) simp_all
    with body [OF this] ex have r2: "restored (modify a (apply_manager m) s) s2" by (simp add: s1)
    have cur: "ct_current s2 = Some a" using r2 Some by (simp add: restored_def)
    have "restored s (modify a (restore_manager m (ct_objects s ! a)) s2)"
      by (rule block_restored [OF s Some r2]) (rule restore_apply)
    with f cur show ?thesis by (simp add: exit_def)
  next
    case None
    let ?n = "length (ct_objects s)"
    let ?s1 = "set_local_dbos_context (Some ?n) (s\<lparr>ct_objects := ct_objects s @ [apply_manager m blank]\<rparr>)"
    from None en have f: "frame = (True, blank)" and s1: "s1 = ?s1"
      by (cases s, auto simp: enter_def alloc_def modify_def set_local_dbos_context_def)+
    have "store_ok s1" using s blank by (auto simp: s1 store_ok_def apply_manager_ok)
    from body [OF this] ex have r2: "restored ?s1 s2" by (simp add: s1)
    have pr: "progressed (apply_manager m blank) (ct_objects s2 ! ?n)" using r2 by (auto simp: restored_def)
    have "ctx_ok (restore_manager m blank (ct_objects s2 ! ?n))" by (rule progressed_ok [OF restore_apply [OF pr] blank])
    from install_restored [where g = "restore_manager m blank", OF s restored_refl [OF s] apply_manager_ok [OF blank] r2 this] None
    have "restored s (set_local_dbos_context None (modify ?n (restore_manager m blank) s2))" by simp
    moreover have "ct_current s2 = Some ?n" using r2 by (simp add: restored_def)
    ultimately show ?thesis using f by (simp add: exit_def)
  qed
  then obtain s3 where "exit m frame s2 = (Inr (), s3)" "restored s s3" by blast
  with en ex show "restored s (snd (exec blank (With m p) s))"
    and "fst (exec blank (With m p) s) = fst (exec blank p (snd (enter blank m s)))" by simp_all
qed

lemma assume_role_restored:
  assumes s: "store_ok s" and body: "\<And>s1. store_ok s1 \<Longrightarrow> restored s1 (snd (exec blank p s1))"
  shows "restored s (snd (exec blank (AssumeRole role p) s))"
proof (cases "ct_current s")
  case None
  then show ?thesis using s by (simp add: enter_assume_role_def restored_refl)
next
  case (Some a)
  let ?f = "\<lambda>c. if role \<noteq> None then c\<lparr>cx_assumed_role := role\<rparr> else c" and ?prior = "cx_assumed_role (ct_objects s ! a)"
  have en: "enter_assume_role role s = (Inr ?prior, modify a ?f s)"
    using Some by (simp add: enter_assume_role_def modify_def)
  have ok: "store_ok (modify a ?f s)" using s current_ok [OF s Some] by (intro store_ok_modify) (simp_all add: ctx_ok_def)
  obtain r s2 where ex: "exec blank p (modify a ?f s) = (r, s2)" by (rule prod.exhaust)
  with body [OF ok] have r2: "restored (modify a ?f s) s2" by simp
  have cur: "ct_current s2 = Some a" using r2 Some by (simp add: restored_def)
  have pr: "progressed (?f (ct_objects s ! a)) (ct_objects s2 ! a)"
    using restored_current [OF r2 _ ok, of a] Some current_ok [OF s Some] by simp
  have role: "role \<noteq> None \<longrightarrow> cx_assumed_role (ct_objects s2 ! a) = role" using progressed_fields(5) [OF pr] by auto
  have "restored s (modify a (\<lambda>c. c\<lparr>cx_assumed_role := ?prior\<rparr>) s2)"
  proof (rule block_restored [OF s Some r2])
    assume pr: "progressed (?f (ct_objects s ! a)) (ct_objects s2 ! a)"
    then obtain i w b where "ct_objects s2 ! a = (?f (ct_objects s ! a))\<lparr>cx_function_id := i, cx_id_assigned_for_next_workflow := w,
        cx_is_within_set_workflow_id_block := b\<rparr>" unfolding progressed_def by (metis settings_eqE)
    then have "settings ((ct_objects s2 ! a)\<lparr>cx_assumed_role := ?prior\<rparr>) = settings (ct_objects s ! a)"
      by (cases "ct_objects s ! a") (simp add: settings_def)
    with progressed_fields(6) [OF pr] show "progressed (ct_objects s ! a) ((ct_objects s2 ! a)\<lparr>cx_assumed_role := ?prior\<rparr>)"
      by (simp add: progressed_def split: if_splits)
  qed
  with cur role en ex show ?thesis by (auto simp: exit_assume_role_def)
qed

lemma transaction_restored:
  assumes s: "store_ok s" and body: "\<And>s1. store_ok s1 \<Longrightarrow> restored s1 (snd (exec blank p s1))"
  shows "restored s (snd (exec blank (CallTransaction p) s))"
proof (cases "\<exists>a. ct_current s = Some a \<and> is_workflow (ct_objects s ! a)")
  case False
  then show ?thesis using s by (auto simp: enter_transaction_def restored_refl split: option.splits)
next
  case True
  then obtain a where a: "ct_current s = Some a" "is_workflow (ct_objects s ! a)" by blast
  let ?c = "ct_objects s ! a" and ?f = "\<lambda>c. start_transaction (cx_function_id c + 1) (c\<lparr>cx_function_id := cx_function_id c + 1\<rparr>)"
  have en: "enter_transaction s = (Inr (), modify a ?f s)" using a by (simp add: enter_transaction_def)
  have c: "ctx_ok ?c" "\<not> cx_sql_session ?c" using current_ok [OF s a(1)] a(2) by (simp_all add: is_workflow_def is_transaction_def)
  have ok: "store_ok (modify a ?f s)" using s c by (intro store_ok_modify) (simp_all add: ctx_ok_def start_transaction_def)
  obtain r s2 where ex: "exec blank p (modify a ?f s) = (r, s2)" by (rule prod.exhaust)
  with body [OF ok] have r2: "restored (modify a ?f s) s2" by simp
  have cur: "ct_current s2 = Some a" using r2 a by (simp add: restored_def)
  have pr: "progressed (?f ?c) (ct_objects s2 ! a)" using restored_current [OF r2 _ ok, of a] a current_ok [OF s a(1)] by simp
  have tx: "is_transaction (ct_objects s2 ! a)" using progressed_fields(1) [OF pr] by (simp add: is_transaction_def start_transaction_def)
  have "restored s (modify a end_transaction s2)"
  proof (rule block_restored [OF s a(1) r2])
    assume pr: "progressed (?f ?c) (ct_objects s2 ! a)"
    then obtain i w b where "ct_objects s2 ! a = (?f ?c)\<lparr>cx_function_id := i, cx_id_assigned_for_next_workflow := w,
        cx_is_within_set_workflow_id_block := b\<rparr>" unfolding progressed_def by (metis settings_eqE)
    then have "settings (end_transaction (ct_objects s2 ! a)) = settings (?c\<lparr>cx_sql_session := False, cx_curr_tx_function_id := -1\<rparr>)"
      by (simp add: settings_def end_transaction_def start_transaction_def)
    also have "?c\<lparr>cx_sql_session := False, cx_curr_tx_function_id := -1\<rparr> = ?c"
      using c by (intro DBOSContext.equality) (simp_all add: ctx_ok_def)
    finally have "settings (end_transaction (ct_objects s2 ! a)) = settings ?c" .
    with progressed_fields(6) [OF pr] show "progressed ?c (end_transaction (ct_objects s2 ! a))"
      by (simp add: progressed_def end_transaction_def start_transaction_def)
  qed
  with cur tx en ex show ?thesis by (simp add: exit_transaction_def)
qed

text \<open>Making a child context takes the next number of the parent and its assigned ID; the child has an ID.\<close>

lemma start_child_cases:
  assumes s: "store_ok s" and uuid: "uuid \<noteq> []"
  obtains (bad) "start_child (new_context e ap) uuid s = (Inl AssertionError, s)"
    | (child) s0 c where "start_child (new_context e ap) uuid s = (Inr (length (ct_objects s0)), s0\<lparr>ct_objects := ct_objects s0 @ [c]\<rparr>)"
        "restored s s0" "ctx_ok c" "cx_workflow_id c = []" "cx_id_assigned_for_next_workflow c \<noteq> []"
proof (cases "ct_current s")
  case None
  let ?c = "(new_context e ap)\<lparr>cx_id_assigned_for_next_workflow := uuid\<rparr>"
  have "start_child (new_context e ap) uuid s = (Inr (length (ct_objects s)), s\<lparr>ct_objects := ct_objects s @ [?c]\<rparr>)"
    using None by (simp add: start_child_def get_local_dbos_context_def create_start_workflow_child_def assign_workflow_id_def
        alloc_def new_context_def)
  moreover have "ctx_ok ?c" "cx_workflow_id ?c = []" "cx_id_assigned_for_next_workflow ?c \<noteq> []"
    using uuid by (simp_all add: ctx_ok_def new_context_def)
  ultimately show ?thesis by (rule child [OF _ restored_refl [OF s]])
next
  case (Some a)
  let ?c = "ct_objects s ! a"
  show ?thesis
  proof (cases "create_start_workflow_child uuid (new_context e ap) (Some ?c)")
    case (Inl err)
    then have "err = AssertionError" by (auto simp: create_start_workflow_child_def Let_def split: if_splits prod.splits)
    with Inl Some show ?thesis by (intro bad) (simp add: start_child_def get_local_dbos_context_def)
  next
    case (Inr x)
    obtain d c2 where x: "x = (d, Some c2)"
      using Inr by (auto simp: create_start_workflow_child_def Let_def split: if_splits prod.splits)
    have pr: "progressed ?c c2" using Inr x
      by (auto simp: create_start_workflow_child_def create_child_def Let_def progressed_def settings_def split: if_splits)
    have d: "ctx_ok d" "cx_workflow_id d = []" "cx_id_assigned_for_next_workflow d \<noteq> []" using Inr x uuid
      by (auto simp: create_start_workflow_child_def create_child_def Let_def ctx_ok_def new_context_def assign_workflow_id_def split: if_splits)
    let ?s0 = "modify a (\<lambda>_. c2) s"
    have "ctx_ok c2" using progressed_ok [OF pr] current_ok [OF s Some] by blast
    with s have "store_ok ?s0" by (intro store_ok_modify)
    then have "restored s ?s0" using Some pr current_ok [OF s Some] by (auto simp: restored_def)
    with d Inr x Some show ?thesis
      by (intro child [of ?s0 d]) (simp_all add: start_child_def get_local_dbos_context_def alloc_def)
  qed
qed

lemma call_workflow_restored:
  assumes s: "store_ok s" and uuid: "uuid \<noteq> []"
    and body: "\<And>s1. store_ok s1 \<Longrightarrow> restored s1 (snd (exec (new_context e ap) p s1))"
  shows "restored s (snd (exec (new_context e ap) (CallWorkflow uuid p) s))"
  using s uuid
proof (cases rule: start_child_cases [where e = e and ap = ap])
  case bad
  then show ?thesis using s by (simp add: restored_refl)
next
  case (child s0 c)
  let ?n = "length (ct_objects s0)" and ?c1 = "enter_workflow_ctx uuid c"
  let ?s2 = "set_local_dbos_context (Some ?n) (s0\<lparr>ct_objects := ct_objects s0 @ [?c1]\<rparr>)"
  have en: "enter_workflow (new_context e ap) (Some ?n) uuid (s0\<lparr>ct_objects := ct_objects s0 @ [c]\<rparr>)
      = (Inr (?n, ct_current s, c), ?s2)"
    using child(2,4) by (cases s0) (simp add: enter_workflow_def is_within_workflow_def modify_def set_local_dbos_context_def restored_def)
  have c1: "ctx_ok ?c1" "cx_workflow_id ?c1 \<noteq> []"
    using child(3,5) by (simp_all add: enter_workflow_ctx_def start_workflow_def assign_workflow_id_def ctx_ok_def)
  have "store_ok ?s2" using child(2) c1 by (auto simp: store_ok_def restored_def)
  obtain r s3 where ex: "exec (new_context e ap) p ?s2 = (r, s3)" by (rule prod.exhaust)
  with body [OF \<open>store_ok ?s2\<close>] have r3: "restored ?s2 s3" by simp
  have pr: "progressed ?c1 (ct_objects s3 ! ?n)" and cur: "ct_current s3 = Some ?n" using install_body [OF r3] by simp_all
  have wf: "is_within_workflow (ct_objects s3 ! ?n)" using c1(2) progressed_fields(3) [OF pr] by (simp add: is_within_workflow_def)
  have "ctx_ok (ct_objects s3 ! ?n)" by (rule progressed_ok [OF pr c1(1)])
  then have "ctx_ok (exit_workflow_ctx c (ct_objects s3 ! ?n))" by (simp add: exit_workflow_ctx_def end_workflow_def ctx_ok_def)
  from install_restored [where g = "exit_workflow_ctx c", OF s child(2) c1(1) r3 this] child(1) en ex cur wf
  show ?thesis by (simp add: exit_workflow_def)
qed

lemma start_workflow_restored:
  assumes s: "store_ok s" and uuid: "uuid \<noteq> []"
  shows "restored s (snd (exec (new_context e ap) (StartWorkflow uuid) s))"
  using s uuid
proof (cases rule: start_child_cases [where e = e and ap = ap])
  case bad
  then show ?thesis using s by (simp add: restored_refl)
next
  case (child s0 c)
  then have "restored s0 (s0\<lparr>ct_objects := ct_objects s0 @ [c]\<rparr>)"
    by (auto simp: restored_def store_ok_def nth_append split: option.splits)
  with child(1,2) show ?thesis by (simp add: restored_trans)
qed

text \<open>A step runs in a snapshot of the workflow's context, which has taken the next number.\<close>

lemma snapshot_parts:
  assumes "snapshot_step_ctx False (new_context e ap) c = (sc, c')" "ctx_ok c"
  shows "progressed c c'" "is_workflow c' = is_workflow c" "ctx_ok sc" "cx_function_id sc \<ge> 0"
  using assms
  by (auto simp: snapshot_step_ctx_def create_child_def Let_def new_context_def progressed_def settings_def ctx_ok_def
      is_workflow_def is_step_def is_transaction_def)

definition attempt_status :: "(int \<times> int) option \<Rightarrow> DBOSContext \<Rightarrow> DBOSContext" where
  "attempt_status att c = (case att of None \<Rightarrow> c | Some (i, n) \<Rightarrow>
     c\<lparr>cx_step_status := map_option (\<lambda>st. st\<lparr>ss_current_attempt := Some i, ss_max_attempts := Some n\<rparr>) (cx_step_status c)\<rparr>)"

lemma call_step_in_workflow:
  assumes s: "store_ok s" and a: "ct_current s = Some a" "is_workflow (ct_objects s ! a)"
    and body: "\<And>s1. store_ok s1 \<Longrightarrow> restored s1 (snd (exec (new_context e ap) p s1))"
  shows "restored s (snd (exec (new_context e ap) (CallStep att p) s))"
proof -
  let ?c = "ct_objects s ! a"
  have ok: "a < length (ct_objects s)" "ctx_ok ?c" using current_ok [OF s a(1)] by simp_all
  obtain sc c' where sn: "snapshot_step_ctx False (new_context e ap) ?c = (sc, c')" by (rule prod.exhaust)
  note sp = snapshot_parts [OF sn ok(2)]
  let ?s0 = "modify a (\<lambda>_. c') s"
  have "store_ok ?s0" using s sp(1) ok by (intro store_ok_modify) (auto intro: progressed_ok)
  then have r0: "restored s ?s0" using a(1) sp(1) ok by (auto simp: restored_def)
  let ?n = "length (ct_objects ?s0)" and ?c1 = "attempt_status att (start_step (cx_function_id sc) sc)"
  let ?s2 = "set_local_dbos_context (Some ?n) (?s0\<lparr>ct_objects := ct_objects ?s0 @ [?c1]\<rparr>)"
  have c1: "ctx_ok ?c1" "is_step ?c1" using sp(3,4)
    by (auto simp: attempt_status_def start_step_def ctx_ok_def is_step_def split: option.splits)
  have ok2: "store_ok ?s2" using r0 c1 by (auto simp: store_ok_def restored_def)
  obtain r s3 where ex: "exec (new_context e ap) p ?s2 = (r, s3)" by (rule prod.exhaust)
  with body [OF ok2] have r3: "restored ?s2 s3" by simp
  have pr: "progressed ?c1 (ct_objects s3 ! ?n)" and cur: "ct_current s3 = Some ?n" and len: "?n < length (ct_objects s3)"
    using install_body [OF r3] by simp_all
  have st: "is_step (ct_objects s3 ! ?n)" using c1(2) progressed_fields(4) [OF pr] by (simp add: is_step_def)
  have "ctx_ok (end_step (ct_objects s3 ! ?n))" using progressed_ok [OF pr c1(1)] by (simp add: end_step_def ctx_ok_def)
  from install_restored [where g = end_step, OF s r0 c1(1) r3 this]
  have fin: "restored s (set_local_dbos_context (Some a) (modify ?n end_step s3))" using a by simp
  have cl: "ct_objects (?s0\<lparr>ct_objects := ct_objects ?s0 @ [sc]\<rparr>) ! a = c'" using ok by (simp add: nth_append)
  have en: "enter_step ?n (?s0\<lparr>ct_objects := ct_objects ?s0 @ [sc]\<rparr>)
      = (Inr a, set_local_dbos_context (Some ?n) (?s0\<lparr>ct_objects := ct_objects ?s0 @ [start_step (cx_function_id sc) sc]\<rparr>))"
    using a sp(2) cl by (simp add: enter_step_def)
  have run: "exec (new_context e ap) (CallStep att p) s = (case exec (new_context e ap) p ?s2 of (r, s3) \<Rightarrow>
      leave r (exit_step a (case att of None \<Rightarrow> s3 | Some _ \<Rightarrow> exit_step_retry s3)))"
    using a sn en by (auto simp: alloc_def enter_step_retry_def set_attempt_def attempt_status_def split: option.splits)
  have "ct_current (exit_step_retry s3) = Some ?n" "is_step (ct_objects (exit_step_retry s3) ! ?n)"
      "modify ?n end_step (exit_step_retry s3) = modify ?n end_step s3"
    using cur len st by (simp_all add: exit_step_retry_def set_attempt_def is_step_def) (simp add: modify_def end_step_def)
  with run ex cur st fin show ?thesis by (cases att) (simp_all add: exit_step_def)
qed

section \<open>Blocks nest\<close>

text \<open>The generated IDs are not empty.\<close>

primrec ids_given :: "program \<Rightarrow> bool" where
  "ids_given Pass \<longleftrightarrow> True"
| "ids_given (Seq p q) \<longleftrightarrow> ids_given p \<and> ids_given q"
| "ids_given (Fail e) \<longleftrightarrow> True"
| "ids_given (With m p) \<longleftrightarrow> ids_given p"
| "ids_given (AssumeRole r p) \<longleftrightarrow> ids_given p"
| "ids_given (StartWorkflow u) \<longleftrightarrow> u \<noteq> []"
| "ids_given (CallWorkflow u p) \<longleftrightarrow> u \<noteq> [] \<and> ids_given p"
| "ids_given (CallStep a p) \<longleftrightarrow> ids_given p"
| "ids_given (CallTransaction p) \<longleftrightarrow> ids_given p"

lemma exec_restored:
  "store_ok s \<Longrightarrow> ids_given p \<Longrightarrow> restored s (snd (exec (new_context e ap) p s))"
proof (induction p arbitrary: s)
  case (Seq p q)
  obtain r s1 where ex: "exec (new_context e ap) p s = (r, s1)" by (rule prod.exhaust)
  with Seq have r1: "restored s s1" by fastforce
  show ?case
  proof (cases r)
    case (Inr u)
    from r1 have "store_ok s1" by (simp add: restored_def)
    with Seq.IH(2) Seq.prems(2) have "restored s1 (snd (exec (new_context e ap) q s1))" by simp
    with r1 ex Inr show ?thesis by (simp add: restored_trans)
  qed (use ex r1 in simp)
next
  case (With m p)
  then show ?case by (intro with_restored(1) new_context_ok) simp_all
next
  case (AssumeRole role p)
  then show ?case by (intro assume_role_restored) simp_all
next
  case (StartWorkflow uuid)
  then show ?case by (intro start_workflow_restored) simp_all
next
  case (CallWorkflow uuid p)
  then show ?case by (intro call_workflow_restored) simp_all
next
  case (CallStep att p)
  show ?case
  proof (cases "\<exists>a. ct_current s = Some a \<and> is_workflow (ct_objects s ! a)")
    case True
    then obtain a where "ct_current s = Some a" "is_workflow (ct_objects s ! a)" by blast
    with CallStep show ?thesis by (intro call_step_in_workflow) simp_all
  next
    case False
    with CallStep show ?thesis by (auto split: option.splits)
  qed
next
  case (CallTransaction p)
  then show ?case by (intro transaction_restored) simp_all
qed (simp_all add: restored_refl)

text \<open>
  C19: Blocks nest and leave no trace. Whatever a program does with options, roles, workflows, steps and
  transactions in nested \<^verbatim>\<open>with\<close> blocks, and however it ends, also when entering one of them raises, afterwards the
  context that was current before is current again and no other context that existed has changed. The context itself
  has the settings it had, apart from three that are not restored: its step counter may have advanced, the
  ID assigned for the next workflow may be another (\<open>unused_workflow_id_leaks\<close> below), and so may the mark of a
  \<^verbatim>\<open>SetWorkflowID\<close> block, which only controls a warning. The program's generated IDs are assumed not empty. A block of options
  (\<open>With\<close>) raises nothing of its own, neither on entry nor on exit: it ends as its body does. The blocks of roles,
  workflows and transactions are not covered by this last part; entering them outside the context they need raises
  \<open>AssertionError\<close>.
\<close>

theorem contexts_restored:
  assumes "store_ok s" "ids_given p" "exec (new_context e ap) p s = (r, s')"
  shows "ct_current s' = ct_current s
    \<and> (\<forall>a < length (ct_objects s). settings (ct_objects s' ! a) = settings (ct_objects s ! a)
         \<and> cx_function_id (ct_objects s ! a) \<le> cx_function_id (ct_objects s' ! a)
         \<and> (ct_current s \<noteq> Some a \<longrightarrow> ct_objects s' ! a = ct_objects s ! a))
    \<and> (\<forall>m. fst (exec (new_context e ap) (With m p) s) = fst (exec (new_context e ap) p (snd (enter (new_context e ap) m s))))"
proof -
  from exec_restored [OF assms(1,2), of e ap] assms(3) have r: "restored s s'" by simp
  then have cur: "ct_current s' = ct_current s" by (simp add: restored_def)
  have objs: "settings (ct_objects s' ! a) = settings (ct_objects s ! a) \<and> cx_function_id (ct_objects s ! a) \<le> cx_function_id (ct_objects s' ! a)
      \<and> (ct_current s \<noteq> Some a \<longrightarrow> ct_objects s' ! a = ct_objects s ! a)" if "a < length (ct_objects s)" for a
    using r that by (cases "ct_current s = Some a") (auto simp: restored_def progressed_def)
  have "fst (exec (new_context e ap) (With m p) s) = fst (exec (new_context e ap) p (snd (enter (new_context e ap) m s)))" for m
    using assms(1,2) by (intro with_restored(2) new_context_ok exec_restored)
  with cur objs show ?thesis by blast
qed

definition example_program :: program where
  "example_program = CallWorkflow ''u1'' (With (SetEnqueueOptions (Some ''d'') (Some 5) None None None)
     (Seq (With (DBOSContextSetAuth (Some ''me'') None) (CallStep (Some (0, 3)) (With (SetWorkflowTimeout (Some 10)) Pass)))
        (Seq (AssumeRole (Some ''admin'') (CallTransaction Pass)) (Fail (AppError ''no'')))))"

theorem contexts_restored_witness:
  "\<exists>s'. exec (new_context ''e'' ''a'') example_program \<lparr>ct_objects = [new_context ''e'' ''a''], ct_current = Some 0\<rparr> = (Inl (AppError ''no''), s')
     \<and> ct_current s' = Some 0 \<and> settings (ct_objects s' ! 0) = settings (new_context ''e'' ''a'')"
proof -
  let ?b = "new_context ''e'' ''a''" and ?s = "\<lparr>ct_objects = [new_context ''e'' ''a''], ct_current = Some 0\<rparr>"
  obtain r s' where run: "exec ?b example_program ?s = (r, s')" by (rule prod.exhaust)
  have "fst (exec ?b example_program ?s) = Inl (AppError ''no'')" by code_simp
  with run have r: "r = Inl (AppError ''no'')" by simp
  have "store_ok ?s" using new_context_ok by (simp add: store_ok_def)
  moreover have "ids_given example_program" by (simp add: example_program_def)
  ultimately show ?thesis using contexts_restored [OF _ _ run] run r by auto
qed

text \<open>
  The ID of a block that starts no workflow stays assigned: if there was a context around the block, the
  next workflow started after it gets the ID.
\<close>

lemma unused_workflow_id_leaks:
  assumes s: "store_ok s" and a: "ct_current s = Some a" and w: "w \<noteq> []"
    and next_wf: "start_child blank uuid (snd (exec blank (With (SetWorkflowID w) Pass) s)) = (Inr b, s')"
  shows "cx_id_assigned_for_next_workflow (ct_objects s' ! b) = w"
proof -
  have lt: "a < length (ct_objects s)" using current_ok [OF s a] by simp
  let ?s1 = "snd (exec blank (With (SetWorkflowID w) Pass) s)"
  have s1: "ct_current ?s1 = Some a" "cx_id_assigned_for_next_workflow (ct_objects ?s1 ! a) = w" "a < length (ct_objects ?s1)"
    using a lt by (simp_all add: enter_def exit_def manager_defs)
  with next_wf w show ?thesis
    by (auto simp: start_child_def get_local_dbos_context_def create_start_workflow_child_def create_child_def assign_workflow_id_def Let_def
        alloc_def nth_append split: if_splits)
qed

end
