(* ===== verification/DBOS_Cron.thy ===== *)
theory DBOS_Cron
  imports DBOS_Calendar
begin

text \<open>
  The cron iterator (\<^verbatim>\<open>dbos/_croniter.py\<close>), forward: the search for the next time that matches an expanded cron
  expression. It does not try the seconds one after the other but jumps, field by field, to the next candidate.
  The definitions are those of the code with \<^verbatim>\<open>is_prev=False\<close>, the only way in which the library calls it. A position is a time in
  whole seconds, since the code drops the fraction first. The key \<^verbatim>\<open>"*"\<close> of the n-th weekdays has no entry, since no accepted
  expression sets it.
\<close>

section \<open>Expanded expressions\<close>

text \<open>An element of an expanded field: \<^verbatim>\<open>"*"\<close>, \<^verbatim>\<open>"l"\<close> or a number. The n-th or last of a weekday.\<close>

datatype cron_item = Star | Last | Item int

datatype nth_weekday = Nth nat | LastWeekday

record cron =
  cr_minute :: "cron_item list"
  cr_hour :: "cron_item list"
  cr_day :: "cron_item list"
  cr_month :: "cron_item list"
  cr_dow :: "cron_item list"
  cr_second :: "cron_item list option"
  cr_year :: "cron_item list option"
  cr_nth :: "(int \<times> nth_weekday list) list"

section \<open>Relative dates\<close>

text \<open>
  The arguments of \<^verbatim>\<open>relativedelta\<close> that the iterator uses: amounts to add, and values that replace a field before.
  The library that adds them to a date is a parameter; what it documents is that the replaced values apply first, that a
  day beyond the end of the month becomes its last day, and that the rest is added as a duration.
\<close>

record relativedelta =
  rd_years :: int
  rd_months :: int
  rd_days :: int
  rd_hours :: int
  rd_minutes :: int
  rd_seconds :: int
  rd_month :: "int option"
  rd_day :: "int option"
  rd_hour :: "int option"
  rd_minute :: "int option"
  rd_second :: "int option"

definition no_delta :: relativedelta where
  "no_delta = \<lparr>rd_years = 0, rd_months = 0, rd_days = 0, rd_hours = 0, rd_minutes = 0, rd_seconds = 0,
     rd_month = None, rd_day = None, rd_hour = None, rd_minute = None, rd_second = None\<rparr>"

definition given :: "int option \<Rightarrow> int \<Rightarrow> int" where
  "given x v = (case x of Some w \<Rightarrow> w | None \<Rightarrow> v)"

definition add_relativedelta :: "datetime \<Rightarrow> relativedelta \<Rightarrow> datetime" where
  "add_relativedelta d x =
     (let M = 12 * (dt_year d + rd_years x) + given (rd_month x) (dt_month d) - 1 + rd_months x;
          t = given (rd_hour x) (dt_hour d) * 3600 + given (rd_minute x) (dt_minute d) * 60 + given (rd_second x) (dt_second d)
      in shift (make_dt M (min (mdays M) (given (rd_day x) (dt_day d))) t)
           (rd_days x * 86400 + rd_hours x * 3600 + rd_minutes x * 60 + rd_seconds x))"

definition relativedelta_law :: "(datetime \<Rightarrow> relativedelta \<Rightarrow> datetime) \<Rightarrow> bool" where
  "relativedelta_law add \<longleftrightarrow> (\<forall>d x. valid_dt d \<longrightarrow> add d x = add_relativedelta d x)"

section \<open>The nearest value of a field\<close>

text \<open>
  \<^verbatim>\<open>_get_next_nearest_diff\<close>; \<^verbatim>\<open>"l"\<close> stands for the range. Comparing it without a range, or a \<^verbatim>\<open>"*"\<close>, raises; no caller
  does.
\<close>

definition item_value :: "int option \<Rightarrow> cron_item \<Rightarrow> int" where
  "item_value rng i = (case i of Item v \<Rightarrow> v | Last \<Rightarrow> (case rng of Some r \<Rightarrow> r | None \<Rightarrow> 0) | Star \<Rightarrow> 0)"

lemma item_value_simps [simp]: "item_value rng (Item v) = v" "item_value (Some r) Last = r"
  by (simp_all add: item_value_def)

definition get_next_nearest_diff :: "int \<Rightarrow> cron_item list \<Rightarrow> int option \<Rightarrow> int option" where
  "get_next_nearest_diff x to_check rng =
     (case List.find (\<lambda>i. item_value rng i \<ge> x) to_check of
        Some i \<Rightarrow> Some (item_value rng i - x)
      | None \<Rightarrow> (case rng of None \<Rightarrow> None | Some r \<Rightarrow> Some (item_value rng (hd to_check) - x + r)))"

section \<open>The jumps\<close>

datatype progress = NoMatch | Moved datetime | Kept datetime

text \<open>A field that is not \<^verbatim>\<open>"*"\<close>: move by the distance to its next value, if that is not here.\<close>

definition move_by :: "cron_item list \<Rightarrow> int option \<Rightarrow> (int \<Rightarrow> datetime) \<Rightarrow> datetime \<Rightarrow> progress" where
  "move_by field diff target d =
     (if Star \<in> set field then Kept d
      else case diff of None \<Rightarrow> Kept d | Some k \<Rightarrow> if k \<noteq> 0 then Moved (target k) else Kept d)"

definition midnight :: relativedelta where
  "midnight = no_delta\<lparr>rd_hour := Some 0, rd_minute := Some 0, rd_second := Some 0\<rparr>"

definition proc_year :: "(datetime \<Rightarrow> relativedelta \<Rightarrow> datetime) \<Rightarrow> cron \<Rightarrow> datetime \<Rightarrow> progress" where
  "proc_year add cr d = (case cr_year cr of
     None \<Rightarrow> Kept d
   | Some field \<Rightarrow>
       if Star \<in> set field then Kept d
       else (case get_next_nearest_diff (dt_year d) field None of
          None \<Rightarrow> NoMatch
        | Some k \<Rightarrow> if k \<noteq> 0 then Moved (add d (midnight\<lparr>rd_years := k, rd_month := Some 1, rd_day := Some 1\<rparr>)) else Kept d))"

definition proc_month :: "(datetime \<Rightarrow> relativedelta \<Rightarrow> datetime) \<Rightarrow> cron \<Rightarrow> datetime \<Rightarrow> progress" where
  "proc_month add cr d = move_by (cr_month cr) (get_next_nearest_diff (dt_month d) (cr_month cr) (Some 12))
     (\<lambda>k. add d (midnight\<lparr>rd_months := k, rd_day := Some 1\<rparr>)) d"

definition proc_day_of_month :: "(datetime \<Rightarrow> relativedelta \<Rightarrow> datetime) \<Rightarrow> cron \<Rightarrow> datetime \<Rightarrow> progress" where
  "proc_day_of_month add cr d = (let days = month_days (dt_year d) (dt_month d) in
     if Star \<notin> set (cr_day cr) \<and> Last \<in> set (cr_day cr) \<and> days = dt_day d then Kept d
     else move_by (cr_day cr) (get_next_nearest_diff (dt_day d) (cr_day cr) (Some days)) (\<lambda>k. add d (midnight\<lparr>rd_days := k\<rparr>)) d)"

definition proc_day_of_week :: "(datetime \<Rightarrow> relativedelta \<Rightarrow> datetime) \<Rightarrow> cron \<Rightarrow> datetime \<Rightarrow> progress" where
  "proc_day_of_week add cr d = move_by (cr_dow cr) (get_next_nearest_diff (dow d) (cr_dow cr) (Some 7))
     (\<lambda>k. add d (midnight\<lparr>rd_days := k\<rparr>)) d"

text \<open>The days of a month that are a given weekday, and those of them that the expression asks for.\<close>

definition get_nth_weekday_of_month :: "int \<Rightarrow> int \<Rightarrow> int \<Rightarrow> int list" where
  "get_nth_weekday_of_month y m w = filter (\<lambda>day. dow (make_dt (12 * y + m - 1) day 0) = w mod 7) [1..month_days y m]"

definition nth_days :: "cron \<Rightarrow> int \<Rightarrow> int \<Rightarrow> int list" where
  "nth_days cr y m = concat (map (\<lambda>(w, ns). let c = get_nth_weekday_of_month y m w in
     concat (map (\<lambda>n. case n of LastWeekday \<Rightarrow> [last c] | Nth k \<Rightarrow> if length c < k then [] else [c ! (k - 1)]) ns)) (cr_nth cr))"

definition proc_day_of_week_nth :: "(datetime \<Rightarrow> relativedelta \<Rightarrow> datetime) \<Rightarrow> cron \<Rightarrow> datetime \<Rightarrow> progress" where
  "proc_day_of_week_nth add cr d =
     (let candidates = filter (\<lambda>day. dt_day d \<le> day) (nth_days cr (dt_year d) (dt_month d)) in
      if candidates = []
      then Moved (add d (midnight\<lparr>rd_days := month_days (dt_year d) (dt_month d) - dt_day d + 1\<rparr>))
      else let k = hd (sort candidates) - dt_day d in
        if k \<noteq> 0 then Moved (add d (midnight\<lparr>rd_days := k\<rparr>)) else Kept d)"

definition proc_hour :: "(datetime \<Rightarrow> relativedelta \<Rightarrow> datetime) \<Rightarrow> cron \<Rightarrow> datetime \<Rightarrow> progress" where
  "proc_hour add cr d = move_by (cr_hour cr) (get_next_nearest_diff (dt_hour d) (cr_hour cr) (Some 24))
     (\<lambda>k. add d (no_delta\<lparr>rd_hours := k, rd_minute := Some 0, rd_second := Some 0\<rparr>)) d"

definition proc_minute :: "(datetime \<Rightarrow> relativedelta \<Rightarrow> datetime) \<Rightarrow> cron \<Rightarrow> datetime \<Rightarrow> progress" where
  "proc_minute add cr d = move_by (cr_minute cr) (get_next_nearest_diff (dt_minute d) (cr_minute cr) (Some 60))
     (\<lambda>k. add d (no_delta\<lparr>rd_minutes := k, rd_second := Some 0\<rparr>)) d"

definition proc_second :: "(datetime \<Rightarrow> relativedelta \<Rightarrow> datetime) \<Rightarrow> cron \<Rightarrow> datetime \<Rightarrow> progress" where
  "proc_second add cr d = (case cr_second cr of
     Some field \<Rightarrow> move_by field (get_next_nearest_diff (dt_second d) field (Some 60)) (\<lambda>k. add d (no_delta\<lparr>rd_seconds := k\<rparr>)) d
   | None \<Rightarrow> Kept (add d (no_delta\<lparr>rd_second := Some 0\<rparr>)))"

definition procs :: "(datetime \<Rightarrow> relativedelta \<Rightarrow> datetime) \<Rightarrow> cron \<Rightarrow> (datetime \<Rightarrow> progress) list" where
  "procs add cr = [proc_year add cr, proc_month add cr, proc_day_of_month add cr,
     if cr_nth cr \<noteq> [] then proc_day_of_week_nth add cr else proc_day_of_week add cr,
     proc_hour add cr, proc_minute add cr, proc_second add cr]"

fun run_procs :: "(datetime \<Rightarrow> progress) list \<Rightarrow> datetime \<Rightarrow> progress" where
  "run_procs [] d = Kept d"
| "run_procs (p # ps) d = (case p d of NoMatch \<Rightarrow> NoMatch | Moved d' \<Rightarrow> Moved d' | Kept d' \<Rightarrow> run_procs ps d')"

section \<open>The search\<close>

definition CroniterBadDateError :: dbos_error where
  "CroniterBadDateError = PyException ''failed to find next date''"

partial_function (option) calc_loop ::
  "(datetime \<Rightarrow> relativedelta \<Rightarrow> datetime) \<Rightarrow> cron \<Rightarrow> int \<Rightarrow> int \<Rightarrow> datetime \<Rightarrow> datetime res option" where
  "calc_loop add cr max_years current_year d =
     (if \<bar>dt_year d - current_year\<bar> \<le> max_years
      then (case run_procs (procs add cr) d of
              NoMatch \<Rightarrow> Some (Inl CroniterBadDateError)
            | Moved d' \<Rightarrow> calc_loop add cr max_years current_year d'
            | Kept d' \<Rightarrow> Some (Inr d'))
      else Some (Inl CroniterBadDateError))"

declare calc_loop.simps [code]

section \<open>The iterator\<close>

text \<open>
  \<^verbatim>\<open>_timestamp_to_datetime\<close> and \<^verbatim>\<open>_datetime_to_timestamp\<close> in a time zone with a fixed offset from UTC, in whole seconds, and
  \<^verbatim>\<open>_calc\<close> on them: the search starts one second, or without a seconds field one minute, after the current time.
\<close>

definition timestamp_to_datetime :: "int \<Rightarrow> int \<Rightarrow> datetime" where
  "timestamp_to_datetime off ts = of_secs (ts + off)"

definition datetime_to_timestamp :: "int \<Rightarrow> datetime \<Rightarrow> int" where
  "datetime_to_timestamp off d = dt_secs d - off"

definition calc_offset :: "cron \<Rightarrow> int" where
  "calc_offset cr = (if cr_second cr \<noteq> None then 1 else 60)"

definition calc :: "(datetime \<Rightarrow> relativedelta \<Rightarrow> datetime) \<Rightarrow> int \<Rightarrow> int \<Rightarrow> cron \<Rightarrow> int \<Rightarrow> int res option" where
  "calc add max_years off cr current =
     (let d = timestamp_to_datetime off (current + calc_offset cr) in
      case calc_loop add cr max_years (dt_year d) d of
        None \<Rightarrow> None
      | Some (Inl e) \<Rightarrow> Some (Inl e)
      | Some (Inr e) \<Rightarrow> Some (Inr (datetime_to_timestamp off e)))"

text \<open>
  \<^verbatim>\<open>_get_next\<close>, forward, for the options that the repository uses (\<^verbatim>\<open>day_or\<close>, no \<^verbatim>\<open>implement_cron_bug\<close>, 50 years): with both
  a day of the month and a day of the week, the earlier of two searches.
\<close>

definition day_or :: "cron \<Rightarrow> bool" where
  "day_or cr \<longleftrightarrow> hd (cr_day cr) \<noteq> Star \<and> hd (cr_dow cr) \<noteq> Star"

definition get_next :: "(datetime \<Rightarrow> relativedelta \<Rightarrow> datetime) \<Rightarrow> int \<Rightarrow> cron \<Rightarrow> int \<Rightarrow> int res option" where
  "get_next add off cr current =
     (if day_or cr
      then (case calc add 50 off (cr\<lparr>cr_dow := [Star]\<rparr>) current of
              None \<Rightarrow> None
            | Some (Inl e) \<Rightarrow> Some (Inl e)
            | Some (Inr t1) \<Rightarrow> (case calc add 50 off (cr\<lparr>cr_day := [Star]\<rparr>) current of
                None \<Rightarrow> None
              | Some (Inl e) \<Rightarrow> Some (Inl e)
              | Some (Inr t2) \<Rightarrow> Some (Inr (if t1 < t2 then t1 else t2))))
      else calc add 50 off cr current)"

end
