(* ===== verification/DBOS_Cron_Search.thy ===== *)
theory DBOS_Cron_Search
  imports DBOS_Cron
begin

text \<open>
  What the search of \<^verbatim>\<open>DBOS_Cron\<close> finds. A locale states what a field of the clock promises, its jumps are proved sound
  once for it, and the months, weekdays, hours, minutes and seconds are its instances; years, days of the month and n-th
  weekdays do not repeat evenly and have their own lemmas. They give that the iterator returns the first time at which an
  expression fires. The last section shows expressions on which it does not.
\<close>

section \<open>What an expression matches\<close>

text \<open>
  The reading of an expression, field by field, that the jumps are to be compared with; a time without a seconds field is
  at second 0. \<open>field_ok\<close> and \<open>day_list_ok\<close> are the conditions on the fields under which no jump misses a match.
\<close>

definition field_has :: "cron_item list \<Rightarrow> int \<Rightarrow> bool" where
  "field_has L v \<longleftrightarrow> Star \<in> set L \<or> Item v \<in> set L"

definition day_has :: "cron_item list \<Rightarrow> datetime \<Rightarrow> bool" where
  "day_has L d \<longleftrightarrow> field_has L (dt_day d) \<or> Last \<in> set L \<and> dt_day d = month_days (dt_year d) (dt_month d)"

definition weekday_has :: "cron \<Rightarrow> datetime \<Rightarrow> bool" where
  "weekday_has cr d = (if cr_nth cr \<noteq> [] then dt_day d \<in> set (nth_days cr (dt_year d) (dt_month d)) else field_has (cr_dow cr) (dow d))"

definition year_has :: "cron \<Rightarrow> datetime \<Rightarrow> bool" where
  "year_has cr d = (case cr_year cr of None \<Rightarrow> True | Some L \<Rightarrow> field_has L (dt_year d))"

definition second_has :: "cron \<Rightarrow> datetime \<Rightarrow> bool" where
  "second_has cr d = (case cr_second cr of None \<Rightarrow> dt_second d = 0 | Some L \<Rightarrow> field_has L (dt_second d))"

definition cron_match :: "cron \<Rightarrow> datetime \<Rightarrow> bool" where
  "cron_match cr d \<longleftrightarrow> year_has cr d \<and> field_has (cr_month cr) (dt_month d) \<and> day_has (cr_day cr) d \<and> weekday_has cr d
     \<and> field_has (cr_hour cr) (dt_hour d) \<and> field_has (cr_minute cr) (dt_minute d) \<and> second_has cr d"

definition items_ok :: "cron_item list \<Rightarrow> bool" where
  "items_ok L \<longleftrightarrow> L \<noteq> [] \<and> sorted (map (item_value None) L) \<and> list_all (\<lambda>i. i \<noteq> Star \<and> i \<noteq> Last) L"

definition field_ok :: "int \<Rightarrow> int \<Rightarrow> cron_item list \<Rightarrow> bool" where
  "field_ok b r L \<longleftrightarrow> Star \<in> set L \<or> items_ok L \<and> list_all (\<lambda>i. b \<le> item_value None i \<and> item_value None i < b + r) L"

text \<open>When an expression fires: on a day that either field asks for, if both do.\<close>

definition matches_at :: "cron \<Rightarrow> int \<Rightarrow> int \<Rightarrow> bool" where
  "matches_at cr off u = cron_match cr (timestamp_to_datetime off u)"

definition fires :: "cron \<Rightarrow> int \<Rightarrow> int \<Rightarrow> bool" where
  "fires cr off u = (if day_or cr then matches_at (cr\<lparr>cr_dow := [Star]\<rparr>) off u \<or> matches_at (cr\<lparr>cr_day := [Star]\<rparr>) off u
     else matches_at cr off u)"

section \<open>The nearest value, correctly\<close>

lemma find_sorted:
  assumes "sorted (map f L)"
  shows "case List.find (\<lambda>i. (x::int) \<le> f i) L of
      Some i \<Rightarrow> i \<in> set L \<and> x \<le> f i \<and> (\<forall>j\<in>set L. x \<le> f j \<longrightarrow> f i \<le> f j)
    | None \<Rightarrow> \<forall>j\<in>set L. f j < x"
  using assms
proof (induction L)
  case (Cons a L)
  show ?case
  proof (cases "x \<le> f a")
    case True
    with Cons.prems show ?thesis by simp
  next
    case False
    with Cons show ?thesis by (simp split: option.split_asm)
  qed
qed simp

lemma items_okD: "items_ok L \<Longrightarrow> i \<in> set L \<Longrightarrow> i = Item (item_value rng i) \<and> item_value rng i = item_value None i"
  by (cases i) (auto simp: items_ok_def item_value_def list_all_iff)

lemma items_ok_map: "items_ok L \<Longrightarrow> map (item_value rng) L = map (item_value None) L"
  by (rule map_cong [OF refl]) (rule conjunct2 [OF items_okD])

text \<open>Within a field that repeats after \<open>r\<close>, the distance is to the nearest value at or after \<open>x\<close>, cyclically.\<close>

lemma nearest_diff_cases:
  assumes ok: "items_ok L"
  obtains (here) k where "get_next_nearest_diff x L (Some r) = Some k" "0 \<le> k" "Item (x + k) \<in> set L" "\<And>w. Item w \<in> set L \<Longrightarrow> x \<le> w \<Longrightarrow> x + k \<le> w"
  | (wrap) k where "get_next_nearest_diff x L (Some r) = Some k" "Item (x + k - r) \<in> set L" "\<And>w. Item w \<in> set L \<Longrightarrow> w < x \<and> x + k - r \<le> w"
proof -
  let ?f = "item_value (Some r)"
  have srt: "sorted (map ?f L)" using ok by (simp add: items_ok_map [OF ok, of "Some r"] items_ok_def)
  note fs = find_sorted [OF srt, of x]
  have it: "?f (Item w) = w" for w by (simp add: item_value_def)
  show thesis
  proof (cases "List.find (\<lambda>i. x \<le> ?f i) L")
    case None
    have ne: "hd L \<in> set L" using ok by (simp add: items_ok_def)
    have le: "?f (hd L) \<le> ?f j" if "j \<in> set L" for j using srt that by (cases L) auto
    show thesis
    proof (rule wrap [of "?f (hd L) - x + r"])
      show "get_next_nearest_diff x L (Some r) = Some (?f (hd L) - x + r)" by (simp add: get_next_nearest_diff_def None)
      have "Item (?f (hd L)) = hd L" by (rule sym [OF conjunct1 [OF items_okD [OF ok ne]]])
      then show "Item (x + (?f (hd L) - x + r) - r) \<in> set L" using ne by simp
      show "w < x \<and> x + (?f (hd L) - x + r) - r \<le> w" if "Item w \<in> set L" for w
        using fs that le [OF that] by (auto simp: None it)
    qed
  next
    case (Some i)
    with fs have i: "i \<in> set L" "x \<le> ?f i" "\<And>j. j \<in> set L \<Longrightarrow> x \<le> ?f j \<Longrightarrow> ?f i \<le> ?f j" by auto
    show thesis
    proof (rule here [of "?f i - x"])
      show "get_next_nearest_diff x L (Some r) = Some (?f i - x)" by (simp add: get_next_nearest_diff_def Some)
      have "Item (?f i) = i" by (rule sym [OF conjunct1 [OF items_okD [OF ok i(1)]]])
      then show "Item (x + (?f i - x)) \<in> set L" using i(1) by simp
      show "x + (?f i - x) \<le> w" if "Item w \<in> set L" "x \<le> w" for w using i(3) [OF that(1)] that(2) by (simp add: it)
    qed (use i in simp)
  qed
qed

lemma nearest_diff_cyclic:
  assumes ok: "items_ok L" and rg: "\<And>w. Item w \<in> set L \<Longrightarrow> b \<le> w \<and> w < b + r" and x: "b \<le> x" "x < b + r"
  obtains k where "get_next_nearest_diff x L (Some r) = Some k" "0 \<le> k" "k = 0 \<Longrightarrow> Item x \<in> set L"
    "\<And>j. 0 \<le> j \<Longrightarrow> j < k \<Longrightarrow> Item ((x - b + j) mod r + b) \<notin> set L"
  using ok
proof (cases rule: nearest_diff_cases [of L x r])
  case (here k)
  have "Item ((x - b + j) mod r + b) \<notin> set L" if "0 \<le> j" "j < k" for j
  proof -
    have "x + k < b + r" using rg [OF here(3)] by simp
    then have "(x - b + j) mod r + b = x + j" using that x by simp
    then show ?thesis using here(4) [of "x + j"] that by auto
  qed
  with here show thesis by (intro that [of k]) simp_all
next
  case (wrap k)
  have k: "0 < k" using rg [OF wrap(2)] x by simp
  have "Item ((x - b + j) mod r + b) \<notin> set L" if j: "0 \<le> j" "j < k" for j
  proof (cases "x - b + j < r")
    case True
    then have "(x - b + j) mod r + b = x + j" using j x by simp
    then show ?thesis using wrap(3) [of "x + j"] j by auto
  next
    case False
    have "x + k - r < b + r" using rg [OF wrap(2)] by simp
    then have "(x - b + j - r) mod r = x - b + j - r" using False j by (intro mod_pos_pos_trivial) simp_all
    then have "(x - b + j) mod r + b = x + j - r" by simp
    then show ?thesis using wrap(3) [of "x + j - r"] j by auto
  qed
  with wrap k show thesis by (intro that [of k]) simp_all
qed

section \<open>The contract of a jump\<close>

text \<open>
  A jump for a condition on times keeps a time that meets it, moves forward past times that do not, and gives up only
  when no later time does. A sequence of jumps does the same for the conjunction.
\<close>

definition sound_at :: "(datetime \<Rightarrow> bool) \<Rightarrow> datetime \<Rightarrow> progress \<Rightarrow> bool" where
  "sound_at Q d p = (case p of
       NoMatch \<Rightarrow> \<forall>t. valid_dt t \<and> dt_secs d \<le> dt_secs t \<longrightarrow> \<not> Q t
     | Moved d' \<Rightarrow> valid_dt d' \<and> dt_secs d < dt_secs d' \<and> (\<forall>t. valid_dt t \<and> dt_secs d \<le> dt_secs t \<and> dt_secs t < dt_secs d' \<longrightarrow> \<not> Q t)
     | Kept d' \<Rightarrow> d' = d \<and> Q d)"

definition sound_proc :: "(datetime \<Rightarrow> bool) \<Rightarrow> (datetime \<Rightarrow> progress) \<Rightarrow> bool" where
  "sound_proc Q p \<longleftrightarrow> (\<forall>d. valid_dt d \<longrightarrow> sound_at Q d (p d))"

lemma sound_at_simps [simp]:
  "sound_at Q d NoMatch \<longleftrightarrow> (\<forall>t. valid_dt t \<and> dt_secs d \<le> dt_secs t \<longrightarrow> \<not> Q t)"
  "sound_at Q d (Moved d') \<longleftrightarrow>
     valid_dt d' \<and> dt_secs d < dt_secs d' \<and> (\<forall>t. valid_dt t \<and> dt_secs d \<le> dt_secs t \<and> dt_secs t < dt_secs d' \<longrightarrow> \<not> Q t)"
  "sound_at Q d (Kept d') \<longleftrightarrow> d' = d \<and> Q d"
  by (simp_all add: sound_at_def)

lemma sound_procD: "sound_proc Q p \<Longrightarrow> valid_dt d \<Longrightarrow> sound_at Q d (p d)"
  by (simp add: sound_proc_def)

lemma sound_run_procs: "list_all2 (\<lambda>Q p. sound_at Q d (p d)) Qs ps \<Longrightarrow> sound_at (\<lambda>t. \<forall>Q\<in>set Qs. Q t) d (run_procs ps d)"
proof (induction Qs ps rule: list_all2_induct)
  case (Cons Q Qs p ps)
  show ?case
  proof (cases "p d")
    case (Kept d')
    with Cons(1) have "d' = d" "Q d" by simp_all
    with Kept Cons(3) show ?thesis by (cases "run_procs ps d") simp_all
  qed (use Cons(1) in simp_all)
qed simp

text \<open>
  A field of the clock: \<open>u\<close> numbers the units of the field through (the months, days, hours, minutes, seconds since the
  beginning), \<open>v\<close> is the value of the field, which repeats every \<open>r\<close> units, and \<open>target d k\<close> is the beginning of the
  \<open>k\<close>-th unit after the one of \<open>d\<close>.
\<close>

locale clock_field =
  fixes u :: "datetime \<Rightarrow> int" and v :: "datetime \<Rightarrow> int" and target :: "datetime \<Rightarrow> int \<Rightarrow> datetime"
    and b r c :: int
  assumes period: "0 < r"
    and v_cyclic: "valid_dt d \<Longrightarrow> v d = (u d + c) mod r + b"
    and target_valid: "valid_dt d \<Longrightarrow> 0 < k \<Longrightarrow> valid_dt (target d k)"
    and target_begin: "valid_dt d \<Longrightarrow> 0 < k \<Longrightarrow> valid_dt t \<Longrightarrow> dt_secs t < dt_secs (target d k) \<longleftrightarrow> u t < u d + k"
    and u_mono: "valid_dt d \<Longrightarrow> valid_dt t \<Longrightarrow> dt_secs d \<le> dt_secs t \<Longrightarrow> u d \<le> u t"
begin

lemma jump_sound:
  assumes ok: "field_ok b r L"
  shows "sound_proc (\<lambda>t. field_has L (v t)) (\<lambda>d. move_by L (get_next_nearest_diff (v d) L (Some r)) (target d) d)"
proof (cases "Star \<in> set L")
  case True
  then show ?thesis by (simp add: sound_proc_def move_by_def field_has_def)
next
  case False
  with ok have ok: "items_ok L" and rg: "\<And>w. Item w \<in> set L \<Longrightarrow> b \<le> w \<and> w < b + r"
    by (auto simp: field_ok_def list_all_iff item_value_def)
  show ?thesis unfolding sound_proc_def
  proof (intro allI impI)
    fix d
    assume d: "valid_dt d"
    have x: "b \<le> v d" "v d < b + r" unfolding v_cyclic [OF d] using period by simp_all
    obtain k where k: "get_next_nearest_diff (v d) L (Some r) = Some k" "0 \<le> k" "k = 0 \<Longrightarrow> Item (v d) \<in> set L"
      and skip: "\<And>j. 0 \<le> j \<Longrightarrow> j < k \<Longrightarrow> Item ((v d - b + j) mod r + b) \<notin> set L"
      using nearest_diff_cyclic [OF ok rg x] by metis
    show "sound_at (\<lambda>t. field_has L (v t)) d (move_by L (get_next_nearest_diff (v d) L (Some r)) (target d) d)"
    proof (cases "k = 0")
      case True
      with k show ?thesis by (simp add: move_by_def field_has_def)
    next
      case pos: False
      with k(2) have kp: "0 < k" by simp
      have "\<not> field_has L (v t)" if t: "valid_dt t" "dt_secs d \<le> dt_secs t" "dt_secs t < dt_secs (target d k)" for t
      proof -
        have "u d \<le> u t" "u t < u d + k" using u_mono [OF d t(1,2)] t(3) target_begin [OF d kp t(1)] by simp_all
        then have "Item ((v d - b + (u t - u d)) mod r + b) \<notin> set L" by (intro skip) simp_all
        moreover have "(v d - b + (u t - u d)) mod r = (u t + c) mod r"
          unfolding v_cyclic [OF d] using mod_add_left_eq [of "u d + c" r "u t - u d"] by (simp add: ac_simps)
        ultimately show ?thesis using False by (simp add: field_has_def v_cyclic [OF t(1)])
      qed
      with pos k(1) False d kp target_valid [OF d kp] target_begin [OF d kp d] show ?thesis
        by (simp add: move_by_def)
    qed
  qed
qed

end

section \<open>The fields of the clock\<close>

lemma add_relativedelta_correct:
  assumes "valid_dt d" "0 \<le> rd_days x" "0 \<le> rd_hours x" "0 \<le> rd_minutes x" "0 \<le> rd_seconds x"
    and "M = 12 * (dt_year d + rd_years x) + given (rd_month x) (dt_month d) - 1 + rd_months x"
    and "t = given (rd_hour x) (dt_hour d) * 3600 + given (rd_minute x) (dt_minute d) * 60 + given (rd_second x) (dt_second d)"
    and "0 \<le> t" "t < 86400" and "1 \<le> given (rd_day x) (dt_day d)"
  shows "valid_dt (add_relativedelta d x)"
    "dt_secs (add_relativedelta d x) = (month_start M + min (mdays M) (given (rd_day x) (dt_day d)) - 1) * 86400 + t
       + (rd_days x * 86400 + rd_hours x * 3600 + rd_minutes x * 60 + rd_seconds x)"
proof -
  let ?day = "min (mdays M) (given (rd_day x) (dt_day d))"
  let ?n = "rd_days x * 86400 + rd_hours x * 3600 + rd_minutes x * 60 + rd_seconds x"
  have day: "1 \<le> ?day" "?day \<le> mdays M" using assms(10) mdays_bounds(1) [of M] by simp_all
  note mk = make_dt_correct [OF day assms(8,9)]
  have n: "0 \<le> ?n" using assms(2-5) by simp
  have e: "add_relativedelta d x = shift (make_dt M ?day t) ?n" unfolding add_relativedelta_def Let_def assms(6,7) by (rule refl)
  show "valid_dt (add_relativedelta d x)" unfolding e by (rule shift_correct(1) [OF mk(1) n])
  show "dt_secs (add_relativedelta d x) = (month_start M + ?day - 1) * 86400 + t + ?n"
    using mk(2-4) by (simp add: e shift_correct(2) [OF mk(1) n]) (simp add: dt_secs_def epoch_day_def)
qed

lemmas delta_simps = no_delta_def midnight_def given_def

lemma add_days:
  assumes "valid_dt d" "0 \<le> k"
  shows "valid_dt (add_relativedelta d (midnight\<lparr>rd_days := k\<rparr>))"
    "dt_secs (add_relativedelta d (midnight\<lparr>rd_days := k\<rparr>)) = (epoch_day d + k) * 86400"
  using add_relativedelta_correct [OF assms(1), of "midnight\<lparr>rd_days := k\<rparr>", OF _ _ _ _ refl refl] assms valid_day [OF assms(1)]
  by (simp_all add: delta_simps mon_def epoch_day_def algebra_simps)

lemma add_months:
  assumes "valid_dt d"
  shows "valid_dt (add_relativedelta d (midnight\<lparr>rd_months := k, rd_day := Some 1\<rparr>))"
    "dt_secs (add_relativedelta d (midnight\<lparr>rd_months := k, rd_day := Some 1\<rparr>)) = month_start (mon d + k) * 86400"
  using add_relativedelta_correct [OF assms(1), of "midnight\<lparr>rd_months := k, rd_day := Some 1\<rparr>", OF _ _ _ _ refl refl] assms
    mdays_bounds(1) [of "mon d + k"]
  by (simp_all add: delta_simps mon_def min_def algebra_simps)

lemma add_years:
  assumes "valid_dt d"
  shows "valid_dt (add_relativedelta d (midnight\<lparr>rd_years := k, rd_month := Some 1, rd_day := Some 1\<rparr>))"
    "dt_secs (add_relativedelta d (midnight\<lparr>rd_years := k, rd_month := Some 1, rd_day := Some 1\<rparr>)) = month_start (12 * (dt_year d + k)) * 86400"
  using add_relativedelta_correct [OF assms(1), of "midnight\<lparr>rd_years := k, rd_month := Some 1, rd_day := Some 1\<rparr>", OF _ _ _ _ refl refl] assms
    mdays_bounds(1) [of "12 * (dt_year d + k)"]
  by (simp_all add: delta_simps min_def)

lemma hour_index: "valid_dt d \<Longrightarrow> dt_secs d div 3600 = epoch_day d * 24 + dt_hour d"
  by (rule int_div_pos_eq [of _ _ _ "dt_minute d * 60 + dt_second d"]) (simp_all add: dt_secs_def tod_def valid_dt_def)

lemma minute_index: "valid_dt d \<Longrightarrow> dt_secs d div 60 = epoch_day d * 1440 + dt_hour d * 60 + dt_minute d"
  by (rule int_div_pos_eq [of _ _ _ "dt_second d"]) (simp_all add: dt_secs_def tod_def valid_dt_def)

lemma add_hours:
  assumes d: "valid_dt d" and k: "0 \<le> k"
  shows "valid_dt (add_relativedelta d (no_delta\<lparr>rd_hours := k, rd_minute := Some 0, rd_second := Some 0\<rparr>))"
    "dt_secs (add_relativedelta d (no_delta\<lparr>rd_hours := k, rd_minute := Some 0, rd_second := Some 0\<rparr>)) = (dt_secs d div 3600 + k) * 3600"
proof -
  have "0 \<le> dt_hour d" "dt_hour d < 24" using d by (simp_all add: valid_dt_def)
  then show "valid_dt (add_relativedelta d (no_delta\<lparr>rd_hours := k, rd_minute := Some 0, rd_second := Some 0\<rparr>))"
    "dt_secs (add_relativedelta d (no_delta\<lparr>rd_hours := k, rd_minute := Some 0, rd_second := Some 0\<rparr>)) = (dt_secs d div 3600 + k) * 3600"
    unfolding hour_index [OF d] using add_relativedelta_correct [OF d, of "no_delta\<lparr>rd_hours := k, rd_minute := Some 0, rd_second := Some 0\<rparr>", OF _ _ _ _ refl refl]
      k valid_day [OF d] by (simp_all add: delta_simps mon_def epoch_day_def algebra_simps)
qed

lemma add_minutes:
  assumes d: "valid_dt d" and k: "0 \<le> k"
  shows "valid_dt (add_relativedelta d (no_delta\<lparr>rd_minutes := k, rd_second := Some 0\<rparr>))"
    "dt_secs (add_relativedelta d (no_delta\<lparr>rd_minutes := k, rd_second := Some 0\<rparr>)) = (dt_secs d div 60 + k) * 60"
proof -
  have "0 \<le> dt_hour d" "dt_hour d < 24" "0 \<le> dt_minute d" "dt_minute d < 60" using d by (simp_all add: valid_dt_def)
  then show "valid_dt (add_relativedelta d (no_delta\<lparr>rd_minutes := k, rd_second := Some 0\<rparr>))"
    "dt_secs (add_relativedelta d (no_delta\<lparr>rd_minutes := k, rd_second := Some 0\<rparr>)) = (dt_secs d div 60 + k) * 60"
    unfolding minute_index [OF d] using add_relativedelta_correct [OF d, of "no_delta\<lparr>rd_minutes := k, rd_second := Some 0\<rparr>", OF _ _ _ _ refl refl]
      k valid_day [OF d] by (simp_all add: delta_simps mon_def epoch_day_def algebra_simps)
qed

lemma add_seconds:
  assumes d: "valid_dt d" and k: "0 \<le> k"
  shows "valid_dt (add_relativedelta d (no_delta\<lparr>rd_seconds := k\<rparr>))" "dt_secs (add_relativedelta d (no_delta\<lparr>rd_seconds := k\<rparr>)) = dt_secs d + k"
  using add_relativedelta_correct [OF d, of "no_delta\<lparr>rd_seconds := k\<rparr>", OF _ _ _ _ refl refl] k valid_day [OF d] valid_tod [OF d]
  by (simp_all add: delta_simps mon_def dt_secs_def tod_def epoch_day_def algebra_simps)

lemma div_le_mono: "(a::int) \<le> b \<Longrightarrow> 0 < k \<Longrightarrow> a div k \<le> b div k"
  by (rule zdiv_mono1)

lemma div_before: "0 < k \<Longrightarrow> (a::int) < n * k \<longleftrightarrow> a div k < n"
proof -
  assume k: "0 < k"
  have a: "a = a div k * k + a mod k" "0 \<le> a mod k" "a mod k < k" using k by simp_all
  show ?thesis
  proof
    assume "a < n * k"
    then have "a div k * k < n * k" using a by linarith
    then show "a div k < n" using k by (simp add: mult_less_cancel_right)
  next
    assume "a div k < n"
    then have "(a div k + 1) * k \<le> n * k" using k by (intro mult_right_mono) simp_all
    then show "a < n * k" using a unfolding distrib_right mult_1 by linarith
  qed
qed

lemma epoch_day_mono: "valid_dt d \<Longrightarrow> valid_dt t \<Longrightarrow> dt_secs d \<le> dt_secs t \<Longrightarrow> epoch_day d \<le> epoch_day t"
  using secs_parts [of d] secs_parts [of t] div_le_mono [of "dt_secs d" "dt_secs t" 86400] by simp

lemma mon_mono: "valid_dt d \<Longrightarrow> valid_dt t \<Longrightarrow> dt_secs d \<le> dt_secs t \<Longrightarrow> mon d \<le> mon t"
  using epoch_day_mono [of d t] epoch_day_month [of t "mon d"] epoch_day_month [of d "mon d"] by force

lemma year_mono: "valid_dt d \<Longrightarrow> valid_dt t \<Longrightarrow> dt_secs d \<le> dt_secs t \<Longrightarrow> dt_year d \<le> dt_year t"
  using mon_mono [of d t] div_le_mono [of "mon d" "mon t" 12] mon_parts [of d] mon_parts [of t] by simp

text \<open>Before the first second of a month, of a year.\<close>

lemma before_month: "valid_dt t \<Longrightarrow> dt_secs t < month_start N * 86400 \<longleftrightarrow> mon t < N"
  by (simp add: secs_day epoch_day_month)

lemma before_year: "valid_dt t \<Longrightarrow> dt_secs t < month_start (12 * y) * 86400 \<longleftrightarrow> dt_year t < y"
  using before_month [of t "12 * y"] by (auto simp: mon_def valid_dt_def)

lemma days_before: "valid_dt d \<Longrightarrow> 0 < k \<Longrightarrow> valid_dt t \<Longrightarrow>
   dt_secs t < dt_secs (add_relativedelta d (midnight\<lparr>rd_days := k\<rparr>)) \<longleftrightarrow> epoch_day t < epoch_day d + k"
  by (simp only: add_days(2) order_less_imp_le secs_day)

interpretation month: clock_field mon dt_month "\<lambda>d k. add_relativedelta d (midnight\<lparr>rd_months := k, rd_day := Some 1\<rparr>)" 1 12 0
  by unfold_locales (simp_all add: mon_parts add_months before_month mon_mono)

interpretation weekday: clock_field epoch_day dow "\<lambda>d k. add_relativedelta d (midnight\<lparr>rd_days := k\<rparr>)" 0 7 4
  by unfold_locales (simp_all add: dow_def add_days(1) days_before epoch_day_mono)

lemma hour_cyclic: "valid_dt d \<Longrightarrow> dt_hour d = dt_secs d div 3600 mod 24"
  by (rule sym, rule int_mod_pos_eq [of _ _ "epoch_day d"]) (simp_all add: hour_index valid_dt_def)

lemma hours_before: "valid_dt d \<Longrightarrow> 0 < k \<Longrightarrow>
   dt_secs t < dt_secs (add_relativedelta d (no_delta\<lparr>rd_hours := k, rd_minute := Some 0, rd_second := Some 0\<rparr>)) \<longleftrightarrow> dt_secs t div 3600 < dt_secs d div 3600 + k"
  by (simp only: add_hours(2) order_less_imp_le div_before zero_less_numeral)

interpretation hour: clock_field "\<lambda>d. dt_secs d div 3600" dt_hour
    "\<lambda>d k. add_relativedelta d (no_delta\<lparr>rd_hours := k, rd_minute := Some 0, rd_second := Some 0\<rparr>)" 0 24 0
  by unfold_locales (simp_all add: hour_cyclic add_hours(1) hours_before div_le_mono)

lemma minute_cyclic: "valid_dt d \<Longrightarrow> dt_minute d = dt_secs d div 60 mod 60"
  by (rule sym, rule int_mod_pos_eq [of _ _ "epoch_day d * 24 + dt_hour d"]) (simp_all add: minute_index valid_dt_def)

lemma second_cyclic: "valid_dt d \<Longrightarrow> dt_second d = dt_secs d mod 60"
  by (rule sym, rule int_mod_pos_eq [of _ _ "epoch_day d * 1440 + dt_hour d * 60 + dt_minute d"]) (simp_all add: dt_secs_def tod_def valid_dt_def)

lemma minutes_before: "valid_dt d \<Longrightarrow> 0 < k \<Longrightarrow>
   dt_secs t < dt_secs (add_relativedelta d (no_delta\<lparr>rd_minutes := k, rd_second := Some 0\<rparr>)) \<longleftrightarrow> dt_secs t div 60 < dt_secs d div 60 + k"
  by (simp only: add_minutes(2) order_less_imp_le div_before zero_less_numeral)

interpretation minute: clock_field "\<lambda>d. dt_secs d div 60" dt_minute "\<lambda>d k. add_relativedelta d (no_delta\<lparr>rd_minutes := k, rd_second := Some 0\<rparr>)" 0 60 0
  by unfold_locales (simp_all add: minute_cyclic add_minutes(1) minutes_before div_le_mono)

interpretation second: clock_field dt_secs dt_second "\<lambda>d k. add_relativedelta d (no_delta\<lparr>rd_seconds := k\<rparr>)" 0 60 0
  by unfold_locales (simp_all add: second_cyclic add_seconds)

section \<open>Years\<close>

definition year_ok :: "cron \<Rightarrow> bool" where
  "year_ok cr = (case cr_year cr of None \<Rightarrow> True | Some L \<Rightarrow> Star \<in> set L \<or> items_ok L)"

lemma nearest_diff_None:
  assumes ok: "items_ok L"
  shows "case get_next_nearest_diff x L None of
      None \<Rightarrow> \<forall>w. Item w \<in> set L \<longrightarrow> w < x
    | Some k \<Rightarrow> 0 \<le> k \<and> Item (x + k) \<in> set L \<and> (\<forall>w. Item w \<in> set L \<and> x \<le> w \<longrightarrow> x + k \<le> w)"
proof -
  have srt: "sorted (map (item_value None) L)" using ok by (simp add: items_ok_def)
  have it: "item_value None (Item w) = w" for w by (simp add: item_value_def)
  show ?thesis
  proof (cases "List.find (\<lambda>i. x \<le> item_value None i) L")
    case None
    with find_sorted [OF srt, of x] show ?thesis by (auto simp: get_next_nearest_diff_def it)
  next
    case (Some i)
    with find_sorted [OF srt, of x] have i: "i \<in> set L" "x \<le> item_value None i"
      "\<And>j. j \<in> set L \<Longrightarrow> x \<le> item_value None j \<Longrightarrow> item_value None i \<le> item_value None j" by auto
    have "i = Item (item_value None i)" by (rule conjunct1 [OF items_okD [OF ok i(1)]])
    then obtain w where "i = Item w" ..
    with i Some i(3) [of "Item _"] show ?thesis by (simp add: get_next_nearest_diff_def it)
  qed
qed

lemma proc_year_sound:
  assumes "year_ok cr"
  shows "sound_proc (year_has cr) (proc_year add_relativedelta cr)"
proof (cases "\<exists>L. cr_year cr = Some L \<and> Star \<notin> set L")
  case False
  then show ?thesis by (auto simp: sound_proc_def proc_year_def year_has_def field_has_def split: option.splits)
next
  case True
  then obtain L where L: "cr_year cr = Some L" "Star \<notin> set L" by blast
  with assms have ok: "items_ok L" by (simp add: year_ok_def)
  have Q: "year_has cr t \<longleftrightarrow> Item (dt_year t) \<in> set L" for t using L by (simp add: year_has_def field_has_def)
  show ?thesis unfolding sound_proc_def
  proof (intro allI impI)
    fix d
    assume d: "valid_dt d"
    note nd = nearest_diff_None [OF ok, of "dt_year d"]
    show "sound_at (year_has cr) d (proc_year add_relativedelta cr d)"
    proof (cases "get_next_nearest_diff (dt_year d) L None")
      case None
      with nd have "Item w \<notin> set L" if "dt_year d \<le> w" for w using that by auto
      with None L show ?thesis by (simp add: proc_year_def Q year_mono [OF d])
    next
      case (Some k)
      with nd have k: "0 \<le> k" "Item (dt_year d + k) \<in> set L" "\<And>w. Item w \<in> set L \<Longrightarrow> dt_year d \<le> w \<Longrightarrow> dt_year d + k \<le> w" by auto
      let ?t = "add_relativedelta d (midnight\<lparr>rd_years := k, rd_month := Some 1, rd_day := Some 1\<rparr>)"
      have before: "dt_secs t < dt_secs ?t \<longleftrightarrow> dt_year t < dt_year d + k" if "valid_dt t" for t
        unfolding add_years(2) [OF d] by (rule before_year [OF that])
      have "\<not> year_has cr t" if "valid_dt t" "dt_secs d \<le> dt_secs t" "dt_secs t < dt_secs ?t" for t
        using k(3) [of "dt_year t"] year_mono [OF d that(1,2)] before [OF that(1)] that(3) by (auto simp: Q)
      with Some L k show ?thesis by (cases "k = 0") (simp_all add: proc_year_def Q add_years(1) [OF d] before [OF d])
    qed
  qed
qed

section \<open>Days of the month\<close>

text \<open>
  The months have different lengths, so that the jumps of this field do not fit the pattern. A day that the current month
  does not have leads to the beginning of the next one: with the days 30 or 31 but not 29 in the list, the jump from
  February misses the days 1 and 2 of March. The last day of a shorter month is missed if a listed day is after it.
\<close>

definition day_list_ok :: "cron_item list \<Rightarrow> bool" where
  "day_list_ok L \<longleftrightarrow> Star \<in> set L \<or>
     L \<noteq> [] \<and> sorted (map (item_value (Some 31)) L) \<and> list_all (\<lambda>i. 1 \<le> item_value (Some 31) i \<and> item_value (Some 31) i \<le> 31) L
     \<and> (Last \<in> set L \<longrightarrow> list_all (\<lambda>i. i = Last \<or> item_value None i \<le> 28) L)
     \<and> (Item 30 \<in> set L \<or> Item 31 \<in> set L \<longrightarrow> Item 29 \<in> set L \<or> Item 1 \<notin> set L \<and> (Item 30 \<in> set L \<or> Item 2 \<notin> set L))"

lemma sorted_min: "sorted (map f L) \<Longrightarrow> sorted (map (\<lambda>i. min (m::int) (f i)) L)"
  by (induction L) auto

lemma day_value:
  assumes ok: "day_list_ok L" and s: "Star \<notin> set L" and m: "28 \<le> m" "m \<le> 31"
  shows "sorted (map (item_value (Some m)) L)" "i \<in> set L \<Longrightarrow> 1 \<le> item_value (Some m) i"
    "i \<in> set L \<Longrightarrow> i = Item (item_value (Some m) i) \<or> i = Last \<and> item_value (Some m) i = m"
    "Last \<in> set L \<Longrightarrow> i \<in> set L \<Longrightarrow> item_value (Some m) i \<le> m"
    "i \<in> set L \<Longrightarrow> item_value (Some m) i \<le> 31"
proof -
  note ok' = ok [unfolded day_list_ok_def list_all_iff]
  show l: "i = Item (item_value (Some m) i) \<or> i = Last \<and> item_value (Some m) i = m" if "i \<in> set L" for i
    by (cases i) (use that s in auto)
  show "1 \<le> item_value (Some m) i" if "i \<in> set L" for i
    by (cases i) (use that s ok' m in auto)
  show "item_value (Some m) i \<le> 31" if "i \<in> set L" for i
    by (cases i) (use that s ok' m in auto)
  show le: "item_value (Some m) i \<le> m" if "Last \<in> set L" "i \<in> set L" for i
    by (cases i) (use that s ok' m in auto)
  have srt: "sorted (map (item_value (Some 31)) L)" using ok s by (simp add: day_list_ok_def)
  show "sorted (map (item_value (Some m)) L)"
  proof (cases "Last \<in> set L")
    case True
    have "item_value (Some m) i = min m (item_value (Some 31) i)" if "i \<in> set L" for i
      by (cases i) (use that s m le [OF True that] in auto)
    then have "map (item_value (Some m)) L = map (\<lambda>i. min m (item_value (Some 31) i)) L" by (rule map_cong [OF refl])
    then show ?thesis by (simp only: sorted_min [OF srt])
  next
    case False
    have "item_value (Some m) i = item_value (Some 31) i" if "i \<in> set L" for i
      by (cases i) (use that False s in auto)
    then have "map (item_value (Some m)) L = map (item_value (Some 31)) L" by (rule map_cong [OF refl])
    then show ?thesis by (simp only: srt)
  qed
qed

lemma later_day:
  assumes "valid_dt d" "valid_dt t" "dt_secs d \<le> dt_secs t"
  shows "mon t = mon d \<and> dt_day t = dt_day d + (epoch_day t - epoch_day d) \<and> epoch_day d \<le> epoch_day t
    \<or> dt_day t \<le> epoch_day t - epoch_day d + dt_day d - mdays (mon d)"
proof (cases "mon t = mon d")
  case True
  then show ?thesis using epoch_day_mono [OF assms] by (simp add: epoch_day_def)
next
  case False
  with mon_mono [OF assms] have "mon d + 1 \<le> mon t" by simp
  from month_start_mono [OF this] show ?thesis unfolding month_start_Suc by (simp add: epoch_day_def)
qed

lemma month_days_mon: "valid_dt d \<Longrightarrow> month_days (dt_year d) (dt_month d) = mdays (mon d)"
  using mon_parts [of d] by (simp add: mdays_def)

text \<open>The distance to the next listed day, and that no day on the way is listed.\<close>

lemma day_diff:
  assumes ok: "day_list_ok L" and s: "Star \<notin> set L" and d: "valid_dt d"
  obtains k where "get_next_nearest_diff (dt_day d) L (Some (mdays (mon d))) = Some k" "0 \<le> k" "k = 0 \<Longrightarrow> day_has L d"
    "\<And>t. valid_dt t \<Longrightarrow> dt_secs d \<le> dt_secs t \<Longrightarrow> epoch_day t < epoch_day d + k \<Longrightarrow> \<not> day_has L t"
proof -
  let ?m = "mdays (mon d)" and ?x = "dt_day d"
  let ?f = "item_value (Some ?m)"
  note dv = day_value [OF ok s mdays_bounds [of "mon d"]]
  note fs = find_sorted [OF dv(1), of ?x]
  have x: "1 \<le> ?x" "?x \<le> ?m" using valid_day [OF d] by simp_all
  have has: "\<exists>i\<in>set L. i = Item (dt_day t) \<or> i = Last \<and> dt_day t = mdays (mon t)" if "day_has L t" "valid_dt t" for t
    using that s month_days_mon [of t] by (auto simp: day_has_def field_has_def)
  show thesis
  proof (cases "List.find (\<lambda>i. ?x \<le> ?f i) L")
    case None
    have lt: "?f j < ?x" if "j \<in> set L" for j using fs [unfolded None option.case] that by blast
    have nl: "Last \<notin> set L" using lt [of Last] x by auto
    have hd: "hd L \<in> set L" using ok s by (simp add: day_list_ok_def)
    have le: "?f (hd L) \<le> ?f j" if "j \<in> set L" for j using dv(1) that by (cases L) auto
    have "\<not> day_has L t" if t: "valid_dt t" "dt_secs d \<le> dt_secs t" "epoch_day t < epoch_day d + (?f (hd L) - ?x + ?m)" for t
    proof
      assume "day_has L t"
      with has [OF _ t(1)] nl have i: "Item (dt_day t) \<in> set L" by auto
      from later_day [OF d t(1,2)] le [OF i] lt [OF i] t(3) show False by auto
    qed
    then show thesis using dv(2) [OF hd] x None by (intro that [of "?f (hd L) - ?x + ?m"]) (simp_all add: get_next_nearest_diff_def)
  next
    case (Some i)
    with fs have i: "i \<in> set L" "?x \<le> ?f i" "\<And>j. j \<in> set L \<Longrightarrow> ?x \<le> ?f j \<Longrightarrow> ?f i \<le> ?f j" by auto
    have z: "day_has L d" if "?f i = ?x" using dv(3) [OF i(1)] i(1) that month_days_mon [OF d] by (auto simp: day_has_def field_has_def)
    have "\<not> day_has L t" if t: "valid_dt t" "dt_secs d \<le> dt_secs t" "epoch_day t < epoch_day d + (?f i - ?x)" for t
    proof
      assume "day_has L t"
      with has [OF _ t(1)] obtain j where j: "j \<in> set L" "j = Item (dt_day t) \<or> j = Last \<and> dt_day t = mdays (mon t)" by blast
      from later_day [OF d t(1,2)] show False
      proof
        assume a: "mon t = mon d \<and> dt_day t = ?x + (epoch_day t - epoch_day d) \<and> epoch_day d \<le> epoch_day t"
        with j have "?f j = dt_day t" by auto
        with i(3) [OF j(1)] a t(3) show False by simp
      next
        assume "dt_day t \<le> epoch_day t - epoch_day d + ?x - ?m"
        with t(3) have lt: "dt_day t < ?f i - ?m" by simp
        have t1: "1 \<le> dt_day t" using valid_day [OF t(1)] by simp
        then have v: "30 \<le> ?f i" "?f i \<le> 31" using lt mdays_bounds(1) [of "mon d"] dv(5) [OF i(1)] by simp_all
        have nl: "Last \<notin> set L" using dv(4) [OF _ i(1)] lt t1 by fastforce
        with dv(3) [OF i(1)] i(1) obtain w where w: "i = Item w" by auto
        have n29: "Item 29 \<notin> set L" using i(3) [of "Item 29"] x lt t1 v by auto
        have n30: "Item 30 \<notin> set L" if "dt_day t = 2" using i(3) [of "Item 30"] x lt that v mdays_bounds(1) [of "mon d"] by auto
        with v have "w = 30 \<or> w = 31" unfolding w item_value_simps by linarith
        with i(1) w have "Item 30 \<in> set L \<or> Item 31 \<in> set L" by auto
        with ok s n29 have "Item 1 \<notin> set L" "Item 30 \<in> set L \<or> Item 2 \<notin> set L" by (simp_all add: day_list_ok_def)
        moreover have "dt_day t = 1 \<or> dt_day t = 2" using t1 lt v mdays_bounds(1) [of "mon d"] by linarith
        ultimately show False using j nl n30 by auto
      qed
    qed
    then show thesis using i(2) z Some by (intro that [of "?f i - ?x"]) (simp_all add: get_next_nearest_diff_def)
  qed
qed

lemma day_jump:
  assumes d: "valid_dt d" and k: "0 \<le> k" "k = 0 \<Longrightarrow> Q d"
    and skip: "\<And>t. valid_dt t \<Longrightarrow> dt_secs d \<le> dt_secs t \<Longrightarrow> epoch_day t < epoch_day d + k \<Longrightarrow> \<not> Q t"
  shows "sound_at Q d (if k \<noteq> 0 then Moved (add_relativedelta d (midnight\<lparr>rd_days := k\<rparr>)) else Kept d)"
proof (cases "k = 0")
  case False
  with k(1) have kp: "0 < k" by simp
  have "\<not> Q t" if "valid_dt t" "dt_secs d \<le> dt_secs t" "dt_secs t < dt_secs (add_relativedelta d (midnight\<lparr>rd_days := k\<rparr>))" for t
    using skip [OF that(1,2)] that(3) days_before [OF d kp that(1)] by blast
  then show ?thesis using False kp by (simp add: add_days(1) [OF d] days_before [OF d kp d])
qed (use k in simp)

lemma proc_day_of_month_sound:
  assumes ok: "day_list_ok (cr_day cr)"
  shows "sound_proc (day_has (cr_day cr)) (proc_day_of_month add_relativedelta cr)"
  unfolding sound_proc_def
proof (intro allI impI)
  fix d
  assume d: "valid_dt d"
  note md = month_days_mon [OF d]
  let ?L = "cr_day cr"
  show "sound_at (day_has ?L) d (proc_day_of_month add_relativedelta cr d)"
  proof (cases "Star \<in> set ?L \<or> Last \<in> set ?L \<and> dt_day d = mdays (mon d)")
    case True
    then show ?thesis by (auto simp: proc_day_of_month_def move_by_def day_has_def field_has_def md)
  next
    case False
    then have s: "Star \<notin> set ?L" by blast
    obtain k where k: "get_next_nearest_diff (dt_day d) ?L (Some (mdays (mon d))) = Some k" "0 \<le> k" "k = 0 \<Longrightarrow> day_has ?L d"
      "\<And>t. valid_dt t \<Longrightarrow> dt_secs d \<le> dt_secs t \<Longrightarrow> epoch_day t < epoch_day d + k \<Longrightarrow> \<not> day_has ?L t"
      using day_diff [OF ok s d] by metis
    have p: "proc_day_of_month add_relativedelta cr d = (if k \<noteq> 0 then Moved (add_relativedelta d (midnight\<lparr>rd_days := k\<rparr>)) else Kept d)"
      using False k(1) by (auto simp: proc_day_of_month_def move_by_def md Let_def)
    show ?thesis unfolding p by (rule day_jump [where Q = "day_has ?L", OF d k(2-)])
  qed
qed

section \<open>The n-th weekday of the month\<close>

definition nth_ok :: "cron \<Rightarrow> bool" where
  "nth_ok cr = list_all (\<lambda>(w, ns). list_all (\<lambda>n. case n of Nth k \<Rightarrow> 1 \<le> k | LastWeekday \<Rightarrow> True) ns) (cr_nth cr)"

text \<open>Every weekday occurs in the first seven days of every month.\<close>

lemma weekday_occurs:
  assumes "1 \<le> m" "m \<le> 12"
  shows "get_nth_weekday_of_month y m w \<noteq> []"
proof -
  let ?M = "12 * y + m - 1"
  have M: "?M div 12 = y" "?M mod 12 + 1 = m"
    using int_div_pos_eq [of ?M 12 y "m - 1"] int_mod_pos_eq [of ?M 12 y "m - 1"] assms by simp_all
  have md: "mdays ?M = month_days y m" by (simp only: mdays_def M)
  define day where "day = (w - month_start ?M - 4) mod 7 + 1"
  have day: "1 \<le> day" "day \<le> 7" by (simp_all add: day_def)
  with mdays_bounds(1) [of ?M] have le: "day \<le> mdays ?M" by simp
  note mk = make_dt_correct [of day ?M 0, OF day(1) le]
  have "dow (make_dt ?M day 0) = (month_start ?M + 4 + (w - month_start ?M - 4) mod 7) mod 7"
    unfolding dow_def epoch_day_def using mk(2,4) by (simp add: day_def ac_simps)
  also have "\<dots> = w mod 7" unfolding mod_add_right_eq by simp
  finally have "day \<in> set (get_nth_weekday_of_month y m w)"
    using day le md by (simp add: get_nth_weekday_of_month_def)
  then show ?thesis by auto
qed

lemma nth_days_bounds:
  assumes ok: "nth_ok cr" and m: "1 \<le> m" "m \<le> 12" and x: "x \<in> set (nth_days cr y m)"
  shows "1 \<le> x \<and> x \<le> month_days y m"
proof -
  have mem: "z \<in> set (get_nth_weekday_of_month y m w) \<Longrightarrow> 1 \<le> z \<and> z \<le> month_days y m" for z w
    by (simp add: get_nth_weekday_of_month_def)
  from x obtain w ns n where w: "(w, ns) \<in> set (cr_nth cr)" "n \<in> set ns"
    and xn: "x \<in> set (case n of LastWeekday \<Rightarrow> [last (get_nth_weekday_of_month y m w)]
      | Nth k \<Rightarrow> if length (get_nth_weekday_of_month y m w) < k then [] else [get_nth_weekday_of_month y m w ! (k - 1)])"
    by (auto simp: nth_days_def Let_def)
  have "x \<in> set (get_nth_weekday_of_month y m w)"
  proof (cases n)
    case (Nth k)
    with ok w have "1 \<le> k" by (force simp: nth_ok_def list_all_iff)
    with xn Nth show ?thesis by (auto split: if_splits)
  qed (use xn weekday_occurs [OF m, of y w] in simp)
  with mem show ?thesis by blast
qed

lemma hd_sort: "c \<noteq> [] \<Longrightarrow> hd (sort c) \<in> set c" "z \<in> set c \<Longrightarrow> hd (sort c) \<le> z"
proof -
  have c: "set (sort c) = set c" "sorted (sort c)" by simp_all
  from c show "hd (sort c) \<in> set c" if "c \<noteq> []" using that by (cases "sort c") auto
  show "hd (sort c) \<le> z" if "z \<in> set c"
  proof (cases "sort c")
    case (Cons a l)
    with c that show ?thesis by (metis insertE list.sel(1) list.simps(15) order_refl sorted_simps(2))
  qed (use c that in simp)
qed

lemma proc_nth_sound:
  assumes ok: "nth_ok cr"
  shows "sound_proc (\<lambda>t. dt_day t \<in> set (nth_days cr (dt_year t) (dt_month t))) (proc_day_of_week_nth add_relativedelta cr)"
  unfolding sound_proc_def
proof (intro allI impI)
  fix d
  assume d: "valid_dt d"
  let ?Q = "\<lambda>t. dt_day t \<in> set (nth_days cr (dt_year t) (dt_month t))"
  let ?N = "nth_days cr (dt_year d) (dt_month d)" and ?m = "mdays (mon d)" and ?x = "dt_day d"
  define c where "c = filter (\<lambda>day. ?x \<le> day) ?N"
  have c: "z \<in> set c \<longleftrightarrow> z \<in> set ?N \<and> ?x \<le> z" for z by (auto simp: c_def)
  note md = month_days_mon [OF d]
  define k where "k = (if c = [] then ?m - ?x + 1 else hd (sort c) - ?x)"
  have p: "proc_day_of_week_nth add_relativedelta cr d = (if k \<noteq> 0 then Moved (add_relativedelta d (midnight\<lparr>rd_days := k\<rparr>)) else Kept d)"
    using valid_day [OF d] unfolding proc_day_of_week_nth_def Let_def c_def [symmetric] k_def md by simp
  have k: "0 \<le> k" "k \<le> ?m - ?x + 1" "k = 0 \<Longrightarrow> ?Q d"
  proof (atomize (full), cases "c = []")
    case True
    then show "0 \<le> k \<and> k \<le> ?m - ?x + 1 \<and> (k = 0 \<longrightarrow> ?Q d)" using valid_day [OF d] by (simp add: k_def)
  next
    case False
    then have h: "hd (sort c) \<in> set ?N" "?x \<le> hd (sort c)" using hd_sort(1) [OF False] c by blast+
    have "hd (sort c) \<le> ?m" using nth_days_bounds [OF ok _ _ h(1)] d md by (simp add: valid_dt_def)
    with h False show "0 \<le> k \<and> k \<le> ?m - ?x + 1 \<and> (k = 0 \<longrightarrow> ?Q d)" by (auto simp: k_def)
  qed
  have skip: "\<not> ?Q t" if t: "valid_dt t" "dt_secs d \<le> dt_secs t" "epoch_day t < epoch_day d + k" for t
  proof
    assume q: "?Q t"
    from later_day [OF d t(1,2)] k(2) t(3) valid_day [OF t(1)]
    have e: "mon t = mon d" "?x \<le> dt_day t" "dt_day t < ?x + k" by auto
    with mon_parts [OF d] mon_parts [OF t(1)] q have "dt_day t \<in> set c" by (simp add: c)
    then show False using hd_sort(2) [of "dt_day t" c] e(3) by (auto simp: k_def split: if_splits)
  qed
  show "sound_at ?Q d (proc_day_of_week_nth add_relativedelta cr d)" unfolding p by (rule day_jump [where Q = ?Q, OF d k(1,3) skip])
qed

section \<open>One round of jumps\<close>

definition cron_ok :: "cron \<Rightarrow> bool" where
  "cron_ok cr \<longleftrightarrow> year_ok cr \<and> field_ok 1 12 (cr_month cr) \<and> day_list_ok (cr_day cr)
     \<and> (if cr_nth cr \<noteq> [] then nth_ok cr else field_ok 0 7 (cr_dow cr))
     \<and> field_ok 0 24 (cr_hour cr) \<and> field_ok 0 60 (cr_minute cr) \<and> (case cr_second cr of None \<Rightarrow> True | Some L \<Rightarrow> field_ok 0 60 L)"

definition aligned :: "cron \<Rightarrow> datetime \<Rightarrow> bool" where
  "aligned cr d \<longleftrightarrow> cr_second cr = None \<longrightarrow> dt_second d = 0"

lemma set_second_0: "valid_dt d \<Longrightarrow> add_relativedelta d (no_delta\<lparr>rd_second := Some 0\<rparr>) = d\<lparr>dt_second := 0\<rparr>"
proof (rule secs_inj)
  assume d: "valid_dt d"
  then show "valid_dt (d\<lparr>dt_second := 0\<rparr>)" by (simp add: valid_dt_def)
  have t: "0 \<le> dt_hour d * 3600 + dt_minute d * 60" "dt_hour d * 3600 + dt_minute d * 60 < 86400" using d by (simp_all add: valid_dt_def)
  note a = add_relativedelta_correct [OF d, of "no_delta\<lparr>rd_second := Some 0\<rparr>", OF _ _ _ _ refl refl]
  show "valid_dt (add_relativedelta d (no_delta\<lparr>rd_second := Some 0\<rparr>))" using a(1) t valid_day [OF d] by (simp add: delta_simps)
  show "dt_secs (add_relativedelta d (no_delta\<lparr>rd_second := Some 0\<rparr>)) = dt_secs (d\<lparr>dt_second := 0\<rparr>)"
    using a(2) t valid_day [OF d] by (simp add: delta_simps dt_secs_def epoch_day_def mon_def tod_def)
qed

lemma procs_sound:
  assumes ok: "cron_ok cr" and d: "valid_dt d" "aligned cr d"
  shows "sound_at (cron_match cr) d (run_procs (procs add_relativedelta cr) d)"
proof -
  let ?Qs = "[year_has cr, \<lambda>t. field_has (cr_month cr) (dt_month t), day_has (cr_day cr), weekday_has cr,
    \<lambda>t. field_has (cr_hour cr) (dt_hour t), \<lambda>t. field_has (cr_minute cr) (dt_minute t), second_has cr]"
  note at = sound_procD [OF _ d(1)]
  have "sound_at (\<lambda>t. field_has (cr_month cr) (dt_month t)) d (proc_month add_relativedelta cr d)"
    using ok at [OF month.jump_sound] by (simp add: proc_month_def cron_ok_def)
  moreover have "sound_at (weekday_has cr) d ((if cr_nth cr \<noteq> [] then proc_day_of_week_nth add_relativedelta cr else proc_day_of_week add_relativedelta cr) d)"
    using ok at [OF proc_nth_sound [of cr]] at [OF weekday.jump_sound] by (simp add: proc_day_of_week_def cron_ok_def weekday_has_def [abs_def])
  moreover have "sound_at (\<lambda>t. field_has (cr_hour cr) (dt_hour t)) d (proc_hour add_relativedelta cr d)"
    using ok at [OF hour.jump_sound] by (simp add: proc_hour_def cron_ok_def)
  moreover have "sound_at (\<lambda>t. field_has (cr_minute cr) (dt_minute t)) d (proc_minute add_relativedelta cr d)"
    using ok at [OF minute.jump_sound] by (simp add: proc_minute_def cron_ok_def)
  moreover have "sound_at (second_has cr) d (proc_second add_relativedelta cr d)"
  proof (cases "cr_second cr")
    case None
    with d have "d\<lparr>dt_second := 0\<rparr> = d" by (simp add: aligned_def)
    with None d show ?thesis by (simp add: proc_second_def second_has_def set_second_0 aligned_def)
  next
    case (Some L)
    with ok at [OF second.jump_sound] show ?thesis by (simp add: proc_second_def cron_ok_def second_has_def [abs_def])
  qed
  ultimately have "list_all2 (\<lambda>Q p. sound_at Q d (p d)) ?Qs (procs add_relativedelta cr)"
    using ok at [OF proc_year_sound] at [OF proc_day_of_month_sound] by (simp add: procs_def cron_ok_def)
  from sound_run_procs [OF this] show ?thesis by (simp add: cron_match_def [abs_def])
qed

text \<open>Without a seconds field the seconds of the time do not matter, and every move ends at second 0.\<close>

lemma tod_make_dt: "tod (make_dt M day t) = t"
proof -
  have "t div 3600 = t div 60 div 60" by (simp add: zdiv_zmult2_eq [symmetric])
  moreover have "t div 60 div 60 * 60 + t div 60 mod 60 = t div 60" "t div 60 * 60 + t mod 60 = t" by (rule div_mult_mod_eq)+
  ultimately show ?thesis unfolding tod_def make_dt_def datetime.simps by linarith
qed

lemma moved_second:
  assumes "rd_second x = Some 0" "rd_seconds x = 0"
  shows "dt_second (add_relativedelta d x) = 0"
proof -
  have "dt_second (shift e n) = (tod e + n) mod 60" for e n
    by (simp add: shift_def Let_def make_dt_def mod_mod_cancel split: prod.split)
  then have "dt_second (add_relativedelta d x) =
      ((given (rd_hour x) (dt_hour d) * 60 + given (rd_minute x) (dt_minute d) + rd_days x * 1440 + rd_hours x * 60 + rd_minutes x) * 60) mod 60"
    using assms by (simp add: add_relativedelta_def Let_def tod_make_dt given_def algebra_simps)
  then show ?thesis by simp
qed

definition drop_second :: "datetime \<Rightarrow> datetime" where
  "drop_second d = d\<lparr>dt_second := 0\<rparr>"

definition blind_at :: "datetime \<Rightarrow> (datetime \<Rightarrow> progress) \<Rightarrow> bool" where
  "blind_at d p = (case p d of
      NoMatch \<Rightarrow> p (drop_second d) = NoMatch
    | Moved d' \<Rightarrow> dt_second d' = 0 \<and> p (drop_second d) = Moved d'
    | Kept d' \<Rightarrow> d' = d \<and> p (drop_second d) = Kept (drop_second d))"

lemma drop_second_fields [simp]: "dt_year (drop_second d) = dt_year d" "dt_month (drop_second d) = dt_month d"
  "dt_day (drop_second d) = dt_day d" "dt_hour (drop_second d) = dt_hour d" "dt_minute (drop_second d) = dt_minute d"
  "dow (drop_second d) = dow d"
  by (simp_all add: drop_second_def dow_def epoch_day_def mon_def)

lemma drop_second_add [simp]: "rd_second x = Some s \<Longrightarrow> add_relativedelta (drop_second d) x = add_relativedelta d x"
  by (simp add: add_relativedelta_def given_def Let_def)

lemma blind_run: "list_all (blind_at d) ps \<Longrightarrow> blind_at d (run_procs ps)"
proof (induction ps)
  case (Cons p ps)
  then have 1: "blind_at d p" and 2: "blind_at d (run_procs ps)" by simp_all
  show ?case
  proof (cases "p d")
    case (Kept d')
    with 1 have "d' = d" "p (drop_second d) = Kept (drop_second d)" by (simp_all add: blind_at_def)
    with Kept 2 show ?thesis by (cases "run_procs ps d") (simp_all add: blind_at_def)
  qed (use 1 in \<open>simp_all add: blind_at_def\<close>)
qed (simp add: blind_at_def)

lemma blind_move_by:
  assumes "\<And>d k. dt_second (target d k) = 0" "\<And>d k. target (drop_second d) k = target d k" "\<And>d. diff (drop_second d) = diff d"
  shows "blind_at d (\<lambda>d. move_by L (diff d) (target d) d)"
  using assms by (simp add: blind_at_def move_by_def split: option.split)

lemma blind_procs:
  "blind_at d (proc_year add_relativedelta cr)" "blind_at d (proc_month add_relativedelta cr)" "blind_at d (proc_day_of_month add_relativedelta cr)"
  "blind_at d (proc_day_of_week add_relativedelta cr)" "blind_at d (proc_day_of_week_nth add_relativedelta cr)"
  "blind_at d (proc_hour add_relativedelta cr)" "blind_at d (proc_minute add_relativedelta cr)"
proof -
  have m: "rd_second midnight = Some 0" "rd_seconds midnight = 0" "rd_second no_delta = None" "rd_seconds no_delta = 0" by (simp_all add: delta_simps)
  show "blind_at d (proc_year add_relativedelta cr)" by (simp add: blind_at_def proc_year_def moved_second m split: option.split)
  show "blind_at d (proc_month add_relativedelta cr)" unfolding proc_month_def by (rule blind_move_by) (simp_all add: moved_second m)
  show "blind_at d (proc_day_of_week add_relativedelta cr)" unfolding proc_day_of_week_def by (rule blind_move_by) (simp_all add: moved_second m)
  show "blind_at d (proc_hour add_relativedelta cr)" unfolding proc_hour_def by (rule blind_move_by) (simp_all add: moved_second m)
  show "blind_at d (proc_minute add_relativedelta cr)" unfolding proc_minute_def by (rule blind_move_by) (simp_all add: moved_second m)
  show "blind_at d (proc_day_of_month add_relativedelta cr)" by (simp add: blind_at_def proc_day_of_month_def move_by_def Let_def moved_second m split: option.split)
  show "blind_at d (proc_day_of_week_nth add_relativedelta cr)" by (simp add: blind_at_def proc_day_of_week_nth_def Let_def moved_second m)
qed

lemma run_procs_snoc: "run_procs (ps @ [p]) d = (case run_procs ps d of NoMatch \<Rightarrow> NoMatch | Moved d' \<Rightarrow> Moved d' | Kept d' \<Rightarrow> p d')"
  by (induction ps arbitrary: d) (auto split: progress.split)

lemma procs_no_second:
  assumes "cr_second cr = None" "valid_dt d"
  shows "run_procs (procs add_relativedelta cr) d = run_procs (procs add_relativedelta cr) (drop_second d)"
    "run_procs (procs add_relativedelta cr) d = Moved d' \<Longrightarrow> dt_second d' = 0"
proof -
  obtain ps where ps: "procs add_relativedelta cr = ps @ [proc_second add_relativedelta cr]" "list_all (blind_at d) ps"
    by (rule that [of "butlast (procs add_relativedelta cr)"]) (simp_all add: procs_def blind_procs)
  have v: "valid_dt (drop_second d)" "drop_second (drop_second d) = drop_second d"
    using assms(2) by (simp_all add: valid_dt_def drop_second_def)
  note b = blind_run [OF ps(2), unfolded blind_at_def]
  have s: "proc_second add_relativedelta cr e = Kept (drop_second e)" if "valid_dt e" for e
    using assms(1) that by (simp add: proc_second_def set_second_0 drop_second_def)
  show "run_procs (procs add_relativedelta cr) d = run_procs (procs add_relativedelta cr) (drop_second d)"
    unfolding ps(1) run_procs_snoc using b s [OF assms(2)] s [OF v(1)] v(2) by (cases "run_procs ps d") simp_all
  show "dt_second d' = 0" if "run_procs (procs add_relativedelta cr) d = Moved d'"
    using that b s [OF assms(2)] unfolding ps(1) run_procs_snoc by (cases "run_procs ps d") simp_all
qed

section \<open>The search, correctly\<close>

text \<open>The parameter acts as documented: the jumps are those above.\<close>

lemma procs_law:
  assumes law: "relativedelta_law add" and d: "valid_dt d"
  shows "run_procs (procs add cr) d = run_procs (procs add_relativedelta cr) d"
proof -
  have a: "add d = add_relativedelta d" by (rule ext) (use law d in \<open>simp add: relativedelta_law_def\<close>)
  have kept: "p d = Kept e \<Longrightarrow> e = d" if "p \<in> set (butlast (procs add_relativedelta cr))" for p e
    using that by (auto simp: procs_def proc_year_def proc_month_def proc_day_of_month_def proc_day_of_week_def proc_day_of_week_nth_def
        proc_hour_def proc_minute_def move_by_def Let_def split: option.splits if_splits)
  have "proc_year add cr d = proc_year add_relativedelta cr d" "proc_month add cr d = proc_month add_relativedelta cr d"
    "proc_day_of_month add cr d = proc_day_of_month add_relativedelta cr d" "proc_day_of_week add cr d = proc_day_of_week add_relativedelta cr d"
    "proc_day_of_week_nth add cr d = proc_day_of_week_nth add_relativedelta cr d" "proc_hour add cr d = proc_hour add_relativedelta cr d"
    "proc_minute add cr d = proc_minute add_relativedelta cr d" "proc_second add cr d = proc_second add_relativedelta cr d"
    unfolding proc_year_def proc_month_def proc_day_of_month_def proc_day_of_week_def proc_day_of_week_nth_def
      proc_hour_def proc_minute_def proc_second_def a by (rule refl)+
  then have eq: "list_all2 (\<lambda>p q. p d = q d) (procs add cr) (procs add_relativedelta cr)" by (simp add: procs_def)
  have "run_procs ps d = run_procs qs d" if "list_all2 (\<lambda>p q. p d = q d) ps qs" "\<forall>q\<in>set (butlast qs). \<forall>e. q d = Kept e \<longrightarrow> e = d" for ps qs
    using that
  proof (induction ps qs rule: list_all2_induct)
    case (Cons p ps q qs)
    show ?case
    proof (cases "qs = []")
      case False
      with Cons show ?thesis by (cases "q d") auto
    qed (use Cons in \<open>auto split: progress.split\<close>)
  qed simp
  from this [OF eq] kept show ?thesis by blast
qed

definition earliest :: "cron \<Rightarrow> datetime \<Rightarrow> datetime \<Rightarrow> bool" where
  "earliest cr d e \<longleftrightarrow> valid_dt e \<and> cron_match cr e \<and> dt_secs d \<le> dt_secs e
     \<and> (\<forall>t. valid_dt t \<and> cron_match cr t \<and> dt_secs d \<le> dt_secs t \<longrightarrow> dt_secs e \<le> dt_secs t)"

definition none_until :: "cron \<Rightarrow> datetime \<Rightarrow> int \<Rightarrow> bool" where
  "none_until cr d y \<longleftrightarrow> (\<forall>t. valid_dt t \<and> cron_match cr t \<and> dt_secs d \<le> dt_secs t \<longrightarrow> y < dt_year t)"

definition search_ok :: "cron \<Rightarrow> datetime \<Rightarrow> int \<Rightarrow> datetime res option \<Rightarrow> bool" where
  "search_ok cr d y x = (case x of
      None \<Rightarrow> False
    | Some (Inl e) \<Rightarrow> e = CroniterBadDateError \<and> none_until cr d y
    | Some (Inr e) \<Rightarrow> earliest cr d e \<and> aligned cr e)"

lemma search_ok_move:
  assumes "search_ok cr d' y x" "dt_secs d < dt_secs d'" "\<And>t. valid_dt t \<Longrightarrow> dt_secs d \<le> dt_secs t \<Longrightarrow> dt_secs t < dt_secs d' \<Longrightarrow> \<not> cron_match cr t"
  shows "search_ok cr d y x"
proof -
  have "dt_secs d' \<le> dt_secs t" if "valid_dt t \<and> cron_match cr t \<and> dt_secs d \<le> dt_secs t" for t using assms(3) [of t] that by force
  then have "none_until cr d' y \<Longrightarrow> none_until cr d y" "earliest cr d' e \<Longrightarrow> earliest cr d e" for e
    using assms(2) by (auto simp: none_until_def earliest_def)
  with assms(1) show ?thesis by (auto simp: search_ok_def split: option.split_asm sum.split_asm)
qed

lemma search_aligned:
  assumes law: "relativedelta_law add" and ok: "cron_ok cr" and d: "valid_dt d" "aligned cr d" "cy \<le> dt_year d"
  shows "search_ok cr d (cy + n) (calc_loop add cr n cy d)"
  using d
proof (induction "nat (month_start (12 * (cy + n + 1)) * 86400 - dt_secs d)" arbitrary: d rule: less_induct)
  case less
  note d = less.prems
  show ?case
  proof (cases "dt_year d \<le> cy + n")
    case False
    then have "none_until cr d (cy + n)" using year_mono [OF d(1)] by (fastforce simp: none_until_def)
    moreover have "\<not> \<bar>dt_year d - cy\<bar> \<le> n" using False by arith
    ultimately show ?thesis by (simp add: calc_loop.simps search_ok_def)
  next
    case True
    then have g: "\<bar>dt_year d - cy\<bar> \<le> n" using d(3) by arith
    note step = procs_sound [OF ok d(1,2)] and eq = procs_law [OF law d(1), of cr]
    show ?thesis
    proof (cases "run_procs (procs add_relativedelta cr) d")
      case NoMatch
      with step have "none_until cr d (cy + n)" by (auto simp: none_until_def)
      with NoMatch g eq show ?thesis by (simp add: calc_loop.simps search_ok_def)
    next
      case (Kept d')
      with step d have "earliest cr d d" "d' = d" by (auto simp: earliest_def)
      with Kept g eq d show ?thesis by (simp add: calc_loop.simps search_ok_def)
    next
      case (Moved d')
      with step have m: "valid_dt d'" "dt_secs d < dt_secs d'" "\<And>t. valid_dt t \<Longrightarrow> dt_secs d \<le> dt_secs t \<Longrightarrow> dt_secs t < dt_secs d' \<Longrightarrow> \<not> cron_match cr t" by auto
      have "dt_secs d < month_start (12 * (cy + n + 1)) * 86400" unfolding before_year [OF d(1)] using True by simp
      then have "nat (month_start (12 * (cy + n + 1)) * 86400 - dt_secs d') < nat (month_start (12 * (cy + n + 1)) * 86400 - dt_secs d)"
        using m(2) by simp
      moreover have "aligned cr d'" using procs_no_second(2) [OF _ d(1) Moved] by (simp add: aligned_def)
      moreover have "cy \<le> dt_year d'" using d(3) year_mono [OF d(1) m(1)] m(2) by simp
      ultimately have "search_ok cr d' (cy + n) (calc_loop add cr n cy d')" using less.hyps m(1) by blast
      from search_ok_move [OF this m(2,3)] Moved g eq show ?thesis by (simp add: calc_loop.simps [of add cr n cy d])
    qed
  qed
qed

section \<open>The iterator, correctly\<close>

lemma secs_drop_second: "valid_dt d \<Longrightarrow> dt_secs (drop_second d) = dt_secs d div 60 * 60"
  by (simp add: minute_index) (simp add: drop_second_def dt_secs_def tod_def epoch_day_def mon_def)

lemma valid_drop_second: "valid_dt d \<Longrightarrow> valid_dt (drop_second d)"
  by (simp add: valid_dt_def drop_second_def)

lemma calc_correct:
  assumes law: "relativedelta_law add" and ok: "cron_ok cr" and t: "0 \<le> current + off"
  shows "(\<exists>u. calc add n off cr current = Some (Inr u) \<and> current < u \<and> matches_at cr off u \<and> (\<forall>v. current < v \<and> v < u \<longrightarrow> \<not> matches_at cr off v))
    \<or> calc add n off cr current = Some (Inl CroniterBadDateError) \<and>
      (\<forall>v. current < v \<and> matches_at cr off v \<longrightarrow> dt_year (timestamp_to_datetime off (current + calc_offset cr)) + n < dt_year (timestamp_to_datetime off v))"
proof -
  define d where "d = timestamp_to_datetime off (current + calc_offset cr)"
  define e where "e = (if cr_second cr = None then drop_second d else d)"
  have o: "0 < calc_offset cr" by (simp add: calc_offset_def)
  have d: "valid_dt d" "dt_secs d = current + calc_offset cr + off"
    using of_secs_correct [of "current + calc_offset cr + off"] t o by (simp_all add: d_def timestamp_to_datetime_def)
  have e: "valid_dt e" "aligned cr e" "dt_year e = dt_year d"
    using d by (simp_all add: e_def valid_drop_second aligned_def) (simp add: drop_second_def)
  have loop: "calc_loop add cr n (dt_year d) d = calc_loop add cr n (dt_year d) e"
  proof (cases "cr_second cr")
    case None
    have "run_procs (procs add cr) d = run_procs (procs add cr) (drop_second d)"
      using procs_law [OF law d(1)] procs_law [OF law valid_drop_second [OF d(1)]] procs_no_second(1) [OF None d(1)] by simp
    with None show ?thesis by (simp add: e_def calc_loop.simps [of add cr n "dt_year d" d] calc_loop.simps [of add cr n "dt_year d" "drop_second d"])
  qed (simp add: e_def)
  have s: "search_ok cr e (dt_year d + n) (calc_loop add cr n (dt_year d) d)"
    unfolding loop using search_aligned [OF law ok e(1,2), of "dt_year d" n] e(3) by simp
  have start: "current + off < dt_secs e"
    using d o by (auto simp: e_def secs_drop_second calc_offset_def)
  have at: "valid_dt (timestamp_to_datetime off v) \<and> dt_secs (timestamp_to_datetime off v) = v + off \<and> (matches_at cr off v \<longrightarrow> dt_secs e \<le> v + off)"
    if "current < v" for v
  proof -
    let ?w = "timestamp_to_datetime off v"
    have w: "valid_dt ?w" "dt_secs ?w = v + off" using of_secs_correct [of "v + off"] that t by (simp_all add: timestamp_to_datetime_def)
    have "dt_secs e \<le> v + off" if m: "matches_at cr off v"
    proof (cases "cr_second cr = None")
      case True
      with m have "(v + off) mod 60 = 0" using second_cyclic [OF w(1)] w(2) by (simp add: matches_at_def cron_match_def second_has_def)
      then obtain q where q: "v + off = q * 60" by (metis mod_eq_0_iff_dvd dvd_def mult.commute)
      with \<open>current < v\<close> have "current + off < q * 60" by simp
      then have "(current + off) div 60 < q" by (simp only: div_before zero_less_numeral)
      moreover have "dt_secs e = ((current + off) div 60 + 1) * 60"
        using True d secs_drop_second [OF d(1)] div_add_self1 [of 60 "current + off"] by (simp add: e_def calc_offset_def ac_simps)
      ultimately show ?thesis unfolding q by (simp only: mult_right_mono zless_imp_add1_zle)
    qed (use d \<open>current < v\<close> in \<open>auto simp: e_def calc_offset_def\<close>)
    with w show ?thesis by blast
  qed
  show ?thesis
  proof (cases "calc_loop add cr n (dt_year d) d")
    case None
    with s show ?thesis by (simp add: search_ok_def)
  next
    case (Some r)
    show ?thesis
    proof (cases r)
      case (Inl err)
      with Some s have "err = CroniterBadDateError" "none_until cr e (dt_year d + n)" by (simp_all add: search_ok_def)
      with Some Inl at show ?thesis by (auto simp: calc_def Let_def d_def [symmetric] none_until_def matches_at_def)
    next
      case (Inr x)
      with Some s have x: "earliest cr e x" by (simp add: search_ok_def)
      let ?u = "datetime_to_timestamp off x"
      have u: "current < ?u" "timestamp_to_datetime off ?u = x"
        using x start t of_secs_secs [of x] by (auto simp: earliest_def datetime_to_timestamp_def timestamp_to_datetime_def)
      have "\<not> matches_at cr off v" if "current < v" "v < ?u" for v
        using x at [OF that(1)] that(2) by (auto simp: earliest_def matches_at_def datetime_to_timestamp_def)
      with u x Some Inr show ?thesis
        by (auto simp: calc_def Let_def d_def [symmetric] matches_at_def earliest_def)
    qed
  qed
qed

text \<open>
  The searches that a call makes: two where both day fields are restricted, of which the earlier result counts, else
  one. An alternative is exhausted if it does not fire within the 50 years that its search covers.
\<close>

definition alternatives :: "cron \<Rightarrow> cron list" where
  "alternatives cr = (if day_or cr then [cr\<lparr>cr_dow := [Star]\<rparr>, cr\<lparr>cr_day := [Star]\<rparr>] else [cr])"

definition exhausted :: "cron \<Rightarrow> int \<Rightarrow> int \<Rightarrow> bool" where
  "exhausted c off current \<longleftrightarrow> (\<forall>v. current < v \<and> matches_at c off v \<longrightarrow>
     dt_year (timestamp_to_datetime off (current + calc_offset c)) + 50 < dt_year (timestamp_to_datetime off v))"

lemma fires_alternatives: "fires cr off u \<longleftrightarrow> (\<exists>c \<in> set (alternatives cr). matches_at c off u)"
  by (simp add: fires_def alternatives_def)

lemma get_next_cases:
  assumes law: "relativedelta_law add" and ok: "cron_ok cr" "nth_ok cr" "field_ok 0 7 (cr_dow cr)" and t: "0 \<le> current + off"
  obtains (found) u where "get_next add off cr current = Some (Inr u)" "current < u" "fires cr off u" "\<And>v. current < v \<Longrightarrow> v < u \<Longrightarrow> \<not> fires cr off v"
  | (error) c where "get_next add off cr current = Some (Inl CroniterBadDateError)" "c \<in> set (alternatives cr)" "exhausted c off current"
proof (cases "day_or cr")
  case False
  then have g: "get_next add off cr current = calc add 50 off cr current" and f: "fires cr off = matches_at cr off" by (auto simp: get_next_def fires_def)
  from calc_correct [OF law ok(1) t, of 50] show thesis
    unfolding g [symmetric] f [symmetric] using found error [of cr] False f by (auto simp: alternatives_def exhausted_def)
next
  case True
  let ?c1 = "cr\<lparr>cr_dow := [Star]\<rparr>" and ?c2 = "cr\<lparr>cr_day := [Star]\<rparr>"
  have "cron_ok ?c1" "cron_ok ?c2"
    using ok by (simp_all add: cron_ok_def year_ok_def nth_ok_def day_list_ok_def field_ok_def)
  note c = calc_correct [OF law this(1) t, of 50] calc_correct [OF law this(2) t, of 50]
  from c(1) show thesis
  proof (elim disjE exE conjE)
    fix u1
    assume u1: "calc add 50 off ?c1 current = Some (Inr u1)" "current < u1" "matches_at ?c1 off u1" "\<forall>v. current < v \<and> v < u1 \<longrightarrow> \<not> matches_at ?c1 off v"
    from c(2) show thesis
    proof (elim disjE exE conjE)
      fix u2
      assume u2: "calc add 50 off ?c2 current = Some (Inr u2)" "current < u2" "matches_at ?c2 off u2" "\<forall>v. current < v \<and> v < u2 \<longrightarrow> \<not> matches_at ?c2 off v"
      show thesis by (rule found [of "if u1 < u2 then u1 else u2"]) (use True u1 u2 in \<open>simp_all add: get_next_def fires_def split: if_splits\<close>)
    qed (rule error [of ?c2], use True u1 in \<open>auto simp: get_next_def alternatives_def exhausted_def\<close>)
  qed (rule error [of ?c1], use True in \<open>auto simp: get_next_def alternatives_def exhausted_def\<close>)
qed

text \<open>
  C37: In a time zone with a fixed offset, from 1970 on, the cron iterator always returns. The time that it returns is
  the first one after the current time at which the expression fires; if it raises instead, one of the searches that
  it makes (two, if the day of the month and the day of the week are both restricted) has no match within the 50 years
  that it covers. The expression is one whose fields are within their ranges, whose day list is one that no jump
  overshoots (\<open>march_first_missed\<close> and \<open>last_day_missed\<close> below show two that are not) and that has no weekday 7, which an
  expression with a seconds field keeps (\<open>sunday_7_missed\<close>). The adjustment of the result when the offset of the zone
  changes is not modelled.
\<close>

theorem get_next_first:
  assumes "relativedelta_law add" "cron_ok cr" "nth_ok cr" "field_ok 0 7 (cr_dow cr)" "0 \<le> current + off"
  shows "(\<exists>u. get_next add off cr current = Some (Inr u) \<and> current < u \<and> fires cr off u \<and> (\<forall>v. current < v \<and> v < u \<longrightarrow> \<not> fires cr off v))
    \<or> get_next add off cr current = Some (Inl CroniterBadDateError)
      \<and> (\<exists>c \<in> set (alternatives cr). \<forall>v. current < v \<and> matches_at c off v \<longrightarrow>
            dt_year (timestamp_to_datetime off (current + calc_offset c)) + 50 < dt_year (timestamp_to_datetime off v))"
  using get_next_cases [OF assms] unfolding exhausted_def by metis

text \<open>The expression for 9:30 on the first and the last day of the month, with a seconds field.\<close>

definition first_and_last :: cron where
  "first_and_last = \<lparr>cr_minute = [Item 30], cr_hour = [Item 9], cr_day = [Item 1, Last], cr_month = [Star], cr_dow = [Star],
     cr_second = Some [Item 0], cr_year = None, cr_nth = []\<rparr>"

lemma add_relativedelta_law: "relativedelta_law add_relativedelta"
  by (simp add: relativedelta_law_def)

lemma first_and_last_next: "get_next add_relativedelta 0 first_and_last 2774400 = Some (Inr 5045400)"
  by code_simp

theorem get_next_first_witness:
  "get_next add_relativedelta 0 first_and_last 2774400 = Some (Inr 5045400)
    \<and> fires first_and_last 0 5045400 \<and> {v. 2774400 < v \<and> v < 5045400 \<and> fires first_and_last 0 v} = {}"
proof -
  have "cron_ok first_and_last" "nth_ok first_and_last" "field_ok 0 7 (cr_dow first_and_last)" by code_simp+
  from get_next_first [OF add_relativedelta_law this, of 2774400 0] first_and_last_next show ?thesis by auto
qed

section \<open>Where the jumps miss a match\<close>

text \<open>On the first and the 30th, from February 2: March 1 fires, but the jump to the \<^verbatim>\<open>30th of February\<close> ends on March 2.\<close>

definition first_and_30th :: cron where
  "first_and_30th = first_and_last\<lparr>cr_day := [Item 1, Item 30]\<rparr>"

lemma march_first_missed:
  "get_next add_relativedelta 0 first_and_30th 2774400 = Some (Inr 7637400)
   \<and> fires first_and_30th 0 5131800"
  by code_simp

text \<open>On the 30th and on the last day, from February 2: February 28 fires, but the next time is March 30.\<close>

definition last_and_30th :: cron where
  "last_and_30th = first_and_last\<lparr>cr_day := [Item 30, Last]\<rparr>"

lemma last_day_missed:
  "get_next add_relativedelta 0 last_and_30th 2774400 = Some (Inr 7637400) \<and> fires last_and_30th 0 5045400"
  by code_simp

text \<open>
  A six-field expression keeps 7 for Sunday in its list, where the field counts from 0 to 6: on Friday, Saturday and Sunday,
  from a Saturday at 10:00 the next time is the Friday after it.
\<close>

lemma sunday_7_missed:
  "get_next add_relativedelta 0 (first_and_last\<lparr>cr_day := [Star], cr_dow := [Item 5, Item 6, Item 7]\<rparr>) 3232800 = Some (Inr 3749400)
   \<and> dow (of_secs 3317400) = 0"
  by code_simp

text \<open>
  With both day fields, the iterator raises if one of the searches finds nothing, although the other one does: a day that
  the months do not have, or a day of the month that is never the n-th weekday, which applies to both searches.
\<close>

lemma alternative_raises:
  assumes "relativedelta_law add" "cron_ok (cr\<lparr>cr_dow := [Star]\<rparr>)" "0 \<le> current + off" "day_or cr"
    and "\<And>t. valid_dt t \<Longrightarrow> \<not> cron_match (cr\<lparr>cr_dow := [Star]\<rparr>) t"
  shows "get_next add off cr current = Some (Inl CroniterBadDateError)"
proof -
  have "\<not> matches_at (cr\<lparr>cr_dow := [Star]\<rparr>) off u" if "current < u" for u
    using assms(3) that of_secs_correct(1) [of "u + off"] by (simp add: assms(5) matches_at_def timestamp_to_datetime_def)
  with calc_correct [OF assms(1-3), of 50] have "calc add 50 off (cr\<lparr>cr_dow := [Star]\<rparr>) current = Some (Inl CroniterBadDateError)" by blast
  with assms(4) show ?thesis by (simp add: get_next_def)
qed

lemma february_31_raises:
  assumes "0 \<le> current + off"
  shows "get_next add_relativedelta off (first_and_last\<lparr>cr_day := [Item 31], cr_month := [Item 2], cr_dow := [Item 1]\<rparr>) current = Some (Inl CroniterBadDateError)"
proof (rule alternative_raises [OF add_relativedelta_law _ assms])
  fix t
  assume "valid_dt t"
  then show "\<not> cron_match (first_and_last\<lparr>cr_day := [Item 31], cr_month := [Item 2], cr_dow := [Item 1], cr_dow := [Star]\<rparr>) t"
    by (auto simp: cron_match_def field_has_def day_has_def first_and_last_def valid_dt_def month_days_def DAYS_def split: if_splits)
qed (code_simp, simp add: day_or_def)

lemma second_weekday_late: "1 < length (get_nth_weekday_of_month y m w) \<Longrightarrow> 1 < get_nth_weekday_of_month y m w ! 1"
proof -
  let ?c = "get_nth_weekday_of_month y m w"
  assume l: "1 < length ?c"
  have "sorted ?c" "distinct ?c" by (simp_all add: get_nth_weekday_of_month_def sorted_wrt_filter)
  then have "?c ! 0 < ?c ! 1" using l by (metis One_nat_def nth_eq_iff_index_eq order_le_less sorted_iff_nth_mono zero_le_one zero_less_one less_trans zero_neq_one)
  moreover have "?c ! 0 \<in> set ?c" using l by (intro nth_mem) linarith
  then have "1 \<le> ?c ! 0" unfolding get_nth_weekday_of_month_def by simp
  ultimately show ?thesis by simp
qed

lemma nth_weekday_and_day_raises:
  assumes "0 \<le> current + off"
  shows "get_next add_relativedelta off (first_and_last\<lparr>cr_day := [Item 1], cr_dow := [Item 1], cr_nth := [(1, [Nth 2])]\<rparr>) current
    = Some (Inl CroniterBadDateError)"
proof (rule alternative_raises [OF add_relativedelta_law _ assms])
  fix t
  show "\<not> cron_match (first_and_last\<lparr>cr_day := [Item 1], cr_dow := [Item 1], cr_nth := [(1, [Nth 2])], cr_dow := [Star]\<rparr>) t"
    using second_weekday_late [of "dt_year t" "dt_month t" 1]
    by (auto simp: cron_match_def field_has_def day_has_def weekday_has_def nth_days_def Let_def first_and_last_def)
qed (code_simp, simp add: day_or_def)

end
