(* ===== verification/DBOS_Cron_Expand.thy ===== *)
theory DBOS_Cron_Expand
  imports DBOS_Cron_Search DBOS_Context
begin

text \<open>
  The parser of cron expressions (\<^verbatim>\<open>_expand\<close> of \<^verbatim>\<open>dbos/_croniter.py\<close>), as the library calls it: seconds first, no hash ID.
  Characters are those of ASCII. The lemmas show what an accepted expression looks like.
\<close>

section \<open>Texts\<close>

definition lower_char :: "char \<Rightarrow> char" where
  "lower_char ch = (let n = (of_char ch :: nat) in if 65 \<le> n \<and> n \<le> 90 then char_of (n + 32) else ch)"

definition is_digit :: "char \<Rightarrow> bool" where
  "is_digit ch = (let n = (of_char ch :: nat) in 48 \<le> n \<and> n \<le> 57)"

definition is_word :: "char \<Rightarrow> bool" where
  "is_word ch = (let n = (of_char ch :: nat) in is_digit ch \<or> (65 \<le> n \<and> n \<le> 90) \<or> (97 \<le> n \<and> n \<le> 122) \<or> n = 95)"

definition only_int :: "string \<Rightarrow> bool" where
  "only_int s \<longleftrightarrow> s \<noteq> [] \<and> list_all is_digit s"

definition digits_value :: "string \<Rightarrow> int" where
  "digits_value s = foldl (\<lambda>v ch. 10 * v + int (of_char ch) - 48) 0 s"

text \<open>\<^verbatim>\<open>s.split()\<close> and \<^verbatim>\<open>s.split(",")\<close>.\<close>

fun split_on :: "(char \<Rightarrow> bool) \<Rightarrow> string \<Rightarrow> string list" where
  "split_on P [] = [[]]"
| "split_on P (x # xs) = (let r = split_on P xs in if P x then [] # r else (x # hd r) # tl r)"

definition split_space :: "string \<Rightarrow> string list" where
  "split_space s = filter (\<lambda>w. w \<noteq> []) (split_on py_isspace s)"

section \<open>Constants\<close>

definition CroniterBadCronError :: dbos_error where
  "CroniterBadCronError = PyException ''CroniterBadCronError''"

definition CroniterNotAlphaError :: dbos_error where
  "CroniterNotAlphaError = PyException ''CroniterNotAlphaError''"

definition CroniterUnsupportedSyntaxError :: dbos_error where
  "CroniterUnsupportedSyntaxError = PyException ''CroniterUnsupportedSyntaxError''"

definition M_ALPHAS :: "(string \<times> int) list" where
  "M_ALPHAS = [(''jan'', 1), (''feb'', 2), (''mar'', 3), (''apr'', 4), (''may'', 5), (''jun'', 6), (''jul'', 7), (''aug'', 8),
     (''sep'', 9), (''oct'', 10), (''nov'', 11), (''dec'', 12)]"

definition DOW_ALPHAS :: "(string \<times> int) list" where
  "DOW_ALPHAS = [(''sun'', 0), (''mon'', 1), (''tue'', 2), (''wed'', 3), (''thu'', 4), (''fri'', 5), (''sat'', 6)]"

text \<open>The fields by their index: minute, hour, day, month, day of week, second, year.\<close>

definition RANGES :: "(int \<times> int) list" where
  "RANGES = [(0, 59), (0, 23), (1, 31), (1, 12), (0, 7), (0, 59), (1970, 2099)]"

definition LEN_MEANS_ALL :: "nat list" where
  "LEN_MEANS_ALL = [60, 24, 31, 12, 7, 60, 130]"

definition ALPHACONV :: "nat \<Rightarrow> string \<Rightarrow> cron_item option" where
  "ALPHACONV i key = (if i = 2 then (if key = ''l'' then Some Last else None)
     else if i = 3 then map_option Item (map_of M_ALPHAS key)
     else if i = 4 then map_option Item (map_of DOW_ALPHAS key)
     else None)"

definition alphaconv :: "nat \<Rightarrow> string \<Rightarrow> cron_item res" where
  "alphaconv i key = (case ALPHACONV i key of Some v \<Rightarrow> Inr v | None \<Rightarrow> Inl CroniterNotAlphaError)"

text \<open>\<open>n\<close> is the number of fields.\<close>

definition LOWMAP :: "nat \<Rightarrow> nat \<Rightarrow> cron_item \<Rightarrow> cron_item" where
  "LOWMAP i n v =
     (if (i = 2 \<or> i = 3) \<and> n = 5 \<or> (i = 3 \<or> i = 4) \<and> n = 6 \<or> (i = 2 \<or> i = 3 \<or> i = 4) \<and> n = 7 then v
      else if (i = 2 \<or> i = 3) \<and> v = Item 0 then Item 1
      else if i = 4 \<and> v = Item 7 then Item 0
      else v)"

definition expr_aliases :: "(string \<times> string) list" where
  "expr_aliases = [(''@midnight'', ''0 0 * * *''), (''@hourly'', ''0 * * * *''), (''@daily'', ''0 0 * * *''), (''@weekly'', ''0 0 * * 0''),
     (''@monthly'', ''0 0 1 * *''), (''@yearly'', ''0 0 1 1 *''), (''@annually'', ''0 0 1 1 *'')]"

section \<open>One element of a field\<close>

text \<open>\<^verbatim>\<open>special_dow_re\<close>: \<^verbatim>\<open>2#3\<close>, \<^verbatim>\<open>mon-wed#1\<close>, \<^verbatim>\<open>l3\<close>; the named groups \<^verbatim>\<open>he\<close> and \<^verbatim>\<open>last\<close>.\<close>

definition weekday_text :: "string \<Rightarrow> bool" where
  "weekday_text h \<longleftrightarrow> h \<noteq> [] \<and> list_all is_word h \<or>
     (let a = takeWhile (\<lambda>ch. ch \<noteq> CHR ''-'') h; b = drop (Suc (length a)) h in
      h = a @ CHR ''-'' # b \<and>
      (a \<in> fst ` set DOW_ALPHAS \<and> b \<in> fst ` set DOW_ALPHAS \<or> a \<in> fst ` set M_ALPHAS \<and> b \<in> fst ` set M_ALPHAS))"

definition special_dow_re :: "string \<Rightarrow> (string option \<times> string) option" where
  "special_dow_re e =
     (let h = takeWhile (\<lambda>ch. ch \<noteq> CHR ''#'') e; ds = drop (Suc (length h)) e in
      if e = h @ CHR ''#'' # ds \<and> weekday_text h \<and> only_int ds then Some (Some h, ds)
      else if e \<noteq> [] \<and> hd e = CHR ''l'' \<and> only_int (tl e) then Some (None, tl e)
      else None)"

definition special_dow :: "nat \<Rightarrow> string \<Rightarrow> (string \<times> nth_weekday option) res" where
  "special_dow i e =
     (if i \<noteq> 4 then Inr (e, None)
      else case special_dow_re e of
        None \<Rightarrow> Inr (e, None)
      | Some (Some he, ds) \<Rightarrow>
          (let nw = digits_value ds in if 1 \<le> nw \<and> nw \<le> 5 then Inr (he, Some (Nth (nat nw))) else Inl CroniterBadCronError)
      | Some (None, ds) \<Rightarrow> Inr (ds, Some LastWeekday))"

text \<open>The two rewritings before a range is looked for: \<^verbatim>\<open>*/5\<close> and \<^verbatim>\<open>10/5\<close>.\<close>

definition star_step :: "nat \<Rightarrow> string \<Rightarrow> string" where
  "star_step i e = (if take 2 e = ''*/'' \<and> 2 < length e
     then str_int (fst (RANGES ! i)) @ ''-'' @ str_int (snd (RANGES ! i)) @ tl e else e)"

definition slash_step :: "nat \<Rightarrow> string \<Rightarrow> string" where
  "slash_step i e = (let js = filter (\<lambda>j. e ! j = CHR ''/'') [1..<length e - 1] in
     if js = [] then e else take (last js) e @ ''-'' @ str_int (snd (RANGES ! i)) @ ''/'' @ drop (Suc (last js)) e)"

definition step_search_re :: "string \<Rightarrow> (string \<times> string \<times> int) option" where
  "step_search_re t =
     (let low = takeWhile (\<lambda>ch. ch \<noteq> CHR ''-'') t; r = drop (Suc (length low)) t;
          high = takeWhile (\<lambda>ch. ch \<noteq> CHR ''-'' \<and> ch \<noteq> CHR ''/'') r; rest = drop (length high) r in
      if t = low @ CHR ''-'' # r \<and> low \<noteq> [] \<and> high \<noteq> []
      then (if rest = [] then Some (low, high, 1)
            else if hd rest = CHR ''/'' \<and> only_int (tl rest) then Some (low, high, digits_value (tl rest)) else None)
      else None)"

text \<open>The bounds of a range as numbers; \<^verbatim>\<open>int("l")\<close> raises.\<close>

definition range_bound :: "nat \<Rightarrow> string \<Rightarrow> int res" where
  "range_bound i s = (if only_int s then Inr (digits_value s)
     else res_bind (alphaconv i s) (\<lambda>v. case v of Item k \<Rightarrow> Inr k | _ \<Rightarrow> Inl CroniterBadCronError))"

definition range_items :: "nat \<Rightarrow> string \<times> string \<times> int \<Rightarrow> int list res" where
  "range_items i m = (case m of (low, high0, step) \<Rightarrow>
     let high = if i = 2 \<and> high0 = ''l'' then ''31'' else high0 in
     res_bind (range_bound i low) (\<lambda>lo. res_bind (range_bound i high) (\<lambda>hi.
       if lo > hi \<and> \<not> (i = 4 \<and> hi = 0 \<and> (only_int high \<longrightarrow> high = ''0'')) then Inl CroniterBadCronError
       else let hi' = if lo > hi then 7 else hi in
         if max lo hi' > snd (RANGES ! i) then Inl CroniterBadCronError
         else if step = 0 then Inl CroniterBadCronError
         else Inr (filter (\<lambda>v. (v - lo) mod step = 0) [lo..hi']))))"

text \<open>A number, a name, \<^verbatim>\<open>*\<close> or \<^verbatim>\<open>l\<close>.\<close>

definition expand_single :: "nat \<Rightarrow> nat \<Rightarrow> nth_weekday option \<Rightarrow> string \<Rightarrow> (cron_item \<times> nth_weekday option) res" where
  "expand_single i n nw t =
     (if t \<noteq> [] \<and> hd t = CHR ''-'' then Inl CroniterBadCronError
      else res_bind (if t = ''*'' then Inr Star else if only_int t then Inr (Item (digits_value t)) else alphaconv i t) (\<lambda>v.
        case LOWMAP i n v of
          Item k \<Rightarrow> if k < fst (RANGES ! i) \<or> k > snd (RANGES ! i) then Inl CroniterBadCronError else Inr (Item k, nw)
        | w \<Rightarrow> Inr (w, nw)))"

text \<open>
  One element. The numbers of a range go back to the list of elements, with \<^verbatim>\<open>#\<close> and the n-th if it is given, and are read again as
  single elements.
\<close>

definition expand_element :: "nat \<Rightarrow> nat \<Rightarrow> string \<Rightarrow> (cron_item \<times> nth_weekday option) list res" where
  "expand_element i n e =
     res_bind (special_dow i e) (\<lambda>(e', nw).
       case step_search_re (star_step i e') of
         Some m \<Rightarrow> res_bind (range_items i m) (res_map (\<lambda>v. expand_single i n nw (str_int v)))
       | None \<Rightarrow> (case step_search_re (slash_step i e') of
           Some m \<Rightarrow> res_bind (range_items i m) (res_map (\<lambda>v. expand_single i n nw (str_int v)))
         | None \<Rightarrow> res_bind (expand_single i n nw (slash_step i e')) (\<lambda>x. Inr [x])))"

section \<open>Fields\<close>

text \<open>
  \<^verbatim>\<open>HashExpander\<close> without a hash ID: \<^verbatim>\<open>h\<close> raises, \<^verbatim>\<open>r\<close> takes a random number \<open>crc\<close>. The groups: hash type, range, divisor.
\<close>

definition hash_expression_re :: "string \<Rightarrow> (char \<times> (string \<times> string) option \<times> string option) option" where
  "hash_expression_re s =
     (if s = [] \<or> hd s \<noteq> CHR ''h'' \<and> hd s \<noteq> CHR ''r'' then None
      else let
        divisor = (\<lambda>r. if r = [] then Some None else if hd r = CHR ''/'' \<and> only_int (tl r) then Some (Some (tl r)) else None);
        r = tl s in
      if r \<noteq> [] \<and> hd r = CHR ''(''
      then (let a = takeWhile is_digit (tl r); r1 = drop (length a) (tl r); b = takeWhile is_digit (tl r1); r2 = drop (length b) (tl r1) in
            if a \<noteq> [] \<and> b \<noteq> [] \<and> r1 \<noteq> [] \<and> hd r1 = CHR ''-'' \<and> r2 \<noteq> [] \<and> hd r2 = CHR '')''
            then map_option (\<lambda>d. (hd s, Some (a, b), d)) (divisor (tl r2)) else None)
      else map_option (\<lambda>d. (hd s, None, d)) (divisor r))"

definition hash_do :: "nat \<Rightarrow> nat \<Rightarrow> int \<Rightarrow> int \<Rightarrow> int" where
  "hash_do crc i range_begin range_end = (int crc div 2 ^ i) mod (range_end - range_begin + 1) + range_begin"

definition hash_expand :: "nat \<Rightarrow> nat \<Rightarrow> string \<Rightarrow> string res" where
  "hash_expand crc i expr = (case hash_expression_re expr of
     None \<Rightarrow> Inr expr
   | Some (ht, rg, dv) \<Rightarrow>
       if ht = CHR ''h'' then Inl CroniterBadCronError
       else case rg of
         Some (a, b) \<Rightarrow>
           if digits_value a \<ge> digits_value b then Inl CroniterBadCronError
           else (case dv of
             None \<Rightarrow> Inr (str_int (hash_do crc i (digits_value a) (digits_value b)))
           | Some d \<Rightarrow> if digits_value d = 0 then Inl CroniterBadCronError
               else Inr (str_int (hash_do crc i (digits_value a) (digits_value d - 1 + digits_value a)) @ ''-'' @ str_int (digits_value b)
                 @ ''/'' @ str_int (digits_value d)))
       | None \<Rightarrow> (case dv of
             None \<Rightarrow> Inr (str_int (hash_do crc i (fst (RANGES ! i)) (snd (RANGES ! i))))
           | Some d \<Rightarrow> if digits_value d = 0 then Inl CroniterBadCronError
               else Inr (str_int (hash_do crc i (fst (RANGES ! i)) (digits_value d - 1 + fst (RANGES ! i))) @ ''-''
                 @ str_int (snd (RANGES ! i)) @ ''/'' @ str_int (digits_value d))))"

definition question_mark :: "nat \<Rightarrow> string \<Rightarrow> string res" where
  "question_mark i expr = (if CHR ''?'' \<in> set expr
     then (if expr \<noteq> ''?'' \<or> i \<noteq> 2 \<and> i \<noteq> 4 then Inl CroniterBadCronError else Inr ''*'') else Inr expr)"

text \<open>
  The order of the texts \<^verbatim>\<open>"{:02}".format(i)\<close>: the star, then the numbers, which have two digits or, in the field of years, four, and
  then \<^verbatim>\<open>l\<close>.
\<close>

definition item_order :: "cron_item \<Rightarrow> int" where
  "item_order v = (case v of Star \<Rightarrow> - 1 | Item k \<Rightarrow> k | Last \<Rightarrow> 10000)"

definition collapse_all :: "string list \<Rightarrow> nat \<Rightarrow> cron_item list \<Rightarrow> cron_item list" where
  "collapse_all exprs i r =
     (if length r = LEN_MEANS_ALL ! i
         \<and> \<not> (i = 2 \<and> CHR ''*'' \<notin> set (exprs ! 4) \<or> i = 4 \<and> CHR ''*'' \<notin> set (exprs ! 2))
      then [Star] else r)"

definition expand_field :: "(nat \<Rightarrow> nat) \<Rightarrow> string list \<Rightarrow> nat \<Rightarrow> (cron_item list \<times> (cron_item \<times> nth_weekday option) list) res" where
  "expand_field crc exprs i =
     res_bind (hash_expand (crc i) i (exprs ! i)) (\<lambda>e1. res_bind (question_mark i e1) (\<lambda>expr.
     res_bind (res_map (expand_element i (length exprs)) (split_on (\<lambda>ch. ch = CHR '','') expr)) (\<lambda>xss.
       let xs = concat xss in
       Inr (collapse_all exprs i (sort_key item_order (remdups (map fst xs))), xs))))"

text \<open>The n-th weekdays by weekday, from the elements that have one.\<close>

fun add_nth :: "int \<Rightarrow> nth_weekday \<Rightarrow> (int \<times> nth_weekday list) list \<Rightarrow> (int \<times> nth_weekday list) list" where
  "add_nth w x [] = [(w, [x])]"
| "add_nth w x ((v, ns) # m) = (if v = w then (v, List.insert x ns) # m else (v, ns) # add_nth w x m)"

definition nth_weekdays :: "(cron_item \<times> nth_weekday option) list \<Rightarrow> (int \<times> nth_weekday list) list" where
  "nth_weekdays xs = foldr (\<lambda>x m. case x of (Item w, Some y) \<Rightarrow> add_nth w y m | _ \<Rightarrow> m) xs []"

section \<open>Expressions\<close>

definition seconds_first :: "string list \<Rightarrow> string list" where
  "seconds_first es = (if length es > 5 then take 5 (tl es) @ [hd es] @ drop 5 (tl es) else es)"

definition expand :: "(nat \<Rightarrow> nat) \<Rightarrow> string \<Rightarrow> cron res" where
  "expand crc expr_format =
     (let lowered = map lower_char expr_format;
          efl = (case map_of expr_aliases lowered of Some a \<Rightarrow> a | None \<Rightarrow> lowered);
          exprs = seconds_first (split_space efl); n = length exprs in
      if n < 5 \<or> 7 < n then Inl CroniterBadCronError
      else res_bind (res_map (expand_field crc exprs) [0..<n]) (\<lambda>fs.
        let ex = map fst fs; nths = nth_weekdays (snd (fs ! 4));
            mixed = filter (\<lambda>v. v \<noteq> Star \<and> v \<notin> Item ` fst ` set nths) (ex ! 4) in
        if nths \<noteq> [] \<and> mixed \<noteq> [] \<and> length (ex ! 4) \<noteq> LEN_MEANS_ALL ! 4 then Inl CroniterUnsupportedSyntaxError
        else Inr \<lparr>cr_minute = ex ! 0, cr_hour = ex ! 1, cr_day = ex ! 2, cr_month = ex ! 3, cr_dow = ex ! 4,
               cr_second = (if n > 5 then Some (ex ! 5) else None), cr_year = (if n > 6 then Some (ex ! 6) else None), cr_nth = nths\<rparr>))"

text \<open>\<^verbatim>\<open>is_valid\<close>.\<close>

definition cron_is_valid :: "(nat \<Rightarrow> nat) \<Rightarrow> string \<Rightarrow> bool" where
  "cron_is_valid crc expr_format = (case expand crc expr_format of Inl _ \<Rightarrow> False | Inr _ \<Rightarrow> True)"

section \<open>Accepted expressions\<close>

text \<open>
  The values of an accepted field are in its range, the day 7 of the week only with a seconds field, and its list is sorted
  and not empty.
\<close>

definition item_in :: "nat \<Rightarrow> nat \<Rightarrow> cron_item \<Rightarrow> bool" where
  "item_in i n v = (case v of Star \<Rightarrow> True | Last \<Rightarrow> i = 2
     | Item k \<Rightarrow> fst (RANGES ! i) \<le> k \<and> k \<le> snd (RANGES ! i) \<and> (i = 4 \<and> n = 5 \<longrightarrow> k \<noteq> 7))"

definition nth_in :: "nth_weekday option \<Rightarrow> bool" where
  "nth_in x = (case x of Some (Nth k) \<Rightarrow> 1 \<le> k | _ \<Rightarrow> True)"

lemma expand_single_in:
  assumes "expand_single i n nw t = Inr (v, nw')"
  shows "nw' = nw \<and> item_in i n v"
proof -
  from assms obtain u where u: "(if t = ''*'' then Inr Star else if only_int t then Inr (Item (digits_value t)) else alphaconv i t) = Inr u"
    and w: "(case LOWMAP i n u of Item k \<Rightarrow> if k < fst (RANGES ! i) \<or> k > snd (RANGES ! i) then Inl CroniterBadCronError else Inr (Item k, nw)
      | w \<Rightarrow> Inr (w, nw)) = Inr (v, nw')"
    by (auto simp: expand_single_def res_bind_Inr_iff split: if_splits)
  have "u = Last \<Longrightarrow> i = 2" using u by (auto simp: alphaconv_def ALPHACONV_def split: if_splits option.splits)
  then have 1: "LOWMAP i n u = Last \<Longrightarrow> i = 2" by (auto simp: LOWMAP_def split: if_splits)
  have 2: "i = 4 \<and> n = 5 \<Longrightarrow> LOWMAP i n u \<noteq> Item 7" by (auto simp: LOWMAP_def)
  show ?thesis
  proof (cases "LOWMAP i n u")
    case (Item k)
    then have "v = Item k" "nw' = nw" "fst (RANGES ! i) \<le> k" "k \<le> snd (RANGES ! i)" using w by (simp_all split: if_split_asm)
    with 2 Item show ?thesis by (auto simp: item_in_def)
  qed (use w 1 in \<open>simp_all add: item_in_def\<close>)
qed

lemma range_items_nonempty:
  assumes "range_items i m = Inr vs"
  shows "vs \<noteq> []"
proof -
  obtain low high step where m: "m = (low, high, step)" by (rule prod_cases3)
  from assms obtain lo hi where g: "\<not> (hi < lo \<and> i \<noteq> 4)" and mx: "\<not> snd (RANGES ! i) < max lo (if hi < lo then 7 else hi)"
    and vs: "vs = filter (\<lambda>v. (v - lo) mod step = 0) [lo..if hi < lo then 7 else hi]"
    unfolding range_items_def m prod.case Let_def res_bind_Inr_iff by (metis Inl_Inr_False sum.inject(2))
  have "snd (RANGES ! 4) = 7" by (simp add: RANGES_def)
  then have "lo \<le> (if hi < lo then 7 else hi)" using g mx by (cases "i = 4") (auto simp: max_def split: if_splits)
  then have "lo \<in> set vs" unfolding vs by simp
  then show ?thesis by auto
qed

lemma special_dow_nth: "special_dow i e = Inr (e', nw) \<Longrightarrow> nth_in nw"
  by (auto simp: special_dow_def nth_in_def Let_def split: if_splits option.splits)

lemma expand_singles_in:
  assumes "res_map (\<lambda>v. expand_single i n nw (f v)) vs = Inr xs" "(v, nw') \<in> set xs"
  shows "item_in i n v \<and> nw' = nw"
  using assms(1) [unfolded res_map_Inr_iff] assms(2) expand_single_in [of i n nw _ v nw'] by (auto simp: in_set_conv_nth)

lemma expand_element_in:
  assumes "expand_element i n e = Inr xs"
  shows "xs \<noteq> []" "(v, nw) \<in> set xs \<Longrightarrow> item_in i n v \<and> nth_in nw"
proof -
  from assms obtain e' nw' where sp: "special_dow i e = Inr (e', nw')"
    and run: "(case step_search_re (star_step i e') of
         Some m \<Rightarrow> res_bind (range_items i m) (res_map (\<lambda>v. expand_single i n nw' (str_int v)))
       | None \<Rightarrow> (case step_search_re (slash_step i e') of
           Some m \<Rightarrow> res_bind (range_items i m) (res_map (\<lambda>v. expand_single i n nw' (str_int v)))
         | None \<Rightarrow> res_bind (expand_single i n nw' (slash_step i e')) (\<lambda>x. Inr [x]))) = Inr xs"
    by (auto simp: expand_element_def res_bind_Inr_iff)
  have range: "xs \<noteq> [] \<and> (\<forall>v nw. (v, nw) \<in> set xs \<longrightarrow> item_in i n v \<and> nw = nw')"
    if "res_bind (range_items i m) (res_map (\<lambda>v. expand_single i n nw' (str_int v))) = Inr xs" for m
  proof -
    from that obtain vs where vs: "range_items i m = Inr vs" "res_map (\<lambda>v. expand_single i n nw' (str_int v)) vs = Inr xs"
      by (auto simp: res_bind_Inr_iff)
    have "xs \<noteq> []" using range_items_nonempty [OF vs(1)] vs(2) [unfolded res_map_Inr_iff] by auto
    with expand_singles_in [OF vs(2)] show ?thesis by blast
  qed
  from run range expand_single_in [of i n nw' "slash_step i e'"] have all: "xs \<noteq> [] \<and> (\<forall>v nw. (v, nw) \<in> set xs \<longrightarrow> item_in i n v \<and> nw = nw')"
    by (auto simp: res_bind_Inr_iff split: option.split_asm)
  then show "xs \<noteq> []" by blast
  show "item_in i n v \<and> nth_in nw" if "(v, nw) \<in> set xs" using all that special_dow_nth [OF sp] by blast
qed

lemma split_on_not_Nil: "split_on P s \<noteq> []"
  by (induction s) (simp_all add: Let_def)

lemma expand_field_in:
  assumes "expand_field crc exprs i = Inr (r, xs)"
  shows "r \<noteq> []" "sorted (map item_order r)" "v \<in> set r \<Longrightarrow> item_in i (length exprs) v" "(v, nw) \<in> set xs \<Longrightarrow> nth_in nw"
proof -
  from assms obtain expr xss where xss: "res_map (expand_element i (length exprs)) (split_on (\<lambda>ch. ch = CHR '','') expr) = Inr xss"
    and xs: "xs = concat xss" and r: "r = collapse_all exprs i (sort_key item_order (remdups (map fst xs)))"
    by (auto simp: expand_field_def res_bind_Inr_iff Let_def)
  note m = xss [unfolded res_map_Inr_iff]
  have el: "\<exists>e. expand_element i (length exprs) e = Inr ys" if "ys \<in> set xss" for ys
    using m that by (metis in_set_conv_nth)
  have in_xs: "item_in i (length exprs) v \<and> nth_in nw" if "(v, nw) \<in> set xs" for v nw
    using that el expand_element_in(2) unfolding xs by fastforce
  have "xss \<noteq> []" using m split_on_not_Nil [of _ expr] by auto
  then obtain ys where ys: "ys \<in> set xss" by (cases xss) auto
  with el expand_element_in(1) have "ys \<noteq> []" by blast
  with ys have ne: "xs \<noteq> []" by (auto simp: xs)
  then have "length (sort_key item_order (remdups (map fst xs))) \<noteq> 0" by simp
  then show "r \<noteq> []" unfolding r collapse_all_def length_0_conv by (auto simp del: length_sort)
  show "sorted (map item_order r)" unfolding r collapse_all_def by (simp add: sorted_sort_key)
  show "item_in i (length exprs) v" if "v \<in> set r"
    using that in_xs unfolding r collapse_all_def by (auto simp: item_in_def split: if_splits)
  show "nth_in nw" if "(v, nw) \<in> set xs" using in_xs that by blast
qed

lemma item_in_field_ok:
  assumes "r \<noteq> []" "sorted (map item_order r)" "\<And>v. v \<in> set r \<Longrightarrow> item_in i n v" "i \<noteq> 2"
  shows "Star \<in> set r \<or> items_ok r"
    "Star \<in> set r \<or> list_all (\<lambda>v. fst (RANGES ! i) \<le> item_value None v \<and> item_value None v \<le> snd (RANGES ! i)) r"
proof -
  have it: "\<exists>k. v = Item k \<and> fst (RANGES ! i) \<le> k \<and> k \<le> snd (RANGES ! i)" if "v \<in> set r" "Star \<notin> set r" for v
    using assms(3) [OF that(1)] that assms(4) by (cases v) (auto simp: item_in_def)
  have "map item_order r = map (item_value None) r" if "Star \<notin> set r"
    by (rule map_cong [OF refl]) (use it that in \<open>force simp: item_order_def\<close>)
  then show "Star \<in> set r \<or> items_ok r" using assms(1,2) it by (fastforce simp: items_ok_def list_all_iff)
  show "Star \<in> set r \<or> list_all (\<lambda>v. fst (RANGES ! i) \<le> item_value None v \<and> item_value None v \<le> snd (RANGES ! i)) r"
    using it by (force simp: list_all_iff)
qed

lemma expand_field_ok:
  assumes "expand_field crc exprs i = Inr (r, xs)" "i \<noteq> 2"
  shows "field_ok (fst (RANGES ! i)) (snd (RANGES ! i) - fst (RANGES ! i) + 1) r"
  using item_in_field_ok [OF expand_field_in(1-3) [OF assms(1)] assms(2)] by (auto simp: field_ok_def list_all_iff)

text \<open>The day list: sorted and from 1 to 31. What more the search needs is \<open>days_safe\<close>.\<close>

definition days_safe :: "cron_item list \<Rightarrow> bool" where
  "days_safe L \<longleftrightarrow> Star \<in> set L \<or>
     (Last \<in> set L \<longrightarrow> list_all (\<lambda>i. i = Last \<or> item_value None i \<le> 28) L)
     \<and> (Item 30 \<in> set L \<or> Item 31 \<in> set L \<longrightarrow> Item 29 \<in> set L \<or> Item 1 \<notin> set L \<and> (Item 30 \<in> set L \<or> Item 2 \<notin> set L))"

lemma expand_day_ok:
  assumes "expand_field crc exprs 2 = Inr (r, xs)" "days_safe r"
  shows "day_list_ok r"
proof (cases "Star \<in> set r")
  case False
  note f = expand_field_in(1-3) [OF assms(1)]
  have it: "v = Last \<or> (\<exists>k. v = Item k \<and> 1 \<le> k \<and> k \<le> 31)" if "v \<in> set r" for v
    using f(3) [OF that] that False by (cases v) (auto simp: item_in_def RANGES_def)
  have "item_value (Some 31) v = min 31 (item_order v)" if "v \<in> set r" for v using it [OF that] by (auto simp: item_order_def)
  then have "map (item_value (Some 31)) r = map (\<lambda>v. min 31 (item_order v)) r" by (rule map_cong [OF refl])
  then have "sorted (map (item_value (Some 31)) r)" by (simp only: sorted_min [OF f(2)])
  moreover have "list_all (\<lambda>i. 1 \<le> item_value (Some 31) i \<and> item_value (Some 31) i \<le> 31) r" using it by (fastforce simp: list_all_iff)
  ultimately show ?thesis using f(1) assms(2) False by (simp add: day_list_ok_def days_safe_def)
qed (simp add: day_list_ok_def)

lemma add_nth_from: "(v, ns) \<in> set (add_nth w x m) \<Longrightarrow> y \<in> set ns \<Longrightarrow> y = x \<or> (\<exists>ns'. (v, ns') \<in> set m \<and> y \<in> set ns')"
proof (induction m)
  case (Cons a m)
  obtain u ks where a: "a = (u, ks)" by (rule prod.exhaust)
  show ?case
  proof (cases "u = w")
    case True
    with Cons.prems have "(v, ns) = (u, List.insert x ks) \<or> (v, ns) \<in> set m" by (simp add: a)
    with Cons.prems(2) show ?thesis by (auto simp: a)
  next
    case False
    with Cons.prems have "(v, ns) = (u, ks) \<or> (v, ns) \<in> set (add_nth w x m)" by (simp add: a)
    with Cons.IH Cons.prems(2) show ?thesis by (auto simp: a)
  qed
qed simp

lemma nth_weekdays_from: "(w, ns) \<in> set (nth_weekdays xs) \<Longrightarrow> y \<in> set ns \<Longrightarrow> \<exists>v. (v, Some y) \<in> set xs"
proof (induction xs arbitrary: ns)
  case (Cons a xs)
  show ?case
  proof (cases "\<exists>k x. a = (Item k, Some x)")
    case True
    then obtain k x where a: "a = (Item k, Some x)" by blast
    then have "(w, ns) \<in> set (add_nth k x (nth_weekdays xs))" using Cons.prems(1) by (simp add: nth_weekdays_def)
    from add_nth_from [OF this Cons.prems(2)] Cons.IH show ?thesis by (auto simp: a)
  next
    case False
    then have "nth_weekdays (a # xs) = nth_weekdays xs" by (auto simp: nth_weekdays_def split: prod.split cron_item.split option.split)
    with Cons show ?thesis by auto
  qed
qed (simp add: nth_weekdays_def)

lemma field_ok_without_7: "field_ok 0 8 L \<Longrightarrow> Item 7 \<notin> set L \<Longrightarrow> field_ok 0 7 L"
proof -
  assume a: "field_ok 0 8 L" "Item 7 \<notin> set L"
  show ?thesis
  proof (cases "Star \<in> set L")
    case False
    with a have ok: "items_ok L" "\<forall>v\<in>set L. 0 \<le> item_value None v \<and> item_value None v < 8" by (auto simp: field_ok_def list_all_iff)
    have "item_value None v < 7" if "v \<in> set L" for v
    proof (cases v)
      case (Item k)
      with ok(2) a(2) that have "k < 8" "k \<noteq> 7" by auto
      with Item show ?thesis by simp
    qed (use ok(1) that in \<open>auto simp: items_ok_def list_all_iff\<close>)
    with ok show ?thesis by (simp add: field_ok_def list_all_iff)
  qed (simp add: field_ok_def)
qed

lemma expand_fields_ok:
  assumes "expand crc expr_format = Inr cr"
  shows "nth_ok cr \<and> (days_safe (cr_day cr) \<and> Item 7 \<notin> set (cr_dow cr) \<longrightarrow> cron_ok cr \<and> field_ok 0 7 (cr_dow cr))
    \<and> (cr_second cr = None \<longrightarrow> Item 7 \<notin> set (cr_dow cr))"
proof -
  define efl where "efl = (case map_of expr_aliases (map lower_char expr_format) of Some a \<Rightarrow> a | None \<Rightarrow> map lower_char expr_format)"
  define exprs where "exprs = seconds_first (split_space efl)"
  note run = assms [unfolded expand_def Let_def, folded efl_def, folded exprs_def]
  from run have n: "\<not> length exprs < 5" "\<not> 7 < length exprs" by (auto split: if_split_asm)
  then have c: "\<not> (length exprs < 5 \<or> 7 < length exprs)" by simp
  obtain fs where fs: "res_map (expand_field crc exprs) [0..<length exprs] = Inr fs"
    and cr: "cr = \<lparr>cr_minute = map fst fs ! 0, cr_hour = map fst fs ! 1, cr_day = map fst fs ! 2, cr_month = map fst fs ! 3, cr_dow = map fst fs ! 4,
       cr_second = (if length exprs > 5 then Some (map fst fs ! 5) else None), cr_year = (if length exprs > 6 then Some (map fst fs ! 6) else None),
       cr_nth = nth_weekdays (snd (fs ! 4))\<rparr>"
  proof -
    have tail: "(if P then Inl e else Inr y) = Inr z \<Longrightarrow> z = y" for P :: bool and e :: dbos_error and y z :: cron by (simp split: if_split_asm)
    from run [unfolded if_not_P [OF c] res_bind_Inr_iff] show thesis by (elim exE conjE) (rule that, assumption, rule tail, assumption)
  qed
  have len: "length fs = length exprs" and fld: "\<And>i. i < length exprs \<Longrightarrow> expand_field crc exprs i = Inr (fst (fs ! i), snd (fs ! i))"
    using fs by (auto simp: res_map_Inr_iff)
  have ex: "map fst fs ! i = fst (fs ! i)" if "i < length exprs" for i using that len by simp
  have ok: "field_ok (fst (RANGES ! i)) (snd (RANGES ! i) - fst (RANGES ! i) + 1) (map fst fs ! i)" if "i < length exprs" "i \<noteq> 2" for i
    unfolding ex [OF that(1)] by (rule expand_field_ok [OF fld [OF that(1)] that(2)])
  have nth: "nth_ok cr"
    unfolding nth_ok_def list_all_iff
  proof (clarify)
    fix w ns x
    assume "(w, ns) \<in> set (cr_nth cr)" and x: "x \<in> set ns"
    then have "(w, ns) \<in> set (nth_weekdays (snd (fs ! 4)))" by (simp add: cr)
    from nth_weekdays_from [OF this x] obtain v where "(v, Some x) \<in> set (snd (fs ! 4))" ..
    then have "nth_in (Some x)" using expand_field_in(4) [OF fld [of 4]] n by auto
    then show "case x of Nth k \<Rightarrow> 1 \<le> k | LastWeekday \<Rightarrow> True" by (auto simp: nth_in_def split: nth_weekday.split)
  qed
  have R: "RANGES ! 0 = (0, 59)" "RANGES ! 1 = (0, 23)" "RANGES ! 3 = (1, 12)" "RANGES ! 4 = (0, 7)" "RANGES ! 5 = (0, 59)" "RANGES ! 6 = (1970, 2099)"
    by (simp_all add: RANGES_def)
  have l: "0 < length exprs" "1 < length exprs" "3 < length exprs" "4 < length exprs" using n by linarith+
  have fields: "field_ok 0 60 (cr_minute cr)" "field_ok 0 24 (cr_hour cr)" "field_ok 1 12 (cr_month cr)" "field_ok 0 8 (cr_dow cr)"
    using ok [OF l(1)] ok [OF l(2)] ok [OF l(3)] ok [OF l(4)] unfolding R cr by simp_all
  have dow: "field_ok 0 7 (cr_dow cr)" if "Item 7 \<notin> set (cr_dow cr)" using fields(4) that by (rule field_ok_without_7)
  have "cron_ok cr" if safe: "days_safe (cr_day cr)" "Item 7 \<notin> set (cr_dow cr)"
  proof -
    have "year_ok cr" using ok [of 6] unfolding year_ok_def cr R by (auto simp: field_ok_def)
    moreover have "case cr_second cr of None \<Rightarrow> True | Some L \<Rightarrow> field_ok 0 60 L" using ok [of 5] unfolding cr R by simp
    moreover have "cr_day cr = fst (fs ! 2)" using ex [of 2] n by (simp add: cr)
    then have "day_list_ok (cr_day cr)" using expand_day_ok [OF fld [of 2]] n safe(1) by simp
    ultimately show ?thesis using fields(1-3) dow [OF safe(2)] nth by (simp add: cron_ok_def)
  qed
  moreover have "Item 7 \<notin> set (cr_dow cr)" if "cr_second cr = None"
  proof -
    have 5: "length exprs = 5" using that n by (auto simp: cr split: if_splits)
    then show ?thesis using expand_field_in(3) [OF fld [of 4], of "Item 7"] ex [of 4] by (auto simp: cr item_in_def)
  qed
  ultimately show ?thesis using nth dow by blast
qed

text \<open>
  C38: A cron expression that the parser accepts has, in every field, a sorted list of values that the field can have, so that the
  search of the iterator is correct for it, except for two shapes that it also accepts: a day of the week 7 in an expression with
  a seconds field, and day lists that jump over a match. Expressions with five fields never keep the 7.
\<close>

theorem expand_accepted:
  assumes "expand crc expr_format = Inr cr"
  shows "nth_ok cr \<and> (days_safe (cr_day cr) \<and> Item 7 \<notin> set (cr_dow cr) \<longrightarrow> cron_ok cr \<and> field_ok 0 7 (cr_dow cr))
    \<and> (cr_second cr = None \<longrightarrow> Item 7 \<notin> set (cr_dow cr))"
  using assms by (rule expand_fields_ok)

theorem expand_accepted_witness:
  "expand (\<lambda>_. 0) ''0 30 9 1,L * *'' = Inr first_and_last \<and> cron_ok first_and_last \<and> field_ok 0 7 (cr_dow first_and_last)"
proof -
  have e: "expand (\<lambda>_. 0) ''0 30 9 1,L * *'' = Inr first_and_last" by code_simp
  have "days_safe (cr_day first_and_last) \<and> Item 7 \<notin> set (cr_dow first_and_last)" by code_simp
  with expand_accepted [OF e] e show ?thesis by blast
qed

text \<open>Sundays as 7 are accepted with a seconds field and kept; the search then misses them.\<close>

lemma sunday_7_accepted:
  "expand (\<lambda>_. 0) ''0 30 9 * * 5-7'' = Inr (first_and_last\<lparr>cr_day := [Star], cr_dow := [Item 5, Item 6, Item 7]\<rparr>)"
  by code_simp

lemma sunday_7_mapped: "expand (\<lambda>_. 0) ''30 9 * * 5-7'' =
   Inr (first_and_last\<lparr>cr_day := [Star], cr_dow := [Item 0, Item 5, Item 6], cr_second := None\<rparr>)"
  by code_simp

end
