(* ===== verification/DBOS_Cron_Backfill.thy ===== *)
theory DBOS_Cron_Backfill
  imports DBOS_Schedules DBOS_Cron_Expand
begin

text \<open>
  The backfill of a schedule (\<^verbatim>\<open>dbos/_scheduler.py\<close>) over the cron iterator (\<^verbatim>\<open>dbos/_croniter.py\<close>) as it is: what is enqueued
  is what the expression says, not only what the iterator gives.
\<close>

lemma backfill_loop_asked:
  assumes inc: "\<And>x y. nxt x = Inr y \<Longrightarrow> x < y"
    and run: "backfill_loop nxt id_of one clock end_time t ids db = Some (Inr ids', db')"
    and u: "u = t \<or> cron_tick nxt t u \<and> u < end_time"
  shows "\<exists>v. nxt u = Inr v"
  using run u
proof (induction "nat (end_time - t)" arbitrary: t ids db rule: less_induct)
  case less
  from less.prems(1) obtain t' where t': "nxt t = Inr t'"
    by (cases "nxt t") (simp_all add: backfill_loop.simps)
  show ?case
  proof (cases "u = t")
    case False
    with less.prems(2) have tick: "u = t' \<or> cron_tick nxt t' u" "u < end_time" using cron_tick_shift [of nxt, OF t'] by blast+
    with cron_tick_increases [of nxt, OF inc] have lt: "t' < end_time" by force
    with less.prems(1) t' obtain db1 where "backfill_loop nxt id_of one clock end_time t' (ids @ [id_of t']) db1 = Some (Inr ids', db')"
      by (subst (asm) backfill_loop.simps) (auto split: prod.splits sum.splits)
    moreover from inc [OF t'] lt have "nat (end_time - t') < nat (end_time - t)" by simp
    ultimately show ?thesis using less.hyps tick by blast
  qed (use t' in blast)
qed

text \<open>An iterator that gives the first time at which a predicate holds ticks at exactly these times.\<close>

lemma cron_tick_iff:
  assumes nx: "\<And>t u. start \<le> t \<Longrightarrow> nxt t = Inr u \<Longrightarrow> t < u \<and> P u \<and> (\<forall>v. t < v \<and> v < u \<longrightarrow> \<not> P v)"
    and asked: "\<And>t. t = start \<or> cron_tick nxt start t \<and> t < end_time \<Longrightarrow> \<exists>u. nxt t = Inr u" and u: "u < end_time"
  shows "cron_tick nxt start u \<longleftrightarrow> start < u \<and> P u"
proof
  have tick: "start < t \<and> P t" if "cron_tick nxt start t" for t
    using that
  proof induction
    case (first u)
    with nx [of start u] show ?case by simp
  next
    case (later u v)
    with nx [of u v] show ?case by simp
  qed
  then show "start < u \<and> P u" if "cron_tick nxt start u" using that by blast
  assume a: "start < u \<and> P u"
  have "cron_tick nxt start u" if "t = start \<or> cron_tick nxt start t" "t < u" for t
    using that
  proof (induction "nat (u - t)" arbitrary: t rule: less_induct)
    case less
    from asked [of t] less.prems u obtain t' where t': "nxt t = Inr t'" by force
    have st: "start \<le> t" using less.prems(1) tick by force
    have n: "cron_tick nxt start t'" using less.prems(1) t' by (auto intro: cron_tick.intros)
    have le: "t' \<le> u" using nx [OF st t'] a less.prems(2) by force
    show ?case
    proof (cases "t' = u")
      case False
      with le nx [OF st t'] n less.hyps [of t'] show ?thesis by simp
    qed (use n in simp)
  qed
  with a show "cron_tick nxt start u" by blast
qed

text \<open>
  C40: In a time zone with a fixed offset, a backfill of a schedule always returns. When it succeeds it returns the IDs of exactly
  the times strictly between start and end at which the schedule's cron expression fires, each once; each of them has a row
  afterwards, existing rows are kept, no other workflow changes, and repeating the backfill at any later time returns the same
  IDs and changes nothing. The expression is parsed and iterated as the library does it, from a start in 1970 or later (of
  earlier times the iterator is only assumed to go forward). Its day list must be \<open>days_safe\<close>, one that does not jump over a
  match (on days 1 and 30 the iterator skips March 1, \<open>march_first_missed\<close>), and it must not write Sunday as 7 with a seconds
  field.
\<close>

theorem backfill_schedule_fires:
  assumes s: "get_schedule name db = Some s"
    and cron: "croniter (sc_schedule s) (schedule_tz s) = Inr nxt"
    and iter: "\<And>t. 0 \<le> t + off \<Longrightarrow> get_next add off cr t = Some (nxt t)" "\<And>t u. t + off < 0 \<Longrightarrow> nxt t = Inr u \<Longrightarrow> t < u"
    and law: "relativedelta_law add" and accepted: "expand crc (sc_schedule s) = Inr cr"
    and safe: "days_safe (cr_day cr)" "Item 7 \<notin> set (cr_dow cr)" and start: "0 \<le> start + off"
  shows "\<exists>r db'. backfill_schedule croniter sz isofmt clock name start end_time db = Some (r, db')
    \<and> (\<forall>ids. r = Inr ids \<longrightarrow>
        (\<exists>ts. ids = map (occurrence_id isofmt (schedule_tz s) name) ts \<and> distinct ts
          \<and> set ts = {u. start < u \<and> u < end_time \<and> fires cr off u})
      \<and> (\<forall>wid \<in> set ids. status_row db' wid \<noteq> None)
      \<and> (\<forall>wid r. status_row db wid = Some r \<longrightarrow> status_row db' wid = Some r)
      \<and> (\<forall>wid. wid \<notin> set ids \<longrightarrow> status_row db' wid = status_row db wid)
      \<and> (\<forall>clock'. backfill_schedule croniter sz isofmt clock' name start end_time db' = Some (Inr ids, db')))"
proof -
  have ok: "cron_ok cr" "nth_ok cr" "field_ok 0 7 (cr_dow cr)" using expand_fields_ok [OF accepted] safe by blast+
  have first: "t < u \<and> fires cr off u \<and> (\<forall>v. t < v \<and> v < u \<longrightarrow> \<not> fires cr off v)" if "0 \<le> t + off" "nxt t = Inr u" for t u
    by (rule get_next_cases [OF law ok that(1)]) (use iter(1) [OF that(1)] that(2) in auto)
  have inc: "x < y" if "nxt x = Inr y" for x y using first [of x y] iter(2) [of x y] that by force
  have ticks: "cron_tick nxt start u \<and> u < end_time \<longleftrightarrow> start < u \<and> u < end_time \<and> fires cr off u"
    if run: "backfill_schedule croniter sz isofmt clock name start end_time db = Some (Inr ids, db')" for ids db' u
  proof -
    from run obtain ctx where loop: "backfill_loop nxt (occurrence_id isofmt (schedule_tz s) (sc_schedule_name s))
        (backfill_one sz isofmt s ctx) clock end_time start [] db = Some (Inr ids, db')"
      by (auto simp: backfill_schedule_def s cron split: sum.split_asm)
    have first': "t < u \<and> fires cr off u \<and> (\<forall>v. t < v \<and> v < u \<longrightarrow> \<not> fires cr off v)" if "start \<le> t" "nxt t = Inr u" for t u
      using first [of t u] that start by simp
    have "cron_tick nxt start u \<longleftrightarrow> start < u \<and> fires cr off u" if "u < end_time"
      by (rule cron_tick_iff [where P = "fires cr off", OF first' backfill_loop_asked [OF inc loop] that])
    then show ?thesis by blast
  qed
  from backfill_schedule_exactly_once [where croniter = croniter and sz = sz and isofmt = isofmt and clock = clock and start = start
      and end_time = end_time, OF s cron inc]
  obtain r db' where r: "backfill_schedule croniter sz isofmt clock name start end_time db = Some (r, db')"
    and once: "\<And>ids. r = Inr ids \<Longrightarrow>
        (\<exists>ts. ids = map (occurrence_id isofmt (schedule_tz s) name) ts \<and> distinct ts
          \<and> (\<forall>u. u \<in> set ts \<longleftrightarrow> cron_tick nxt start u \<and> u < end_time))
      \<and> (\<forall>wid \<in> set ids. status_row db' wid \<noteq> None)
      \<and> (\<forall>wid r. status_row db wid = Some r \<longrightarrow> status_row db' wid = Some r)
      \<and> (\<forall>wid. wid \<notin> set ids \<longrightarrow> status_row db' wid = status_row db wid)
      \<and> (\<forall>clock'. backfill_schedule croniter sz isofmt clock' name start end_time db' = Some (Inr ids, db'))" by blast
  have fired: "\<exists>ts. ids = map (occurrence_id isofmt (schedule_tz s) name) ts \<and> distinct ts
      \<and> set ts = {u. start < u \<and> u < end_time \<and> fires cr off u}" if ids: "r = Inr ids" for ids
  proof -
    from once [OF ids] obtain ts where ts: "ids = map (occurrence_id isofmt (schedule_tz s) name) ts" "distinct ts"
      "\<forall>u. u \<in> set ts \<longleftrightarrow> cron_tick nxt start u \<and> u < end_time" by blast
    with ticks [OF r [unfolded ids]] show ?thesis by (intro exI [of _ ts]) auto
  qed
  show ?thesis by (rule exI [of _ r], rule exI [of _ db']) (use r once fired in blast)
qed

text \<open>A backfill of the example schedule over February 1970, at 9:30 on the first and the last day of the month.\<close>

definition monthly_schedule :: workflow_schedule_row where
  "monthly_schedule = example_schedule\<lparr>sc_schedule := ''0 30 9 1,L * *''\<rparr>"

definition monthly_schedule_db :: sysdb where
  "monthly_schedule_db = example_schedule_db\<lparr>workflow_schedules := [monthly_schedule]\<rparr>"

theorem backfill_schedule_fires_witness:
  "\<exists>ids db'. backfill_schedule (\<lambda>_ _. Inr (\<lambda>t. if 0 \<le> t then the (get_next add_relativedelta 0 first_and_last t) else Inl CroniterBadDateError))
      \<lparr>ser_name = ''c'', ser_serialize = (\<lambda>_. Inr ''in''), ser_deserialize = (\<lambda>_. Inr PNone)\<rparr> (\<lambda>_ _. ''T'') (\<lambda>_. 5) ''job''
      2774400 5045401 monthly_schedule_db = Some (Inr ids, db')
    \<and> (\<exists>ts. ids = map (\<lambda>_. ''sched-job-T'') ts \<and> distinct ts \<and> set ts = {u. 2774400 < u \<and> u < 5045401 \<and> fires first_and_last 0 u})"
proof -
  let ?sz = "\<lparr>ser_name = ''c'', ser_serialize = (\<lambda>_. Inr ''in''), ser_deserialize = (\<lambda>_. Inr PNone)\<rparr>"
  let ?nxt = "\<lambda>t. if 0 \<le> t then the (get_next add_relativedelta 0 first_and_last t) else Inl CroniterBadDateError"
  have ok: "cron_ok first_and_last" "nth_ok first_and_last" "field_ok 0 7 (cr_dow first_and_last)" by code_simp+
  have tot: "get_next add_relativedelta 0 first_and_last t = Some (?nxt t)" if "0 \<le> t + 0" for t
    by (rule get_next_cases [OF add_relativedelta_law ok that]) (use that in simp_all)
  have s: "get_schedule ''job'' monthly_schedule_db = Some monthly_schedule"
    by (simp add: get_schedule_def monthly_schedule_db_def monthly_schedule_def example_schedule_def)
  have e: "expand (\<lambda>_. 0) (sc_schedule monthly_schedule) = Inr first_and_last" by code_simp
  have safe: "days_safe (cr_day first_and_last)" "Item 7 \<notin> set (cr_dow first_and_last)" by code_simp+
  have n: "?nxt 2774400 = Inr 5045400" "?nxt 5045400 = Inr 5131800" by code_simp+
  have r: "\<exists>db'. backfill_schedule (\<lambda>_ _. Inr ?nxt) ?sz (\<lambda>_ _. ''T'') (\<lambda>_. 5) ''job'' 2774400 5045401 monthly_schedule_db
      = Some (Inr [''sched-job-T''], db')"
    by (simp add: backfill_schedule_def get_schedule_def backfill_loop.simps n [simplified] backfill_one_def enqueue_scheduled_workflow_def
        get_latest_application_version_def list_application_versions_def monthly_schedule_db_def monthly_schedule_def example_schedule_db_def example_schedule_def
        occurrence_id_def schedule_tz_def get_workflow_status_None_iff status_row_def empty_sysdb_def
        init_workflow_def insert_workflow_status_def upsert_status_row_def workflow_ids_def insert_status_row_def
        new_status_row_def scheduled_status_def dedup_key_def name_conflict_def engine_begin_def)
  from backfill_schedule_fires [OF s, where croniter = "\<lambda>_ _. Inr ?nxt" and nxt = ?nxt and off = 0 and start = 2774400 and end_time = 5045401
      and isofmt = "\<lambda>_ _. ''T''" and sz = ?sz and clock = "\<lambda>_. 5", OF refl tot _ add_relativedelta_law e safe]
  obtain x db' where x: "backfill_schedule (\<lambda>_ _. Inr ?nxt) ?sz (\<lambda>_ _. ''T'') (\<lambda>_. 5) ''job'' 2774400 5045401 monthly_schedule_db = Some (x, db')"
    and ts: "\<And>ids. x = Inr ids \<Longrightarrow> \<exists>ts. ids = map (occurrence_id (\<lambda>_ _. ''T'') (schedule_tz monthly_schedule) ''job'') ts \<and> distinct ts
      \<and> set ts = {u. 2774400 < u \<and> u < 5045401 \<and> fires first_and_last 0 u}" by auto
  from x r have xi: "x = Inr [''sched-job-T'']" by auto
  show ?thesis using x [unfolded xi] ts [OF xi] unfolding occurrence_id_def by auto
qed

end
