(* ===== verification/DBOS_Schedule_Thread.thy ===== *)
theory DBOS_Schedule_Thread
  imports DBOS_Cron_Backfill
begin

text \<open>
  The thread of a schedule (\<^verbatim>\<open>_ScheduleThread._loop\<close> of \<^verbatim>\<open>dbos/_scheduler.py\<close>): it waits for the next time of its cron
  expression, enqueues the workflow of that time and records the time. Several executors run a thread for the same schedule. The
  lemmas show that a thread fires at the times of its expression, in order and without gaps, and that the threads together enqueue
  one workflow per time.
\<close>

section \<open>The loop\<close>

text \<open>The bounds of the random jitter; times in seconds.\<close>

definition sleep_time :: "rat \<Rightarrow> rat \<Rightarrow> rat" where
  "sleep_time next_exec_time now = max 0 (next_exec_time - now)"

definition max_jitter :: "rat \<Rightarrow> rat" where
  "max_jitter sleep = min (sleep / 10) 10"

text \<open>What happens at a time: an error is logged and the time is not recorded.\<close>

definition fire_schedule ::
  "Serializer \<Rightarrow> (string option \<Rightarrow> int \<Rightarrow> string) \<Rightarrow> workflow_schedule_row \<Rightarrow> pyval \<Rightarrow> int \<Rightarrow> int \<Rightarrow> sysdb \<Rightarrow> sysdb" where
  "fire_schedule sz isofmt s ctx t now db = (case backfill_one sz isofmt s ctx t now db of
     (Inl e, db') \<Rightarrow> db'
   | (Inr _, db') \<Rightarrow> update_last_fired_at (sc_schedule_name s) (isofmt (schedule_tz s) (usecs t)) db')"

text \<open>
  A round: whether the thread is stopped before it asks for the next time, or while it waits; and the database and the clock when it
  wakes up. The call of the iterator is not inside the \<^verbatim>\<open>try\<close>: its error ends the thread.
\<close>

record firing_round =
  fr_stopped :: bool
  fr_stopped_waiting :: bool
  fr_db :: sysdb
  fr_now :: int

datatype thread_end = Stopped | Died dbos_error | Waiting

fun thread_loop ::
  "(int \<Rightarrow> int res) \<Rightarrow> (int \<Rightarrow> int \<Rightarrow> sysdb \<Rightarrow> sysdb) \<Rightarrow> firing_round list \<Rightarrow> int \<Rightarrow> (int \<times> sysdb) list \<times> thread_end" where
  "thread_loop nxt fire [] t = ([], Waiting)"
| "thread_loop nxt fire (r # rs) t =
     (if fr_stopped r then ([], Stopped)
      else case nxt t of
        Inl e \<Rightarrow> ([], Died e)
      | Inr u \<Rightarrow>
          if fr_stopped_waiting r then ([], Stopped)
          else let (out, e) = thread_loop nxt fire rs u in ((u, fire u (fr_now r) (fr_db r)) # out, e))"

text \<open>The thread of a schedule: an expression that the iterator does not accept is logged and ends it.\<close>

definition schedule_thread ::
  "(string \<Rightarrow> string option \<Rightarrow> (int \<Rightarrow> int res) res) \<Rightarrow> Serializer \<Rightarrow> (string option \<Rightarrow> int \<Rightarrow> string) \<Rightarrow> workflow_schedule_row \<Rightarrow> pyval
   \<Rightarrow> int \<Rightarrow> firing_round list \<Rightarrow> (int \<times> sysdb) list \<times> thread_end" where
  "schedule_thread croniter sz isofmt s ctx start rounds = (case croniter (sc_schedule s) (schedule_tz s) of
     Inl e \<Rightarrow> ([], Stopped)
   | Inr nxt \<Rightarrow> thread_loop nxt (fire_schedule sz isofmt s ctx) rounds start)"

section \<open>What it does\<close>

lemma jitter_bounds: "0 \<le> sleep_time u now" "0 \<le> max_jitter (sleep_time u now)" "max_jitter (sleep_time u now) \<le> 10"
  "10 * max_jitter (sleep_time u now) \<le> sleep_time u now"
  by (auto simp: sleep_time_def max_jitter_def min_def max_def)

text \<open>The times are in order, and none at which the predicate holds is left out before the last one.\<close>

lemma thread_loop_times:
  assumes nx: "\<And>t u. start \<le> t \<Longrightarrow> nxt t = Inr u \<Longrightarrow> t < u \<and> P u \<and> (\<forall>v. t < v \<and> v < u \<longrightarrow> \<not> P v)"
    and "start \<le> t" "thread_loop nxt fire rounds t = (out, e)"
  shows "sorted_wrt (<) (map fst out) \<and> (\<forall>u \<in> set (map fst out). t < u \<and> P u)
    \<and> (\<forall>u v. v \<in> set (map fst out) \<and> t < u \<and> u \<le> v \<and> P u \<longrightarrow> u \<in> set (map fst out))"
  using assms(2,3)
proof (induction rounds arbitrary: t out e)
  case (Cons r rs)
  show ?case
  proof (cases "\<exists>u. nxt t = Inr u \<and> \<not> fr_stopped r \<and> \<not> fr_stopped_waiting r")
    case False
    with Cons.prems(2) have "out = []" by (auto split: if_splits sum.split_asm)
    then show ?thesis by simp
  next
    case True
    then obtain u where u: "nxt t = Inr u" "\<not> fr_stopped r" "\<not> fr_stopped_waiting r" by blast
    obtain out' e' where rec: "thread_loop nxt fire rs u = (out', e')" by (rule prod.exhaust)
    with Cons.prems(2) u have out: "out = (u, fire u (fr_now r) (fr_db r)) # out'" by simp
    note first = nx [OF Cons.prems(1) u(1)]
    have "start \<le> u" using first Cons.prems(1) by simp
    from Cons.IH [OF this rec] have ih: "sorted_wrt (<) (map fst out')" "\<forall>x \<in> set (map fst out'). u < x \<and> P x"
      "\<forall>x v. v \<in> set (map fst out') \<and> u < x \<and> x \<le> v \<and> P x \<longrightarrow> x \<in> set (map fst out')" by blast+
    have "x = u \<or> x \<in> set (map fst out')" if "v = u \<or> v \<in> set (map fst out')" "t < x" "x \<le> v" "P x" for x v
    proof (cases "x \<le> u")
      case True
      with first that(2,4) show ?thesis by force
    next
      case False
      with that have "v \<in> set (map fst out')" "u < x" by auto
      with ih(3) that(3,4) show ?thesis by blast
    qed
    moreover have "\<forall>x \<in> set (map fst out'). t < x \<and> P x" using ih(2) first by fastforce
    ultimately show ?thesis using ih(1,2) first by (simp add: out) blast
  qed
qed simp

text \<open>A time that has its workflow is fired again without effect: the threads of several executors enqueue it once.\<close>

lemma status_row_last_fired: "status_row (update_last_fired_at name x db) wid = status_row db wid"
  by (simp add: update_last_fired_at_def update_schedules_def status_row_def)

lemma update_last_fired_twice: "update_last_fired_at name x (update_last_fired_at name x db) = update_last_fired_at name x db"
  by (simp add: update_last_fired_at_def update_schedules_def sql_update_def comp_def)

lemma fire_schedule_once:
  assumes "backfill_one sz isofmt s ctx t now db = (Inr u, db')"
  shows "fire_schedule sz isofmt s ctx t now' (fire_schedule sz isofmt s ctx t now db) = fire_schedule sz isofmt s ctx t now db"
    "status_row (fire_schedule sz isofmt s ctx t now db) (occurrence_id isofmt (schedule_tz s) (sc_schedule_name s) t) \<noteq> None"
proof -
  have f: "fire_schedule sz isofmt s ctx t now db = update_last_fired_at (sc_schedule_name s) (isofmt (schedule_tz s) (usecs t)) db'"
    by (simp add: fire_schedule_def assms)
  show row: "status_row (fire_schedule sz isofmt s ctx t now db) (occurrence_id isofmt (schedule_tz s) (sc_schedule_name s) t) \<noteq> None"
    unfolding f status_row_last_fired by (rule backfilling.one_row [OF assms])
  show "fire_schedule sz isofmt s ctx t now' (fire_schedule sz isofmt s ctx t now db) = fire_schedule sz isofmt s ctx t now db"
    using backfilling.one_skips [OF row] by (simp add: fire_schedule_def [of _ _ _ _ _ now'] f update_last_fired_twice)
qed

text \<open>
  The thread of a schedule in a zone with a fixed offset: it fires at the times at which its expression fires after the start, in
  order and without gaps, for as many rounds as it runs.
\<close>

theorem schedule_thread_fires:
  assumes cron: "croniter (sc_schedule s) (schedule_tz s) = Inr nxt"
    and iter: "\<And>t. 0 \<le> t + off \<Longrightarrow> get_next add off cr t = Some (nxt t)"
    and law: "relativedelta_law add" and accepted: "expand crc (sc_schedule s) = Inr cr"
    and safe: "days_safe (cr_day cr)" "Item 7 \<notin> set (cr_dow cr)" and start: "0 \<le> start + off"
    and run: "schedule_thread croniter sz isofmt s ctx start rounds = (out, e)"
  shows "sorted_wrt (<) (map fst out) \<and> (\<forall>u \<in> set (map fst out). start < u \<and> fires cr off u)
    \<and> (\<forall>u v. v \<in> set (map fst out) \<and> start < u \<and> u \<le> v \<and> fires cr off u \<longrightarrow> u \<in> set (map fst out))"
proof (rule thread_loop_times [where P = "fires cr off" and start = start])
  have ok: "cron_ok cr" "nth_ok cr" "field_ok 0 7 (cr_dow cr)" using expand_fields_ok [OF accepted] safe by blast+
  show "t < u \<and> fires cr off u \<and> (\<forall>v. t < v \<and> v < u \<longrightarrow> \<not> fires cr off v)" if "start \<le> t" "nxt t = Inr u" for t u
  proof -
    have t: "0 \<le> t + off" using that(1) start by simp
    show ?thesis by (rule get_next_cases [OF law ok t]) (use iter [OF t] that(2) in auto)
  qed
  show "thread_loop nxt (fire_schedule sz isofmt s ctx) rounds start = (out, e)" using run by (simp add: schedule_thread_def cron)
qed simp

end
