(* ===== verification/DBOS_Migrations.thy ===== *)
theory DBOS_Migrations
  imports DBOS_Context
begin

text \<open>
  The migrations of the system database (\<^verbatim>\<open>dbos/_migration.py\<close> and \<^verbatim>\<open>run_migrations\<close> of \<^verbatim>\<open>dbos/_sys_db_postgres.py\<close>): an ordered
  list of statements, each applied in a transaction of its own that also records its number, except for those that build or drop
  indexes online, which run outside a transaction and are recorded afterwards. The order of these commits is the list \<open>effects\<close>, and
  the databases that a stopped process leaves are computed from it. The lemmas show that a run that is interrupted anywhere, any
  number of times, is completed by the next one, with the same result.
\<close>

section \<open>The database\<close>

text \<open>
  The catalog is what the migrations change: the indexes, each valid or not, and the rest. The online migrations are modelled with
  what they do to the indexes; what the server does with the other texts is a parameter (\<open>sv_exec\<close>), which in a transaction
  succeeds or leaves the catalog alone, and so is whether the rows allow an index to be built (\<open>sv_build\<close>, an error or none).
\<close>

record 'c catalog =
  ca_indexes :: "(string \<times> bool) list"
  ca_rest :: 'c

record 'c migdb =
  mg_schema :: bool
  mg_table :: bool
  mg_versions :: "nat list"
  mg_catalog :: "'c catalog"

record 'c server =
  sv_cockroach :: bool
  sv_exec :: "string \<Rightarrow> 'c catalog \<Rightarrow> 'c catalog res"
  sv_build :: "string \<Rightarrow> 'c \<Rightarrow> dbos_error option"
  sv_notifications_pk :: "'c catalog \<Rightarrow> bool"

datatype ddl = CreateIndex string | DropIndex string

datatype migration = Sql string | Ddl ddl

definition ONLINE_MIGRATIONS :: "nat list" where
  "ONLINE_MIGRATIONS = [22, 23, 24, 25, 26, 27, 29, 30, 31, 32, 34, 35, 37]"

text \<open>The statements of the online migrations, \<^verbatim>\<open>CREATE INDEX CONCURRENTLY IF NOT EXISTS\<close> and \<^verbatim>\<open>DROP INDEX CONCURRENTLY IF EXISTS\<close>, by index name.\<close>

definition online_ddl :: "(nat \<times> ddl) list" where
  "online_ddl = [
     (22, DropIndex ''idx_workflow_status_forked_from''),
     (23, CreateIndex ''idx_workflow_status_forked_from''),
     (24, DropIndex ''idx_workflow_status_parent_workflow_id''),
     (25, CreateIndex ''idx_workflow_status_parent_workflow_id''),
     (26, DropIndex ''workflow_status_executor_id_index''),
     (27, CreateIndex ''uq_workflow_status_dedup_id''),
     (29, CreateIndex ''idx_workflow_status_pending''),
     (30, CreateIndex ''idx_workflow_status_failed''),
     (31, DropIndex ''workflow_status_status_index''),
     (32, CreateIndex ''idx_workflow_status_in_flight''),
     (34, CreateIndex ''idx_workflow_status_rate_limited''),
     (35, DropIndex ''idx_workflow_status_queue_status_started''),
     (37, CreateIndex ''idx_workflow_status_started_at'')]"

text \<open>The list of migrations, with the texts of the others as an argument.\<close>

definition get_dbos_migrations :: "(nat \<Rightarrow> string) \<Rightarrow> migration list" where
  "get_dbos_migrations texts = map (\<lambda>i. case map_of online_ddl i of Some d \<Rightarrow> Ddl d | None \<Rightarrow> Sql (texts i)) [1..<43]"

section \<open>Online index statements\<close>

definition drop_named :: "string list \<Rightarrow> 'c catalog \<Rightarrow> 'c catalog" where
  "drop_named names c = c\<lparr>ca_indexes := filter (\<lambda>x. fst x \<notin> set names) (ca_indexes c)\<rparr>"

definition add_index :: "string \<Rightarrow> bool \<Rightarrow> 'c catalog \<Rightarrow> 'c catalog" where
  "add_index name valid c = c\<lparr>ca_indexes := ca_indexes c @ [(name, valid)]\<rparr>"

definition invalidate :: "string \<Rightarrow> 'c catalog \<Rightarrow> 'c catalog" where
  "invalidate name c = c\<lparr>ca_indexes := map (\<lambda>(n, valid). (n, valid \<and> n \<noteq> name)) (ca_indexes c)\<rparr>"

text \<open>
  A statement and its effect. An index that exists, valid or not, is not built again; a build that fails leaves an invalid index.
  A statement that is interrupted leaves an invalid index too (\<open>ddl_partial\<close>).
\<close>

fun exec_ddl :: "'c server \<Rightarrow> ddl \<Rightarrow> 'c catalog \<Rightarrow> unit res \<times> 'c catalog" where
  "exec_ddl sv (CreateIndex name) c =
     (if name \<in> fst ` set (ca_indexes c) then (Inr (), c)
      else case sv_build sv name (ca_rest c) of
        None \<Rightarrow> (Inr (), add_index name True c)
      | Some e \<Rightarrow> (Inl e, add_index name False c))"
| "exec_ddl sv (DropIndex name) c = (Inr (), drop_named [name] c)"

fun ddl_partial :: "ddl \<Rightarrow> 'c catalog \<Rightarrow> 'c catalog list" where
  "ddl_partial (CreateIndex name) c = (if name \<in> fst ` set (ca_indexes c) then [] else [add_index name False c])"
| "ddl_partial (DropIndex name) c = [invalidate name c]"

text \<open>\<^verbatim>\<open>_cleanup_invalid_indexes\<close>: the invalid indexes are read and dropped one after the other.\<close>

definition invalid_names :: "'c catalog \<Rightarrow> string list" where
  "invalid_names c = map fst (filter (\<lambda>(n, valid). \<not> valid) (ca_indexes c))"

definition cleanup_invalid_indexes :: "'c catalog \<Rightarrow> 'c catalog" where
  "cleanup_invalid_indexes c = foldl (\<lambda>c n. drop_named [n] c) c (invalid_names c)"

definition cleanup_partial :: "'c catalog \<Rightarrow> 'c catalog list" where
  "cleanup_partial c = map (\<lambda>k. foldl (\<lambda>c n. drop_named [n] c) c (take k (invalid_names c))) [0..<length (invalid_names c)]"

fun split_semicolon :: "string \<Rightarrow> string list" where
  "split_semicolon [] = [[]]"
| "split_semicolon (x # xs) = (let r = split_semicolon xs in if x = CHR '';'' then [] # r else (x # hd r) # tl r)"

section \<open>The run\<close>

text \<open>The table has its version as primary key.\<close>

definition bump_migration_version :: "nat \<Rightarrow> nat \<Rightarrow> 'c migdb \<Rightarrow> 'c migdb res" where
  "bump_migration_version version last_applied db =
     (if last_applied = 0
      then (if version \<in> set (mg_versions db) then Inl UniqueViolation else Inr (db\<lparr>mg_versions := mg_versions db @ [version]\<rparr>))
      else if length (mg_versions db) > 1 then Inl UniqueViolation
      else Inr (db\<lparr>mg_versions := map (\<lambda>_. version) (mg_versions db)\<rparr>))"

definition current_version :: "'c migdb \<Rightarrow> nat" where
  "current_version db = (case mg_versions db of [] \<Rightarrow> 0 | v # _ \<Rightarrow> v)"

definition should_migrate :: "'m list \<Rightarrow> 'c migdb \<Rightarrow> bool" where
  "should_migrate migrations db \<longleftrightarrow> \<not> mg_schema db \<or> \<not> mg_table db \<or> current_version db < length migrations"

definition ensure_dbos_schema :: "'c migdb \<Rightarrow> 'c migdb" where
  "ensure_dbos_schema db = (let db1 = db\<lparr>mg_schema := True\<rparr> in
     if mg_table db1 then db1 else db1\<lparr>mg_table := True, mg_versions := []\<rparr>)"

definition is_online :: "'c server \<Rightarrow> nat \<Rightarrow> bool" where
  "is_online sv i \<longleftrightarrow> i \<in> set ONLINE_MIGRATIONS \<and> \<not> sv_cockroach sv"

text \<open>
  The commits that applying a migration makes, in their order: only the number is recorded if the text is blank; an online migration
  cleans up, runs its statement with autocommit and then records its number; any other runs and records its number in one transaction.
\<close>

datatype effect = Cleanup | Autocommit migration | Bump | Transaction migration

fun effects :: "'c server \<Rightarrow> nat \<Rightarrow> migration \<Rightarrow> effect list" where
  "effects sv i m =
     (if (case m of Sql text \<Rightarrow> is_blank text | Ddl _ \<Rightarrow> False) then [Bump]
      else if is_online sv i then [Cleanup, Autocommit m, Bump]
      else [Transaction m])"

fun execute :: "'c server \<Rightarrow> migration \<Rightarrow> 'c catalog \<Rightarrow> unit res \<times> 'c catalog" where
  "execute sv (Sql text) c = (case sv_exec sv text c of Inl e \<Rightarrow> (Inl e, c) | Inr c' \<Rightarrow> (Inr (), c'))"
| "execute sv (Ddl d) c = exec_ddl sv d c"

fun run_effect :: "'c server \<Rightarrow> nat \<Rightarrow> nat \<Rightarrow> effect \<Rightarrow> 'c migdb \<Rightarrow> unit res \<times> 'c migdb" where
  "run_effect sv i last_applied Cleanup db = (Inr (), db\<lparr>mg_catalog := cleanup_invalid_indexes (mg_catalog db)\<rparr>)"
| "run_effect sv i last_applied (Autocommit m) db = (case execute sv m (mg_catalog db) of (r, c) \<Rightarrow> (r, db\<lparr>mg_catalog := c\<rparr>))"
| "run_effect sv i last_applied Bump db =
     (case bump_migration_version i last_applied db of Inl e \<Rightarrow> (Inl e, db) | Inr db' \<Rightarrow> (Inr (), db'))"
| "run_effect sv i last_applied (Transaction m) db =
     (case (if i = 10 \<and> sv_notifications_pk sv (mg_catalog db) then (Inr (), mg_catalog db) else execute sv m (mg_catalog db)) of
        (Inl e, c) \<Rightarrow> (Inl e, db)
      | (Inr _, c) \<Rightarrow> (case bump_migration_version i last_applied (db\<lparr>mg_catalog := c\<rparr>) of
          Inl e \<Rightarrow> (Inl e, db)
        | Inr db' \<Rightarrow> (Inr (), db')))"

text \<open>The databases inside an effect that is not a transaction.\<close>

fun effect_partial :: "effect \<Rightarrow> 'c migdb \<Rightarrow> 'c migdb list" where
  "effect_partial Cleanup db = map (\<lambda>c. db\<lparr>mg_catalog := c\<rparr>) (cleanup_partial (mg_catalog db))"
| "effect_partial (Autocommit m) db = (case m of Sql _ \<Rightarrow> [] | Ddl d \<Rightarrow> map (\<lambda>c. db\<lparr>mg_catalog := c\<rparr>) (ddl_partial d (mg_catalog db)))"
| "effect_partial Bump db = []"
| "effect_partial (Transaction m) db = []"

text \<open>
  Effects in their order: the result, and the databases that a process leaves when it stops before an effect, inside it, or where one
  raises.
\<close>

fun run_effects :: "'c server \<Rightarrow> nat \<Rightarrow> nat \<Rightarrow> effect list \<Rightarrow> 'c migdb \<Rightarrow> (unit res \<times> 'c migdb) \<times> 'c migdb list" where
  "run_effects sv i last_applied [] db = ((Inr (), db), [])"
| "run_effects sv i last_applied (e # es) db = (case run_effect sv i last_applied e db of
     (Inl err, db') \<Rightarrow> ((Inl err, db'), db # effect_partial e db @ [db'])
   | (Inr _, db') \<Rightarrow> (case run_effects sv i last_applied es db' of
       (r, stops) \<Rightarrow> (r, db # effect_partial e db @ stops)))"

definition apply_migration :: "'c server \<Rightarrow> nat \<Rightarrow> nat \<Rightarrow> migration \<Rightarrow> 'c migdb \<Rightarrow> (unit res \<times> 'c migdb) \<times> 'c migdb list" where
  "apply_migration sv i last_applied m db = run_effects sv i last_applied (effects sv i m) db"

fun migrate_loop :: "'c server \<Rightarrow> nat \<Rightarrow> nat \<Rightarrow> migration list \<Rightarrow> 'c migdb \<Rightarrow> unit res \<times> 'c migdb" where
  "migrate_loop sv i last_applied [] db = (Inr (), db)"
| "migrate_loop sv i last_applied (m # migrations) db =
     (if i \<le> last_applied then migrate_loop sv (Suc i) last_applied migrations db
      else case fst (apply_migration sv i last_applied m db) of
        (Inl e, db') \<Rightarrow> (Inl e, db')
      | (Inr _, db') \<Rightarrow> migrate_loop sv (Suc i) i migrations db')"

definition run_dbos_migrations :: "'c server \<Rightarrow> migration list \<Rightarrow> 'c migdb \<Rightarrow> unit res \<times> 'c migdb" where
  "run_dbos_migrations sv migrations db = migrate_loop sv 1 (current_version db) migrations db"

text \<open>\<^verbatim>\<open>run_migrations\<close>; the advisory lock only delays it.\<close>

definition run_migrations :: "'c server \<Rightarrow> migration list \<Rightarrow> 'c migdb \<Rightarrow> unit res \<times> 'c migdb" where
  "run_migrations sv migrations db =
     (if should_migrate migrations db then run_dbos_migrations sv migrations (ensure_dbos_schema db) else (Inr (), db))"

text \<open>The databases that a process leaves when it stops during a run: those of the migrations that it applies, and the last.\<close>

fun loop_stops :: "'c server \<Rightarrow> nat \<Rightarrow> nat \<Rightarrow> migration list \<Rightarrow> 'c migdb \<Rightarrow> 'c migdb list" where
  "loop_stops sv i last_applied [] db = [db]"
| "loop_stops sv i last_applied (m # migrations) db =
     (if i \<le> last_applied then loop_stops sv (Suc i) last_applied migrations db
      else (case apply_migration sv i last_applied m db of
          ((Inl e, db'), stops) \<Rightarrow> stops
        | ((Inr _, db'), stops) \<Rightarrow> stops @ loop_stops sv (Suc i) i migrations db'))"

definition run_stops :: "'c server \<Rightarrow> migration list \<Rightarrow> 'c migdb \<Rightarrow> 'c migdb list" where
  "run_stops sv migrations db =
     (if should_migrate migrations db
      then db # loop_stops sv 1 (current_version (ensure_dbos_schema db)) migrations (ensure_dbos_schema db) else [db])"

text \<open>\<^verbatim>\<open>run_migrations\<close> of \<^verbatim>\<open>dbos/_sys_db_sqlite.py\<close>: all in one transaction, statement by statement; an error rolls back everything.\<close>

definition py_strip :: "string \<Rightarrow> string" where
  "py_strip s = rev (dropWhile py_isspace (rev (dropWhile py_isspace s)))"

definition statements :: "string \<Rightarrow> string list" where
  "statements sql = map py_strip (filter (\<lambda>stmt. \<not> is_blank stmt) (split_semicolon sql))"

fun exec_statements :: "'c server \<Rightarrow> string list \<Rightarrow> 'c catalog \<Rightarrow> 'c catalog res" where
  "exec_statements sv [] c = Inr c"
| "exec_statements sv (stmt # stmts) c = res_bind (sv_exec sv stmt c) (exec_statements sv stmts)"

fun sqlite_loop :: "'c server \<Rightarrow> nat \<Rightarrow> nat \<Rightarrow> string list \<Rightarrow> 'c migdb \<Rightarrow> 'c migdb res" where
  "sqlite_loop sv i last_applied [] db = Inr db"
| "sqlite_loop sv i last_applied (sql # migrations) db =
     (if i \<le> last_applied then sqlite_loop sv (Suc i) last_applied migrations db
      else res_bind (exec_statements sv (statements sql) (mg_catalog db)) (\<lambda>c.
        res_bind (bump_migration_version i last_applied (db\<lparr>mg_catalog := c\<rparr>)) (sqlite_loop sv (Suc i) i migrations)))"

definition sqlite_run_migrations :: "'c server \<Rightarrow> string list \<Rightarrow> 'c migdb \<Rightarrow> unit res \<times> 'c migdb" where
  "sqlite_run_migrations sv migrations db =
     (case (if mg_table db then sqlite_loop sv 1 (current_version db) migrations db
            else sqlite_loop sv 1 0 migrations (db\<lparr>mg_table := True, mg_versions := []\<rparr>)) of
        Inl e \<Rightarrow> (Inl e, db)
      | Inr db' \<Rightarrow> (Inr (), db'))"

section \<open>Interrupted runs\<close>

text \<open>Cleaning up drops every index that has an invalid entry, from whichever of its intermediate states.\<close>

lemma drop_named_fold: "foldl (\<lambda>c n. drop_named [n] c) c ns = drop_named ns c"
proof (induction ns arbitrary: c)
  case (Cons n ns)
  have "filter (\<lambda>x. fst x \<notin> set ns) (filter (\<lambda>x. fst x \<notin> set [n]) xs) = filter (\<lambda>x. fst x \<notin> set (n # ns)) xs"
    for xs :: "(string \<times> bool) list" by (induction xs) auto
  with Cons show ?case by (simp add: drop_named_def)
qed (simp add: drop_named_def)

lemma cleanup_eq: "cleanup_invalid_indexes c = drop_named (invalid_names c) c"
  by (simp add: cleanup_invalid_indexes_def drop_named_fold)

lemma cleanup_id: "invalid_names c = [] \<Longrightarrow> cleanup_invalid_indexes c = c"
  by (simp add: cleanup_eq drop_named_def)

lemma set_invalid_names: "set (invalid_names c) = {n. (n, False) \<in> set (ca_indexes c)}"
  by (force simp: invalid_names_def)

lemma drop_named_again:
  assumes "set ns \<subseteq> set (invalid_names c)"
  shows "cleanup_invalid_indexes (drop_named ns c) = cleanup_invalid_indexes c"
proof -
  have names: "set (invalid_names (drop_named ns c)) = set (invalid_names c) - set ns"
    by (auto simp: set_invalid_names drop_named_def)
  have "filter (\<lambda>x. fst x \<notin> set (invalid_names (drop_named ns c))) (filter (\<lambda>x. fst x \<notin> set ns) xs)
      = filter (\<lambda>x. fst x \<notin> set (invalid_names c)) xs" for xs :: "(string \<times> bool) list"
    using assms by (induction xs) (auto simp: names)
  then show ?thesis by (simp add: cleanup_eq drop_named_def)
qed

lemma cleanup_valid: "invalid_names (cleanup_invalid_indexes c) = []"
proof -
  have "set (invalid_names (cleanup_invalid_indexes c)) = {}"
    by (auto simp: set_invalid_names cleanup_eq drop_named_def)
  then show ?thesis by simp
qed

lemma cleanup_partial_again:
  "c' \<in> set (cleanup_partial c) \<Longrightarrow> cleanup_invalid_indexes c' = cleanup_invalid_indexes c"
  by (auto simp: cleanup_partial_def drop_named_fold intro!: drop_named_again dest: in_set_takeD)

text \<open>
  From every state that an online statement leaves, interrupted or not, cleaning up and running it again gives what it gives when it
  runs through.
\<close>

lemma invalid_names_add: "invalid_names (add_index n valid c) = invalid_names c @ (if valid then [] else [n])"
  by (simp add: invalid_names_def add_index_def)

lemma drop_added: "n \<notin> fst ` set (ca_indexes c) \<Longrightarrow> drop_named [n] (add_index n valid c) = c"
proof -
  assume "n \<notin> fst ` set (ca_indexes c)"
  then have "filter (\<lambda>x. fst x \<notin> set [n]) (ca_indexes c) = ca_indexes c" by (force simp: filter_id_conv)
  then show ?thesis by (simp add: drop_named_def add_index_def)
qed

lemma drop_invalidated:
  assumes "invalid_names c = []"
  shows "cleanup_invalid_indexes (invalidate n c) = drop_named [n] c"
proof -
  have v: "valid" if "(m, valid) \<in> set (ca_indexes c)" for m valid
    using assms set_invalid_names [of c] that by (cases valid) auto
  have names: "m \<in> set (invalid_names (invalidate n c)) \<longleftrightarrow> m = n \<and> n \<in> fst ` set (ca_indexes c)" for m
  proof -
    have "m \<in> set (invalid_names (invalidate n c)) \<longleftrightarrow> (\<exists>valid. (m, valid) \<in> set (ca_indexes c) \<and> (\<not> valid \<or> m = n))"
      by (force simp: set_invalid_names invalidate_def image_iff)
    also have "\<dots> \<longleftrightarrow> m = n \<and> n \<in> fst ` set (ca_indexes c)" using v [of m] by force
    finally show ?thesis .
  qed
  let ?f = "\<lambda>(m, valid). (m, valid \<and> m \<noteq> n)"
  have "filter (\<lambda>x. fst x \<notin> set (invalid_names (invalidate n c))) (map ?f (ca_indexes c))
      = map ?f (filter (\<lambda>x. fst x \<noteq> n) (ca_indexes c))"
    unfolding filter_map by (rule arg_cong [of _ _ "map ?f"], rule filter_cong) (auto simp: names image_iff)
  also have "\<dots> = filter (\<lambda>x. fst x \<noteq> n) (ca_indexes c)" by (rule map_idI) auto
  finally show ?thesis
    by (simp add: cleanup_eq drop_named_def) (simp add: invalidate_def)
qed

lemma exec_ddl_again:
  assumes c: "invalid_names c = []" and run: "exec_ddl sv d c = (Inr (), c1)" and c': "c' = c \<or> c' \<in> set (ddl_partial d c) \<or> c' = c1"
  shows "exec_ddl sv d (cleanup_invalid_indexes c') = (Inr (), c1)"
proof (cases d)
  case (CreateIndex n)
  have names: "invalid_names c1 = []" "n \<in> fst ` set (ca_indexes c1)"
    using run c CreateIndex by (auto simp: invalid_names_add split: if_splits option.splits) (simp add: add_index_def)
  have "cleanup_invalid_indexes (add_index n False c) = c" if "n \<notin> fst ` set (ca_indexes c)"
    using that c by (simp add: cleanup_eq invalid_names_add drop_added)
  then have "cleanup_invalid_indexes c' = c \<or> cleanup_invalid_indexes c' = c1"
    using c' c names(1) CreateIndex by (auto simp: cleanup_id simp del: image_iff split: if_splits)
  moreover have "exec_ddl sv d c1 = (Inr (), c1)" using names(2) CreateIndex by simp
  ultimately show ?thesis using run by auto
next
  case (DropIndex n)
  have twice: "drop_named [n] (drop_named [n] c) = drop_named [n] c" by (simp add: drop_named_def)
  have "invalid_names (drop_named [n] c) = []" using c by (auto simp: set_invalid_names drop_named_def simp flip: set_empty)
  with c' run c DropIndex twice show ?thesis by (auto simp: cleanup_id drop_invalidated)
qed

definition versions_ok :: "'c migdb \<Rightarrow> bool" where
  "versions_ok db \<longleftrightarrow> length (mg_versions db) \<le> 1 \<and> 0 \<notin> set (mg_versions db)"

lemma bump_ok:
  assumes "versions_ok db" "current_version db = last_applied"
  shows "bump_migration_version (Suc i) last_applied db = Inr (db\<lparr>mg_versions := [Suc i]\<rparr>)"
  using assms by (cases "mg_versions db") (auto simp: versions_ok_def current_version_def bump_migration_version_def)

lemma versions_after: "versions_ok (db\<lparr>mg_versions := [Suc i]\<rparr>)" "current_version (db\<lparr>mg_versions := [Suc i]\<rparr>) = Suc i"
  by (simp_all add: versions_ok_def current_version_def)

lemma versions_catalog [simp]: "versions_ok (db\<lparr>mg_catalog := c\<rparr>) = versions_ok db" "current_version (db\<lparr>mg_catalog := c\<rparr>) = current_version db"
  by (simp_all add: versions_ok_def current_version_def)

lemma bump_catalog:
  assumes "versions_ok db" "current_version db = n"
  shows "bump_migration_version (Suc n) n (db\<lparr>mg_catalog := c\<rparr>) = Inr (db\<lparr>mg_catalog := c, mg_versions := [Suc n]\<rparr>)"
  by (rule bump_ok) (use assms in simp_all)

text \<open>What applying an online migration comes to.\<close>

lemma apply_online:
  assumes "versions_ok db" "current_version db = n" "is_online sv (Suc n)"
  shows "fst (apply_migration sv (Suc n) n (Ddl d) db) = (case exec_ddl sv d (cleanup_invalid_indexes (mg_catalog db)) of
      (Inl e, c) \<Rightarrow> (Inl e, db\<lparr>mg_catalog := c\<rparr>)
    | (Inr _, c) \<Rightarrow> (Inr (), db\<lparr>mg_catalog := c, mg_versions := [Suc n]\<rparr>))"
  using assms(3) bump_catalog [OF assms(1,2)] by (simp add: apply_migration_def split: prod.splits sum.splits)

lemma apply_migration_version:
  assumes "versions_ok db" "current_version db = n" "fst (apply_migration sv (Suc n) n m db) = (Inr u, db')"
    and online: "is_online sv (Suc n) \<Longrightarrow> \<exists>d. m = Ddl d"
  shows "\<exists>c. db' = db\<lparr>mg_catalog := c, mg_versions := [Suc n]\<rparr>"
proof (cases "is_online sv (Suc n)")
  case True
  with online obtain d where "m = Ddl d" by blast
  with assms(3) apply_online [OF assms(1,2) True] show ?thesis by (auto split: prod.splits sum.splits)
next
  case False
  have same: "db = db\<lparr>mg_catalog := mg_catalog db\<rparr>" by simp
  from False assms(3) have "\<exists>c. bump_migration_version (Suc n) n (db\<lparr>mg_catalog := c\<rparr>) = Inr db'
      \<or> bump_migration_version (Suc n) n db = Inr db'"
    by (auto simp: apply_migration_def split: if_splits prod.splits sum.splits)
  then have "\<exists>c. bump_migration_version (Suc n) n (db\<lparr>mg_catalog := c\<rparr>) = Inr db'" using same by metis
  then show ?thesis unfolding bump_catalog [OF assms(1,2)] by auto
qed

text \<open>Wherever applying a migration stops, applying it again gives the same result.\<close>

lemma effects_resume:
  assumes ok: "versions_ok db" "current_version db = n" and run: "fst (apply_migration sv (Suc n) n m db) = (Inr (), db2)"
    and online: "is_online sv (Suc n) \<Longrightarrow> \<exists>d. m = Ddl d"
    and stop: "db' \<in> set (snd (apply_migration sv (Suc n) n m db))"
  shows "\<exists>c. db' = db\<lparr>mg_catalog := c\<rparr>" "fst (apply_migration sv (Suc n) n m db') = (Inr (), db2)"
proof -
  have "(\<exists>c. db' = db\<lparr>mg_catalog := c\<rparr>) \<and> fst (apply_migration sv (Suc n) n m db') = (Inr (), db2)"
  proof (cases "is_online sv (Suc n)")
    case True
    with online obtain d where m: "m = Ddl d" by blast
    let ?c = "cleanup_invalid_indexes (mg_catalog db)"
    from run m apply_online [OF ok True] obtain c1 where c1: "exec_ddl sv d ?c = (Inr (), c1)"
      "db2 = db\<lparr>mg_catalog := c1, mg_versions := [Suc n]\<rparr>" by (auto split: prod.splits sum.splits)
    note again = exec_ddl_again [OF cleanup_valid c1(1)]
    have same: "db = db\<lparr>mg_catalog := mg_catalog db\<rparr>" by simp
    have "db' = db \<or> (\<exists>c'. db' = db\<lparr>mg_catalog := c'\<rparr> \<and>
        (c' \<in> set (cleanup_partial (mg_catalog db)) \<or> c' = ?c \<or> c' \<in> set (ddl_partial d ?c) \<or> c' = c1))"
      using stop True m c1(1) bump_catalog [OF ok] by (auto simp: apply_migration_def)
    then obtain c' where c': "db' = db\<lparr>mg_catalog := c'\<rparr>"
      "c' = mg_catalog db \<or> c' \<in> set (cleanup_partial (mg_catalog db)) \<or> c' = ?c \<or> c' \<in> set (ddl_partial d ?c) \<or> c' = c1"
      using same by metis
    have "exec_ddl sv d (cleanup_invalid_indexes c') = (Inr (), c1)"
      using c'(2) c1(1) again [of c'] by (auto simp: cleanup_partial_again)
    with c' c1(2) m apply_online [of db' n sv d] True ok show ?thesis by auto
  next
    case False
    with stop run have "db' = db"
      by (auto simp: apply_migration_def split: if_splits prod.splits sum.splits migration.splits)
    then show ?thesis using run by (auto intro: exI [of _ "mg_catalog db"])
  qed
  then show "\<exists>c. db' = db\<lparr>mg_catalog := c\<rparr>" "fst (apply_migration sv (Suc n) n m db') = (Inr (), db2)" by blast+
qed

text \<open>The online migrations of a list that starts after version \<open>n\<close> are index statements.\<close>

definition online_are_ddl :: "'c server \<Rightarrow> nat \<Rightarrow> migration list \<Rightarrow> bool" where
  "online_are_ddl sv n ms \<longleftrightarrow> (\<forall>j < length ms. is_online sv (Suc (n + j)) \<longrightarrow> (\<exists>d. ms ! j = Ddl d))"

lemma online_are_ddl_Cons:
  "online_are_ddl sv n (m # ms) \<longleftrightarrow> (is_online sv (Suc n) \<longrightarrow> (\<exists>d. m = Ddl d)) \<and> online_are_ddl sv (Suc n) ms"
  by (auto simp: online_are_ddl_def All_less_Suc2)

lemma online_are_ddl_drop: "online_are_ddl sv 0 ms \<Longrightarrow> n \<le> length ms \<Longrightarrow> online_are_ddl sv n (drop n ms)"
  by (auto simp: online_are_ddl_def)

lemma dbos_migrations_online: "online_are_ddl sv 0 (get_dbos_migrations texts)"
proof -
  have "set ONLINE_MIGRATIONS = fst ` set online_ddl" by (simp add: ONLINE_MIGRATIONS_def online_ddl_def)
  moreover have "get_dbos_migrations texts ! j = (case map_of online_ddl (Suc j) of Some d \<Rightarrow> Ddl d | None \<Rightarrow> Sql (texts (Suc j)))"
    if j: "j < length (get_dbos_migrations texts)" for j
  proof -
    have l: "1 + j < 43" "j < length [1..<43]" using j by (simp_all add: get_dbos_migrations_def)
    show ?thesis unfolding get_dbos_migrations_def nth_map [OF l(2)] nth_upt [OF l(1)] plus_1_eq_Suc ..
  qed
  ultimately show ?thesis
    by (force simp: online_are_ddl_def is_online_def map_of_eq_None_iff split: option.splits)
qed

lemma migrate_loop_skip:
  "i + k = Suc n \<Longrightarrow> k \<le> length ms \<Longrightarrow> migrate_loop sv i n ms db = migrate_loop sv (Suc n) n (drop k ms) db"
proof (induction k arbitrary: i ms)
  case (Suc k)
  then obtain m ms' where "ms = m # ms'" by (cases ms) auto
  with Suc show ?case by simp
qed simp

lemma loop_stops_skip:
  "i + k = Suc n \<Longrightarrow> k \<le> length ms \<Longrightarrow> loop_stops sv i n ms db = loop_stops sv (Suc n) n (drop k ms) db"
proof (induction k arbitrary: i ms)
  case (Suc k)
  then obtain m ms' where "ms = m # ms'" by (cases ms) auto
  with Suc show ?case by simp
qed simp

lemma loop_resumes:
  assumes "online_are_ddl sv n ms" "versions_ok db" "current_version db = n" "migrate_loop sv (Suc n) n ms db = (Inr (), db1)"
    and "db' \<in> set (loop_stops sv (Suc n) n ms db)"
  shows "\<exists>k. k \<le> length ms \<and> versions_ok db' \<and> current_version db' = n + k
    \<and> mg_schema db' = mg_schema db \<and> mg_table db' = mg_table db
    \<and> migrate_loop sv (Suc (n + k)) (n + k) (drop k ms) db' = (Inr (), db1)"
  using assms
proof (induction ms arbitrary: n db)
  case Nil
  then show ?case by simp
next
  case (Cons m ms)
  have on: "\<exists>d. m = Ddl d" if "is_online sv (Suc n)" using Cons.prems(1) that by (simp add: online_are_ddl_Cons)
  obtain r db2 stops where ap: "apply_migration sv (Suc n) n m db = ((r, db2), stops)" by (metis prod.exhaust)
  with Cons.prems(4) have r: "r = Inr ()" and rest: "migrate_loop sv (Suc (Suc n)) (Suc n) ms db2 = (Inr (), db1)"
    by (cases r; simp)+
  have did: "fst (apply_migration sv (Suc n) n m db) = (Inr (), db2)" using ap r by simp
  from apply_migration_version [OF Cons.prems(2,3) did on] obtain c where
    db2: "db2 = db\<lparr>mg_catalog := c, mg_versions := [Suc n]\<rparr>" by blast
  from Cons.prems(5) ap r consider (here) "db' \<in> set (snd (apply_migration sv (Suc n) n m db))"
    | (later) "db' \<in> set (loop_stops sv (Suc (Suc n)) (Suc n) ms db2)"
    by (auto split: if_splits)
  then show ?case
  proof cases
    case here
    note again = effects_resume [OF Cons.prems(2,3) did on here]
    from again(1) obtain c' where c': "db' = db\<lparr>mg_catalog := c'\<rparr>" by blast
    from again(2) rest have "migrate_loop sv (Suc n) n (m # ms) db' = (Inr (), db1)" by simp
    with Cons.prems(2,3) c' show ?thesis by (intro exI [of _ 0]) simp
  next
    case later
    have "versions_ok db2" "current_version db2 = Suc n" by (simp_all add: db2 versions_after)
    from Cons.IH [OF _ this rest later] Cons.prems(1) obtain k where k: "k \<le> length ms" "versions_ok db'" "current_version db' = Suc n + k"
      "mg_schema db' = mg_schema db2" "mg_table db' = mg_table db2" "migrate_loop sv (Suc (Suc n + k)) (Suc n + k) (drop k ms) db' = (Inr (), db1)"
      by (auto simp: online_are_ddl_Cons)
    then show ?thesis by (intro exI [of _ "Suc k"]) (simp add: db2)
  qed
qed

lemma loop_version:
  assumes "online_are_ddl sv n ms" "versions_ok db" "current_version db = n" "migrate_loop sv (Suc n) n ms db = (Inr (), db1)"
  shows "versions_ok db1 \<and> current_version db1 = n + length ms \<and> mg_schema db1 = mg_schema db \<and> mg_table db1 = mg_table db"
  using assms
proof (induction ms arbitrary: n db)
  case (Cons m ms)
  have on: "\<exists>d. m = Ddl d" if "is_online sv (Suc n)" using Cons.prems(1) that by (simp add: online_are_ddl_Cons)
  obtain r db2 stops where ap: "apply_migration sv (Suc n) n m db = ((r, db2), stops)" by (metis prod.exhaust)
  with Cons.prems(4) have r: "r = Inr ()" and rest: "migrate_loop sv (Suc (Suc n)) (Suc n) ms db2 = (Inr (), db1)"
    by (cases r; simp)+
  have did: "fst (apply_migration sv (Suc n) n m db) = (Inr (), db2)" using ap r by simp
  from apply_migration_version [OF Cons.prems(2,3) did on] obtain c where
    db2: "db2 = db\<lparr>mg_catalog := c, mg_versions := [Suc n]\<rparr>" by blast
  have "versions_ok db2" "current_version db2 = Suc n" by (simp_all add: db2 versions_after)
  from Cons.IH [OF _ this rest] Cons.prems(1) show ?case by (simp add: db2 online_are_ddl_Cons)
qed simp

text \<open>On SQLite a run that completes brings the database to the last version and a second one does nothing.\<close>

lemma sqlite_loop_version:
  assumes "versions_ok db" "current_version db = n" "sqlite_loop sv (Suc n) n ms db = Inr db1"
  shows "versions_ok db1 \<and> current_version db1 = n + length ms \<and> mg_table db1 = mg_table db"
  using assms
proof (induction ms arbitrary: n db)
  case (Cons sql ms)
  from Cons.prems(3) obtain c db2 where b: "bump_migration_version (Suc n) n (db\<lparr>mg_catalog := c\<rparr>) = Inr db2"
    and rest: "sqlite_loop sv (Suc (Suc n)) (Suc n) ms db2 = Inr db1" by (auto simp: res_bind_Inr_iff)
  have db2: "db2 = db\<lparr>mg_catalog := c, mg_versions := [Suc n]\<rparr>"
    using b bump_ok [of "db\<lparr>mg_catalog := c\<rparr>" n n] Cons.prems(1,2) by simp
  have "versions_ok db2" "current_version db2 = Suc n" by (simp_all add: db2 versions_after)
  from Cons.IH [OF this rest] show ?case by (simp add: db2)
qed simp

lemma sqlite_loop_skip:
  "i + k = Suc n \<Longrightarrow> k \<le> length ms \<Longrightarrow> sqlite_loop sv i n ms db = sqlite_loop sv (Suc n) n (drop k ms) db"
proof (induction k arbitrary: i ms)
  case (Suc k)
  then obtain m ms' where "ms = m # ms'" by (cases ms) auto
  with Suc show ?case by simp
qed simp

lemma sqlite_migrations_once:
  assumes ok: "versions_ok db" "current_version db \<le> length ms" and run: "sqlite_run_migrations sv ms db = (Inr (), db1)"
  shows "current_version db1 = length ms \<and> sqlite_run_migrations sv ms db1 = (Inr (), db1)"
proof -
  define e where "e = (if mg_table db then db else db\<lparr>mg_table := True, mg_versions := []\<rparr>)"
  have e: "versions_ok e" "current_version e \<le> length ms" "mg_table e"
    using ok by (auto simp: e_def versions_ok_def current_version_def)
  have "sqlite_loop sv 1 (current_version e) ms e = Inr db1"
    using run by (auto simp: sqlite_run_migrations_def e_def current_version_def split: sum.split_asm if_splits)
  then have "sqlite_loop sv (Suc (current_version e)) (current_version e) (drop (current_version e) ms) e = Inr db1"
    using sqlite_loop_skip [of 1 "current_version e" "current_version e" ms sv e] e(2) by simp
  from sqlite_loop_version [OF e(1) refl this] e have d: "current_version db1 = length ms" "mg_table db1" by auto
  then show ?thesis using sqlite_loop_skip [of 1 "length ms" "length ms" ms sv db1] by (simp add: sqlite_run_migrations_def)
qed

text \<open>A database that a run can start from, and one interrupted run.\<close>

definition migdb_ok :: "nat \<Rightarrow> 'c migdb \<Rightarrow> bool" where
  "migdb_ok k db \<longleftrightarrow> versions_ok db \<and> current_version db \<le> k \<and> (\<not> mg_table db \<longrightarrow> mg_versions db = [])"

lemma run_resumes:
  assumes ddl: "online_are_ddl sv 0 ms" and ok: "migdb_ok (length ms) db" and run: "run_migrations sv ms db = (Inr (), db1)"
  shows "\<not> should_migrate ms db1 \<and> current_version db1 = length ms"
    and "db' \<in> set (run_stops sv ms db) \<Longrightarrow> migdb_ok (length ms) db' \<and> run_migrations sv ms db' = (Inr (), db1)"
proof -
  have "\<not> should_migrate ms db1 \<and> current_version db1 = length ms
    \<and> (db' \<in> set (run_stops sv ms db) \<longrightarrow> migdb_ok (length ms) db' \<and> run_migrations sv ms db' = (Inr (), db1))"
  proof (cases "should_migrate ms db")
    case False
    with run ok show ?thesis by (auto simp: run_migrations_def run_stops_def should_migrate_def migdb_ok_def)
  next
    case True
    define e where "e = ensure_dbos_schema db"
    define n where "n = current_version e"
    have e: "versions_ok e" "n \<le> length ms" "mg_schema e" "mg_table e"
      using ok by (auto simp: e_def n_def ensure_dbos_schema_def Let_def versions_ok_def current_version_def migdb_ok_def)
    from run True have loop: "migrate_loop sv (Suc n) n (drop n ms) e = (Inr (), db1)"
      using migrate_loop_skip [of 1 n n ms sv e] e(2) by (simp add: run_migrations_def run_dbos_migrations_def e_def n_def)
    note ddl_n = online_are_ddl_drop [OF ddl e(2)]
    have fin: "versions_ok db1" "current_version db1 = length ms" "mg_schema db1" "mg_table db1"
      using loop_version [OF ddl_n e(1) _ loop] e by (auto simp: n_def)
    have again: "run_migrations sv ms d = (Inr (), db1)"
      if d: "k \<le> length (drop n ms)" "versions_ok d" "current_version d = n + k" "mg_schema d" "mg_table d"
        "migrate_loop sv (Suc (n + k)) (n + k) (drop k (drop n ms)) d = (Inr (), db1)" for d k
    proof (cases "n + k = length ms")
      case True
      with d(6) have "d = db1" by simp
      with fin True d show ?thesis by (simp add: run_migrations_def should_migrate_def)
    next
      case False
      with d(1) e(2) have lt: "n + k < length ms" by simp
      have ed: "ensure_dbos_schema d = d" using d(4,5) by (simp add: ensure_dbos_schema_def)
      from lt d(3) have "should_migrate ms d" by (simp add: should_migrate_def)
      with d lt ed show ?thesis
        using migrate_loop_skip [of 1 "n + k" "n + k" ms sv d] by (simp add: run_migrations_def run_dbos_migrations_def add.commute)
    qed
    have "migdb_ok (length ms) db' \<and> run_migrations sv ms db' = (Inr (), db1)" if "db' \<in> set (run_stops sv ms db)"
    proof (cases "db' = db")
      case False
      with that True have "db' \<in> set (loop_stops sv (Suc n) n (drop n ms) e)"
        using loop_stops_skip [of 1 n n ms sv e] e(2) by (simp add: run_stops_def e_def n_def)
      from loop_resumes [OF ddl_n e(1) _ loop this] obtain k where k: "k \<le> length (drop n ms)" "versions_ok db'"
        "current_version db' = n + k" "mg_schema db' = mg_schema e" "mg_table db' = mg_table e"
        "migrate_loop sv (Suc (n + k)) (n + k) (drop k (drop n ms)) db' = (Inr (), db1)" by (auto simp: n_def)
      with e again [of k db'] show ?thesis by (simp add: migdb_ok_def)
    qed (use run ok in simp)
    with fin show ?thesis by (simp add: should_migrate_def)
  qed
  then show "\<not> should_migrate ms db1 \<and> current_version db1 = length ms"
    "db' \<in> set (run_stops sv ms db) \<Longrightarrow> migdb_ok (length ms) db' \<and> run_migrations sv ms db' = (Inr (), db1)" by blast+
qed

text \<open>
  C39: A run of the migrations that completes brings the database to the last version, and needs no further run. Wherever a process
  stops during the run, before, inside or after any of the commits that the code makes, and however many runs are interrupted one
  after the other, the next run that is not interrupted completes with the same result, although the online migrations are recorded
  only after they took effect and leave invalid indexes when they stop halfway. The server is PostgreSQL or CockroachDB; what it does
  with the statements that run in a transaction, and which indexes can be built, are parameters. The run starts from a table of
  versions with at most one entry, which is not later than the last migration.
\<close>

theorem migrations_resume:
  assumes ok: "migdb_ok (length (get_dbos_migrations texts)) db"
    and run: "run_migrations sv (get_dbos_migrations texts) db = (Inr (), db1)"
  shows "\<not> should_migrate (get_dbos_migrations texts) db1 \<and> current_version db1 = length (get_dbos_migrations texts)
    \<and> (\<forall>db'. (\<lambda>x y. y \<in> set (run_stops sv (get_dbos_migrations texts) x))\<^sup>*\<^sup>* db db' \<longrightarrow>
        run_migrations sv (get_dbos_migrations texts) db' = (Inr (), db1))"
proof -
  let ?ms = "get_dbos_migrations texts"
  have "migdb_ok (length ?ms) db' \<and> run_migrations sv ?ms db' = (Inr (), db1)"
    if "(\<lambda>x y. y \<in> set (run_stops sv ?ms x))\<^sup>*\<^sup>* db db'" for db'
    using that by induction (use ok run run_resumes(2) [OF dbos_migrations_online] in blast)+
  with run_resumes(1) [OF dbos_migrations_online ok run] show ?thesis by blast
qed

text \<open>
  A server that executes every text and builds every index, and the database after migration 22: the process stops when the index of
  migration 23 is half built, and the next run completes with all the indexes that the migrations create.
\<close>

definition example_server :: "string list server" where
  "example_server = \<lparr>sv_cockroach = False, sv_exec = (\<lambda>text c. Inr (c\<lparr>ca_rest := ca_rest c @ [text]\<rparr>)), sv_build = (\<lambda>_ _. None),
     sv_notifications_pk = (\<lambda>_. False)\<rparr>"

definition example_migdb :: "(string \<times> bool) list \<Rightarrow> string list migdb" where
  "example_migdb indexes = \<lparr>mg_schema = True, mg_table = True, mg_versions = [22], mg_catalog = \<lparr>ca_indexes = indexes, ca_rest = []\<rparr>\<rparr>"

theorem migrations_resume_witness:
  "example_migdb [(''idx_workflow_status_forked_from'', False)]
      \<in> set (run_stops example_server (get_dbos_migrations (\<lambda>_. ''t'')) (example_migdb []))
   \<and> (\<exists>db1. run_migrations example_server (get_dbos_migrations (\<lambda>_. ''t'')) (example_migdb []) = (Inr (), db1)
     \<and> run_migrations example_server (get_dbos_migrations (\<lambda>_. ''t''))
         (example_migdb [(''idx_workflow_status_forked_from'', False)]) = (Inr (), db1)
     \<and> map fst (ca_indexes (mg_catalog db1)) = [''idx_workflow_status_forked_from'', ''idx_workflow_status_parent_workflow_id'',
         ''uq_workflow_status_dedup_id'', ''idx_workflow_status_pending'', ''idx_workflow_status_failed'',
         ''idx_workflow_status_in_flight'', ''idx_workflow_status_rate_limited'', ''idx_workflow_status_started_at''])"
proof -
  let ?ms = "get_dbos_migrations (\<lambda>_. ''t'')" and ?half = "example_migdb [(''idx_workflow_status_forked_from'', False)]"
  have ok: "migdb_ok (length ?ms) (example_migdb [])"
    by (simp add: migdb_ok_def versions_ok_def current_version_def example_migdb_def get_dbos_migrations_def)
  have stop: "?half \<in> set (run_stops example_server ?ms (example_migdb []))" by code_simp
  have ix: "map fst (ca_indexes (mg_catalog (snd (run_migrations example_server ?ms (example_migdb [])))))
      = [''idx_workflow_status_forked_from'', ''idx_workflow_status_parent_workflow_id'',
         ''uq_workflow_status_dedup_id'', ''idx_workflow_status_pending'', ''idx_workflow_status_failed'',
         ''idx_workflow_status_in_flight'', ''idx_workflow_status_rate_limited'', ''idx_workflow_status_started_at'']"
    "fst (run_migrations example_server ?ms (example_migdb [])) = Inr ()" by code_simp+
  then obtain db1 where run: "run_migrations example_server ?ms (example_migdb []) = (Inr (), db1)" by (metis prod.collapse)
  have "(\<lambda>x y. y \<in> set (run_stops example_server ?ms x))\<^sup>*\<^sup>* (example_migdb []) ?half"
    by (rule r_into_rtranclp) (rule stop)
  with migrations_resume [OF ok run] run ix stop show ?thesis by auto
qed

end
