(* ===== verification/Spec2Isabelle.thy ===== *)
theory Spec2Isabelle
  imports DBOS_Queue_Config DBOS_Fork DBOS_GC DBOS_Export DBOS_Schedules DBOS_Recovery DBOS_Transactions DBOS_Calls DBOS_Durability
    DBOS_Debouncer DBOS_Aggregates DBOS_Datasource DBOS_Context_Managers DBOS_Schedule_Thread DBOS_Migrations
begin

text \<open>
  Verification of the core of DBOS Transact for Python, the durable-workflow library under
  \<^verbatim>\<open>src/dbos\<close>. A workflow is a Python function whose start, steps, messages, events, streams and
  outcome are rows of a relational system database, so that any process can recover it. All
  processes interact only through that database, and the library's guarantees (a workflow completes
  at most once, a step runs once, a message is received once, a queue keeps its limits) are
  guarantees about what the operations of \<^verbatim>\<open>dbos/_sys_db.py\<close> do to its tables. The development models
  these operations over the tables and proves the guarantees.

  \<^bold>\<open>State.\<close> \<open>DBOS_Schema\<close> has one record per table (\<^verbatim>\<open>dbos/_schemas/system_database.py\<close>) and the record
  \<open>sysdb\<close> of all tables, each a list of rows; \<open>sysdb_inv\<close> is what the schema enforces (primary keys,
  foreign keys, the unique index on deduplication IDs), and the insert statements fail with
  \<open>UniqueViolation\<close> or \<open>ForeignKeyViolation\<close> as the database does. An operation is a function of the
  arguments, the clock readings and the database; one that opens transactions returns \<open>txn_result\<close>
  (\<open>Done\<close> commits, \<open>Raise\<close> rolls back, \<open>CommitRaise\<close> commits and then raises), and \<open>engine_begin\<close> turns it into a
  result and the committed database. Errors are values of \<open>dbos_error\<close>
  (\<^verbatim>\<open>dbos/_error.py\<close>). Codecs that are not part of the library (json, pickle, user-defined serializers) are
  parameters, with \<open>codecs_law\<close> (what was dumped loads back) as the hypothesis that names their
  documented behaviour.

  \<^bold>\<open>Theories\<close>, in dependency order:
  \<^item> \<open>DBOS_Prelude\<close>: errors, SQL statements over lists of rows, shared lemmas.
  \<^item> \<open>DBOS_Calendar\<close>: civil dates and their day numbers.
  \<^item> \<open>DBOS_Serialization\<close>: \<^verbatim>\<open>dbos/_serialization.py\<close>; Python values, the text of dates and datetimes (which keeps the instant to
    the millisecond and drops the time zone), formats, round trips.
  \<^item> \<open>DBOS_Schema\<close>, \<open>DBOS_Constraints\<close>: the tables and their constraints; the locale \<open>guarded_update\<close>, the
    contract of an \<^verbatim>\<open>UPDATE workflow_status\<close>, is interpreted for every status transition.
  \<^item> \<open>DBOS_Workflow_Status\<close>, \<open>DBOS_Status_Lifecycle\<close>: starting a workflow (once, by one owner, with a
    bounded number of recoveries), recording its outcome, cancel, resume, delay, debounce, attributes, deletion, search.
  \<^item> \<open>DBOS_Context\<close>: \<^verbatim>\<open>DBOSContext\<close> of \<^verbatim>\<open>dbos/_context.py\<close>; operation numbering.
  \<^item> \<open>DBOS_Context_Managers\<close>: the \<^verbatim>\<open>with\<close> blocks of the same file over a store of context objects; blocks nest
    and restore the context.
  \<^item> \<open>DBOS_Operations\<close>, \<open>DBOS_Checkpoints\<close>: step checkpoints, durable sleep, patches, child records; the
    locale \<open>checkpointed\<close> is the contract of an operation that runs once, and is
    interpreted for send, set-event and stream writes.
  \<^item> \<open>DBOS_Children\<close>: the walks over parent and fork links (locale \<open>level_search\<close>, interpreted for
    both), total on every recorded graph, and the cancel cascade.
  \<^item> \<open>DBOS_Messages\<close>, \<open>DBOS_Event_Dict\<close>, \<open>DBOS_Events\<close>, \<open>DBOS_Streams\<close>: communication. The abstract
    specification of messages is a queue per workflow and topic (\<open>pending\<close>, with ties of \<^verbatim>\<open>created_at_epoch_ms\<close> in the order of
    insertion; \<open>reading_order\<close> has all the orders that the SQL allows), which send and receive refine.
  \<^item> \<open>DBOS_Queues\<close>, \<open>DBOS_Dequeue\<close>, \<open>DBOS_Queue_Config\<close>: queue configuration and dequeue
    (\<^verbatim>\<open>dbos/_queue.py\<close> and the queue operations of \<^verbatim>\<open>dbos/_sys_db.py\<close>): order, concurrency and rate limits.
  \<^item> \<open>DBOS_Bulk\<close>, \<open>DBOS_Fork\<close>, \<open>DBOS_GC\<close>, \<open>DBOS_Export\<close>: the operations on many workflows: fork and
    fork from failure (what a fork copies), garbage collection, export and import (a round trip).
  \<^item> \<open>DBOS_Schedules\<close>: schedules, application versions, backfill, and one round of the scheduler loop
    (\<^verbatim>\<open>dbos/_scheduler.py\<close>).
  \<^item> \<open>DBOS_Cron\<close>, \<open>DBOS_Cron_Search\<close>, \<open>DBOS_Cron_Expand\<close>, \<open>DBOS_Cron_Backfill\<close>: the
    cron iterator (\<^verbatim>\<open>dbos/_croniter.py\<close>), forward and in zones with a fixed offset, and its parser: the jumps from field to field (locale
    \<open>clock_field\<close>, interpreted for months, weekdays, hours, minutes and seconds), that the search returns the first time at which
    an expression fires, expressions on which it does not, that the accepted expressions have the shape the search needs, and what a
    backfill enqueues therefore.
  \<^item> \<open>DBOS_Schedule_Thread\<close>: the thread of a schedule (\<^verbatim>\<open>_ScheduleThread._loop\<close>), which fires at the times of its expression.
  \<^item> \<open>DBOS_Migrations\<close>: the runs of the schema's migrations (\<^verbatim>\<open>dbos/_migration.py\<close>) as lists of commits, with the online index
    statements and what they leave when they stop halfway; completed after any number of interruptions.
  \<^item> \<open>DBOS_Payloads\<close>: the rest of \<^verbatim>\<open>dbos/_serialization.py\<close>: recorded arguments with conversion to type
    hints, portable errors, tolerant decoding.
  \<^item> \<open>DBOS_Outcome\<close>: \<^verbatim>\<open>dbos/_outcome.py\<close>; synchronous and coroutine computations as functions of the
    world, and the retry loop with its specification.
  \<^item> \<open>DBOS_Steps\<close>, \<open>DBOS_Step_Inv\<close>: \<^verbatim>\<open>invoke_step\<close> and \<^verbatim>\<open>run_step\<close> of \<^verbatim>\<open>dbos/_core.py\<close>: a step runs once, with
    preemption and retries, and keeps the schema's invariant.
  \<^item> \<open>DBOS_Replay\<close>: workflow code as a tree of operations and decisions, its executions interleaved with other
    processes, and the locale \<open>durable_calls\<close>, the contract under which a crashed execution restarted from the
    beginning resumes where it stopped.
  \<^item> \<open>DBOS_API\<close>, \<open>DBOS_API_Replay\<close>, \<open>DBOS_API_Inv\<close>, \<open>DBOS_Durability\<close>: the operations that workflows call
    (class \<^verbatim>\<open>DBOS\<close> of \<^verbatim>\<open>dbos/_dbos.py\<close> over \<^verbatim>\<open>dbos/_core.py\<close>), each replayed from its checkpoint;
    together they interpret \<open>durable_calls\<close>, which gives durable execution.
  \<^item> \<open>DBOS_Start\<close>, \<open>DBOS_Execution\<close>, \<open>DBOS_Recovery\<close>: starting a workflow or child workflow, executing it
    and recording its outcome, recovering pending workflows (\<^verbatim>\<open>dbos/_core.py\<close>, \<^verbatim>\<open>dbos/_recovery.py\<close>,
    \<^verbatim>\<open>dbos/_roles.py\<close>).
  \<^item> \<open>DBOS_Calls\<close>: direct calls of workflows and the handles (\<^verbatim>\<open>workflow_wrapper\<close>, \<^verbatim>\<open>get_result\<close>): a called child
    runs once, and its recorded result is not read back.
  \<^item> \<open>DBOS_App_DB\<close>, \<open>DBOS_Transactions\<close>: the application database (\<^verbatim>\<open>dbos/_app_db.py\<close>) and transactions,
    whose effect and record commit together. A commit that raises is rolled back here; commits whose answer is lost are modelled
    for data sources only.
  \<^item> \<open>DBOS_Datasource\<close>: transactions on data sources (\<^verbatim>\<open>dbos/_datasource.py\<close>), recorded with their effect in the
    data source and then as steps; at most one effect under every behaviour of the driver.
  \<^item> \<open>DBOS_Reachable\<close>: all transactions together as one step relation (an import of rows that are themselves consistent, an
    entry of a stream at an offset read in any earlier database); the invariant of every reachable database
    and the life cycle of a workflow, an abstract machine that every transaction refines.
  \<^item> \<open>DBOS_Client\<close>, \<open>DBOS_Debouncer\<close>: the operations of a client (\<^verbatim>\<open>dbos/_client.py\<close>,
    \<^verbatim>\<open>dbos/_workflow_commands.py\<close>) and its debouncer (\<^verbatim>\<open>dbos/_debouncer.py\<close>): a reader gets the whole stream,
    and calls with one key are coalesced into one delayed workflow, whose uniqueness and state rest on the
    invariant of the reachable databases.
  \<^item> \<open>DBOS_Aggregates\<close>: the reports (\<^verbatim>\<open>list_workflow_steps\<close>, workflow and step aggregates, metrics): groups
    partition what the corresponding search finds; the \<^verbatim>\<open>where\<close> clauses of the aggregate query are modelled on their own and
    proved to agree with those of \<^verbatim>\<open>list_workflows\<close>.

  \<^bold>\<open>Loops and fuel.\<close> The walks use a measure (unvisited rows), the batched deletions the number of rows
  left and the retry loop of a step the attempts left; they are total. The retry loops of stream
  writes take one database per attempt (from a step one that is read and one that is written), since other processes may change it
  in between, and return \<open>None\<close> when the attempts are used up; the theorems state at which attempt they return. The
  stream reader, the debounce loop and the thread of a schedule likewise take the databases of each round. The
  cron search is a \<^verbatim>\<open>while\<close> loop that returns because every jump advances and the years are bounded. The
  loops of transactions retry as long as the driver reports retriable errors; their fuel bounds the attempts.

  \<^bold>\<open>User code\<close> (workflow, step and transaction functions, validators, hooks) is an argument: a function
  from the world, the system database and whatever else it changes, to an outcome and a new world.
  Parts of the world that the library only reads are in \<open>dbos_env\<close> (clock, serializer, executor ID).

  \<^bold>\<open>Not modelled.\<close> Threads and the event loop (operations are atomic where the code runs them in one
  transaction or under a lock, and interleavings are sequences of operations), LISTEN/NOTIFY, drivers and
  connection retries, tracing, the registration of functions, configuration, the SQL texts of the
  migrations other than the online ones, the conductor, the CLI. Of the cron iterator, the search backwards, changes of a zone's offset (daylight saving time) and hash
  IDs; dates are those of the Gregorian calendar without Python's limit of the year 9999.
\<close>

end
